(* ===== verification/Prelude.thy ===== *)
theory Prelude
  imports
    Main
    "HOL-Library.AList"
    "HOL-Library.List_Lexorder"
    "HOL-Library.Char_ord"
    "HOL-Library.Product_Lexorder"
begin

text \<open>
  The part of Python that the modelled modules share: exceptions as values, strings with the
  string methods the sources call, dictionaries with insertion order, and a generic notion of
  a transition system with an invariant.

  A Python \<open>str\<close> is a \<open>string\<close> (a list of \<open>char\<close>); a \<open>char\<close> stands for one of the code
  points U+0000 to U+00FF, and the character classes below are Python's classes restricted to
  that range. Python's \<open>int\<close> is \<open>int\<close> (\<open>nat\<close> where the source can only produce a count or a
  parsed run of digits). A \<open>dict\<close> is an association list: \<^const>\<open>AList.update\<close> overwrites
  in place or appends, which is the insertion order Python guarantees.
\<close>

section \<open>Exceptions\<close>

datatype py_error =
    ValueError string
  | RuntimeError string
  | KeyError string
  | TimeoutError string
  | FileNotFoundError string
  | IndexError
  | CalledProcessError
  | TimeoutExpired
  | OSError string
  | GitTechnicalFailure string
  | InheritanceTechnicalFailure string
  | RepositoryBusyError string
  | TypeError string

type_synonym 'a result = "py_error + 'a"

fun rbind :: "'a result \<Rightarrow> ('a \<Rightarrow> 'b result) \<Rightarrow> 'b result" where
  "rbind (Inl e) f = Inl e"
| "rbind (Inr x) f = f x"

fun is_ok :: "'a result \<Rightarrow> bool" where
  "is_ok (Inl e) = False"
| "is_ok (Inr x) = True"

text \<open>A loop that appends one value per element and stops at the first exception.\<close>

fun rmap :: "('a \<Rightarrow> 'b result) \<Rightarrow> 'a list \<Rightarrow> 'b list result" where
  "rmap f [] = Inr []"
| "rmap f (x # xs) = rbind (f x) (\<lambda>y. rbind (rmap f xs) (\<lambda>ys. Inr (y # ys)))"

text \<open>Stateful code that may raise: the state is kept on both ways out, as Python keeps what was
  assigned before an exception.\<close>

type_synonym ('s, 'a) action = "'s \<Rightarrow> 'a result \<times> 's"

definition act_return :: "'a \<Rightarrow> ('s, 'a) action" where
  "act_return x s = (Inr x, s)"

definition act_raise :: "py_error \<Rightarrow> ('s, 'a) action" where
  "act_raise e s = (Inl e, s)"

definition act_bind :: "('s, 'a) action \<Rightarrow> ('a \<Rightarrow> ('s, 'b) action) \<Rightarrow> ('s, 'b) action" where
  "act_bind m f s = (case m s of (Inl e, t) \<Rightarrow> (Inl e, t) | (Inr x, t) \<Rightarrow> f x t)"

definition act_modify :: "('s \<Rightarrow> 's) \<Rightarrow> ('s, unit) action" where
  "act_modify f s = (Inr (), f s)"

section \<open>Characters\<close>

abbreviation NL :: char where "NL \<equiv> CHR 0x0A"
abbreviation CR :: char where "CR \<equiv> CHR 0x0D"
abbreviation TAB :: char where "TAB \<equiv> CHR 0x09"
abbreviation BACKSLASH :: char where "BACKSLASH \<equiv> CHR 0x5C"
abbreviation DQUOTE :: char where "DQUOTE \<equiv> CHR 0x22"
abbreviation SQUOTE :: char where "SQUOTE \<equiv> CHR 0x27"

text \<open>\<open>str.isspace\<close> on one character of U+0000..U+00FF.\<close>

definition is_space :: "char \<Rightarrow> bool" where
  "is_space c \<longleftrightarrow> c \<in> set [CHR 0x09, CHR 0x0A, CHR 0x0B, CHR 0x0C, CHR 0x0D,
     CHR 0x1C, CHR 0x1D, CHR 0x1E, CHR 0x1F, CHR 0x20, CHR 0x85, CHR 0xA0]"

text \<open>The line boundaries of \<open>str.splitlines\<close> in the same range.\<close>

definition is_line_break :: "char \<Rightarrow> bool" where
  "is_line_break c \<longleftrightarrow> c \<in> set [CHR 0x0A, CHR 0x0B, CHR 0x0C, CHR 0x0D,
     CHR 0x1C, CHR 0x1D, CHR 0x1E, CHR 0x85]"

definition is_dec_digit :: "char \<Rightarrow> bool" where
  "is_dec_digit c \<longleftrightarrow> c \<in> set ''0123456789''"

text \<open>
  \<open>str.isdigit\<close> on one character: beside the ten decimal digits it also accepts the
  superscripts two, three and one, on which \<open>int()\<close> raises \<open>ValueError\<close>.
\<close>

definition is_digit :: "char \<Rightarrow> bool" where
  "is_digit c \<longleftrightarrow> is_dec_digit c \<or> c \<in> set [CHR 0xB2, CHR 0xB3, CHR 0xB9]"

definition is_ident_start :: "char \<Rightarrow> bool" where
  "is_ident_start c \<longleftrightarrow>
     c \<in> set ''ABCDEFGHIJKLMNOPQRSTUVWXYZabcdefghijklmnopqrstuvwxyz_''"

definition is_ident_char :: "char \<Rightarrow> bool" where
  "is_ident_char c \<longleftrightarrow> is_ident_start c \<or> is_dec_digit c"

definition is_hex_digit :: "char \<Rightarrow> bool" where
  "is_hex_digit c \<longleftrightarrow> c \<in> set ''0123456789abcdefABCDEF''"

section \<open>Strings\<close>

text \<open>\<open>s.startswith(p)\<close>\<close>

fun starts_with :: "string \<Rightarrow> string \<Rightarrow> bool" where
  "starts_with [] s = True"
| "starts_with (p # ps) [] = False"
| "starts_with (p # ps) (c # s) = (p = c \<and> starts_with ps s)"

text \<open>
  \<open>s.find(p)\<close>: the text before the first occurrence of \<open>p\<close> and the text from that
  occurrence on, or nothing.
\<close>

fun find_str :: "string \<Rightarrow> string \<Rightarrow> (string \<times> string) option" where
  "find_str p [] = (if p = [] then Some ([], []) else None)"
| "find_str p (c # s) =
     (if starts_with p (c # s) then Some ([], c # s)
      else (case find_str p s of None \<Rightarrow> None | Some (a, b) \<Rightarrow> Some (c # a, b)))"

definition contains_str :: "string \<Rightarrow> string \<Rightarrow> bool" where
  "contains_str p s \<longleftrightarrow> find_str p s \<noteq> None"

text \<open>\<open>s.split(c)\<close> and \<open>s.split(c, n)\<close> for a one-character separator.\<close>

fun py_split :: "char \<Rightarrow> string \<Rightarrow> string list" where
  "py_split c [] = [[]]"
| "py_split c (x # xs) =
     (if x = c then [] # py_split c xs
      else (case py_split c xs of [] \<Rightarrow> [[x]] | y # ys \<Rightarrow> (x # y) # ys))"

fun py_split_max :: "char \<Rightarrow> nat \<Rightarrow> string \<Rightarrow> string list" where
  "py_split_max c n [] = [[]]"
| "py_split_max c n (x # xs) =
     (if x = c \<and> 0 < n then [] # py_split_max c (n - 1) xs
      else (case py_split_max c n xs of [] \<Rightarrow> [[x]] | y # ys \<Rightarrow> (x # y) # ys))"

text \<open>\<open>sep.join(parts)\<close>\<close>

fun py_join :: "string \<Rightarrow> string list \<Rightarrow> string" where
  "py_join sep [] = []"
| "py_join sep [x] = x"
| "py_join sep (x # y # zs) = x @ sep @ py_join sep (y # zs)"

text \<open>\<open>s.lstrip(chars)\<close>, \<open>s.rstrip(chars)\<close> and \<open>s.strip(chars)\<close> over a character class.\<close>

definition py_lstrip :: "(char \<Rightarrow> bool) \<Rightarrow> string \<Rightarrow> string" where
  "py_lstrip p s = dropWhile p s"

definition py_rstrip :: "(char \<Rightarrow> bool) \<Rightarrow> string \<Rightarrow> string" where
  "py_rstrip p s = rev (dropWhile p (rev s))"

definition py_strip :: "(char \<Rightarrow> bool) \<Rightarrow> string \<Rightarrow> string" where
  "py_strip p s = py_rstrip p (py_lstrip p s)"

text \<open>\<open>s.splitlines()\<close>: a carriage return and line feed count as one boundary, and a final
  boundary opens no further line.\<close>

fun py_splitlines :: "string \<Rightarrow> string list" where
  "py_splitlines [] = []"
| "py_splitlines [x] = (if is_line_break x then [[]] else [[x]])"
| "py_splitlines (x # y # s) =
     (if x = CR \<and> y = NL then [] # py_splitlines s
      else if is_line_break x then [] # py_splitlines (y # s)
      else (case py_splitlines (y # s) of [] \<Rightarrow> [[x]] | l # ls \<Rightarrow> (x # l) # ls))"

text \<open>\<open>s.split()\<close>: the maximal runs of non-space characters.\<close>

fun py_words :: "string \<Rightarrow> string list" where
  "py_words [] = []"
| "py_words (c # s) =
     (if is_space c then py_words s
      else (case s of [] \<Rightarrow> [[c]]
            | d # _ \<Rightarrow> (if is_space d then [c] # py_words s
                       else (case py_words s of [] \<Rightarrow> [[c]] | w # ws \<Rightarrow> (c # w) # ws))))"

text \<open>\<open>s.replace('\r\n', '\n').replace('\r', '\n')\<close>, the line-end normalisation the C++ readers
  apply before anything else.\<close>

fun replace_crlf :: "string \<Rightarrow> string" where
  "replace_crlf [] = []"
| "replace_crlf [x] = [x]"
| "replace_crlf (x # y # s) =
     (if x = CR \<and> y = NL then NL # replace_crlf s else x # replace_crlf (y # s))"

definition replace_cr :: "string \<Rightarrow> string" where
  "replace_cr s = map (\<lambda>c. if c = CR then NL else c) s"

definition normalize_newlines :: "string \<Rightarrow> string" where
  "normalize_newlines s = replace_cr (replace_crlf s)"

text \<open>\<open>s.isdigit()\<close> and \<open>int(s)\<close> on a run of digits.\<close>

definition isdigit :: "string \<Rightarrow> bool" where
  "isdigit s \<longleftrightarrow> s \<noteq> [] \<and> list_all is_digit s"

fun digits_value :: "nat \<Rightarrow> string \<Rightarrow> nat" where
  "digits_value acc [] = acc"
| "digits_value acc (c # s) = digits_value (10 * acc + (of_char c - 48)) s"

definition py_int :: "string \<Rightarrow> nat result" where
  "py_int s = (if s \<noteq> [] \<and> list_all is_dec_digit s then Inr (digits_value 0 s)
               else Inl (ValueError ''invalid literal for int()''))"

text \<open>\<open>int(s)\<close> on any string: surrounding blanks, a sign, digits with single underscores between
  them.\<close>

definition split_sign :: "string \<Rightarrow> bool \<times> string" where
  "split_sign s = (case s of [] \<Rightarrow> (False, [])
     | c # r \<Rightarrow> if c = CHR ''-'' then (True, r) else if c = CHR ''+'' then (False, r) else (False, s))"

definition py_int_text :: "string \<Rightarrow> int result" where
  "py_int_text s =
     (let (neg, body) = split_sign (py_strip is_space s); groups = py_split (CHR ''_'') body in
      if list_all (\<lambda>g. g \<noteq> [] \<and> list_all is_dec_digit g) groups
      then Inr (if neg then - int (digits_value 0 (concat groups)) else int (digits_value 0 (concat groups)))
      else Inl (ValueError ''invalid literal for int()''))"

text \<open>\<open>c.lower()\<close> for one character: the ASCII and the Latin-1 capitals.\<close>

definition to_lower :: "char \<Rightarrow> char" where
  "to_lower c = (let n = (of_char c :: nat) in
     if (65 \<le> n \<and> n \<le> 90) \<or> (192 \<le> n \<and> n \<le> 222 \<and> n \<noteq> 215)
     then char_of (n + 32) else c)"

text \<open>\<open>str.upper\<close> on the letters that occur in keywords; no other character has an upper-case form in one.\<close>

definition to_upper :: "char \<Rightarrow> char" where
  "to_upper c = (let n = (of_char c :: nat) in if 97 \<le> n \<and> n \<le> 122 then char_of (n - 32) else c)"

text \<open>\<open>str(n)\<close> for an integer.\<close>

definition digit_char :: "nat \<Rightarrow> char" where
  "digit_char n = ''0123456789'' ! n"

fun show_nat :: "nat \<Rightarrow> string" where
  "show_nat n = (if n < 10 then [digit_char n]
                 else show_nat (n div 10) @ [digit_char (n mod 10)])"

declare show_nat.simps [simp del]

definition show_int :: "int \<Rightarrow> string" where
  "show_int i = (if i < 0 then CHR ''-'' # show_nat (nat (- i)) else show_nat (nat i))"

text \<open>Slicing \<open>xs[i:j]\<close>: a negative bound counts from the end, and bounds out of range are
  clipped.\<close>

definition slice_bound :: "nat \<Rightarrow> int \<Rightarrow> nat" where
  "slice_bound n i = (if i < 0 then nat (int n + i) else min n (nat i))"

definition py_slice :: "int \<Rightarrow> int \<Rightarrow> 'a list \<Rightarrow> 'a list" where
  "py_slice i j xs =
     (let a = slice_bound (length xs) i; b = slice_bound (length xs) j
      in take (b - a) (drop a xs))"

section \<open>Dictionaries\<close>

text \<open>
  \<open>d.setdefault(k, []).append(v)\<close> on a dictionary of lists, and
  \<open>d.setdefault(k, set()).add(v)\<close> on a dictionary of sets (a set is a list without
  repetitions).
\<close>

definition dict_append :: "'k \<Rightarrow> 'v \<Rightarrow> ('k \<times> 'v list) list \<Rightarrow> ('k \<times> 'v list) list" where
  "dict_append k v d =
     AList.update k ((case map_of d k of None \<Rightarrow> [] | Some vs \<Rightarrow> vs) @ [v]) d"

definition set_add :: "'v \<Rightarrow> 'v list \<Rightarrow> 'v list" where
  "set_add v vs = (if v \<in> set vs then vs else vs @ [v])"

definition dict_add :: "'k \<Rightarrow> 'v \<Rightarrow> ('k \<times> 'v list) list \<Rightarrow> ('k \<times> 'v list) list" where
  "dict_add k v d = AList.update k (set_add v (case map_of d k of None \<Rightarrow> [] | Some vs \<Rightarrow> vs)) d"

definition dict_get :: "('k \<times> 'v) list \<Rightarrow> 'k \<Rightarrow> 'v \<Rightarrow> 'v" where
  "dict_get d k v = (case map_of d k of None \<Rightarrow> v | Some w \<Rightarrow> w)"

text \<open>\<open>d.update(e)\<close>\<close>

definition dict_update :: "('k \<times> 'v) list \<Rightarrow> ('k \<times> 'v) list \<Rightarrow> ('k \<times> 'v) list" where
  "dict_update d e = fold (\<lambda>(k, v) d. AList.update k v d) e d"

section \<open>Lemma collections\<close>

named_theorems py_string \<open>facts about the string methods\<close>
named_theorems py_dict \<open>facts about dictionaries\<close>

section \<open>Results\<close>

lemma rbind_Inr_iff [simp]: "rbind r f = Inr y \<longleftrightarrow> (\<exists>x. r = Inr x \<and> f x = Inr y)"
  by (cases r) auto

lemma rbind_Inl_iff: "rbind r f = Inl e \<longleftrightarrow> r = Inl e \<or> (\<exists>x. r = Inr x \<and> f x = Inl e)"
  by (cases r) auto

lemma is_ok_iff: "is_ok r \<longleftrightarrow> (\<exists>x. r = Inr x)"
  by (cases r) auto

lemma rmap_set: "rmap f xs = Inr ys \<Longrightarrow> y \<in> set ys \<longleftrightarrow> (\<exists>x \<in> set xs. f x = Inr y)"
  by (induction xs arbitrary: ys) auto

lemma rmap_total: "rmap f xs = Inr ys \<Longrightarrow> x \<in> set xs \<Longrightarrow> \<exists>y \<in> set ys. f x = Inr y"
  by (induction xs arbitrary: ys) auto

lemma act_simps [simp]:
  "act_return x s = (Inr x, s)" "act_raise e s = (Inl e, s)" "act_modify f s = (Inr (), f s)"
  by (simp_all add: act_return_def act_raise_def act_modify_def)

lemma act_bind_Inr: "act_bind m f s = (Inr y, u) \<longleftrightarrow> (\<exists>x t. m s = (Inr x, t) \<and> f x t = (Inr y, u))"
  by (auto simp: act_bind_def split: prod.splits sum.splits)

lemma act_bind_Inl:
  "act_bind m f s = (Inl e, u) \<longleftrightarrow> m s = (Inl e, u) \<or> (\<exists>x t. m s = (Inr x, t) \<and> f x t = (Inl e, u))"
  by (auto simp: act_bind_def split: prod.splits sum.splits)

lemma act_bind_cases:
  assumes "act_bind m f s = (out, u)"
  obtains (raised) e where "m s = (Inl e, u)" "out = Inl e"
  | (passed) x t where "m s = (Inr x, t)" "f x t = (out, u)"
  using assms by (auto simp: act_bind_def split: prod.splits sum.splits)

section \<open>Prefixes and searching\<close>

lemma find_SomeD: "List.find P xs = Some x \<Longrightarrow> x \<in> set xs \<and> P x"
  by (induction xs) (auto split: if_splits)

lemma find_NoneD: "List.find P xs = None \<Longrightarrow> x \<in> set xs \<Longrightarrow> \<not> P x"
  by (induction xs) (auto split: if_splits)

lemma starts_with_iff [py_string]: "starts_with p s \<longleftrightarrow> (\<exists>t. s = p @ t)"
  by (induction p s rule: starts_with.induct) auto

lemma starts_with_append [simp]: "starts_with p (p @ t)"
  by (simp add: starts_with_iff)

lemma starts_with_length: "starts_with p s \<Longrightarrow> length p \<le> length s"
  by (auto simp: starts_with_iff)

lemma starts_with_take: "starts_with p s \<Longrightarrow> p @ drop (length p) s = s"
  by (auto simp: starts_with_iff)

lemma find_str_Some [py_string]:
  "find_str p s = Some (a, b) \<Longrightarrow> s = a @ b \<and> starts_with p b"
  by (induction p s arbitrary: a b rule: find_str.induct)
     (auto split: if_splits option.splits)

lemma find_str_length:
  assumes "find_str p s = Some (a, b)"
  shows "length s = length a + length b" and "length p \<le> length b"
  using find_str_Some [OF assms] by (auto simp: starts_with_iff)

lemma find_str_None: "find_str p s = None \<Longrightarrow> s \<noteq> a @ p @ b"
proof (induction p s arbitrary: a rule: find_str.induct)
  case (1 p)
  then show ?case by (auto split: if_splits)
next
  case (2 p c s)
  show ?case
  proof (cases a)
    case Nil
    with "2.prems" show ?thesis
      by (auto simp: starts_with_iff split: if_splits option.splits)
  next
    case (Cons d a')
    from "2.prems" have "\<not> starts_with p (c # s)" and "find_str p s = None"
      by (auto split: if_splits option.splits)
    with "2.IH" Cons show ?thesis by auto
  qed
qed

lemma find_str_first:
  assumes "find_str p s = Some (a, b)" and "i < length a"
  shows "\<not> starts_with p (drop i s)"
  using assms
proof (induction p s arbitrary: a b i rule: find_str.induct)
  case (1 p)
  then show ?case by (auto split: if_splits)
next
  case (2 p c s)
  from "2.prems" obtain a' where a: "a = c # a'" and f: "find_str p s = Some (a', b)"
    and ns: "\<not> starts_with p (c # s)"
    by (auto split: if_splits option.splits)
  show ?case
  proof (cases i)
    case 0
    with ns show ?thesis by simp
  next
    case (Suc j)
    with a "2.prems"(2) have "j < length a'" by simp
    with "2.IH" [OF ns f] Suc show ?thesis by simp
  qed
qed

section \<open>Splitting and joining\<close>

lemma py_split_neq_Nil [simp]: "py_split c s \<noteq> []"
  by (induction s) (auto split: list.splits)

lemma py_split_max_neq_Nil [simp]: "py_split_max c n s \<noteq> []"
  by (induction c n s rule: py_split_max.induct) (auto split: list.splits)

lemma py_split_free: "c \<notin> set s \<Longrightarrow> py_split c s = [s]"
  by (induction s) auto

lemma py_split_parts [py_string]: "p \<in> set (py_split c s) \<Longrightarrow> c \<notin> set p"
  by (induction s arbitrary: p) (auto split: if_splits list.splits)

lemma py_split_append_sep: "c \<notin> set a \<Longrightarrow> py_split c (a @ c # s) = a # py_split c s"
  by (induction a) auto

lemma py_join_Cons: "ps \<noteq> [] \<Longrightarrow> py_join sep (p # ps) = p @ sep @ py_join sep ps"
  by (cases ps) auto

theorem py_join_split [py_string]: "py_join [c] (py_split c s) = s"
proof (induction s)
  case Nil
  then show ?case by simp
next
  case (Cons x s)
  obtain y ys where ys: "py_split c s = y # ys"
    by (cases "py_split c s") auto
  with Cons show ?case
    by (cases ys) (auto simp: py_join_Cons)
qed

theorem py_split_join [py_string]:
  "\<forall>p \<in> set ps. c \<notin> set p \<Longrightarrow> ps \<noteq> [] \<Longrightarrow> py_split c (py_join [c] ps) = ps"
proof (induction ps)
  case Nil
  then show ?case by simp
next
  case (Cons p ps)
  then show ?case
    by (cases ps) (auto simp: py_join_Cons py_split_free py_split_append_sep)
qed

lemma py_split_max_join: "py_join [c] (py_split_max c n s) = s"
proof (induction c n s rule: py_split_max.induct)
  case (1 c n)
  then show ?case by simp
next
  case (2 c n x s)
  obtain y ys where a: "py_split_max c n s = y # ys"
    by (cases "py_split_max c n s") auto
  obtain z zs where b: "py_split_max c (n - 1) s = z # zs"
    by (cases "py_split_max c (n - 1) s") auto
  from 2 a b show ?case
    by (cases ys) (auto simp: py_join_Cons)
qed

lemma length_py_split_max: "length (py_split_max c n s) \<le> Suc n"
  by (induction c n s rule: py_split_max.induct) (auto split: list.splits)

section \<open>Line splitting\<close>

lemma is_line_break_simps [simp]: "is_line_break NL" "is_line_break CR"
  by (simp_all add: is_line_break_def)

lemma py_splitlines_no_break:
  "\<forall>l \<in> set (py_splitlines s). list_all (\<lambda>x. \<not> is_line_break x) l"
proof (induction s rule: py_splitlines.induct)
  case (3 x y s)
  then show ?case
    by (cases "py_splitlines (y # s)") simp_all
qed simp_all

lemma py_splitlines_single:
  "list_all (\<lambda>c. \<not> is_line_break c) s \<Longrightarrow> s \<noteq> [] \<Longrightarrow> py_splitlines s = [s]"
proof (induction s rule: py_splitlines.induct)
  case (3 x y s)
  then have "x \<noteq> CR" by auto
  with 3 show ?case by simp
qed simp_all

lemma replace_crlf_no_CR: "CR \<notin> set s \<Longrightarrow> replace_crlf s = s"
  by (induction s rule: replace_crlf.induct) auto

lemma normalize_newlines_no_CR [simp]: "CR \<notin> set (normalize_newlines s)"
  by (auto simp: normalize_newlines_def replace_cr_def)

lemma normalize_newlines_id: "CR \<notin> set s \<Longrightarrow> normalize_newlines s = s"
  unfolding normalize_newlines_def replace_cr_def
  by (simp add: replace_crlf_no_CR) (rule map_idI, auto)

lemma normalize_newlines_idem: "normalize_newlines (normalize_newlines s) = normalize_newlines s"
  by (rule normalize_newlines_id) simp

section \<open>Numbers as text\<close>

lemma of_char_digit: "n < 10 \<Longrightarrow> (of_char (digit_char n) :: nat) = 48 + n"
proof -
  assume "n < 10"
  then have "n \<in> set [0, 1, 2, 3, 4, 5, 6, 7, 8, 9]" by auto
  then show ?thesis by (auto simp: digit_char_def)
qed

lemma is_dec_digit_char: "n < 10 \<Longrightarrow> is_dec_digit (digit_char n)"
  unfolding is_dec_digit_def digit_char_def by (rule nth_mem) simp

lemma digits_value_append: "digits_value a (s @ t) = digits_value (digits_value a s) t"
  by (induction s arbitrary: a) auto

lemma show_nat_digits: "list_all is_dec_digit (show_nat n) \<and> show_nat n \<noteq> []"
proof (induction n rule: show_nat.induct)
  case (1 n)
  then show ?case
    by (subst show_nat.simps, subst (2) show_nat.simps) (simp add: is_dec_digit_char)
qed

lemma digits_value_show_nat: "digits_value 0 (show_nat n) = n"
proof (induction n rule: show_nat.induct)
  case (1 n)
  then show ?case
    by (subst show_nat.simps) (simp add: digits_value_append of_char_digit)
qed

lemma digit_no_space: "is_dec_digit c \<Longrightarrow> \<not> is_space c"
  unfolding is_dec_digit_def by (auto simp: is_space_def)

lemma digits_no_space: "list_all is_dec_digit s \<Longrightarrow> list_all (\<lambda>c. \<not> is_space c) s"
  using digit_no_space by (auto simp: list_all_iff)

lemma strip_clean: "list_all (\<lambda>c. \<not> is_space c) s \<Longrightarrow> py_strip is_space s = s"
proof (cases s rule: rev_cases)
  case (snoc t c)
  assume "list_all (\<lambda>c. \<not> is_space c) s"
  with snoc show ?thesis
    by (cases t) (simp_all add: py_strip_def py_lstrip_def py_rstrip_def)
qed (simp add: py_strip_def py_lstrip_def py_rstrip_def)

lemma split_sign_digits: "list_all is_dec_digit s \<Longrightarrow> split_sign s = (False, s)"
  by (cases s) (auto simp: split_sign_def is_dec_digit_def)

lemma py_int_text_show: "py_int_text (show_nat n) = Inr (int n)"
proof -
  have d: "list_all is_dec_digit (show_nat n)" "show_nat n \<noteq> []" using show_nat_digits by auto
  then have "py_split (CHR ''_'') (show_nat n) = [show_nat n]"
    by (intro py_split_free) (auto simp: list_all_iff is_dec_digit_def)
  with d show ?thesis
    by (simp add: py_int_text_def strip_clean digits_no_space split_sign_digits digits_value_show_nat)
qed

section \<open>Slices\<close>

lemma py_slice_nonneg: "0 \<le> i \<Longrightarrow> 0 \<le> n \<Longrightarrow> i + n \<le> int (length xs) \<Longrightarrow>
    py_slice i (i + n) xs = take (nat n) (drop (nat i) xs)"
  by (simp add: py_slice_def slice_bound_def Let_def min_def nat_diff_distrib)
     (simp add: nat_add_distrib)

section \<open>Strictly increasing lists\<close>

lemma sorted_wrt_adjacent:
  fixes xs :: "'a :: linorder list"
  assumes "\<forall>(x, y) \<in> set (zip xs (tl xs)). x < y"
  shows "sorted_wrt (<) xs"
  using assms
proof (induction xs rule: induct_list012)
  case (3 x y zs)
  then show ?case by (auto intro: less_trans)
qed simp_all

section \<open>Updates by position\<close>

lemma nth_update_if: "q < length xs \<Longrightarrow> xs[r := x] ! q = (if r = q then x else xs ! q)"
  by auto

section \<open>Rows with a key\<close>

text \<open>\<open>UPDATE\<close> with a condition, and the number of rows it changed.\<close>

definition update_rows :: "('r \<Rightarrow> bool) \<Rightarrow> ('r \<Rightarrow> 'r) \<Rightarrow> 'r list \<Rightarrow> nat \<times> 'r list" where
  "update_rows P f rows = (length (filter P rows), map (\<lambda>r. if P r then f r else r) rows)"

lemma update_rows_keeps: "r \<in> set t \<Longrightarrow> \<not> p r \<Longrightarrow> r \<in> set (snd (update_rows p f t))"
  by (auto simp: update_rows_def image_iff intro!: bexI [of _ r])

lemma update_rows_ids: "(\<And>r. key (f r) = key r) \<Longrightarrow> map key (snd (update_rows p f t)) = map key t"
  by (simp add: update_rows_def)

lemma update_no_rows: "fst (update_rows p f t) = 0 \<Longrightarrow> snd (update_rows p f t) = t"
  by (auto simp: update_rows_def filter_empty_conv intro!: map_idI)

lemma find_unique: "distinct (map f t) \<Longrightarrow> r \<in> set t \<Longrightarrow> List.find (\<lambda>x. f x = f r) t = Some r"
  by (induction t) (auto simp: rev_image_eqI)

lemma filter_by_key:
  "distinct (map key xs) \<Longrightarrow> x \<in> set xs \<Longrightarrow> Q x \<Longrightarrow> filter (\<lambda>r. key r = key x \<and> Q r) xs = [x]"
proof (induction xs)
  case (Cons y ys)
  show ?case
  proof (cases "x = y")
    case True
    then have "filter (\<lambda>r. key r = key x \<and> Q r) ys = []" using Cons.prems(1) by (auto simp: filter_empty_conv image_iff)
    then show ?thesis using True Cons.prems(3) by simp
  next
    case False
    then have "key y \<noteq> key x" using Cons.prems(1,2) by force
    then show ?thesis using Cons False by simp
  qed
qed simp

lemma update_by_key:
  assumes "distinct (map key xs)" "x \<in> set xs" "Q x"
  shows "update_rows (\<lambda>r. key r = key x \<and> Q r) f xs = (1, map (\<lambda>r. if key r = key x then f r else r) xs)"
proof -
  have u: "r = x" if "r \<in> set xs" "key r = key x" for r using that assms(1,2) by (auto simp: distinct_map inj_on_def)
  have "map (\<lambda>r. if key r = key x \<and> Q r then f r else r) xs = map (\<lambda>r. if key r = key x then f r else r) xs"
    using u assms(3) by (intro map_cong) auto
  then show ?thesis using filter_by_key [of key xs x Q] assms by (simp add: update_rows_def)
qed

section \<open>Dictionary lemmas\<close>

lemma map_of_update [simp]: "map_of (AList.update k v d) = (map_of d)(k \<mapsto> v)"
  by (rule update_conv')

lemma update_fresh [py_dict]: "k \<notin> fst ` set d \<Longrightarrow> AList.update k v d = d @ [(k, v)]"
  by (induction d) auto

lemma map_of_rev_distinct [py_dict]: "distinct (map fst d) \<Longrightarrow> map_of (rev d) = map_of d"
  by (subst map_of_inject_set) (simp_all add: rev_map [symmetric])

lemma set_set_add [simp]: "set (set_add v vs) = insert v (set vs)"
  by (auto simp: set_add_def)

lemma distinct_set_add [simp]: "distinct (set_add v vs) \<longleftrightarrow> distinct vs"
  by (auto simp: set_add_def)

lemma map_of_dict_append [py_dict]:
  "map_of (dict_append k v d) =
     (map_of d)(k \<mapsto> (case map_of d k of None \<Rightarrow> [v] | Some vs \<Rightarrow> vs @ [v]))"
  by (simp add: dict_append_def split: option.split)

lemma map_of_dict_add [py_dict]:
  "map_of (dict_add k v d) =
     (map_of d)(k \<mapsto> set_add v (case map_of d k of None \<Rightarrow> [] | Some vs \<Rightarrow> vs))"
  by (simp add: dict_add_def)

lemma distinct_keys_update [py_dict]:
  "distinct (map fst d) \<Longrightarrow> distinct (map fst (AList.update k v d))"
  by (rule distinct_update)

lemma distinct_keys_append [py_dict]:
  "distinct (map fst d) \<Longrightarrow> distinct (map fst (dict_append k v d))"
  by (simp add: dict_append_def distinct_update)

lemma distinct_keys_add [py_dict]:
  "distinct (map fst d) \<Longrightarrow> distinct (map fst (dict_add k v d))"
  by (simp add: dict_add_def distinct_update)

lemma dict_get_fold_append [py_dict]:
  "dict_get (fold (\<lambda>x. dict_append (k x) (v x)) xs t) n [] =
   dict_get t n [] @ map v (filter (\<lambda>x. k x = n) xs)"
  by (induction xs arbitrary: t) (auto simp: dict_get_def map_of_dict_append split: option.split)

lemma dict_get_Nil [simp]: "dict_get [] k v = v"
  by (simp add: dict_get_def)

lemma map_of_fst_iff: "map_of d k = None \<longleftrightarrow> k \<notin> fst ` set d"
  by (rule map_of_eq_None_iff)

text \<open>The sum of the values of a dictionary, the reference for byte accounting.\<close>

definition sum_values :: "('k \<times> int) list \<Rightarrow> int" where
  "sum_values d = sum_list (map snd d)"

lemma sum_values_simps [simp]:
  "sum_values [] = 0" "sum_values (x # d) = snd x + sum_values d" "sum_values (d @ e) = sum_values d + sum_values e"
  by (simp_all add: sum_values_def)

lemma delete_absent [simp]: "k \<notin> fst ` set d \<Longrightarrow> AList.delete k d = d"
  by (induction d) (auto simp: AList.delete_eq)

lemma sum_values_delete: "distinct (map fst d) \<Longrightarrow> sum_values (AList.delete k d) = sum_values d - dict_get d k 0"
  by (induction d) (auto simp: dict_get_def)

lemma sum_values_update: "distinct (map fst d) \<Longrightarrow> sum_values (AList.update k v d) = sum_values d - dict_get d k 0 + v"
proof (induction d)
  case (Cons x d)
  then show ?case by (cases x) (auto simp: dict_get_def)
qed (simp add: dict_get_def)

lemma fst_set_delete: "fst ` set (AList.delete k d) = fst ` set d - {k}"
  by (auto simp: AList.delete_eq)

lemma distinct_keys_delete: "distinct (map fst d) \<Longrightarrow> distinct (map fst (AList.delete k d))"
  by (rule distinct_delete)

section \<open>Transition systems with an invariant\<close>

text \<open>
  The stateful components are transition systems: an initial-state predicate, a step relation
  labelled by the operation performed, and an invariant every operation keeps. The locale
  holds what all of them share: the invariant of every reachable state.
\<close>

inductive reaches :: "('s \<Rightarrow> 'l \<Rightarrow> 's \<Rightarrow> bool) \<Rightarrow> 's \<Rightarrow> 'l list \<Rightarrow> 's \<Rightarrow> bool"
  for step :: "'s \<Rightarrow> 'l \<Rightarrow> 's \<Rightarrow> bool" where
  reaches_refl: "reaches step s [] s"
| reaches_step: "reaches step s ls t \<Longrightarrow> step t l u \<Longrightarrow> reaches step s (ls @ [l]) u"

lemma reaches_Cons: "step s l t \<Longrightarrow> reaches step t ls u \<Longrightarrow> reaches step s (l # ls) u"
proof (rotate_tac, induction rule: reaches.induct)
  case (reaches_refl t)
  then show ?case using reaches.reaches_step [OF reaches.reaches_refl, of step s l t] by simp
next
  case (reaches_step t ls u l' v)
  then show ?case using reaches.reaches_step [of step s "l # ls" u l' v] by simp
qed

locale invariant_system =
  fixes start :: "'s \<Rightarrow> bool"
    and step :: "'s \<Rightarrow> 'l \<Rightarrow> 's \<Rightarrow> bool"
    and inv :: "'s \<Rightarrow> bool"
  assumes start_inv: "start s \<Longrightarrow> inv s"
    and step_inv: "inv s \<Longrightarrow> step s l t \<Longrightarrow> inv t"
begin

lemma reaches_inv: "reaches step s ls t \<Longrightarrow> inv s \<Longrightarrow> inv t"
  by (induction rule: reaches.induct) (auto intro: step_inv)

lemma reachable_inv: "start s \<Longrightarrow> reaches step s ls t \<Longrightarrow> inv t"
  by (blast intro: reaches_inv start_inv)

end

end
