(* ===== verification/CppLexer.thy ===== *)
theory CppLexer
  imports Prelude "HOL-Library.Sublist"
begin

text \<open>
  The C/C++ lexical normaliser of \<open>app/inheritance/normalizer.py\<close>: \<open>CppLexer.tokenize\<close>
  (a whole text), \<open>CppLexer.tokenize_lines\<close> (physical lines with the lexical state carried
  from line to line) and their helpers. A cursor \<open>index\<close> into \<open>text\<close> is modelled by the
  suffix \<open>text[index:]\<close>; every iteration of the source's \<open>while\<close> loop is one application
  of \<open>lex_step\<close> (\<open>line_step\<close>), which returns the tokens it emits and the new suffix.

  Shown: the loops terminate; tokens are non-empty and occur in the text in order; blanks and
  comments before a token never change the result; and the line-wise lexer agrees with the
  whole-text lexer on a line that leaves no construct open.
\<close>

section \<open>Helpers\<close>

definition RAW_PREFIXES :: "string list" where
  "RAW_PREFIXES = [''u8R'' @ [DQUOTE], ''uR'' @ [DQUOTE], ''UR'' @ [DQUOTE], ''LR'' @ [DQUOTE],
     ''R'' @ [DQUOTE]]"

definition raw_prefix_at :: "string \<Rightarrow> string" where
  "raw_prefix_at text =
     (case List.find (\<lambda>p. starts_with p text) RAW_PREFIXES of None \<Rightarrow> [] | Some p \<Rightarrow> p)"

definition has_line_splice :: "string \<Rightarrow> bool" where
  "has_line_splice line \<longleftrightarrow> odd (length (takeWhile (\<lambda>c. c = BACKSLASH) (rev line)))"

text \<open>\<open>_logical_lines\<close>: the inner loop joins spliced lines, the outer one starts the next entry.\<close>

fun join_splices :: "nat \<Rightarrow> string \<Rightarrow> string list \<Rightarrow> nat \<times> string \<times> string list" where
  "join_splices end_line value [] = (end_line, value, [])"
| "join_splices end_line value (l # ls) =
     (if has_line_splice value then join_splices (Suc end_line) (butlast value @ l) ls
      else (end_line, value, l # ls))"

lemma join_splices_length: "join_splices e v ls = (e', v', ls') \<Longrightarrow> length ls' \<le> length ls"
  by (induction e v ls rule: join_splices.induct) (auto split: if_splits)

function logical_lines_from :: "nat \<Rightarrow> string list \<Rightarrow> (nat \<times> nat \<times> string) list" where
  "logical_lines_from start [] = []"
| "logical_lines_from start (l # ls) =
     (case join_splices start l ls of
        (end_line, value, rest) \<Rightarrow>
          (start, end_line, value) # logical_lines_from (Suc end_line) rest)"
  by pat_completeness auto
termination
  by (relation "measure (\<lambda>(n, ls). length ls)") (auto dest: join_splices_length [OF sym])

definition logical_lines :: "string list \<Rightarrow> (nat \<times> nat \<times> string) list" where
  "logical_lines lines = logical_lines_from 1 lines"

section \<open>Tokens\<close>

definition OPERATORS :: "string list" where
  "OPERATORS = [''::'', ''->'', ''++'', ''--'', ''&&'', ''||'', ''=='', ''!='',
     ''<='', ''>='', ''+='', ''-='', ''*='', ''/='', ''<<'', ''>>'', ''##'', ''...'', ''?.'']"

text \<open>The body of a quoted literal after its opening quote: what is consumed, and the rest.\<close>

fun scan_quote :: "char \<Rightarrow> string \<Rightarrow> string \<times> string" where
  "scan_quote q [] = ([], [])"
| "scan_quote q [c] = ([c], [])"
| "scan_quote q (c # d # s) =
     (if c = BACKSLASH then (case scan_quote q s of (a, b) \<Rightarrow> (c # d # a, b))
      else if c = q then ([c], d # s)
      else (case scan_quote q (d # s) of (a, b) \<Rightarrow> (c # a, b)))"

definition delimiter_ok :: "string \<Rightarrow> bool" where
  "delimiter_ok d \<longleftrightarrow> length d \<le> 16 \<and>
     list_all (\<lambda>c. \<not> (is_space c \<or> c \<in> set [CHR ''('', CHR '')'', BACKSLASH, DQUOTE])) d"

definition raw_closing :: "string \<Rightarrow> string" where
  "raw_closing delimiter = CHR '')'' # delimiter @ [DQUOTE]"

text \<open>A raw string literal at the cursor: its text and the rest.\<close>

definition raw_literal_at :: "string \<Rightarrow> (string \<times> string) option" where
  "raw_literal_at s =
     (let p = raw_prefix_at s in
      if p = [] then None
      else case find_str ''('' (drop (length p) s) of
        None \<Rightarrow> None
      | Some (delimiter, opened) \<Rightarrow>
          if delimiter_ok delimiter then
            (case find_str (raw_closing delimiter) (tl opened) of
               None \<Rightarrow> None
             | Some (body, closed) \<Rightarrow>
                 Some (p @ delimiter @ ''('' @ body @ raw_closing delimiter,
                       drop (length (raw_closing delimiter)) closed))
          else None)"

text \<open>The number pattern: \<open>0[xX][0-9A-Fa-f]+\<close>, else \<open>[0-9]+(\.[0-9]*)?\<close>; the empty string is
  no match.\<close>

definition decimal_at :: "string \<Rightarrow> string" where
  "decimal_at s =
     (let ds = takeWhile is_dec_digit s in
      if ds = [] then []
      else case dropWhile is_dec_digit s of
        [] \<Rightarrow> ds
      | c # r \<Rightarrow> (if c = CHR ''.'' then ds @ c # takeWhile is_dec_digit r else ds))"

definition number_at :: "string \<Rightarrow> string" where
  "number_at s =
     (case s of
        z # x # r \<Rightarrow>
          (if z = CHR ''0'' \<and> x \<in> set ''xX'' \<and> takeWhile is_hex_digit r \<noteq> []
           then z # x # takeWhile is_hex_digit r else decimal_at s)
      | _ \<Rightarrow> decimal_at s)"

definition operator_at :: "string \<Rightarrow> string option" where
  "operator_at s = List.find (\<lambda>p. starts_with p s) OPERATORS"

text \<open>The identifier, number, operator and single-character branches shared by both lexers.\<close>

definition plain_token :: "char \<Rightarrow> string \<Rightarrow> string" where
  "plain_token c s =
     (if is_ident_start c then c # takeWhile is_ident_char s
      else if number_at (c # s) \<noteq> [] then number_at (c # s)
      else case operator_at (c # s) of Some p \<Rightarrow> p | None \<Rightarrow> [c])"

section \<open>tokenize\<close>

definition lex_step :: "char \<Rightarrow> string \<Rightarrow> string list \<times> string" where
  "lex_step c s =
     (if is_space c then ([], s)
      else if starts_with ''//'' (c # s) then
        (case find_str [NL] (tl s) of None \<Rightarrow> ([], []) | Some (_, b) \<Rightarrow> ([], tl b))
      else if starts_with ''/*'' (c # s) then
        (case find_str ''*/'' (tl s) of None \<Rightarrow> ([], []) | Some (_, b) \<Rightarrow> ([], drop 2 b))
      else if c = DQUOTE \<or> c = SQUOTE then
        (case scan_quote c s of (a, b) \<Rightarrow> ([c # a], b))
      else case raw_literal_at (c # s) of
        Some (t, rest) \<Rightarrow> ([t], rest)
      | None \<Rightarrow> ([plain_token c s], drop (length (plain_token c s)) (c # s)))"

text \<open>The progress of one iteration, needed for the termination of the loop.\<close>

lemma scan_quote_append: "scan_quote q s = (a, b) \<Longrightarrow> s = a @ b"
  by (induction q s arbitrary: a b rule: scan_quote.induct) (auto split: prod.splits if_splits)

lemma raw_prefix_at_starts: "starts_with (raw_prefix_at s) s"
  by (auto simp: raw_prefix_at_def find_Some_iff split: option.split)

lemma raw_literal_at_append:
  assumes "raw_literal_at s = Some (t, rest)"
  shows "s = t @ rest" and "t \<noteq> []"
proof -
  define p where "p = raw_prefix_at s"
  from assms obtain d opened body closed where
      p: "p \<noteq> []" and d: "find_str ''('' (drop (length p) s) = Some (d, opened)"
    and b: "find_str (raw_closing d) (tl opened) = Some (body, closed)"
    and t: "t = p @ d @ ''('' @ body @ raw_closing d"
    and rest: "rest = drop (length (raw_closing d)) closed"
    by (auto simp: raw_literal_at_def Let_def p_def split: if_splits option.splits)
  have "s = p @ drop (length p) s"
    using starts_with_take [OF raw_prefix_at_starts, of s] by (simp add: p_def)
  moreover have "drop (length p) s = d @ opened" and "opened = ''('' @ tl opened"
    using find_str_Some [OF d] by (auto simp: starts_with_iff)
  moreover have "tl opened = body @ closed" and "closed = raw_closing d @ rest"
    using find_str_Some [OF b] rest by (auto simp: starts_with_iff)
  ultimately show "s = t @ rest"
    using t by (metis append.assoc)
  show "t \<noteq> []" using p t by simp
qed

lemma decimal_at_prefix: "prefix (decimal_at s) s"
proof (cases "dropWhile is_dec_digit s")
  case Nil
  show ?thesis unfolding decimal_at_def Let_def Nil list.case by (simp add: takeWhile_is_prefix)
next
  case (Cons c r)
  have "s = takeWhile is_dec_digit s @ c # takeWhile is_dec_digit r @ dropWhile is_dec_digit r"
    using takeWhile_dropWhile_id [of is_dec_digit s] Cons by simp
  then have "prefix (takeWhile is_dec_digit s @ c # takeWhile is_dec_digit r) s"
    by (metis append.assoc append_Cons prefix_def)
  then show ?thesis
    unfolding decimal_at_def Let_def Cons list.case by (auto simp: takeWhile_is_prefix)
qed

lemma number_at_prefix: "prefix (number_at s) s"
proof (cases s)
  case Nil
  then show ?thesis by (simp add: number_at_def decimal_at_prefix del: prefix_Nil)
next
  case (Cons z s')
  then show ?thesis
    by (cases s') (auto simp: number_at_def decimal_at_prefix takeWhile_is_prefix)
qed

lemma operator_at_prefix: "operator_at s = Some p \<Longrightarrow> prefix p s \<and> p \<noteq> []"
  unfolding operator_at_def
  by (drule find_SomeD) (auto simp: starts_with_iff prefix_def OPERATORS_def)

lemma plain_token_prefix: "prefix (plain_token c s) (c # s) \<and> plain_token c s \<noteq> []"
  by (auto simp: plain_token_def number_at_prefix takeWhile_is_prefix
      dest: operator_at_prefix split: option.split)

lemma prefix_drop: "prefix p s \<Longrightarrow> p @ drop (length p) s = s"
  by (auto simp: prefix_def)

lemma suffix_tl_find: "find_str p s = Some (a, b) \<Longrightarrow> suffix (drop n b) s"
  using find_str_Some [of p s a b] by (auto simp: suffix_def) (metis append.assoc append_take_drop_id)

lemma lex_step_cases:
  assumes "lex_step c s = (toks, rest)"
  obtains (skip) "toks = []" and "suffix rest s"
    | (token) t where "toks = [t]" and "t \<noteq> []" and "c # s = t @ rest"
proof -
  have fin: "suffix (tl b) (tl s)" "suffix (drop 2 b) (tl s)"
    if "find_str p (tl s) = Some (a, b)" for p a b
    using suffix_tl_find [OF that, of 1] suffix_tl_find [OF that, of 2] by (simp_all add: drop_Suc)
  have tl: "suffix (tl s) s" by (simp add: suffix_tl)
  have "toks = [] \<and> suffix rest s \<or> (\<exists>t. toks = [t] \<and> t \<noteq> [] \<and> c # s = t @ rest)"
  proof (cases "is_space c \<or> starts_with ''//'' (c # s) \<or> starts_with ''/*'' (c # s)")
    case True
    with assms show ?thesis
      by (auto simp: lex_step_def split: if_splits option.splits
          intro: suffix_order.trans [OF fin(1) tl] suffix_order.trans [OF fin(2) tl]
          simp del: starts_with.simps)
  next
    case False
    with assms show ?thesis
      using plain_token_prefix [of c s] prefix_drop [of "plain_token c s" "c # s"]
      by (auto simp: lex_step_def simp del: starts_with.simps
          split: if_splits option.splits prod.splits
          dest: scan_quote_append raw_literal_at_append)
  qed
  with that show thesis by blast
qed

lemma token_decreases: "c # s = t @ rest \<Longrightarrow> t \<noteq> [] \<Longrightarrow> length rest < Suc (length s)"
  by (cases t) auto

lemma lex_step_length: "lex_step c s = (toks, rest) \<Longrightarrow> length rest < Suc (length s)"
  by (erule lex_step_cases) (auto dest: suffix_length_le intro: token_decreases)

function lex_text :: "string \<Rightarrow> string list" where
  "lex_text [] = []"
| "lex_text (c # s) = fst (lex_step c s) @ lex_text (snd (lex_step c s))"
  by pat_completeness auto
termination
  by (relation "measure length") (auto intro: lex_step_length [OF surjective_pairing])

text \<open>\<open>text.replace('\\\n', '')\<close>\<close>

fun remove_splices :: "string \<Rightarrow> string" where
  "remove_splices [] = []"
| "remove_splices [x] = [x]"
| "remove_splices (x # y # s) =
     (if x = BACKSLASH \<and> y = NL then remove_splices s else x # remove_splices (y # s))"

definition tokenize :: "string \<Rightarrow> string list" where
  "tokenize text = lex_text (remove_splices (normalize_newlines text))"

definition normalize_cpp :: "string \<Rightarrow> string list" where
  "normalize_cpp text = tokenize text"

definition tokens_equal :: "string list \<Rightarrow> string list \<Rightarrow> bool" where
  "tokens_equal left right \<longleftrightarrow> left = right"

section \<open>tokenize\_lines\<close>

record lex_state =
  block_comment :: bool
  quote :: "char option"
  literal :: string
  raw_delimiter :: "string option"
  raw_literal :: "string list"

definition init_lex_state :: lex_state where
  "init_lex_state = \<lparr>block_comment = False, quote = None, literal = [],
     raw_delimiter = None, raw_literal = []\<rparr>"

text \<open>The opening of a raw literal on a line: its delimiter, the opening text, the rest.\<close>

definition raw_open_at :: "string \<Rightarrow> (string \<times> string \<times> string) option" where
  "raw_open_at s =
     (let p = raw_prefix_at s in
      if p = [] then None
      else case find_str ''('' (drop (length p) s) of
        None \<Rightarrow> None
      | Some (delimiter, opened) \<Rightarrow>
          if delimiter_ok delimiter then Some (delimiter, p @ delimiter @ ''('', tl opened)
          else None)"

text \<open>
  One iteration on the physical line \<open>line\<close> with the unread suffix \<open>c # s\<close>: the new state, the
  tokens emitted, whether the line number joins \<open>line_splices\<close>, and the new suffix.
\<close>

definition step_block :: "lex_state \<Rightarrow> string \<Rightarrow> lex_state \<times> string list \<times> bool \<times> string" where
  "step_block st suf =
     (case find_str ''*/'' suf of
        None \<Rightarrow> (st, [], False, [])
      | Some (_, b) \<Rightarrow> (st\<lparr>block_comment := False\<rparr>, [], False, drop 2 b))"

definition step_raw ::
  "string \<Rightarrow> lex_state \<Rightarrow> string \<Rightarrow> lex_state \<times> string list \<times> bool \<times> string" where
  "step_raw d st suf =
     (case find_str (raw_closing d) suf of
        None \<Rightarrow> (st\<lparr>raw_literal := raw_literal st @ [suf]\<rparr>, [], False, [])
      | Some (a, b) \<Rightarrow>
          (st\<lparr>raw_delimiter := None, raw_literal := []\<rparr>,
           [concat (raw_literal st @ [a @ raw_closing d])], False,
           drop (length (raw_closing d)) b))"

definition step_quote ::
  "string \<Rightarrow> char \<Rightarrow> lex_state \<Rightarrow> char \<Rightarrow> string \<Rightarrow> lex_state \<times> string list \<times> bool \<times> string" where
  "step_quote line q st c s =
     (if c = BACKSLASH then
        (case s of
           d # s' \<Rightarrow> (st\<lparr>literal := literal st @ [c, d]\<rparr>, [], False, s')
         | [] \<Rightarrow> if has_line_splice line then (st, [], True, [])
                else (st\<lparr>literal := literal st @ [c]\<rparr>, [], False, []))
      else if c = q then
        (st\<lparr>quote := None, literal := []\<rparr>, [literal st @ [c]], False, s)
      else (st\<lparr>literal := literal st @ [c]\<rparr>, [], False, s))"

definition step_plain ::
  "string \<Rightarrow> lex_state \<Rightarrow> char \<Rightarrow> string \<Rightarrow> lex_state \<times> string list \<times> bool \<times> string" where
  "step_plain line st c s =
     (if is_space c then (st, [], False, s)
      else if starts_with ''//'' (c # s) then (st, [], False, [])
      else if starts_with ''/*'' (c # s) then (st\<lparr>block_comment := True\<rparr>, [], False, tl s)
      else case raw_open_at (c # s) of
        Some (delimiter, opening, rest) \<Rightarrow>
          (st\<lparr>raw_delimiter := Some delimiter, raw_literal := [opening]\<rparr>, [], False, rest)
      | None \<Rightarrow>
        if c = DQUOTE \<or> c = SQUOTE then (st\<lparr>quote := Some c, literal := [c]\<rparr>, [], False, s)
        else if c = BACKSLASH \<and> s = [] \<and> has_line_splice line then (st, [], True, [])
        else (st, [plain_token c s], False, drop (length (plain_token c s)) (c # s)))"

definition line_step ::
  "string \<Rightarrow> lex_state \<Rightarrow> char \<Rightarrow> string \<Rightarrow> lex_state \<times> string list \<times> bool \<times> string" where
  "line_step line st c s =
     (if block_comment st then step_block st (c # s)
      else case raw_delimiter st of
        Some d \<Rightarrow> step_raw d st (c # s)
      | None \<Rightarrow> (case quote st of
          Some q \<Rightarrow> step_quote line q st c s
        | None \<Rightarrow> step_plain line st c s))"

lemma raw_open_at_append:
  assumes "raw_open_at s = Some (d, opening, rest)"
  shows "s = opening @ rest" and "opening \<noteq> []"
proof -
  define p where "p = raw_prefix_at s"
  from assms obtain opened where
      f: "find_str ''('' (drop (length p) s) = Some (d, opened)"
    and o: "opening = p @ d @ ''(''" and rest: "rest = tl opened"
    by (auto simp: raw_open_at_def Let_def p_def split: if_splits option.splits)
  have "s = p @ drop (length p) s"
    using starts_with_take [OF raw_prefix_at_starts, of s] by (simp add: p_def)
  moreover have "drop (length p) s = d @ opened" and "opened = ''('' @ rest"
    using find_str_Some [OF f] rest by (auto simp: starts_with_iff)
  ultimately show "s = opening @ rest" using o by (metis append.assoc)
  show "opening \<noteq> []" using o by simp
qed

lemma raw_closing_neq_Nil [simp]: "raw_closing d \<noteq> []"
  by (simp add: raw_closing_def)

lemma find_str_drop_length:
  assumes "find_str p s = Some (a, b)" and "0 < n" and "p \<noteq> []"
  shows "length (drop n b) < length s"
  using find_str_length [OF assms(1)] assms(2,3) by (cases p) auto

lemma step_block_length:
  "step_block st (c # s) = (st', toks, sp, rest) \<Longrightarrow> length rest < Suc (length s)"
  using find_str_drop_length [of "''*/''" "c # s" _ _ 2]
  by (auto simp: step_block_def simp del: find_str.simps length_drop split: option.splits)

lemma step_raw_length:
  "step_raw d st (c # s) = (st', toks, sp, rest) \<Longrightarrow> length rest < Suc (length s)"
  using find_str_drop_length [of "raw_closing d" "c # s" _ _ "length (raw_closing d)"]
  by (auto simp: step_raw_def simp del: find_str.simps length_drop split: option.splits)

lemma step_quote_length:
  "step_quote line q st c s = (st', toks, sp, rest) \<Longrightarrow> length rest < Suc (length s)"
  by (auto simp: step_quote_def split: if_splits list.splits)

lemma plain_token_append: "plain_token c s @ drop (length (plain_token c s)) (c # s) = c # s"
  using plain_token_prefix [of c s] by (simp add: prefix_drop)

lemma step_plain_length:
  assumes "step_plain line st c s = (st', toks, sp, rest)"
  shows "length rest < Suc (length s)"
proof -
  have plain: "length (drop (length (plain_token c s)) (c # s)) < Suc (length s)"
    using token_decreases [OF plain_token_append [of c s, symmetric]] plain_token_prefix [of c s]
    by blast
  have raw: "length r < Suc (length s)" if "raw_open_at (c # s) = Some (d, ops, r)" for d ops r
    by (rule token_decreases [OF raw_open_at_append [OF that]])
  define r where "r = drop (length (plain_token c s)) (c # s)"
  show ?thesis
  proof (cases "raw_open_at (c # s)")
    case None
    with assms plain show ?thesis
      by (auto simp: step_plain_def simp flip: r_def split: if_splits)
  next
    case (Some x)
    obtain d ops r' where x: "x = (d, ops, r')" by (cases x)
    with Some raw have "length r' < Suc (length s)" by blast
    with assms Some x show ?thesis
      by (auto simp: step_plain_def split: if_splits)
  qed
qed

lemma line_step_length:
  "line_step line st c s = (st', toks, sp, rest) \<Longrightarrow> length rest < Suc (length s)"
  by (auto simp: line_step_def split: if_splits option.splits
      dest: step_block_length step_raw_length step_quote_length step_plain_length)


function line_lex :: "string \<Rightarrow> lex_state \<Rightarrow> string \<Rightarrow> lex_state \<times> string list \<times> bool" where
  "line_lex line st [] = (st, [], False)"
| "line_lex line st (c # s) =
     (case line_step line st c s of
        (st1, toks1, sp1, rest) \<Rightarrow>
          (case line_lex line st1 rest of
             (st2, toks2, sp2) \<Rightarrow> (st2, toks1 @ toks2, sp1 \<or> sp2)))"
  by pat_completeness auto
termination
  by (relation "measure (\<lambda>(line, st, s). length s)") (auto dest: line_step_length [OF sym])

text \<open>The loop over the numbered physical lines.\<close>

fun lex_lines ::
  "nat \<Rightarrow> lex_state \<Rightarrow> string list \<Rightarrow> lex_state \<times> (nat \<times> string list) list \<times> nat list" where
  "lex_lines n st [] = (st, [], [])"
| "lex_lines n st (line # lines) =
     (case line_lex line st line of
        (st1, toks, sp) \<Rightarrow>
          (case lex_lines (Suc n) st1 lines of
             (st2, result, splices) \<Rightarrow>
               (st2, (n, toks) # result, (if sp then n # splices else splices))))"

definition lex_uncertain :: "lex_state \<Rightarrow> bool" where
  "lex_uncertain st \<longleftrightarrow> block_comment st \<or> quote st \<noteq> None \<or> raw_delimiter st \<noteq> None"

text \<open>The result of \<open>tokenize_lines\<close> with the two attributes it leaves on the lexer,
  \<open>last_lines_uncertain\<close> and \<open>last_line_splices\<close>.\<close>

definition tokenize_lines :: "string \<Rightarrow> (nat \<times> string list) list \<times> bool \<times> nat list" where
  "tokenize_lines text =
     (case lex_lines 1 init_lex_state (py_split NL (normalize_newlines text)) of
        (st, result, splices) \<Rightarrow> (result, lex_uncertain st, splices))"

section \<open>Tokens come from the text\<close>

lemma lex_text_Cons: "lex_step c s = (toks, rest) \<Longrightarrow> lex_text (c # s) = toks @ lex_text rest"
  by simp

lemma lex_tokens_nonempty: "t \<in> set (lex_text s) \<Longrightarrow> t \<noteq> []"
proof (induction s rule: lex_text.induct)
  case (2 c s)
  obtain toks rest where st: "lex_step c s = (toks, rest)" by (cases "lex_step c s")
  have "t \<in> set toks \<Longrightarrow> t \<noteq> []" using st by (rule lex_step_cases) auto
  with 2 st lex_text_Cons [OF st] show ?case by auto
qed simp

lemma lex_subseq: "subseq (concat (lex_text s)) s"
proof (induction s rule: lex_text.induct)
  case (2 c s)
  obtain toks rest where st: "lex_step c s = (toks, rest)" by (cases "lex_step c s")
  with 2 have IH: "subseq (concat (lex_text rest)) rest" by simp
  from st show ?case
  proof (rule lex_step_cases)
    assume "toks = []" and "suffix rest s"
    with IH lex_text_Cons [OF st] show ?thesis
      by (auto simp: suffix_def)
  next
    fix t
    assume t: "toks = [t]" and cs: "c # s = t @ rest"
    have "subseq (t @ concat (lex_text rest)) (t @ rest)"
      by (rule list_emb_append_mono [OF subseq_order.order_refl IH])
    with t cs lex_text_Cons [OF st] show ?thesis by simp
  qed
qed simp

section \<open>Blanks and comments\<close>

text \<open>A stretch of source text without tokens: blanks and complete comments.\<close>

datatype trivia = Blank char | LineComment string | BlockComment string

fun trivia_ok :: "trivia \<Rightarrow> bool" where
  "trivia_ok (Blank c) = is_space c"
| "trivia_ok (LineComment s) = (NL \<notin> set s)"
| "trivia_ok (BlockComment s) = (find_str ''*/'' (s @ ''*'') = None)"

fun render_trivia :: "trivia \<Rightarrow> string" where
  "render_trivia (Blank c) = [c]"
| "render_trivia (LineComment s) = ''//'' @ s @ [NL]"
| "render_trivia (BlockComment s) = ''/*'' @ s @ ''*/''"

lemma not_space_slash [simp]: "\<not> is_space (CHR ''/'')"
  by (simp add: is_space_def)

lemma find_str_NL: "NL \<notin> set s \<Longrightarrow> find_str [NL] (s @ NL # t) = Some (s, NL # t)"
  by (induction s) auto

lemma find_str_NL_None: "NL \<notin> set s \<Longrightarrow> find_str [NL] s = None"
  by (induction s) auto

lemma find_str_block_end:
  "find_str ''*/'' (s @ ''*'') = None \<Longrightarrow> find_str ''*/'' (s @ ''*/'' @ t) = Some (s, ''*/'' @ t)"
proof (induction s)
  case Nil
  then show ?case by simp
next
  case (Cons c s)
  from Cons.prems have "\<not> starts_with ''*/'' (c # s @ ''*'')" and "find_str ''*/'' (s @ ''*'') = None"
    by (auto split: if_splits option.splits simp del: starts_with.simps)
  moreover from this have "\<not> starts_with ''*/'' (c # s @ ''*/'' @ t)"
    by (cases s) auto
  ultimately show ?case using Cons.IH by simp
qed

lemma lex_trivia: "trivia_ok v \<Longrightarrow> lex_text (render_trivia v @ s) = lex_text s"
proof (cases v)
  case (Blank c)
  assume "trivia_ok v"
  with Blank show ?thesis by (simp add: lex_step_def)
next
  case (LineComment u)
  assume "trivia_ok v"
  with LineComment show ?thesis by (simp add: lex_step_def find_str_NL)
next
  case (BlockComment u)
  assume "trivia_ok v"
  with BlockComment find_str_block_end [of u s] show ?thesis by (simp add: lex_step_def)
qed

lemma lex_trivia_list: "list_all trivia_ok vs \<Longrightarrow> lex_text (concat (map render_trivia vs) @ s) = lex_text s"
  by (induction vs) (simp_all add: lex_trivia)

section \<open>The line-wise lexer\<close>

lemma map_fst_lex_lines:
  "map fst (fst (snd (lex_lines n st lines))) = [n..<n + length lines]"
  by (induction n st lines rule: lex_lines.induct)
     (auto split: prod.splits simp: upt_conv_Cons simp del: upt_Suc)

lemma raw_literal_at_open:
  "raw_literal_at s =
     (case raw_open_at s of
        None \<Rightarrow> None
      | Some (d, opening, rest) \<Rightarrow>
          (case find_str (raw_closing d) rest of
             None \<Rightarrow> None
           | Some (body, closed) \<Rightarrow>
               Some (opening @ body @ raw_closing d, drop (length (raw_closing d)) closed)))"
  by (auto simp: raw_literal_at_def raw_open_at_def Let_def split: option.splits)

lemma raw_prefix_at_Cons:
  assumes "raw_prefix_at (c # s) \<noteq> []"
  shows "c \<noteq> DQUOTE" and "c \<noteq> SQUOTE"
proof -
  from assms obtain p where "List.find (\<lambda>p. starts_with p (c # s)) RAW_PREFIXES = Some p"
    by (auto simp: raw_prefix_at_def split: option.splits)
  from find_SomeD [OF this] show "c \<noteq> DQUOTE" and "c \<noteq> SQUOTE"
    by (auto simp: RAW_PREFIXES_def)
qed

lemma raw_open_at_not_quote:
  "raw_open_at (c # s) = Some x \<Longrightarrow> c \<noteq> DQUOTE \<and> c \<noteq> SQUOTE"
  using raw_prefix_at_Cons [of c s] by (auto simp: raw_open_at_def Let_def split: if_splits)

text \<open>The three open constructs, run to their end on the same line.\<close>

lemma line_lex_block:
  assumes "line_lex line (init_lex_state\<lparr>block_comment := True\<rparr>) s = (st, toks, sp)"
    and "\<not> lex_uncertain st"
  obtains a b where "find_str ''*/'' s = Some (a, b)"
    and "line_lex line init_lex_state (drop 2 b) = (st, toks, sp)"
proof (cases s)
  case Nil
  with assms show ?thesis by (auto simp: lex_uncertain_def)
next
  case (Cons c u)
  have init: "init_lex_state\<lparr>block_comment := False\<rparr> = init_lex_state"
    by (simp add: init_lex_state_def)
  show ?thesis
  proof (cases "find_str ''*/'' s")
    case None
    with assms Cons show ?thesis
      by (auto simp: line_step_def step_block_def lex_uncertain_def simp del: find_str.simps)
  next
    case (Some x)
    with assms Cons init that show ?thesis
      by (cases x) (auto simp: line_step_def step_block_def simp del: find_str.simps split: prod.splits)
  qed
qed

lemma line_lex_raw:
  assumes "line_lex line (init_lex_state\<lparr>raw_delimiter := Some d, raw_literal := [ops]\<rparr>) s = (st, toks, sp)"
    and "\<not> lex_uncertain st"
  obtains a b toks' where "find_str (raw_closing d) s = Some (a, b)"
    and "toks = (ops @ a @ raw_closing d) # toks'"
    and "line_lex line init_lex_state (drop (length (raw_closing d)) b) = (st, toks', sp)"
proof (cases s)
  case Nil
  with assms show ?thesis by (auto simp: lex_uncertain_def)
next
  case (Cons c u)
  have init: "init_lex_state\<lparr>raw_delimiter := None, raw_literal := []\<rparr> = init_lex_state"
    and noblock: "\<not> block_comment init_lex_state"
    by (simp_all add: init_lex_state_def)
  show ?thesis
  proof (cases "find_str (raw_closing d) s")
    case None
    with assms Cons noblock show ?thesis
      by (auto simp: line_step_def step_raw_def lex_uncertain_def simp del: find_str.simps)
  next
    case (Some x)
    with assms Cons init noblock that show ?thesis
      by (cases x) (auto simp: line_step_def step_raw_def simp del: find_str.simps split: prod.splits)
  qed
qed

lemma line_lex_quote:
  assumes "line_lex line (init_lex_state\<lparr>quote := Some q, literal := l\<rparr>) s = (st, toks, False)"
    and "\<not> lex_uncertain st" and "q \<noteq> BACKSLASH"
  shows "\<exists>a b toks'. scan_quote q s = (a, b) \<and> toks = (l @ a) # toks' \<and>
     line_lex line init_lex_state b = (st, toks', False)"
  using assms
proof (induction q s arbitrary: l toks rule: scan_quote.induct)
  case (1 q)
  then show ?case by (auto simp: lex_uncertain_def)
next
  case (2 q c)
  have init: "init_lex_state\<lparr>quote := None, literal := []\<rparr> = init_lex_state"
    by (simp add: init_lex_state_def)
  from 2 show ?case
    by (auto simp: line_step_def step_quote_def init init_lex_state_def lex_uncertain_def
        split: if_splits)
next
  case (3 q c d s)
  have init: "init_lex_state\<lparr>quote := None, literal := []\<rparr> = init_lex_state"
    and st: "\<not> block_comment init_lex_state" "raw_delimiter init_lex_state = None"
    by (simp_all add: init_lex_state_def)
  consider (esc) "c = BACKSLASH" | (close) "c \<noteq> BACKSLASH" "c = q" | (char) "c \<noteq> BACKSLASH" "c \<noteq> q"
    by blast
  then show ?case
  proof cases
    case esc
    with 3(3) st have "line_lex line (init_lex_state\<lparr>quote := Some q, literal := l @ [c, d]\<rparr>) s = (st, toks, False)"
      by (auto simp: line_step_def step_quote_def split: prod.splits)
    from 3(1) [OF esc this 3(4,5)] esc show ?thesis by auto
  next
    case close
    with 3(3) init st show ?thesis
      by (auto simp: line_step_def step_quote_def split: prod.splits)
  next
    case char
    with 3(3) st have "line_lex line (init_lex_state\<lparr>quote := Some q, literal := l @ [c]\<rparr>) (d # s) = (st, toks, False)"
      by (auto simp: line_step_def step_quote_def split: prod.splits)
    from 3(2) [OF char this 3(4,5)] char show ?thesis by auto
  qed
qed

text \<open>Without a newline, one step of the whole-text lexer is one of these.\<close>

lemma lex_step_line:
  assumes "NL \<notin> set s"
  shows "lex_step c s =
     (if is_space c then ([], s)
      else if starts_with ''//'' (c # s) then ([], [])
      else if starts_with ''/*'' (c # s) then
        (case find_str ''*/'' (tl s) of None \<Rightarrow> ([], []) | Some (_, b) \<Rightarrow> ([], drop 2 b))
      else case raw_open_at (c # s) of
        Some (d, opening, rest) \<Rightarrow>
          (case find_str (raw_closing d) rest of
             Some (body, closed) \<Rightarrow>
               ([opening @ body @ raw_closing d], drop (length (raw_closing d)) closed)
           | None \<Rightarrow> ([plain_token c s], drop (length (plain_token c s)) (c # s)))
      | None \<Rightarrow>
          if c = DQUOTE \<or> c = SQUOTE then (case scan_quote c s of (a, b) \<Rightarrow> ([c # a], b))
          else ([plain_token c s], drop (length (plain_token c s)) (c # s)))"
proof -
  have "NL \<notin> set (tl s)" using assms by (cases s) auto
  then have nl: "find_str [NL] (tl s) = None" by (rule find_str_NL_None)
  show ?thesis
    using raw_open_at_not_quote [of c s]
    by (auto simp: lex_step_def nl raw_literal_at_open simp del: starts_with.simps
        split: option.split prod.split)
qed

lemma line_lex_step_plain:
  assumes "line_lex line init_lex_state (c # u) = (st, toks, False)"
  obtains st1 toks1 rest toks2 where "step_plain line init_lex_state c u = (st1, toks1, False, rest)"
    and "line_lex line st1 rest = (st, toks2, False)" and "toks = toks1 @ toks2"
  using assms by (auto simp: line_step_def init_lex_state_def split: prod.splits)

text \<open>One iteration of the whole-text lexer is simulated by one or more iterations on the line.\<close>

lemma line_step_simulation:
  assumes step: "step_plain line init_lex_state c u = (st1, toks1, False, rest)"
    and run: "line_lex line st1 rest = (st, toks2, False)"
    and certain: "\<not> lex_uncertain st" and nl: "NL \<notin> set u"
    and lstep: "lex_step c u = (lt, lrest)"
  shows "\<exists>t. line_lex line init_lex_state lrest = (st, t, False) \<and> toks1 @ toks2 = lt @ t"
proof -
  consider (blank) "is_space c \<or> starts_with ''//'' (c # u)"
    | (block) "\<not> is_space c" "\<not> starts_with ''//'' (c # u)" "starts_with ''/*'' (c # u)"
    | (raw) "\<not> is_space c" "\<not> starts_with ''//'' (c # u)" "\<not> starts_with ''/*'' (c # u)"
        "raw_open_at (c # u) \<noteq> None"
    | (quoted) "\<not> is_space c" "\<not> starts_with ''//'' (c # u)" "\<not> starts_with ''/*'' (c # u)"
        "raw_open_at (c # u) = None" "c = DQUOTE \<or> c = SQUOTE"
    | (plain) "\<not> is_space c" "\<not> starts_with ''//'' (c # u)" "\<not> starts_with ''/*'' (c # u)"
        "raw_open_at (c # u) = None" "\<not> (c = DQUOTE \<or> c = SQUOTE)"
    by blast
  then show ?thesis
  proof cases
    case blank
    with step lstep run show ?thesis
      by (auto simp: step_plain_def lex_step_line [OF nl] simp del: starts_with.simps split: if_splits)
  next
    case block
    with step run have "line_lex line (init_lex_state\<lparr>block_comment := True\<rparr>) (tl u) = (st, toks2, False)"
      and "toks1 = []" by (simp_all add: step_plain_def del: starts_with.simps)
    moreover from this certain obtain a b where "find_str ''*/'' (tl u) = Some (a, b)"
      and "line_lex line init_lex_state (drop 2 b) = (st, toks2, False)"
      by (auto elim: line_lex_block)
    ultimately show ?thesis
      using block lstep by (simp add: lex_step_line [OF nl] del: starts_with.simps)
  next
    case raw
    then obtain d ops r where o: "raw_open_at (c # u) = Some (d, ops, r)" by (metis prod_cases3 option.exhaust)
    with raw step run have "toks1 = []" and
      "line_lex line (init_lex_state\<lparr>raw_delimiter := Some d, raw_literal := [ops]\<rparr>) r = (st, toks2, False)"
      by (simp_all add: step_plain_def del: starts_with.simps)
    moreover from this(2) certain obtain a b t where "find_str (raw_closing d) r = Some (a, b)"
      and "toks2 = (ops @ a @ raw_closing d) # t"
      and "line_lex line init_lex_state (drop (length (raw_closing d)) b) = (st, t, False)"
      by (auto elim: line_lex_raw)
    ultimately show ?thesis
      using raw(1-3) o lstep by (simp add: lex_step_line [OF nl] del: starts_with.simps)
  next
    case quoted
    with step run have "toks1 = []" and
      q: "line_lex line (init_lex_state\<lparr>quote := Some c, literal := [c]\<rparr>) u = (st, toks2, False)"
      by (auto simp: step_plain_def simp del: starts_with.simps)
    moreover have "c \<noteq> BACKSLASH" using quoted(5) by auto
    ultimately show ?thesis
      using line_lex_quote [OF q certain] quoted lstep
      by (auto simp: lex_step_line [OF nl] simp del: starts_with.simps)
  next
    case plain
    with step lstep run show ?thesis
      by (auto simp: step_plain_def lex_step_line [OF nl] simp del: starts_with.simps split: if_splits)
  qed
qed

lemma line_lex_agrees:
  assumes "line_lex line init_lex_state s = (st, toks, False)"
    and "\<not> lex_uncertain st" and "NL \<notin> set s"
  shows "toks = lex_text s"
  using assms
proof (induction "length s" arbitrary: s toks rule: less_induct)
  case less
  show ?case
  proof (cases s)
    case Nil
    with less.prems show ?thesis by auto
  next
    case (Cons c u)
    obtain st1 toks1 rest toks2 where
        step: "step_plain line init_lex_state c u = (st1, toks1, False, rest)"
      and run: "line_lex line st1 rest = (st, toks2, False)" and toks: "toks = toks1 @ toks2"
      using line_lex_step_plain less.prems(1) Cons by blast
    obtain lt lrest where lstep: "lex_step c u = (lt, lrest)" by (cases "lex_step c u")
    have "suffix lrest (c # u)"
      using lstep by (rule lex_step_cases) (auto simp: suffix_def)
    then have "set lrest \<subseteq> set s" using Cons set_mono_suffix by blast
    then have sub: "NL \<notin> set lrest" "length lrest < length s"
      using less.prems(3) Cons lex_step_length [OF lstep] by auto
    obtain t where t: "line_lex line init_lex_state lrest = (st, t, False)"
      and "toks1 @ toks2 = lt @ t"
      using line_step_simulation [OF step run less.prems(2) _ lstep] less.prems(3) Cons by auto
    with less.hyps [OF sub(2) t less.prems(2) sub(1)] toks Cons lstep show ?thesis by simp
  qed
qed

section \<open>Properties\<close>

lemma remove_splices_id: "NL \<notin> set s \<Longrightarrow> remove_splices s = s"
  by (induction s rule: remove_splices.induct) auto

lemma remove_splices_append: "BACKSLASH \<notin> set a \<Longrightarrow> remove_splices (a @ b) = a @ remove_splices b"
proof (induction a)
  case (Cons x a)
  then show ?case by (cases "a @ b") auto
qed simp

lemma normalize_newlines_append: "CR \<notin> set a \<Longrightarrow> normalize_newlines (a @ b) = a @ normalize_newlines b"
proof (induction a)
  case (Cons x a)
  then show ?case by (cases "a @ b") (auto simp: normalize_newlines_def replace_cr_def)
qed (simp add: normalize_newlines_def)

lemma normalize_newlines_no_NL: "NL \<notin> set s \<Longrightarrow> CR \<notin> set s \<Longrightarrow> NL \<notin> set (normalize_newlines s)"
  by (simp add: normalize_newlines_id)

lemma join_splices_end:
  "join_splices e v ls = (e', v', ls') \<Longrightarrow> e \<le> e' \<and> e' + length ls' = e + length ls"
  by (induction e v ls rule: join_splices.induct) (auto split: if_splits)

lemma logical_lines_from_ranges:
  "concat (map (\<lambda>(a, b, v). [a..<Suc b]) (logical_lines_from n ls)) = [n..<n + length ls]"
proof (induction n ls rule: logical_lines_from.induct)
  case (2 n l ls)
  obtain e v rest where j: "join_splices n l ls = (e, v, rest)" by (cases "join_splices n l ls")
  from join_splices_end [OF j] have e: "n \<le> e" "Suc e + length rest = n + length (l # ls)" by auto
  have "[n..<Suc e] @ [Suc e..<Suc e + length rest] = [n..<Suc e + length rest]"
    using e(1) by (metis le_SucI upt_add_eq_append)
  with 2 j e show ?case by (simp del: upt_Suc)
qed simp

text \<open>\<open>tokenize_lines\<close> numbers its entries 1, 2, ... with one entry per physical line,
  whatever the text.\<close>

lemma tokenize_lines_numbering:
  "map fst (fst (tokenize_lines text)) = [1..<Suc (length (py_split NL (normalize_newlines text)))]"
proof -
  let ?r = "lex_lines 1 init_lex_state (py_split NL (normalize_newlines text))"
  have "fst (tokenize_lines text) = fst (snd ?r)"
    by (simp add: tokenize_lines_def split: prod.split)
  then show ?thesis by (simp add: map_fst_lex_lines del: upt_Suc)
qed

text \<open>On a text of one physical line for which \<open>tokenize_lines\<close> reports neither an open
  construct (\<open>last_lines_uncertain\<close>) nor a line splice, the line-wise lexer returns exactly the
  tokens of the whole-text lexer \<open>tokenize\<close>.\<close>

lemma tokenize_lines_single_line:
  assumes "NL \<notin> set text" and "CR \<notin> set text"
    and "tokenize_lines text = (result, False, [])"
  shows "result = [(1, tokenize text)]"
proof -
  have lines: "py_split NL (normalize_newlines text) = [text]"
    and splice: "remove_splices (normalize_newlines text) = text"
    using assms(1,2) by (simp_all add: normalize_newlines_id py_split_free remove_splices_id)
  obtain st toks sp where run: "line_lex text init_lex_state text = (st, toks, sp)"
    by (cases "line_lex text init_lex_state text")
  with assms(3) lines have "result = [(1, toks)]" "\<not> lex_uncertain st" "\<not> sp"
    by (auto simp: tokenize_lines_def split: if_splits)
  moreover from this run have run': "line_lex text init_lex_state text = (st, toks, False)" by simp
  ultimately show ?thesis
    using line_lex_agrees [OF run'] assms(1) splice by (simp add: tokenize_def)
qed

theorem tokenize_lines_single_line_witness:
  "NL \<notin> set ''x = y; // set'' \<and> CR \<notin> set ''x = y; // set'' \<and>
   fst (tokenize_lines ''x = y; // set'') = [(1, tokenize ''x = y; // set'')]"
proof -
  have nl: "NL \<notin> set ''x = y; // set''" and cr: "CR \<notin> set ''x = y; // set''" by simp_all
  have run: "tokenize_lines ''x = y; // set'' = ([(1, [''x'', ''='', ''y'', '';''])], False, [])"
    by code_simp
  from tokenize_lines_single_line [OF nl cr run] run nl cr show ?thesis by simp
qed

text \<open>Every token of \<open>tokenize\<close> is non-empty, and the tokens written one after the other
  are a subsequence of the text after line-end normalisation and splice removal: nothing is
  invented and nothing is reordered.\<close>

lemma tokenize_tokens_in_order:
  "(\<forall>t. t \<in> set (tokenize text) \<longrightarrow> t \<noteq> []) \<and>
   subseq (concat (tokenize text)) (remove_splices (normalize_newlines text))"
  unfolding tokenize_def using lex_tokens_nonempty lex_subseq by blast

theorem tokenize_tokens_in_order_witness:
  "tokenize ''a+b'' = [''a'', ''+'', ''b''] \<and> subseq ''a+b'' ''a+b'' \<and> ''b'' \<noteq> []"
proof -
  have run: "tokenize ''a+b'' = [''a'', ''+'', ''b'']"
    and norm: "remove_splices (normalize_newlines ''a+b'') = ''a+b''" by code_simp+
  from tokenize_tokens_in_order [of "''a+b''"] run norm show ?thesis by simp
qed

text \<open>Blanks, line comments and block comments in front of a text do not change its tokens,
  so formatting and comment edits before a statement are invisible to the comparison of
  normalised lines.\<close>

lemma tokenize_ignores_trivia:
  assumes "list_all trivia_ok vs"
    and "CR \<notin> set (concat (map render_trivia vs))"
    and "BACKSLASH \<notin> set (concat (map render_trivia vs))"
  shows "tokenize (concat (map render_trivia vs) @ text) = tokenize text"
  unfolding tokenize_def
  by (simp only: normalize_newlines_append [OF assms(2)] remove_splices_append [OF assms(3)]
      lex_trivia_list [OF assms(1)])

theorem tokenize_ignores_trivia_witness:
  "tokenize (concat (map render_trivia [Blank (CHR '' ''), BlockComment ''a*b'', LineComment ''x''])
     @ ''y;'') = tokenize ''y;''"
  by (rule tokenize_ignores_trivia) (simp_all add: is_space_def)

text \<open>The entries of \<open>_logical_lines\<close> cover the physical lines without gap or overlap: the
  ranges \<open>start..end\<close>, in order, list every line number exactly once.\<close>

lemma logical_lines_cover:
  "concat (map (\<lambda>(start, end_line, value). [start..<Suc end_line]) (logical_lines lines)) =
     [1..<Suc (length lines)]"
  using logical_lines_from_ranges [of 1 lines] by (simp add: logical_lines_def)

end
