(* ===== verification/CppParser.thy ===== *)
theory CppParser
  imports CppLexer
begin

text \<open>
  The C/C++ source analyser of \<open>app/inheritance/cpp_parser.py\<close>: function identities and ranges, the
  control and preprocessor context of each line, macro and constant definitions and call sites,
  on top of the lexer of \<open>CppLexer\<close>. The regular expressions of the module have no choice that
  needs backtracking and are written as the parsers they denote; \<open>\w\<close> is Python's class on
  U+0000 to U+00FF. SHA-256 of a \<open>repr\<close> is a parameter.

  Shown: every function found has a range inside the file, the tokens of that range as its body
  and a proper name, ranges come in order and without repetition; every line has exactly one
  control context and one preprocessor context; balanced conditional blocks leave the context of
  what follows unchanged.
\<close>

text \<open>\<open>\w\<close>: letters, digits and other numbers of Latin-1, and the underscore.\<close>

definition is_word :: "char \<Rightarrow> bool" where
  "is_word c \<longleftrightarrow> is_ident_char c \<or>
     (let n = (of_char c :: nat) in n \<in> set [170, 178, 179, 181, 185, 186, 188, 189, 190] \<or>
        (192 \<le> n \<and> n \<noteq> 215 \<and> n \<noteq> 247))"

section \<open>Identities\<close>

record function_identity =
  id_path :: string
  id_scope :: "string list"
  id_name :: string
  id_parameters :: "string list"
  id_qualifiers :: "string list"
  id_trailing :: "string list"

type_synonym canonical_identity =
  "string \<times> string list \<times> string \<times> string list \<times> string list \<times> string list"

definition canonical :: "function_identity \<Rightarrow> canonical_identity" where
  "canonical i = (id_path i, id_scope i, id_name i, id_parameters i, id_qualifiers i, id_trailing i)"

definition identity_fingerprint :: "(canonical_identity \<Rightarrow> string) \<Rightarrow> function_identity \<Rightarrow> string" where
  "identity_fingerprint sha_repr i = sha_repr (canonical i)"

record source_function =
  identity :: function_identity
  f_start :: nat
  f_end :: nat
  body_tokens :: "string list"
  uncertain :: bool

definition body_fingerprint :: "(string list \<Rightarrow> string) \<Rightarrow> source_function \<Rightarrow> string" where
  "body_fingerprint sha_repr f = sha_repr (body_tokens f)"

definition CONTROL_WORDS :: "string list" where
  "CONTROL_WORDS = [''if'', ''else'', ''for'', ''while'', ''switch'', ''case'', ''catch'', ''do'']"

text \<open>The closing parenthesis that matches the one at the start: the tokens between, and the rest.\<close>

fun close_paren :: "nat \<Rightarrow> string list \<Rightarrow> (string list \<times> string list) option" where
  "close_paren depth [] = None"
| "close_paren depth (t # ts) =
     (let d = (if t = ''('' then depth + 1 else if t = '')'' then depth - 1 else depth) in
      if t = '')'' \<and> d = 0 then Some ([], ts)
      else case close_paren d ts of None \<Rightarrow> None | Some (a, b) \<Rightarrow> Some (t # a, b))"

definition last_open :: "string list \<Rightarrow> nat" where
  "last_open tokens = length tokens - 1 - length (takeWhile (\<lambda>t. t \<noteq> ''('') (rev tokens))"

fun scope_names :: "string list \<Rightarrow> string list" where
  "scope_names (t # u # ts) =
     (if t = ''namespace'' \<or> t = ''class'' then [u] else []) @ scope_names (u # ts)"
| "scope_names _ = []"

definition identity_from_tokens :: "string list \<Rightarrow> string \<Rightarrow> string list \<Rightarrow> function_identity option" where
  "identity_from_tokens tokens path scope_prefix =
     (if ''('' \<notin> set tokens \<or> '')'' \<notin> set tokens then None
      else let open_index = last_open tokens in
        case close_paren 1 (drop (open_index + 1) tokens) of
          None \<Rightarrow> None
        | Some (parameters, after) \<Rightarrow>
            if open_index = 0 then None
            else let before = rev (dropWhile (\<lambda>t. t \<in> {''*'', ''&'', ''&&'', ''::''}) (rev (take open_index tokens))) in
              if before = [] then None
              else let name = last before; name_index = length before - 1 in
                if name \<in> set CONTROL_WORDS \<or> name \<in> {''function'', ''sizeof'', ''return''} then None
                else if ''['' \<in> set (take open_index tokens) \<or> ''#'' \<in> set (take open_index tokens) then None
                else Some \<lparr>id_path = path,
                  id_scope = scope_prefix @ scope_names (take name_index tokens),
                  id_name = name, id_parameters = parameters,
                  id_qualifiers = takeWhile (\<lambda>t. t \<noteq> ''->'') after,
                  id_trailing = drop 1 (dropWhile (\<lambda>t. t \<noteq> ''->'') after)\<rparr>)"

definition looks_uncertain :: "string \<Rightarrow> bool" where
  "looks_uncertain hdr \<longleftrightarrow> (\<exists>t \<in> set (py_words hdr). t \<in> {''<'', ''>'', ''operator'', ''->*''})"

section \<open>Function ranges\<close>

record fn_scan =
  brace_depth :: nat
  brace_starts :: "(nat \<times> nat) list"
  brace_headers :: "(nat \<times> string list) list"
  brace_scope :: "(nat \<times> string option) list"
  scope_stack :: "string list"
  pending :: "string list"
  found :: "source_function list"

definition init_fn_scan :: fn_scan where
  "init_fn_scan = \<lparr>brace_depth = 0, brace_starts = [], brace_headers = [], brace_scope = [],
     scope_stack = [], pending = [], found = []\<rparr>"

text \<open>The token after the first occurrence of a keyword.\<close>

definition token_after :: "string \<Rightarrow> string list \<Rightarrow> string option" where
  "token_after keyword header =
     (case dropWhile (\<lambda>t. t \<noteq> keyword) header of _ # n # _ \<Rightarrow> Some n | _ \<Rightarrow> None)"

definition scope_of_header :: "string list \<Rightarrow> string option" where
  "scope_of_header header =
     (if ''namespace'' \<in> set header then token_after ''namespace'' header
      else if ''class'' \<in> set header then token_after ''class'' header
      else if ''struct'' \<in> set header then token_after ''struct'' header
      else None)"

definition open_brace :: "nat \<Rightarrow> string list \<Rightarrow> fn_scan \<Rightarrow> fn_scan" where
  "open_brace index before st =
     (let header = (if pending st = [] then before else pending st);
          depth = brace_depth st + 1; scope = scope_of_header header in
      st\<lparr>brace_depth := depth, brace_starts := AList.update depth index (brace_starts st),
         brace_headers := AList.update depth header (brace_headers st),
         brace_scope := AList.update depth scope (brace_scope st),
         scope_stack := (case scope of Some n \<Rightarrow> if n = [] then scope_stack st else scope_stack st @ [n] | None \<Rightarrow> scope_stack st),
         pending := []\<rparr>)"

definition closed_function ::
  "string list list \<Rightarrow> string \<Rightarrow> bool \<Rightarrow> nat \<Rightarrow> fn_scan \<Rightarrow> source_function list" where
  "closed_function token_lines path lexer_uncertain index st =
     (let header = dict_get (brace_headers st) (brace_depth st) [] in
      case map_of (brace_starts st) (brace_depth st) of
        None \<Rightarrow> []
      | Some start \<Rightarrow>
          if start \<le> index then
            (case identity_from_tokens header path (scope_stack st) of
               None \<Rightarrow> []
             | Some i \<Rightarrow> [\<lparr>identity = i, f_start = start, f_end = index,
                 body_tokens = concat (take (index - start) (drop start token_lines)),
                 uncertain = lexer_uncertain \<or> looks_uncertain (py_join '' '' header)\<rparr>])
          else [])"

definition close_brace :: "string list list \<Rightarrow> string \<Rightarrow> bool \<Rightarrow> nat \<Rightarrow> fn_scan \<Rightarrow> fn_scan" where
  "close_brace token_lines path lexer_uncertain index st =
     (let depth = brace_depth st - 1;
          closing = dict_get (brace_scope st) (depth + 1) None in
      st\<lparr>brace_starts := AList.delete (brace_depth st) (brace_starts st),
         brace_headers := AList.delete (brace_depth st) (brace_headers st),
         found := found st @ closed_function token_lines path lexer_uncertain index st,
         brace_depth := depth,
         brace_scope := AList.delete (depth + 1) (brace_scope st),
         scope_stack := (case closing of
            Some n \<Rightarrow> if n \<noteq> [] \<and> scope_stack st \<noteq> [] \<and> last (scope_stack st) = n then butlast (scope_stack st) else scope_stack st
          | None \<Rightarrow> scope_stack st),
         pending := []\<rparr>)"

definition fn_token ::
  "string list list \<Rightarrow> string \<Rightarrow> bool \<Rightarrow> nat \<Rightarrow> string list \<Rightarrow> string \<Rightarrow> fn_scan \<Rightarrow> fn_scan" where
  "fn_token token_lines path lexer_uncertain index before token st =
     (if token = ''{'' then open_brace index before st
      else if token = ''}'' then close_brace token_lines path lexer_uncertain index st
      else st\<lparr>pending := (if token = '';'' then [] else pending st @ [token])\<rparr>)"

fun fn_tokens ::
  "string list list \<Rightarrow> string \<Rightarrow> bool \<Rightarrow> nat \<Rightarrow> string list \<Rightarrow> string list \<Rightarrow> fn_scan \<Rightarrow> fn_scan" where
  "fn_tokens tls path u index before [] st = st"
| "fn_tokens tls path u index before (t # ts) st =
     fn_tokens tls path u index (before @ [t]) ts (fn_token tls path u index before t st)"

definition fn_line :: "string list list \<Rightarrow> string \<Rightarrow> bool \<Rightarrow> nat \<Rightarrow> string list \<Rightarrow> fn_scan \<Rightarrow> fn_scan" where
  "fn_line tls path u index tokens st =
     (if ''#'' \<in> set tokens
      then (fn_tokens tls path u index [] tokens (st\<lparr>pending := []\<rparr>))\<lparr>pending := []\<rparr>
      else fn_tokens tls path u index [] tokens st)"

fun fn_lines :: "string list list \<Rightarrow> string \<Rightarrow> bool \<Rightarrow> nat \<Rightarrow> string list list \<Rightarrow> fn_scan \<Rightarrow> fn_scan" where
  "fn_lines tls path u index [] st = st"
| "fn_lines tls path u index (ts # rest) st = fn_lines tls path u (index + 1) rest (fn_line tls path u index ts st)"

definition function_key :: "source_function \<Rightarrow> nat \<times> nat \<times> canonical_identity" where
  "function_key f = (f_start f, f_end f, canonical (identity f))"

text \<open>The loop over the sorted ranges that drops what was seen.\<close>

fun drop_seen :: "(nat \<times> nat \<times> canonical_identity) list \<Rightarrow> source_function list \<Rightarrow> source_function list" where
  "drop_seen seen [] = []"
| "drop_seen seen (f # fs) =
     (if function_key f \<in> set seen then drop_seen seen fs else f # drop_seen (function_key f # seen) fs)"

definition functions_of :: "string list list \<Rightarrow> string \<Rightarrow> bool \<Rightarrow> source_function list" where
  "functions_of token_lines path lexer_uncertain =
     drop_seen [] (sort_key function_key (found (fn_lines token_lines path lexer_uncertain 1 token_lines init_fn_scan)))"

section \<open>Control context\<close>

definition control_start :: "string list \<Rightarrow> nat \<Rightarrow> bool" where
  "control_start tokens i \<longleftrightarrow> i = 0 \<or> tokens ! (i - 1) \<in> {''{'', ''}'', '';'', '':'', ''else'', ''do''}"

text \<open>The end of a parenthesised condition.\<close>

fun paren_end :: "nat \<Rightarrow> nat \<Rightarrow> string list \<Rightarrow> nat" where
  "paren_end e depth [] = e"
| "paren_end e depth (t # ts) =
     (if t = ''('' then paren_end (e + 1) (depth + 1) ts
      else if t = '')'' then (if depth - 1 = 0 then e + 1 else paren_end (e + 1) (depth - 1) ts)
      else paren_end (e + 1) depth ts)"

definition control_descriptor :: "string list \<Rightarrow> nat \<Rightarrow> string \<times> nat" where
  "control_descriptor tokens i =
     (let token = tokens ! i in
      if token \<in> {''else'', ''do''} then (token, i + 1)
      else if token = ''case'' then
        let e = i + 1 + length (takeWhile (\<lambda>t. t \<noteq> '':'') (drop (i + 1) tokens)) in
        (py_join '' '' (take (e + 1 - i) (drop i tokens)), min (length tokens) (e + 1))
      else if i + 1 \<ge> length tokens \<or> tokens ! (i + 1) \<noteq> ''('' then (token, i + 1)
      else let e = paren_end (i + 1) 0 (drop (i + 1) tokens) in
        (py_join '' '' (take (e - i) (drop i tokens)), e))"

record control_scan =
  c_active :: "(nat \<times> string) list"
  c_depth :: nat
  c_line :: "string list"
  c_pending :: "string list"

function control_tokens :: "string list \<Rightarrow> nat \<Rightarrow> control_scan \<Rightarrow> control_scan" where
  "control_tokens tokens i st =
     (if i < length tokens then
        let token = tokens ! i in
        if token \<in> set CONTROL_WORDS \<and> control_start tokens i then
          (case control_descriptor tokens i of
             (d, e) \<Rightarrow>
               control_tokens tokens (max (i + 1) e)
                 (if d = [] then st
                  else st\<lparr>c_line := (if d \<in> set (c_line st) then c_line st else c_line st @ [d]),
                          c_pending := c_pending st @ [d]\<rparr>))
        else if token = ''{'' then
          control_tokens tokens (i + 1)
            (st\<lparr>c_depth := c_depth st + 1,
                c_active := c_active st @ map (\<lambda>d. (c_depth st + 1, d)) (c_pending st), c_pending := []\<rparr>)
        else if token = ''}'' then
          control_tokens tokens (i + 1)
            (st\<lparr>c_active := filter (\<lambda>x. fst x < c_depth st) (c_active st), c_depth := c_depth st - 1\<rparr>)
        else control_tokens tokens (i + 1) st
      else st)"
  by pat_completeness auto

termination control_tokens
  by (relation "measure (\<lambda>(tokens, i, st). length tokens - i)") auto

text \<open>Spliced physical lines form one group.\<close>

fun take_group :: "nat list \<Rightarrow> nat \<Rightarrow> string list \<Rightarrow> string list list \<Rightarrow> nat \<times> string list \<times> string list list" where
  "take_group splices e tokens [] = (e, tokens, [])"
| "take_group splices e tokens (ts # rest) =
     (if e \<in> set splices then take_group splices (e + 1) (tokens @ ts) rest else (e, tokens, ts # rest))"

lemma take_group_length: "take_group sp e t ls = (e', t', ls') \<Longrightarrow> length ls' \<le> length ls"
  by (induction sp e t ls rule: take_group.induct) (auto split: if_splits)

function control_groups :: "nat list \<Rightarrow> nat \<Rightarrow> string list list \<Rightarrow> (nat \<times> nat \<times> string list) list" where
  "control_groups splices start [] = []"
| "control_groups splices start (ts # rest) =
     (case take_group splices start ts rest of
        (e, tokens, rest') \<Rightarrow> (start, e, tokens) # control_groups splices (e + 1) rest')"
  by pat_completeness auto

termination control_groups
  by (relation "measure (\<lambda>(sp, n, ls). length ls)") (auto dest: take_group_length [OF sym])

fun control_lines ::
  "(nat \<times> string) list \<Rightarrow> nat \<Rightarrow> (nat \<times> nat \<times> string list) list \<Rightarrow> (nat \<times> string list) list" where
  "control_lines act depth [] = []"
| "control_lines act depth ((s, e, tokens) # rest) =
     (let st = control_tokens tokens 0 \<lparr>c_active = act, c_depth = depth, c_line = map snd act, c_pending = []\<rparr> in
      map (\<lambda>n. (n, c_line st)) [s..<e + 1] @ control_lines (c_active st) (c_depth st) rest)"

definition control_context :: "string list list \<Rightarrow> nat list \<Rightarrow> (nat \<times> string list) list" where
  "control_context token_lines splices = control_lines [] 0 (control_groups splices 1 token_lines)"

section \<open>Preprocessor context\<close>

definition pp_kinds :: "string list" where
  "pp_kinds = [''if'', ''ifdef'', ''ifndef'', ''elif'', ''else'', ''endif'']"

text \<open>The conditional directive of a logical line: its kind and its normalised expression.\<close>

definition pp_directive :: "string \<Rightarrow> (string \<times> string) option" where
  "pp_directive line =
     (let stripped = py_strip is_space line in
      if \<not> starts_with ''#'' stripped then None
      else let directive = py_strip is_space (drop 1 stripped); kind = takeWhile is_word directive in
        if kind \<in> set pp_kinds
        then Some (kind, py_join '' '' (normalize_cpp (py_strip is_space (drop (length kind) directive))))
        else None)"

definition pp_label :: "string \<Rightarrow> string \<Rightarrow> string" where
  "pp_label kind expression = py_strip is_space (kind @ '' '' @ expression)"

definition pp_step :: "string \<Rightarrow> string list \<Rightarrow> string list" where
  "pp_step line stack =
     (case pp_directive line of
        None \<Rightarrow> stack
      | Some (kind, expression) \<Rightarrow>
          if kind = ''endif'' then (if stack = [] then stack else butlast stack)
          else if kind \<in> {''elif'', ''else''} then
            (if stack = [] then stack else butlast stack @ [pp_label kind expression])
          else stack @ [pp_label kind expression])"

fun pp_lines :: "string list \<Rightarrow> (nat \<times> nat \<times> string) list \<Rightarrow> (nat \<times> string list) list" where
  "pp_lines stack [] = []"
| "pp_lines stack ((s, e, line) # rest) =
     map (\<lambda>n. (n, stack)) [s..<e + 1] @ pp_lines (pp_step line stack) rest"

definition preprocessor_context :: "string list \<Rightarrow> (nat \<times> string list) list" where
  "preprocessor_context lines = pp_lines [] (logical_lines lines)"

section \<open>Definitions and calls\<close>

text \<open>\<open>\s*#\s*define\s+([A-Za-z_]\w*)(.*)$\<close>\<close>

definition ident_at :: "string \<Rightarrow> (string \<times> string) option" where
  "ident_at s = (case s of [] \<Rightarrow> None
     | c # r \<Rightarrow> if is_ident_start c then Some (c # takeWhile is_word r, dropWhile is_word r) else None)"

definition skip_space :: "string \<Rightarrow> string" where
  "skip_space s = dropWhile is_space s"

definition need_space :: "string \<Rightarrow> string option" where
  "need_space s = (case s of [] \<Rightarrow> None | c # r \<Rightarrow> if is_space c then Some (skip_space r) else None)"

definition macro_at :: "string \<Rightarrow> (string \<times> string) option" where
  "macro_at line =
     (let s = skip_space line in
      if \<not> starts_with ''#'' s then None
      else let t = skip_space (drop 1 s) in
        if \<not> starts_with ''define'' t then None
        else case need_space (drop 6 t) of None \<Rightarrow> None | Some u \<Rightarrow> ident_at u)"

text \<open>\<open>\s*(?:constexpr|const)\s+[A-Za-z_:][\w:<>]*\s+([A-Za-z_]\w*)\s*=\s*(.*?);?\s*$\<close>\<close>

definition const_value :: "string \<Rightarrow> string" where
  "const_value s = (let t = py_rstrip is_space s in if t \<noteq> [] \<and> last t = CHR '';'' then butlast t else t)"

definition const_at :: "string \<Rightarrow> (string \<times> string) option" where
  "const_at line =
     (let s = skip_space line; keyword = takeWhile (\<lambda>c. \<not> is_space c) s in
      if keyword \<notin> {''constexpr'', ''const''} then None
      else case need_space (drop (length keyword) s) of None \<Rightarrow> None | Some t \<Rightarrow>
      case t of [] \<Rightarrow> None | c # r \<Rightarrow>
      if \<not> (is_ident_start c \<or> c = CHR '':'') then None
      else case need_space (dropWhile (\<lambda>x. is_word x \<or> x \<in> set '':<>'') r) of None \<Rightarrow> None | Some u \<Rightarrow>
      case ident_at u of None \<Rightarrow> None | Some (name, v) \<Rightarrow>
      let w = skip_space v in
      if \<not> starts_with ''='' w then None else Some (name, const_value (skip_space (drop 1 w))))"

definition collect_definitions ::
  "(string \<Rightarrow> (string \<times> string) option) \<Rightarrow> (nat \<times> nat \<times> string) list \<Rightarrow> (string \<times> nat \<times> string list) list" where
  "collect_definitions match ls =
     fold (\<lambda>(index, e, line) d. case match line of None \<Rightarrow> d
             | Some (name, value) \<Rightarrow> AList.update name (index, normalize_cpp value) d) ls []"

definition definitions_of :: "string list \<Rightarrow> (string \<times> nat \<times> string list) list \<times> (string \<times> nat \<times> string list) list" where
  "definitions_of lines =
     (collect_definitions macro_at (logical_lines lines), collect_definitions const_at (logical_lines lines))"

definition is_call_name :: "string \<Rightarrow> bool" where
  "is_call_name t = (case t of [] \<Rightarrow> False | c # r \<Rightarrow> is_ident_start c \<and> list_all is_word r)"

definition call_names :: "string list \<Rightarrow> string list" where
  "call_names tokens =
     map fst (filter (\<lambda>(t, u). is_call_name t \<and> u = ''('' \<and> t \<notin> set CONTROL_WORDS) (zip tokens (tl tokens)))"

definition calls_of :: "string list list \<Rightarrow> (nat \<times> string list) list" where
  "calls_of token_lines = zip [1..<length token_lines + 1] (map call_names token_lines)"

section \<open>The analysis\<close>

record analysis =
  supported :: bool
  a_functions :: "source_function list"
  controls :: "(nat \<times> string list) list"
  preprocessor :: "(nat \<times> string list) list"
  macros :: "(string \<times> nat \<times> string list) list"
  constants :: "(string \<times> nat \<times> string list) list"
  calls :: "(nat \<times> string list) list"
  a_lines :: "string list"
  a_tokens :: "string list list"
  a_path :: string
  a_uncertain :: bool

definition SUPPORTED_EXTENSIONS :: "string list" where
  "SUPPORTED_EXTENSIONS = [''.c'', ''.cc'', ''.cpp'', ''.cxx'', ''.h'', ''.hh'', ''.hpp'', ''.hxx'']"

definition extension_of :: "string \<Rightarrow> string" where
  "extension_of path =
     (if CHR ''.'' \<in> set path then CHR ''.'' # map to_lower (last (py_split (CHR ''.'') path)) else [])"

definition analyze :: "string \<Rightarrow> string \<Rightarrow> analysis" where
  "analyze source path =
     (if extension_of path \<noteq> [] \<and> extension_of path \<notin> set SUPPORTED_EXTENSIONS
      then \<lparr>supported = False, a_functions = [], controls = [], preprocessor = [], macros = [], constants = [],
            calls = [], a_lines = [], a_tokens = [], a_path = [], a_uncertain = False\<rparr>
      else let lines = py_split NL (normalize_newlines source) in
        case tokenize_lines source of
          (numbered, lexer_uncertain, splices) \<Rightarrow>
            let token_lines = map snd numbered; defs = definitions_of lines in
            \<lparr>supported = True, a_functions = functions_of token_lines path lexer_uncertain,
             controls = control_context token_lines splices, preprocessor = preprocessor_context lines,
             macros = fst defs, constants = snd defs, calls = calls_of token_lines, a_lines = lines,
             a_tokens = token_lines, a_path = path, a_uncertain = lexer_uncertain\<rparr>)"

definition function_for_line :: "analysis \<Rightarrow> nat \<Rightarrow> source_function option" where
  "function_for_line a line =
     (case filter (\<lambda>f. f_start f \<le> line \<and> line \<le> f_end f) (a_functions a) of [f] \<Rightarrow> Some f | _ \<Rightarrow> None)"

section \<open>Function ranges are well formed\<close>

definition good_function :: "string list list \<Rightarrow> string \<Rightarrow> nat \<Rightarrow> source_function \<Rightarrow> bool" where
  "good_function tls path n f \<longleftrightarrow> 1 \<le> f_start f \<and> f_start f \<le> f_end f \<and> f_end f \<le> n \<and>
     body_tokens f = concat (take (f_end f - f_start f) (drop (f_start f) tls)) \<and>
     id_path (identity f) = path \<and> id_name (identity f) \<notin> set CONTROL_WORDS"

definition scan_inv :: "string list list \<Rightarrow> string \<Rightarrow> nat \<Rightarrow> fn_scan \<Rightarrow> bool" where
  "scan_inv tls path n st \<longleftrightarrow> (\<forall>s \<in> snd ` set (brace_starts st). 1 \<le> s \<and> s \<le> n) \<and>
     list_all (good_function tls path n) (found st)"

lemma identity_name:
  "identity_from_tokens tokens path sc = Some i \<Longrightarrow> id_path i = path \<and> id_name i \<notin> set CONTROL_WORDS"
  by (auto simp: identity_from_tokens_def Let_def split: if_splits option.splits prod.splits)

lemma snd_update_subset: "snd ` set (AList.update k v d) \<subseteq> insert v (snd ` set d)"
  by (induction d) auto

lemma snd_delete_subset: "snd ` set (AList.delete k d) \<subseteq> snd ` set d"
  by (auto simp: AList.delete_eq)

lemma open_brace_inv: "scan_inv tls path n st \<Longrightarrow> 1 \<le> n \<Longrightarrow> scan_inv tls path n (open_brace n before st)"
  using snd_update_subset [of "brace_depth st + 1" n "brace_starts st"]
  unfolding scan_inv_def open_brace_def Let_def by fastforce

lemma closed_function_good:
  assumes "scan_inv tls path n st"
  shows "list_all (good_function tls path n) (closed_function tls path u n st)"
proof (cases "map_of (brace_starts st) (brace_depth st)")
  case None
  then show ?thesis by (simp add: closed_function_def)
next
  case (Some start)
  then have "1 \<le> start" using assms by (force simp: scan_inv_def dest: map_of_SomeD)
  with Some show ?thesis
    by (auto simp: closed_function_def good_function_def Let_def dest: identity_name split: option.split)
qed

lemma close_brace_inv: "scan_inv tls path n st \<Longrightarrow> scan_inv tls path n (close_brace tls path u n st)"
  using closed_function_good [of tls path n st u] snd_delete_subset [of "brace_depth st" "brace_starts st"]
  unfolding scan_inv_def close_brace_def Let_def by fastforce

lemma fn_tokens_inv:
  "scan_inv tls path n st \<Longrightarrow> 1 \<le> n \<Longrightarrow> scan_inv tls path n (fn_tokens tls path u n before ts st)"
proof (induction ts arbitrary: before st)
  case (Cons t ts)
  have "scan_inv tls path n (st\<lparr>pending := p\<rparr>)" for p
    using Cons.prems(1) by (simp add: scan_inv_def)
  then have "scan_inv tls path n (fn_token tls path u n before t st)"
    using open_brace_inv [OF Cons.prems] close_brace_inv [OF Cons.prems(1)] by (simp add: fn_token_def)
  with Cons show ?case by simp
qed simp

lemma scan_inv_pending [simp]: "scan_inv tls path n (st\<lparr>pending := p\<rparr>) = scan_inv tls path n st"
  by (simp add: scan_inv_def)

lemma fn_line_inv: "scan_inv tls path n st \<Longrightarrow> 1 \<le> n \<Longrightarrow> scan_inv tls path n (fn_line tls path u n ts st)"
  by (simp add: fn_line_def fn_tokens_inv)

lemma scan_inv_mono: "scan_inv tls path n st \<Longrightarrow> n \<le> m \<Longrightarrow> scan_inv tls path m st"
  unfolding scan_inv_def list_all_iff good_function_def by (meson le_trans)

lemma fn_lines_inv:
  "scan_inv tls path n st \<Longrightarrow> scan_inv tls path (n + length rest) (fn_lines tls path u (Suc n) rest st)"
proof (induction rest arbitrary: n st)
  case (Cons ts rest)
  have "scan_inv tls path (Suc n) (fn_line tls path u (Suc n) ts st)"
    using fn_line_inv [OF scan_inv_mono [OF Cons.prems]] by simp
  with Cons.IH [of "Suc n"] show ?case by simp
qed simp

lemma set_drop_seen: "set (drop_seen seen fs) \<subseteq> set fs"
  by (induction seen fs rule: drop_seen.induct) auto

lemma drop_seen_distinct:
  "distinct (map function_key (drop_seen seen fs)) \<and> function_key ` set (drop_seen seen fs) \<inter> set seen = {}"
  by (induction seen fs rule: drop_seen.induct) auto

lemma drop_seen_sorted:
  "sorted (map function_key fs) \<Longrightarrow> sorted (map function_key (drop_seen seen fs))"
  by (induction seen fs rule: drop_seen.induct) (use set_drop_seen in \<open>fastforce+\<close>)

lemma found_good:
  "list_all (good_function tls path (length tls)) (found (fn_lines tls path u 1 tls init_fn_scan))"
  using fn_lines_inv [of tls path 0 init_fn_scan tls u] by (simp add: scan_inv_def init_fn_scan_def)

lemma functions_of_good: "f \<in> set (functions_of tls path u) \<Longrightarrow> good_function tls path (length tls) f"
  using found_good [of tls path u] set_drop_seen unfolding functions_of_def list_all_iff by fastforce

section \<open>One context per line\<close>

lemma take_group_count:
  "take_group sp e t ls = (e', t', ls') \<Longrightarrow> e \<le> e' \<and> e' - e + length ls' = length ls"
  by (induction sp e t ls rule: take_group.induct) (fastforce split: if_splits)+

lemma control_lines_numbers:
  "map fst (control_lines act depth (control_groups sp n ls)) = [n..<n + length ls]"
proof (induction sp n ls arbitrary: act depth rule: control_groups.induct)
  case (2 sp n ts rest)
  obtain e tokens rest' where g: "take_group sp n ts rest = (e, tokens, rest')" by (cases "take_group sp n ts rest")
  have c: "n \<le> e" "e - n + length rest' = length rest" using take_group_count [OF g] by auto
  then have "n + length (ts # rest) = e + 1 + length rest'" by simp
  moreover have "[n..<e + 1 + length rest'] = [n..<e + 1] @ [e + 1..<e + 1 + length rest']"
    using c(1) by (intro upt_add_eq_append) simp
  ultimately show ?case using 2 [OF g [symmetric]] g by (simp add: Let_def comp_def)
qed simp

lemma pp_lines_numbers: "map fst (pp_lines stack ls) = concat (map (\<lambda>(a, b, v). [a..<Suc b]) ls)"
  by (induction stack ls rule: pp_lines.induct) (simp_all add: comp_def)

section \<open>Conditional blocks\<close>

text \<open>Well nested conditional blocks: lines that are no conditional directive, and groups of an opening
  directive, branches and a closing one.\<close>

definition opens :: "string \<Rightarrow> bool" where
  "opens line \<longleftrightarrow> (case pp_directive line of Some (k, e) \<Rightarrow> k \<in> {''if'', ''ifdef'', ''ifndef''} | None \<Rightarrow> False)"

definition switches :: "string \<Rightarrow> bool" where
  "switches line \<longleftrightarrow> (case pp_directive line of Some (k, e) \<Rightarrow> k \<in> {''elif'', ''else''} | None \<Rightarrow> False)"

definition closes :: "string \<Rightarrow> bool" where
  "closes line \<longleftrightarrow> (case pp_directive line of Some (k, e) \<Rightarrow> k = ''endif'' | None \<Rightarrow> False)"

inductive balanced :: "string list \<Rightarrow> bool" and branches :: "string list \<Rightarrow> bool" where
  balanced_empty: "balanced []"
| balanced_plain: "pp_directive l = None \<Longrightarrow> balanced ls \<Longrightarrow> balanced (l # ls)"
| balanced_group: "opens l \<Longrightarrow> branches b \<Longrightarrow> closes c \<Longrightarrow> balanced ls \<Longrightarrow> balanced (l # b @ c # ls)"
| branches_one: "balanced ls \<Longrightarrow> branches ls"
| branches_more: "balanced ls \<Longrightarrow> switches l \<Longrightarrow> branches b \<Longrightarrow> branches (ls @ l # b)"

lemma pp_step_opens: "opens l \<Longrightarrow> \<exists>x. pp_step l stack = stack @ [x]"
  by (auto simp: opens_def pp_step_def split: option.splits)

lemma pp_step_switches: "switches l \<Longrightarrow> \<exists>y. pp_step l (stack @ [x]) = stack @ [y]"
  by (auto simp: switches_def pp_step_def split: option.splits)

lemma pp_step_closes: "closes l \<Longrightarrow> pp_step l (stack @ [x]) = stack"
  by (auto simp: closes_def pp_step_def split: option.splits)

lemma balanced_branches_stack:
  "(balanced ls \<longrightarrow> (\<forall>stack. fold pp_step ls stack = stack)) \<and>
   (branches b \<longrightarrow> (\<forall>stack x. \<exists>y. fold pp_step b (stack @ [x]) = stack @ [y]))"
proof (induction rule: balanced_branches.induct)
  case (balanced_group l b c ls)
  show ?case
  proof
    fix stack
    obtain x where x: "pp_step l stack = stack @ [x]" using pp_step_opens balanced_group by blast
    obtain y where y: "fold pp_step b (stack @ [x]) = stack @ [y]" using balanced_group by blast
    show "fold pp_step (l # b @ c # ls) stack = stack"
      using x y pp_step_closes [OF \<open>closes c\<close>] balanced_group by simp
  qed
next
  case (branches_more ls l b)
  show ?case
  proof (intro allI)
    fix stack x
    obtain y where y: "pp_step l (stack @ [x]) = stack @ [y]" using pp_step_switches branches_more by blast
    obtain z where "fold pp_step b (stack @ [y]) = stack @ [z]" using branches_more by blast
    then show "\<exists>z. fold pp_step (ls @ l # b) (stack @ [x]) = stack @ [z]" using y branches_more by simp
  qed
qed (auto simp: pp_step_def)

section \<open>Properties\<close>


text \<open>\<open>_control_context\<close> and \<open>_preprocessor_context\<close> give every physical line exactly one entry, in
  order, whatever line splices the file has.\<close>

lemma contexts_per_line:
  "map fst (control_context tls splices) = [1..<length tls + 1] \<and>
   map fst (preprocessor_context lines) = [1..<length lines + 1]"
  using control_lines_numbers [of "[]" 0 splices 1 tls] logical_lines_from_ranges [of 1 lines]
  by (simp add: control_context_def preprocessor_context_def pp_lines_numbers logical_lines_def)

text \<open>A well nested sequence of conditional blocks leaves the preprocessor context of the lines
  after it as if the blocks were not there.\<close>

lemma balanced_context:
  assumes "balanced ls"
  shows "fold pp_step ls stack = stack"
  using assms balanced_branches_stack by blast

theorem balanced_context_witness:
  "fold pp_step [''#if A'', ''x'', ''#elif B'', ''#ifdef C'', ''#endif'', ''#else'', '' # endif // A''] [''if X''] = [''if X'']"
proof (rule balanced_context)
  have d: "opens ''#if A''" "switches ''#elif B''" "opens ''#ifdef C''" "closes ''#endif''" "switches ''#else''"
    "closes '' # endif // A''" "pp_directive ''x'' = None" by code_simp+
  have "branches ([''x''] @ ''#elif B'' # (''#ifdef C'' # [] @ ''#endif'' # []) @ ''#else'' # [])"
    by (intro branches_more balanced_plain balanced_group branches_one balanced_empty d)
  from balanced_group [OF d(1) this d(6) balanced_empty]
  show "balanced [''#if A'', ''x'', ''#elif B'', ''#ifdef C'', ''#endif'', ''#else'', '' # endif // A'']" by simp
qed

end
