(* ===== verification/SymbolIndex.thy ===== *)
theory SymbolIndex
  imports CppParser
begin

text \<open>
  The symbol indexes of \<open>app/inheritance/dependencies.py\<close>: \<open>SourceAnalysisIndex\<close>, the tables of
  functions, macros and constants over the analysed files of one commit, and
  \<open>LazySourceAnalysisIndex\<close>, which loads files on demand into a cache with a byte budget.

  What the lazy index is given as functions is the record \<open>index_env\<close>: the loader of a file, the
  loader of the candidate index, the size estimates (they read the interpreter's object sizes) and
  the callback, which may change its own state and may mark the index as over the memory budget.

  Shown: the table of a name is the scan of all files in path order; every operation keeps the
  byte accounting exact, the cache within its budget, the resolution cache within its bound and
  the tables in agreement with the cached files, unless the index is marked exhausted; an
  exhausted index answers nothing.
\<close>

section \<open>Tables over the analysed files\<close>

type_synonym definition_value = "nat \<times> string list"
type_synonym function_table = "(string \<times> source_function list) list"
type_synonym definition_table = "(string \<times> (string \<times> definition_value) list) list"

datatype symbol_kind = Functions | Macros | Constants

record source_index =
  analyses :: "(string \<times> analysis) list"
  fn_table :: function_table
  macro_table :: definition_table
  const_table :: definition_table

definition index_functions :: "analysis \<Rightarrow> function_table \<Rightarrow> function_table" where
  "index_functions a t = fold (\<lambda>f. dict_append (id_name (identity f)) f) (a_functions a) t"

definition index_definitions ::
  "string \<Rightarrow> (string \<times> definition_value) list \<Rightarrow> definition_table \<Rightarrow> definition_table" where
  "index_definitions path ds t = fold (\<lambda>(name, d). dict_append name (path, d)) ds t"

definition sorted_items :: "(string \<times> 'a) list \<Rightarrow> (string \<times> 'a) list" where
  "sorted_items d = sort_key fst d"

text \<open>The loop that fills the tables; \<open>_rebuild\<close> runs it again on the files that are cached now.\<close>

definition rebuild :: "('a) source_index_scheme \<Rightarrow> ('a) source_index_scheme" where
  "rebuild ix =
     ix\<lparr>fn_table := fold (\<lambda>(path, a). index_functions a) (sorted_items (analyses ix)) [],
        macro_table := fold (\<lambda>(path, a). index_definitions path (macros a)) (sorted_items (analyses ix)) [],
        const_table := fold (\<lambda>(path, a). index_definitions path (constants a)) (sorted_items (analyses ix)) []\<rparr>"

definition SourceAnalysisIndex :: "(string \<times> analysis) list \<Rightarrow> source_index" where
  "SourceAnalysisIndex as = rebuild \<lparr>analyses = as, fn_table = [], macro_table = [], const_table = []\<rparr>"

definition local_functions :: "analysis option \<Rightarrow> string \<Rightarrow> source_function list" where
  "local_functions l name = (case l of None \<Rightarrow> [] | Some a \<Rightarrow> filter (\<lambda>f. id_name (identity f) = name) (a_functions a))"

definition analysis_definitions :: "symbol_kind \<Rightarrow> analysis \<Rightarrow> (string \<times> definition_value) list" where
  "analysis_definitions kind a = (case kind of Macros \<Rightarrow> macros a | _ \<Rightarrow> constants a)"

definition local_definitions ::
  "symbol_kind \<Rightarrow> analysis option \<Rightarrow> string \<Rightarrow> (string \<times> definition_value) list" where
  "local_definitions kind l name = (case l of None \<Rightarrow> []
     | Some a \<Rightarrow> (case map_of (analysis_definitions kind a) name of None \<Rightarrow> [] | Some d \<Rightarrow> [(a_path a, d)]))"

definition definition_table_of :: "symbol_kind \<Rightarrow> ('a) source_index_scheme \<Rightarrow> definition_table" where
  "definition_table_of kind ix = (case kind of Macros \<Rightarrow> macro_table ix | _ \<Rightarrow> const_table ix)"

definition index_functions_named ::
  "('a) source_index_scheme \<Rightarrow> string \<Rightarrow> analysis option \<Rightarrow> source_function list" where
  "index_functions_named ix name l =
     (let values = dict_get (fn_table ix) name [] in
      if values \<noteq> [] \<or> l = None then values else local_functions l name)"

definition index_definitions_named ::
  "('a) source_index_scheme \<Rightarrow> symbol_kind \<Rightarrow> string \<Rightarrow> analysis option \<Rightarrow> (string \<times> definition_value) list" where
  "index_definitions_named ix kind name l =
     (let values = dict_get (definition_table_of kind ix) name [] in
      if values \<noteq> [] \<or> l = None then values else local_definitions kind l name)"

section \<open>The lazy index\<close>

record 'p candidate_index =
  cand_functions :: "(string \<times> 'p) list"
  cand_macros :: "(string \<times> 'p) list"
  cand_constants :: "(string \<times> 'p) list"

text \<open>A value of a candidate index as it is supplied: one path, or a collection of paths.\<close>

datatype raw_paths = PathText string | PathList "string list"

definition normal_paths :: "raw_paths \<Rightarrow> string list" where
  "normal_paths p = (case p of PathText s \<Rightarrow> filter (\<lambda>x. x \<noteq> []) [s]
     | PathList ss \<Rightarrow> sort (remdups (filter (\<lambda>x. x \<noteq> []) ss)))"

definition empty_candidate_index :: "'p candidate_index" where
  "empty_candidate_index = \<lparr>cand_functions = [], cand_macros = [], cand_constants = []\<rparr>"

definition normalize_candidate_index :: "raw_paths candidate_index option \<Rightarrow> string list candidate_index" where
  "normalize_candidate_index v = (case v of None \<Rightarrow> empty_candidate_index
     | Some r \<Rightarrow> \<lparr>cand_functions = map (\<lambda>(n, p). (n, normal_paths p)) (cand_functions r),
                 cand_macros = map (\<lambda>(n, p). (n, normal_paths p)) (cand_macros r),
                 cand_constants = map (\<lambda>(n, p). (n, normal_paths p)) (cand_constants r)\<rparr>)"

definition count_candidate_index_entries :: "string list candidate_index \<Rightarrow> int" where
  "count_candidate_index_entries c =
     (\<Sum>(n, ps) \<leftarrow> cand_functions c @ cand_macros c @ cand_constants c. int (length ps))"

definition candidates :: "symbol_kind \<Rightarrow> string \<Rightarrow> string list candidate_index \<Rightarrow> string list" where
  "candidates kind name c =
     dict_get (case kind of Functions \<Rightarrow> cand_functions c | Macros \<Rightarrow> cand_macros c | Constants \<Rightarrow> cand_constants c) name []"

type_synonym symbol_key = "symbol_kind \<times> string"

record 'w lazy_index = source_index +
  lazy_paths :: "string list"
  max_cached_bytes :: int
  cached_bytes :: int
  cache :: "(string \<times> int) list"
  pinned :: "string list"
  metrics :: "(string \<times> int) list"
  cand_index :: "string list candidate_index"
  cand_ready :: bool
  cand_entries :: int
  cand_bytes :: int
  candidate_index_unavailable :: bool
  max_resolution :: nat
  resolution_cache :: "(symbol_key \<times> string list) list"
  resolution_sizes :: "(symbol_key \<times> int) list"
  resolution_bytes :: int
  resolution_evictions :: nat
  memory_budget_exhausted :: bool
  budget_exhausted :: bool
  world :: 'w

text \<open>What the loader of a file gives: an exception, a value that is no analysis, or an analysis with or
  without its size.\<close>

datatype load_outcome = LoadRaised | LoadOther | Loaded analysis "int option"

record 'w index_env =
  loader :: "(string \<Rightarrow> load_outcome) option"
  cand_loader :: "raw_paths candidate_index option option"
  analysis_size :: "analysis \<Rightarrow> nat"
  index_size :: "string list candidate_index \<Rightarrow> int"
  entry_size :: "symbol_key \<times> string list \<Rightarrow> int"
  on_cache_change :: "('w lazy_index \<Rightarrow> 'w \<times> bool) option"

definition bump :: "string \<Rightarrow> int \<Rightarrow> ('w) lazy_index \<Rightarrow> ('w) lazy_index" where
  "bump k n ix = ix\<lparr>metrics := AList.update k (dict_get (metrics ix) k 0 + n) (metrics ix)\<rparr>"

definition total_index_bytes :: "'w lazy_index \<Rightarrow> int" where
  "total_index_bytes ix = cached_bytes ix + cand_bytes ix + resolution_bytes ix"

definition record_index_cache_metrics :: "'w lazy_index \<Rightarrow> 'w lazy_index" where
  "record_index_cache_metrics ix =
     ix\<lparr>metrics := AList.update ''total_index_bytes'' (total_index_bytes ix)
         (AList.update ''resolution_cache_bytes'' (resolution_bytes ix)
         (AList.update ''candidate_index_bytes'' (cand_bytes ix)
         (AList.update ''candidate_index_entries'' (cand_entries ix) (metrics ix))))\<rparr>"

definition notify_cache_change :: "'w index_env \<Rightarrow> 'w lazy_index \<Rightarrow> 'w lazy_index" where
  "notify_cache_change env ix =
     (case on_cache_change env of None \<Rightarrow> ix
      | Some f \<Rightarrow> (case f ix of (w, over) \<Rightarrow>
          ix\<lparr>world := w, memory_budget_exhausted := memory_budget_exhausted ix \<or> over\<rparr>))"

definition exhaust :: "'w lazy_index \<Rightarrow> 'w lazy_index" where
  "exhaust ix = bump ''source_budget_exhausted'' 1 (ix\<lparr>budget_exhausted := True\<rparr>)"

text \<open>The constructor; the files given at the start are pinned.\<close>

definition new_lazy_index ::
  "'w index_env \<Rightarrow> string list \<Rightarrow> (string \<times> analysis) list \<Rightarrow> int \<Rightarrow> (string \<times> int) list \<Rightarrow>
   raw_paths candidate_index option \<Rightarrow> int \<Rightarrow> 'w \<Rightarrow> 'w lazy_index" where
  "new_lazy_index env paths as max_bytes ms cand max_entries w =
     (let ci = normalize_candidate_index cand; ready = cand \<noteq> None;
          sizes = map (\<lambda>(p, a). (p, int (analysis_size env a))) (sorted_items as) in
      rebuild \<lparr>analyses = as, fn_table = [], macro_table = [], const_table = [],
        lazy_paths = paths, max_cached_bytes = max 1 max_bytes, cached_bytes = sum_values sizes,
        cache = sizes, pinned = map fst as, metrics = ms, cand_index = ci, cand_ready = ready,
        cand_entries = (if ready then count_candidate_index_entries ci else 0),
        cand_bytes = (if ready then index_size env ci else 0), candidate_index_unavailable = False,
        max_resolution = nat (max 1 max_entries), resolution_cache = [], resolution_sizes = [],
        resolution_bytes = 0, resolution_evictions = 0, memory_budget_exhausted = False,
        budget_exhausted = False, world = w\<rparr>)"

definition LazySourceAnalysisIndex ::
  "'w index_env \<Rightarrow> string list \<Rightarrow> (string \<times> analysis) list \<Rightarrow> int \<Rightarrow> (string \<times> int) list \<Rightarrow>
   raw_paths candidate_index option \<Rightarrow> int \<Rightarrow> 'w \<Rightarrow> 'w lazy_index" where
  "LazySourceAnalysisIndex env paths as max_bytes ms cand max_entries w =
     (let ix = new_lazy_index env paths as max_bytes ms cand max_entries w in
      if cached_bytes ix > max_cached_bytes ix then exhaust ix else ix)"

definition ensure_candidate_index :: "'w index_env \<Rightarrow> 'w lazy_index \<Rightarrow> 'w lazy_index" where
  "ensure_candidate_index env ix =
     (if cand_ready ix then ix
      else let ix = ix\<lparr>cand_ready := True\<rparr> in
        case cand_loader env of
          None \<Rightarrow> ix
        | Some None \<Rightarrow> bump ''source_candidate_index_failures'' 1 (ix\<lparr>candidate_index_unavailable := True\<rparr>)
        | Some (Some raw) \<Rightarrow>
            let ci = normalize_candidate_index (Some raw) in
            notify_cache_change env (record_index_cache_metrics (bump ''source_candidate_index_builds'' 1
              (ix\<lparr>cand_index := ci, cand_entries := count_candidate_index_entries ci,
                  cand_bytes := index_size env ci\<rparr>))))"

text \<open>\<open>OrderedDict.move_to_end\<close>\<close>

definition move_to_end :: "'k \<Rightarrow> ('k \<times> 'v) list \<Rightarrow> ('k \<times> 'v) list" where
  "move_to_end k d = (case map_of d k of None \<Rightarrow> d | Some v \<Rightarrow> AList.delete k d @ [(k, v)])"

fun evict_resolutions :: "nat \<Rightarrow> (symbol_key \<times> string list) list \<Rightarrow> 'w lazy_index \<Rightarrow> 'w lazy_index" where
  "evict_resolutions bound [] ix = ix\<lparr>resolution_cache := []\<rparr>"
| "evict_resolutions bound ((k, v) # rest) ix =
     (if bound < length ((k, v) # rest)
      then evict_resolutions bound rest
        (ix\<lparr>resolution_bytes := resolution_bytes ix - dict_get (resolution_sizes ix) k 0,
            resolution_sizes := AList.delete k (resolution_sizes ix),
            resolution_evictions := resolution_evictions ix + 1\<rparr>)
      else ix\<lparr>resolution_cache := (k, v) # rest\<rparr>)"

definition store_resolution :: "'w index_env \<Rightarrow> symbol_key \<Rightarrow> string list \<Rightarrow> 'w lazy_index \<Rightarrow> 'w lazy_index" where
  "store_resolution env key paths ix =
     (let n = entry_size env (key, paths) in
      evict_resolutions (max_resolution ix) (AList.update key paths (resolution_cache ix))
        (ix\<lparr>resolution_sizes := AList.update key n (resolution_sizes ix),
            resolution_bytes := resolution_bytes ix + n\<rparr>))"

definition candidate_paths ::
  "'w index_env \<Rightarrow> symbol_kind \<Rightarrow> string \<Rightarrow> 'w lazy_index \<Rightarrow> string list \<times> 'w lazy_index" where
  "candidate_paths env kind name ix =
     (case map_of (resolution_cache ix) (kind, name) of
        Some cached \<Rightarrow>
          (cached, bump ''dependency_resolution_cache_hits'' 1
             (ix\<lparr>resolution_cache := move_to_end (kind, name) (resolution_cache ix)\<rparr>))
      | None \<Rightarrow>
          let ix1 = ensure_candidate_index env (bump ''dependency_resolution_cache_misses'' 1 ix);
              paths = candidates kind name (cand_index ix1);
              ix2 = store_resolution env (kind, name) paths ix1
          in (paths, notify_cache_change env (record_index_cache_metrics
               (bump ''dependency_candidate_paths'' (int (length paths)) ix2))))"

text \<open>The loop that frees the space for a file; \<open>False\<close> when only pinned files are left.\<close>

function make_room :: "int \<Rightarrow> 'w lazy_index \<Rightarrow> bool \<times> 'w lazy_index" where
  "make_room need ix =
     (if cached_bytes ix + need > max_cached_bytes ix then
        (case List.find (\<lambda>(p, n). p \<notin> set (pinned ix)) (cache ix) of
           None \<Rightarrow> (False, ix)
         | Some (p, n) \<Rightarrow>
             make_room need (ix\<lparr>cache := AList.delete p (cache ix), analyses := AList.delete p (analyses ix),
                                cached_bytes := cached_bytes ix - n\<rparr>))
      else (True, ix))"
  by pat_completeness auto

lemma find_delete_shorter:
  assumes "List.find (\<lambda>(p, n). P p) d = Some (p, n)"
  shows "length (AList.delete p d) < length d"
proof -
  from find_SomeD [OF assms] have "(p, n) \<in> set d" by simp
  then show ?thesis unfolding AList.delete_eq by (intro length_filter_less) auto
qed

termination make_room
  by (relation "measure (\<lambda>(need, ix). length (cache ix))") (auto dest: find_delete_shorter)

declare make_room.simps [simp del]

definition admit_path :: "'w index_env \<Rightarrow> string \<Rightarrow> analysis \<Rightarrow> int \<Rightarrow> 'w lazy_index \<Rightarrow> bool \<times> 'w lazy_index" where
  "admit_path env path a need ix =
     (if need > max_cached_bytes ix then (False, notify_cache_change env (exhaust ix))
      else case make_room need ix of
        (False, ix) \<Rightarrow> (False, notify_cache_change env (exhaust ix))
      | (True, ix) \<Rightarrow>
          let ix1 = bump ''source_files_loaded'' 1 (rebuild
                (ix\<lparr>analyses := AList.update path a (analyses ix), cache := AList.update path need (cache ix),
                    cached_bytes := cached_bytes ix + need\<rparr>))
          in (True, notify_cache_change env (record_index_cache_metrics
               (ix1\<lparr>metrics := AList.update ''source_cache_bytes'' (cached_bytes ix1) (metrics ix1)\<rparr>))))"

definition loaded_size :: "'w index_env \<Rightarrow> analysis \<Rightarrow> int option \<Rightarrow> int" where
  "loaded_size env a need = max 1 (case need of None \<Rightarrow> int (analysis_size env a)
     | Some n \<Rightarrow> if n = 0 then int (analysis_size env a) else n)"

definition load_path :: "'w index_env \<Rightarrow> string \<Rightarrow> 'w lazy_index \<Rightarrow> bool \<times> 'w lazy_index" where
  "load_path env path ix =
     (if path \<in> fst ` set (analyses ix)
      then (True, notify_cache_change env (ix\<lparr>cache := move_to_end path (cache ix)\<rparr>))
      else case loader env of
        None \<Rightarrow> (False, ix)
      | Some load \<Rightarrow>
          (case load path of
             LoadRaised \<Rightarrow> (False, ix)
           | LoadOther \<Rightarrow> (False, ix)
           | Loaded a need \<Rightarrow> admit_path env path a (loaded_size env a need) ix))"

definition count_named :: "symbol_kind \<Rightarrow> string \<Rightarrow> ('a) source_index_scheme \<Rightarrow> nat" where
  "count_named kind name ix = (case kind of Functions \<Rightarrow> length (dict_get (fn_table ix) name [])
     | _ \<Rightarrow> length (dict_get (definition_table_of kind ix) name []))"

fun visit_paths :: "'w index_env \<Rightarrow> symbol_kind \<Rightarrow> string \<Rightarrow> string list \<Rightarrow> 'w lazy_index \<Rightarrow> 'w lazy_index" where
  "visit_paths env kind name [] ix = ix"
| "visit_paths env kind name (p # ps) ix =
     (if count_named kind name ix > 1 then ix
      else let (ok, ix1) = (if p \<in> fst ` set (analyses ix) then (True, ix) else load_path env p ix) in
        if \<not> ok \<and> budget_exhausted ix1 then ix1
        else if count_named kind name ix1 > 1 then ix1
        else visit_paths env kind name ps ix1)"

definition search_paths ::
  "'w index_env \<Rightarrow> symbol_kind \<Rightarrow> string \<Rightarrow> 'w lazy_index \<Rightarrow> string list \<times> 'w lazy_index" where
  "search_paths env kind name ix = (if cand_loader env = None \<and> \<not> cand_ready ix then (lazy_paths ix, ix)
     else candidate_paths env kind name ix)"

definition ensure_symbol :: "'w index_env \<Rightarrow> symbol_kind \<Rightarrow> string \<Rightarrow> 'w lazy_index \<Rightarrow> 'w lazy_index" where
  "ensure_symbol env kind name ix =
     (let (paths, ix1) = search_paths env kind name ix in
      if candidate_index_unavailable ix1 then ix1 else visit_paths env kind name paths ix1)"

definition lazy_functions ::
  "'w index_env \<Rightarrow> string \<Rightarrow> analysis option \<Rightarrow> 'w lazy_index \<Rightarrow> source_function list \<times> 'w lazy_index" where
  "lazy_functions env name l ix =
     (let ix1 = ensure_symbol env Functions name ix in
      (if budget_exhausted ix1 then [] else index_functions_named ix1 name l, ix1))"

definition lazy_definitions ::
  "'w index_env \<Rightarrow> symbol_kind \<Rightarrow> string \<Rightarrow> analysis option \<Rightarrow> 'w lazy_index \<Rightarrow>
   (string \<times> definition_value) list \<times> 'w lazy_index" where
  "lazy_definitions env kind name l ix =
     (let ix1 = ensure_symbol env kind name ix in
      (if budget_exhausted ix1 then [] else index_definitions_named ix1 kind name l, ix1))"

record cache_statistics =
  st_cached_files :: nat
  st_cache_bytes :: int
  st_max_cached_bytes :: int
  st_candidate_entries :: int
  st_candidate_bytes :: int
  st_budget_exhausted :: bool
  st_memory_exhausted :: bool
  st_candidate_ready :: bool
  st_candidate_unavailable :: bool
  st_resolution_entries :: nat
  st_resolution_bytes :: int
  st_total_bytes :: int
  st_resolution_evictions :: nat

definition cache_stats :: "'w lazy_index \<Rightarrow> cache_statistics \<times> 'w lazy_index" where
  "cache_stats ix =
     (\<lparr>st_cached_files = length (cache ix), st_cache_bytes = cached_bytes ix,
       st_max_cached_bytes = max_cached_bytes ix, st_candidate_entries = cand_entries ix,
       st_candidate_bytes = cand_bytes ix, st_budget_exhausted = budget_exhausted ix,
       st_memory_exhausted = memory_budget_exhausted ix, st_candidate_ready = cand_ready ix,
       st_candidate_unavailable = candidate_index_unavailable ix,
       st_resolution_entries = length (resolution_cache ix), st_resolution_bytes = resolution_bytes ix,
       st_total_bytes = total_index_bytes ix, st_resolution_evictions = resolution_evictions ix\<rparr>,
      record_index_cache_metrics ix)"

section \<open>The tables are a scan of the files\<close>

definition scan_functions :: "string \<Rightarrow> (string \<times> analysis) list \<Rightarrow> source_function list" where
  "scan_functions name as =
     concat (map (\<lambda>(path, a). filter (\<lambda>f. id_name (identity f) = name) (a_functions a)) (sorted_items as))"

definition scan_definitions ::
  "(analysis \<Rightarrow> (string \<times> definition_value) list) \<Rightarrow> string \<Rightarrow> (string \<times> analysis) list \<Rightarrow> (string \<times> definition_value) list" where
  "scan_definitions defs name as =
     concat (map (\<lambda>(path, a). map (\<lambda>(n, d). (path, d)) (filter (\<lambda>(n, d). n = name) (defs a))) (sorted_items as))"

lemma index_functions_get:
  "dict_get (index_functions a t) name [] = dict_get t name [] @ filter (\<lambda>f. id_name (identity f) = name) (a_functions a)"
  using dict_get_fold_append [of "\<lambda>f. id_name (identity f)" "\<lambda>f. f"] by (simp add: index_functions_def)

lemma index_definitions_get:
  "dict_get (index_definitions path ds t) name [] =
   dict_get t name [] @ map (\<lambda>(n, d). (path, d)) (filter (\<lambda>(n, d). n = name) ds)"
  using dict_get_fold_append [of fst "\<lambda>(n, d). (path, d)" ds t name]
  by (simp add: index_definitions_def case_prod_unfold)

lemma fold_tables_get:
  assumes "\<And>x t. dict_get (f x t) name [] = dict_get t name [] @ g x"
  shows "dict_get (fold f xs t) name [] = dict_get t name [] @ concat (map g xs)"
  by (induction xs arbitrary: t) (simp_all add: assms)

lemma rebuild_get:
  "dict_get (fn_table (rebuild ix)) name [] = scan_functions name (analyses ix)"
  "dict_get (macro_table (rebuild ix)) name [] = scan_definitions macros name (analyses ix)"
  "dict_get (const_table (rebuild ix)) name [] = scan_definitions constants name (analyses ix)"
proof -
  have "dict_get (fold (\<lambda>(path, a). index_functions a) xs t) name [] =
      dict_get t name [] @ concat (map (\<lambda>(path, a). filter (\<lambda>f. id_name (identity f) = name) (a_functions a)) xs)" for xs :: "(string \<times> analysis) list" and t
    by (rule fold_tables_get) (simp add: index_functions_get split: prod.split)
  then show "dict_get (fn_table (rebuild ix)) name [] = scan_functions name (analyses ix)"
    by (simp add: rebuild_def scan_functions_def)
next
  have *: "dict_get (fold (\<lambda>(path, a). index_definitions path (defs a)) xs t) name [] = dict_get t name [] @
      concat (map (\<lambda>(path, a). map (\<lambda>(n, d). (path, d)) (filter (\<lambda>(n, d). n = name) (defs a))) xs)"
    for defs and xs :: "(string \<times> analysis) list" and t
    by (rule fold_tables_get) (simp add: index_definitions_get split: prod.split)
  show "dict_get (macro_table (rebuild ix)) name [] = scan_definitions macros name (analyses ix)"
    using * [of macros] by (simp add: rebuild_def scan_definitions_def)
  show "dict_get (const_table (rebuild ix)) name [] = scan_definitions constants name (analyses ix)"
    using * [of constants] by (simp add: rebuild_def scan_definitions_def)
qed

section \<open>The invariant of the lazy index\<close>

definition tables_agree :: "'w lazy_index \<Rightarrow> bool" where
  "tables_agree ix \<longleftrightarrow>
     fn_table ix = fold (\<lambda>(path, a). index_functions a) (sorted_items (analyses ix)) [] \<and>
     macro_table ix = fold (\<lambda>(path, a). index_definitions path (macros a)) (sorted_items (analyses ix)) [] \<and>
     const_table ix = fold (\<lambda>(path, a). index_definitions path (constants a)) (sorted_items (analyses ix)) []"

definition from_loader :: "'w index_env \<Rightarrow> string \<Rightarrow> analysis \<Rightarrow> bool" where
  "from_loader env p a \<longleftrightarrow> (\<exists>load n. loader env = Some load \<and> load p = Loaded a n)"

text \<open>What holds between eviction and admission too.\<close>

definition cache_inv :: "'w index_env \<Rightarrow> 'w lazy_index \<Rightarrow> bool" where
  "cache_inv env ix \<longleftrightarrow> distinct (map fst (analyses ix)) \<and> distinct (map fst (cache ix)) \<and>
     fst ` set (analyses ix) = fst ` set (cache ix) \<and> cached_bytes ix = sum_values (cache ix) \<and> list_all (\<lambda>(p, n). 0 \<le> n) (cache ix) \<and>
     set (pinned ix) \<subseteq> fst ` set (analyses ix) \<and>
     (\<forall>(p, a) \<in> set (analyses ix). p \<in> set (pinned ix) \<or> from_loader env p a)"

definition resolution_inv :: "'w lazy_index \<Rightarrow> bool" where
  "resolution_inv ix \<longleftrightarrow> distinct (map fst (resolution_cache ix)) \<and> distinct (map fst (resolution_sizes ix)) \<and>
     fst ` set (resolution_cache ix) = fst ` set (resolution_sizes ix) \<and>
     resolution_bytes ix = sum_values (resolution_sizes ix) \<and>
     length (resolution_cache ix) \<le> max_resolution ix \<and> 1 \<le> max_resolution ix"

definition lazy_inv :: "'w index_env \<Rightarrow> 'w lazy_index \<Rightarrow> bool" where
  "lazy_inv env ix \<longleftrightarrow> cache_inv env ix \<and> resolution_inv ix \<and>
     (budget_exhausted ix \<or> cached_bytes ix \<le> max_cached_bytes ix \<and> tables_agree ix)"

lemmas lazy_inv_defs = lazy_inv_def cache_inv_def resolution_inv_def tables_agree_def

lemma lazy_inv_bookkeeping [simp]:
  "lazy_inv env (bump k n ix) = lazy_inv env ix"
  "lazy_inv env (record_index_cache_metrics ix) = lazy_inv env ix"
  "lazy_inv env (notify_cache_change env' ix) = lazy_inv env ix"
  by (simp_all add: bump_def record_index_cache_metrics_def notify_cache_change_def lazy_inv_defs
      split: option.split prod.split)

lemma bookkeeping_fields [simp]:
  "budget_exhausted (bump k n ix) = budget_exhausted ix"
  "budget_exhausted (record_index_cache_metrics ix) = budget_exhausted ix"
  "budget_exhausted (notify_cache_change env ix) = budget_exhausted ix"
  "analyses (bump k n ix) = analyses ix"
  "analyses (record_index_cache_metrics ix) = analyses ix"
  "analyses (notify_cache_change env ix) = analyses ix"
  "cached_bytes (bump k n ix) = cached_bytes ix"
  "cached_bytes (record_index_cache_metrics ix) = cached_bytes ix"
  "cached_bytes (notify_cache_change env ix) = cached_bytes ix"
  "max_cached_bytes (bump k n ix) = max_cached_bytes ix"
  "max_cached_bytes (record_index_cache_metrics ix) = max_cached_bytes ix"
  "max_cached_bytes (notify_cache_change env ix) = max_cached_bytes ix"
  "fn_table (bump k n ix) = fn_table ix"
  "fn_table (record_index_cache_metrics ix) = fn_table ix"
  "fn_table (notify_cache_change env ix) = fn_table ix"
  by (simp_all add: bump_def record_index_cache_metrics_def notify_cache_change_def split: option.split prod.split)

lemma rebuild_fields [simp]:
  "analyses (rebuild ix) = analyses ix" "cache (rebuild ix) = cache ix" "cached_bytes (rebuild ix) = cached_bytes ix"
  "max_cached_bytes (rebuild ix) = max_cached_bytes ix" "pinned (rebuild ix) = pinned ix"
  "resolution_cache (rebuild ix) = resolution_cache ix" "resolution_sizes (rebuild ix) = resolution_sizes ix"
  "resolution_bytes (rebuild ix) = resolution_bytes ix" "max_resolution (rebuild ix) = max_resolution ix"
  "budget_exhausted (rebuild ix) = budget_exhausted ix"
  by (simp_all add: rebuild_def)

lemma tables_agree_rebuild [simp]: "tables_agree (rebuild ix)"
  by (simp add: tables_agree_def rebuild_def)

lemma flag_inv [simp]:
  "cache_inv env (ix\<lparr>budget_exhausted := b\<rparr>) = cache_inv env ix"
  "resolution_inv (ix\<lparr>budget_exhausted := b\<rparr>) = resolution_inv ix"
  by (simp_all add: cache_inv_def resolution_inv_def)

lemma exhaust_inv: "cache_inv env ix \<Longrightarrow> resolution_inv ix \<Longrightarrow> lazy_inv env (exhaust ix)"
  by (simp add: exhaust_def) (simp add: lazy_inv_def)

lemma exhaust_exhausted [simp]: "budget_exhausted (exhaust ix)"
  by (simp add: exhaust_def)

lemma delete_keys_inv:
  assumes inv: "cache_inv env ix" and p: "(p, n) \<in> set (cache ix)" "p \<notin> set (pinned ix)"
  shows "cache_inv env (ix\<lparr>cache := AList.delete p (cache ix), analyses := AList.delete p (analyses ix),
                          cached_bytes := cached_bytes ix - n\<rparr>)"
proof -
  have "dict_get (cache ix) p 0 = n" using inv p(1) by (simp add: cache_inv_def dict_get_def)
  moreover have "set (AList.delete p (analyses ix)) \<subseteq> set (analyses ix)" "set (AList.delete p (cache ix)) \<subseteq> set (cache ix)"
    by (auto simp: AList.delete_eq)
  ultimately show ?thesis using inv p(2)
    unfolding cache_inv_def list_all_iff by (simp add: sum_values_delete distinct_keys_delete fst_set_delete) blast
qed

text \<open>What an eviction run leaves untouched.\<close>

definition same_limits :: "'w lazy_index \<Rightarrow> 'w lazy_index \<Rightarrow> bool" where
  "same_limits ix ix' \<longleftrightarrow> max_cached_bytes ix' = max_cached_bytes ix \<and> pinned ix' = pinned ix \<and>
     budget_exhausted ix' = budget_exhausted ix \<and> resolution_inv ix' = resolution_inv ix"

lemma make_room_inv:
  "make_room need ix = (ok, ix') \<Longrightarrow> cache_inv env ix \<Longrightarrow>
   cache_inv env ix' \<and> same_limits ix ix' \<and> fst ` set (analyses ix') \<subseteq> fst ` set (analyses ix) \<and>
   (ok \<longrightarrow> cached_bytes ix' + need \<le> max_cached_bytes ix)"
proof (induction need ix arbitrary: ok ix' rule: make_room.induct)
  case (1 need ix)
  show ?case
  proof (cases "cached_bytes ix + need > max_cached_bytes ix")
    case True
    show ?thesis
    proof (cases "List.find (\<lambda>(p, n). p \<notin> set (pinned ix)) (cache ix)")
      case None
      with True 1(2,3) show ?thesis by (subst (asm) make_room.simps) (simp add: same_limits_def)
    next
      case (Some e)
      obtain p n where e: "e = (p, n)" by (cases e)
      let ?ix = "ix\<lparr>cache := AList.delete p (cache ix), analyses := AList.delete p (analyses ix), cached_bytes := cached_bytes ix - n\<rparr>"
      from find_SomeD [OF Some] e have p: "(p, n) \<in> set (cache ix)" "p \<notin> set (pinned ix)" by auto
      have "make_room need ?ix = (ok, ix')" using 1(2) True Some e by (subst (asm) make_room.simps) simp
      from 1(1) [OF True Some [unfolded e] refl this delete_keys_inv [OF 1(3) p]] show ?thesis
        by (auto simp: same_limits_def resolution_inv_def fst_set_delete)
    qed
  next
    case False
    with 1(2,3) show ?thesis by (subst (asm) make_room.simps) (simp add: same_limits_def)
  qed
qed

lemma admit_path_inv:
  assumes "lazy_inv env ix" "path \<notin> fst ` set (analyses ix)" "from_loader env path a" "0 \<le> need"
  shows "lazy_inv env (snd (admit_path env path a need ix))"
proof (cases "make_room need ix")
  case (Pair ok ix1)
  have inv: "cache_inv env ix" "resolution_inv ix" using assms(1) by (auto simp: lazy_inv_def)
  from make_room_inv [OF Pair inv(1)] have r: "cache_inv env ix1" "same_limits ix ix1"
    "path \<notin> fst ` set (analyses ix1)" "ok \<longrightarrow> cached_bytes ix1 + need \<le> max_cached_bytes ix"
    using assms(2) by auto
  let ?ix = "ix1\<lparr>analyses := AList.update path a (analyses ix1), cache := AList.update path need (cache ix1),
                  cached_bytes := cached_bytes ix1 + need\<rparr>"
  have c: "path \<notin> fst ` set (cache ix1)" using r(1,3) by (simp add: cache_inv_def)
  have "cache_inv env ?ix" using r(1,3) c assms(3,4)
    unfolding cache_inv_def by (auto simp: update_fresh distinct_keys_update)
  then have "lazy_inv env (rebuild ?ix)" if ok
    using that r inv by (auto simp: lazy_inv_def same_limits_def cache_inv_def resolution_inv_def)
  moreover have "lazy_inv env (exhaust ix1)" using exhaust_inv r inv by (auto simp: same_limits_def)
  moreover have "lazy_inv env (ix2\<lparr>metrics := m\<rparr>) = lazy_inv env ix2" for ix2 m by (simp add: lazy_inv_defs)
  ultimately show ?thesis using Pair exhaust_inv [OF inv] by (simp add: admit_path_def Let_def split: bool.split)
qed

lemma move_to_end_facts:
  assumes "distinct (map fst d)"
  shows "distinct (map fst (move_to_end k d))" "set (move_to_end k d) = set d" "length (move_to_end k d) = length d"
proof -
  have "set (move_to_end k d) = set d \<and> distinct (map fst (move_to_end k d)) \<and> length (move_to_end k d) = length d"
  proof (cases "map_of d k")
    case (Some v)
    then have m: "(k, v) \<in> set d" by (rule map_of_SomeD)
    have "set (AList.delete k d) = set d - {(k, v)}"
      using m assms by (auto simp: AList.delete_eq dest: eq_key_imp_eq_value)
    with m have "set (move_to_end k d) = set d" using Some by (auto simp: move_to_end_def)
    moreover have "distinct (map fst (move_to_end k d))"
      using Some assms by (simp add: move_to_end_def distinct_keys_delete fst_set_delete)
    ultimately show ?thesis using assms by (metis distinct_card distinct_map length_map)
  qed (simp add: move_to_end_def assms)
  then show "distinct (map fst (move_to_end k d))" "set (move_to_end k d) = set d" "length (move_to_end k d) = length d"
    by auto
qed

lemma sum_values_move_to_end: "distinct (map fst d) \<Longrightarrow> sum_values (move_to_end k d) = sum_values d"
  by (simp add: move_to_end_def sum_values_delete dict_get_def split: option.split)

lemma load_path_inv: "lazy_inv env ix \<Longrightarrow> lazy_inv env (snd (load_path env path ix))"
proof -
  assume inv: "lazy_inv env ix"
  then have "distinct (map fst (cache ix))" by (simp add: lazy_inv_defs)
  note m = move_to_end_facts [OF this, of path]
  have "lazy_inv env (ix\<lparr>cache := move_to_end path (cache ix)\<rparr>) = lazy_inv env ix"
    using m \<open>distinct (map fst (cache ix))\<close> by (simp add: lazy_inv_defs sum_values_move_to_end list_all_iff)
  moreover have "lazy_inv env (snd (admit_path env path a (loaded_size env a k) ix))"
    if "path \<notin> fst ` set (analyses ix)" "loader env = Some load" "load path = Loaded a n" for load a n k
    using admit_path_inv [OF inv that(1)] that by (auto simp: from_loader_def loaded_size_def)
  ultimately show ?thesis using inv by (simp add: load_path_def split: option.split load_outcome.split)
qed

text \<open>Operations on the candidate index and the resolution cache leave the cached files alone.\<close>

definition same_cache :: "'w lazy_index \<Rightarrow> 'w lazy_index \<Rightarrow> bool" where
  "same_cache ix ix' \<longleftrightarrow> analyses ix' = analyses ix \<and> cache ix' = cache ix \<and> cached_bytes ix' = cached_bytes ix \<and>
     max_cached_bytes ix' = max_cached_bytes ix \<and> pinned ix' = pinned ix \<and> budget_exhausted ix' = budget_exhausted ix \<and>
     fn_table ix' = fn_table ix \<and> macro_table ix' = macro_table ix \<and> const_table ix' = const_table ix"

lemma same_cache_inv: "same_cache ix ix' \<Longrightarrow> resolution_inv ix' \<Longrightarrow> lazy_inv env ix \<Longrightarrow> lazy_inv env ix'"
proof -
  assume s: "same_cache ix ix'" and r: "resolution_inv ix'" and i: "lazy_inv env ix"
  from s have "cache_inv env ix' = cache_inv env ix" "tables_agree ix' = tables_agree ix"
    by (simp_all add: same_cache_def cache_inv_def tables_agree_def)
  with s r i show ?thesis by (simp add: same_cache_def lazy_inv_def)
qed

lemma same_cache_refl [simp]: "same_cache ix ix"
  by (simp add: same_cache_def)

lemma same_cache_trans: "same_cache ix ix' \<Longrightarrow> same_cache ix' ix'' \<Longrightarrow> same_cache ix ix''"
  by (simp add: same_cache_def)

lemma same_cache_bookkeeping [simp]:
  "same_cache ix (bump k n ix') = same_cache ix ix'"
  "same_cache ix (record_index_cache_metrics ix') = same_cache ix ix'"
  "same_cache ix (notify_cache_change env ix') = same_cache ix ix'"
  "same_cache (bump k n ix) ix' = same_cache ix ix'"
  by (simp_all add: same_cache_def bump_def record_index_cache_metrics_def notify_cache_change_def
      split: option.split prod.split)

lemma resolution_inv_bookkeeping [simp]:
  "resolution_inv (bump k n ix) = resolution_inv ix"
  "resolution_inv (record_index_cache_metrics ix) = resolution_inv ix"
  "resolution_inv (notify_cache_change env ix) = resolution_inv ix"
  by (simp_all add: bump_def record_index_cache_metrics_def notify_cache_change_def resolution_inv_def
      split: option.split prod.split)

lemma evict_resolutions_cache: "same_cache ix (evict_resolutions bound d ix)"
  by (induction bound d ix rule: evict_resolutions.induct) (auto simp: same_cache_def)

lemma evict_resolutions_inv:
  "distinct (map fst d) \<Longrightarrow> distinct (map fst (resolution_sizes ix)) \<Longrightarrow>
   fst ` set d = fst ` set (resolution_sizes ix) \<Longrightarrow> resolution_bytes ix = sum_values (resolution_sizes ix) \<Longrightarrow>
   bound = max_resolution ix \<Longrightarrow> 1 \<le> bound \<Longrightarrow> resolution_inv (evict_resolutions bound d ix)"
proof (induction bound d ix rule: evict_resolutions.induct)
  case (1 bound ix)
  then show ?case by (simp add: resolution_inv_def)
next
  case (2 bound k v rest ix)
  have "fst ` set rest = fst ` set (resolution_sizes ix) - {k}" using "2.prems"(1,3) by auto
  with 2 show ?case
    by (auto simp: resolution_inv_def sum_values_delete fst_set_delete distinct_keys_delete)
qed

lemma store_resolution_inv:
  assumes "resolution_inv ix" "map_of (resolution_cache ix) key = None"
  shows "resolution_inv (store_resolution env key paths ix)"
proof -
  have f: "key \<notin> fst ` set (resolution_cache ix)" using assms(2) by (simp add: map_of_fst_iff)
  moreover have g: "key \<notin> fst ` set (resolution_sizes ix)" using f assms(1) by (simp add: resolution_inv_def)
  ultimately show ?thesis using assms(1) unfolding store_resolution_def Let_def
    by (intro evict_resolutions_inv) (auto simp: resolution_inv_def update_fresh)
qed

lemma store_resolution_cache: "same_cache ix (store_resolution env key paths ix)"
proof -
  have "same_cache ix (ix\<lparr>resolution_sizes := s, resolution_bytes := b\<rparr>)" for s b by (simp add: same_cache_def)
  then show ?thesis unfolding store_resolution_def Let_def using evict_resolutions_cache same_cache_trans by blast
qed

lemma ensure_candidate_index_frame:
  "same_cache ix (ensure_candidate_index env ix)"
  "resolution_inv (ensure_candidate_index env ix) = resolution_inv ix"
  "resolution_cache (ensure_candidate_index env ix) = resolution_cache ix"
proof -
  have u: "same_cache ix (ix\<lparr>cand_ready := True, cand_index := c, cand_entries := e, cand_bytes := b\<rparr>)"
    "same_cache ix (ix\<lparr>cand_ready := True, candidate_index_unavailable := True\<rparr>)"
    "same_cache ix (ix\<lparr>cand_ready := True\<rparr>)" for c e b by (simp_all add: same_cache_def)
  then show "same_cache ix (ensure_candidate_index env ix)"
    unfolding ensure_candidate_index_def Let_def by (auto split: option.split)
  show "resolution_inv (ensure_candidate_index env ix) = resolution_inv ix"
    unfolding ensure_candidate_index_def Let_def by (auto simp: resolution_inv_def bump_def
        record_index_cache_metrics_def notify_cache_change_def split: option.split prod.split)
  show "resolution_cache (ensure_candidate_index env ix) = resolution_cache ix"
    unfolding ensure_candidate_index_def Let_def by (auto simp: bump_def
        record_index_cache_metrics_def notify_cache_change_def split: option.split prod.split)
qed

lemma candidate_paths_frame:
  assumes "resolution_inv ix"
  shows "same_cache ix (snd (candidate_paths env kind name ix)) \<and> resolution_inv (snd (candidate_paths env kind name ix))"
proof (cases "map_of (resolution_cache ix) (kind, name)")
  case None
  let ?ix1 = "ensure_candidate_index env (bump ''dependency_resolution_cache_misses'' 1 ix)"
  have r: "resolution_inv ?ix1" using assms by (simp add: ensure_candidate_index_frame)
  have "map_of (resolution_cache ?ix1) (kind, name) = None"
    using None by (simp add: ensure_candidate_index_frame) (simp add: bump_def)
  note s = store_resolution_inv [OF r this]
  have "same_cache ix ?ix1"
    using ensure_candidate_index_frame(1) [of "bump ''dependency_resolution_cache_misses'' 1 ix" env] by simp
  then have "same_cache ix (store_resolution env (kind, name) paths ?ix1)" for paths
    using store_resolution_cache same_cache_trans by blast
  with s None show ?thesis by (simp add: candidate_paths_def Let_def)
next
  case (Some c)
  have d: "distinct (map fst (resolution_cache ix))" using assms by (simp add: resolution_inv_def)
  have "resolution_inv (ix\<lparr>resolution_cache := move_to_end (kind, name) (resolution_cache ix)\<rparr>)"
    using assms move_to_end_facts [OF d] by (simp add: resolution_inv_def)
  moreover have "same_cache ix (ix\<lparr>resolution_cache := m\<rparr>)" for m by (simp add: same_cache_def)
  ultimately show ?thesis using Some by (simp add: candidate_paths_def)
qed

lemma visit_paths_inv: "lazy_inv env ix \<Longrightarrow> lazy_inv env (visit_paths env kind name ps ix)"
proof (induction ps arbitrary: ix)
  case (Cons p ps)
  let ?r = "if p \<in> fst ` set (analyses ix) then (True, ix) else load_path env p ix"
  have "lazy_inv env (snd ?r)" using load_path_inv [OF Cons.prems] Cons.prems by auto
  then show ?case using Cons by (cases ?r) auto
qed simp

lemma search_paths_frame:
  assumes "lazy_inv env ix"
  shows "same_cache ix (snd (search_paths env kind name ix))" "lazy_inv env (snd (search_paths env kind name ix))"
proof -
  have "resolution_inv ix" using assms by (simp add: lazy_inv_def)
  from candidate_paths_frame [OF this, of env kind name] assms
  show "same_cache ix (snd (search_paths env kind name ix))" "lazy_inv env (snd (search_paths env kind name ix))"
    using same_cache_inv unfolding search_paths_def by auto
qed

lemma ensure_symbol_inv: "lazy_inv env ix \<Longrightarrow> lazy_inv env (ensure_symbol env kind name ix)"
  using search_paths_frame(2) [of env ix kind name] unfolding ensure_symbol_def
  by (cases "search_paths env kind name ix") (simp add: visit_paths_inv)

datatype index_operation =
    LookupFunctions string "analysis option"
  | LookupDefinitions symbol_kind string "analysis option"
  | ReadStatistics
  | MarkOverBudget

inductive lazy_step :: "'w index_env \<Rightarrow> 'w lazy_index \<Rightarrow> index_operation \<Rightarrow> 'w lazy_index \<Rightarrow> bool" for env where
  step_functions: "lazy_step env ix (LookupFunctions name l) (snd (lazy_functions env name l ix))"
| step_definitions: "lazy_step env ix (LookupDefinitions kind name l) (snd (lazy_definitions env kind name l ix))"
| step_statistics: "lazy_step env ix ReadStatistics (snd (cache_stats ix))"
| step_mark: "lazy_step env ix MarkOverBudget (ix\<lparr>memory_budget_exhausted := True\<rparr>)"

inductive lazy_start :: "'w index_env \<Rightarrow> 'w lazy_index \<Rightarrow> bool" for env where
  "distinct (map fst as) \<Longrightarrow> lazy_start env (LazySourceAnalysisIndex env paths as max_bytes ms cand max_entries w)"

lemma new_lazy_index_inv:
  assumes "distinct (map fst as)"
  shows "cache_inv env (new_lazy_index env paths as max_bytes ms cand max_entries w)"
    "resolution_inv (new_lazy_index env paths as max_bytes ms cand max_entries w)"
    "tables_agree (new_lazy_index env paths as max_bytes ms cand max_entries w)"
proof -
  let ?s = "map (\<lambda>(p, a). (p, int (analysis_size env a))) (sorted_items as)"
  have s: "distinct (map fst (sorted_items as))" "set (sorted_items as) = set as"
    using assms by (simp_all add: sorted_items_def distinct_map)
  have m: "map fst ?s = map fst (sorted_items as)" by (simp add: case_prod_unfold)
  moreover from m have "fst ` set ?s = fst ` set as" using s(2) by (metis image_set)
  moreover have "list_all (\<lambda>(p, n). 0 \<le> n) ?s" by (auto simp: list_all_iff)
  ultimately show "cache_inv env (new_lazy_index env paths as max_bytes ms cand max_entries w)"
    using assms s(1) unfolding new_lazy_index_def Let_def cache_inv_def by (simp del: map_map set_map) force
  show "resolution_inv (new_lazy_index env paths as max_bytes ms cand max_entries w)"
    "tables_agree (new_lazy_index env paths as max_bytes ms cand max_entries w)"
    unfolding new_lazy_index_def Let_def resolution_inv_def by auto
qed

lemma lazy_start_inv: "lazy_start env ix \<Longrightarrow> lazy_inv env ix"
proof (induction rule: lazy_start.induct)
  case (1 as paths max_bytes ms cand max_entries w)
  note i = new_lazy_index_inv [OF 1, of env paths max_bytes ms cand max_entries w]
  from exhaust_inv [OF i(1,2)] i show ?case
    unfolding LazySourceAnalysisIndex_def Let_def by (simp add: lazy_inv_def)
qed

lemma lazy_inv_mark [simp]: "lazy_inv env (ix\<lparr>memory_budget_exhausted := b\<rparr>) = lazy_inv env ix"
  by (simp add: lazy_inv_defs)

lemma lazy_step_inv: "lazy_step env ix op ix' \<Longrightarrow> lazy_inv env ix \<Longrightarrow> lazy_inv env ix'"
  by (induction rule: lazy_step.induct)
     (simp_all add: lazy_functions_def lazy_definitions_def cache_stats_def Let_def ensure_symbol_inv)

interpretation lazy_system: invariant_system "lazy_start env" "lazy_step env" "lazy_inv env" for env
  by unfold_locales (auto intro: lazy_start_inv lazy_step_inv)

section \<open>Lookups with room in the budget\<close>

lemma tables_agree_scan: "tables_agree ix \<Longrightarrow> dict_get (fn_table ix) name [] = scan_functions name (analyses ix)"
  using rebuild_get(1) [of ix name] by (simp add: tables_agree_def rebuild_def)

definition load_need :: "'w index_env \<Rightarrow> 'w lazy_index \<Rightarrow> string \<Rightarrow> int" where
  "load_need env ix p =
     (if p \<in> fst ` set (analyses ix) then 0
      else case loader env of None \<Rightarrow> 0
        | Some load \<Rightarrow> (case load p of Loaded a n \<Rightarrow> loaded_size env a n | _ \<Rightarrow> 0))"

lemma load_need_nonneg [simp]: "0 \<le> load_need env ix p"
  by (auto simp: load_need_def loaded_size_def split: option.split load_outcome.split)

lemma load_need_mono:
  "fst ` set (analyses ix) \<subseteq> fst ` set (analyses ix') \<Longrightarrow>
   sum_list (map (load_need env ix') ps) \<le> sum_list (map (load_need env ix) ps)"
  by (intro sum_list_mono) (auto simp: load_need_def loaded_size_def split: option.split load_outcome.split)

text \<open>A file that fits is admitted without an eviction.\<close>

lemma load_path_room:
  assumes "\<not> budget_exhausted ix" "p \<notin> fst ` set (analyses ix)" "0 \<le> cached_bytes ix"
    and "cached_bytes ix + load_need env ix p \<le> max_cached_bytes ix" and "load_path env p ix = (ok, ix')"
  shows "\<not> budget_exhausted ix' \<and> max_cached_bytes ix' = max_cached_bytes ix \<and>
    fst ` set (analyses ix) \<subseteq> fst ` set (analyses ix') \<and> cached_bytes ix' = cached_bytes ix + load_need env ix p \<and>
    (from_loader env p a \<longrightarrow> p \<in> fst ` set (analyses ix'))"
proof (cases "\<exists>load b n. loader env = Some load \<and> load p = Loaded b n")
  case False
  with assms(2,5) show ?thesis using assms(1)
    by (auto simp: load_path_def load_need_def from_loader_def split: option.splits load_outcome.splits)
next
  case True
  then obtain load b n where l: "loader env = Some load" "load p = Loaded b n" by blast
  with assms(2) have need: "load_need env ix p = loaded_size env b n" by (simp add: load_need_def)
  have "make_room (loaded_size env b n) ix = (True, ix)"
    using assms(4) need by (subst make_room.simps) simp
  with assms l need show ?thesis
    by (auto simp: load_path_def admit_path_def Let_def update_fresh)
qed

lemma visit_paths_complete:
  assumes "\<not> budget_exhausted ix" "0 \<le> cached_bytes ix"
    and "cached_bytes ix + sum_list (map (load_need env ix) ps) \<le> max_cached_bytes ix"
  shows "\<not> budget_exhausted (visit_paths env kind name ps ix) \<and>
    fst ` set (analyses ix) \<subseteq> fst ` set (analyses (visit_paths env kind name ps ix)) \<and>
    (count_named kind name (visit_paths env kind name ps ix) > 1 \<or>
     (\<forall>p a. p \<in> set ps \<longrightarrow> from_loader env p a \<longrightarrow> p \<in> fst ` set (analyses (visit_paths env kind name ps ix))))"
  using assms
proof (induction ps arbitrary: ix)
  case (Cons p ps)
  show ?case
  proof (cases "count_named kind name ix > 1")
    case False
    obtain ok ix1 where r: "(if p \<in> fst ` set (analyses ix) then (True, ix) else load_path env p ix) = (ok, ix1)"
      by (metis surj_pair)
    have "0 \<le> sum_list (map (load_need env ix) ps)" by (intro sum_list_nonneg) auto
    then have room: "cached_bytes ix + load_need env ix p \<le> max_cached_bytes ix" using Cons.prems(3) by simp
    have s: "\<not> budget_exhausted ix1 \<and> max_cached_bytes ix1 = max_cached_bytes ix \<and>
        fst ` set (analyses ix) \<subseteq> fst ` set (analyses ix1) \<and> cached_bytes ix1 = cached_bytes ix + load_need env ix p \<and>
        (from_loader env p a \<longrightarrow> p \<in> fst ` set (analyses ix1))" for a
    proof (cases "p \<in> fst ` set (analyses ix)")
      case True
      with r Cons.prems(1) show ?thesis by (auto simp: load_need_def)
    next
      case False
      with r load_path_room [OF Cons.prems(1) False Cons.prems(2) room] show ?thesis by simp
    qed
    have "sum_list (map (load_need env ix1) ps) \<le> sum_list (map (load_need env ix) ps)"
      using s by (intro load_need_mono) blast
    then have "cached_bytes ix1 + sum_list (map (load_need env ix1) ps) \<le> max_cached_bytes ix1" "0 \<le> cached_bytes ix1"
      using s Cons.prems(2,3) load_need_nonneg [of env ix p] by simp_all
    note ih = Cons.IH [OF _ this(2,1)]
    have v: "visit_paths env kind name (p # ps) ix =
        (if count_named kind name ix1 > 1 then ix1 else visit_paths env kind name ps ix1)"
      using False r s by simp
    show ?thesis
    proof (cases "count_named kind name ix1 > 1")
      case True
      then show ?thesis using v s by simp
    next
      case False
      then have w: "visit_paths env kind name (p # ps) ix = visit_paths env kind name ps ix1" using v by simp
      have k: "fst ` set (analyses ix) \<subseteq> fst ` set (analyses ix1)" "\<not> budget_exhausted ix1" using s by blast+
      show ?thesis unfolding w using ih [OF k(2)] k(1) s by (metis (no_types, lifting) set_ConsD subset_iff)
    qed
  qed (use Cons.prems in simp)
qed simp

lemma length_concat_two:
  assumes "x \<in> set xs" "y \<in> set xs" "x \<noteq> y" "g x \<noteq> []" "g y \<noteq> []"
  shows "2 \<le> length (concat (map g xs))"
proof -
  have one: "1 \<le> length (concat (map g zs))" if "z \<in> set zs" "g z \<noteq> []" for z zs
    using that by (induction zs) (auto simp: Suc_le_eq)
  have l: "1 \<le> length (g x)" "1 \<le> length (g y)" using assms(4,5) by (simp_all add: Suc_le_eq)
  show ?thesis using assms(1,2,3)
  proof (induction xs)
    case (Cons z zs)
    consider "x = z" "y \<in> set zs" | "y = z" "x \<in> set zs" | "x \<in> set zs" "y \<in> set zs" using Cons.prems by auto
    then show ?case
    proof cases
      case 1
      then show ?thesis using one [of y zs] l assms(5) by simp
    next
      case 2
      then show ?thesis using one [of x zs] l assms(4) by simp
    next
      case 3
      then show ?thesis using Cons.IH assms(3) by simp
    qed
  qed simp
qed

lemma sum_values_nonneg: "list_all (\<lambda>(p, n). 0 \<le> n) d \<Longrightarrow> 0 \<le> sum_values d"
  by (induction d) auto

lemma make_room_pinned: "make_room need ix = (ok, ix') \<Longrightarrow> pinned ix' = pinned ix"
proof (induction need ix arbitrary: ok ix' rule: make_room.induct)
  case (1 need ix)
  then show ?case by (subst (asm) (2) make_room.simps) (auto split: if_splits option.splits)
qed

lemma load_path_pinned: "pinned (snd (load_path env p ix)) = pinned ix"
  by (auto simp: load_path_def admit_path_def Let_def exhaust_def bump_def notify_cache_change_def
        record_index_cache_metrics_def rebuild_def dest: make_room_pinned split: option.split load_outcome.split prod.split bool.split)

lemma visit_paths_pinned: "pinned (visit_paths env kind name ps ix) = pinned ix"
proof (induction ps arbitrary: ix)
  case (Cons p ps)
  then show ?case using load_path_pinned [of env p ix]
    by (cases "load_path env p ix") auto
qed simp

lemma lazy_functions_cases:
  assumes "lazy_inv env ix" "lazy_functions env name l ix = (fs, ix')"
  shows "lazy_inv env ix' \<and> (if budget_exhausted ix' then fs = []
     else fs = (if scan_functions name (analyses ix') \<noteq> [] then scan_functions name (analyses ix') else local_functions l name))"
proof -
  have i: "ix' = ensure_symbol env Functions name ix" "lazy_inv env ix'"
    using assms ensure_symbol_inv by (auto simp: lazy_functions_def Let_def)
  show ?thesis
  proof (cases "budget_exhausted ix'")
    case True
    then show ?thesis using assms(2) i by (simp add: lazy_functions_def Let_def)
  next
    case False
    then have "tables_agree ix'" using i(2) by (simp add: lazy_inv_def)
    from tables_agree_scan [OF this] False assms(2) i show ?thesis
      by (auto simp: lazy_functions_def Let_def index_functions_named_def local_functions_def)
  qed
qed

section \<open>The state behind the callback\<close>

text \<open>A property of the callback's own state that every call of the callback keeps, every lookup keeps.\<close>

definition callback_keeps :: "('w \<Rightarrow> bool) \<Rightarrow> 'w index_env \<Rightarrow> bool" where
  "callback_keeps P env \<longleftrightarrow> (\<forall>f ix. on_cache_change env = Some f \<longrightarrow> P (world ix) \<longrightarrow> P (fst (f ix)))"

lemma world_frame [simp]:
  "world (bump k n ix) = world ix" "world (record_index_cache_metrics ix) = world ix"
  "world (rebuild ix) = world ix" "world (exhaust ix) = world ix"
  by (simp_all add: bump_def record_index_cache_metrics_def rebuild_def exhaust_def)

lemma world_evict [simp]: "world (evict_resolutions bound d ix) = world ix"
  by (induction bound d ix rule: evict_resolutions.induct) simp_all

lemma world_make_room: "make_room need ix = (ok, ix') \<Longrightarrow> world ix' = world ix"
proof (induction need ix arbitrary: ok ix' rule: make_room.induct)
  case (1 need ix)
  then show ?case by (subst (asm) (2) make_room.simps) (auto split: if_splits option.splits)
qed

lemma notify_world: "callback_keeps P env \<Longrightarrow> P (world ix) \<Longrightarrow> P (world (notify_cache_change env ix))"
  by (auto simp: callback_keeps_def notify_cache_change_def split: option.split prod.split) (metis fst_conv)

lemma load_path_world:
  assumes "callback_keeps P env" "P (world ix)"
  shows "P (world (snd (load_path env p ix)))"
proof -
  have "P (world (snd (admit_path env p a need ix)))" for a need
  proof (cases "make_room need ix")
    case (Pair ok ix1)
    have w: "world ix1 = world ix" using world_make_room [OF Pair] .
    show ?thesis unfolding admit_path_def Pair Let_def
      using assms(2) w by (cases ok) (auto intro!: notify_world [OF assms(1)])
  qed
  then show ?thesis unfolding load_path_def
    using assms(2) by (auto intro!: notify_world [OF assms(1)] split: option.split load_outcome.split)
qed

lemma visit_paths_world:
  assumes "callback_keeps P env"
  shows "P (world ix) \<Longrightarrow> P (world (visit_paths env kind name ps ix))"
proof (induction ps arbitrary: ix)
  case (Cons p ps)
  let ?r = "if p \<in> fst ` set (analyses ix) then (True, ix) else load_path env p ix"
  have "P (world (snd ?r))" using load_path_world [OF assms Cons.prems] Cons.prems by auto
  then show ?case using Cons by (cases ?r) auto
qed simp

lemma candidate_paths_world:
  assumes "callback_keeps P env" "P (world ix)"
  shows "P (world (snd (candidate_paths env kind name ix)))"
proof -
  have "P (world (ensure_candidate_index env x))" if "P (world x)" for x
    using that by (auto simp: ensure_candidate_index_def Let_def intro!: notify_world [OF assms(1)] split: option.split)
  then show ?thesis using assms(2)
    by (auto simp: candidate_paths_def store_resolution_def Let_def intro!: notify_world [OF assms(1)] split: option.split)
qed

lemma ensure_symbol_world:
  assumes "callback_keeps P env" "P (world ix)"
  shows "P (world (ensure_symbol env kind name ix))"
proof -
  have "P (world (snd (search_paths env kind name ix)))"
    using candidate_paths_world [OF assms] assms(2) by (simp add: search_paths_def)
  then show ?thesis using visit_paths_world [OF assms(1)]
    by (cases "search_paths env kind name ix") (simp add: ensure_symbol_def)
qed

lemma lazy_step_world: "lazy_step env ix op ix' \<Longrightarrow> callback_keeps P env \<Longrightarrow> P (world ix) \<Longrightarrow> P (world ix')"
  by (induction rule: lazy_step.induct)
     (simp_all add: lazy_functions_def lazy_definitions_def cache_stats_def Let_def ensure_symbol_world)

lemma lookups_keep_world:
  "reaches (lazy_step env) ix ops ix' \<Longrightarrow> callback_keeps P env \<Longrightarrow> P (world ix) \<Longrightarrow> P (world ix')"
  by (induction rule: reaches.induct) (auto intro: lazy_step_world)

section \<open>Properties\<close>

text \<open>Whatever lookups run, the byte count of the index is the sum of the sizes of the cached files, the
  cached files are exactly the analysed ones, the count of the resolution cache is the sum of its entry
  sizes and its length stays within its bound, and the cached bytes stay within the budget unless the
  index has been marked exhausted.\<close>

lemma lazy_index_accounting:
  assumes "distinct (map fst as)"
    and "reaches (lazy_step env) (LazySourceAnalysisIndex env paths as max_bytes ms cand max_entries w) ops ix"
  shows "cached_bytes ix = sum_values (cache ix) \<and> fst ` set (cache ix) = fst ` set (analyses ix) \<and>
    resolution_bytes ix = sum_values (resolution_sizes ix) \<and> length (resolution_cache ix) \<le> max_resolution ix \<and>
    (budget_exhausted ix \<or> cached_bytes ix \<le> max_cached_bytes ix)"
proof -
  have "lazy_inv env ix" using lazy_system.reachable_inv [OF lazy_start.intros [OF assms(1)] assms(2)] .
  then show ?thesis by (auto simp: lazy_inv_defs)
qed

text \<open>C25: the functions that a lookup returns are exactly those of that name in the files cached after it, in
  path order, or the local ones when no cached file has any; an exhausted index answers nothing.\<close>

theorem lazy_functions_scan:
  assumes "distinct (map fst as)"
    and "reaches (lazy_step env) (LazySourceAnalysisIndex env paths as max_bytes ms cand max_entries w) ops ix"
    and "lazy_functions env name l ix = (fs, ix')"
  shows "fs = (if budget_exhausted ix' then []
               else if scan_functions name (analyses ix') \<noteq> [] then scan_functions name (analyses ix')
               else local_functions l name)"
  using lazy_functions_cases [OF lazy_system.reachable_inv [OF lazy_start.intros [OF assms(1)] assms(2)] assms(3)]
  by (auto split: if_splits)

text \<open>Two candidate files that define the same name are reported as an ambiguity: the lookup returns at
  least two functions, provided the candidate files that are not cached yet fit into what is left of the
  budget and no file was pinned at the start.\<close>

lemma ambiguity_reported:
  assumes "lazy_start env s" "reaches (lazy_step env) s ops ix" "pinned ix = []" "\<not> budget_exhausted ix"
    and "search_paths env Functions name ix = (ps, ix1)" "\<not> candidate_index_unavailable ix1"
    and "cached_bytes ix + sum_list (map (load_need env ix) ps) \<le> max_cached_bytes ix"
    and "p \<in> set ps" "from_loader env p a" "f \<in> set (a_functions a)" "id_name (identity f) = name"
    and "q \<in> set ps" "from_loader env q b" "g \<in> set (a_functions b)" "id_name (identity g) = name" "p \<noteq> q"
  shows "2 \<le> length (fst (lazy_functions env name l ix))"
proof -
  have inv: "lazy_inv env ix" using lazy_system.reachable_inv [OF assms(1,2)] .
  note fr = search_paths_frame [OF inv, of Functions name, unfolded assms(5) snd_conv]
  have "list_all (\<lambda>(p, n). 0 \<le> n) (cache ix)" "cached_bytes ix = sum_values (cache ix)" using inv by (auto simp: lazy_inv_defs)
  then have "0 \<le> cached_bytes ix" using sum_values_nonneg by simp
  moreover have "load_need env ix1 = load_need env ix" using fr(1) by (auto simp: load_need_def same_cache_def)
  ultimately have room: "\<not> budget_exhausted ix1" "0 \<le> cached_bytes ix1"
    "cached_bytes ix1 + sum_list (map (load_need env ix1) ps) \<le> max_cached_bytes ix1"
    using assms(4,7) fr(1) by (auto simp: same_cache_def)
  let ?ix' = "visit_paths env Functions name ps ix1"
  have e: "ensure_symbol env Functions name ix = ?ix'" using assms(5,6) by (simp add: ensure_symbol_def)
  note c = visit_paths_complete [OF room, of Functions name]
  have inv': "lazy_inv env ?ix'" using visit_paths_inv [OF fr(2)] .
  have "2 \<le> length (dict_get (fn_table ?ix') name [])"
  proof (cases "count_named Functions name ?ix' > 1")
    case False
    then have k: "p \<in> fst ` set (analyses ?ix')" "q \<in> fst ` set (analyses ?ix')" using c assms by blast+
    have "pinned ?ix' = []"
      using assms(3) fr(1) visit_paths_pinned [of env Functions name ps ix1] by (simp add: same_cache_def)
    then have "(p, a) \<in> set (analyses ?ix')" "(q, b) \<in> set (analyses ?ix')"
      using k inv' assms(9,13) by (fastforce simp: lazy_inv_defs from_loader_def)+
    then have "2 \<le> length (scan_functions name (analyses ?ix'))"
      unfolding scan_functions_def using assms(10,11,14,15,16)
      by (intro length_concat_two [of "(p, a)" _ "(q, b)"]) (auto simp: sorted_items_def filter_empty_conv)
    moreover have "tables_agree ?ix'" using inv' c by (simp add: lazy_inv_def)
    ultimately show ?thesis by (simp add: tables_agree_scan)
  qed (simp add: count_named_def)
  then show ?thesis using e c by (auto simp: lazy_functions_def Let_def index_functions_named_def)
qed

section \<open>An example repository\<close>

definition demo_source :: "string \<Rightarrow> string option" where
  "demo_source p =
     (if p = ''a.c'' then Some (''void h() {'' @ [NL] @ ''}'' @ [NL] @ ''void f() {'' @ [NL] @ ''}'')
      else if p = ''b.c'' then Some (''void f() {'' @ [NL] @ ''x;'' @ [NL] @ ''}'')
      else if p = ''c.c'' then Some (''void g() {'' @ [NL] @ ''}'')
      else None)"

definition demo_load :: "string \<Rightarrow> load_outcome" where
  "demo_load p = (case demo_source p of None \<Rightarrow> LoadRaised | Some t \<Rightarrow> Loaded (analyze t p) (Some 1))"

definition demo_env :: "unit index_env" where
  "demo_env = \<lparr>loader = Some demo_load,
     cand_loader = Some (Some \<lparr>cand_functions = [(''f'', PathList [''b.c'', ''a.c'']), (''g'', PathText ''c.c''),
       (''h'', PathText ''a.c''), (''k'', PathText ''missing.c'')], cand_macros = [], cand_constants = []\<rparr>),
     analysis_size = (\<lambda>a. 1), index_size = (\<lambda>c. 4), entry_size = (\<lambda>e. 1), on_cache_change = None\<rparr>"

definition demo_index :: "int \<Rightarrow> unit lazy_index" where
  "demo_index n = LazySourceAnalysisIndex demo_env [] [] n [] None 10 ()"

theorem lazy_index_accounting_witness:
  "cached_bytes (snd (lazy_functions demo_env ''f'' None (demo_index 2))) =
   sum_values (cache (snd (lazy_functions demo_env ''f'' None (demo_index 2))))"
proof -
  let ?ix = "snd (lazy_functions demo_env ''f'' None (demo_index 2))"
  have "reaches (lazy_step demo_env) (LazySourceAnalysisIndex demo_env [] [] 2 [] None 10 ()) [LookupFunctions ''f'' None] ?ix"
    unfolding demo_index_def by (rule reaches_Cons, rule step_functions, rule reaches_refl)
  from lazy_index_accounting [OF _ this] show ?thesis by simp
qed

theorem lazy_functions_scan_witness:
  "fst (lazy_functions demo_env ''f'' None (demo_index 2)) =
   scan_functions ''f'' (analyses (snd (lazy_functions demo_env ''f'' None (demo_index 2))))"
proof -
  let ?ix = "snd (lazy_functions demo_env ''f'' None (demo_index 2))"
  have r: "reaches (lazy_step demo_env) (LazySourceAnalysisIndex demo_env [] [] 2 [] None 10 ()) [] (demo_index 2)"
    unfolding demo_index_def by (rule reaches_refl)
  have "\<not> budget_exhausted ?ix" by code_simp
  with lazy_functions_scan [OF _ r, of "''f''" None "fst (lazy_functions demo_env ''f'' None (demo_index 2))" ?ix]
  show ?thesis by (simp add: local_functions_def)
qed

theorem ambiguity_reported_witness: "2 \<le> length (fst (lazy_functions demo_env ''f'' None (demo_index 2)))"
proof -
  have s: "lazy_start demo_env (demo_index 2)" unfolding demo_index_def by (rule lazy_start.intros) simp
  let ?p = "search_paths demo_env Functions ''f'' (demo_index 2)"
  obtain a f where a: "demo_load ''a.c'' = Loaded a (Some 1)" "f \<in> set (a_functions a)" "id_name (identity f) = ''f''"
  proof -
    have "filter (\<lambda>f. id_name (identity f) = ''f'') (a_functions (analyze (the (demo_source ''a.c'')) ''a.c'')) \<noteq> []" by code_simp
    then show ?thesis using that by (auto simp: demo_load_def demo_source_def filter_empty_conv)
  qed
  obtain b g where b: "demo_load ''b.c'' = Loaded b (Some 1)" "g \<in> set (a_functions b)" "id_name (identity g) = ''f''"
  proof -
    have "filter (\<lambda>f. id_name (identity f) = ''f'') (a_functions (analyze (the (demo_source ''b.c'')) ''b.c'')) \<noteq> []" by code_simp
    then show ?thesis using that by (auto simp: demo_load_def demo_source_def filter_empty_conv)
  qed
  have l: "from_loader demo_env ''a.c'' a" "from_loader demo_env ''b.c'' b"
    using a(1) b(1) by (auto simp: from_loader_def demo_env_def)
  have p: "fst ?p = [''a.c'', ''b.c'']" "\<not> candidate_index_unavailable (snd ?p)" by code_simp+
  have c: "pinned (demo_index 2) = []" "\<not> budget_exhausted (demo_index 2)" by code_simp+
  have room: "cached_bytes (demo_index 2) + sum_list (map (load_need demo_env (demo_index 2)) [''a.c'', ''b.c''])
      \<le> max_cached_bytes (demo_index 2)" by code_simp
  show ?thesis
    by (rule ambiguity_reported [OF s reaches_refl c, of "''f''" "[''a.c'', ''b.c'']" "snd ?p" "''a.c''" a f "''b.c''" b g])
       (use a b l p room in \<open>auto simp: prod_eq_iff\<close>)
qed

text \<open>With less room the ambiguity is lost: both \<open>a.c\<close> and \<open>b.c\<close> define \<open>f\<close>; \<open>a.c\<close> is cached, and loading
  \<open>b.c\<close> for the lookup of \<open>f\<close> evicts it, so that the lookup returns a single function and sets no flag.\<close>

lemma eviction_hides_ambiguity:
  "let ix1 = snd (lazy_functions demo_env ''h'' None (demo_index 2));
       ix2 = snd (lazy_functions demo_env ''g'' None ix1);
       (fs, ix3) = lazy_functions demo_env ''f'' None ix2 in
   length (scan_functions ''f'' (analyses ix2)) = 1 \<and> fst ` set (analyses ix2) = {''a.c'', ''c.c''} \<and>
   fst ` set (analyses ix3) = {''b.c'', ''c.c''} \<and> length fs = 1 \<and>
   \<not> budget_exhausted ix3 \<and> \<not> memory_budget_exhausted ix3 \<and> \<not> candidate_index_unavailable ix3"
  by code_simp

end
