(* ===== verification/Dependencies.thy ===== *)
theory Dependencies
  imports SymbolIndex
begin

text \<open>
  The dependency check of a candidate line, \<open>DependencyResolver\<close> of \<open>app/inheritance/dependencies.py\<close>,
  and the line comparison \<open>compare_line\<close> of \<open>app/inheritance/engine.py\<close> that decides whether a review
  decision is inherited. The two indexes are separate objects (two commits); an index is absent, a
  \<open>SourceAnalysisIndex\<close> or a \<open>LazySourceAnalysisIndex\<close>, whose lookups change it. SHA-256 of a
  \<open>repr\<close> is a parameter for each shape of argument it is applied to.

  Shown: the comparison inherits exactly under its seven conditions; the dependency check accepts
  exactly when every name has equal unique definitions on both sides or none and every callee has
  one certain function with equal identity and body on both sides or none; two cases in which a
  changed or unreadable callee goes unnoticed.
\<close>

section \<open>Lookups through an optional index\<close>

datatype 'w index = NoIndex | EagerIndex source_index | LazyIndex "'w lazy_index"

definition index_memory :: "'w index \<Rightarrow> bool" where
  "index_memory i = (case i of LazyIndex ix \<Rightarrow> memory_budget_exhausted ix | _ \<Rightarrow> False)"

definition index_unavailable :: "'w index \<Rightarrow> bool" where
  "index_unavailable i = (case i of LazyIndex ix \<Rightarrow> candidate_index_unavailable ix | _ \<Rightarrow> False)"

definition index_budget_exhausted :: "'w index \<Rightarrow> bool" where
  "index_budget_exhausted i = (case i of LazyIndex ix \<Rightarrow> budget_exhausted ix \<or> candidate_index_unavailable ix | _ \<Rightarrow> False)"

definition MEMORY_BUDGET :: string where
  "MEMORY_BUDGET = ''DEPENDENCY_INDEX_MEMORY_BUDGET_EXHAUSTED''"

definition unresolved_reason :: "'w index list \<Rightarrow> string" where
  "unresolved_reason is =
     (if list_ex index_memory is then MEMORY_BUDGET
      else if list_ex index_unavailable is then ''DEPENDENCY_CANDIDATE_INDEX_UNAVAILABLE''
      else if list_ex index_budget_exhausted is then ''DEPENDENCY_BUDGET_EXHAUSTED''
      else [])"

definition resolver_definitions ::
  "'w index_env \<Rightarrow> 'w index \<Rightarrow> symbol_kind \<Rightarrow> string \<Rightarrow> analysis \<Rightarrow> (string \<times> definition_value) list \<times> 'w index" where
  "resolver_definitions env i kind name a =
     (case i of NoIndex \<Rightarrow> (local_definitions kind (Some a) name, i)
      | EagerIndex ix \<Rightarrow> (index_definitions_named ix kind name (Some a), i)
      | LazyIndex ix \<Rightarrow> (case lazy_definitions env kind name (Some a) ix of (ds, ix') \<Rightarrow> (ds, LazyIndex ix')))"

definition resolver_functions ::
  "'w index_env \<Rightarrow> 'w index \<Rightarrow> string \<Rightarrow> analysis \<Rightarrow> source_function list \<times> 'w index" where
  "resolver_functions env i name a =
     (case i of NoIndex \<Rightarrow> (local_functions (Some a) name, i)
      | EagerIndex ix \<Rightarrow> (index_functions_named ix name (Some a), i)
      | LazyIndex ix \<Rightarrow> (case lazy_functions env name (Some a) ix of (fs, ix') \<Rightarrow> (fs, LazyIndex ix')))"

section \<open>The dependency check\<close>

datatype fp_entry = FpMacro string definition_value | FpConst string definition_value | FpCallee string string

datatype fp_args =
    FpLines string string
  | FpDefinitions string "(string \<times> definition_value) list" "(string \<times> definition_value) list"
  | FpFunctions string "source_function list" "source_function list"
  | FpBodies string string string
  | FpIdentities string canonical_identity canonical_identity
  | FpEntries "fp_entry list"

record hashes =
  sha_args :: "fp_args \<Rightarrow> string"
  sha_body :: "string list \<Rightarrow> string"
  sha_identity :: "canonical_identity \<Rightarrow> string"
  sha_text_pair :: "string \<times> string \<Rightarrow> string"
  sha_context_pair :: "string list \<times> string list \<Rightarrow> string"

record dependency_result =
  dep_ok :: bool
  dep_reason :: string
  dep_fingerprint :: string

definition fail_dependency :: "hashes \<Rightarrow> string \<Rightarrow> fp_args \<Rightarrow> dependency_result" where
  "fail_dependency h reason args = \<lparr>dep_ok = False, dep_reason = reason, dep_fingerprint = sha_args h args\<rparr>"

definition NON_DEPENDENCY_TOKENS :: "string list" where
  "NON_DEPENDENCY_TOKENS = [
    ''alignas'', ''alignof'', ''and'', ''and_eq'', ''asm'', ''auto'', ''bitand'',
    ''bitor'', ''bool'', ''break'', ''case'', ''catch'', ''char'', ''char8_t'',
    ''char16_t'', ''char32_t'', ''class'', ''compl'', ''concept'', ''const'',
    ''consteval'', ''constexpr'', ''constinit'', ''const_cast'', ''continue'',
    ''co_await'', ''co_return'', ''co_yield'', ''decltype'', ''default'', ''delete'',
    ''do'', ''double'', ''dynamic_cast'', ''else'', ''enum'', ''explicit'', ''export'',
    ''extern'', ''false'', ''float'', ''for'', ''friend'', ''goto'', ''if'', ''inline'',
    ''int'', ''long'', ''mutable'', ''namespace'', ''new'', ''noexcept'', ''not'',
    ''not_eq'', ''nullptr'', ''operator'', ''or'', ''or_eq'', ''private'', ''protected'',
    ''public'', ''register'', ''reinterpret_cast'', ''requires'', ''return'', ''short'',
    ''signed'', ''sizeof'', ''static'', ''static_assert'', ''static_cast'', ''struct'',
    ''switch'', ''template'', ''this'', ''thread_local'', ''throw'', ''true'', ''try'',
    ''typedef'', ''typeid'', ''typename'', ''union'', ''unsigned'', ''using'', ''virtual'',
    ''void'', ''volatile'', ''wchar_t'', ''while'', ''xor'', ''xor_eq'']"

definition dependency_names :: "string list \<Rightarrow> string list" where
  "dependency_names values =
     sort (remdups (filter (\<lambda>t. is_call_name t \<and> t \<notin> set NON_DEPENDENCY_TOKENS) (concat (map normalize_cpp values))))"

text \<open>The state of the loops: both indexes and the fingerprints collected; a check may return a result.\<close>

type_synonym 'w check_state = "'w index \<times> 'w index \<times> fp_entry list"
type_synonym 'w check_outcome = "dependency_result option \<times> 'w check_state"

definition check_definitions ::
  "'w index_env \<Rightarrow> 'w index_env \<Rightarrow> hashes \<Rightarrow> analysis \<Rightarrow> analysis \<Rightarrow> symbol_kind \<Rightarrow> string \<Rightarrow>
   (string \<Rightarrow> definition_value \<Rightarrow> fp_entry) \<Rightarrow> string \<Rightarrow> 'w check_state \<Rightarrow> 'w check_outcome" where
  "check_definitions eo en h oa na kind reason entry name st =
     (case st of (i, j, fps) \<Rightarrow>
      case resolver_definitions eo i kind name oa of (ods, i') \<Rightarrow>
      case resolver_definitions en j kind name na of (nds, j') \<Rightarrow>
      if unresolved_reason [i', j'] \<noteq> []
      then (Some (fail_dependency h (unresolved_reason [i', j']) (FpDefinitions name ods nds)), (i', j', fps))
      else if ods \<noteq> [] \<or> nds \<noteq> [] then
        (if length ods \<noteq> 1 \<or> length nds \<noteq> 1 \<or> snd (hd ods) \<noteq> snd (hd nds)
         then (Some (fail_dependency h reason (FpDefinitions name ods nds)), (i', j', fps))
         else (None, (i', j', fps @ [entry name (snd (hd ods))])))
      else (None, (i', j', fps)))"

definition check_name ::
  "'w index_env \<Rightarrow> 'w index_env \<Rightarrow> hashes \<Rightarrow> analysis \<Rightarrow> analysis \<Rightarrow> string \<Rightarrow> 'w check_state \<Rightarrow> 'w check_outcome" where
  "check_name eo en h oa na name st =
     (case check_definitions eo en h oa na Macros ''MACRO_CHANGED'' FpMacro name st of
        (Some r, st') \<Rightarrow> (Some r, st')
      | (None, st') \<Rightarrow> check_definitions eo en h oa na Constants ''CONST_CHANGED'' FpConst name st')"

definition check_callee :: "hashes \<Rightarrow> string \<Rightarrow> source_function \<Rightarrow> source_function \<Rightarrow> dependency_result option" where
  "check_callee h name f g =
     (if uncertain f \<or> uncertain g
      then Some (fail_dependency h ''CALLEE_UNRESOLVED''
        (FpBodies name (body_fingerprint (sha_body h) f) (body_fingerprint (sha_body h) g)))
      else if canonical (identity f) \<noteq> canonical (identity g)
      then Some (fail_dependency h ''CALLEE_CHANGED'' (FpIdentities name (canonical (identity f)) (canonical (identity g))))
      else if body_fingerprint (sha_body h) f \<noteq> body_fingerprint (sha_body h) g
      then Some (fail_dependency h ''CALLEE_CHANGED''
        (FpBodies name (body_fingerprint (sha_body h) f) (body_fingerprint (sha_body h) g)))
      else None)"

definition check_call ::
  "'w index_env \<Rightarrow> 'w index_env \<Rightarrow> hashes \<Rightarrow> analysis \<Rightarrow> analysis \<Rightarrow> string \<Rightarrow> 'w check_state \<Rightarrow> 'w check_outcome" where
  "check_call eo en h oa na name st =
     (case st of (i, j, fps) \<Rightarrow>
      case resolver_functions eo i name oa of (ofs, i') \<Rightarrow>
      case resolver_functions en j name na of (nfs, j') \<Rightarrow>
      if unresolved_reason [i', j'] \<noteq> []
      then (Some (fail_dependency h (unresolved_reason [i', j']) (FpFunctions name ofs nfs)), (i', j', fps))
      else if ofs = [] \<and> nfs = [] then (None, (i', j', fps))
      else if length ofs \<noteq> 1 \<or> length nfs \<noteq> 1
      then (Some (fail_dependency h ''CALLEE_UNRESOLVED'' (FpFunctions name ofs nfs)), (i', j', fps))
      else (case check_callee h name (hd ofs) (hd nfs) of
          Some r \<Rightarrow> (Some r, (i', j', fps))
        | None \<Rightarrow> (None, (i', j', fps @ [FpCallee name (body_fingerprint (sha_body h) (hd ofs))]))))"

fun run_checks :: "(string \<Rightarrow> 's \<Rightarrow> dependency_result option \<times> 's) \<Rightarrow> string list \<Rightarrow> 's \<Rightarrow> dependency_result option \<times> 's" where
  "run_checks f [] st = (None, st)"
| "run_checks f (x # xs) st =
     (case f x st of (Some r, st') \<Rightarrow> (Some r, st') | (None, st') \<Rightarrow> run_checks f xs st')"

definition line_calls :: "analysis \<Rightarrow> nat \<Rightarrow> string list" where
  "line_calls a line = dict_get (calls a) line []"

definition call_list :: "analysis \<Rightarrow> analysis \<Rightarrow> nat \<Rightarrow> nat \<Rightarrow> string list" where
  "call_list oa na m n = sort (remdups (line_calls oa m @ line_calls na n))"

definition compare_dependencies ::
  "'w index_env \<Rightarrow> 'w index_env \<Rightarrow> hashes \<Rightarrow> analysis \<Rightarrow> analysis \<Rightarrow> nat \<Rightarrow> nat \<Rightarrow> string \<Rightarrow> string \<Rightarrow>
   string list \<Rightarrow> string list \<Rightarrow> 'w index \<times> 'w index \<Rightarrow> dependency_result \<times> 'w index \<times> 'w index" where
  "compare_dependencies eo en h oa na m n old_line new_line old_context new_context ij =
     (case ij of (i, j) \<Rightarrow>
      if unresolved_reason [i, j] \<noteq> []
      then (fail_dependency h (unresolved_reason [i, j]) (FpLines old_line new_line), i, j)
      else case run_checks (check_name eo en h oa na)
          (dependency_names (old_line # new_line # old_context @ new_context)) (i, j, []) of
        (Some r, (i', j', fps)) \<Rightarrow> (r, i', j')
      | (None, st) \<Rightarrow>
          (case run_checks (check_call eo en h oa na) (call_list oa na m n) st of
             (Some r, (i', j', fps)) \<Rightarrow> (r, i', j')
           | (None, (i', j', fps)) \<Rightarrow>
               (\<lparr>dep_ok = True, dep_reason = [], dep_fingerprint = sha_args h (FpEntries fps)\<rparr>, i', j')))"

section \<open>The line comparison\<close>

record inherit_result =
  r_ok :: bool
  r_reason :: string
  r_function :: "string option"
  r_control :: "string option"
  r_preprocessor :: "string option"
  r_dependency :: "string option"

definition no_inherit :: "string \<Rightarrow> inherit_result" where
  "no_inherit reason = \<lparr>r_ok = False, r_reason = reason, r_function = None, r_control = None,
     r_preprocessor = None, r_dependency = None\<rparr>"

definition line_controls :: "analysis \<Rightarrow> nat \<Rightarrow> string list" where
  "line_controls a n = dict_get (controls a) n []"

definition line_preprocessor :: "analysis \<Rightarrow> nat \<Rightarrow> string list" where
  "line_preprocessor a n = dict_get (preprocessor a) n []"

definition dependency_context :: "analysis \<Rightarrow> nat \<Rightarrow> string list" where
  "dependency_context a n = line_controls a n @ line_preprocessor a n"

definition compare_line ::
  "'w index_env \<Rightarrow> 'w index_env \<Rightarrow> hashes \<Rightarrow> string \<Rightarrow> string \<Rightarrow> analysis \<Rightarrow> analysis \<Rightarrow> nat \<Rightarrow> nat \<Rightarrow>
   'w index \<times> 'w index \<Rightarrow> inherit_result \<times> 'w index \<times> 'w index" where
  "compare_line eo en h old_line new_line oa na m n ij =
     (if list_ex index_memory [fst ij, snd ij] then (no_inherit MEMORY_BUDGET, ij)
      else if normalize_cpp old_line \<noteq> normalize_cpp new_line then (no_inherit ''LINE_CODE_CHANGED'', ij)
      else case (function_for_line oa m, function_for_line na n) of
        (Some f, Some g) \<Rightarrow>
          if canonical (identity f) \<noteq> canonical (identity g)
          then (no_inherit ''FUNCTION_CHANGED''\<lparr>r_function := Some (sha_text_pair h
              (identity_fingerprint (sha_identity h) (identity f), identity_fingerprint (sha_identity h) (identity g)))\<rparr>, ij)
          else if uncertain f \<or> uncertain g then (no_inherit ''PARSER_UNRELIABLE'', ij)
          else if line_controls oa m \<noteq> line_controls na n then (no_inherit ''CONTROL_CONTEXT_CHANGED'', ij)
          else if line_preprocessor oa m \<noteq> line_preprocessor na n then (no_inherit ''PP_CONTEXT_CHANGED'', ij)
          else (case compare_dependencies eo en h oa na m n old_line new_line
                  (dependency_context oa m) (dependency_context na n) ij of
             (d, ij') \<Rightarrow>
               if list_ex index_memory [fst ij', snd ij'] then (no_inherit MEMORY_BUDGET, ij')
               else if \<not> dep_ok d then (no_inherit (dep_reason d)\<lparr>r_dependency := Some (dep_fingerprint d)\<rparr>, ij')
               else (\<lparr>r_ok = True, r_reason = ''INHERITED'',
                 r_function = Some (identity_fingerprint (sha_identity h) (identity f)),
                 r_control = Some (sha_context_pair h (line_controls oa m, line_controls na n)),
                 r_preprocessor = Some (sha_context_pair h (line_preprocessor oa m, line_preprocessor na n)),
                 r_dependency = Some (dep_fingerprint d)\<rparr>, ij'))
      | _ \<Rightarrow> (no_inherit ''FUNCTION_ID_UNRESOLVED'', ij))"

section \<open>Agreement on both sides\<close>

definition defs_agree :: "(string \<times> definition_value) list \<Rightarrow> (string \<times> definition_value) list \<Rightarrow> bool" where
  "defs_agree ods nds \<longleftrightarrow> ods = [] \<and> nds = [] \<or> length ods = 1 \<and> length nds = 1 \<and> snd (hd ods) = snd (hd nds)"

definition callees_agree :: "hashes \<Rightarrow> source_function list \<Rightarrow> source_function list \<Rightarrow> bool" where
  "callees_agree h ofs nfs \<longleftrightarrow> ofs = [] \<and> nfs = [] \<or>
     length ofs = 1 \<and> length nfs = 1 \<and> \<not> uncertain (hd ofs) \<and> \<not> uncertain (hd nfs) \<and>
     canonical (identity (hd ofs)) = canonical (identity (hd nfs)) \<and>
     sha_body h (body_tokens (hd ofs)) = sha_body h (body_tokens (hd nfs))"

lemma check_definitions_None:
  "fst (check_definitions eo en h oa na kind reason entry name (i, j, fps)) = None \<longleftrightarrow>
   unresolved_reason [snd (resolver_definitions eo i kind name oa), snd (resolver_definitions en j kind name na)] = [] \<and>
   defs_agree (fst (resolver_definitions eo i kind name oa)) (fst (resolver_definitions en j kind name na))"
  by (auto simp: check_definitions_def defs_agree_def split: prod.splits)

lemma check_definitions_state:
  "\<exists>fps'. snd (check_definitions eo en h oa na kind reason entry name (i, j, fps)) =
     (snd (resolver_definitions eo i kind name oa), snd (resolver_definitions en j kind name na), fps')"
  by (auto simp: check_definitions_def split: prod.splits)

lemma check_callee_None:
  "check_callee h name f g = None \<longleftrightarrow> \<not> uncertain f \<and> \<not> uncertain g \<and>
   canonical (identity f) = canonical (identity g) \<and> sha_body h (body_tokens f) = sha_body h (body_tokens g)"
  by (auto simp: check_callee_def body_fingerprint_def)

lemma check_call_None:
  "fst (check_call eo en h oa na name (i, j, fps)) = None \<longleftrightarrow>
   unresolved_reason [snd (resolver_functions eo i name oa), snd (resolver_functions en j name na)] = [] \<and>
   callees_agree h (fst (resolver_functions eo i name oa)) (fst (resolver_functions en j name na))"
  by (cases "resolver_functions eo i name oa"; cases "resolver_functions en j name na";
      cases "check_callee h name (hd (fst (resolver_functions eo i name oa))) (hd (fst (resolver_functions en j name na)))")
     (use check_callee_None [of h name "hd (fst (resolver_functions eo i name oa))" "hd (fst (resolver_functions en j name na))"] in \<open>auto simp: check_call_def callees_agree_def\<close>)

lemma check_call_state:
  "\<exists>fps'. snd (check_call eo en h oa na name (i, j, fps)) =
     (snd (resolver_functions eo i name oa), snd (resolver_functions en j name na), fps')"
  by (auto simp: check_call_def split: prod.splits option.splits)

section \<open>The loops only move the indexes forward\<close>

lemma reaches_trans: "reaches step t ms u \<Longrightarrow> reaches step s ls t \<Longrightarrow> reaches step s (ls @ ms) u"
proof (induction rule: reaches.induct)
  case (reaches_step t ms u l v)
  then show ?case using reaches.reaches_step [of step s "ls @ ms" u l v] by simp
qed simp

definition static_index :: "'w index \<Rightarrow> bool" where
  "static_index i = (case i of LazyIndex ix \<Rightarrow> False | _ \<Rightarrow> True)"

definition index_reach :: "'w index_env \<Rightarrow> 'w index \<Rightarrow> 'w index \<Rightarrow> bool" where
  "index_reach env i j \<longleftrightarrow> i = j \<or>
     (\<exists>ix ix' ops. i = LazyIndex ix \<and> j = LazyIndex ix' \<and> reaches (lazy_step env) ix ops ix')"

lemma index_reach_refl [simp]: "index_reach env i i"
  by (simp add: index_reach_def)

lemma index_reach_trans: "index_reach env i j \<Longrightarrow> index_reach env j k \<Longrightarrow> index_reach env i k"
proof -
  assume ij: "index_reach env i j" and jk: "index_reach env j k"
  show ?thesis
  proof (cases "i = j \<or> j = k")
    case False
    then obtain ix jx ops where a: "i = LazyIndex ix" "j = LazyIndex jx" "reaches (lazy_step env) ix ops jx"
      using ij unfolding index_reach_def by blast
    with False obtain kx ops' where b: "k = LazyIndex kx" "reaches (lazy_step env) jx ops' kx"
      using jk unfolding index_reach_def by blast
    show ?thesis using a b reaches_trans [OF b(2) a(3)] unfolding index_reach_def by blast
  qed (use ij jk in auto)
qed

lemma index_reach_static: "index_reach env i j \<Longrightarrow> static_index i \<Longrightarrow> j = i"
  by (auto simp: index_reach_def static_index_def)

lemma one_step: "lazy_step env ix op ix' \<Longrightarrow> index_reach env (LazyIndex ix) (LazyIndex ix')"
  unfolding index_reach_def using reaches_Cons [of "lazy_step env" ix op ix' "[]" ix', OF _ reaches_refl] by auto

lemma resolver_reach [simp]:
  "index_reach env i (snd (resolver_definitions env i kind name a))"
  "index_reach env i (snd (resolver_functions env i name a))"
proof -
  show "index_reach env i (snd (resolver_definitions env i kind name a))"
  proof (cases i)
    case (LazyIndex ix)
    then show ?thesis using one_step [OF step_definitions, of env ix kind name "Some a"]
      by (simp add: resolver_definitions_def case_prod_unfold)
  qed (simp_all add: resolver_definitions_def)
  show "index_reach env i (snd (resolver_functions env i name a))"
  proof (cases i)
    case (LazyIndex ix)
    then show ?thesis using one_step [OF step_functions, of env ix name "Some a"]
      by (simp add: resolver_functions_def case_prod_unfold)
  qed (simp_all add: resolver_functions_def)
qed

definition state_reach :: "'w index_env \<Rightarrow> 'w index_env \<Rightarrow> 'w check_state \<Rightarrow> 'w check_state \<Rightarrow> bool" where
  "state_reach eo en s t \<longleftrightarrow> index_reach eo (fst s) (fst t) \<and> index_reach en (fst (snd s)) (fst (snd t))"

text \<open>A loop of checks over a state that only moves along a preorder.\<close>

locale check_loop =
  fixes check :: "string \<Rightarrow> 's \<Rightarrow> dependency_result option \<times> 's"
    and moves :: "'s \<Rightarrow> 's \<Rightarrow> bool"
  assumes moves_refl: "moves s s"
    and moves_trans: "moves s t \<Longrightarrow> moves t u \<Longrightarrow> moves s u"
    and check_moves: "moves s (snd (check x s))"
begin

lemma run_moves: "moves s (snd (run_checks check xs s))"
proof (induction xs arbitrary: s)
  case (Cons x xs)
  then show ?case using check_moves [of s x] moves_trans by (auto split: prod.split option.split)
qed (simp add: moves_refl)

lemma run_passed:
  "fst (run_checks check xs s) = None \<Longrightarrow> x \<in> set xs \<Longrightarrow> \<exists>t. moves s t \<and> fst (check x t) = None"
proof (induction xs arbitrary: s)
  case (Cons y ys)
  obtain t where t: "check y s = (None, t)" "fst (run_checks check ys t) = None"
    using Cons.prems(1) by (auto split: prod.splits option.splits)
  then have m: "moves s t" using check_moves [of s y] by simp
  show ?case
  proof (cases "x = y")
    case True
    then show ?thesis using t(1) moves_refl [of s] by (intro exI [of _ s]) simp
  next
    case False
    then show ?thesis using Cons.IH [OF t(2)] Cons.prems(2) m moves_trans by auto
  qed
qed simp

lemma run_all_pass:
  "(\<And>x t. x \<in> set xs \<Longrightarrow> moves s t \<Longrightarrow> fst (check x t) = None) \<Longrightarrow> fst (run_checks check xs s) = None"
proof (induction xs arbitrary: s)
  case (Cons x xs)
  obtain t where t: "check x s = (None, t)" using Cons.prems [of x s] moves_refl by (cases "check x s") auto
  then have "moves s t" using check_moves [of s x] by simp
  then show ?case using Cons t moves_trans by auto
qed simp

end

lemma state_reach_refl: "state_reach eo en s s"
  by (simp add: state_reach_def)

lemma state_reach_trans: "state_reach eo en s t \<Longrightarrow> state_reach eo en t u \<Longrightarrow> state_reach eo en s u"
  unfolding state_reach_def using index_reach_trans by blast

lemma check_definitions_reach: "state_reach eo en s (snd (check_definitions eo en h oa na kind reason entry name s))"
proof (cases s)
  case (fields i j fps)
  then show ?thesis using check_definitions_state [of eo en h oa na kind reason entry name i j fps]
    by (auto simp: state_reach_def)
qed

lemma check_name_reach: "state_reach eo en s (snd (check_name eo en h oa na name s))"
proof -
  obtain r t where Pair: "check_definitions eo en h oa na Macros ''MACRO_CHANGED'' FpMacro name s = (r, t)"
    by (metis surj_pair)
  have "state_reach eo en s t"
    using check_definitions_reach [of eo en s h oa na Macros "''MACRO_CHANGED''" FpMacro name] Pair by simp
  then have "state_reach eo en s (snd (check_definitions eo en h oa na Constants ''CONST_CHANGED'' FpConst name t))"
    by (rule state_reach_trans) (rule check_definitions_reach)
  then show ?thesis using \<open>state_reach eo en s t\<close> Pair by (cases r) (simp_all add: check_name_def)
qed

lemma check_call_reach: "state_reach eo en s (snd (check_call eo en h oa na name s))"
proof (cases s)
  case (fields i j fps)
  then show ?thesis using check_call_state [of eo en h oa na name i j fps] by (auto simp: state_reach_def)
qed

interpretation names_loop: check_loop "check_name eo en h oa na" "state_reach eo en" for eo en h oa na
  by unfold_locales (auto intro: state_reach_refl state_reach_trans check_name_reach)

interpretation calls_loop: check_loop "check_call eo en h oa na" "state_reach eo en" for eo en h oa na
  by unfold_locales (auto intro: state_reach_refl state_reach_trans check_call_reach)

lemma run_checks_fails:
  assumes "run_checks f xs s = (Some r, t)" and "\<And>x s r t. f x s = (Some r, t) \<Longrightarrow> \<not> dep_ok r"
  shows "\<not> dep_ok r"
  using assms(1) by (induction xs arbitrary: s) (auto split: prod.splits option.splits dest: assms(2))

lemma check_definitions_fails: "check_definitions eo en h oa na kind reason entry name s = (Some r, t) \<Longrightarrow> \<not> dep_ok r"
  by (auto simp: check_definitions_def fail_dependency_def split: prod.splits if_splits)

lemma check_call_fails: "check_call eo en h oa na name s = (Some r, t) \<Longrightarrow> \<not> dep_ok r"
  by (auto simp: check_call_def check_callee_def fail_dependency_def split: prod.splits if_splits option.splits)

lemma compare_dependencies_ok:
  "dep_ok (fst (compare_dependencies eo en h oa na m n ol nl oc nc (i, j))) \<longleftrightarrow>
   unresolved_reason [i, j] = [] \<and>
   (\<exists>st. run_checks (check_name eo en h oa na) (dependency_names (ol # nl # oc @ nc)) (i, j, []) = (None, st) \<and>
         fst (run_checks (check_call eo en h oa na) (call_list oa na m n) st) = None)"
proof -
  have f: "\<not> dep_ok r" if "run_checks (check_name eo en h oa na) xs s = (Some r, t)" for xs s r t
    using that by (rule run_checks_fails) (auto simp: check_name_def dest: check_definitions_fails split: prod.splits option.splits)
  have g: "\<not> dep_ok r" if "run_checks (check_call eo en h oa na) xs s = (Some r, t)" for xs s r t
    using that by (rule run_checks_fails) (auto dest: check_call_fails)
  show ?thesis
    unfolding compare_dependencies_def by (auto simp: fail_dependency_def dest: f g split: prod.split option.split)
qed

lemma check_name_None:
  "fst (check_name eo en h oa na name (i, j, fps)) = None \<Longrightarrow>
   \<exists>s t. index_reach eo i s \<and> index_reach en j t \<and>
     defs_agree (fst (resolver_definitions eo i Macros name oa)) (fst (resolver_definitions en j Macros name na)) \<and>
     defs_agree (fst (resolver_definitions eo s Constants name oa)) (fst (resolver_definitions en t Constants name na))"
proof -
  assume a: "fst (check_name eo en h oa na name (i, j, fps)) = None"
  obtain fps' where st: "snd (check_definitions eo en h oa na Macros ''MACRO_CHANGED'' FpMacro name (i, j, fps)) =
      (snd (resolver_definitions eo i Macros name oa), snd (resolver_definitions en j Macros name na), fps')"
    using check_definitions_state by blast
  have m: "fst (check_definitions eo en h oa na Macros ''MACRO_CHANGED'' FpMacro name (i, j, fps)) = None"
    "fst (check_definitions eo en h oa na Constants ''CONST_CHANGED'' FpConst name
       (snd (resolver_definitions eo i Macros name oa), snd (resolver_definitions en j Macros name na), fps')) = None"
    using a st unfolding check_name_def by (auto split: prod.splits option.splits)
  show ?thesis using m unfolding check_definitions_None by (meson resolver_reach(1))
qed

text \<open>What the check requires of a name and of a callee, at the index states where they are looked up.\<close>

definition name_checked ::
  "'w index_env \<Rightarrow> 'w index_env \<Rightarrow> analysis \<Rightarrow> analysis \<Rightarrow> symbol_kind \<Rightarrow> string \<Rightarrow> 'w index \<Rightarrow> 'w index \<Rightarrow> bool" where
  "name_checked eo en oa na kind name i j \<longleftrightarrow>
     defs_agree (fst (resolver_definitions eo i kind name oa)) (fst (resolver_definitions en j kind name na))"

definition call_checked ::
  "'w index_env \<Rightarrow> 'w index_env \<Rightarrow> hashes \<Rightarrow> analysis \<Rightarrow> analysis \<Rightarrow> string \<Rightarrow> 'w index \<Rightarrow> 'w index \<Rightarrow> bool" where
  "call_checked eo en h oa na name i j \<longleftrightarrow>
     callees_agree h (fst (resolver_functions eo i name oa)) (fst (resolver_functions en j name na))"

lemma static_unresolved: "static_index i \<Longrightarrow> static_index j \<Longrightarrow> unresolved_reason [i, j] = []"
  by (auto simp: static_index_def unresolved_reason_def index_memory_def index_unavailable_def
      index_budget_exhausted_def split: index.splits)

lemma static_resolver:
  "static_index i \<Longrightarrow> snd (resolver_definitions env i kind name a) = i"
  "static_index i \<Longrightarrow> snd (resolver_functions env i name a) = i"
  by (auto simp: static_index_def resolver_definitions_def resolver_functions_def split: index.splits)

lemma static_check_name:
  assumes "static_index i" "static_index j"
  shows "fst (check_name eo en h oa na name (i, j, fps)) = None \<longleftrightarrow>
    name_checked eo en oa na Macros name i j \<and> name_checked eo en oa na Constants name i j"
proof -
  let ?m = "check_definitions eo en h oa na Macros ''MACRO_CHANGED'' FpMacro name (i, j, fps)"
  obtain fps' where st: "snd ?m = (i, j, fps')"
    using check_definitions_state [of eo en h oa na Macros "''MACRO_CHANGED''" FpMacro name i j fps] assms
    by (auto simp: static_resolver)
  have u: "fst (check_definitions eo en h oa na kind reason entry name (i, j, fp)) = None \<longleftrightarrow>
      name_checked eo en oa na kind name i j" for kind reason entry fp
    using assms by (simp add: check_definitions_None name_checked_def static_resolver static_unresolved)
  show ?thesis
  proof (cases "fst ?m")
    case None
    then have "check_name eo en h oa na name (i, j, fps) =
        check_definitions eo en h oa na Constants ''CONST_CHANGED'' FpConst name (i, j, fps')"
      using st by (cases ?m) (simp add: check_name_def)
    with None u show ?thesis by simp
  next
    case (Some r)
    then have "fst (check_name eo en h oa na name (i, j, fps)) = Some r"
      by (cases ?m) (simp add: check_name_def)
    with Some u [of Macros "''MACRO_CHANGED''" FpMacro fps] show ?thesis by simp
  qed
qed

lemma static_check_call:
  "static_index i \<Longrightarrow> static_index j \<Longrightarrow>
   fst (check_call eo en h oa na name (i, j, fps)) = None \<longleftrightarrow> call_checked eo en h oa na name i j"
  by (simp add: check_call_None call_checked_def static_resolver static_unresolved)

lemma state_reach_static:
  "state_reach eo en (i, j, fps) s \<Longrightarrow> static_index i \<Longrightarrow> static_index j \<Longrightarrow> \<exists>fps'. s = (i, j, fps')"
  by (cases s) (auto simp: state_reach_def dest: index_reach_static)

lemma static_run:
  assumes "static_index i" "static_index j" and "check_loop f (state_reach eo en)"
    and "\<And>x fps. fst (f x (i, j, fps)) = None \<longleftrightarrow> P x"
  shows "fst (run_checks f xs (i, j, fps)) = None \<longleftrightarrow> list_all P xs"
proof
  assume a: "fst (run_checks f xs (i, j, fps)) = None"
  have "P x" if "x \<in> set xs" for x
    using check_loop.run_passed [OF assms(3) a that] state_reach_static [OF _ assms(1,2)] assms(4) by metis
  then show "list_all P xs" by (simp add: list_all_iff)
next
  assume "list_all P xs"
  then show "fst (run_checks f xs (i, j, fps)) = None"
    using check_loop.run_all_pass [OF assms(3), of xs "(i, j, fps)"] state_reach_static [OF _ assms(1,2)] assms(4)
    by (metis list_all_iff)
qed

lemma compare_line_iff:
  "r_ok (fst (compare_line eo en h old_line new_line oa na m n (i, j))) \<longleftrightarrow>
   normalize_cpp old_line = normalize_cpp new_line \<and>
   (\<exists>f g. function_for_line oa m = Some f \<and> function_for_line na n = Some g \<and>
      canonical (identity f) = canonical (identity g) \<and> \<not> uncertain f \<and> \<not> uncertain g) \<and>
   line_controls oa m = line_controls na n \<and> line_preprocessor oa m = line_preprocessor na n \<and>
   \<not> index_memory i \<and> \<not> index_memory j \<and>
   (case compare_dependencies eo en h oa na m n old_line new_line (dependency_context oa m) (dependency_context na n) (i, j) of
      (d, i', j') \<Rightarrow> dep_ok d \<and> \<not> index_memory i' \<and> \<not> index_memory j')"
  by (cases "function_for_line oa m"; cases "function_for_line na n")
     (auto simp: compare_line_def no_inherit_def Let_def split: prod.split)

section \<open>Properties\<close>

text \<open>C3: without an index or with a complete one, the dependency check accepts exactly when every name of the
  two lines and their contexts has one and the same macro and constant definition on both sides or none, and
  every function called on the lines has exactly one definition per side, certain, with the same identity and
  the same body, or none on either side.\<close>

theorem compare_dependencies_static:
  assumes "static_index i" "static_index j"
  shows "dep_ok (fst (compare_dependencies eo en h oa na m n old_line new_line oc nc (i, j))) \<longleftrightarrow>
    list_all (\<lambda>name. name_checked eo en oa na Macros name i j \<and> name_checked eo en oa na Constants name i j)
      (dependency_names (old_line # new_line # oc @ nc)) \<and>
    list_all (\<lambda>name. call_checked eo en h oa na name i j) (call_list oa na m n)"
proof -
  let ?names = "run_checks (check_name eo en h oa na) (dependency_names (old_line # new_line # oc @ nc)) (i, j, [])"
  obtain fps where s: "snd ?names = (i, j, fps)"
    using state_reach_static [OF names_loop.run_moves assms] by blast
  note n = static_run [OF assms names_loop.check_loop_axioms static_check_name [OF assms]]
  note c = static_run [OF assms calls_loop.check_loop_axioms static_check_call [OF assms]]
  have "(\<exists>st. ?names = (None, st) \<and> fst (run_checks (check_call eo en h oa na) (call_list oa na m n) st) = None) \<longleftrightarrow>
      fst ?names = None \<and> fst (run_checks (check_call eo en h oa na) (call_list oa na m n) (i, j, fps)) = None"
    using s by (cases ?names) auto
  then show ?thesis by (simp add: compare_dependencies_ok static_unresolved [OF assms] n c)
qed

text \<open>With lazy indexes an accepted line has been checked in the same way: every name and every callee agreed
  on both sides at index states reached from the given ones by lookups.\<close>

lemma compare_dependencies_lazy:
  assumes "dep_ok (fst (compare_dependencies eo en h oa na m n old_line new_line oc nc (i, j)))"
  shows "list_all (\<lambda>name. (\<exists>s t. index_reach eo i s \<and> index_reach en j t \<and> name_checked eo en oa na Macros name s t) \<and>
      (\<exists>s t. index_reach eo i s \<and> index_reach en j t \<and> name_checked eo en oa na Constants name s t))
      (dependency_names (old_line # new_line # oc @ nc)) \<and>
    list_all (\<lambda>name. \<exists>s t. index_reach eo i s \<and> index_reach en j t \<and> call_checked eo en h oa na name s t \<and>
      unresolved_reason [snd (resolver_functions eo s name oa), snd (resolver_functions en t name na)] = [])
      (call_list oa na m n)"
proof -
  obtain st where r: "run_checks (check_name eo en h oa na) (dependency_names (old_line # new_line # oc @ nc)) (i, j, []) = (None, st)"
    "fst (run_checks (check_call eo en h oa na) (call_list oa na m n) st) = None"
    using assms unfolding compare_dependencies_ok by blast
  have reach: "state_reach eo en (i, j, []) st" using names_loop.run_moves [of eo en "(i, j, [])"] r(1) by (metis snd_conv)
  have "(\<exists>s t. index_reach eo i s \<and> index_reach en j t \<and> name_checked eo en oa na Macros name s t) \<and>
      (\<exists>s t. index_reach eo i s \<and> index_reach en j t \<and> name_checked eo en oa na Constants name s t)"
    if mem: "name \<in> set (dependency_names (old_line # new_line # oc @ nc))" for name
  proof -
    obtain s t fps where p: "state_reach eo en (i, j, []) (s, t, fps)" "fst (check_name eo en h oa na name (s, t, fps)) = None"
      using names_loop.run_passed [OF _ mem] r(1) by (metis fst_conv prod_cases3)
    from check_name_None [OF p(2)] p(1) show ?thesis
      unfolding name_checked_def state_reach_def by (simp, meson index_reach_trans)
  qed
  moreover have "\<exists>s t. index_reach eo i s \<and> index_reach en j t \<and> call_checked eo en h oa na name s t \<and>
      unresolved_reason [snd (resolver_functions eo s name oa), snd (resolver_functions en t name na)] = []"
    if mem: "name \<in> set (call_list oa na m n)" for name
  proof -
    obtain s t fps where p: "state_reach eo en st (s, t, fps)" "fst (check_call eo en h oa na name (s, t, fps)) = None"
      using calls_loop.run_passed [OF r(2) mem] by (metis prod_cases3)
    then have "state_reach eo en (i, j, []) (s, t, fps)" using reach state_reach_trans by blast
    with p(2) show ?thesis unfolding check_call_None call_checked_def state_reach_def by auto
  qed
  ultimately show ?thesis by (simp add: list_all_iff)
qed

text \<open>A review decision is inherited exactly when the normalised line is unchanged, both lines lie in exactly
  one function, with the same identity and parsed with certainty, the control and the preprocessor context are
  unchanged, the dependency check accepts, and neither index is over its memory budget before or after it.\<close>

lemma compare_line_inherits_iff:
  "r_ok (fst (compare_line eo en h old_line new_line oa na m n (i, j))) \<longleftrightarrow>
   normalize_cpp old_line = normalize_cpp new_line \<and>
   (\<exists>f g. function_for_line oa m = Some f \<and> function_for_line na n = Some g \<and>
      canonical (identity f) = canonical (identity g) \<and> \<not> uncertain f \<and> \<not> uncertain g) \<and>
   line_controls oa m = line_controls na n \<and> line_preprocessor oa m = line_preprocessor na n \<and>
   \<not> index_memory i \<and> \<not> index_memory j \<and>
   (case compare_dependencies eo en h oa na m n old_line new_line (dependency_context oa m) (dependency_context na n) (i, j) of
      (d, i', j') \<Rightarrow> dep_ok d \<and> \<not> index_memory i' \<and> \<not> index_memory j')"
  by (rule compare_line_iff)

section \<open>Examples\<close>

definition caller_source :: "string \<Rightarrow> string" where
  "caller_source v = ''int f() { return '' @ v @ ''; }'' @ [NL] @ ''int g() {'' @ [NL] @ ''return f();'' @ [NL] @ ''}''"

definition caller_index :: "string \<Rightarrow> unit index" where
  "caller_index v = EagerIndex (SourceAnalysisIndex [(''a.c'', analyze (caller_source v) ''a.c'')])"

definition library_source :: string where
  "library_source = ''int g() {'' @ [NL] @ ''return k();'' @ [NL] @ ''}''"

definition demo_hashes :: hashes where
  "demo_hashes = \<lparr>sha_args = (\<lambda>a. ''h''), sha_body = concat, sha_identity = (\<lambda>c. fst c),
     sha_text_pair = fst, sha_context_pair = (\<lambda>c. concat (fst c))\<rparr>"

theorem compare_dependencies_static_witness:
  "let a = analyze (caller_source ''1'') ''a.c'' in
   dep_ok (fst (compare_dependencies demo_env demo_env demo_hashes a a 3 3 ''return f();'' ''return f();'' [] []
     (caller_index ''1'', caller_index ''1'')))"
proof -
  let ?a = "analyze (caller_source ''1'') ''a.c''"
  have s: "static_index (caller_index ''1'')" by (simp add: caller_index_def static_index_def)
  have "list_all (\<lambda>name. name_checked demo_env demo_env ?a ?a Macros name (caller_index ''1'') (caller_index ''1'') \<and>
        name_checked demo_env demo_env ?a ?a Constants name (caller_index ''1'') (caller_index ''1''))
      (dependency_names (''return f();'' # ''return f();'' # [] @ []))" by code_simp
  moreover have "list_all (\<lambda>name. call_checked demo_env demo_env demo_hashes ?a ?a name (caller_index ''1'') (caller_index ''1''))
      (call_list ?a ?a 3 3)" by code_simp
  ultimately show ?thesis unfolding Let_def compare_dependencies_static [OF s s] by blast
qed

theorem compare_dependencies_lazy_witness:
  "\<exists>s t. index_reach demo_env (LazyIndex (demo_index 2)) s \<and> index_reach demo_env (LazyIndex (demo_index 2)) t \<and>
     call_checked demo_env demo_env demo_hashes (analyze library_source ''l.c'') (analyze library_source ''l.c'') ''k'' s t"
proof -
  let ?a = "analyze library_source ''l.c''"
  have "dep_ok (fst (compare_dependencies demo_env demo_env demo_hashes ?a ?a 2 2 ''return k();'' ''return k();'' [] []
     (LazyIndex (demo_index 2), LazyIndex (demo_index 2))))" by code_simp
  moreover have "''k'' \<in> set (call_list ?a ?a 2 2)" by code_simp
  ultimately show ?thesis using compare_dependencies_lazy [of demo_env demo_env demo_hashes ?a ?a 2 2]
    unfolding list_all_iff by blast
qed

text \<open>The body of a function leaves out the line of its opening brace, so a change of a function written on
  one line goes unnoticed: the call of \<open>f\<close> is inherited although \<open>f\<close> returns another value.\<close>

lemma one_line_callee_change_inherited:
  "let old = analyze (caller_source ''1'') ''a.c''; new = analyze (caller_source ''2'') ''a.c'' in
   a_tokens old ! 0 \<noteq> a_tokens new ! 0 \<and>
   r_reason (fst (compare_line demo_env demo_env demo_hashes (a_lines old ! 2) (a_lines new ! 2) old new 3 3
     (caller_index ''1'', caller_index ''2''))) = ''INHERITED''"
  by code_simp

text \<open>A repository file that cannot be read is taken for absent: the only file that may define \<open>k\<close> fails to
  load on both sides, no flag is set, and the call of \<open>k\<close> is inherited as if \<open>k\<close> were a library function.\<close>

lemma unreadable_callee_inherited:
  "let a = analyze library_source ''l.c'';
       (r, i, j) = compare_line demo_env demo_env demo_hashes ''return k();'' ''return k();'' a a 2 2
         (LazyIndex (demo_index 2), LazyIndex (demo_index 2)) in
   demo_load ''missing.c'' = LoadRaised \<and>
   fst (search_paths demo_env Functions ''k'' (demo_index 2)) = [''missing.c''] \<and>
   r_reason r = ''INHERITED'' \<and> unresolved_reason [i, j] = []"
  by code_simp

end
