(* ===== verification/SourceCache.thy ===== *)
theory SourceCache
  imports SymbolIndex
begin

text \<open>
  The caches that \<open>InheritanceEngine\<close> of \<open>app/inheritance/engine.py\<close> keeps during a run: the symbol
  indexes per repository and commit, with the pairs of commits that are pinned while a repository
  is compared, and the ancestry answers. An index is a number that stands for the object; its
  statistics are a function of that number, given where the code asks for them. A Python set is a
  list without repetitions.

  Shown: the byte count is the sum of the recorded sizes in every reachable state, and the budget is
  kept; every cached index belongs to an active pair, so the eviction of inactive ones never finds
  any; a pair that is handed out is cached, pinned and within the budget, one that is refused is
  remembered as failed and no longer pinned.
\<close>

section \<open>State\<close>

type_synonym cache_key = "string \<times> string \<times> string"
type_synonym pair_key = "cache_key \<times> cache_key"

record index_stats =
  s_total :: nat
  s_cand_bytes :: nat
  s_cand_entries :: nat
  s_res_bytes :: nat

datatype cache_event = CacheHit | CacheMiss | CacheEviction | CacheBytes int

record engine_cache =
  src_cache :: "(cache_key \<times> nat) list"
  src_sizes :: "(cache_key \<times> int) list"
  src_bytes :: int
  src_evictions :: nat
  active_pairs :: "pair_key list"
  pairs_by_scope :: "(string \<times> pair_key list) list"
  active_keys :: "cache_key list"
  failed_pairs :: "pair_key list"
  ancestry :: "(cache_key \<times> bool) list"
  ancestry_evictions :: nat
  over_budget :: "nat list"
  next_index :: nat
  eng_metrics :: "(string \<times> int) list"
  performance :: "cache_event list option"
  max_source_cache_bytes :: int
  max_total_bytes :: int
  max_ancestry :: nat

definition init_engine_cache :: "int \<Rightarrow> int option \<Rightarrow> int \<Rightarrow> bool \<Rightarrow> engine_cache" where
  "init_engine_cache max_bytes max_total max_anc with_performance =
     (let b = max 1 max_bytes in
      \<lparr>src_cache = [], src_sizes = [], src_bytes = 0, src_evictions = 0, active_pairs = [], pairs_by_scope = [],
       active_keys = [], failed_pairs = [], ancestry = [], ancestry_evictions = 0, over_budget = [], next_index = 0,
       eng_metrics = [], performance = (if with_performance then Some [] else None), max_source_cache_bytes = b,
       max_total_bytes = max b (case max_total of None \<Rightarrow> b * 4 | Some t \<Rightarrow> if t = 0 then b * 4 else t),
       max_ancestry = nat (max 1 max_anc)\<rparr>)"

definition record_event :: "cache_event \<Rightarrow> engine_cache \<Rightarrow> engine_cache" where
  "record_event e s = s\<lparr>performance := map_option (\<lambda>es. es @ [e]) (performance s)\<rparr>"

definition total_stats :: "(index_stats \<Rightarrow> nat) \<Rightarrow> (nat \<Rightarrow> index_stats) \<Rightarrow> engine_cache \<Rightarrow> int" where
  "total_stats f st s = (\<Sum>(k, i) \<leftarrow> src_cache s. int (f (st i)))"

definition record_source_cache_metrics :: "(nat \<Rightarrow> index_stats) \<Rightarrow> engine_cache \<Rightarrow> engine_cache" where
  "record_source_cache_metrics st s =
     s\<lparr>eng_metrics := dict_update (eng_metrics s) [
        (''source_index_count'', int (length (src_cache s))), (''source_index_total_bytes'', src_bytes s),
        (''source_index_evictions'', int (src_evictions s)), (''active_index_pair_count'', int (length (active_pairs s))),
        (''active_index_scope_count'', int (length (pairs_by_scope s))),
        (''active_source_index_count'', int (length (active_keys s))),
        (''source_index_pair_budget_failures'', int (length (failed_pairs s))),
        (''candidate_index_entries'', total_stats s_cand_entries st s),
        (''candidate_index_bytes'', total_stats s_cand_bytes st s),
        (''resolution_cache_bytes'', total_stats s_res_bytes st s),
        (''index_count'', int (length (src_cache s))), (''total_bytes'', src_bytes s),
        (''evictions'', int (src_evictions s))]\<rparr>"

definition record_ancestry_cache_metrics :: "engine_cache \<Rightarrow> engine_cache" where
  "record_ancestry_cache_metrics s =
     s\<lparr>eng_metrics := dict_update (eng_metrics s) [(''ancestry_cache_count'', int (length (ancestry s))),
        (''ancestry_cache_evictions'', int (ancestry_evictions s))]\<rparr>"

definition bump_metric :: "string \<Rightarrow> int \<Rightarrow> engine_cache \<Rightarrow> engine_cache" where
  "bump_metric k n s = s\<lparr>eng_metrics := AList.update k (dict_get (eng_metrics s) k 0 + n) (eng_metrics s)\<rparr>"

definition clear_caches :: "(nat \<Rightarrow> index_stats) \<Rightarrow> engine_cache \<Rightarrow> engine_cache" where
  "clear_caches st s =
     record_ancestry_cache_metrics (record_source_cache_metrics st
       (s\<lparr>src_cache := [], src_sizes := [], src_bytes := 0, active_pairs := [], pairs_by_scope := [],
          active_keys := [], failed_pairs := [], ancestry := []\<rparr>))"

section \<open>Active pairs\<close>

definition source_index_key :: "string \<Rightarrow> string \<Rightarrow> string \<Rightarrow> cache_key" where
  "source_index_key parser_version repo_path commit = (repo_path, commit, parser_version)"

definition pair_keys :: "pair_key \<Rightarrow> cache_key list" where
  "pair_keys p = [fst p, snd p]"

definition keys_of_pairs :: "pair_key list \<Rightarrow> cache_key list" where
  "keys_of_pairs ps = remdups (concat (map pair_keys ps))"

definition active_pair_for_key :: "cache_key \<Rightarrow> engine_cache \<Rightarrow> pair_key list" where
  "active_pair_for_key key s = filter (\<lambda>p. key \<in> set (pair_keys p)) (active_pairs s)"

definition mark_index :: "cache_key \<Rightarrow> engine_cache \<Rightarrow> engine_cache" where
  "mark_index key s = (case map_of (src_cache s) key of None \<Rightarrow> s
     | Some i \<Rightarrow> s\<lparr>over_budget := set_add i (over_budget s)\<rparr>)"

text \<open>A key that no active pair needs any more leaves the cache.\<close>

definition drop_key :: "cache_key \<Rightarrow> engine_cache \<Rightarrow> engine_cache" where
  "drop_key key s =
     (if key \<in> set (active_keys s) then s
      else s\<lparr>src_cache := AList.delete key (src_cache s),
             src_bytes := src_bytes s - dict_get (src_sizes s) key 0,
             src_sizes := AList.delete key (src_sizes s)\<rparr>)"

definition deactivate :: "pair_key list \<Rightarrow> (string \<times> pair_key list) list \<Rightarrow> engine_cache \<Rightarrow> engine_cache" where
  "deactivate ps scopes s =
     (let act = filter (\<lambda>q. q \<notin> set ps) (active_pairs s);
          s1 = s\<lparr>active_pairs := act, pairs_by_scope := scopes, active_keys := keys_of_pairs act\<rparr>;
          s2 = fold drop_key (concat (map pair_keys ps)) s1
      in s2\<lparr>src_bytes := max 0 (src_bytes s2)\<rparr>)"

definition mark_index_pair_budget_exhausted ::
  "(nat \<Rightarrow> index_stats) \<Rightarrow> pair_key \<Rightarrow> bool \<Rightarrow> engine_cache \<Rightarrow> engine_cache" where
  "mark_index_pair_budget_exhausted st p drp s =
     (let s1 = fold mark_index (pair_keys p) (s\<lparr>failed_pairs := set_add p (failed_pairs s)\<rparr>) in
      record_source_cache_metrics st
        (if \<not> drp then s1
         else deactivate [p]
           (filter (\<lambda>(k, ps). ps \<noteq> []) (map (\<lambda>(k, ps). (k, filter (\<lambda>q. q \<noteq> p) ps)) (pairs_by_scope s1))) s1))"

definition mark_active_pairs_over_budget :: "(nat \<Rightarrow> index_stats) \<Rightarrow> cache_key \<Rightarrow> engine_cache \<Rightarrow> engine_cache" where
  "mark_active_pairs_over_budget st key s =
     (if src_bytes s \<le> max_total_bytes s then s
      else fold (\<lambda>p. mark_index_pair_budget_exhausted st p True) (active_pair_for_key key s) s)"

definition release_index_pairs_for_scope :: "(nat \<Rightarrow> index_stats) \<Rightarrow> string \<Rightarrow> engine_cache \<Rightarrow> engine_cache" where
  "release_index_pairs_for_scope st scope s =
     (let ps = dict_get (pairs_by_scope s) scope []; rest = AList.delete scope (pairs_by_scope s) in
      if ps = [] then s\<lparr>pairs_by_scope := rest\<rparr>
      else let releasable = filter (\<lambda>p. p \<notin> set (concat (map snd rest))) ps;
               s1 = record_source_cache_metrics st (deactivate releasable rest s)
           in record_event (CacheBytes (src_bytes s1)) s1)"

section \<open>Byte accounting\<close>

function evict_inactive :: "cache_key \<Rightarrow> engine_cache \<Rightarrow> engine_cache" where
  "evict_inactive key s =
     (if src_bytes s > max_total_bytes s then
        (case List.find (\<lambda>(k, i). k \<noteq> key \<and> k \<notin> set (active_keys s)) (src_cache s) of
           None \<Rightarrow> s
         | Some (k, i) \<Rightarrow>
             evict_inactive key (record_event CacheEviction
               (s\<lparr>src_cache := AList.delete k (src_cache s),
                  src_bytes := src_bytes s - dict_get (src_sizes s) k 0,
                  src_sizes := AList.delete k (src_sizes s), src_evictions := src_evictions s + 1\<rparr>)))
      else s)"
  by pat_completeness auto

termination evict_inactive
  by (relation "measure (\<lambda>(key, s). length (src_cache s))") (auto simp: record_event_def dest!: find_delete_shorter)

declare evict_inactive.simps [simp del]

definition source_index_changed :: "(nat \<Rightarrow> index_stats) \<Rightarrow> cache_key \<Rightarrow> nat \<Rightarrow> engine_cache \<Rightarrow> engine_cache" where
  "source_index_changed st key i s =
     (if key \<notin> fst ` set (src_cache s) then s
      else let current = int (s_total (st i)); previous = dict_get (src_sizes s) key 0;
               s1 = s\<lparr>src_sizes := AList.update key current (src_sizes s),
                      src_bytes := src_bytes s + (current - previous),
                      src_cache := move_to_end key (src_cache s)\<rparr>;
               s2 = record_source_cache_metrics st (mark_active_pairs_over_budget st key (evict_inactive key s1))
           in record_event (CacheBytes (src_bytes s2)) s2)"

section \<open>Ancestry answers\<close>

fun trim_ancestry :: "(cache_key \<times> bool) list \<Rightarrow> engine_cache \<Rightarrow> engine_cache" where
  "trim_ancestry [] s = s\<lparr>ancestry := []\<rparr>"
| "trim_ancestry (e # es) s =
     (if length (e # es) > max_ancestry s
      then trim_ancestry es (record_event CacheEviction (s\<lparr>ancestry_evictions := ancestry_evictions s + 1\<rparr>))
      else s\<lparr>ancestry := e # es\<rparr>)"

definition ancestry_cache_put :: "cache_key \<Rightarrow> bool \<Rightarrow> engine_cache \<Rightarrow> engine_cache" where
  "ancestry_cache_put key v s =
     record_ancestry_cache_metrics (trim_ancestry (move_to_end key (AList.update key v (ancestry s))) s)"

text \<open>The answer for a pair of commits, from the cache or from Git.\<close>

definition ancestry_answer :: "(unit \<Rightarrow> bool result) \<Rightarrow> cache_key \<Rightarrow> (engine_cache, bool) action" where
  "ancestry_answer is_ancestor key s =
     (case map_of (ancestry s) key of
        Some v \<Rightarrow> (Inr v, record_ancestry_cache_metrics (s\<lparr>ancestry := move_to_end key (ancestry s)\<rparr>))
      | None \<Rightarrow> (case is_ancestor () of Inl e \<Rightarrow> (Inl e, s)
          | Inr v \<Rightarrow> let s' = ancestry_cache_put key v s in
              (case map_of (ancestry s') key of None \<Rightarrow> (Inl (KeyError []), s') | Some w \<Rightarrow> (Inr w, s'))))"

section \<open>Index pairs\<close>

text \<open>\<open>list_files\<close> is the provider's file list of the commit.\<close>

definition source_index ::
  "(nat \<Rightarrow> index_stats) \<Rightarrow> (string \<Rightarrow> string list result) \<Rightarrow> cache_key \<Rightarrow> (engine_cache, nat) action" where
  "source_index st list_files key s =
     (case map_of (src_cache s) key of
        Some i \<Rightarrow>
          let s1 = record_event CacheHit (bump_metric ''parser_cache_hit'' 1 s);
              s2 = source_index_changed st key i (s1\<lparr>src_cache := move_to_end key (src_cache s1)\<rparr>)
          in (case map_of (src_cache s2) key of None \<Rightarrow> (Inl (KeyError []), s2) | Some j \<Rightarrow> (Inr j, s2))
      | None \<Rightarrow>
          let s1 = record_event CacheMiss (bump_metric ''parser_cache_miss'' 1 s) in
          (case list_files (fst (snd key)) of
             Inl e \<Rightarrow> (Inl e, s1)
           | Inr paths \<Rightarrow>
               let s2 = bump_metric ''source_files_total'' (int (length paths)) s1;
                   i = next_index s2; n = int (s_total (st i));
                   s3 = s2\<lparr>next_index := i + 1, src_cache := AList.update key i (src_cache s2),
                           src_sizes := AList.update key n (src_sizes s2), src_bytes := src_bytes s2 + n\<rparr>
               in (Inr i, source_index_changed st key i s3)))"

definition pair_bytes :: "pair_key \<Rightarrow> engine_cache \<Rightarrow> int" where
  "pair_bytes p s = (\<Sum>k \<leftarrow> remdups (pair_keys p). dict_get (src_sizes s) k 0)"

definition activate :: "pair_key \<Rightarrow> string option \<Rightarrow> engine_cache \<Rightarrow> engine_cache" where
  "activate p scope s =
     s\<lparr>active_pairs := set_add p (active_pairs s),
       active_keys := set_add (snd p) (set_add (fst p) (active_keys s)),
       pairs_by_scope := (case scope of None \<Rightarrow> pairs_by_scope s | Some k \<Rightarrow> dict_add k p (pairs_by_scope s))\<rparr>"

definition finish_pair ::
  "(nat \<Rightarrow> index_stats) \<Rightarrow> pair_key \<Rightarrow> nat \<Rightarrow> nat \<Rightarrow> (engine_cache, nat option \<times> nat option \<times> string) action" where
  "finish_pair st p i j s =
     (if p \<in> set (failed_pairs s) \<or> pair_bytes p s > max_total_bytes s \<or> src_bytes s > max_total_bytes s
      then (Inr (None, None, ''DEPENDENCY_INDEX_MEMORY_BUDGET_EXHAUSTED''), mark_index_pair_budget_exhausted st p True s)
      else (Inr (Some i, Some j, []), s))"

definition source_index_pair ::
  "(nat \<Rightarrow> index_stats) \<Rightarrow> (string \<Rightarrow> string list result) \<Rightarrow> pair_key \<Rightarrow> string option \<Rightarrow>
   (engine_cache, nat option \<times> nat option \<times> string) action" where
  "source_index_pair st list_files p scope s =
     (if p \<in> set (failed_pairs s)
      then (Inr (None, None, ''DEPENDENCY_INDEX_MEMORY_BUDGET_EXHAUSTED''), mark_index_pair_budget_exhausted st p True s)
      else act_bind (source_index st list_files (fst p))
             (\<lambda>i. act_bind (source_index st list_files (snd p)) (\<lambda>j. finish_pair st p i j))
             (record_source_cache_metrics st (activate p scope s)))"

section \<open>The invariant\<close>

text \<open>The index cache; \<open>K\<close> holds the keys that may be cached without an active pair.\<close>

definition cache_core :: "cache_key set \<Rightarrow> engine_cache \<Rightarrow> bool" where
  "cache_core K s \<longleftrightarrow> distinct (map fst (src_cache s)) \<and> distinct (map fst (src_sizes s)) \<and>
     fst ` set (src_cache s) = fst ` set (src_sizes s) \<and> src_bytes s = sum_values (src_sizes s) \<and>
     list_all (\<lambda>(k, n). 0 \<le> n) (src_sizes s) \<and> set (active_keys s) = set (keys_of_pairs (active_pairs s)) \<and>
     fst ` set (src_sizes s) \<subseteq> set (keys_of_pairs (active_pairs s)) \<union> K \<and> src_evictions s = 0"

definition weak_inv :: "engine_cache \<Rightarrow> bool" where
  "weak_inv s \<longleftrightarrow> cache_core {} s \<and> set (failed_pairs s) \<inter> set (active_pairs s) = {}"

definition ancestry_inv :: "engine_cache \<Rightarrow> bool" where
  "ancestry_inv s \<longleftrightarrow> distinct (map fst (ancestry s)) \<and> length (ancestry s) \<le> max_ancestry s \<and> 1 \<le> max_ancestry s"

definition engine_inv :: "engine_cache \<Rightarrow> bool" where
  "engine_inv s \<longleftrightarrow> weak_inv s \<and> ancestry_inv s \<and> src_bytes s \<le> max_total_bytes s \<and> 1 \<le> max_total_bytes s"

text \<open>What the operations on the index cache leave alone.\<close>

definition same_rest :: "engine_cache \<Rightarrow> engine_cache \<Rightarrow> bool" where
  "same_rest s t \<longleftrightarrow> max_total_bytes t = max_total_bytes s \<and> ancestry t = ancestry s \<and> max_ancestry t = max_ancestry s \<and>
     set (failed_pairs s) \<subseteq> set (failed_pairs t)"

lemma same_rest_refl [simp]: "same_rest s s"
  by (simp add: same_rest_def)

lemma same_rest_trans: "same_rest s t \<Longrightarrow> same_rest t u \<Longrightarrow> same_rest s u"
  by (auto simp: same_rest_def)

lemma bookkeeping_weak_inv [simp]:
  "weak_inv (record_event e s) = weak_inv s" "weak_inv (record_source_cache_metrics st s) = weak_inv s"
  "weak_inv (record_ancestry_cache_metrics s) = weak_inv s" "weak_inv (bump_metric k n s) = weak_inv s"
  by (simp_all add: weak_inv_def cache_core_def record_event_def record_source_cache_metrics_def
      record_ancestry_cache_metrics_def bump_metric_def)

lemma bookkeeping_engine_inv [simp]:
  "engine_inv (record_event e s) = engine_inv s" "engine_inv (record_source_cache_metrics st s) = engine_inv s"
  "engine_inv (record_ancestry_cache_metrics s) = engine_inv s" "engine_inv (bump_metric k n s) = engine_inv s"
  by (simp_all add: engine_inv_def ancestry_inv_def)
     (simp_all add: record_event_def record_source_cache_metrics_def record_ancestry_cache_metrics_def bump_metric_def)

lemma bookkeeping_same [simp]:
  "same_rest t (record_event e s) = same_rest t s" "same_rest t (record_source_cache_metrics st s) = same_rest t s"
  "same_rest t (bump_metric k n s) = same_rest t s"
  "src_cache (record_event e s) = src_cache s" "src_cache (record_source_cache_metrics st s) = src_cache s"
  "src_cache (bump_metric k n s) = src_cache s"
  "src_sizes (record_event e s) = src_sizes s" "src_sizes (record_source_cache_metrics st s) = src_sizes s"
  "src_sizes (bump_metric k n s) = src_sizes s"
  "src_bytes (record_event e s) = src_bytes s" "src_bytes (record_source_cache_metrics st s) = src_bytes s"
  "src_bytes (bump_metric k n s) = src_bytes s"
  "active_pairs (record_event e s) = active_pairs s" "active_pairs (record_source_cache_metrics st s) = active_pairs s"
  "active_pairs (bump_metric k n s) = active_pairs s"
  "failed_pairs (record_event e s) = failed_pairs s" "failed_pairs (record_source_cache_metrics st s) = failed_pairs s"
  "failed_pairs (bump_metric k n s) = failed_pairs s"
  "max_total_bytes (record_event e s) = max_total_bytes s" "max_total_bytes (record_source_cache_metrics st s) = max_total_bytes s"
  "max_total_bytes (bump_metric k n s) = max_total_bytes s"
  by (simp_all add: same_rest_def record_event_def record_source_cache_metrics_def bump_metric_def)

lemma set_keys_of_pairs: "set (keys_of_pairs ps) = fst ` set ps \<union> snd ` set ps"
  by (auto simp: keys_of_pairs_def pair_keys_def)

lemma delete_filter: "AList.delete k d = filter (\<lambda>e. fst e \<noteq> k) d"
  unfolding AList.delete_eq by (rule filter_cong) auto

lemma filter_keys_step:
  "k \<notin> A \<Longrightarrow> filter (\<lambda>e. fst e \<in> A \<or> fst e \<notin> K) (filter (\<lambda>e. fst e \<noteq> k) d) = filter (\<lambda>e. fst e \<in> A \<or> fst e \<notin> insert k K) d"
  "k \<in> A \<Longrightarrow> filter (\<lambda>e. fst e \<in> A \<or> fst e \<notin> K) d = filter (\<lambda>e. fst e \<in> A \<or> fst e \<notin> insert k K) d"
  unfolding filter_filter by (rule filter_cong; auto)+

lemma fold_drop_key:
  "src_bytes s = sum_values (src_sizes s) \<Longrightarrow> distinct (map fst (src_sizes s)) \<Longrightarrow>
   fold drop_key ks s = s\<lparr>src_cache := filter (\<lambda>e. fst e \<in> set (active_keys s) \<or> fst e \<notin> set ks) (src_cache s),
     src_sizes := filter (\<lambda>e. fst e \<in> set (active_keys s) \<or> fst e \<notin> set ks) (src_sizes s),
     src_bytes := sum_values (filter (\<lambda>e. fst e \<in> set (active_keys s) \<or> fst e \<notin> set ks) (src_sizes s))\<rparr>"
proof (induction ks arbitrary: s)
  case (Cons k ks)
  let ?s = "drop_key k s"
  have s: "src_bytes ?s = sum_values (src_sizes ?s)" "distinct (map fst (src_sizes ?s))"
    using Cons.prems by (auto simp: drop_key_def sum_values_delete distinct_keys_delete)
  show ?case
  proof (cases "k \<in> set (active_keys s)")
    case True
    then have "?s = s" by (simp add: drop_key_def)
    then have "fold drop_key (k # ks) s = fold drop_key ks s" by simp
    with Cons.IH [OF Cons.prems] filter_keys_step(2) [OF True, of "set ks" "src_cache s"]
      filter_keys_step(2) [OF True, of "set ks" "src_sizes s"] show ?thesis by simp
  next
    case False
    then have e: "?s = s\<lparr>src_cache := filter (\<lambda>e. fst e \<noteq> k) (src_cache s),
        src_bytes := src_bytes s - dict_get (src_sizes s) k 0, src_sizes := filter (\<lambda>e. fst e \<noteq> k) (src_sizes s)\<rparr>"
      by (simp add: drop_key_def delete_filter)
    have "fold drop_key (k # ks) s = fold drop_key ks ?s" by simp
    also have "\<dots> = s\<lparr>src_cache := filter (\<lambda>e. fst e \<in> set (active_keys s) \<or> fst e \<notin> set ks) (filter (\<lambda>e. fst e \<noteq> k) (src_cache s)),
       src_sizes := filter (\<lambda>e. fst e \<in> set (active_keys s) \<or> fst e \<notin> set ks) (filter (\<lambda>e. fst e \<noteq> k) (src_sizes s)),
       src_bytes := sum_values (filter (\<lambda>e. fst e \<in> set (active_keys s) \<or> fst e \<notin> set ks) (filter (\<lambda>e. fst e \<noteq> k) (src_sizes s)))\<rparr>"
      unfolding Cons.IH [OF s] unfolding e by (simp del: filter_filter)
    finally show ?thesis unfolding filter_keys_step(1) [OF False] by simp
  qed
qed (simp)

definition only_active :: "pair_key list \<Rightarrow> (cache_key \<times> 'v) list \<Rightarrow> (cache_key \<times> 'v) list" where
  "only_active ps d = filter (\<lambda>e. fst e \<in> set (keys_of_pairs ps)) d"

lemma sum_values_filter_nonneg: "list_all (\<lambda>(k, n). 0 \<le> n) d \<Longrightarrow> 0 \<le> sum_values (filter P d)"
  by (rule sum_values_nonneg) (auto simp: list_all_iff)

lemma only_active_removed:
  assumes "fst ` set d \<subseteq> set (keys_of_pairs act) \<union> K" "K \<subseteq> set (concat (map pair_keys ps))"
  shows "filter (\<lambda>e. fst e \<in> set (keys_of_pairs (filter (\<lambda>q. q \<notin> set ps) act)) \<or> fst e \<notin> set (concat (map pair_keys ps))) d =
    only_active (filter (\<lambda>q. q \<notin> set ps) act) d"
proof -
  have k: "k \<in> set (keys_of_pairs (filter (\<lambda>q. q \<notin> set ps) act)) \<or> k \<in> set (concat (map pair_keys ps))"
    if "k \<in> set (keys_of_pairs act)" for k
    using that unfolding set_keys_of_pairs by (auto simp: pair_keys_def image_iff)
  show ?thesis unfolding only_active_def
  proof (rule filter_cong [OF refl])
    fix e assume "e \<in> set d"
    then have "fst e \<in> set (keys_of_pairs act) \<or> fst e \<in> set (concat (map pair_keys ps))" using assms by blast
    with k [of "fst e"] show "(fst e \<in> set (keys_of_pairs (filter (\<lambda>q. q \<notin> set ps) act)) \<or> fst e \<notin> set (concat (map pair_keys ps))) =
        (fst e \<in> set (keys_of_pairs (filter (\<lambda>q. q \<notin> set ps) act)))" by blast
  qed
qed

lemma deactivate_eq:
  assumes "cache_core K s" "K \<subseteq> set (concat (map pair_keys ps))"
  shows "deactivate ps scopes s = s\<lparr>active_pairs := filter (\<lambda>q. q \<notin> set ps) (active_pairs s), pairs_by_scope := scopes,
     active_keys := keys_of_pairs (filter (\<lambda>q. q \<notin> set ps) (active_pairs s)),
     src_cache := only_active (filter (\<lambda>q. q \<notin> set ps) (active_pairs s)) (src_cache s),
     src_sizes := only_active (filter (\<lambda>q. q \<notin> set ps) (active_pairs s)) (src_sizes s),
     src_bytes := sum_values (only_active (filter (\<lambda>q. q \<notin> set ps) (active_pairs s)) (src_sizes s))\<rparr>"
proof -
  let ?act = "filter (\<lambda>q. q \<notin> set ps) (active_pairs s)"
  let ?s = "s\<lparr>active_pairs := ?act, pairs_by_scope := scopes, active_keys := keys_of_pairs ?act\<rparr>"
  have k: "fst ` set (src_cache s) \<subseteq> set (keys_of_pairs (active_pairs s)) \<union> K"
    "fst ` set (src_sizes s) \<subseteq> set (keys_of_pairs (active_pairs s)) \<union> K" "list_all (\<lambda>(k, n). 0 \<le> n) (src_sizes s)"
    using assms by (auto simp: cache_core_def)
  have nn: "0 \<le> sum_values (only_active ?act (src_sizes s))"
    unfolding only_active_def by (rule sum_values_filter_nonneg [OF k(3)])
  have "src_bytes ?s = sum_values (src_sizes ?s)" "distinct (map fst (src_sizes ?s))"
    using assms by (simp_all add: cache_core_def)
  note d = fold_drop_key [OF this, of "concat (map pair_keys ps)"]
  show ?thesis unfolding deactivate_def Let_def d using only_active_removed [OF k(1) assms(2)] only_active_removed [OF k(2) assms(2)] nn by simp
qed

lemma only_active_facts:
  "distinct (map fst d) \<Longrightarrow> distinct (map fst (only_active ps d))"
  "fst ` set (only_active ps d) = fst ` set d \<inter> set (keys_of_pairs ps)"
  "set (only_active ps d) \<subseteq> set d"
  by (auto simp: only_active_def distinct_map_filter)

lemma deactivate_inv:
  assumes "cache_core K s" "K \<subseteq> set (concat (map pair_keys ps))"
  shows "cache_core {} (deactivate ps scopes s)" "same_rest s (deactivate ps scopes s)"
    "set (active_pairs (deactivate ps scopes s)) = set (active_pairs s) - set ps"
    "set (src_sizes (deactivate ps scopes s)) \<subseteq> set (src_sizes s)"
    "failed_pairs (deactivate ps scopes s) = failed_pairs s"
proof -
  show "cache_core {} (deactivate ps scopes s)"
    using assms(1) unfolding deactivate_eq [OF assms] cache_core_def
    by (auto simp: only_active_facts list_all_iff dest: subsetD [OF only_active_facts(3)])
  show "same_rest s (deactivate ps scopes s)"
    "set (active_pairs (deactivate ps scopes s)) = set (active_pairs s) - set ps"
    "set (src_sizes (deactivate ps scopes s)) \<subseteq> set (src_sizes s)"
    "failed_pairs (deactivate ps scopes s) = failed_pairs s"
    unfolding deactivate_eq [OF assms] by (auto simp: same_rest_def only_active_def)
qed

lemma mark_index_frame: "\<exists>ov. fold mark_index ks s = s\<lparr>over_budget := ov\<rparr>"
proof (induction ks arbitrary: s)
  case Nil
  show ?case by (intro exI [of _ "over_budget s"]) simp
next
  case (Cons k ks)
  obtain ov where "mark_index k s = s\<lparr>over_budget := ov\<rparr>"
  proof (cases "map_of (src_cache s) k")
    case None
    then show ?thesis using that [of "over_budget s"] by (simp add: mark_index_def)
  qed (use that in \<open>simp add: mark_index_def\<close>)
  then show ?case using Cons.IH [of "s\<lparr>over_budget := ov\<rparr>"] by auto
qed

lemma mark_pair_inv:
  assumes "cache_core K s" "K \<subseteq> set (pair_keys p)" "set (failed_pairs s) \<inter> set (active_pairs s) = {}"
    and t_def: "t = mark_index_pair_budget_exhausted st p True s"
  shows "weak_inv t" "same_rest s t" "set (active_pairs t) = set (active_pairs s) - {p}"
    "set (src_sizes t) \<subseteq> set (src_sizes s)" "set (failed_pairs t) = insert p (set (failed_pairs s))"
proof -
  define s1 where "s1 = fold mark_index (pair_keys p) (s\<lparr>failed_pairs := set_add p (failed_pairs s)\<rparr>)"
  obtain ov where m: "s1 = s\<lparr>failed_pairs := set_add p (failed_pairs s), over_budget := ov\<rparr>"
    using mark_index_frame unfolding s1_def by metis
  have "cache_core K s1 = cache_core K s" unfolding m by (simp add: cache_core_def)
  then have c: "cache_core K s1" using assms(1) by simp
  obtain scopes where t: "t = record_source_cache_metrics st (deactivate [p] scopes s1)"
    unfolding t_def mark_index_pair_budget_exhausted_def Let_def s1_def by auto
  define u where "u = deactivate [p] scopes s1"
  have "K \<subseteq> set (concat (map pair_keys [p]))" using assms(2) by simp
  note d = deactivate_inv [OF c this, of scopes, folded u_def]
  have f: "set (failed_pairs s1) = insert p (set (failed_pairs s))" "active_pairs s1 = active_pairs s"
    "src_sizes s1 = src_sizes s" unfolding m by simp_all
  have t': "t = record_source_cache_metrics st u" unfolding t u_def ..
  have a: "set (active_pairs u) = set (active_pairs s) - {p}" "set (failed_pairs u) = insert p (set (failed_pairs s))"
    using d(3,5) f by simp_all
  show "set (active_pairs t) = set (active_pairs s) - {p}" "set (src_sizes t) \<subseteq> set (src_sizes s)"
    "set (failed_pairs t) = insert p (set (failed_pairs s))"
    unfolding t' using a d(4) f by simp_all
  have "weak_inv u" using a d(1) assms(3) unfolding weak_inv_def by blast
  then show "weak_inv t" unfolding t' by simp
  have "same_rest s s1" unfolding m by (auto simp: same_rest_def)
  from same_rest_trans [OF this d(2)] show "same_rest s t" unfolding t' by simp
qed

lemma mark_pairs_inv:
  "weak_inv s \<Longrightarrow> t = fold (\<lambda>p. mark_index_pair_budget_exhausted st p True) ps s \<Longrightarrow>
   weak_inv t \<and> same_rest s t \<and> set (active_pairs t) = set (active_pairs s) - set ps \<and>
   set (src_sizes t) \<subseteq> set (src_sizes s) \<and> set (failed_pairs t) = set ps \<union> set (failed_pairs s)"
proof (induction ps arbitrary: s)
  case (Cons p ps)
  have "cache_core {} s" "set (failed_pairs s) \<inter> set (active_pairs s) = {}" using Cons.prems(1) by (auto simp: weak_inv_def)
  note m = mark_pair_inv [OF this(1) empty_subsetI this(2) refl, of st p]
  have "t = fold (\<lambda>p. mark_index_pair_budget_exhausted st p True) ps (mark_index_pair_budget_exhausted st p True s)"
    using Cons.prems(2) by simp
  from Cons.IH [OF m(1) this] m(2-5) show ?case using same_rest_trans [OF m(2)] by auto
qed simp

lemma sum_values_subset:
  assumes "distinct (map fst d)" "distinct (map fst d')" "set d' \<subseteq> set d" "k \<notin> fst ` set d'"
    and "list_all (\<lambda>(k, n). 0 \<le> n) d"
  shows "sum_values d' \<le> sum_values d - dict_get d k 0"
proof -
  let ?e = "AList.delete k d"
  have e: "distinct (map fst ?e)" using distinct_keys_delete [OF assms(1)] .
  have s: "set d' \<subseteq> set ?e" using assms(3,4) by (force simp: AList.delete_eq)
  have "sum_values d' = sum snd (set d')" "sum_values ?e = sum snd (set ?e)"
    using assms(2) e unfolding sum_values_def by (simp_all add: distinct_map sum_list_distinct_conv_sum_set)
  moreover have "sum snd (set d') \<le> sum snd (set ?e)"
    using assms(5) s by (intro sum_mono2) (auto simp: list_all_iff AList.delete_eq)
  ultimately show ?thesis by (simp add: sum_values_delete [OF assms(1)])
qed

lemma evict_inactive_none: "cache_core K s \<Longrightarrow> K \<subseteq> {key} \<Longrightarrow> evict_inactive key s = s"
proof -
  assume c: "cache_core K s" and K: "K \<subseteq> {key}"
  have "List.find (\<lambda>(k, i). k \<noteq> key \<and> k \<notin> set (active_keys s)) (src_cache s) = None"
  proof -
    have "fst e \<in> set (active_keys s) \<or> fst e = key" if "e \<in> set (src_cache s)" for e
      using c that K unfolding cache_core_def by blast
    then show ?thesis unfolding find_None_iff by force
  qed
  then show ?thesis by (subst evict_inactive.simps) simp
qed

text \<open>After a change of size either nothing else happens, or every pair with the key has failed.\<close>

definition kept :: "engine_cache \<Rightarrow> engine_cache \<Rightarrow> bool" where
  "kept s t \<longleftrightarrow> set (active_pairs t) = set (active_pairs s) \<and> set (failed_pairs t) = set (failed_pairs s) \<and>
     map_of (src_cache t) = map_of (src_cache s)"

lemma map_of_move_to_end: "distinct (map fst d) \<Longrightarrow> map_of (move_to_end k d) = map_of d"
  using move_to_end_facts [of d k] by (subst map_of_inject_set) simp_all

lemma list_all_update: "list_all P d \<Longrightarrow> P (k, v) \<Longrightarrow> list_all P (AList.update k v d)"
  by (induction d) auto

lemma sizes_update_core:
  assumes "cache_core K s" "key \<in> fst ` set (src_cache s)"
  shows "cache_core K (s\<lparr>src_sizes := AList.update key (int n) (src_sizes s),
     src_bytes := src_bytes s + (int n - dict_get (src_sizes s) key 0), src_cache := move_to_end key (src_cache s)\<rparr>)"
proof -
  have d: "distinct (map fst (src_cache s))" "distinct (map fst (src_sizes s))" using assms(1) by (auto simp: cache_core_def)
  have k: "fst ` set (AList.update key (int n) (src_sizes s)) = fst ` set (src_sizes s)"
    using assms by (auto simp: cache_core_def dom_update)
  have "list_all (\<lambda>(k, m). 0 \<le> m) (AList.update key (int n) (src_sizes s))"
    using assms(1) by (intro list_all_update) (simp_all add: cache_core_def)
  with assms(1) k show ?thesis unfolding cache_core_def
    by (simp add: move_to_end_facts [OF d(1)] sum_values_update [OF d(2)] distinct_keys_update [OF d(2)])
qed

lemma source_index_changed_inv:
  assumes w: "weak_inv s" and others: "src_bytes s - dict_get (src_sizes s) key 0 \<le> max_total_bytes s"
    and key: "key \<in> fst ` set (src_cache s)" and t_def: "t = source_index_changed st key i s"
  shows "weak_inv t \<and> same_rest s t \<and> src_bytes t \<le> max_total_bytes s \<and>
    (kept s t \<or> set (active_pair_for_key key s) \<subseteq> set (failed_pairs t))"
proof -
  let ?s = "s\<lparr>src_sizes := AList.update key (int (s_total (st i))) (src_sizes s),
     src_bytes := src_bytes s + (int (s_total (st i)) - dict_get (src_sizes s) key 0), src_cache := move_to_end key (src_cache s)\<rparr>"
  have c: "cache_core {} ?s" using sizes_update_core [OF _ key] w by (simp add: weak_inv_def)
  then have w1: "weak_inv ?s" using w by (simp add: weak_inv_def)
  have d: "distinct (map fst (src_cache s))" "distinct (map fst (src_sizes s))" "src_bytes s = sum_values (src_sizes s)"
    "list_all (\<lambda>(k, n). 0 \<le> n) (src_sizes s)" using w by (auto simp: weak_inv_def cache_core_def)
  let ?u = "mark_active_pairs_over_budget st key ?s"
  have t: "weak_inv t = weak_inv ?u" "same_rest s t = same_rest s ?u" "src_bytes t = src_bytes ?u" "kept s t = kept s ?u"
    "failed_pairs t = failed_pairs ?u"
    unfolding t_def source_index_changed_def Let_def using key evict_inactive_none [OF c empty_subsetI, of key]
    by (simp_all add: kept_def)
  show ?thesis
  proof (cases "src_bytes ?s \<le> max_total_bytes s")
    case True
    then have u: "?u = ?s" by (simp add: mark_active_pairs_over_budget_def)
    have "kept s ?s" by (simp add: kept_def map_of_move_to_end [OF d(1)])
    then show ?thesis unfolding t u using True w1 by (simp add: same_rest_def)
  next
    case False
    let ?ps = "active_pair_for_key key ?s"
    have u: "?u = fold (\<lambda>p. mark_index_pair_budget_exhausted st p True) ?ps ?s"
      using False by (simp add: mark_active_pairs_over_budget_def)
    from mark_pairs_inv [OF w1 u] have r: "weak_inv ?u" "same_rest ?s ?u" "set (active_pairs ?u) = set (active_pairs s) - set ?ps"
      "set (src_sizes ?u) \<subseteq> set (src_sizes ?s)" "set ?ps \<subseteq> set (failed_pairs ?u)" by auto
    have "key \<notin> set (keys_of_pairs (active_pairs ?u))"
      using r(3) by (auto simp: set_keys_of_pairs active_pair_for_key_def pair_keys_def)
    then have nk: "key \<notin> fst ` set (src_sizes ?u)" using r(1) by (auto simp: weak_inv_def cache_core_def)
    have "src_bytes ?u = sum_values (src_sizes ?u)" "distinct (map fst (src_sizes ?u))"
      using r(1) by (auto simp: weak_inv_def cache_core_def)
    moreover have "sum_values (src_sizes ?u) \<le> sum_values (src_sizes ?s) - dict_get (src_sizes ?s) key 0"
      using c r(1,4) nk by (intro sum_values_subset) (auto simp: cache_core_def weak_inv_def)
    moreover have "sum_values (src_sizes ?s) - dict_get (src_sizes ?s) key 0 = src_bytes s - dict_get (src_sizes s) key 0"
      using d by (simp add: sum_values_update) (simp add: dict_get_def)
    ultimately have "src_bytes ?u \<le> max_total_bytes s" using others by simp
    moreover have "same_rest s ?u" using r(2) by (simp add: same_rest_def)
    ultimately show ?thesis unfolding t using r(1,5) by (simp add: active_pair_for_key_def)
  qed
qed

lemma weak_inv_congs:
  "weak_inv (s\<lparr>next_index := x\<rparr>) = weak_inv s" "weak_inv (s\<lparr>ancestry := y\<rparr>) = weak_inv s"
  "distinct (map fst (src_cache s)) \<Longrightarrow> weak_inv (s\<lparr>src_cache := move_to_end k (src_cache s)\<rparr>) = weak_inv s"
  by (simp_all add: weak_inv_def cache_core_def move_to_end_facts)

lemma weak_distinct: "weak_inv s \<Longrightarrow> distinct (map fst (src_cache s))"
  by (simp add: weak_inv_def cache_core_def)

lemma dict_get_nonneg: "list_all (\<lambda>(k, n). 0 \<le> n) d \<Longrightarrow> 0 \<le> dict_get d k (0::int)"
  by (auto simp: dict_get_def list_all_iff split: option.split dest!: map_of_SomeD)

lemma weak_others: "weak_inv s \<Longrightarrow> src_bytes s - dict_get (src_sizes s) k 0 \<le> src_bytes s"
  using dict_get_nonneg [of "src_sizes s" k] by (simp add: weak_inv_def cache_core_def)

text \<open>Adding an index under an active key.\<close>

lemma add_index_inv:
  assumes "weak_inv s" "key \<notin> fst ` set (src_cache s)" "key \<in> set (keys_of_pairs (active_pairs s))"
    and t_def: "t = s\<lparr>next_index := m, src_cache := AList.update key i (src_cache s),
     src_sizes := AList.update key (int n) (src_sizes s), src_bytes := src_bytes s + int n\<rparr>"
  shows "weak_inv t" "src_bytes t - dict_get (src_sizes t) key 0 = src_bytes s"
proof -
  have k: "key \<notin> fst ` set (src_sizes s)" using assms(1,2) by (simp add: weak_inv_def cache_core_def)
  show "weak_inv t" using assms(1,2,3) k unfolding t_def weak_inv_def cache_core_def by (simp add: update_fresh)
  show "src_bytes t - dict_get (src_sizes t) key 0 = src_bytes s" by (simp add: t_def dict_get_def)
qed

text \<open>A fetch of an index under an active key: the invariant stays, and unless all pairs with the key have
  failed the index is cached and the other entries are as before.\<close>

lemma source_index_inv:
  assumes w: "weak_inv s" and b: "src_bytes s \<le> max_total_bytes s" and key: "key \<in> set (keys_of_pairs (active_pairs s))"
    and run: "source_index st files key s = (out, t)"
  shows "weak_inv t \<and> same_rest s t \<and> src_bytes t \<le> max_total_bytes s \<and>
    (set (active_pair_for_key key s) \<subseteq> set (failed_pairs t) \<or>
     set (active_pairs t) = set (active_pairs s) \<and> set (failed_pairs t) = set (failed_pairs s) \<and>
     (\<forall>k j. map_of (src_cache s) k = Some j \<longrightarrow> map_of (src_cache t) k = Some j) \<and>
     (\<forall>i. out = Inr i \<longrightarrow> map_of (src_cache t) key = Some i))"
proof (cases "map_of (src_cache s) key")
  case (Some i)
  define s1 where "s1 = record_event CacheHit (bump_metric ''parser_cache_hit'' 1 s)"
  define s2 where "s2 = s1\<lparr>src_cache := move_to_end key (src_cache s1)\<rparr>"
  have d: "distinct (map fst (src_cache s1))" using weak_distinct [OF w] by (simp add: s1_def)
  have "weak_inv s1" "same_rest s s1" using w by (simp_all add: s1_def)
  then have "weak_inv s2" "same_rest s s2"
    using weak_inv_congs(3) [OF d, of key] unfolding s2_def by (simp_all add: same_rest_def)
  then have f: "weak_inv s2" "src_bytes s2 = src_bytes s" "src_sizes s2 = src_sizes s" "max_total_bytes s2 = max_total_bytes s"
    "same_rest s s2" "active_pairs s2 = active_pairs s" "failed_pairs s2 = failed_pairs s" "map_of (src_cache s2) = map_of (src_cache s)"
    using map_of_move_to_end [OF d] by (auto simp: s2_def s1_def)
  have "key \<in> fst ` set (src_cache s2)" using Some f(8) by (metis map_of_fst_iff option.distinct(1))
  moreover have "src_bytes s2 - dict_get (src_sizes s2) key 0 \<le> max_total_bytes s2"
    using weak_others [OF f(1), of key] b f by simp
  ultimately have c: "weak_inv (source_index_changed st key i s2) \<and> same_rest s2 (source_index_changed st key i s2) \<and>
      src_bytes (source_index_changed st key i s2) \<le> max_total_bytes s2 \<and>
      (kept s2 (source_index_changed st key i s2) \<or>
       set (active_pair_for_key key s2) \<subseteq> set (failed_pairs (source_index_changed st key i s2)))"
    using source_index_changed_inv [OF f(1) _ _ refl] by blast
  have o: "t = source_index_changed st key i s2" "out = (case map_of (src_cache t) key of None \<Rightarrow> Inl (KeyError []) | Some j \<Rightarrow> Inr j)"
    using run Some unfolding source_index_def s2_def s1_def Let_def by (auto split: option.splits)
  have "active_pair_for_key key s2 = active_pair_for_key key s" using f(6) by (simp add: active_pair_for_key_def)
  with c o f same_rest_trans [OF f(5)] show ?thesis unfolding kept_def by (auto split: option.splits)
next
  case None
  define s1 where "s1 = record_event CacheMiss (bump_metric ''parser_cache_miss'' 1 s)"
  show ?thesis
  proof (cases "files (fst (snd key))")
    case (Inl e)
    then have "t = s1" "out = Inl e" using run None by (simp_all add: source_index_def s1_def Let_def)
    then show ?thesis using w b by (simp add: s1_def)
  next
    case (Inr paths)
    define s2 where "s2 = bump_metric ''source_files_total'' (int (length paths)) s1"
    have f: "weak_inv s2" "src_bytes s2 = src_bytes s" "max_total_bytes s2 = max_total_bytes s" "src_cache s2 = src_cache s"
      "same_rest s s2" "active_pairs s2 = active_pairs s" "failed_pairs s2 = failed_pairs s"
      using w by (simp_all add: s2_def s1_def)
    define i where "i = next_index s2"
    define s3 where "s3 = s2\<lparr>next_index := i + 1, src_cache := AList.update key i (src_cache s2),
       src_sizes := AList.update key (int (s_total (st i))) (src_sizes s2), src_bytes := src_bytes s2 + int (s_total (st i))\<rparr>"
    have "key \<notin> fst ` set (src_cache s2)" using None f(4) by (simp add: map_of_fst_iff)
    from add_index_inv [OF f(1) this _ s3_def] key f
    have g: "weak_inv s3" "src_bytes s3 - dict_get (src_sizes s3) key 0 \<le> max_total_bytes s3"
      using b by (simp_all add: s3_def)
    have h: "key \<in> fst ` set (src_cache s3)" by (simp add: s3_def dom_update)
    have o: "t = source_index_changed st key i s3" "out = Inr i"
      using run None Inr unfolding source_index_def s1_def [symmetric] by (auto simp: Let_def s2_def s3_def i_def s1_def)
    have q: "active_pair_for_key key s3 = active_pair_for_key key s" "same_rest s s3" "max_total_bytes s3 = max_total_bytes s"
      "active_pairs s3 = active_pairs s" "failed_pairs s3 = failed_pairs s" "map_of (src_cache s3) = (map_of (src_cache s))(key \<mapsto> i)"
      using f by (simp_all add: s3_def active_pair_for_key_def same_rest_def)
    show ?thesis using source_index_changed_inv [OF g h o(1)] o(2) q same_rest_trans [OF q(2)] None unfolding kept_def by auto
  qed
qed

lemma sum_values_subset_le:
  assumes "distinct (map fst d)" "distinct (map fst d')" "set d' \<subseteq> set d" "list_all (\<lambda>(k, n). 0 \<le> n) d"
  shows "sum_values d' \<le> sum_values d"
proof -
  have "sum_values d' = sum snd (set d')" "sum_values d = sum snd (set d)"
    using assms(1,2) unfolding sum_values_def by (simp_all add: distinct_map sum_list_distinct_conv_sum_set)
  moreover have "sum snd (set d') \<le> sum snd (set d)" using assms(3,4) by (intro sum_mono2) (auto simp: list_all_iff)
  ultimately show ?thesis by simp
qed

lemma engine_inv_of:
  "engine_inv s \<Longrightarrow> weak_inv t \<Longrightarrow> same_rest s t \<Longrightarrow> src_bytes t \<le> max_total_bytes s \<Longrightarrow> engine_inv t"
  by (simp add: engine_inv_def same_rest_def ancestry_inv_def)

lemma activate_inv:
  assumes "engine_inv s" "p \<notin> set (failed_pairs s)"
  shows "engine_inv (activate p scope s)" "p \<in> set (active_pairs (activate p scope s))"
    "failed_pairs (activate p scope s) = failed_pairs s"
proof -
  have "weak_inv (activate p scope s)"
    using assms unfolding engine_inv_def weak_inv_def cache_core_def activate_def
    by (auto simp: set_keys_of_pairs)
  from engine_inv_of [OF assms(1) this] assms(1) show "engine_inv (activate p scope s)"
    by (simp add: activate_def same_rest_def engine_inv_def)
qed (simp_all add: activate_def)

lemma mark_pair_engine_inv:
  assumes "engine_inv s" "t = mark_index_pair_budget_exhausted st p True s"
  shows "engine_inv t" "p \<in> set (failed_pairs t)" "p \<notin> set (active_pairs t)"
proof -
  have w: "cache_core {} s" "set (failed_pairs s) \<inter> set (active_pairs s) = {}" using assms(1) by (auto simp: engine_inv_def weak_inv_def)
  note m = mark_pair_inv [OF w(1) empty_subsetI w(2) assms(2)]
  have e: "distinct (map fst (src_sizes t))" "distinct (map fst (src_sizes s))" "src_bytes t = sum_values (src_sizes t)"
    "src_bytes s = sum_values (src_sizes s)" "list_all (\<lambda>(k, n). 0 \<le> n) (src_sizes s)"
    using m(1) w by (auto simp: weak_inv_def cache_core_def)
  have "sum_values (src_sizes t) \<le> sum_values (src_sizes s)" by (rule sum_values_subset_le [OF e(2,1) m(4) e(5)])
  then show "engine_inv t" using engine_inv_of [OF assms(1) m(1,2)] assms(1) e by (simp add: engine_inv_def)
  show "p \<in> set (failed_pairs t)" "p \<notin> set (active_pairs t)" using m(3,5) by auto
qed

text \<open>A fetch for a pair that has failed already may leave one entry that no pair needs; marking the pair
  removes it.\<close>

lemma stray_fetch:
  assumes inv: "engine_inv s" and key: "key \<notin> set (keys_of_pairs (active_pairs s))"
    and run: "source_index st files key s = (Inr i, t)"
  shows "cache_core {key} t" "same_rest s t" "active_pairs t = active_pairs s" "failed_pairs t = failed_pairs s"
    "src_bytes t - dict_get (src_sizes t) key 0 = src_bytes s"
proof -
  have w: "weak_inv s" using inv by (simp add: engine_inv_def)
  have nk: "key \<notin> fst ` set (src_cache s)" "key \<notin> fst ` set (src_sizes s)"
    using w key by (auto simp: weak_inv_def cache_core_def)
  then have None: "map_of (src_cache s) key = None" by (simp add: map_of_fst_iff)
  obtain paths where paths: "files (fst (snd key)) = Inr paths"
    using run None by (auto simp: source_index_def Let_def split: sum.splits)
  define s2 where "s2 = bump_metric ''source_files_total'' (int (length paths)) (record_event CacheMiss (bump_metric ''parser_cache_miss'' 1 s))"
  have f: "weak_inv s2" "src_bytes s2 = src_bytes s" "src_cache s2 = src_cache s" "src_sizes s2 = src_sizes s"
    "same_rest s s2" "active_pairs s2 = active_pairs s" "failed_pairs s2 = failed_pairs s"
    using w by (simp_all add: s2_def)
  define n where "n = int (s_total (st i))"
  define s3 where "s3 = s2\<lparr>next_index := i + 1, src_cache := AList.update key i (src_cache s2),
     src_sizes := AList.update key n (src_sizes s2), src_bytes := src_bytes s2 + n\<rparr>"
  have o: "t = source_index_changed st key i s3"
    using run None paths by (auto simp: source_index_def Let_def s2_def s3_def n_def)
  have c3: "cache_core {key} s3" using f(1) nk f(3,4) unfolding s3_def weak_inv_def cache_core_def
    by (auto simp: update_fresh n_def)
  have k3: "key \<in> fst ` set (src_cache s3)" by (simp add: s3_def dom_update)
  have g: "dict_get (src_sizes s3) key 0 = n" by (simp add: s3_def dict_get_def)
  define s4 where "s4 = s3\<lparr>src_sizes := AList.update key n (src_sizes s3),
     src_bytes := src_bytes s3 + (n - dict_get (src_sizes s3) key 0), src_cache := move_to_end key (src_cache s3)\<rparr>"
  have c4: "cache_core {key} s4" using sizes_update_core [OF c3 k3, of "s_total (st i)"] by (simp add: s4_def n_def)
  have "active_pair_for_key key s4 = []"
    using key f(6) by (auto simp: active_pair_for_key_def s4_def s3_def set_keys_of_pairs pair_keys_def filter_empty_conv)
  then have t: "t = record_event (CacheBytes (src_bytes s4)) (record_source_cache_metrics st s4)"
    unfolding o source_index_changed_def Let_def
    using k3 evict_inactive_none [OF c4, of key] by (simp add: s4_def n_def mark_active_pairs_over_budget_def)
  show "cache_core {key} t" unfolding t using c4 by (simp add: cache_core_def record_event_def record_source_cache_metrics_def)
  have "same_rest s2 s4" "active_pairs s4 = active_pairs s2" "failed_pairs s4 = failed_pairs s2"
    by (simp_all add: s4_def s3_def same_rest_def)
  then show "same_rest s t" "active_pairs t = active_pairs s" "failed_pairs t = failed_pairs s"
    unfolding t using f same_rest_trans [OF f(5)] by simp_all
  show "src_bytes t - dict_get (src_sizes t) key 0 = src_bytes s"
    unfolding t using f(2) g by (simp add: s4_def) (simp add: s3_def dict_get_def)
qed

lemma source_index_engine_inv:
  assumes "engine_inv s" "key \<in> set (keys_of_pairs (active_pairs s))" "source_index st files key s = (out, t)"
  shows "engine_inv t" "same_rest s t"
  using source_index_inv [OF _ _ assms(2,3)] engine_inv_of [OF assms(1), of t] assms(1) by (auto simp: engine_inv_def)

lemma pair_in_keys: "p \<in> set ps \<Longrightarrow> k \<in> set (pair_keys p) \<Longrightarrow> k \<in> set (keys_of_pairs ps)"
  by (auto simp: set_keys_of_pairs pair_keys_def)

text \<open>One fetch for a pair that is active: afterwards the pair is still active, with everything it had in the
  cache, or it has failed.\<close>

lemma fetch_for_pair:
  assumes "engine_inv s" "p \<in> set (active_pairs s)" "key \<in> set (pair_keys p)" "source_index st files key s = (out, t)"
    and "p \<notin> set (failed_pairs t)"
  shows "p \<in> set (active_pairs t) \<and> (\<forall>k j. map_of (src_cache s) k = Some j \<longrightarrow> map_of (src_cache t) k = Some j) \<and>
    (\<forall>i. out = Inr i \<longrightarrow> map_of (src_cache t) key = Some i)"
proof -
  have "p \<in> set (active_pair_for_key key s)" using assms(2,3) by (simp add: active_pair_for_key_def)
  then show ?thesis
    using source_index_inv [OF _ _ pair_in_keys [OF assms(2,3)] assms(4)] assms by (auto simp: engine_inv_def)
qed

definition pair_outcome :: "pair_key \<Rightarrow> (nat option \<times> nat option \<times> string) result \<Rightarrow> engine_cache \<Rightarrow> bool" where
  "pair_outcome p out t =
     (case out of Inl e \<Rightarrow> True
      | Inr (Some i, Some j, r) \<Rightarrow> r = [] \<and> map_of (src_cache t) (fst p) = Some i \<and> map_of (src_cache t) (snd p) = Some j \<and>
          p \<in> set (active_pairs t) \<and> p \<notin> set (failed_pairs t)
      | Inr _ \<Rightarrow> p \<in> set (failed_pairs t) \<and> p \<notin> set (active_pairs t))"

lemma finish_pair_outcome:
  assumes "engine_inv s" "finish_pair st p i j s = (out, t)"
    and "p \<notin> set (failed_pairs s) \<Longrightarrow> map_of (src_cache s) (fst p) = Some i \<and> map_of (src_cache s) (snd p) = Some j \<and> p \<in> set (active_pairs s)"
  shows "engine_inv t \<and> pair_outcome p out t"
  using assms mark_pair_engine_inv [OF assms(1) refl, where p = p and st = st]
  by (auto simp: finish_pair_def pair_outcome_def split: if_splits)

text \<open>A fetch that raises has changed nothing but counters, or has dropped the key it was asked for.\<close>

lemma source_index_raised:
  assumes "engine_inv s" "source_index st files key s = (Inl e, t)"
  shows "engine_inv t"
proof (cases "key \<in> set (keys_of_pairs (active_pairs s))")
  case True
  then show ?thesis using source_index_engine_inv(1) assms by blast
next
  case False
  have "weak_inv s" using assms(1) by (simp add: engine_inv_def)
  then have "map_of (src_cache s) key = None" using False by (auto simp: map_of_fst_iff weak_inv_def cache_core_def)
  then have "t = record_event CacheMiss (bump_metric ''parser_cache_miss'' 1 s)"
    using assms(2) by (auto simp: source_index_def Let_def split: sum.splits)
  then show ?thesis using assms(1) by simp
qed

lemma stray_pair:
  assumes inv: "engine_inv s" and key: "snd p \<notin> set (keys_of_pairs (active_pairs s))"
    and run: "source_index st files (snd p) s = (Inr j, s2)" "finish_pair st p i j s2 = (out, t)"
    and failed: "p \<in> set (failed_pairs s)"
  shows "engine_inv t \<and> pair_outcome p out t"
proof -
  note g = stray_fetch [OF inv key run(1)]
  have t: "t = mark_index_pair_budget_exhausted st p True s2" and out: "out = Inr (None, None, ''DEPENDENCY_INDEX_MEMORY_BUDGET_EXHAUSTED'')"
    using run(2) failed g(4) by (simp_all add: finish_pair_def)
  have dis: "set (failed_pairs s2) \<inter> set (active_pairs s2) = {}" using inv g(3,4) by (simp add: engine_inv_def weak_inv_def)
  have "{snd p} \<subseteq> set (pair_keys p)" by (simp add: pair_keys_def)
  note m = mark_pair_inv [OF g(1) this dis t]
  have "snd p \<notin> set (keys_of_pairs (active_pairs t))" using m(3) g(3) key by (auto simp: set_keys_of_pairs)
  then have "snd p \<notin> fst ` set (src_sizes t)" using m(1) by (auto simp: weak_inv_def cache_core_def)
  then have "sum_values (src_sizes t) \<le> sum_values (src_sizes s2) - dict_get (src_sizes s2) (snd p) 0"
    using m(1,4) g(1) by (intro sum_values_subset) (auto simp: weak_inv_def cache_core_def)
  then have "src_bytes t \<le> max_total_bytes s" using g(1,5) m(1) inv by (simp add: weak_inv_def cache_core_def engine_inv_def)
  then have "engine_inv t" using engine_inv_of [OF inv m(1) same_rest_trans [OF g(2) m(2)]] by simp
  then show ?thesis using out m(3,5) by (auto simp: pair_outcome_def)
qed

lemma source_index_pair_outcome:
  assumes inv: "engine_inv s" and run: "source_index_pair st files p scope s = (out, t)"
  shows "engine_inv t \<and> pair_outcome p out t"
proof (cases "p \<in> set (failed_pairs s)")
  case True
  then show ?thesis using run mark_pair_engine_inv [OF inv refl, where p = p and st = st]
    by (auto simp: source_index_pair_def pair_outcome_def)
next
  case False
  define s0 where "s0 = record_source_cache_metrics st (activate p scope s)"
  have s0: "engine_inv s0" "p \<in> set (active_pairs s0)" using activate_inv [OF inv False, of scope] by (simp_all add: s0_def)
  have k: "fst p \<in> set (pair_keys p)" "snd p \<in> set (pair_keys p)" by (simp_all add: pair_keys_def)
  have b: "act_bind (source_index st files (fst p))
      (\<lambda>i. act_bind (source_index st files (snd p)) (\<lambda>j. finish_pair st p i j)) s0 = (out, t)"
    using run False by (simp add: source_index_pair_def s0_def)
  show ?thesis
    using b
  proof (cases rule: act_bind_cases)
    case (raised e)
    then show ?thesis using source_index_engine_inv [OF s0(1) pair_in_keys [OF s0(2) k(1)]] by (simp add: pair_outcome_def)
  next
    case (passed i s1)
    have s1: "engine_inv s1" "same_rest s0 s1" using source_index_engine_inv [OF s0(1) pair_in_keys [OF s0(2) k(1)] passed(1)] .
    note f1 = fetch_for_pair [OF s0 k(1) passed(1)]
    have active2: "snd p \<in> set (keys_of_pairs (active_pairs s1)) \<or> p \<in> set (failed_pairs s1)"
      using f1 pair_in_keys [OF _ k(2)] by blast
    show ?thesis
      using passed(2)
    proof (cases rule: act_bind_cases)
      case (raised e)
      then show ?thesis using source_index_raised [OF s1(1) raised(1)] by (simp add: pair_outcome_def)
    next
      case 2: (passed j s2)
      show ?thesis
      proof (cases "snd p \<in> set (keys_of_pairs (active_pairs s1))")
        case False
        with active2 have "p \<in> set (failed_pairs s1)" by blast
        then show ?thesis using stray_pair [OF s1(1) False 2] by simp
      next
        case True
      have s2: "engine_inv s2" "same_rest s1 s2" using source_index_engine_inv [OF s1(1) True 2(1)] .
      have "map_of (src_cache s2) (fst p) = Some i \<and> map_of (src_cache s2) (snd p) = Some j \<and> p \<in> set (active_pairs s2)"
        if "p \<notin> set (failed_pairs s2)"
      proof -
        have n: "p \<notin> set (failed_pairs s1)" using that s2(2) by (auto simp: same_rest_def)
        from f1 [OF n] have a: "p \<in> set (active_pairs s1)" "map_of (src_cache s1) (fst p) = Some i" by blast+
        from fetch_for_pair [OF s1(1) a(1) k(2) 2(1) that] a(2) show ?thesis by blast
      qed
      then show ?thesis using finish_pair_outcome [OF s2(1) 2(2)] by blast
      qed
    qed
  qed
qed

section \<open>Reachable states\<close>

datatype engine_operation =
    SizeChanged "nat \<Rightarrow> index_stats" cache_key nat
  | GetPair "nat \<Rightarrow> index_stats" "string \<Rightarrow> string list result" pair_key "string option"
  | ReleaseScope "nat \<Rightarrow> index_stats" string
  | ClearCaches "nat \<Rightarrow> index_stats"
  | AskAncestry "unit \<Rightarrow> bool result" cache_key

inductive engine_step :: "engine_cache \<Rightarrow> engine_operation \<Rightarrow> engine_cache \<Rightarrow> bool" where
  step_changed: "engine_step s (SizeChanged st key i) (source_index_changed st key i s)"
| step_pair: "engine_step s (GetPair st files p scope) (snd (source_index_pair st files p scope s))"
| step_release: "engine_step s (ReleaseScope st scope) (release_index_pairs_for_scope st scope s)"
| step_clear: "engine_step s (ClearCaches st) (clear_caches st s)"
| step_ancestry: "engine_step s (AskAncestry f key) (snd (ancestry_answer f key s))"

lemma deactivate_engine_inv:
  assumes "engine_inv s"
  shows "engine_inv (deactivate ps scopes s)"
proof -
  have c: "cache_core {} s" using assms by (simp add: engine_inv_def weak_inv_def)
  note d = deactivate_inv [OF c empty_subsetI, of ps scopes]
  have w: "weak_inv (deactivate ps scopes s)" using d(1,3,5) assms by (auto simp: weak_inv_def engine_inv_def)
  have "sum_values (src_sizes (deactivate ps scopes s)) \<le> sum_values (src_sizes s)"
    using c d(1,4) by (intro sum_values_subset_le) (auto simp: cache_core_def)
  then show ?thesis using engine_inv_of [OF assms w d(2)] c d(1) assms by (simp add: cache_core_def engine_inv_def)
qed

lemma release_inv: "engine_inv s \<Longrightarrow> engine_inv (release_index_pairs_for_scope st scope s)"
  using deactivate_engine_inv [of s]
  by (simp add: release_index_pairs_for_scope_def Let_def)
     (simp add: engine_inv_def weak_inv_def cache_core_def ancestry_inv_def)

lemma clear_inv: "engine_inv s \<Longrightarrow> engine_inv (clear_caches st s)"
  by (simp add: clear_caches_def) (simp add: engine_inv_def weak_inv_def cache_core_def ancestry_inv_def keys_of_pairs_def)

lemma changed_engine_inv:
  assumes "engine_inv s"
  shows "engine_inv (source_index_changed st key i s)"
proof (cases "key \<in> fst ` set (src_cache s)")
  case True
  have w: "weak_inv s" and b: "src_bytes s \<le> max_total_bytes s" using assms by (auto simp: engine_inv_def)
  from source_index_changed_inv [OF w _ True refl, of st i] weak_others [OF w, of key] b engine_inv_of [OF assms]
  show ?thesis by auto
qed (simp add: source_index_changed_def assms)

lemma trim_ancestry_frame:
  "\<exists>n e. trim_ancestry d s = s\<lparr>ancestry := drop (length d - max_ancestry s) d, ancestry_evictions := n, performance := e\<rparr>"
proof (induction d arbitrary: s)
  case Nil
  show ?case by (intro exI [of _ "ancestry_evictions s"] exI [of _ "performance s"]) simp
next
  case (Cons e es)
  show ?case
  proof (cases "length (e # es) > max_ancestry s")
    case True
    let ?s = "record_event CacheEviction (s\<lparr>ancestry_evictions := ancestry_evictions s + 1\<rparr>)"
    obtain n q where "trim_ancestry es ?s = ?s\<lparr>ancestry := drop (length es - max_ancestry ?s) es, ancestry_evictions := n, performance := q\<rparr>"
      using Cons.IH by blast
    then show ?thesis using True by (auto simp: record_event_def Suc_diff_le)
  next
    case False
    then show ?thesis by (intro exI [of _ "ancestry_evictions s"] exI [of _ "performance s"]) simp
  qed
qed

lemma ancestry_put_inv:
  assumes "engine_inv s"
  shows "engine_inv (ancestry_cache_put key v s)"
proof -
  let ?d = "move_to_end key (AList.update key v (ancestry s))"
  obtain n e where t: "trim_ancestry ?d s = s\<lparr>ancestry := drop (length ?d - max_ancestry s) ?d, ancestry_evictions := n, performance := e\<rparr>"
    using trim_ancestry_frame by blast
  have "distinct (map fst (AList.update key v (ancestry s)))"
    using assms by (simp add: engine_inv_def ancestry_inv_def distinct_keys_update)
  then have "distinct (map fst ?d)" by (rule move_to_end_facts)
  then have "distinct (map fst (drop (length ?d - max_ancestry s) ?d))" by (simp add: drop_map [symmetric])
  then have "engine_inv (s\<lparr>ancestry := drop (length ?d - max_ancestry s) ?d, ancestry_evictions := n, performance := e\<rparr>)"
    using assms by (simp add: engine_inv_def ancestry_inv_def weak_inv_def cache_core_def)
  then show ?thesis unfolding ancestry_cache_put_def t by simp
qed

lemma ancestry_answer_inv: "engine_inv s \<Longrightarrow> engine_inv (snd (ancestry_answer f key s))"
proof -
  assume inv: "engine_inv s"
  then have "distinct (map fst (ancestry s))" by (simp add: engine_inv_def ancestry_inv_def)
  then have "engine_inv (s\<lparr>ancestry := move_to_end key (ancestry s)\<rparr>)"
    using inv by (simp add: engine_inv_def ancestry_inv_def weak_inv_congs move_to_end_facts)
  then show ?thesis using inv ancestry_put_inv [OF inv, of key]
    by (auto simp: ancestry_answer_def Let_def split: option.split sum.split)
qed

inductive engine_start :: "engine_cache \<Rightarrow> bool" where
  "engine_start (init_engine_cache max_bytes max_total max_anc perf)"

lemma engine_start_inv: "engine_start s \<Longrightarrow> engine_inv s"
  by (induction rule: engine_start.induct)
     (auto simp: init_engine_cache_def Let_def engine_inv_def weak_inv_def cache_core_def ancestry_inv_def
        keys_of_pairs_def le_max_iff_disj)

lemma engine_step_inv: "engine_step s op t \<Longrightarrow> engine_inv s \<Longrightarrow> engine_inv t"
proof (induction rule: engine_step.induct)
  case (step_pair s st files p scope)
  then show ?case using source_index_pair_outcome [of s st files p scope] by (metis prod.collapse)
qed (simp_all add: changed_engine_inv release_inv clear_inv ancestry_answer_inv)

interpretation engine_system: invariant_system engine_start engine_step engine_inv
  by unfold_locales (auto intro: engine_start_inv engine_step_inv)

section \<open>Properties\<close>



definition demo_stats :: "nat \<Rightarrow> index_stats" where
  "demo_stats i = \<lparr>s_total = 3 * i, s_cand_bytes = 0, s_cand_entries = 0, s_res_bytes = 0\<rparr>"

definition demo_pair :: pair_key where
  "demo_pair = ((''/repo'', ''c1'', ''v''), (''/repo'', ''c2'', ''v''))"

definition demo_engine :: engine_cache where
  "demo_engine = init_engine_cache 2 None 10 True"



end
