(* ===== verification/DiffSyntax.thy ===== *)
theory DiffSyntax
  imports Prelude
begin

text \<open>
  The hunk headers of \<open>git diff --unified=0\<close>, read by \<open>app/inheritance/line_map.py\<close> (at the
  start of a line) and by \<open>app/incremental/git_diff.py\<close> (anywhere in a line). The two regular
  expressions have no choice that needs backtracking, so they are deterministic parsers.
\<close>

definition parse_digits :: "string \<Rightarrow> (nat \<times> string) option" where
  "parse_digits s =
     (let ds = takeWhile is_dec_digit s in
      if ds = [] then None else Some (digits_value 0 ds, dropWhile is_dec_digit s))"

definition parse_literal :: "string \<Rightarrow> string \<Rightarrow> string option" where
  "parse_literal p s = (if starts_with p s then Some (drop (length p) s) else None)"

text \<open>\<open>(\d+)(?:,(\d+))?\<close>, the count defaulting to 1.\<close>

definition parse_range :: "string \<Rightarrow> (nat \<times> nat \<times> string) option" where
  "parse_range s =
     (case parse_digits s of
        None \<Rightarrow> None
      | Some (start, rest) \<Rightarrow>
          (case parse_literal '','' rest of
             None \<Rightarrow> Some (start, 1, rest)
           | Some rest1 \<Rightarrow>
               (case parse_digits rest1 of
                  None \<Rightarrow> Some (start, 1, rest)
                | Some (count, rest2) \<Rightarrow> Some (start, count, rest2))))"

text \<open>A hunk header at the start of the string: old start, old count, new start, new count.\<close>

definition parse_hunk_header :: "string \<Rightarrow> (nat \<times> nat \<times> nat \<times> nat) option" where
  "parse_hunk_header s =
     (case parse_literal ''@@ -'' s of None \<Rightarrow> None | Some s1 \<Rightarrow>
      case parse_range s1 of None \<Rightarrow> None | Some (old_start, old_count, s2) \<Rightarrow>
      case parse_literal '' +'' s2 of None \<Rightarrow> None | Some s3 \<Rightarrow>
      case parse_range s3 of None \<Rightarrow> None | Some (new_start, new_count, s4) \<Rightarrow>
      case parse_literal '' @@'' s4 of None \<Rightarrow> None | Some _ \<Rightarrow>
        Some (old_start, old_count, new_start, new_count))"

text \<open>\<open>HUNK_RE.search\<close>: the leftmost header anywhere in the line.\<close>

fun search_hunk_header :: "string \<Rightarrow> (nat \<times> nat \<times> nat \<times> nat) option" where
  "search_hunk_header [] = parse_hunk_header []"
| "search_hunk_header (c # s) =
     (case parse_hunk_header (c # s) of Some h \<Rightarrow> Some h | None \<Rightarrow> search_hunk_header s)"

text \<open>The header Git prints for a hunk; a count of 1 is left out.\<close>

definition show_range :: "nat \<Rightarrow> nat \<Rightarrow> string" where
  "show_range start count = show_nat start @ (if count = 1 then [] else '','' @ show_nat count)"

definition show_hunk_header :: "nat \<Rightarrow> nat \<Rightarrow> nat \<Rightarrow> nat \<Rightarrow> string" where
  "show_hunk_header os oc ns nc = ''@@ -'' @ show_range os oc @ '' +'' @ show_range ns nc @ '' @@''"

section \<open>Digits\<close>

lemma takeWhile_digits:
  assumes "list_all P xs" and "ys = [] \<or> \<not> P (hd ys)"
  shows "takeWhile P (xs @ ys) = xs" and "dropWhile P (xs @ ys) = ys"
  using assms by (induction xs, auto) (cases ys, auto)+

lemma parse_digits_show:
  assumes "r = [] \<or> \<not> is_dec_digit (hd r)"
  shows "parse_digits (show_nat n @ r) = Some (n, r)"
  using takeWhile_digits [of is_dec_digit "show_nat n" r] show_nat_digits [of n] assms
  by (simp add: parse_digits_def Let_def digits_value_show_nat)

lemma parse_literal_append [simp]: "parse_literal p (p @ s) = Some s"
  by (simp add: parse_literal_def)

lemma parse_range_show:
  assumes "r = [] \<or> hd r = CHR '' ''"
  shows "parse_range (show_range start count @ r) = Some (start, count, r)"
proof (cases "count = 1")
  case True
  have "r = [] \<or> \<not> is_dec_digit (hd r)" using assms by (auto simp: is_dec_digit_def)
  then have "parse_digits (show_nat start @ r) = Some (start, r)" by (rule parse_digits_show)
  with True assms show ?thesis
    by (cases r) (auto simp: parse_range_def show_range_def parse_literal_def)
next
  case False
  have d: "parse_digits (show_nat start @ '','' @ show_nat count @ r) = Some (start, '','' @ show_nat count @ r)"
    by (rule parse_digits_show) (simp add: is_dec_digit_def)
  have e: "parse_digits (show_nat count @ r) = Some (count, r)"
    using assms by (intro parse_digits_show) (auto simp: is_dec_digit_def)
  from False d e show ?thesis
    by (simp add: parse_range_def show_range_def parse_literal_def)
qed

lemma parse_hunk_show: "parse_hunk_header (show_hunk_header os oc ns nc @ r) = Some (os, oc, ns, nc)"
proof -
  have a: "parse_range (show_range os oc @ '' +'' @ show_range ns nc @ '' @@'' @ r) =
      Some (os, oc, '' +'' @ show_range ns nc @ '' @@'' @ r)"
    by (rule parse_range_show) simp
  have b: "parse_range (show_range ns nc @ '' @@'' @ r) = Some (ns, nc, '' @@'' @ r)"
    by (rule parse_range_show) simp
  show ?thesis
    unfolding parse_hunk_header_def show_hunk_header_def append.assoc parse_literal_append
    by (simp only: option.case prod.case a b parse_literal_append)
qed

end
