(* ===== verification/LineMap.thy ===== *)
theory LineMap
  imports CppLexer DiffSyntax
begin

text \<open>
  The physical line mapping of \<open>app/inheritance/line_map.py\<close>: \<open>LineMapping\<close>,
  \<open>GitLineMapEngine.map_text\<close>, \<open>map_git_text\<close>, \<open>map_git_file\<close> and \<open>_map_hunk\<close>. The
  engine's \<open>lexer\<close> is the argument \<open>tk\<close>, as it is a constructor argument of the class; Git
  is the argument \<open>git\<close> (the output of a command line, or its failure), SHA-256 the argument
  \<open>sha256\<close>, \<open>os.path.realpath\<close> the argument \<open>realpath\<close>.

  Both mappers walk the two files as unchanged gaps and changed hunks. The invariant
  \<open>covers\<close> says what holds when the first \<open>a\<close> old and \<open>b\<close> new lines are done: every old line
  is either mapped or deleted, every new line is either a target or added, the mapping is
  strictly increasing and links only lines with the same tokens. Gaps and hunks keep it.
\<close>

record line_mapping =
  mapping :: "(int \<times> int) list"
  ambiguous :: "int set"
  deleted :: "int set"
  added :: "int set"
  fingerprint :: string

text \<open>\<open>repr\<close> of the values the fingerprints are computed from.\<close>

definition repr_pairs :: "(int \<times> int) list \<Rightarrow> string" where
  "repr_pairs ps =
     ''['' @ py_join '', '' (map (\<lambda>(a, b). ''('' @ show_int a @ '', '' @ show_int b @ '')'') ps) @ '']''"

definition repr_ints :: "int list \<Rightarrow> string" where
  "repr_ints xs = ''['' @ py_join '', '' (map show_int xs) @ '']''"

definition repr_dict :: "(int \<times> int) list \<Rightarrow> string" where
  "repr_dict ps =
     ''{'' @ py_join '', '' (map (\<lambda>(a, b). show_int a @ '': '' @ show_int b) ps) @ ''}''"

definition quoted :: "string \<Rightarrow> string" where
  "quoted s = [SQUOTE] @ s @ [SQUOTE]"

definition repr_to_dict :: "line_mapping \<Rightarrow> string" where
  "repr_to_dict lm =
     ''{'' @ quoted ''mapping'' @ '': '' @ repr_dict (sort_key fst (mapping lm)) @ '', '' @
     quoted ''ambiguous'' @ '': '' @ repr_ints (sorted_list_of_set (ambiguous lm)) @ '', '' @
     quoted ''deleted'' @ '': '' @ repr_ints (sorted_list_of_set (deleted lm)) @ '', '' @
     quoted ''added'' @ '': '' @ repr_ints (sorted_list_of_set (added lm)) @ '', '' @
     quoted ''fingerprint'' @ '': '' @ quoted (fingerprint lm) @ ''}''"

definition LineMapping ::
  "(string \<Rightarrow> string) \<Rightarrow> (int \<times> int) list \<Rightarrow> int set \<Rightarrow> int set \<Rightarrow> int set \<Rightarrow> line_mapping" where
  "LineMapping sha256 m amb del add =
     \<lparr>mapping = m, ambiguous = amb, deleted = del, added = add,
      fingerprint = sha256 (repr_pairs (sort_key fst m))\<rparr>"

definition mapping_get :: "line_mapping \<Rightarrow> int \<Rightarrow> int option" where
  "mapping_get lm old_line =
     (if old_line \<in> ambiguous lm \<or> old_line \<in> deleted lm then None
      else map_of (mapping lm) old_line)"

definition split_lines :: "string \<Rightarrow> string list" where
  "split_lines value = py_splitlines (normalize_newlines value)"

section \<open>\_map\_hunk\<close>

type_synonym hunk_pair = "nat \<times> nat \<times> string list"

definition token_positions :: "(string \<Rightarrow> string list) \<Rightarrow> string list \<Rightarrow> (string list \<times> nat list) list" where
  "token_positions tk lines = fold (\<lambda>(offset, line) d. dict_append (tk line) offset d)
     (List.enumerate 0 lines) []"

definition unique_pairs ::
  "(string \<Rightarrow> string list) \<Rightarrow> string list \<Rightarrow> string list \<Rightarrow> hunk_pair list" where
  "unique_pairs tk old_lines new_lines =
     (let new_positions = token_positions tk new_lines in
      concat (map (\<lambda>(key, old_offsets).
        case (old_offsets, dict_get new_positions key []) of
          ([old_offset], [new_offset]) \<Rightarrow>
            if old_lines ! old_offset \<noteq> new_lines ! new_offset
            then [(old_offset, new_offset, key)] else []
        | _ \<Rightarrow> [])
        (token_positions tk old_lines)))"

definition crossing :: "hunk_pair list \<Rightarrow> bool" where
  "crossing pairs \<longleftrightarrow>
     list_ex (\<lambda>(p, q). fst p \<ge> fst q) (zip pairs (tl pairs)) \<or>
     list_ex (\<lambda>(p, q). fst (snd p) \<ge> fst (snd q)) (zip pairs (tl pairs))"

definition ordered_pairs ::
  "(string \<Rightarrow> string list) \<Rightarrow> string list \<Rightarrow> string list \<Rightarrow> hunk_pair list" where
  "ordered_pairs tk old_lines new_lines =
     (let pairs = sort (unique_pairs tk old_lines new_lines)
      in if crossing pairs then [] else pairs)"

definition unmatched_token ::
  "(string \<Rightarrow> string list) \<Rightarrow> string list \<Rightarrow> nat list \<Rightarrow> bool" where
  "unmatched_token tk lines matched \<longleftrightarrow>
     list_ex (\<lambda>(offset, line). tk line \<noteq> [] \<and> offset \<notin> set matched) (List.enumerate 0 lines)"

definition hunk_pairs ::
  "(string \<Rightarrow> string list) \<Rightarrow> string list \<Rightarrow> string list \<Rightarrow> hunk_pair list" where
  "hunk_pairs tk old_lines new_lines =
     (let pairs = ordered_pairs tk old_lines new_lines in
      if unmatched_token tk old_lines (map fst pairs) \<or>
         unmatched_token tk new_lines (map (fst \<circ> snd) pairs)
      then [] else pairs)"

type_synonym map_state = "(int \<times> int) list \<times> int set \<times> int set \<times> int set"

definition map_hunk ::
  "(string \<Rightarrow> string list) \<Rightarrow> string list \<Rightarrow> string list \<Rightarrow> int \<Rightarrow> int \<Rightarrow> map_state \<Rightarrow> map_state" where
  "map_hunk tk old_lines new_lines old_start new_start = (\<lambda>(m, amb, del, add).
     let pairs = hunk_pairs tk old_lines new_lines;
         matched_old = map fst pairs;
         matched_new = map (fst \<circ> snd) pairs;
         gone = set (map (\<lambda>offset. old_start + int offset)
                  (filter (\<lambda>offset. offset \<notin> set matched_old) [0..<length old_lines]));
         fresh = set (map (\<lambda>offset. new_start + int offset)
                  (filter (\<lambda>offset. offset \<notin> set matched_new) [0..<length new_lines]))
     in (fold (\<lambda>(i, j, _) d. AList.update (old_start + int i) (new_start + int j) d) pairs m,
         (if new_lines \<noteq> [] then amb \<union> gone else amb), del \<union> gone, add \<union> fresh))"

section \<open>map\_text\<close>

fun prefix_length :: "'a list \<Rightarrow> 'a list \<Rightarrow> nat" where
  "prefix_length (x # xs) (y # ys) = (if x = y then Suc (prefix_length xs ys) else 0)"
| "prefix_length _ _ = 0"

definition add_gap :: "int \<Rightarrow> int \<Rightarrow> nat \<Rightarrow> (int \<times> int) list \<Rightarrow> (int \<times> int) list" where
  "add_gap old_cursor new_cursor gap m =
     fold (\<lambda>k d. AList.update (old_cursor + int k) (new_cursor + int k) d) [0..<gap] m"

definition add_suffix :: "int \<Rightarrow> int \<Rightarrow> nat \<Rightarrow> (int \<times> int) list \<Rightarrow> (int \<times> int) list" where
  "add_suffix old_length new_length suffix_len m =
     fold (\<lambda>k d. AList.update (old_length - int k) (new_length - int k) d) [0..<suffix_len] m"

definition map_text ::
  "(string \<Rightarrow> string) \<Rightarrow> (string \<Rightarrow> string list) \<Rightarrow> string \<Rightarrow> string \<Rightarrow> line_mapping" where
  "map_text sha256 tk old_text new_text =
     (let old_lines = split_lines old_text;
          new_lines = split_lines new_text;
          prefix_len = prefix_length old_lines new_lines;
          m1 = add_gap 1 1 prefix_len [];
          suffix_len = prefix_length (rev (drop prefix_len old_lines)) (rev (drop prefix_len new_lines));
          m2 = add_suffix (int (length old_lines)) (int (length new_lines)) suffix_len m1
      in case map_hunk tk
             (take (length old_lines - suffix_len - prefix_len) (drop prefix_len old_lines))
             (take (length new_lines - suffix_len - prefix_len) (drop prefix_len new_lines))
             (int prefix_len + 1) (int prefix_len + 1) (m2, {}, {}, {}) of
           (m, amb, del, add) \<Rightarrow> LineMapping sha256 m amb del add)"

section \<open>map\_git\_text\<close>

type_synonym hunk = "int \<times> int \<times> int \<times> int"

definition normal_hunk :: "nat \<times> nat \<times> nat \<times> nat \<Rightarrow> hunk" where
  "normal_hunk = (\<lambda>(old_start, old_count, new_start, new_count).
     ((if old_count \<noteq> 0 then int old_start else int old_start + 1), int old_count,
      (if new_count \<noteq> 0 then int new_start else int new_start + 1), int new_count))"

definition diff_hunks :: "string \<Rightarrow> hunk list" where
  "diff_hunks diff = map normal_hunk (List.map_filter parse_hunk_header (py_split NL diff))"

definition map_gap :: "int \<Rightarrow> int \<Rightarrow> int \<Rightarrow> int \<Rightarrow> (int \<times> int) list \<Rightarrow> (int \<times> int) list" where
  "map_gap old_gap new_gap old_cursor new_cursor m =
     (if old_gap = new_gap \<and> 0 \<le> old_gap then add_gap old_cursor new_cursor (nat old_gap) m else m)"

fun map_hunks ::
  "(string \<Rightarrow> string list) \<Rightarrow> string list \<Rightarrow> string list \<Rightarrow> int \<Rightarrow> int \<Rightarrow> hunk list \<Rightarrow> map_state
   \<Rightarrow> int \<times> int \<times> map_state" where
  "map_hunks tk old_lines new_lines old_cursor new_cursor [] st = (old_cursor, new_cursor, st)"
| "map_hunks tk old_lines new_lines old_cursor new_cursor ((os, oc, ns, nc) # hunks) (m, amb, del, add) =
     map_hunks tk old_lines new_lines (os + oc) (ns + nc) hunks
       (map_hunk tk (py_slice (os - 1) (os - 1 + oc) old_lines) (py_slice (ns - 1) (ns - 1 + nc) new_lines)
          os ns (map_gap (os - old_cursor) (ns - new_cursor) old_cursor new_cursor m, amb, del, add))"

definition map_hunk_list ::
  "(string \<Rightarrow> string list) \<Rightarrow> string list \<Rightarrow> string list \<Rightarrow> hunk list \<Rightarrow> map_state" where
  "map_hunk_list tk old_lines new_lines hunks =
     (case map_hunks tk old_lines new_lines 1 1 hunks ([], {}, {}, {}) of
        (oc, nc, m, rest) \<Rightarrow>
          (map_gap (int (length old_lines) + 1 - oc) (int (length new_lines) + 1 - nc) oc nc m, rest))"

definition has_rename :: "string \<Rightarrow> bool" where
  "has_rename diff \<longleftrightarrow> contains_str ''rename from '' diff \<or> contains_str ''similarity index '' diff"

definition map_git_diff ::
  "(string \<Rightarrow> string) \<Rightarrow> (string \<Rightarrow> string list) \<Rightarrow> string \<Rightarrow> string \<Rightarrow> string \<Rightarrow> line_mapping" where
  "map_git_diff sha256 tk diff old_text new_text =
     (if has_rename diff then
        LineMapping sha256 [] {} {1 .. int (length (py_splitlines old_text))}
          {1 .. int (length (py_splitlines new_text))}
      else case map_hunk_list tk (split_lines old_text) (split_lines new_text) (diff_hunks diff) of
        (m, amb, del, add) \<Rightarrow>
          (let lm = LineMapping sha256 m amb del add
           in lm\<lparr>fingerprint := sha256 (diff @ repr_to_dict lm)\<rparr>))"

definition map_git_text ::
  "(string list \<Rightarrow> string result) \<Rightarrow> (string \<Rightarrow> string) \<Rightarrow> (string \<Rightarrow> string) \<Rightarrow> (string \<Rightarrow> string list)
   \<Rightarrow> string \<Rightarrow> string \<Rightarrow> string \<Rightarrow> string \<Rightarrow> string \<Rightarrow> string \<Rightarrow> line_mapping result" where
  "map_git_text git realpath sha256 tk repo_path old_commit new_commit relative_path old_text new_text =
     rbind (git [''git'', ''-C'', realpath repo_path, ''diff'', ''--no-ext-diff'', ''--no-renames'',
              ''--unified=0'', old_commit, new_commit, ''--'', relative_path])
       (\<lambda>diff. Inr (map_git_diff sha256 tk diff old_text new_text))"

definition git_show ::
  "(string list \<Rightarrow> string result) \<Rightarrow> (string \<Rightarrow> string) \<Rightarrow> string \<Rightarrow> string \<Rightarrow> string \<Rightarrow> string result" where
  "git_show git realpath repo_path commit relative_path =
     git [''git'', ''-C'', realpath repo_path, ''show'', commit @ '':'' @ relative_path]"

definition map_git_file ::
  "(string list \<Rightarrow> string result) \<Rightarrow> (string \<Rightarrow> string) \<Rightarrow> (string \<Rightarrow> string) \<Rightarrow> (string \<Rightarrow> string list)
   \<Rightarrow> string \<Rightarrow> string \<Rightarrow> string \<Rightarrow> string \<Rightarrow> line_mapping result" where
  "map_git_file git realpath sha256 tk repo_path old_commit new_commit relative_path =
     (if relative_path = [] \<or> starts_with ''/'' relative_path \<or>
         ''..'' \<in> set (py_split (CHR ''/'') relative_path)
      then Inl (ValueError ''Git line-map path is not repository-relative'')
      else
        rbind (git_show git realpath repo_path old_commit relative_path) (\<lambda>old_text.
        rbind (git_show git realpath repo_path new_commit relative_path) (\<lambda>new_text.
        map_git_text git realpath sha256 tk repo_path old_commit new_commit relative_path
          old_text new_text)))"

section \<open>What a stretch of lines contributes\<close>

text \<open>
  Old lines \<open>a+1..a'\<close> and new lines \<open>b+1..b'\<close> are accounted for by the partial map \<open>M\<close> and the
  three sets.
\<close>

definition covers ::
  "(string \<Rightarrow> string list) \<Rightarrow> string list \<Rightarrow> string list \<Rightarrow> int \<Rightarrow> int \<Rightarrow> int \<Rightarrow> int
   \<Rightarrow> (int \<rightharpoonup> int) \<Rightarrow> int set \<Rightarrow> int set \<Rightarrow> int set \<Rightarrow> bool" where
  "covers tk os ns a a' b b' M amb del add \<longleftrightarrow>
     a \<le> a' \<and> b \<le> b' \<and>
     dom M \<union> del = {a + 1 .. a'} \<and> dom M \<inter> del = {} \<and>
     ran M \<union> add = {b + 1 .. b'} \<and> ran M \<inter> add = {} \<and> amb \<subseteq> del \<and>
     (\<forall>l l' k k'. M l = Some k \<longrightarrow> M l' = Some k' \<longrightarrow> l < l' \<longrightarrow> k < k') \<and>
     (\<forall>l k. M l = Some k \<longrightarrow> tk (os ! nat (l - 1)) = tk (ns ! nat (k - 1)))"

named_theorems coverI \<open>the stretches the mappers are built from\<close>

lemma ran_map_add_disjoint: "dom M \<inter> dom N = {} \<Longrightarrow> ran (M ++ N) = ran M \<union> ran N"
  by (auto simp: ran_def map_add_Some_iff)

lemma covers_append [coverI]:
  assumes "covers tk os ns a a' b b' M amb1 del1 add1"
    and "covers tk os ns a' a'' b' b'' N amb2 del2 add2"
  shows "covers tk os ns a a'' b b'' (M ++ N) (amb1 \<union> amb2) (del1 \<union> del2) (add1 \<union> add2)"
proof -
  have M: "dom M \<subseteq> {a + 1 .. a'}" "ran M \<subseteq> {b + 1 .. b'}" "del1 \<subseteq> {a + 1 .. a'}" "add1 \<subseteq> {b + 1 .. b'}"
    and N: "dom N \<subseteq> {a' + 1 .. a''}" "ran N \<subseteq> {b' + 1 .. b''}" "del2 \<subseteq> {a' + 1 .. a''}" "add2 \<subseteq> {b' + 1 .. b''}"
    using assms unfolding covers_def by auto
  have sep: "S \<inter> T = {}" if "S \<subseteq> {x + 1 .. y}" "T \<subseteq> {y + 1 .. z}" for S T :: "int set" and x y z
    using that by force
  have own: "dom M \<inter> del1 = {}" "dom N \<inter> del2 = {}" "ran M \<inter> add1 = {}" "ran N \<inter> add2 = {}"
    using assms by (auto simp: covers_def)
  have disj: "dom M \<inter> dom N = {}" by (rule sep [OF M(1) N(1)])
  have ran: "ran (M ++ N) = ran M \<union> ran N" using disj by (rule ran_map_add_disjoint)
  have le: "a \<le> a'" "a' \<le> a''" "b \<le> b'" "b' \<le> b''" using assms by (auto simp: covers_def)
  have split: "{x + 1 .. z} = {x + 1 .. y} \<union> {y + 1 .. z}" if "x \<le> y" "y \<le> z" for x y z :: int
    using that by auto
  have cases: "(M ++ N) l = Some k \<longleftrightarrow> M l = Some k \<or> N l = Some k" for l k
    using disj by (auto simp: map_add_Some_iff)
  have mono: "k < k'" if lk: "(M ++ N) l = Some k" "(M ++ N) l' = Some k'" "l < l'" for l l' k k'
  proof -
    consider "M l = Some k \<and> M l' = Some k'" | "N l = Some k \<and> N l' = Some k'"
      | "M l = Some k \<and> N l' = Some k'" | "N l = Some k \<and> M l' = Some k'"
      using lk cases by blast
    then show ?thesis
    proof cases
      case 1 then show ?thesis using assms(1) lk(3) by (auto simp: covers_def)
    next
      case 2 then show ?thesis using assms(2) lk(3) by (auto simp: covers_def)
    next
      case 3
      then have "k \<in> ran M" and "k' \<in> ran N" by (auto simp: ran_def)
      with M(2) N(2) show ?thesis by force
    next
      case 4
      then have "l \<in> dom N" and "l' \<in> dom M" by auto
      with M(1) N(1) lk(3) show ?thesis by force
    qed
  qed
  have "dom (M ++ N) \<union> (del1 \<union> del2) = {a + 1 .. a''}"
    using assms split [OF le(1,2)] by (auto simp: covers_def)
  moreover have "ran (M ++ N) \<union> (add1 \<union> add2) = {b + 1 .. b''}"
    using assms split [OF le(3,4)] unfolding ran by (auto simp: covers_def)
  moreover have "dom (M ++ N) \<inter> (del1 \<union> del2) = {}"
    using sep [OF M(1) N(3)] sep [OF M(3) N(1)] own by auto
  moreover have "ran (M ++ N) \<inter> (add1 \<union> add2) = {}"
    using sep [OF M(2) N(4)] sep [OF M(4) N(2)] own unfolding ran by blast
  moreover have "amb1 \<union> amb2 \<subseteq> del1 \<union> del2"
    using assms by (auto simp: covers_def)
  moreover have toks: "tk (os ! nat (l - 1)) = tk (ns ! nat (k - 1))" if "(M ++ N) l = Some k" for l k
    using that assms unfolding cases by (auto simp: covers_def)
  moreover have "a \<le> a''" "b \<le> b''" using le by auto
  ultimately show ?thesis
    unfolding covers_def by (intro conjI allI impI) (assumption | erule (2) mono | erule toks)+
qed

section \<open>Gaps\<close>

definition gap_map :: "int \<Rightarrow> int \<Rightarrow> nat \<Rightarrow> int \<rightharpoonup> int" where
  "gap_map a b n = (\<lambda>l. if a < l \<and> l \<le> a + int n then Some (b + (l - a)) else None)"

lemma map_of_fold_update:
  "map_of (fold (\<lambda>p d. AList.update (f p) (g p) d) ps m) =
     map_of m ++ map_of (rev (map (\<lambda>p. (f p, g p)) ps))"
  by (induction ps arbitrary: m) (auto simp: map_add_def fun_eq_iff split: option.splits)

lemma map_of_add_gap: "map_of (add_gap (a + 1) (b + 1) n m) = map_of m ++ gap_map a b n"
proof (induction n)
  case 0
  then show ?case by (auto simp: add_gap_def gap_map_def fun_eq_iff map_add_def)
next
  case (Suc n)
  have "map_of (add_gap (a + 1) (b + 1) (Suc n) m) =
      (map_of m ++ gap_map a b n)(a + 1 + int n \<mapsto> b + 1 + int n)"
    using Suc by (simp add: add_gap_def)
  then show ?case
    by (auto simp: gap_map_def fun_eq_iff map_add_def split: option.split)
qed

lemma map_of_add_suffix:
  "map_of (add_suffix a b n m) = map_of m ++ gap_map (a - int n) (b - int n) n"
proof (induction n)
  case 0
  then show ?case by (auto simp: add_suffix_def gap_map_def fun_eq_iff map_add_def)
next
  case (Suc n)
  have "map_of (add_suffix a b (Suc n) m) =
      (map_of m ++ gap_map (a - int n) (b - int n) n)(a - int n \<mapsto> b - int n)"
    using Suc by (simp add: add_suffix_def)
  then show ?case
    by (auto simp: gap_map_def fun_eq_iff map_add_def split: option.split)
qed

lemma dom_gap_map: "dom (gap_map a b n) = {a + 1 .. a + int n}"
  by (auto simp: gap_map_def dom_def)

lemma ran_gap_map: "ran (gap_map a b n) = {b + 1 .. b + int n}"
proof -
  have "k \<in> ran (gap_map a b n)" if "b + 1 \<le> k" "k \<le> b + int n" for k
    using that by (auto simp: ran_def gap_map_def intro!: exI [of _ "a + (k - b)"])
  moreover have "ran (gap_map a b n) \<subseteq> {b + 1 .. b + int n}"
    by (auto simp: ran_def gap_map_def split: if_splits)
  ultimately show ?thesis by auto
qed

lemma covers_gap [coverI]:
  assumes "\<And>i. i < n \<Longrightarrow> os ! (nat a + i) = ns ! (nat b + i)" and "0 \<le> a" and "0 \<le> b"
  shows "covers tk os ns a (a + int n) b (b + int n) (gap_map a b n) {} {} {}"
proof -
  have "os ! nat (l - 1) = ns ! nat (k - 1)" if "gap_map a b n l = Some k" for l k
  proof -
    from that have "a < l" "l \<le> a + int n" "k = b + (l - a)" by (auto simp: gap_map_def split: if_splits)
    then have "nat (l - 1) = nat a + nat (l - a - 1)" "nat (k - 1) = nat b + nat (l - a - 1)"
      "nat (l - a - 1) < n" using assms(2,3) by auto
    with assms(1) show ?thesis by simp
  qed
  then show ?thesis
    unfolding covers_def dom_gap_map ran_gap_map
    by (auto simp: gap_map_def split: if_splits)
qed

section \<open>Hunks\<close>

definition offsets :: "(string \<Rightarrow> string list) \<Rightarrow> string list \<Rightarrow> string list \<Rightarrow> nat list" where
  "offsets tk lines key = filter (\<lambda>i. tk (lines ! i) = key) [0..<length lines]"

lemma offsets_snoc:
  "offsets tk (ls @ [l]) key = offsets tk ls key @ (if tk l = key then [length ls] else [])"
proof -
  have "filter (\<lambda>i. tk ((ls @ [l]) ! i) = key) [0..<length ls] = offsets tk ls key"
    unfolding offsets_def by (rule filter_cong) (auto simp: nth_append)
  then show ?thesis by (simp add: offsets_def)
qed

lemma token_positions_snoc:
  "token_positions tk (ls @ [l]) = dict_append (tk l) (length ls) (token_positions tk ls)"
  by (simp add: token_positions_def enumerate_append_eq)

lemma token_positions_lookup:
  "map_of (token_positions tk ls) key = (if offsets tk ls key = [] then None else Some (offsets tk ls key))"
proof (induction ls rule: rev_induct)
  case Nil
  then show ?case by (simp add: token_positions_def offsets_def)
next
  case (snoc l ls)
  then show ?case
    by (auto simp: token_positions_snoc map_of_dict_append offsets_snoc)
qed

lemma token_positions_distinct: "distinct (map fst (token_positions tk ls))"
  by (induction ls rule: rev_induct)
     (auto simp: token_positions_snoc distinct_keys_append, simp add: token_positions_def)

lemma dict_get_positions: "dict_get (token_positions tk ls) key [] = offsets tk ls key"
  by (simp add: dict_get_def token_positions_lookup)

lemma token_positions_member:
  "(key, is) \<in> set (token_positions tk ls) \<longleftrightarrow> is = offsets tk ls key \<and> is \<noteq> []"
  using map_of_eq_Some_iff [OF token_positions_distinct, of tk ls key "is"]
  by (auto simp: token_positions_lookup split: if_splits)

lemma unique_pairs_member:
  "(i, j, key) \<in> set (unique_pairs tk old new) \<longleftrightarrow>
     offsets tk old key = [i] \<and> offsets tk new key = [j] \<and> old ! i \<noteq> new ! j"
  by (force simp: unique_pairs_def Let_def dict_get_positions token_positions_member
      split: list.splits if_splits)

lemma offsets_singleton: "offsets tk ls key = [i] \<Longrightarrow> i < length ls \<and> tk (ls ! i) = key"
proof -
  assume "offsets tk ls key = [i]"
  then have "i \<in> set (offsets tk ls key)" by simp
  then show ?thesis by (auto simp: offsets_def)
qed

text \<open>What the pairs kept for a hunk guarantee.\<close>

definition pairs_ok ::
  "(string \<Rightarrow> string list) \<Rightarrow> string list \<Rightarrow> string list \<Rightarrow> hunk_pair list \<Rightarrow> bool" where
  "pairs_ok tk old new ps \<longleftrightarrow>
     sorted_wrt (<) (map fst ps) \<and> sorted_wrt (<) (map (fst \<circ> snd) ps) \<and>
     (\<forall>(i, j, key) \<in> set ps. i < length old \<and> j < length new \<and> tk (old ! i) = tk (new ! j) \<and>
        old ! i \<noteq> new ! j)"

lemma not_crossing_sorted:
  assumes "\<not> crossing ps"
  shows "sorted_wrt (<) (map fst ps)" and "sorted_wrt (<) (map (fst \<circ> snd) ps)"
  using assms
  by (auto simp: crossing_def list_ex_iff zip_map_map map_tl [symmetric] intro!: sorted_wrt_adjacent)
     (metis (mono_tags, lifting) case_prod_conv fst_conv snd_conv linorder_not_le)+

lemma ordered_pairs_ok: "pairs_ok tk old new (ordered_pairs tk old new)"
proof -
  have "\<forall>(i, j, key) \<in> set (unique_pairs tk old new). i < length old \<and> j < length new \<and>
      tk (old ! i) = tk (new ! j) \<and> old ! i \<noteq> new ! j"
    by (auto simp: unique_pairs_member dest!: offsets_singleton)
  then show ?thesis
    by (auto simp: ordered_pairs_def pairs_ok_def Let_def dest: not_crossing_sorted)
qed

lemma hunk_pairs_ok: "pairs_ok tk old new (hunk_pairs tk old new)"
  using ordered_pairs_ok [of tk old new]
  by (auto simp: hunk_pairs_def Let_def pairs_ok_def)

lemma enumerate_member: "(i, l) \<in> set (List.enumerate 0 ls) \<longleftrightarrow> i < length ls \<and> l = ls ! i"
  by (auto simp: in_set_enumerate_eq)

text \<open>Recovery is all or nothing: when pairs are kept, every other line of the hunk is blank.\<close>

lemma hunk_pairs_rest_blank:
  assumes "hunk_pairs tk old new \<noteq> []"
  shows "i < length old \<Longrightarrow> i \<notin> set (map fst (hunk_pairs tk old new)) \<Longrightarrow> tk (old ! i) = []"
    and "j < length new \<Longrightarrow> j \<notin> set (map (fst \<circ> snd) (hunk_pairs tk old new)) \<Longrightarrow> tk (new ! j) = []"
  using assms
  by (auto simp: hunk_pairs_def Let_def unmatched_token_def list_ex_iff enumerate_member split: if_splits)

definition hunk_map :: "int \<Rightarrow> int \<Rightarrow> hunk_pair list \<Rightarrow> int \<rightharpoonup> int" where
  "hunk_map a b ps = map_of (map (\<lambda>(i, j, key). (a + 1 + int i, b + 1 + int j)) ps)"

lemma hunk_map_Some:
  assumes "sorted_wrt (<) (map fst ps)"
  shows "hunk_map a b ps l = Some k \<longleftrightarrow>
     (\<exists>i j key. (i, j, key) \<in> set ps \<and> l = a + 1 + int i \<and> k = b + 1 + int j)"
proof -
  have "distinct (map fst ps)" using assms by (simp add: strict_sorted_iff)
  then have "distinct (map fst (map (\<lambda>(i, j, key). (a + 1 + int i, b + 1 + int j)) ps))"
    by (auto simp: distinct_map inj_on_def split: prod.splits) (metis fst_conv prod.inject)+
  from map_of_eq_Some_iff [OF this] show ?thesis
    unfolding hunk_map_def by (auto simp: image_iff) force+
qed

text \<open>The state after a hunk that starts behind old line \<open>a\<close> and new line \<open>b\<close>.\<close>

lemma map_hunk_state:
  assumes "map_hunk tk old new (a + 1) (b + 1) (m, amb, del, add) = (m', amb', del', add')"
  defines "ps \<equiv> hunk_pairs tk old new"
  defines "gone \<equiv> {a + 1 + int i | i. i < length old \<and> i \<notin> set (map fst ps)}"
  defines "fresh \<equiv> {b + 1 + int j | j. j < length new \<and> j \<notin> set (map (fst \<circ> snd) ps)}"
  shows "map_of m' = map_of m ++ hunk_map a b ps"
    and "amb' = (if new \<noteq> [] then amb \<union> gone else amb)"
    and "del' = del \<union> gone" and "add' = add \<union> fresh"
proof -
  have "distinct (map fst ps)"
    using hunk_pairs_ok [of tk old new] by (auto simp: ps_def pairs_ok_def strict_sorted_iff)
  then have d: "distinct (map fst (map (\<lambda>(i, j, key). (a + 1 + int i, b + 1 + int j)) ps))"
    by (auto simp: distinct_map inj_on_def split: prod.splits) (metis fst_conv prod.inject)+
  have "map_of m' = map_of m ++ map_of (rev (map (\<lambda>(i, j, key). (a + 1 + int i, b + 1 + int j)) ps))"
    using assms(1) map_of_fold_update [of "\<lambda>(i, j, key). a + 1 + int i" "\<lambda>(i, j, key). b + 1 + int j" ps m]
    by (simp add: map_hunk_def Let_def ps_def case_prod_beta')
  with d show "map_of m' = map_of m ++ hunk_map a b ps"
    by (simp add: hunk_map_def map_of_rev_distinct)
qed (use assms(1) in \<open>auto simp: map_hunk_def Let_def ps_def gone_def fresh_def\<close>)

lemma nat_range_split:
  assumes "\<And>i. i < n \<Longrightarrow> i \<in> A \<or> i \<in> B" and "A \<subseteq> {..<n}" and "B \<subseteq> {..<n}"
  shows "(\<lambda>i. a + 1 + int i) ` A \<union> (\<lambda>i. a + 1 + int i) ` B = {a + 1 .. a + int n}"
proof (intro equalityI subsetI)
  fix x
  assume "x \<in> {a + 1 .. a + int n}"
  then have "nat (x - a - 1) < n" and "x = a + 1 + int (nat (x - a - 1))" by auto
  with assms(1) show "x \<in> (\<lambda>i. a + 1 + int i) ` A \<union> (\<lambda>i. a + 1 + int i) ` B" by blast
qed (use assms(2,3) in auto)

lemma segment_nth:
  assumes "xs = take (length xs) (drop n ys)" and "i < length xs"
  shows "xs ! i = ys ! (n + i)"
proof -
  have "n \<le> length ys" using assms by (cases "n \<le> length ys") auto
  then have "take (length xs) (drop n ys) ! i = ys ! (n + i)" using assms(2) by simp
  with assms(1) show ?thesis by simp
qed

lemma covers_hunk [coverI]:
  fixes tk :: "string \<Rightarrow> string list"
  assumes old: "old = take (length old) (drop (nat a) os)" and new: "new = take (length new) (drop (nat b) ns)"
    and pos: "0 \<le> a" "0 \<le> b"
  defines "ps \<equiv> hunk_pairs tk old new"
  defines "gone \<equiv> {a + 1 + int i | i. i < length old \<and> i \<notin> set (map fst ps)}"
  defines "fresh \<equiv> {b + 1 + int j | j. j < length new \<and> j \<notin> set (map (fst \<circ> snd) ps)}"
  assumes "amb \<subseteq> gone"
  shows "covers tk os ns a (a + int (length old)) b (b + int (length new)) (hunk_map a b ps) amb gone fresh"
proof -
  have ok: "pairs_ok tk old new ps" unfolding ps_def by (rule hunk_pairs_ok)
  then have sorted: "sorted_wrt (<) (map fst ps)" "sorted_wrt (<) (map (fst \<circ> snd) ps)"
    and elem: "\<And>i j key. (i, j, key) \<in> set ps \<Longrightarrow> i < length old \<and> j < length new \<and> tk (old ! i) = tk (new ! j)"
    by (auto simp: pairs_ok_def)
  note Some = hunk_map_Some [OF sorted(1), of a b]
  have dom: "dom (hunk_map a b ps) = (\<lambda>i. a + 1 + int i) ` set (map fst ps)"
    by (auto simp: dom_def Some image_iff) (force | blast)+
  have ran: "ran (hunk_map a b ps) = (\<lambda>j. b + 1 + int j) ` set (map (fst \<circ> snd) ps)"
    by (auto simp: ran_def Some image_iff) force+
  have gone: "gone = (\<lambda>i. a + 1 + int i) ` ({..<length old} - set (map fst ps))"
    and fresh: "fresh = (\<lambda>j. b + 1 + int j) ` ({..<length new} - set (map (fst \<circ> snd) ps))"
    by (auto simp: gone_def fresh_def)
  have range: "set (map fst ps) \<subseteq> {..<length old}" "set (map (fst \<circ> snd) ps) \<subseteq> {..<length new}"
    using elem by auto
  have "dom (hunk_map a b ps) \<union> gone = {a + 1 .. a + int (length old)}"
    unfolding dom gone by (rule nat_range_split) (use range in auto)
  moreover have "ran (hunk_map a b ps) \<union> fresh = {b + 1 .. b + int (length new)}"
    unfolding ran fresh by (rule nat_range_split) (use range in auto)
  moreover have "dom (hunk_map a b ps) \<inter> gone = {}" "ran (hunk_map a b ps) \<inter> fresh = {}"
    unfolding dom gone ran fresh by (auto simp: image_iff) force+
  moreover have "k < k'" if lk: "hunk_map a b ps l = Some k" "hunk_map a b ps l' = Some k'" "l < l'" for l l' k k'
  proof -
    from lk obtain i j key i' j' key' where p: "(i, j, key) \<in> set ps" "(i', j', key') \<in> set ps"
      "i < i'" "k = b + 1 + int j" "k' = b + 1 + int j'" by (auto simp: Some)
    then obtain x y where xy: "x < length ps" "y < length ps" "ps ! x = (i, j, key)" "ps ! y = (i', j', key')"
      by (metis in_set_conv_nth)
    have "x < y"
      using sorted_wrt_nth_less [OF sorted(1), of y x] xy p(3) by (cases x y rule: linorder_cases) auto
    with sorted_wrt_nth_less [OF sorted(2), of x y] xy p show ?thesis by simp
  qed
  moreover have "tk (os ! nat (l - 1)) = tk (ns ! nat (k - 1))" if "hunk_map a b ps l = Some k" for l k
  proof -
    from that obtain i j key where p: "(i, j, key) \<in> set ps" "l = a + 1 + int i" "k = b + 1 + int j"
      by (auto simp: Some)
    then have n: "nat (l - 1) = nat a + i" "nat (k - 1) = nat b + j" using pos by auto
    have "old ! i = os ! (nat a + i)" "new ! j = ns ! (nat b + j)"
      using elem [OF p(1)] segment_nth [OF old] segment_nth [OF new] by auto
    with elem [OF p(1)] n show ?thesis by simp
  qed
  ultimately show ?thesis
    using assms(8) unfolding covers_def by simp
qed

section \<open>map\_text\<close>

lemma prefix_length_le: "prefix_length xs ys \<le> length xs" "prefix_length xs ys \<le> length ys"
  by (induction xs ys rule: prefix_length.induct) auto

lemma prefix_length_nth: "i < prefix_length xs ys \<Longrightarrow> xs ! i = ys ! i"
  by (induction xs ys arbitrary: i rule: prefix_length.induct)
     (auto simp: nth_Cons split: nat.splits if_splits)

text \<open>One hunk, as both mappers use it.\<close>

lemma map_hunk_covers:
  assumes h: "map_hunk tk old new (a + 1) (b + 1) (m, amb0, del0, add0) = (m', amb', del', add')"
    and old: "old = take (length old) (drop (nat a) os)" and new: "new = take (length new) (drop (nat b) ns)"
    and pos: "0 \<le> a" "0 \<le> b"
  obtains N amb del add where "map_of m' = map_of m ++ N" and "amb' = amb0 \<union> amb"
    and "del' = del0 \<union> del" and "add' = add0 \<union> add"
    and "covers tk os ns a (a + int (length old)) b (b + int (length new)) N amb del add"
proof -
  define ps where "ps = hunk_pairs tk old new"
  define gone where "gone = {a + 1 + int i | i. i < length old \<and> i \<notin> set (map fst ps)}"
  define fresh where "fresh = {b + 1 + int j | j. j < length new \<and> j \<notin> set (map (fst \<circ> snd) ps)}"
  define amb where "amb = (if new \<noteq> [] then gone else {})"
  note st = map_hunk_state [OF h, folded ps_def, folded gone_def fresh_def]
  have "covers tk os ns a (a + int (length old)) b (b + int (length new)) (hunk_map a b ps) amb gone fresh"
    using covers_hunk [OF old new pos, of amb tk]
    by (simp add: amb_def ps_def gone_def fresh_def)
  then show thesis
    by (rule that [rotated -1]) (use st in \<open>auto simp: amb_def\<close>)
qed

text \<open>The common suffix, read from the front.\<close>

lemma suffix_lines:
  assumes "S = prefix_length (rev (drop P os)) (rev (drop P ns))" and "i < S"
    and "P \<le> length os" and "P \<le> length ns"
  shows "os ! (length os - S + i) = ns ! (length ns - S + i)"
proof -
  have S: "S + P \<le> length os" "S + P \<le> length ns"
    using prefix_length_le [of "rev (drop P os)" "rev (drop P ns)"] assms by auto
  have "S - 1 - i < prefix_length (rev (drop P os)) (rev (drop P ns))" using assms by simp
  from prefix_length_nth [OF this]
  have "rev (drop P os) ! (S - 1 - i) = rev (drop P ns) ! (S - 1 - i)" .
  then show ?thesis using assms(2) S by (simp add: rev_nth algebra_simps)
qed

lemma map_add_swap: "dom h \<inter> dom g = {} \<Longrightarrow> (f ++ g) ++ h = (f ++ h) ++ g"
  by (metis map_add_assoc map_add_comm)

lemma map_text_covers:
  fixes sha256 :: "string \<Rightarrow> string" and tk :: "string \<Rightarrow> string list" and old_text new_text :: string
  defines "lm \<equiv> map_text sha256 tk old_text new_text"
  defines "os \<equiv> split_lines old_text" and "ns \<equiv> split_lines new_text"
  shows "covers tk os ns 0 (int (length os)) 0 (int (length ns)) (map_of (mapping lm))
     (ambiguous lm) (deleted lm) (added lm)"
proof -
  define P where "P = prefix_length os ns"
  define S where "S = prefix_length (rev (drop P os)) (rev (drop P ns))"
  define old where "old = take (length os - S - P) (drop P os)"
  define new where "new = take (length ns - S - P) (drop P ns)"
  define m2 where "m2 = add_suffix (int (length os)) (int (length ns)) S (add_gap 1 1 P [])"
  define g2 where "g2 = gap_map (int (length os) - int S) (int (length ns) - int S) S"
  obtain m amb del add where h: "map_hunk tk old new (int P + 1) (int P + 1) (m2, {}, {}, {}) = (m, amb, del, add)"
    by (metis prod_cases4)
  have lm: "lm = LineMapping sha256 m amb del add"
    unfolding lm_def map_text_def Let_def
    using h by (simp add: m2_def old_def new_def S_def P_def os_def ns_def)
  have P: "P \<le> length os" "P \<le> length ns" by (simp_all add: P_def prefix_length_le)
  have SP: "S + P \<le> length os" "S + P \<le> length ns"
    using prefix_length_le [of "rev (drop P os)" "rev (drop P ns)"] P by (auto simp: S_def)
  have seg: "old = take (length old) (drop (nat (int P)) os)" "new = take (length new) (drop (nat (int P)) ns)"
    and ends: "int P + int (length old) = int (length os) - int S"
      "int P + int (length new) = int (length ns) - int S"
    using SP by (auto simp: old_def new_def)
  obtain N where N: "map_of m = map_of m2 ++ N"
    and hunk: "covers tk os ns (int P) (int (length os) - int S) (int P) (int (length ns) - int S) N amb del add"
    by (rule map_hunk_covers [OF h seg]) (auto simp: ends)
  have head: "covers tk os ns 0 (int P) 0 (int P) (gap_map 0 0 P) {} {} {}"
    using covers_gap [of P os 0 ns 0 tk] prefix_length_nth [of _ os ns] by (simp add: P_def)
  have tail: "covers tk os ns (int (length os) - int S) (int (length os)) (int (length ns) - int S)
      (int (length ns)) g2 {} {} {}"
    using covers_gap [of S os "int (length os) - int S" ns "int (length ns) - int S" tk]
      suffix_lines [OF S_def _ P] SP by (simp add: nat_diff_distrib g2_def)
  have "dom N \<subseteq> {int P + 1 .. int (length os) - int S}" using hunk unfolding covers_def by blast
  then have "dom N \<inter> dom g2 = {}" by (force simp: g2_def dom_gap_map)
  then have "map_of m = (gap_map 0 0 P ++ N) ++ g2"
    using N map_of_add_gap [of 0 0 P "[]"]
    by (simp add: m2_def map_of_add_suffix map_add_swap flip: g2_def)
  with covers_append [OF covers_append [OF head hunk] tail] lm show ?thesis
    by (simp add: LineMapping_def)
qed

section \<open>map\_git\_text\<close>

text \<open>
  What a unified diff of the two texts states, for hunks in the form of \<open>diff_hunks\<close>: hunks
  ascend, they stay inside the files, and the lines between two hunks are the same on both
  sides.
\<close>

definition same_lines :: "string list \<Rightarrow> string list \<Rightarrow> int \<Rightarrow> int \<Rightarrow> int \<Rightarrow> bool" where
  "same_lines os ns a b n \<longleftrightarrow>
     list_all (\<lambda>i. os ! (nat a + i) = ns ! (nat b + i)) [0..<nat n]"

fun diff_of :: "string list \<Rightarrow> string list \<Rightarrow> int \<Rightarrow> int \<Rightarrow> hunk list \<Rightarrow> bool" where
  "diff_of os ns a b [] \<longleftrightarrow>
     a \<le> int (length os) \<and> int (length os) - a = int (length ns) - b \<and>
     same_lines os ns a b (int (length os) - a)"
| "diff_of os ns a b ((s, c, t, d) # hs) \<longleftrightarrow>
     a \<le> s - 1 \<and> s - 1 - a = t - 1 - b \<and> 0 \<le> c \<and> 0 \<le> d \<and>
     s - 1 + c \<le> int (length os) \<and> t - 1 + d \<le> int (length ns) \<and>
     same_lines os ns a b (s - 1 - a) \<and> diff_of os ns (s - 1 + c) (t - 1 + d) hs"

lemma covers_same_lines:
  assumes "same_lines os ns a b n" and "0 \<le> n" and "0 \<le> a" and "0 \<le> b"
  shows "covers tk os ns a (a + n) b (b + n) (gap_map a b (nat n)) {} {} {}"
  using covers_gap [of "nat n" os a ns b tk] assms by (simp add: same_lines_def list_all_iff)

lemma map_gap_same:
  "0 \<le> n \<Longrightarrow> map_of (map_gap n n (a + 1) (b + 1) m) = map_of m ++ gap_map a b (nat n)"
  by (simp add: map_gap_def map_of_add_gap)

lemma slice_segment:
  "0 \<le> i \<Longrightarrow> 0 \<le> n \<Longrightarrow> i + n \<le> int (length xs) \<Longrightarrow>
   py_slice i (i + n) xs = take (length (py_slice i (i + n) xs)) (drop (nat i) xs) \<and>
   int (length (py_slice i (i + n) xs)) = n"
  by (simp add: py_slice_nonneg)

lemma map_hunks_covers:
  assumes "covers tk os ns 0 a 0 b (map_of m) amb del add"
    and "diff_of os ns a b hunks"
    and "map_hunks tk os ns (a + 1) (b + 1) hunks (m, amb, del, add) = (oc, nc, m', amb', del', add')"
  shows "covers tk os ns 0 (oc - 1) 0 (nc - 1) (map_of m') amb' del' add' \<and>
     diff_of os ns (oc - 1) (nc - 1) []"
  using assms
proof (induction hunks arbitrary: a b m amb del add)
  case Nil
  then show ?case by auto
next
  case (Cons h hs)
  obtain s c t d where h: "h = (s, c, t, d)" by (cases h)
  have ab: "0 \<le> a" "0 \<le> b" using Cons.prems(1) by (auto simp: covers_def)
  define g where "g = s - 1 - a"
  from Cons.prems(2) h have wf: "0 \<le> g" "s - 1 = a + g" "t - 1 = b + g" "0 \<le> c" "0 \<le> d"
    "a + g + c \<le> int (length os)" "b + g + d \<le> int (length ns)"
    "same_lines os ns a b g" "diff_of os ns (a + g + c) (b + g + d) hs"
    by (auto simp: g_def algebra_simps)
  define m1 where "m1 = map_gap g g (a + 1) (b + 1) m"
  define old where "old = py_slice (a + g) (a + g + c) os"
  define new where "new = py_slice (b + g) (b + g + d) ns"
  have seg: "old = take (length old) (drop (nat (a + g)) os)" "int (length old) = c"
    "new = take (length new) (drop (nat (b + g)) ns)" "int (length new) = d"
    using slice_segment [of "a + g" c os] slice_segment [of "b + g" d ns] wf ab
    by (auto simp: old_def new_def)
  obtain m2 amb2 del2 add2 where hunk:
    "map_hunk tk old new (a + g + 1) (b + g + 1) (m1, amb, del, add) = (m2, amb2, del2, add2)"
    by (metis prod_cases4)
  have gap: "covers tk os ns 0 (a + g) 0 (b + g) (map_of m1) amb del add"
    using covers_append [OF Cons.prems(1) covers_same_lines [OF wf(8,1) ab]]
    by (simp add: m1_def map_gap_same wf)
  have step: "covers tk os ns 0 (a + g + c) 0 (b + g + d) (map_of m2) amb2 del2 add2"
    by (rule map_hunk_covers [OF hunk seg(1,3)]) (use wf ab seg covers_append [OF gap] in auto)
  have h': "h = (a + g + 1, c, b + g + 1, d)" using h wf(2,3) by simp
  have pos: "a + g + 1 + c = a + g + c + 1" "b + g + 1 + d = b + g + d + 1"
    "a + g + 1 - (a + 1) = g" "b + g + 1 - (b + 1) = g" by simp_all
  have "map_hunks tk os ns (a + g + c + 1) (b + g + d + 1) hs (m2, amb2, del2, add2) =
      (oc, nc, m', amb', del', add')"
    using Cons.prems(3) unfolding h' map_hunks.simps pos add_diff_cancel_right'
    by (simp only: hunk flip: m1_def old_def new_def)
  from Cons.IH [OF step wf(9) this] show ?case .
qed

lemma covers_empty: "covers tk os ns 0 0 0 0 Map.empty {} {} {}"
  by (simp add: covers_def)

lemma map_hunk_list_covers:
  assumes "diff_of os ns 0 0 hunks" and "map_hunk_list tk os ns hunks = (m, amb, del, add)"
  shows "covers tk os ns 0 (int (length os)) 0 (int (length ns)) (map_of m) amb del add"
proof -
  obtain oc nc m' where run: "map_hunks tk os ns 1 1 hunks ([], {}, {}, {}) = (oc, nc, m', amb, del, add)"
    and m: "m = map_gap (int (length os) + 1 - oc) (int (length ns) + 1 - nc) oc nc m'"
    using assms(2) by (auto simp: map_hunk_list_def split: prod.splits)
  have c: "covers tk os ns 0 (oc - 1) 0 (nc - 1) (map_of m') amb del add"
    and last: "diff_of os ns (oc - 1) (nc - 1) []"
    using map_hunks_covers [of tk os ns 0 0 "[]" "{}" "{}" "{}" hunks] covers_empty assms(1) run by auto
  define n where "n = int (length os) - (oc - 1)"
  have n: "0 \<le> n" "same_lines os ns (oc - 1) (nc - 1) n"
    and e: "int (length os) + 1 - oc = n" "int (length ns) + 1 - nc = n"
    using last by (auto simp: n_def)
  have pos: "0 \<le> oc - 1" "0 \<le> nc - 1" using c by (auto simp: covers_def)
  have "map_of m = map_of m' ++ gap_map (oc - 1) (nc - 1) (nat n)"
    using map_gap_same [OF n(1), of "oc - 1" "nc - 1" m'] m unfolding e by simp
  moreover have "oc - 1 + n = int (length os)" "nc - 1 + n = int (length ns)" using e by auto
  ultimately show ?thesis
    using covers_append [OF c covers_same_lines [OF n(2,1) pos]] by simp
qed

section \<open>The mapping as its clients see it\<close>

text \<open>
  A finished mapping: \<open>mapping_get\<close> hides nothing that \<open>covers\<close> speaks of, since a deleted line
  is never a key and every ambiguous line is deleted.
\<close>

definition accounts_for ::
  "(string \<Rightarrow> string list) \<Rightarrow> string list \<Rightarrow> string list \<Rightarrow> line_mapping \<Rightarrow> bool" where
  "accounts_for tk os ns lm \<longleftrightarrow>
     covers tk os ns 0 (int (length os)) 0 (int (length ns)) (mapping_get lm)
       (ambiguous lm) (deleted lm) (added lm)"

lemma mapping_get_eq:
  assumes "covers tk os ns a a' b b' (map_of (mapping lm)) (ambiguous lm) (deleted lm) (added lm)"
  shows "mapping_get lm = map_of (mapping lm)"
proof
  fix l
  have "l \<in> deleted lm \<or> l \<in> ambiguous lm \<Longrightarrow> map_of (mapping lm) l = None"
    using assms unfolding covers_def by blast
  then show "mapping_get lm l = map_of (mapping lm) l" by (auto simp: mapping_get_def)
qed

lemma map_text_accounts_for:
  "accounts_for tk (split_lines old_text) (split_lines new_text) (map_text sha256 tk old_text new_text)"
  using map_text_covers [of tk old_text new_text sha256]
  by (simp add: accounts_for_def mapping_get_eq)

lemma map_git_diff_accounts_for:
  assumes "\<not> has_rename diff"
    and "diff_of (split_lines old_text) (split_lines new_text) 0 0 (diff_hunks diff)"
  shows "accounts_for tk (split_lines old_text) (split_lines new_text)
     (map_git_diff sha256 tk diff old_text new_text)"
proof -
  obtain m amb del add where run:
    "map_hunk_list tk (split_lines old_text) (split_lines new_text) (diff_hunks diff) = (m, amb, del, add)"
    by (metis prod_cases4)
  then have lm: "map_git_diff sha256 tk diff old_text new_text =
      (LineMapping sha256 m amb del add)\<lparr>fingerprint := sha256 (diff @ repr_to_dict (LineMapping sha256 m amb del add))\<rparr>"
    using assms(1) by (simp add: map_git_diff_def Let_def)
  have "covers tk (split_lines old_text) (split_lines new_text) 0 (int (length (split_lines old_text))) 0
      (int (length (split_lines new_text))) (map_of m) amb del add"
    by (rule map_hunk_list_covers [OF assms(2) run])
  moreover from this have "mapping_get (map_git_diff sha256 tk diff old_text new_text) = map_of m"
    using mapping_get_eq [of tk _ _ _ _ _ _ "map_git_diff sha256 tk diff old_text new_text"]
    by (simp add: lm LineMapping_def)
  ultimately show ?thesis by (simp add: accounts_for_def lm LineMapping_def)
qed

text \<open>The laws the inheritance engine relies on, whichever mapper made the mapping.\<close>

locale line_mapping_contract =
  fixes tk :: "string \<Rightarrow> string list" and os ns :: "string list" and lm :: line_mapping
  assumes accounts: "accounts_for tk os ns lm"
begin

lemma old_lines_partition:
  "dom (mapping_get lm) \<union> deleted lm = {1 .. int (length os)} \<and> dom (mapping_get lm) \<inter> deleted lm = {}"
  using accounts by (auto simp: accounts_for_def covers_def)

lemma new_lines_partition:
  "ran (mapping_get lm) \<union> added lm = {1 .. int (length ns)} \<and> ran (mapping_get lm) \<inter> added lm = {}"
  using accounts by (auto simp: accounts_for_def covers_def)

lemma increasing:
  "mapping_get lm l = Some k \<Longrightarrow> mapping_get lm l' = Some k' \<Longrightarrow> l < l' \<Longrightarrow> k < k'"
  using accounts unfolding accounts_for_def covers_def by blast

lemma injective: "mapping_get lm l = Some k \<Longrightarrow> mapping_get lm l' = Some k \<Longrightarrow> l = l'"
  using increasing [of l k l' k] increasing [of l' k l k] by (metis less_irrefl linorder_neqE)

lemma same_tokens:
  "mapping_get lm l = Some k \<Longrightarrow> tk (os ! nat (l - 1)) = tk (ns ! nat (k - 1))"
  using accounts unfolding accounts_for_def covers_def by blast

lemma ambiguous_deleted: "ambiguous lm \<subseteq> deleted lm"
  using accounts by (auto simp: accounts_for_def covers_def)

end

interpretation text_mapper: line_mapping_contract
  "tokenize" "split_lines old_text" "split_lines new_text" "map_text sha256 tokenize old_text new_text"
  for old_text new_text sha256
  by unfold_locales (rule map_text_accounts_for)

section \<open>Properties\<close>

text \<open>\<open>map_text\<close> accounts for every line of both texts: each old line is mapped or reported
  deleted and never both, each new line is the target of a mapping or reported added and never
  both.\<close>

lemma map_text_partitions_lines:
  "dom (mapping_get (map_text sha256 tokenize old_text new_text)) \<union>
     deleted (map_text sha256 tokenize old_text new_text) = {1 .. int (length (split_lines old_text))} \<and>
   dom (mapping_get (map_text sha256 tokenize old_text new_text)) \<inter>
     deleted (map_text sha256 tokenize old_text new_text) = {} \<and>
   ran (mapping_get (map_text sha256 tokenize old_text new_text)) \<union>
     added (map_text sha256 tokenize old_text new_text) = {1 .. int (length (split_lines new_text))} \<and>
   ran (mapping_get (map_text sha256 tokenize old_text new_text)) \<inter>
     added (map_text sha256 tokenize old_text new_text) = {}"
  using text_mapper.old_lines_partition text_mapper.new_lines_partition by blast

text \<open>C5: a line mapped by \<open>map_text\<close> carries the same C++ tokens on both sides, and mapped lines
  never cross: of two mapped old lines the earlier one has the earlier target, so no two old
  lines share a target.\<close>

theorem map_text_sound:
  assumes "mapping_get (map_text sha256 tokenize old_text new_text) l = Some k"
  shows "normalize_cpp (split_lines old_text ! nat (l - 1)) = normalize_cpp (split_lines new_text ! nat (k - 1)) \<and>
    (\<forall>l' k'. mapping_get (map_text sha256 tokenize old_text new_text) l' = Some k' \<longrightarrow>
       (l < l' \<longleftrightarrow> k < k'))"
proof -
  have "l < l' \<longleftrightarrow> k < k'"
    if k': "mapping_get (map_text sha256 tokenize old_text new_text) l' = Some k'" for l' k'
    using text_mapper.increasing [OF assms k'] text_mapper.increasing [OF k' assms]
      text_mapper.injective [OF assms, of l'] k' assms
    by (cases l l' rule: linorder_cases) auto
  then show ?thesis using text_mapper.same_tokens [OF assms] by (simp add: normalize_cpp_def)
qed

theorem map_text_sound_witness:
  "mapping_get (map_text (\<lambda>s. []) tokenize ''x=1;'' ''x = 1;'') 1 = Some 1 \<and>
   normalize_cpp ''x=1;'' = normalize_cpp ''x = 1;''"
proof -
  have get: "mapping_get (map_text (\<lambda>s. []) tokenize ''x=1;'' ''x = 1;'') 1 = Some 1"
    and lines: "split_lines ''x=1;'' = [''x=1;'']" "split_lines ''x = 1;'' = [''x = 1;'']"
    by code_simp+
  from map_text_sound [OF get] get lines show ?thesis by simp
qed

text \<open>C4: given a diff that describes the two texts (hunks ascending, inside the files, equal
  lines in between) and reports no rename, \<open>map_git_text\<close> also partitions the lines of both
  sides, never crosses, and maps only lines with the same tokens.\<close>

theorem map_git_text_sound:
  assumes "git [''git'', ''-C'', realpath repo, ''diff'', ''--no-ext-diff'', ''--no-renames'',
      ''--unified=0'', old_commit, new_commit, ''--'', path] = Inr diff"
    and "\<not> has_rename diff"
    and "diff_of (split_lines old_text) (split_lines new_text) 0 0 (diff_hunks diff)"
  shows "\<exists>lm. map_git_text git realpath sha256 tokenize repo old_commit new_commit path old_text new_text = Inr lm \<and>
    dom (mapping_get lm) \<union> deleted lm = {1 .. int (length (split_lines old_text))} \<and>
    dom (mapping_get lm) \<inter> deleted lm = {} \<and>
    ran (mapping_get lm) \<union> added lm = {1 .. int (length (split_lines new_text))} \<and>
    ran (mapping_get lm) \<inter> added lm = {} \<and>
    (\<forall>l k. mapping_get lm l = Some k \<longrightarrow>
       normalize_cpp (split_lines old_text ! nat (l - 1)) = normalize_cpp (split_lines new_text ! nat (k - 1))) \<and>
    (\<forall>l k l' k'. mapping_get lm l = Some k \<longrightarrow> mapping_get lm l' = Some k' \<longrightarrow> l < l' \<longrightarrow> k < k')"
proof -
  let ?lm = "map_git_diff sha256 tokenize diff old_text new_text"
  have c: "line_mapping_contract tokenize (split_lines old_text) (split_lines new_text) ?lm"
    by unfold_locales (rule map_git_diff_accounts_for [OF assms(2,3)])
  note laws = line_mapping_contract.old_lines_partition [OF c] line_mapping_contract.new_lines_partition [OF c]
    line_mapping_contract.same_tokens [OF c] line_mapping_contract.increasing [OF c]
  show ?thesis
    by (rule exI [of _ ?lm]) (use assms(1) laws in \<open>auto simp: map_git_text_def normalize_cpp_def\<close>)
qed

theorem map_git_text_sound_witness:
  "\<exists>lm. map_git_text (\<lambda>args. Inr (''@@ -1 +1 @@'' @ [NL] @ ''-x=1;'' @ [NL] @ ''+x = 1;'')) (\<lambda>p. p) (\<lambda>s. s)
       tokenize ''r'' ''a'' ''b'' ''f.c'' ''x=1;'' ''x = 1;'' = Inr lm \<and>
     ran (mapping_get lm) \<union> added lm = {1 .. 1}"
proof -
  let ?d = "''@@ -1 +1 @@'' @ [NL] @ ''-x=1;'' @ [NL] @ ''+x = 1;''"
  have "\<not> has_rename ?d"
    and "diff_of (split_lines ''x=1;'') (split_lines ''x = 1;'') 0 0 (diff_hunks ?d)"
    and "int (length (split_lines ''x = 1;'')) = 1"
    by code_simp+
  with map_git_text_sound [of "\<lambda>args. Inr ?d" "\<lambda>p. p" "''r''" "''a''" "''b''" "''f.c''" ?d
      "''x=1;''" "''x = 1;''" "\<lambda>s. s"]
  show ?thesis by auto
qed

text \<open>\<open>map_git_file\<close> refuses an empty, absolute or parent-traversing path with a
  \<open>ValueError\<close>, whatever Git would answer.\<close>

lemma map_git_file_rejects_unsafe_path:
  assumes "relative_path = [] \<or> starts_with ''/'' relative_path \<or>
     ''..'' \<in> set (py_split (CHR ''/'') relative_path)"
  shows "map_git_file git realpath sha256 tk repo old_commit new_commit relative_path =
     Inl (ValueError ''Git line-map path is not repository-relative'')"
  using assms by (auto simp: map_git_file_def simp del: starts_with.simps)

theorem map_git_file_rejects_unsafe_path_witness:
  "map_git_file (\<lambda>args. Inr ''x'') (\<lambda>p. p) (\<lambda>s. s) tokenize ''r'' ''a'' ''b'' ''src/../x.c'' =
     Inl (ValueError ''Git line-map path is not repository-relative'')"
  by (rule map_git_file_rejects_unsafe_path) simp

text \<open>The lines of \<open>map_git_text\<close> are those of \<open>str.splitlines\<close>, which also breaks at a form
  feed, while Git counts newlines only. Below a form feed the hunk positions then select the
  wrong lines: here Git's line 3 changes from \<open>y=2;\<close> to \<open>y=3;\<close>, and the mapper still maps line 3
  to line 3 because it looked at the lines \<open>x=1;\<close> and \<open>x =1;\<close>.\<close>

lemma map_git_text_form_feed:
  "let old_text = [CHR 0x0C, NL] @ ''x=1;'' @ [NL] @ ''y=2;'' @ [NL];
       new_text = [CHR 0x0C, NL] @ ''x =1;'' @ [NL] @ ''y=3;'' @ [NL];
       diff = ''@@ -2,2 +2,2 @@'' @ [NL] @ ''-x=1;'' @ [NL] @ ''-y=2;'' @ [NL] @ ''+x =1;'' @ [NL] @ ''+y=3;'' @ [NL]
   in mapping_get (map_git_diff sha256 tokenize diff old_text new_text) 3 = Some 3 \<and>
      py_split NL old_text ! 2 = ''y=2;'' \<and> py_split NL new_text ! 2 = ''y=3;''"
proof -
  let ?old = "[CHR 0x0C, NL] @ ''x=1;'' @ [NL] @ ''y=2;'' @ [NL]"
  let ?new = "[CHR 0x0C, NL] @ ''x =1;'' @ [NL] @ ''y=3;'' @ [NL]"
  let ?diff = "''@@ -2,2 +2,2 @@'' @ [NL] @ ''-x=1;'' @ [NL] @ ''-y=2;'' @ [NL] @ ''+x =1;'' @ [NL] @ ''+y=3;'' @ [NL]"
  obtain m amb del add where run:
    "map_hunk_list tokenize (split_lines ?old) (split_lines ?new) (diff_hunks ?diff) = (m, amb, del, add)"
    by (metis prod_cases4)
  have "\<not> has_rename ?diff"
    and "(case map_hunk_list tokenize (split_lines ?old) (split_lines ?new) (diff_hunks ?diff) of
      (m, amb, del, add) \<Rightarrow> map_of m 3 = Some 3 \<and> 3 \<notin> amb \<and> 3 \<notin> del)"
    and "py_split NL ?old ! 2 = ''y=2;''" "py_split NL ?new ! 2 = ''y=3;''"
    by code_simp+
  with run show ?thesis
    by (simp add: map_git_diff_def mapping_get_def LineMapping_def Let_def del: append.simps)
qed

end
