(* ===== verification/GitSnapshot.thy ===== *)
theory GitSnapshot
  imports SymbolIndex Complex_Main
begin

text \<open>
  The Git snapshot provider of \<open>app/inheritance/git_snapshot.py\<close>: the pipe reader with its idle
  time-out, the batch reader of source blobs, the commands of \<open>GitSnapshotProvider\<close> and the lexical
  candidate index. Bytes are characters.

  Git is outside the repository. A running \<open>git cat-file --batch\<close> is the list of what its output
  pipe does next (\<open>pipe_event\<close>); a pipe that does nothing any more never becomes readable. Any other
  command is the function \<open>git\<close> on a state of its own, since a fetch changes what later commands see.
  The clock is a rational number of seconds. \<open>bytes.decode\<close> is the argument \<open>decode\<close>, because a
  decoded text may leave the range of \<open>char\<close>.

  Shown: the reader delivers the same bytes however the pipe cuts them; whatever happens, the files
  that the batch reader yields are complete blobs of the output, in order, and on a well-formed prompt
  output it yields every file; the candidate index has exactly the names followed by a parenthesis in
  the spliced text, so a comment between the two hides a function of the analyser.
\<close>

section \<open>The pipe reader\<close>

text \<open>One wait on the pipe: \<open>lag\<close> passes before the reader looks at the clock. \<open>Ready\<close> gives the time
  until the pipe is readable and what is read then, the empty string at the end of the output.\<close>

datatype pipe_outcome = Ready rat string | ReadError rat string | SelectError string

record pipe_event =
  lag :: rat
  outcome :: pipe_outcome

record pipe_reader =
  pipe :: "pipe_event list"
  idle_timeout :: rat
  deadline :: rat
  buffer :: string
  clock :: rat

definition arm :: "pipe_reader \<Rightarrow> pipe_reader" where
  "arm r = r\<lparr>deadline := clock r + idle_timeout r\<rparr>"

definition DeadlinePipeReader :: "pipe_event list \<Rightarrow> rat \<Rightarrow> rat \<Rightarrow> pipe_reader" where
  "DeadlinePipeReader events timeout now =
     arm \<lparr>pipe = events, idle_timeout = max 0 timeout, deadline = 0, buffer = [], clock = now\<rparr>"

definition batch_timed_out :: py_error where
  "batch_timed_out = GitTechnicalFailure ''git cat-file batch timed out''"

definition read_failed :: "string \<Rightarrow> py_error" where
  "read_failed e = GitTechnicalFailure (''git cat-file batch read failed: '' @ e)"

fun fill_on :: "pipe_outcome \<Rightarrow> rat \<Rightarrow> (pipe_reader, bool) action" where
  "fill_on (SelectError e) remaining r = (Inl (read_failed e), r)"
| "fill_on (ReadError w e) remaining r =
     (if w > remaining then (Inl batch_timed_out, r\<lparr>clock := clock r + remaining\<rparr>)
      else (Inl (read_failed e), r\<lparr>clock := clock r + w\<rparr>))"
| "fill_on (Ready w chunk) remaining r =
     (if w > remaining then (Inl batch_timed_out, r\<lparr>clock := clock r + remaining\<rparr>)
      else if chunk = [] then (Inr False, r\<lparr>clock := clock r + w\<rparr>)
      else (Inr True, r\<lparr>clock := clock r + w, buffer := buffer r @ chunk,
                        deadline := clock r + w + idle_timeout r\<rparr>))"

definition fill_buffer :: "(pipe_reader, bool) action" where
  "fill_buffer r = (case pipe r of
       [] \<Rightarrow> (Inl batch_timed_out, r\<lparr>clock := max (clock r) (deadline r)\<rparr>)
     | e # es \<Rightarrow>
         let r1 = r\<lparr>pipe := es, clock := clock r + lag e\<rparr>; remaining = deadline r1 - clock r1 in
         if remaining \<le> 0 then (Inl batch_timed_out, r1) else fill_on (outcome e) remaining r1)"

lemma fill_on_pipe: "fill_on q t r = (a, r') \<Longrightarrow> pipe r' = pipe r"
  by (cases q) (auto split: if_splits)

lemma fill_shorter:
  assumes "fill_buffer r = (Inr b, r')"
  shows "length (pipe r') < length (pipe r)"
proof (cases "pipe r")
  case (Cons e es)
  with assms show ?thesis by (auto simp: fill_buffer_def Let_def dest!: fill_on_pipe split: if_splits)
qed (use assms in \<open>simp add: fill_buffer_def\<close>)

text \<open>The first line of the buffer with its line feed.\<close>

definition buffered_line :: "string \<Rightarrow> (string \<times> string) option" where
  "buffered_line b = (case dropWhile (\<lambda>c. c \<noteq> NL) b of [] \<Rightarrow> None
     | c # rest \<Rightarrow> Some (takeWhile (\<lambda>c. c \<noteq> NL) b @ [c], rest))"

function read_pipe_line :: "(pipe_reader, string) action" where
  "read_pipe_line r =
     (case buffered_line (buffer r) of
        Some (line, rest) \<Rightarrow> (Inr line, r\<lparr>buffer := rest\<rparr>)
      | None \<Rightarrow> (case fill_buffer r of
            (Inl e, r') \<Rightarrow> (Inl e, r')
          | (Inr True, r') \<Rightarrow> read_pipe_line r'
          | (Inr False, r') \<Rightarrow> (Inr (buffer r'), r'\<lparr>buffer := []\<rparr>)))"
  by pat_completeness auto

termination read_pipe_line
  by (relation "measure (\<lambda>r. length (pipe r))") (auto dest: fill_shorter [OF sym])

declare read_pipe_line.simps [simp del]

definition take_bytes :: "int \<Rightarrow> pipe_reader \<Rightarrow> string result \<times> pipe_reader" where
  "take_bytes n r =
     (let value = py_slice 0 n (buffer r) in (Inr value, r\<lparr>buffer := drop (length value) (buffer r)\<rparr>))"

function read_exact :: "int \<Rightarrow> (pipe_reader, string) action" where
  "read_exact n r =
     (if int (length (buffer r)) < n then
        (case fill_buffer r of
           (Inl e, r') \<Rightarrow> (Inl e, r')
         | (Inr True, r') \<Rightarrow> read_exact n r'
         | (Inr False, r') \<Rightarrow> take_bytes n r')
      else take_bytes n r)"
  by pat_completeness auto

termination read_exact
  by (relation "measure (\<lambda>(n, r). length (pipe r))") (auto dest: fill_shorter [OF sym])

declare read_exact.simps [simp del]

section \<open>The batch reader\<close>

text \<open>A started \<open>git cat-file --batch\<close>: its output pipe, the failure of writing a request, how it ends and its
  error output as text.\<close>

datatype exit_outcome = ExitTimeout | Exited int

record batch_process =
  out_pipe :: "pipe_event list"
  write_error :: "string \<Rightarrow> py_error option"
  exit_status :: exit_outcome
  error_text :: string

text \<open>\<open>bytes.split()\<close> and \<open>int()\<close> on bytes know the ASCII blanks only.\<close>

definition is_ascii_space :: "char \<Rightarrow> bool" where
  "is_ascii_space c \<longleftrightarrow> c \<in> set [CHR 0x09, CHR 0x0A, CHR 0x0B, CHR 0x0C, CHR 0x0D, CHR 0x20]"

fun bytes_words :: "string \<Rightarrow> string list" where
  "bytes_words [] = []"
| "bytes_words (c # s) =
     (if is_ascii_space c then bytes_words s
      else (case s of [] \<Rightarrow> [[c]]
            | d # _ \<Rightarrow> (if is_ascii_space d then [c] # bytes_words s
                       else (case bytes_words s of [] \<Rightarrow> [[c]] | w # ws \<Rightarrow> (c # w) # ws))))"

definition bytes_int :: "string \<Rightarrow> int result" where
  "bytes_int s = (if list_ex (\<lambda>c. is_space c \<and> \<not> is_ascii_space c) s
     then Inl (ValueError ''invalid literal for int()'') else py_int_text s)"

definition blob_failure :: "string \<Rightarrow> string \<Rightarrow> py_error" where
  "blob_failure what path = GitTechnicalFailure (what @ path)"

text \<open>The answer to one request: the header line, the bytes, and the line feed after them.\<close>

definition blob_size :: "string \<Rightarrow> string \<Rightarrow> int result" where
  "blob_size path header =
     (let parts = bytes_words (py_rstrip (\<lambda>c. c = NL) header) in
      if header = [] then Inl (blob_failure ''git cat-file batch ended before '' path)
      else if 2 \<le> length parts \<and> parts ! 1 = ''missing'' then Inl (blob_failure ''source blob is unavailable: '' path)
      else if length parts \<noteq> 3 \<or> parts ! 1 \<noteq> ''blob'' then Inl (blob_failure ''unexpected git object for source: '' path)
      else case bytes_int (parts ! 2) of Inl e \<Rightarrow> Inl (blob_failure ''invalid git blob size for source: '' path) | Inr n \<Rightarrow> Inr n)"

definition read_blob :: "string \<Rightarrow> (pipe_reader, string) action" where
  "read_blob path =
     act_bind read_pipe_line (\<lambda>header r. case blob_size path header of Inl e \<Rightarrow> (Inl e, r) | Inr n \<Rightarrow>
       act_bind (read_exact n) (\<lambda>data. act_bind (read_exact 1) (\<lambda>separator.
         if int (length data) \<noteq> n \<or> separator \<noteq> [NL] then act_raise (blob_failure ''truncated git source blob: '' path)
         else act_return data)) r)"

definition batch_request :: "string \<Rightarrow> string \<Rightarrow> string" where
  "batch_request commit path = commit @ '':'' @ path @ [NL]"

definition finish_batch :: "batch_process \<Rightarrow> unit result" where
  "finish_batch p = (case exit_status p of ExitTimeout \<Rightarrow> Inl batch_timed_out
     | Exited code \<Rightarrow> if code = 0 then Inr ()
         else let message = py_strip is_space (error_text p) in
           Inl (GitTechnicalFailure (''git cat-file batch failed: '' @ (if message = [] then show_int code else message))))"

text \<open>The loop over the paths: what has been yielded, how it ended, and the bytes counted so far.\<close>

fun read_loop :: "(string \<Rightarrow> string + string) \<Rightarrow> batch_process \<Rightarrow> string \<Rightarrow> string list \<Rightarrow> nat \<Rightarrow> pipe_reader \<Rightarrow>
    (string \<times> string) list \<times> unit result \<times> nat" where
  "read_loop decode p commit [] total_bytes r = ([], finish_batch p, total_bytes)"
| "read_loop decode p commit (path # paths) total_bytes r =
     (case write_error p (batch_request commit path) of Some e \<Rightarrow> ([], Inl e, total_bytes) | None \<Rightarrow>
      case read_blob path (arm r) of (Inl e, r') \<Rightarrow> ([], Inl e, total_bytes)
      | (Inr data, r') \<Rightarrow>
          let n = total_bytes + length data in
          case decode data of
            Inl message \<Rightarrow> ([], Inl (GitTechnicalFailure (''source blob is not UTF-8: '' @ path @ '' ('' @ message @ '')'')), n)
          | Inr t \<Rightarrow> (case read_loop decode p commit paths n r' of (ys, res, k) \<Rightarrow> ((path, t) # ys, res, k)))"

definition validate_relative_path :: "string \<Rightarrow> string result" where
  "validate_relative_path path =
     (if starts_with ''/'' path \<or> ''..'' \<in> set (py_split (CHR ''/'') (map (\<lambda>c. if c = BACKSLASH then CHR ''/'' else c) path))
      then Inl (ValueError ''source path must be repository-relative'') else Inr path)"

text \<open>The last component is the byte count handed to \<open>_record_git\<close>, which an empty or refused path list never
  reaches.\<close>

definition read_files :: "(string \<Rightarrow> string + string) \<Rightarrow> batch_process result \<Rightarrow> rat \<Rightarrow> rat \<Rightarrow> string \<Rightarrow> string list \<Rightarrow>
    (string \<times> string) list \<times> unit result \<times> nat option" where
  "read_files decode popen timeout now commit relative_paths =
     (case rmap validate_relative_path relative_paths of Inl e \<Rightarrow> ([], Inl e, None)
      | Inr [] \<Rightarrow> ([], Inr (), None)
      | Inr paths \<Rightarrow> (case popen of Inl e \<Rightarrow> ([], Inl e, Some 0)
          | Inr p \<Rightarrow> (case read_loop decode p commit paths 0 (DeadlinePipeReader (out_pipe p) timeout now) of
              (ys, res, n) \<Rightarrow> (ys, res, Some n))))"

section \<open>What is left to read\<close>

fun event_bytes :: "pipe_outcome \<Rightarrow> string" where
  "event_bytes (Ready w chunk) = chunk"
| "event_bytes _ = []"

definition unread :: "pipe_reader \<Rightarrow> string" where
  "unread r = buffer r @ concat (map (event_bytes \<circ> outcome) (pipe r))"

lemma fill_unread:
  assumes "fill_buffer r = (Inr b, r')"
  shows "unread r' = unread r"
proof (cases "pipe r")
  case (Cons e es)
  with assms show ?thesis
    by (cases "outcome e") (auto simp: fill_buffer_def Let_def unread_def split: if_splits)
qed (use assms in \<open>simp add: fill_buffer_def\<close>)

lemma first_NL:
  assumes "dropWhile (\<lambda>c. c \<noteq> NL) b = c # u"
  shows "c = NL" "takeWhile (\<lambda>c. c \<noteq> NL) b @ NL # u = b"
proof -
  show c: "c = NL" using hd_dropWhile [of "\<lambda>c. c \<noteq> NL" b] assms by simp
  show "takeWhile (\<lambda>c. c \<noteq> NL) b @ NL # u = b"
    using takeWhile_dropWhile_id [of "\<lambda>c. c \<noteq> NL" b] unfolding assms c .
qed

lemma not_before_NL: "NL \<notin> set (takeWhile (\<lambda>c. c \<noteq> NL) b)"
  using set_takeWhileD by fastforce

lemma buffered_line_Some:
  assumes "buffered_line b = Some (line, rest)"
  shows "b = line @ rest" "\<exists>l. line = l @ [NL] \<and> NL \<notin> set l"
proof -
  define l where "l = takeWhile (\<lambda>c. c \<noteq> NL) b"
  from assms obtain c where c: "dropWhile (\<lambda>c. c \<noteq> NL) b = c # rest" "line = l @ [c]"
    by (auto simp: buffered_line_def l_def split: list.splits)
  from first_NL [OF c(1)] c(2) have "b = l @ NL # rest" "line = l @ [NL]" unfolding l_def by simp_all
  then show "b = line @ rest" "\<exists>l. line = l @ [NL] \<and> NL \<notin> set l" using not_before_NL [of b] l_def by simp_all
qed

lemma buffered_line_None: "buffered_line b = None \<longleftrightarrow> NL \<notin> set b"
proof (cases "dropWhile (\<lambda>c. c \<noteq> NL) b")
  case Nil
  then have "NL \<notin> set b" using dropWhile_eq_Nil_conv [THEN iffD1, OF Nil] by blast
  then show ?thesis unfolding buffered_line_def Nil by simp
next
  case (Cons c u)
  have "NL \<in> set (takeWhile (\<lambda>c. c \<noteq> NL) b @ NL # u)" by simp
  then have "NL \<in> set b" unfolding first_NL(2) [OF Cons] .
  with Cons show ?thesis by (simp add: buffered_line_def)
qed

lemma read_line_unread: "read_pipe_line r = (Inr line, r') \<Longrightarrow> unread r = line @ unread r'"
proof (induction r arbitrary: line r' rule: read_pipe_line.induct)
  case (1 r)
  show ?case
  proof (cases "buffered_line (buffer r)")
    case None
    with 1 show ?thesis
      by (subst (asm) (2) read_pipe_line.simps)
         (auto dest!: fill_unread simp: unread_def split: prod.splits sum.splits bool.splits)
  next
    case (Some lr)
    with "1.prems" show ?thesis
      by (subst (asm) read_pipe_line.simps) (auto simp: unread_def dest: buffered_line_Some(1) split: prod.splits)
  qed
qed

lemma take_bytes_unread: "take_bytes n r = (Inr v, r') \<Longrightarrow> unread r = v @ unread r'"
  by (auto simp: take_bytes_def Let_def unread_def py_slice_def slice_bound_def append_take_drop_id) 

lemma read_exact_unread: "read_exact n r = (Inr v, r') \<Longrightarrow> unread r = v @ unread r'"
proof (induction n r arbitrary: v r' rule: read_exact.induct)
  case (1 n r)
  show ?case
  proof (cases "int (length (buffer r)) < n")
    case True
    with 1 show ?thesis
      by (subst (asm) (2) read_exact.simps)
         (auto dest!: fill_unread take_bytes_unread split: prod.splits sum.splits bool.splits)
  next
    case False
    with "1.prems" show ?thesis by (subst (asm) read_exact.simps) (simp add: take_bytes_unread)
  qed
qed

section \<open>Complete blobs\<close>

text \<open>A stretch of output is the answer to requests for the paths with the data given.\<close>

inductive answers :: "(string \<times> string) list \<Rightarrow> string \<Rightarrow> string \<Rightarrow> bool" where
  answers_Nil: "answers [] s s"
| answers_Cons: "blob_size path header = Inr (int (length data)) \<Longrightarrow> answers ps s rest \<Longrightarrow>
    answers ((path, data) # ps) (header @ data @ NL # s) rest"

lemma arm_unread [simp]: "unread (arm r) = unread r"
  by (simp add: arm_def unread_def)

lemma read_blob_unread:
  assumes "read_blob path r = (Inr data, r')"
  shows "\<exists>header. blob_size path header = Inr (int (length data)) \<and> unread r = header @ data @ NL # unread r'"
proof -
  from assms obtain header n r1 r2 where h: "read_pipe_line r = (Inr header, r1)" "blob_size path header = Inr n"
    "read_exact n r1 = (Inr data, r2)" "read_exact 1 r2 = (Inr [NL], r')" "int (length data) = n"
    by (auto simp: read_blob_def act_bind_def act_raise_def act_return_def split: prod.splits sum.splits if_splits)
  from read_line_unread [OF h(1)] read_exact_unread [OF h(3)] read_exact_unread [OF h(4)] h(2,5)
  show ?thesis by auto
qed

lemma read_loop_sound:
  assumes "read_loop decode p commit paths n r = (ys, res, k)"
  shows "\<exists>ds rest. answers (zip (map fst ys) ds) (unread r) rest \<and> list_all2 (\<lambda>d y. decode d = Inr (snd y)) ds ys \<and>
    (\<exists>ps. paths = map fst ys @ ps) \<and> (res = Inr () \<longrightarrow> map fst ys = paths) \<and> n + length (concat ds) \<le> k"
  using assms
proof (induction paths arbitrary: n r ys res k)
  case (Cons path paths)
  show ?case
  proof (cases "ys = []")
    case True
    have "res \<noteq> Inr () \<and> n \<le> k" using Cons.prems True
      by (auto simp: Let_def split: option.splits prod.splits sum.splits)
    then show ?thesis using True answers_Nil by (intro exI [of _ "[]"] exI [of _ "unread r"]) auto
  next
    case False
    with Cons.prems obtain data r1 t ys' where d: "read_blob path (arm r) = (Inr data, r1)" "decode data = Inr t"
      "ys = (path, t) # ys'" "read_loop decode p commit paths (n + length data) r1 = (ys', res, k)"
      by (auto simp: Let_def split: option.splits prod.splits sum.splits)
    from Cons.IH [OF d(4)] obtain ds rest where i: "answers (zip (map fst ys') ds) (unread r1) rest"
      "list_all2 (\<lambda>d y. decode d = Inr (snd y)) ds ys'" "\<exists>ps. paths = map fst ys' @ ps"
      "res = Inr () \<longrightarrow> map fst ys' = paths" "n + length data + length (concat ds) \<le> k" by blast
    from read_blob_unread [OF d(1)] i(1)
    have "answers (zip (map fst ys) (data # ds)) (unread r) rest"
      unfolding d(3) by (auto intro: answers_Cons)
    with i d show ?thesis by (intro exI [of _ "data # ds"] exI [of _ rest]) auto
  qed
next
  case Nil
  then show ?case using answers_Nil by (intro exI [of _ "[]"] exI [of _ "unread r"]) auto
qed

section \<open>A prompt output\<close>

text \<open>Every wait ends with bytes within the idle time.\<close>

definition prompt :: "rat \<Rightarrow> pipe_event \<Rightarrow> bool" where
  "prompt idle e \<longleftrightarrow> lag e < idle \<and>
     (case outcome e of Ready w chunk \<Rightarrow> chunk \<noteq> [] \<and> lag e + w \<le> idle | _ \<Rightarrow> False)"

definition on_time :: "pipe_reader \<Rightarrow> bool" where
  "on_time r \<longleftrightarrow> deadline r = clock r + idle_timeout r \<and> list_all (prompt (idle_timeout r)) (pipe r)"

lemma fill_on_time:
  assumes "on_time r" "pipe r \<noteq> []"
  shows "\<exists>r'. fill_buffer r = (Inr True, r') \<and> on_time r'"
proof -
  from assms obtain e es where e: "pipe r = e # es" "prompt (idle_timeout r) e" "list_all (prompt (idle_timeout r)) es"
    by (cases "pipe r") (auto simp: on_time_def)
  then show ?thesis using assms(1)
    by (auto simp: fill_buffer_def Let_def on_time_def prompt_def algebra_simps split: pipe_outcome.splits)
qed

lemma takeWhile_to_NL: "NL \<notin> set h \<Longrightarrow> takeWhile (\<lambda>c. c \<noteq> NL) (h @ NL # rest) = h"
  by (induction h) auto

lemma line_split_unique: "NL \<notin> set h \<Longrightarrow> NL \<notin> set l \<Longrightarrow> h @ NL # rest = l @ NL # u \<Longrightarrow> l = h"
  by (metis takeWhile_to_NL)

lemma read_line_on_time:
  assumes "on_time r" "unread r = h @ NL # rest" "NL \<notin> set h"
  shows "\<exists>r'. read_pipe_line r = (Inr (h @ [NL]), r') \<and> on_time r' \<and> unread r' = rest"
  using assms
proof (induction r rule: read_pipe_line.induct)
  case (1 r)
  show ?case
  proof (cases "buffered_line (buffer r)")
    case None
    then have "pipe r \<noteq> []" using "1.prems" by (auto simp: unread_def buffered_line_None)
    from fill_on_time [OF "1.prems"(1) this] obtain r1 where f: "fill_buffer r = (Inr True, r1)" "on_time r1" by blast
    then have "unread r1 = h @ NL # rest" using fill_unread [OF f(1)] "1.prems" by simp
    from "1.IH" [OF None f(1) [symmetric] refl _ f(2) this "1.prems"(3)] show ?thesis
      using None f(1) by (subst read_pipe_line.simps) simp
  next
    case (Some lu)
    obtain line u where lu: "lu = (line, u)" by (cases lu)
    then have s: "buffered_line (buffer r) = Some (line, u)" using Some by simp
    let ?r = "r\<lparr>buffer := u\<rparr>"
    have u: "unread r = line @ unread ?r" using buffered_line_Some(1) [OF s] by (simp add: unread_def)
    obtain l where l: "line = l @ [NL]" "NL \<notin> set l" using buffered_line_Some(2) [OF s] by blast
    then have "line = h @ [NL]" using line_split_unique [OF "1.prems"(3) l(2)] u "1.prems"(2) by simp
    then show ?thesis using s u "1.prems"(1,2) by (subst read_pipe_line.simps) (simp add: on_time_def)
  qed
qed

lemma read_exact_on_time:
  assumes "on_time r" "unread r = v @ rest"
  shows "\<exists>r'. read_exact (int (length v)) r = (Inr v, r') \<and> on_time r' \<and> unread r' = rest"
  using assms
proof (induction "int (length v)" r rule: read_exact.induct)
  case (1 r)
  show ?case
  proof (cases "length (buffer r) < length v")
    case True
    then have "pipe r \<noteq> []" using "1.prems" by (auto simp: unread_def)
    from fill_on_time [OF "1.prems"(1) this] obtain r1 where f: "fill_buffer r = (Inr True, r1)" "on_time r1" by blast
    then have "unread r1 = v @ rest" using fill_unread [OF f(1)] "1.prems" by simp
    from "1.hyps" [OF _ f(1) [symmetric] refl _ f(2) this] True show ?thesis
      using f(1) by (subst read_exact.simps) simp
  next
    case False
    then have "take (length v) (buffer r) = v"
      using arg_cong [OF "1.prems"(2), of "take (length v)"] by (simp add: unread_def)
    moreover from this False have "unread (r\<lparr>buffer := drop (length v) (buffer r)\<rparr>) = rest"
      using arg_cong [OF "1.prems"(2), of "drop (length v)"] by (simp add: unread_def)
    moreover have "take_bytes (int (length v)) r = (Inr (take (length v) (buffer r)), r\<lparr>buffer := drop (length v) (buffer r)\<rparr>)"
      using False by (simp add: take_bytes_def py_slice_def slice_bound_def min_absorb2 min_absorb1)
    ultimately show ?thesis using False "1.prems"(1)
      by (subst read_exact.simps) (simp add: on_time_def)
  qed
qed

text \<open>The answer that Git documents for a blob.\<close>

definition blob_header :: "string \<Rightarrow> nat \<Rightarrow> string" where
  "blob_header sha n = sha @ '' blob '' @ show_nat n"

definition blob_answer :: "string \<Rightarrow> string \<Rightarrow> string" where
  "blob_answer sha data = blob_header sha (length data) @ NL # data @ [NL]"

definition object_name :: "string \<Rightarrow> bool" where
  "object_name sha \<longleftrightarrow> sha \<noteq> [] \<and> list_all (\<lambda>c. \<not> is_ascii_space c) sha"

lemma bytes_words_word:
  assumes "w \<noteq> []" "list_all (\<lambda>c. \<not> is_ascii_space c) w"
  shows "bytes_words (w @ CHR '' '' # s) = w # bytes_words s" "bytes_words w = [w]"
proof -
  have "(w \<noteq> [] \<longrightarrow> list_all (\<lambda>c. \<not> is_ascii_space c) w \<longrightarrow> bytes_words (w @ CHR '' '' # s) = w # bytes_words s) \<and>
      (w \<noteq> [] \<longrightarrow> list_all (\<lambda>c. \<not> is_ascii_space c) w \<longrightarrow> bytes_words w = [w])"
  proof (induction w)
    case (Cons c w)
    then show ?case by (cases w) (auto simp: is_ascii_space_def)
  qed simp
  with assms show "bytes_words (w @ CHR '' '' # s) = w # bytes_words s" "bytes_words w = [w]" by auto
qed

lemma ascii_space_is_space: "is_ascii_space c \<Longrightarrow> is_space c"
  by (auto simp: is_ascii_space_def is_space_def)

lemma digits_no_ascii_space: "list_all is_dec_digit s \<Longrightarrow> list_all (\<lambda>c. \<not> is_ascii_space c) s"
  using digits_no_space ascii_space_is_space by (force simp: list_all_iff)

lemma header_words:
  assumes "object_name sha"
  shows "bytes_words (blob_header sha n) = [sha, ''blob'', show_nat n]"
proof -
  have b: "bytes_words (''blob'' @ CHR '' '' # show_nat n) = ''blob'' # bytes_words (show_nat n)"
    by (rule bytes_words_word) (simp_all add: is_ascii_space_def)
  have "bytes_words (show_nat n) = [show_nat n]"
    using show_nat_digits [of n] digits_no_ascii_space by (intro bytes_words_word) auto
  with b bytes_words_word(1) [of sha "''blob'' @ CHR '' '' # show_nat n"] assms
  show ?thesis by (simp add: blob_header_def object_name_def)
qed

lemma no_NL_in: "list_all (\<lambda>c. \<not> is_ascii_space c) s \<Longrightarrow> NL \<notin> set s"
  by (auto simp: list_all_iff is_ascii_space_def)

lemma header_no_NL: "object_name sha \<Longrightarrow> NL \<notin> set (blob_header sha n)"
  using no_NL_in [of sha] no_NL_in [of "show_nat n"] digits_no_ascii_space show_nat_digits [of n]
  by (auto simp: blob_header_def object_name_def)

lemma rstrip_NL: "NL \<notin> set h \<Longrightarrow> py_rstrip (\<lambda>c. c = NL) (h @ [NL]) = h"
  by (cases h rule: rev_cases) (auto simp: py_rstrip_def)

lemma blob_size_header:
  assumes "object_name sha"
  shows "blob_size path (blob_header sha n @ [NL]) = Inr (int n)"
proof -
  have "\<not> list_ex (\<lambda>c. is_space c \<and> \<not> is_ascii_space c) (show_nat n)"
    using digits_no_space show_nat_digits [of n] by (auto simp: list_ex_iff list_all_iff)
  then have "bytes_int (show_nat n) = Inr (int n)" by (simp add: bytes_int_def py_int_text_show)
  then show ?thesis
    by (simp add: blob_size_def rstrip_NL header_no_NL [OF assms] header_words [OF assms])
qed

lemma read_blob_on_time:
  assumes "on_time r" "object_name sha" "unread r = blob_answer sha data @ rest"
  shows "\<exists>r'. read_blob path r = (Inr data, r') \<and> on_time r' \<and> unread r' = rest"
proof -
  have "unread r = blob_header sha (length data) @ NL # (data @ NL # rest)" using assms(3) by (simp add: blob_answer_def)
  from read_line_on_time [OF assms(1) this header_no_NL [OF assms(2)]] obtain r1
    where r1: "read_pipe_line r = (Inr (blob_header sha (length data) @ [NL]), r1)" "on_time r1" "unread r1 = data @ NL # rest" by blast
  from read_exact_on_time [OF r1(2,3)] obtain r2
    where r2: "read_exact (int (length data)) r1 = (Inr data, r2)" "on_time r2" "unread r2 = NL # rest" by blast
  from read_exact_on_time [OF r2(2), of "[NL]" rest] r2(3) obtain r3
    where r3: "read_exact 1 r2 = (Inr [NL], r3)" "on_time r3" "unread r3 = rest" by auto
  from r1 r2 r3 show ?thesis
    by (simp add: read_blob_def act_bind_def act_return_def blob_size_header [OF assms(2)])
qed

lemma arm_on_time: "on_time r \<Longrightarrow> on_time (arm r)"
  by (simp add: on_time_def arm_def)

lemma read_loop_complete:
  assumes "on_time r" "unread r = concat (map (\<lambda>(path, sha, data). blob_answer sha data) blobs) @ rest"
    and "\<forall>(path, sha, data) \<in> set blobs. object_name sha \<and> write_error p (batch_request commit path) = None \<and>
      (\<exists>t. decode data = Inr t)"
  shows "read_loop decode p commit (map fst blobs) n r =
    (map (\<lambda>(path, sha, data). (path, projr (decode data))) blobs, finish_batch p, n + sum_list (map (length \<circ> snd \<circ> snd) blobs))"
  using assms
proof (induction blobs arbitrary: r n)
  case (Cons b blobs)
  obtain path sha data where b: "b = (path, sha, data)" by (metis surj_pair)
  let ?rest = "concat (map (\<lambda>(path, sha, data). blob_answer sha data) blobs) @ rest"
  have "unread (arm r) = blob_answer sha data @ ?rest" using Cons.prems(2) b by simp
  with Cons.prems(1,3) b obtain r1 where r1: "read_blob path (arm r) = (Inr data, r1)" "on_time r1" "unread r1 = ?rest"
    using read_blob_on_time [OF arm_on_time, of r sha data ?rest path] by auto
  from Cons.IH [OF r1(2,3), of "n + length data"] Cons.prems(3) b r1(1) show ?case by (auto simp: Let_def)
qed simp

section \<open>Commands of the provider\<close>

text \<open>How a Git command ends: its output, a non-zero exit status, an operating-system error or a time-out; the
  failures carry the text of the exception.\<close>

datatype git_outcome = Output string | NonZeroExit string | OsFailure string | Expired string

record 'g git_env =
  run_git :: "string list \<Rightarrow> 'g \<Rightarrow> git_outcome \<times> 'g"
  decode_utf8 :: "string \<Rightarrow> string + string"
  decode_locale :: "string \<Rightarrow> string + string"
  real_path :: "string \<Rightarrow> string"

record provider =
  repo_path :: string
  fetch_remote :: "string option"

text \<open>The state of the repository as Git sees it, and the byte counts given to \<open>_record_git\<close> when there is a
  performance recorder.\<close>

record 'g git_state =
  repo_state :: 'g
  git_bytes :: "nat list option"

definition GitSnapshotProvider :: "'g git_env \<Rightarrow> string \<Rightarrow> string option \<Rightarrow> provider" where
  "GitSnapshotProvider env path remote = \<lparr>repo_path = real_path env path, fetch_remote = remote\<rparr>"

definition record_git :: "nat \<Rightarrow> 'g git_state \<Rightarrow> 'g git_state" where
  "record_git n s = s\<lparr>git_bytes := map_option (\<lambda>ns. ns @ [n]) (git_bytes s)\<rparr>"

text \<open>The length of the UTF-8 encoding of a text over U+0000 to U+00FF.\<close>

definition utf8_length :: "string \<Rightarrow> nat" where
  "utf8_length t = (\<Sum>c \<leftarrow> t. if (of_char c :: nat) < 128 then 1 else 2)"

definition git_command :: "'g git_env \<Rightarrow> provider \<Rightarrow> string list \<Rightarrow> 'g git_state \<Rightarrow> git_outcome \<times> 'g git_state" where
  "git_command env pr args s =
     (case run_git env ([''git'', ''-C'', repo_path pr] @ args) (repo_state s) of (out, g) \<Rightarrow> (out, s\<lparr>repo_state := g\<rparr>))"

definition git_run :: "'g git_env \<Rightarrow> provider \<Rightarrow> string list \<Rightarrow> bool \<Rightarrow> bool \<Rightarrow> bool \<Rightarrow> ('g git_state, string) action" where
  "git_run env pr args check strip_output raw_output s =
     (case git_command env pr args s of
        (Output bytes, s1) \<Rightarrow>
          (case (if raw_output then decode_utf8 env bytes else decode_locale env bytes) of
             Inl message \<Rightarrow>
               if raw_output then (Inl (GitTechnicalFailure (''git source blob is not UTF-8: '' @ message)), record_git (length bytes) s1)
               else (Inl (ValueError message), record_git 0 s1)
           | Inr t \<Rightarrow>
               let out = if raw_output then t else normalize_newlines t in
               (Inr (if strip_output then py_strip is_space out else out), record_git (utf8_length out) s1))
      | (NonZeroExit message, s1) \<Rightarrow> (if check then Inl (GitTechnicalFailure message) else Inr [], record_git 0 s1)
      | (OsFailure message, s1) \<Rightarrow> (if check then Inl (GitTechnicalFailure message) else Inr [], record_git 0 s1)
      | (Expired message, s1) \<Rightarrow> (if check then Inl (GitTechnicalFailure message) else Inr [], record_git 0 s1))"

definition commit_available :: "'g git_env \<Rightarrow> provider \<Rightarrow> string \<Rightarrow> ('g git_state, bool) action" where
  "commit_available env pr commit s =
     (case git_command env pr [''cat-file'', ''-e'', commit @ ''^{commit}''] s of
        (Output bytes, s1) \<Rightarrow> (Inr True, record_git 0 s1)
      | (_, s1) \<Rightarrow> (Inr False, record_git 0 s1))"

definition ensure_commit :: "'g git_env \<Rightarrow> provider \<Rightarrow> string \<Rightarrow> ('g git_state, unit) action" where
  "ensure_commit env pr commit =
     act_bind (commit_available env pr commit) (\<lambda>ok.
       if ok then act_return ()
       else act_bind
         (case fetch_remote pr of
            Some remote \<Rightarrow> if remote = [] then act_return []
              else git_run env pr [''fetch'', ''--no-tags'', remote, commit] True True False
          | None \<Rightarrow> act_return [])
         (\<lambda>_. act_bind (commit_available env pr commit) (\<lambda>ok.
           if ok then act_return ()
           else act_raise (GitTechnicalFailure (''required commit is unavailable: '' @ commit)))))"

definition is_ancestor :: "'g git_env \<Rightarrow> provider \<Rightarrow> string \<Rightarrow> string \<Rightarrow> ('g git_state, bool) action" where
  "is_ancestor env pr old_commit new_commit =
     act_bind (ensure_commit env pr old_commit) (\<lambda>_. act_bind (ensure_commit env pr new_commit) (\<lambda>_ s.
       if old_commit = new_commit then (Inr True, s)
       else case git_command env pr [''merge-base'', ''--is-ancestor'', old_commit, new_commit] s of
          (Output bytes, s1) \<Rightarrow> (Inr True, record_git 0 s1)
        | (NonZeroExit message, s1) \<Rightarrow> (Inr False, record_git 0 s1)
        | (OsFailure message, s1) \<Rightarrow> (Inl (GitTechnicalFailure message), record_git 0 s1)
        | (Expired message, s1) \<Rightarrow> (Inl (GitTechnicalFailure message), record_git 0 s1)))"

definition branch :: "'g git_env \<Rightarrow> provider \<Rightarrow> string \<Rightarrow> ('g git_state, string) action" where
  "branch env pr commit = git_run env pr [''show'', ''-s'', ''--format=%D'', commit] False True False"

definition read_file :: "'g git_env \<Rightarrow> provider \<Rightarrow> string \<Rightarrow> string \<Rightarrow> ('g git_state, string) action" where
  "read_file env pr commit relative_path s =
     (case validate_relative_path relative_path of Inl e \<Rightarrow> (Inl e, s)
      | Inr path \<Rightarrow> git_run env pr [''show'', commit @ '':'' @ path] True False True s)"

definition SOURCE_EXTENSIONS :: "string list" where
  "SOURCE_EXTENSIONS = [''.c'', ''.cc'', ''.cpp'', ''.cxx'', ''.h'', ''.hh'', ''.hpp'', ''.hxx'']"

definition ends_with :: "string \<Rightarrow> string \<Rightarrow> bool" where
  "ends_with t s = starts_with (rev t) (rev s)"

definition source_path :: "string \<Rightarrow> bool" where
  "source_path path \<longleftrightarrow> path \<noteq> [] \<and> \<not> starts_with ''/'' path \<and> ''..'' \<notin> set (py_split (CHR ''/'') path) \<and>
     list_ex (\<lambda>x. ends_with x (map to_lower path)) SOURCE_EXTENSIONS"

definition source_paths :: "string \<Rightarrow> string list" where
  "source_paths output =
     sort (remdups (filter source_path
       (map (\<lambda>v. map (\<lambda>c. if c = BACKSLASH then CHR ''/'' else c) (py_strip is_space v)) (py_splitlines output))))"

definition list_source_files :: "'g git_env \<Rightarrow> provider \<Rightarrow> string \<Rightarrow> ('g git_state, string list) action" where
  "list_source_files env pr commit =
     act_bind (git_run env pr [''ls-tree'', ''-r'', ''--name-only'', commit] True True False)
       (\<lambda>output. act_return (source_paths output))"

section \<open>The candidate index\<close>

definition NON_FUNCTION_SYMBOLS :: "string list" where
  "NON_FUNCTION_SYMBOLS = [''if'', ''for'', ''while'', ''switch'', ''catch'', ''return'', ''sizeof'', ''decltype'',
     ''static_cast'', ''dynamic_cast'', ''reinterpret_cast'', ''const_cast'', ''new'', ''delete'']"

text \<open>\<open>\b([A-Za-z_]\w*)\s*\(\<close> at every position, \<open>in_word\<close> saying that the character before is a word
  character.\<close>

fun function_candidates :: "bool \<Rightarrow> string \<Rightarrow> string list" where
  "function_candidates in_word [] = []"
| "function_candidates in_word (c # s) =
     ((if \<not> in_word \<and> is_ident_start c \<and> starts_with ''('' (skip_space (dropWhile is_word s))
       then [c # takeWhile is_word s] else []) @ function_candidates (is_word c) s)"

text \<open>\<open>\b([A-Za-z_]\w*)\b\<close>\<close>

fun identifiers :: "bool \<Rightarrow> string \<Rightarrow> string list" where
  "identifiers in_word [] = []"
| "identifiers in_word (c # s) =
     ((if \<not> in_word \<and> is_ident_start c then [c # takeWhile is_word s] else []) @ identifiers (is_word c) s)"

text \<open>\<open>\b(?:const|constexpr)\b[^;]*(?:;|$)\<close> in one line: the identifiers of every match.\<close>

function constant_candidates :: "bool \<Rightarrow> string \<Rightarrow> string list" where
  "constant_candidates in_word [] = []"
| "constant_candidates in_word (c # s) =
     (if \<not> in_word \<and> takeWhile is_word (c # s) \<in> set [''const'', ''constexpr''] then
        identifiers False (takeWhile (\<lambda>x. x \<noteq> CHR '';'') (c # s)) @
        constant_candidates False (drop 1 (dropWhile (\<lambda>x. x \<noteq> CHR '';'') s))
      else constant_candidates (is_word c) s)"
  by pat_completeness auto

termination constant_candidates
  by (relation "measure (length \<circ> snd)") (auto simp: less_Suc_eq_le intro: le_trans [OF diff_le_self] length_dropWhile_le)

definition add_candidate :: "string \<Rightarrow> string \<Rightarrow> (string \<times> string list) list \<Rightarrow> (string \<times> string list) list" where
  "add_candidate path name d = (if name = [] \<or> name \<in> set NON_FUNCTION_SYMBOLS then d else dict_add name path d)"

definition logical_source :: "string \<Rightarrow> string list" where
  "logical_source t = map (snd \<circ> snd) (logical_lines (py_split NL (normalize_newlines t)))"

definition index_file :: "string \<times> string \<Rightarrow> string list candidate_index \<Rightarrow> string list candidate_index" where
  "index_file = (\<lambda>(path, t) d.
     let ls = logical_source t in
     d\<lparr>cand_functions := fold (add_candidate path) (function_candidates False (py_join [NL] ls)) (cand_functions d),
       cand_macros := fold (add_candidate path) (concat (map (\<lambda>l. case macro_at l of None \<Rightarrow> [] | Some (name, v) \<Rightarrow> [name]) ls)) (cand_macros d),
       cand_constants := fold (add_candidate path) (concat (map (constant_candidates False) ls)) (cand_constants d)\<rparr>)"

definition sorted_candidates :: "string list candidate_index \<Rightarrow> raw_paths candidate_index" where
  "sorted_candidates d =
     \<lparr>cand_functions = map (\<lambda>(n, ps). (n, PathList (sort ps))) (cand_functions d),
      cand_macros = map (\<lambda>(n, ps). (n, PathList (sort ps))) (cand_macros d),
      cand_constants = map (\<lambda>(n, ps). (n, PathList (sort ps))) (cand_constants d)\<rparr>"

definition build_symbol_candidate_index ::
  "'g git_env \<Rightarrow> (string list \<Rightarrow> batch_process result) \<Rightarrow> provider \<Rightarrow> rat \<Rightarrow> rat \<Rightarrow> string \<Rightarrow> string list \<Rightarrow>
   ('g git_state, raw_paths candidate_index) action" where
  "build_symbol_candidate_index env popen pr timeout now commit paths =
     act_bind (if paths = [] then list_source_files env pr commit else act_return paths) (\<lambda>ps s.
       case read_files (decode_utf8 env) (popen [''git'', ''-C'', repo_path pr, ''cat-file'', ''--batch'']) timeout now commit ps of
         (files, res, n) \<Rightarrow>
           let s1 = (case n of None \<Rightarrow> s | Some k \<Rightarrow> record_git k s) in
           (case res of Inl e \<Rightarrow> (Inl e, s1)
            | Inr _ \<Rightarrow> (Inr (sorted_candidates (fold index_file files empty_candidate_index)), s1)))"

section \<open>What the candidate index holds\<close>

text \<open>An identifier that starts a word and is followed by an opening parenthesis, blanks between them allowed.\<close>

definition called_in :: "bool \<Rightarrow> string \<Rightarrow> string \<Rightarrow> bool" where
  "called_in in_word s name \<longleftrightarrow> is_call_name name \<and>
     (\<exists>before blanks after. s = before @ name @ blanks @ ''('' @ after \<and> list_all is_space blanks \<and>
        (if before = [] then \<not> in_word else \<not> is_word (last before)))"

lemma space_no_word: "is_space c \<Longrightarrow> \<not> is_word c"
  unfolding is_space_def by (auto simp: is_word_def is_ident_char_def is_ident_start_def is_dec_digit_def Let_def)

lemma paren_no_word: "\<not> is_word (CHR ''('')" "\<not> is_space (CHR ''('')"
  by (auto simp: is_word_def is_ident_char_def is_ident_start_def is_dec_digit_def Let_def is_space_def)

lemma word_then_call:
  "list_all is_word r \<Longrightarrow> list_all is_space b \<Longrightarrow>
   takeWhile is_word (r @ b @ ''('' @ a) = r \<and> skip_space (dropWhile is_word (r @ b @ ''('' @ a)) = ''('' @ a"
proof (induction r)
  case Nil
  then show ?case by (cases b) (auto simp: skip_space_def paren_no_word space_no_word list_all_iff dropWhile_append2)
qed simp

lemma blanks_skipped: "\<exists>b. s = b @ skip_space s \<and> list_all is_space b"
  unfolding skip_space_def by (metis takeWhile_dropWhile_id list_all_iff set_takeWhileD)

lemma called_at_front:
  "(\<exists>b a. c # s = name @ b @ ''('' @ a \<and> list_all is_space b) \<and> is_call_name name \<longleftrightarrow>
   is_ident_start c \<and> starts_with ''('' (skip_space (dropWhile is_word s)) \<and> name = c # takeWhile is_word s"
  (is "?l \<longleftrightarrow> ?r")
proof
  assume ?l
  then obtain b a r where "name = c # r" "s = r @ b @ ''('' @ a" "list_all is_space b" "is_ident_start c" "list_all is_word r"
    by (cases name) (auto simp: is_call_name_def)
  then show ?r using word_then_call [of r b a] by simp
next
  assume r: ?r
  define t where "t = dropWhile is_word s"
  obtain b where b: "t = b @ skip_space t" "list_all is_space b" using blanks_skipped by blast
  from r obtain a where a: "skip_space t = ''('' @ a" unfolding t_def by (cases "skip_space (dropWhile is_word s)") auto
  have "s = takeWhile is_word s @ t" unfolding t_def by simp
  then have "c # s = (c # takeWhile is_word s) @ b @ ''('' @ a" using b(1) a by simp
  moreover have "is_call_name (c # takeWhile is_word s)" using r by (auto simp: is_call_name_def list_all_iff dest: set_takeWhileD)
  ultimately show ?l using r b(2) by blast
qed

lemma called_in_Cons:
  "called_in w (c # s) name \<longleftrightarrow>
   \<not> w \<and> is_ident_start c \<and> starts_with ''('' (skip_space (dropWhile is_word s)) \<and> name = c # takeWhile is_word s \<or>
   called_in (is_word c) s name"
proof -
  have "called_in w (c # s) name \<longleftrightarrow>
      \<not> w \<and> (\<exists>b a. c # s = name @ b @ ''('' @ a \<and> list_all is_space b) \<and> is_call_name name \<or> called_in (is_word c) s name"
    (is "?l \<longleftrightarrow> ?m \<or> ?r")
  proof
    assume ?l
    then obtain u b a where u: "c # s = u @ name @ b @ ''('' @ a" "list_all is_space b" "is_call_name name"
      "if u = [] then \<not> w else \<not> is_word (last u)" by (auto simp: called_in_def)
    show "?m \<or> ?r"
    proof (cases u)
      case Nil
      with u show ?thesis by auto
    next
      case (Cons d v)
      with u have "s = v @ name @ b @ ''('' @ a" "if v = [] then \<not> is_word c else \<not> is_word (last v)" by (auto split: if_splits)
      with u show ?thesis unfolding called_in_def by blast
    qed
  next
    assume m: "?m \<or> ?r"
    show ?l
    proof (cases ?m)
      case True
      then obtain b a where "c # s = [] @ name @ b @ ''('' @ a" "list_all is_space b" "is_call_name name" "\<not> w" by auto
      then show ?thesis unfolding called_in_def by (intro conjI exI [of _ "[]"] exI [of _ b] exI [of _ a]) auto
    next
      case False
      with m obtain v b a where v: "s = v @ name @ b @ ''('' @ a" "list_all is_space b" "is_call_name name"
        "if v = [] then \<not> is_word c else \<not> is_word (last v)" by (auto simp: called_in_def)
      then show ?thesis unfolding called_in_def
        by (intro conjI exI [of _ "c # v"] exI [of _ b] exI [of _ a]) (auto split: if_splits)
    qed
  qed
  then show ?thesis using called_at_front by blast
qed

lemma function_candidates_iff: "name \<in> set (function_candidates w s) \<longleftrightarrow> called_in w s name"
proof (induction s arbitrary: w)
  case Nil
  show ?case by (auto simp: called_in_def is_call_name_def)
next
  case (Cons c s)
  then show ?case unfolding called_in_Cons by auto
qed

lemma dict_get_add_candidates:
  "q \<in> set (dict_get (fold (add_candidate path) names d) n []) \<longleftrightarrow>
   q \<in> set (dict_get d n []) \<or> q = path \<and> n \<in> set names \<and> n \<noteq> [] \<and> n \<notin> set NON_FUNCTION_SYMBOLS"
  by (induction names arbitrary: d) (auto simp: add_candidate_def dict_get_def map_of_dict_add split: option.split)

lemma indexed_functions:
  "q \<in> set (dict_get (cand_functions (fold index_file files d)) n []) \<longleftrightarrow>
   q \<in> set (dict_get (cand_functions d) n []) \<or>
   (n \<notin> set NON_FUNCTION_SYMBOLS \<and> (\<exists>t. (q, t) \<in> set files \<and> called_in False (py_join [NL] (logical_source t)) n))"
proof (induction files arbitrary: d)
  case (Cons f files)
  have "called_in False s n \<Longrightarrow> n \<noteq> []" for s by (auto simp: called_in_def is_call_name_def)
  then show ?case unfolding fold_Cons comp_apply Cons.IH
    by (cases f) (auto simp: index_file_def Let_def dict_get_add_candidates function_candidates_iff)
qed simp

lemma dict_get_map: "dict_get (map (\<lambda>(n, ps). (n, f ps)) d) n [] = (case map_of d n of None \<Rightarrow> [] | Some v \<Rightarrow> f v)"
  by (cases "map_of d n") (simp_all add: dict_get_def map_of_map)

lemma candidates_sorted:
  "q \<in> set (candidates Functions n (normalize_candidate_index (Some (sorted_candidates d)))) \<longleftrightarrow>
   q \<noteq> [] \<and> q \<in> set (dict_get (cand_functions d) n [])"
proof -
  have "candidates Functions n (normalize_candidate_index (Some (sorted_candidates d))) =
      dict_get (map (\<lambda>(n, ps). (n, normal_paths (PathList (sort ps)))) (cand_functions d)) n []"
    by (simp add: candidates_def normalize_candidate_index_def sorted_candidates_def case_prod_unfold comp_def)
  then show ?thesis
    unfolding dict_get_map by (auto simp: dict_get_def normal_paths_def split: option.split)
qed

definition pipe_output :: "batch_process \<Rightarrow> string" where
  "pipe_output p = concat (map (event_bytes \<circ> outcome) (out_pipe p))"

lemma fresh_reader: "unread (DeadlinePipeReader (out_pipe p) timeout now) = pipe_output p"
  by (simp add: unread_def DeadlinePipeReader_def arm_def pipe_output_def)

lemma validated_paths: "rmap validate_relative_path paths = Inr qs \<Longrightarrow> qs = paths"
  by (induction paths arbitrary: qs) (auto simp: validate_relative_path_def split: if_splits)

section \<open>Properties\<close>

text \<open>A commit that \<open>ensure_commit\<close> lets through is available in the state it leaves.\<close>

lemma ensure_commit_available:
  assumes "ensure_commit env pr commit s = (Inr (), s')"
  shows "\<exists>s0. commit_available env pr commit s0 = (Inr True, s')"
  using assms by (auto simp: ensure_commit_def act_bind_def act_return_def act_raise_def split: prod.splits sum.splits if_splits option.splits)

text \<open>C23: whatever the pipe does (cut bytes anywhere, stall, end, fail), the files that \<open>read_files\<close> yields are the
  leading paths of the request, each with the decoded data of one complete blob of the output, in order and
  without a byte lost between them; when it ends without an exception, every path has been yielded.\<close>

theorem read_files_whole_blobs:
  assumes "read_files decode (Inr p) timeout now commit paths = (ys, res, n)"
  shows "\<exists>ds rest. answers (zip (map fst ys) ds) (pipe_output p) rest \<and>
    list_all2 (\<lambda>d y. decode d = Inr (snd y)) ds ys \<and> (\<exists>ps. paths = map fst ys @ ps) \<and>
    (res = Inr () \<longrightarrow> map fst ys = paths)"
proof (cases "rmap validate_relative_path paths")
  case (Inl e)
  then show ?thesis using assms answers_Nil by (intro exI [of _ "[]"] exI [of _ "pipe_output p"]) (auto simp: read_files_def)
next
  case (Inr qs)
  note q = validated_paths [OF Inr]
  show ?thesis
  proof (cases qs)
    case Nil
    then show ?thesis using assms Inr q answers_Nil by (intro exI [of _ "[]"] exI [of _ "pipe_output p"]) (auto simp: read_files_def)
  next
    case (Cons a as)
    with assms Inr q obtain k where "read_loop decode p commit paths 0 (DeadlinePipeReader (out_pipe p) timeout now) = (ys, res, k)"
      by (auto simp: read_files_def split: prod.splits)
    from read_loop_sound [OF this] show ?thesis by (auto simp: fresh_reader)
  qed
qed

text \<open>C24: however the pipe cuts the output of Git, a reader that is never kept waiting longer than the idle time-out
  gets every file: from the documented answers to its requests \<open>read_files\<close> yields each path with its decoded
  data, ends as the process ends, and counts the bytes of all blobs.\<close>

theorem read_files_complete:
  assumes "blobs \<noteq> []"
    and "pipe_output p = concat (map (\<lambda>(path, sha, data). blob_answer sha data) blobs)"
    and "list_all (prompt (max 0 timeout)) (out_pipe p)"
    and "\<forall>(path, sha, data) \<in> set blobs. object_name sha \<and> write_error p (batch_request commit path) = None \<and>
      (\<exists>t. decode data = Inr t) \<and> validate_relative_path path = Inr path"
  shows "read_files decode (Inr p) timeout now commit (map fst blobs) =
    (map (\<lambda>(path, sha, data). (path, projr (decode data))) blobs, finish_batch p,
     Some (sum_list (map (length \<circ> snd \<circ> snd) blobs)))"
proof -
  let ?r = "DeadlinePipeReader (out_pipe p) timeout now"
  have "on_time ?r" using assms(3) by (simp add: on_time_def DeadlinePipeReader_def arm_def)
  moreover have "unread ?r = concat (map (\<lambda>(path, sha, data). blob_answer sha data) blobs) @ []"
    using assms(2) by (simp add: fresh_reader)
  moreover have "\<forall>(path, sha, data) \<in> set blobs. object_name sha \<and> write_error p (batch_request commit path) = None \<and>
      (\<exists>t. decode data = Inr t)" using assms(4) by auto
  ultimately have l: "read_loop decode p commit (map fst blobs) 0 ?r =
      (map (\<lambda>(path, sha, data). (path, projr (decode data))) blobs, finish_batch p, 0 + sum_list (map (length \<circ> snd \<circ> snd) blobs))"
    by (rule read_loop_complete)
  have "rmap validate_relative_path (map fst blobs) = Inr (map fst blobs)"
    using assms(4) by (induction blobs) auto
  with assms(1) l show ?thesis by (cases blobs) (simp_all add: read_files_def)
qed

text \<open>In the candidate index of the files read, a path is a candidate for a function name exactly when the
  spliced text of that file has the name as a word followed by an opening parenthesis, with at most blanks
  between, and the name is not one of the excluded keywords.\<close>

lemma candidate_functions_exact:
  "path \<in> set (candidates Functions name (normalize_candidate_index (Some (sorted_candidates (fold index_file files empty_candidate_index))))) \<longleftrightarrow>
   path \<noteq> [] \<and> name \<notin> set NON_FUNCTION_SYMBOLS \<and>
   (\<exists>t. (path, t) \<in> set files \<and> called_in False (py_join [NL] (logical_source t)) name)"
  unfolding candidates_sorted indexed_functions by (auto simp: empty_candidate_index_def)

section \<open>Examples\<close>

definition demo_process :: batch_process where
  "demo_process = \<lparr>out_pipe = map (\<lambda>c. \<lparr>lag = 0, outcome = Ready 1 c\<rparr>)
       [''d0 bl'', ''ob 3'' @ [NL] @ ''i'', ''n'', ''t'' @ [NL] @ ''d1 blob 0'' @ [NL, NL]],
     write_error = (\<lambda>request. None), exit_status = Exited 0, error_text = []\<rparr>"

theorem read_files_whole_blobs_witness:
  "\<exists>ds rest. answers (zip [''a.c'', ''b.c''] ds) (pipe_output demo_process) rest \<and>
     list_all2 (\<lambda>d y. Inr d = (Inr (snd y) :: string + string)) ds [(''a.c'', ''int''), (''b.c'', [])]"
proof -
  have "read_files Inr (Inr demo_process) 2 0 ''c0'' [''a.c'', ''b.c''] = ([(''a.c'', ''int''), (''b.c'', [])], Inr (), Some 3)"
    by code_simp
  from read_files_whole_blobs [OF this] show ?thesis by auto
qed

theorem read_files_complete_witness:
  "read_files Inr (Inr demo_process) 2 0 ''c0'' [''a.c'', ''b.c''] = ([(''a.c'', ''int''), (''b.c'', [])], Inr (), Some 3)"
proof -
  let ?blobs = "[(''a.c'', ''d0'', ''int''), (''b.c'', ''d1'', [])]"
  have "pipe_output demo_process = concat (map (\<lambda>(path, sha, data). blob_answer sha data) ?blobs)"
    "list_all (prompt (max 0 2)) (out_pipe demo_process)" "finish_batch demo_process = Inr ()"
    "list_all (\<lambda>(path, sha, data). object_name sha \<and> write_error demo_process (batch_request ''c0'' path) = None \<and>
      validate_relative_path path = Inr path) ?blobs" by code_simp+
  with read_files_complete [of ?blobs demo_process 2 "''c0''" "Inr" 0] show ?thesis by (simp add: list_all_iff)
qed

definition commented_source :: string where
  "commented_source = ''int f/* callee */() {'' @ [NL] @ ''return 1;'' @ [NL] @ ''}''"

definition commented_env :: "unit index_env" where
  "commented_env = \<lparr>loader = Some (\<lambda>p. Loaded (analyze commented_source p) (Some 1)),
     cand_loader = Some (Some (sorted_candidates (fold index_file [(''a.c'', commented_source)] empty_candidate_index))),
     analysis_size = (\<lambda>a. 1), index_size = (\<lambda>c. 1), entry_size = (\<lambda>e. 1), on_cache_change = None\<rparr>"

text \<open>A comment between the name of a function and its parameter list hides the function: the analyser finds
  \<open>f\<close> in the file, the candidate index has no path for \<open>f\<close>, and the lookup through the symbol index returns no
  function and sets no flag, which the dependency check takes for a call of a library function.\<close>

lemma comment_hides_function:
  "let ix = LazySourceAnalysisIndex commented_env [''a.c''] [] 10 [] None 10 ();
       (fs, ix') = lazy_functions commented_env ''f'' None ix in
   list_ex (\<lambda>f. id_name (identity f) = ''f'' \<and> \<not> uncertain f) (a_functions (analyze commented_source ''a.c'')) \<and>
   fs = [] \<and> \<not> budget_exhausted ix' \<and> \<not> memory_budget_exhausted ix' \<and> \<not> candidate_index_unavailable ix'"
  by code_simp

text \<open>Git prints a path with a byte outside ASCII in quotes with octal escapes; such a line does not end in a source
  extension, so the file is left out of the repository's source files.\<close>

lemma quoted_path_left_out:
  "source_paths (''a.c'' @ [NL] @ DQUOTE # BACKSLASH # ''303'' @ BACKSLASH # ''251.c'' @ [DQUOTE]) = [''a.c'']"
  by code_simp

end
