(* ===== verification/RelationDecision.thy ===== *)
theory RelationDecision
  imports Dependencies SourceCache LineMap GitSnapshot
begin

text \<open>
  What \<open>InheritanceEngine\<close> of \<open>app/inheritance/engine.py\<close> does for one reviewed line: the snapshot of
  its file in the two commits (\<open>_snapshot_for_relation\<close>), the mapped line and the comparison
  (\<open>run\<close> and \<open>_persist_relation_decision\<close>), and the range of the block it is attached to
  (\<open>_candidate_block_for_relation\<close>); also the choice of the predecessor repositories of
  \<open>app/inheritance/predecessor.py\<close> and the callback between a symbol index and the engine's cache. Rows
  of the database are records; writing the decision is left out.

  The state is the engine's caches together with the repository as Git sees it. The file lists that
  \<open>_source_index\<close> asks the provider for are the function \<open>files\<close>, as in the model of the caches.

  Shown: a snapshot is handed out only for verified commits of one branch, the old one an ancestor of
  the new one, with both indexes cached; a mapped line then never fails for changed code, so it
  inherits exactly when the context conditions hold; the block range is the maximal run of lines that
  the mapping reaches from the source block.
\<close>

section \<open>Predecessors\<close>

record repository_pair =
  candidate_repository :: "string option"
  candidate_branch :: "string option"
  predecessor_branch :: "string option"
  predecessor_repository_id :: "int option"

definition or_empty :: "string option \<Rightarrow> string" where
  "or_empty v = (case v of None \<Rightarrow> [] | Some s \<Rightarrow> s)"

definition pair_reason :: "repository_pair \<Rightarrow> string" where
  "pair_reason row =
     (let c = py_strip is_space (or_empty (candidate_branch row)); p = py_strip is_space (or_empty (predecessor_branch row)) in
      if predecessor_repository_id row \<in> {None, Some 0} then ''NO_PREDECESSOR''
      else if c = [] \<or> p = [] \<or> c \<noteq> p then ''BRANCH_MISMATCH''
      else ''READY'')"

record resolution =
  status :: string
  predecessor_scan_id :: "int option"
  repositories :: "(repository_pair \<times> string) list"

text \<open>\<open>scans\<close> gives the predecessor and the project of a scan, \<open>rows\<close> the joined repository rows.\<close>

definition resolve :: "(int \<Rightarrow> (int option \<times> int) option) \<Rightarrow> (int \<Rightarrow> int \<Rightarrow> repository_pair list) \<Rightarrow> int \<Rightarrow> string option \<Rightarrow>
    resolution result" where
  "resolve scans rows candidate repository_name =
     (case scans candidate of
        None \<Rightarrow> Inl (KeyError ''candidate scan not found'')
      | Some (predecessor_id, project) \<Rightarrow>
          (case predecessor_id of
             None \<Rightarrow> Inr \<lparr>status = ''NO_PREDECESSOR'', predecessor_scan_id = None, repositories = []\<rparr>
           | Some p \<Rightarrow>
               if p = 0 then Inr \<lparr>status = ''NO_PREDECESSOR'', predecessor_scan_id = None, repositories = []\<rparr>
               else if (case scans p of None \<Rightarrow> True | Some (_, other) \<Rightarrow> other \<noteq> project)
               then Inr \<lparr>status = ''NO_PREDECESSOR'', predecessor_scan_id = Some p, repositories = []\<rparr>
               else let chosen = filter (\<lambda>r. case repository_name of None \<Rightarrow> True | Some n \<Rightarrow> or_empty (candidate_repository r) = n) (rows p candidate);
                        reasons = map pair_reason chosen in
                 Inr \<lparr>status = (if ''READY'' \<in> set reasons then ''READY'' else case reasons of [] \<Rightarrow> ''NO_PREDECESSOR'' | r # _ \<Rightarrow> r),
                      predecessor_scan_id = Some p, repositories = zip chosen reasons\<rparr>))"

section \<open>The snapshot of a file\<close>

record snapshot_row =
  branch_name :: "string option"
  commit_sha :: "string option"
  identity_verified :: "int option"
  canonical_remote :: "string option"

record relation =
  file_path :: string
  repository_name :: "string option"
  source_line_number :: int
  source_line_text :: string
  analysis_block_id :: int
  block_identity_verified :: int
  block_start_line :: int
  block_end_line :: int

record source_snapshot =
  old_text :: string
  new_text :: string
  snapshot_mapping :: line_mapping
  old_index :: "nat option"
  new_index :: "nat option"

datatype snapshot = Refused string | Snapshot source_snapshot

type_synonym 'g engine_state = "engine_cache \<times> 'g git_state"

definition with_git :: "('g git_state, 'a) action \<Rightarrow> ('g engine_state, 'a) action" where
  "with_git a = (\<lambda>(es, gs). case a gs of (r, gs') \<Rightarrow> (r, es, gs'))"

definition with_cache :: "(engine_cache, 'a) action \<Rightarrow> ('g engine_state, 'a) action" where
  "with_cache a = (\<lambda>(es, gs). case a es of (r, es') \<Rightarrow> (r, es', gs))"

definition given :: "string option \<Rightarrow> bool" where
  "given v \<longleftrightarrow> v \<noteq> None \<and> v \<noteq> Some []"

definition is_set :: "int option \<Rightarrow> bool" where
  "is_set v \<longleftrightarrow> v \<noteq> None \<and> v \<noteq> Some 0"

definition first_given :: "string option \<Rightarrow> string option \<Rightarrow> string option" where
  "first_given a b = (if given a then a else if given b then b else None)"

text \<open>The exceptions that the engine turns into its own; the others pass through.\<close>

definition technical :: "py_error \<Rightarrow> py_error" where
  "technical e = (case e of GitTechnicalFailure m \<Rightarrow> InheritanceTechnicalFailure m
     | OSError m \<Rightarrow> InheritanceTechnicalFailure m | FileNotFoundError m \<Rightarrow> InheritanceTechnicalFailure m
     | TimeoutError m \<Rightarrow> InheritanceTechnicalFailure m | ValueError m \<Rightarrow> InheritanceTechnicalFailure m
     | _ \<Rightarrow> e)"

definition catch_technical :: "('s, 'a) action \<Rightarrow> ('s, 'a) action" where
  "catch_technical a s = (case a s of (Inl e, t) \<Rightarrow> (Inl (technical e), t) | r \<Rightarrow> r)"

text \<open>The answer of Git to the line mapper, which runs its command with \<open>subprocess\<close> itself.\<close>

definition diff_answer :: "'g git_env \<Rightarrow> 'g \<Rightarrow> string list \<Rightarrow> string result" where
  "diff_answer env g args = (case fst (run_git env args g) of
       Output bytes \<Rightarrow> (case decode_locale env bytes of Inl m \<Rightarrow> Inl (ValueError m) | Inr t \<Rightarrow> Inr (normalize_newlines t))
     | NonZeroExit m \<Rightarrow> Inl CalledProcessError | OsFailure m \<Rightarrow> Inl (OSError m) | Expired m \<Rightarrow> Inl TimeoutExpired)"

definition diff_args :: "'g git_env \<Rightarrow> string \<Rightarrow> string \<Rightarrow> string \<Rightarrow> string \<Rightarrow> string list" where
  "diff_args env repo old_commit new_commit path = [''git'', ''-C'', real_path env repo, ''diff'', ''--no-ext-diff'',
     ''--no-renames'', ''--unified=0'', old_commit, new_commit, ''--'', path]"

definition map_snapshot :: "'g git_env \<Rightarrow> (string \<Rightarrow> string) \<Rightarrow> string \<Rightarrow> string \<Rightarrow> string \<Rightarrow> string \<Rightarrow> string \<Rightarrow> string \<Rightarrow>
    ('g git_state, line_mapping) action" where
  "map_snapshot env sha256 repo old_commit new_commit path old new s =
     (map_git_text (diff_answer env (repo_state s)) (real_path env) sha256 tokenize repo old_commit new_commit path old new,
      s\<lparr>repo_state := snd (run_git env (diff_args env repo old_commit new_commit path) (repo_state s))\<rparr>)"

definition cached_ancestry :: "'g git_env \<Rightarrow> provider \<Rightarrow> string \<Rightarrow> string \<Rightarrow> ('g engine_state, bool) action" where
  "cached_ancestry env pr old_commit new_commit = (\<lambda>(es, gs).
     let key = (repo_path pr, old_commit, new_commit) in
     case map_of (ancestry es) key of
       Some v \<Rightarrow> with_cache (ancestry_answer (\<lambda>_. Inr v) key) (es, gs)
     | None \<Rightarrow> act_bind (with_git (is_ancestor env pr old_commit new_commit))
         (\<lambda>v. with_cache (ancestry_answer (\<lambda>_. Inr v) key)) (es, gs))"

definition snapshot_texts :: "'g git_env \<Rightarrow> (string \<Rightarrow> string) \<Rightarrow> provider \<Rightarrow> string \<Rightarrow> string \<Rightarrow> string \<Rightarrow> string \<Rightarrow>
    ('g engine_state, string \<times> string \<times> line_mapping) action" where
  "snapshot_texts env sha256 pr repo old_commit new_commit path =
     act_bind (with_git (read_file env pr old_commit path)) (\<lambda>old.
     act_bind (with_git (read_file env pr new_commit path)) (\<lambda>new.
     act_bind (with_git (map_snapshot env sha256 repo old_commit new_commit path old new)) (\<lambda>lm.
     act_return (old, new, lm))))"

definition git_snapshot :: "'g git_env \<Rightarrow> (nat \<Rightarrow> index_stats) \<Rightarrow> (string \<Rightarrow> string list result) \<Rightarrow> (string \<Rightarrow> string) \<Rightarrow>
    string \<Rightarrow> provider \<Rightarrow> string \<Rightarrow> string \<Rightarrow> string \<Rightarrow> relation \<Rightarrow> ('g engine_state, snapshot) action" where
  "git_snapshot env st files sha256 version pr repo old_commit new_commit rel =
     act_bind (with_git (ensure_commit env pr old_commit)) (\<lambda>_.
     act_bind (with_git (ensure_commit env pr new_commit)) (\<lambda>_.
     act_bind (cached_ancestry env pr old_commit new_commit) (\<lambda>ancestor.
       if \<not> ancestor then act_return (Refused ''NON_ANCESTOR'')
       else act_bind (snapshot_texts env sha256 pr repo old_commit new_commit (file_path rel)) (\<lambda>(old, new, lm).
         act_bind (with_cache (source_index_pair st files
             (source_index_key version (repo_path pr) old_commit, source_index_key version (repo_path pr) new_commit)
             (repository_name rel)))
           (\<lambda>(oi, ni, reason). if reason \<noteq> [] then act_return (Refused reason)
             else act_return (Snapshot \<lparr>old_text = old, new_text = new, snapshot_mapping = lm, old_index = oi, new_index = ni\<rparr>))))))"

definition snapshot_refusal :: "string \<Rightarrow> snapshot_row \<Rightarrow> snapshot_row \<Rightarrow> string option" where
  "snapshot_refusal repo old new =
     (let ob = py_strip is_space (or_empty (branch_name old)); nb = py_strip is_space (or_empty (branch_name new)) in
      if ob \<noteq> [] \<and> nb \<noteq> [] \<and> ob \<noteq> nb then Some ''BRANCH_MISMATCH''
      else if given (commit_sha old) \<and> given (commit_sha new) \<and> \<not> (is_set (identity_verified old) \<and> is_set (identity_verified new))
      then Some ''REPOSITORY_IDENTITY_UNVERIFIED''
      else if \<not> given (commit_sha old) \<or> \<not> given (commit_sha new) then Some ''REPOSITORY_IDENTITY_UNVERIFIED''
      else if repo = [] then Some ''REPOSITORY_PATH_UNAVAILABLE'' else None)"

definition snapshot_for_relation :: "'g git_env \<Rightarrow> (nat \<Rightarrow> index_stats) \<Rightarrow> (string \<Rightarrow> string list result) \<Rightarrow> (string \<Rightarrow> string) \<Rightarrow>
    string \<Rightarrow> relation \<Rightarrow> string \<Rightarrow> snapshot_row \<Rightarrow> snapshot_row \<Rightarrow> ('g engine_state, snapshot) action" where
  "snapshot_for_relation env st files sha256 version rel repo old new =
     (case snapshot_refusal repo old new of
        Some reason \<Rightarrow> act_return (Refused reason)
      | None \<Rightarrow> catch_technical (git_snapshot env st files sha256 version
          (GitSnapshotProvider env repo (first_given (canonical_remote old) (canonical_remote new)))
          repo (or_empty (commit_sha old)) (or_empty (commit_sha new)) rel))"

section \<open>The decision for a line\<close>

text \<open>The target of a source line, or the reason why it has none.\<close>

definition map_relation :: "line_mapping \<Rightarrow> int \<Rightarrow> string + int" where
  "map_relation lm n = (case mapping_get lm n of Some k \<Rightarrow> Inr k
     | None \<Rightarrow> Inl (if n \<in> deleted lm then ''LINE_DELETED'' else ''LINE_AMBIGUOUS''))"

definition line_text_at :: "string list \<Rightarrow> int \<Rightarrow> string \<Rightarrow> string" where
  "line_text_at lines n fallback = (if 0 < n \<and> n \<le> int (length lines) then lines ! nat (n - 1) else fallback)"

definition relation_result ::
  "'w index_env \<Rightarrow> 'w index_env \<Rightarrow> hashes \<Rightarrow> string \<Rightarrow> string \<Rightarrow> relation \<Rightarrow> int \<Rightarrow> string \<Rightarrow>
   'w index \<times> 'w index \<Rightarrow> inherit_result \<times> 'w index \<times> 'w index" where
  "relation_result eo en h old new rel k target_text ij =
     (let n = source_line_number rel;
          r = compare_line eo en h (line_text_at (py_splitlines old) n (source_line_text rel))
                (line_text_at (py_splitlines new) k target_text)
                (analyze old (file_path rel)) (analyze new (file_path rel)) (nat n) (nat k) ij in
      if r_ok (fst r) \<and> (analysis_block_id rel = 0 \<or> block_identity_verified rel = 0)
      then (no_inherit ''BLOCK_AMBIGUOUS'', snd r) else r)"

text \<open>One relation against the candidate file, whose lines are \<open>target_lines\<close>: the result that is recorded, and the
  two indexes after it.\<close>

definition decide_relation ::
  "'w index_env \<Rightarrow> 'w index_env \<Rightarrow> hashes \<Rightarrow> string \<Rightarrow> string \<Rightarrow> line_mapping \<Rightarrow> (int \<Rightarrow> string option) \<Rightarrow> relation \<Rightarrow>
   'w index \<times> 'w index \<Rightarrow> inherit_result \<times> 'w index \<times> 'w index" where
  "decide_relation eo en h old new lm target_lines rel ij =
     (case map_relation lm (source_line_number rel) of
        Inl reason \<Rightarrow> (no_inherit reason, ij)
      | Inr k \<Rightarrow> (case target_lines k of
            None \<Rightarrow> (no_inherit ''NO_TARGET_LINE'', ij)
          | Some target_text \<Rightarrow> relation_result eo en h old new rel k target_text ij))"

section \<open>The range of a candidate block\<close>

fun target_runs :: "int list \<Rightarrow> int list \<Rightarrow> int list list" where
  "target_runs current [] = (if current = [] then [] else [current])"
| "target_runs current (m # ms) =
     (if current = [] \<or> m = last current + 1 then target_runs (current @ [m]) ms
      else current # target_runs [m] ms)"

definition mapped_numbers :: "line_mapping \<Rightarrow> int \<Rightarrow> int \<Rightarrow> int list" where
  "mapped_numbers lm a b = List.map_filter (mapping_get lm) [a..b]"

definition BLOCK_SPAN :: int where
  "BLOCK_SPAN = 20000"

definition or_line :: "int \<Rightarrow> int \<Rightarrow> int" where
  "or_line v line = (if v \<noteq> 0 then v else line)"

definition candidate_block_range :: "line_mapping \<Rightarrow> relation \<Rightarrow> int \<Rightarrow> (int \<times> int) result" where
  "candidate_block_range lm rel target =
     (if analysis_block_id rel = 0 then Inl (ValueError ''BLOCK_AMBIGUOUS'')
      else let a = or_line (block_start_line rel) (source_line_number rel);
               b = or_line (block_end_line rel) (source_line_number rel);
               numbers = (if a < 1 \<or> b < a \<or> max 0 (b - a + 1) > BLOCK_SPAN then [target] else mapped_numbers lm a b);
               selected = (case List.find (\<lambda>run. target \<in> set run) (target_runs [] numbers) of None \<Rightarrow> [target] | Some run \<Rightarrow> run)
           in Inr (hd selected, last selected))"

section \<open>Blocks\<close>

text \<open>The blocks of the analysis domain, and the engine's cache of the blocks it has created in the run. The key of the
  cache is the scan, the source block, the file, the fingerprint of the mapping, the source range and the record.\<close>

type_synonym block_key = "int \<times> int \<times> int \<times> string \<times> int \<times> int \<times> int"

record block_row =
  blk_id :: int
  blk_scan :: int
  blk_file :: int
  blk_start :: int
  blk_end :: int

record block_state =
  block_cache :: "(block_key \<times> int) list"
  block_rows :: "block_row list"
  next_block :: int

definition create_block :: "(int \<Rightarrow> int option) \<Rightarrow> int \<Rightarrow> int \<Rightarrow> int \<Rightarrow> int \<Rightarrow> (block_state, int) action" where
  "create_block file_scan scan file a b s =
     (if a < 1 \<or> b < a then (Inl (ValueError ''invalid analysis block range''), s)
      else if file_scan file \<noteq> Some scan then (Inl (ValueError ''ANALYSIS_BLOCK_FILE_SCAN_IDENTITY_MISMATCH''), s)
      else (Inr (next_block s), s\<lparr>block_rows := block_rows s @
              [\<lparr>blk_id = next_block s, blk_scan = scan, blk_file = file, blk_start = a, blk_end = b\<rparr>],
            next_block := next_block s + 1\<rparr>))"

definition block_key_of :: "int \<Rightarrow> int \<Rightarrow> int \<Rightarrow> line_mapping \<Rightarrow> relation \<Rightarrow> block_key" where
  "block_key_of scan file record_id lm rel =
     (scan, analysis_block_id rel, file, fingerprint lm, or_line (block_start_line rel) (source_line_number rel),
      or_line (block_end_line rel) (source_line_number rel), record_id)"

definition candidate_block_for_relation ::
  "(int \<Rightarrow> int option) \<Rightarrow> int \<Rightarrow> int \<Rightarrow> int \<Rightarrow> line_mapping \<Rightarrow> relation \<Rightarrow> int \<Rightarrow> (block_state, int) action" where
  "candidate_block_for_relation file_scan scan file record_id lm rel target s =
     (case candidate_block_range lm rel target of Inl e \<Rightarrow> (Inl e, s)
      | Inr (a, b) \<Rightarrow>
          let key = block_key_of scan file record_id lm rel; cached = dict_get (block_cache s) key 0 in
          if cached \<noteq> 0 then (Inr cached, s)
          else act_bind (create_block file_scan scan file a b)
            (\<lambda>i s. (Inr i, s\<lparr>block_cache := AList.update key i (block_cache s)\<rparr>)) s)"

text \<open>The check of \<open>create_link\<close> that a line belongs to the block it is linked with.\<close>

definition check_link_block :: "int \<Rightarrow> int \<Rightarrow> int \<Rightarrow> int \<Rightarrow> block_state \<Rightarrow> unit result" where
  "check_link_block scan file line block_id s =
     (case List.find (\<lambda>b. blk_id b = block_id) (block_rows s) of
        None \<Rightarrow> Inl (ValueError ''ANALYSIS_BLOCK_IDENTITY_MISMATCH'')
      | Some b \<Rightarrow>
          if blk_scan b \<noteq> scan \<or> blk_file b \<noteq> file then Inl (ValueError ''ANALYSIS_BLOCK_IDENTITY_MISMATCH'')
          else if line < blk_start b \<or> line > blk_end b then Inl (ValueError ''ANALYSIS_BLOCK_LINE_RANGE_MISMATCH'')
          else Inr ())"

definition attach_line ::
  "(int \<Rightarrow> int option) \<Rightarrow> int \<Rightarrow> int \<Rightarrow> int \<Rightarrow> line_mapping \<Rightarrow> relation \<Rightarrow> int \<Rightarrow> (block_state, int) action" where
  "attach_line file_scan scan file record_id lm rel target =
     act_bind (candidate_block_for_relation file_scan scan file record_id lm rel target)
       (\<lambda>i s. (case check_link_block scan file target i s of Inl e \<Rightarrow> Inl e | Inr _ \<Rightarrow> Inr i, s))"

section \<open>Growth of a cached index\<close>

text \<open>The callback that \<open>_source_index\<close> gives to the symbol index it creates: the engine accounts for the new size
  of the index \<open>i\<close> under its key, and the index learns whether its pair has been marked. \<open>world\<close> holds the
  caches of the engine.\<close>

definition index_statistics :: "'w lazy_index \<Rightarrow> index_stats" where
  "index_statistics ix = \<lparr>s_total = nat (total_index_bytes ix), s_cand_bytes = nat (cand_bytes ix),
     s_cand_entries = nat (cand_entries ix), s_res_bytes = nat (resolution_bytes ix)\<rparr>"

definition engine_callback :: "(nat \<Rightarrow> index_stats) \<Rightarrow> cache_key \<Rightarrow> nat \<Rightarrow> engine_cache lazy_index \<Rightarrow> engine_cache \<times> bool" where
  "engine_callback st key i ix =
     (let s = source_index_changed (st(i := index_statistics ix)) key i (world ix) in (s, i \<in> set (over_budget s)))"

section \<open>Runs of targets\<close>

lemma target_runs_concat: "concat (target_runs current ms) = current @ ms"
  by (induction current ms rule: target_runs.induct) auto

definition consecutive :: "int list \<Rightarrow> bool" where
  "consecutive run \<longleftrightarrow> run \<noteq> [] \<and> run = [hd run..last run]"

lemma consecutive_snoc:
  assumes "consecutive run"
  shows "consecutive (run @ [last run + 1])"
proof -
  from assms have run: "run \<noteq> []" "run = [hd run..last run]" by (simp_all add: consecutive_def)
  then have "hd run \<le> last run" by (metis atLeastAtMost_iff last_in_set set_upto)
  then have "[hd run..last run + 1] = [hd run..last run] @ [last run + 1]" by (simp add: upto_rec2)
  with run show ?thesis unfolding consecutive_def by (metis append_is_Nil_conv hd_append2 last_snoc)
qed

lemma target_runs_consecutive:
  "(current = [] \<or> consecutive current) \<Longrightarrow> run \<in> set (target_runs current ms) \<Longrightarrow> consecutive run"
proof (induction current ms rule: target_runs.induct)
  case (2 current m ms)
  have "consecutive [m]" by (simp add: consecutive_def)
  with 2 show ?case using consecutive_snoc [of current] by (auto split: if_splits)
qed (auto split: if_splits)

lemma consecutive_set: "consecutive run \<Longrightarrow> set run = {hd run..last run} \<and> hd run \<le> last run"
  unfolding consecutive_def by (metis atLeastAtMost_iff last_in_set set_upto)

text \<open>In a strictly increasing list no number next to a run is in the list.\<close>

lemma target_runs_separated:
  assumes "sorted_wrt (<) (current @ ms)" "current = [] \<or> consecutive current" "run \<in> set (target_runs current ms)"
  shows "hd run - 1 \<notin> set (current @ ms) \<and> last run + 1 \<notin> set (current @ ms)"
  using assms
proof (induction current ms rule: target_runs.induct)
  case (1 current)
  then have "consecutive current" "run = current" by (auto split: if_splits)
  then show ?case using consecutive_set [of current] by auto
next
  case (2 current m ms)
  show ?case
  proof (cases "current = [] \<or> m = last current + 1")
    case True
    have "consecutive (current @ [m])"
    proof (cases "current = []")
      case False
      then show ?thesis using True "2.prems"(2) consecutive_snoc [of current] by auto
    qed (simp add: consecutive_def)
    with True 2 show ?thesis by simp
  next
    case False
    then have c: "consecutive current" "set current = {hd current..last current}" "hd current \<le> last current"
      using "2.prems"(2) consecutive_set by auto
    have "last current \<in> set current" using False by simp
    then have m: "last current + 1 < m" "\<forall>x \<in> set ms. m < x" using "2.prems"(1) False by (fastforce simp: sorted_wrt_append)+
    show ?thesis
    proof (cases "run = current")
      case True
      then show ?thesis using c m by auto
    next
      case other: False
      then have r: "run \<in> set (target_runs [m] ms)" using "2.prems"(3) False by simp
      have "sorted_wrt (<) ([m] @ ms)" "consecutive [m]" using "2.prems"(1) by (auto simp: sorted_wrt_append consecutive_def)
      note i = "2.IH"(2) [OF False this(1) disjI2 [OF this(2)] r]
      have "consecutive run" using target_runs_consecutive [OF disjI2 r] by (simp add: consecutive_def)
      then have "hd run \<le> last run" "hd run \<in> set run" using consecutive_set [of run] by auto
      moreover have "set run \<subseteq> insert m (set ms)"
        using r target_runs_concat [of "[m]" ms] by (metis Union_iff append_Cons append_Nil imageI list.set(2) set_concat subsetI)
      ultimately have "m \<le> hd run" using m(2) by force
      then show ?thesis using i m(1) c(2) \<open>hd run \<le> last run\<close> by auto
    qed
  qed
qed

lemma set_filtered: "set (List.map_filter f xs) = {y. \<exists>x \<in> set xs. f x = Some y}"
  by (induction xs) (auto simp: map_filter_simps split: option.splits)

lemma map_filter_increasing:
  assumes "sorted_wrt (<) xs" "\<forall>l \<in> set xs. \<forall>l' \<in> set xs. \<forall>k k'. f l = Some k \<longrightarrow> f l' = Some k' \<longrightarrow> l < l' \<longrightarrow> k < k'"
  shows "sorted_wrt (<) (List.map_filter f xs :: int list)"
  using assms
proof (induction xs)
  case (Cons x xs)
  then show ?case by (cases "f x") (fastforce simp: map_filter_simps set_filtered)+
qed (simp add: map_filter_simps)

lemma set_mapped_numbers: "set (mapped_numbers lm a b) = {k. \<exists>l \<in> {a..b}. mapping_get lm l = Some k}"
  by (auto simp: mapped_numbers_def set_filtered)

lemma find_run:
  assumes "target \<in> set ms"
  shows "\<exists>run. List.find (\<lambda>run. target \<in> set run) (target_runs [] ms) = Some run \<and> run \<in> set (target_runs [] ms) \<and> target \<in> set run"
proof -
  have "target \<in> set (concat (target_runs [] ms))" using assms by (simp add: target_runs_concat)
  then have "\<exists>run \<in> set (target_runs [] ms). target \<in> set run" by simp
  then obtain run where "List.find (\<lambda>run. target \<in> set run) (target_runs [] ms) = Some run"
    by (metis find_None_iff option.exhaust)
  then show ?thesis by (auto simp: find_Some_iff)
qed

text \<open>The run that is selected in a strictly increasing list.\<close>

lemma selected_run:
  assumes "sorted_wrt (<) ms" "target \<in> set ms"
  shows "\<exists>run. List.find (\<lambda>run. target \<in> set run) (target_runs [] ms) = Some run \<and> target \<in> {hd run..last run} \<and>
    {hd run..last run} \<subseteq> set ms \<and> hd run - 1 \<notin> set ms \<and> last run + 1 \<notin> set ms"
proof -
  obtain run where r: "List.find (\<lambda>run. target \<in> set run) (target_runs [] ms) = Some run"
    "run \<in> set (target_runs [] ms)" "target \<in> set run" using find_run [OF assms(2)] by blast
  have "consecutive run" using target_runs_consecutive r(2) by blast
  moreover have "set run \<subseteq> set ms" using r(2) target_runs_concat [of "[]" ms] by (metis Union_upper append_Nil image_eqI set_concat)
  moreover have "hd run - 1 \<notin> set ms \<and> last run + 1 \<notin> set ms" using target_runs_separated [of "[]" ms run] assms(1) r(2) by simp
  ultimately show ?thesis using consecutive_set [of run] r by (intro exI [of _ run]) auto
qed

section \<open>Lines of the two texts\<close>

lemma splitlines_break:
  "is_line_break x \<Longrightarrow> x \<noteq> CR \<or> t = [] \<or> hd t \<noteq> NL \<Longrightarrow> py_splitlines (x # t) = [] # py_splitlines t"
  by (cases t) auto

lemma splitlines_char:
  "\<not> is_line_break x \<Longrightarrow> py_splitlines (x # t) = (case py_splitlines t of [] \<Rightarrow> [[x]] | l # ls \<Rightarrow> (x # l) # ls)"
  by (cases t) (auto simp: is_line_break_def)

lemma newline_break: "is_line_break NL" "is_line_break CR" "NL \<noteq> CR"
  by (simp_all add: is_line_break_def)

lemma normalize_Cons:
  "normalize_newlines (x # y # s) =
     (if x = CR \<and> y = NL then NL # normalize_newlines s else (if x = CR then NL else x) # normalize_newlines (y # s))"
  by (simp add: normalize_newlines_def replace_cr_def)

lemma split_lines_eq: "split_lines s = py_splitlines s"
proof -
  have "py_splitlines (normalize_newlines s) = py_splitlines s"
  proof (induction s rule: py_splitlines.induct)
    case (2 x)
    then show ?case by (auto simp: normalize_newlines_def replace_cr_def is_line_break_def)
  next
    case (3 x y s)
    then show ?case
      by (cases "is_line_break x") (auto simp: normalize_Cons splitlines_break splitlines_char newline_break)
  qed (simp add: normalize_newlines_def replace_cr_def)
  then show ?thesis by (simp add: split_lines_def)
qed

text \<open>The texts that are compared for a mapped line have the same tokens.\<close>

lemma mapped_texts_agree:
  assumes "line_mapping_contract tokenize (split_lines old) (split_lines new) lm" "mapping_get lm n = Some k"
  shows "normalize_cpp (line_text_at (py_splitlines old) n s) = normalize_cpp (line_text_at (py_splitlines new) k t)"
proof -
  have "n \<in> dom (mapping_get lm)" "k \<in> ran (mapping_get lm)" using assms(2) by (auto simp: ran_def)
  then have "n \<in> {1..int (length (split_lines old))}" "k \<in> {1..int (length (split_lines new))}"
    using line_mapping_contract.old_lines_partition [OF assms(1)] line_mapping_contract.new_lines_partition [OF assms(1)] by blast+
  then show ?thesis using line_mapping_contract.same_tokens [OF assms]
    by (simp add: line_text_at_def split_lines_eq normalize_cpp_def)
qed

definition context_agrees ::
  "'w index_env \<Rightarrow> 'w index_env \<Rightarrow> hashes \<Rightarrow> string \<Rightarrow> string \<Rightarrow> analysis \<Rightarrow> analysis \<Rightarrow> nat \<Rightarrow> nat \<Rightarrow> 'w index \<Rightarrow> 'w index \<Rightarrow> bool" where
  "context_agrees eo en h old_line new_line oa na m n i j \<longleftrightarrow>
     (\<exists>f g. function_for_line oa m = Some f \<and> function_for_line na n = Some g \<and>
        canonical (identity f) = canonical (identity g) \<and> \<not> uncertain f \<and> \<not> uncertain g) \<and>
     line_controls oa m = line_controls na n \<and> line_preprocessor oa m = line_preprocessor na n \<and>
     \<not> index_memory i \<and> \<not> index_memory j \<and>
     (case compare_dependencies eo en h oa na m n old_line new_line (dependency_context oa m) (dependency_context na n) (i, j) of
        (d, i', j') \<Rightarrow> dep_ok d \<and> \<not> index_memory i' \<and> \<not> index_memory j')"

lemma relation_result_ok:
  "r_ok (fst (relation_result eo en h old new rel k t (i, j))) \<longleftrightarrow>
   r_ok (fst (compare_line eo en h (line_text_at (py_splitlines old) (source_line_number rel) (source_line_text rel))
     (line_text_at (py_splitlines new) k t) (analyze old (file_path rel)) (analyze new (file_path rel))
     (nat (source_line_number rel)) (nat k) (i, j))) \<and>
   analysis_block_id rel \<noteq> 0 \<and> block_identity_verified rel \<noteq> 0"
  by (auto simp: relation_result_def Let_def no_inherit_def)

lemma decision_for_mapped_line:
  assumes "line_mapping_contract tokenize (split_lines old) (split_lines new) lm"
    and "mapping_get lm (source_line_number rel) = Some k" "target_lines k = Some t"
  shows "r_ok (fst (decide_relation eo en h old new lm target_lines rel (i, j))) \<longleftrightarrow>
    analysis_block_id rel \<noteq> 0 \<and> block_identity_verified rel \<noteq> 0 \<and>
    context_agrees eo en h (line_text_at (py_splitlines old) (source_line_number rel) (source_line_text rel))
      (line_text_at (py_splitlines new) k t) (analyze old (file_path rel)) (analyze new (file_path rel))
      (nat (source_line_number rel)) (nat k) i j"
  using assms(2,3) mapped_texts_agree [OF assms(1,2), of "source_line_text rel" t]
  by (auto simp: decide_relation_def map_relation_def relation_result_ok compare_line_iff context_agrees_def)

section \<open>Snapshots\<close>

lemma with_git_Inr: "with_git a (es, gs) = (Inr x, t) \<Longrightarrow> \<exists>gs'. a gs = (Inr x, gs') \<and> t = (es, gs')"
  by (auto simp: with_git_def split: prod.splits)

lemma with_cache_Inr: "with_cache a (es, gs) = (Inr x, t) \<Longrightarrow> \<exists>es'. a es = (Inr x, es') \<and> t = (es', gs)"
  by (auto simp: with_cache_def split: prod.splits)

lemma ancestry_answer_engine_inv: "ancestry_answer f key es = (r, es') \<Longrightarrow> engine_inv es \<Longrightarrow> engine_inv es'"
  using ancestry_answer_inv [of es f key] by simp

lemma cached_ancestry_inv:
  assumes "cached_ancestry env pr oc nc (es, gs) = (Inr v, es', gs')" "engine_inv es"
  shows "engine_inv es'"
proof (cases "map_of (ancestry es) (repo_path pr, oc, nc)")
  case None
  with assms show ?thesis
    by (auto simp: cached_ancestry_def Let_def dest!: act_bind_Inr [THEN iffD1] with_git_Inr with_cache_Inr intro: ancestry_answer_engine_inv)
next
  case (Some w)
  with assms show ?thesis
    by (auto simp: cached_ancestry_def Let_def dest!: with_cache_Inr intro: ancestry_answer_engine_inv)
qed

lemma snapshot_texts_cache:
  "snapshot_texts env sha256 pr repo oc nc path (es, gs) = (Inr (old, new, lm), es', gs') \<Longrightarrow>
   es' = es \<and> (\<exists>g1 g2 g3. read_file env pr oc path g1 = (Inr old, g2) \<and> read_file env pr nc path g2 = (Inr new, g3) \<and>
     map_git_text (diff_answer env (repo_state g3)) (real_path env) sha256 tokenize repo oc nc path old new = Inr lm)"
  by (auto simp: snapshot_texts_def act_return_def map_snapshot_def dest!: act_bind_Inr [THEN iffD1] with_git_Inr) blast

lemma pair_without_reason:
  assumes "source_index_pair st files p scope s = (Inr (oi, ni, []), t)"
  shows "oi \<noteq> None \<and> ni \<noteq> None"
  using assms by (auto simp: source_index_pair_def finish_pair_def dest!: act_bind_Inr [THEN iffD1] split: if_splits)

lemma git_snapshot_sound:
  assumes run: "git_snapshot env st files sha256 version pr repo oc nc rel (es, gs) = (Inr (Snapshot sn), es', gs')"
    and inv: "engine_inv es"
  shows "\<exists>s t. cached_ancestry env pr oc nc s = (Inr True, t)"
    "\<exists>g1 g2 g3. read_file env pr oc (file_path rel) g1 = (Inr (old_text sn), g2) \<and>
      read_file env pr nc (file_path rel) g2 = (Inr (new_text sn), g3) \<and>
      map_git_text (diff_answer env (repo_state g3)) (real_path env) sha256 tokenize repo oc nc (file_path rel)
        (old_text sn) (new_text sn) = Inr (snapshot_mapping sn)"
    "\<exists>i j. old_index sn = Some i \<and> new_index sn = Some j \<and>
      map_of (src_cache es') (source_index_key version (repo_path pr) oc) = Some i \<and>
      map_of (src_cache es') (source_index_key version (repo_path pr) nc) = Some j"
    "src_bytes es' \<le> max_total_bytes es'"
proof -
  let ?p = "(source_index_key version (repo_path pr) oc, source_index_key version (repo_path pr) nc)"
  from run obtain e1 g1 e2 g2 old new lm oi ni where
    a: "cached_ancestry env pr oc nc (es, g1) = (Inr True, e1, g2)" and
    t: "snapshot_texts env sha256 pr repo oc nc (file_path rel) (e1, g2) = (Inr (old, new, lm), e2, gs')" and
    p: "source_index_pair st files ?p (repository_name rel) e2 = (Inr (oi, ni, []), es')" and
    sn: "sn = \<lparr>old_text = old, new_text = new, snapshot_mapping = lm, old_index = oi, new_index = ni\<rparr>"
    by (auto simp: git_snapshot_def act_return_def dest!: act_bind_Inr [THEN iffD1] with_git_Inr with_cache_Inr split: if_splits)
  note x = snapshot_texts_cache [OF t]
  have e: "engine_inv e2" using cached_ancestry_inv [OF a inv] x by simp
  note o = source_index_pair_outcome [OF e p]
  show "\<exists>s t. cached_ancestry env pr oc nc s = (Inr True, t)" using a by blast
  show "\<exists>g1 g2 g3. read_file env pr oc (file_path rel) g1 = (Inr (old_text sn), g2) \<and>
      read_file env pr nc (file_path rel) g2 = (Inr (new_text sn), g3) \<and>
      map_git_text (diff_answer env (repo_state g3)) (real_path env) sha256 tokenize repo oc nc (file_path rel)
        (old_text sn) (new_text sn) = Inr (snapshot_mapping sn)" using x unfolding sn by simp
  have "oi \<noteq> None \<and> ni \<noteq> None" using p by (rule pair_without_reason)
  with o show "\<exists>i j. old_index sn = Some i \<and> new_index sn = Some j \<and>
      map_of (src_cache es') (source_index_key version (repo_path pr) oc) = Some i \<and>
      map_of (src_cache es') (source_index_key version (repo_path pr) nc) = Some j"
    unfolding sn by (auto simp: pair_outcome_def)
  show "src_bytes es' \<le> max_total_bytes es'" using o by (simp add: engine_inv_def)
qed

section \<open>Properties\<close>


text \<open>C1: when Git's diff is a true diff of the two texts, a mapped line is never refused for changed code: a relation
  whose line is mapped to a line of the candidate file inherits exactly when its block is verified, the enclosing
  functions are the same and certain, the control and preprocessor contexts agree, and the dependency check
  accepts within the memory budget.\<close>

theorem mapped_line_inherits_iff:
  assumes "\<not> has_rename diff" "diff_of (split_lines old) (split_lines new) 0 0 (diff_hunks diff)"
    and "mapping_get (map_git_diff sha256 tokenize diff old new) (source_line_number rel) = Some k" "target_lines k = Some t"
  shows "r_ok (fst (decide_relation eo en h old new (map_git_diff sha256 tokenize diff old new) target_lines rel (i, j))) \<longleftrightarrow>
    analysis_block_id rel \<noteq> 0 \<and> block_identity_verified rel \<noteq> 0 \<and>
    context_agrees eo en h (line_text_at (py_splitlines old) (source_line_number rel) (source_line_text rel))
      (line_text_at (py_splitlines new) k t) (analyze old (file_path rel)) (analyze new (file_path rel))
      (nat (source_line_number rel)) (nat k) i j"
proof -
  have "line_mapping_contract tokenize (split_lines old) (split_lines new) (map_git_diff sha256 tokenize diff old new)"
    by unfold_locales (rule map_git_diff_accounts_for [OF assms(1,2)])
  from decision_for_mapped_line [where target_lines = target_lines, OF this assms(3,4)] show ?thesis .
qed

text \<open>A line that the mapper found ambiguous is reported as deleted, for the lines of any two texts; the reason
  \<open>LINE_AMBIGUOUS\<close> is left for numbers outside the old text.\<close>

lemma ambiguous_line_reported_deleted:
  "(l \<in> ambiguous (map_text sha256 tokenize old new) \<longrightarrow> map_relation (map_text sha256 tokenize old new) l = Inl ''LINE_DELETED'') \<and>
   (map_relation (map_text sha256 tokenize old new) l = Inl ''LINE_AMBIGUOUS'' \<longrightarrow> l \<notin> {1..int (length (split_lines old))})"
proof -
  note p = text_mapper.old_lines_partition [of sha256 old new] and a = text_mapper.ambiguous_deleted [of sha256 old new]
  have "l \<in> ambiguous (map_text sha256 tokenize old new) \<Longrightarrow> map_relation (map_text sha256 tokenize old new) l = Inl ''LINE_DELETED''"
    using p a by (auto simp: map_relation_def dom_def split: option.split)
  moreover have "l \<notin> {1..int (length (split_lines old))}" if "map_relation (map_text sha256 tokenize old new) l = Inl ''LINE_AMBIGUOUS''"
  proof -
    from that have "l \<notin> dom (mapping_get (map_text sha256 tokenize old new))" "l \<notin> deleted (map_text sha256 tokenize old new)"
      by (auto simp: map_relation_def split: option.splits if_splits)
    with p show ?thesis by blast
  qed
  ultimately show ?thesis by blast
qed

text \<open>For a mapping that never crosses, the range chosen for a candidate block holds the target line and consists
  of targets of lines of the source block only, and neither of the two lines next to it is such a target.\<close>

lemma candidate_block_maximal:
  assumes "\<forall>l k l' k'. mapping_get lm l = Some k \<longrightarrow> mapping_get lm l' = Some k' \<longrightarrow> l < l' \<longrightarrow> k < k'"
    and "analysis_block_id rel \<noteq> 0" "block_start_line rel = a" "block_end_line rel = b"
    and "1 \<le> a" "a \<le> source_line_number rel" "source_line_number rel \<le> b" "b - a < BLOCK_SPAN"
    and "mapping_get lm (source_line_number rel) = Some target"
  shows "\<exists>x y. candidate_block_range lm rel target = Inr (x, y) \<and> target \<in> {x..y} \<and>
    {x..y} \<subseteq> {k. \<exists>l \<in> {a..b}. mapping_get lm l = Some k} \<and>
    x - 1 \<notin> {k. \<exists>l \<in> {a..b}. mapping_get lm l = Some k} \<and> y + 1 \<notin> {k. \<exists>l \<in> {a..b}. mapping_get lm l = Some k}"
proof -
  have "sorted_wrt (<) (mapped_numbers lm a b)"
    unfolding mapped_numbers_def using assms(1) by (intro map_filter_increasing) auto
  moreover have "target \<in> set (mapped_numbers lm a b)" using assms(6,7,9) by (auto simp: set_mapped_numbers)
  ultimately obtain run where run: "List.find (\<lambda>run. target \<in> set run) (target_runs [] (mapped_numbers lm a b)) = Some run"
    "target \<in> {hd run..last run}" "{hd run..last run} \<subseteq> set (mapped_numbers lm a b)"
    "hd run - 1 \<notin> set (mapped_numbers lm a b)" "last run + 1 \<notin> set (mapped_numbers lm a b)"
    using selected_run by blast
  have "or_line a (source_line_number rel) = a" "or_line b (source_line_number rel) = b" using assms(5-7) by (simp_all add: or_line_def)
  then have "candidate_block_range lm rel target = Inr (hd run, last run)"
    using assms(2-8) run(1) by (simp add: candidate_block_range_def Let_def)
  with run(2-5) show ?thesis unfolding set_mapped_numbers by blast
qed

text \<open>Whatever lookups run on a cached symbol index, the engine's byte count stays the sum of the sizes it has
  recorded and within the total budget.\<close>

lemma lookups_keep_engine_budget:
  assumes "reaches engine_step (init_engine_cache max_bytes max_total max_anc perf) ops (world ix)"
    and "on_cache_change env = Some (engine_callback st key i)" "reaches (lazy_step env) ix lookups ix'"
  shows "src_bytes (world ix') = sum_values (src_sizes (world ix')) \<and> src_bytes (world ix') \<le> max_total_bytes (world ix')"
proof -
  have "engine_inv (world ix)" using engine_system.reachable_inv [OF engine_start.intros assms(1)] .
  moreover have "callback_keeps engine_inv env"
    using assms(2) by (auto simp: callback_keeps_def engine_callback_def Let_def changed_engine_inv)
  ultimately have "engine_inv (world ix')" using lookups_keep_world [OF assms(3)] by blast
  then show ?thesis by (simp add: engine_inv_def weak_inv_def cache_core_def)
qed

section \<open>Lines of one block\<close>

definition fresh_blocks :: "block_state \<Rightarrow> bool" where
  "fresh_blocks s \<longleftrightarrow> 0 < next_block s \<and> list_all (\<lambda>b. blk_id b < next_block s) (block_rows s)"

lemma find_new_row:
  assumes "list_all (\<lambda>b. blk_id b < i) rows" "blk_id b = i"
  shows "List.find (\<lambda>b. blk_id b = i) (rows @ [b]) = Some b"
  using assms by (induction rows) auto

lemma attach_first_line:
  assumes "fresh_blocks s" "dict_get (block_cache s) (block_key_of scan file rid lm rel) 0 = 0"
    and "candidate_block_range lm rel target = Inr (x, y)" "file_scan file = Some scan" "1 \<le> x" "target \<in> {x..y}"
  shows "attach_line file_scan scan file rid lm rel target s = (Inr (next_block s),
    s\<lparr>block_rows := block_rows s @ [\<lparr>blk_id = next_block s, blk_scan = scan, blk_file = file, blk_start = x, blk_end = y\<rparr>],
      next_block := next_block s + 1,
      block_cache := AList.update (block_key_of scan file rid lm rel) (next_block s) (block_cache s)\<rparr>)"
  using assms find_new_row [of "next_block s" "block_rows s"]
  by (auto simp: attach_line_def candidate_block_for_relation_def create_block_def act_bind_def Let_def
      check_link_block_def fresh_blocks_def)

text \<open>The first line of a source block that is attached creates the candidate block of its run; a later line of
  the same source block is given that block from the cache even when its target lies in another run, and linking it
  raises \<open>ANALYSIS_BLOCK_LINE_RANGE_MISMATCH\<close>, which ends the run of the engine.\<close>

lemma second_run_of_block_fails:
  assumes "fresh_blocks s" "dict_get (block_cache s) (block_key_of scan file rid lm rel) 0 = 0"
    and "candidate_block_range lm rel target = Inr (x, y)" "file_scan file = Some scan" "1 \<le> x" "target \<in> {x..y}"
    and "attach_line file_scan scan file rid lm rel target s = (Inr i, s')"
    and "block_key_of scan file rid lm rel' = block_key_of scan file rid lm rel"
    and "candidate_block_range lm rel' target' = Inr (x', y')" "target' \<notin> {x..y}"
  shows "fst (attach_line file_scan scan file rid lm rel' target' s') = Inl (ValueError ''ANALYSIS_BLOCK_LINE_RANGE_MISMATCH'')"
proof -
  have "list_all (\<lambda>b. blk_id b < next_block s) (block_rows s)" "next_block s \<noteq> 0" using assms(1) by (auto simp: fresh_blocks_def)
  note f = find_new_row [OF this(1)] this(2)
  from assms(7) have "s' = snd (attach_line file_scan scan file rid lm rel target s)" by simp
  then have s': "s' = s\<lparr>block_rows := block_rows s @ [\<lparr>blk_id = next_block s, blk_scan = scan, blk_file = file, blk_start = x, blk_end = y\<rparr>],
      next_block := next_block s + 1,
      block_cache := AList.update (block_key_of scan file rid lm rel) (next_block s) (block_cache s)\<rparr>"
    unfolding attach_first_line [where file_scan = file_scan, OF assms(1-6)] by simp
  show ?thesis using assms(8-10) f
    by (auto simp: s' attach_line_def candidate_block_for_relation_def act_bind_def Let_def check_link_block_def dict_get_def)
qed

section \<open>Examples\<close>

definition demo_relation :: "int \<Rightarrow> relation" where
  "demo_relation n = \<lparr>file_path = ''a.c'', repository_name = Some ''r'', source_line_number = n, source_line_text = [],
     analysis_block_id = 7, block_identity_verified = 1, block_start_line = 1, block_end_line = 2\<rparr>"

definition demo_text :: "string \<Rightarrow> string" where
  "demo_text body = ''int g() {'' @ [NL] @ body @ [NL] @ ''}''"

definition demo_git :: "unit git_env" where
  "demo_git = \<lparr>run_git = (\<lambda>args g. (Output (if ''show'' \<in> set args then demo_text ''x;'' else []), ())),
     decode_utf8 = Inr, decode_locale = Inr, real_path = (\<lambda>p. p)\<rparr>"

definition demo_row :: "string \<Rightarrow> snapshot_row" where
  "demo_row c = \<lparr>branch_name = Some ''main'', commit_sha = Some c, identity_verified = Some 1, canonical_remote = None\<rparr>"

definition demo_snapshot :: "snapshot result \<times> unit engine_state" where
  "demo_snapshot = snapshot_for_relation demo_git demo_stats (\<lambda>c. Inr [''a.c'']) (\<lambda>s. []) ''v'' (demo_relation 2) ''/repo''
     (demo_row ''c1'') (demo_row ''c2'') (demo_engine, \<lparr>repo_state = (), git_bytes = None\<rparr>)"


definition spaced_diff :: string where
  "spaced_diff = ''@@ -2 +2 @@'' @ [NL] @ ''-x=1;'' @ [NL] @ ''+x = 1;''"

theorem mapped_line_inherits_iff_witness:
  "context_agrees demo_env demo_env demo_hashes ''x=1;'' ''x = 1;'' (analyze (demo_text ''x=1;'') ''a.c'')
     (analyze (demo_text ''x = 1;'') ''a.c'') 2 2 NoIndex NoIndex"
proof -
  let ?old = "demo_text ''x=1;''" and ?new = "demo_text ''x = 1;''"
  let ?lm = "map_git_diff (\<lambda>s. []) tokenize spaced_diff ?old ?new"
  have h: "\<not> has_rename spaced_diff" "diff_of (split_lines ?old) (split_lines ?new) 0 0 (diff_hunks spaced_diff)"
    "source_line_number (demo_relation 2) = 2" "mapping_get ?lm 2 = Some 2" by code_simp+
  have r: "r_ok (fst (decide_relation demo_env demo_env demo_hashes ?old ?new ?lm (\<lambda>k. Some []) (demo_relation 2) (NoIndex, NoIndex)))"
    and t: "line_text_at (py_splitlines ?old) 2 [] = ''x=1;''" "line_text_at (py_splitlines ?new) 2 [] = ''x = 1;''" by code_simp+
  have m: "mapping_get ?lm (source_line_number (demo_relation 2)) = Some 2" using h by simp
  from mapped_line_inherits_iff [where target_lines = "\<lambda>k. Some []" and t = "[]", OF h(1,2) m refl, THEN iffD1, OF r] t
  show ?thesis by (simp add: demo_relation_def)
qed

theorem ambiguous_line_reported_deleted_witness:
  "map_relation (map_text (\<lambda>s. []) tokenize ''x;'' ''y;'') 1 = Inl ''LINE_DELETED''"
proof -
  have "1 \<in> ambiguous (map_text (\<lambda>s. []) tokenize ''x;'' ''y;'')" by code_simp
  then show ?thesis using ambiguous_line_reported_deleted [of 1 "\<lambda>s. []" "''x;''" "''y;''"] by blast
qed

text \<open>A line has been added inside a reviewed block of two lines.\<close>

definition split_block :: line_mapping where
  "split_block = map_text (\<lambda>s. []) tokenize (''a;'' @ [NL] @ ''b;'') (''a;'' @ [NL] @ ''n;'' @ [NL] @ ''b;'')"

theorem candidate_block_maximal_witness:
  "\<exists>x y. candidate_block_range split_block (demo_relation 2) 3 = Inr (x, y) \<and> 3 \<in> {x..y}"
proof -
  have m: "mapping_get split_block (source_line_number (demo_relation 2)) = Some 3" by code_simp
  have inc: "\<forall>l k l' k'. mapping_get split_block l = Some k \<longrightarrow> mapping_get split_block l' = Some k' \<longrightarrow> l < l' \<longrightarrow> k < k'"
    unfolding split_block_def using text_mapper.increasing by blast
  from candidate_block_maximal [OF inc _ refl refl _ _ _ _ m] show ?thesis by (auto simp: demo_relation_def BLOCK_SPAN_def)
qed

definition no_blocks :: block_state where
  "no_blocks = \<lparr>block_cache = [], block_rows = [], next_block = 1\<rparr>"

theorem second_run_of_block_fails_witness:
  "fst (attach_line (\<lambda>f. Some 5) 5 9 4 split_block (demo_relation 2) 3
     (snd (attach_line (\<lambda>f. Some 5) 5 9 4 split_block (demo_relation 1) 1 no_blocks))) =
   Inl (ValueError ''ANALYSIS_BLOCK_LINE_RANGE_MISMATCH'')"
proof -
  have r: "candidate_block_range split_block (demo_relation 1) 1 = Inr (1, 1)"
    "candidate_block_range split_block (demo_relation 2) 3 = Inr (3, 3)" by code_simp+
  have k: "block_key_of 5 9 4 split_block (demo_relation 2) = block_key_of 5 9 4 split_block (demo_relation 1)"
    by (simp add: block_key_of_def demo_relation_def or_line_def)
  have f: "fresh_blocks no_blocks" "dict_get (block_cache no_blocks) (block_key_of 5 9 4 split_block (demo_relation 1)) 0 = 0"
    by (simp_all add: no_blocks_def fresh_blocks_def)
  have "fst (attach_line (\<lambda>f. Some 5) 5 9 4 split_block (demo_relation 1) 1 no_blocks) = Inr 1"
    using attach_first_line [where file_scan = "\<lambda>f. Some 5", OF f r(1) refl] by (simp add: no_blocks_def)
  then have "attach_line (\<lambda>f. Some 5) 5 9 4 split_block (demo_relation 1) 1 no_blocks =
      (Inr 1, snd (attach_line (\<lambda>f. Some 5) 5 9 4 split_block (demo_relation 1) 1 no_blocks))" by (metis prod.collapse)
  from second_run_of_block_fails [where file_scan = "\<lambda>f. Some 5", OF f r(1) refl _ _ this k r(2)] show ?thesis by simp
qed

definition growing_env :: "engine_cache index_env" where
  "growing_env = \<lparr>loader = Some (\<lambda>p. Loaded (analyze (demo_text ''x;'') p) (Some 1)), cand_loader = None,
     analysis_size = (\<lambda>a. 1), index_size = (\<lambda>c. 1), entry_size = (\<lambda>e. 1),
     on_cache_change = Some (engine_callback demo_stats (fst demo_pair) 0)\<rparr>"

definition growing_index :: "engine_cache lazy_index" where
  "growing_index = LazySourceAnalysisIndex growing_env [''a.c''] [] 10 [] None 10
     (snd (source_index_pair demo_stats (\<lambda>c. Inr [''a.c'']) demo_pair (Some ''r'') demo_engine))"

theorem lookups_keep_engine_budget_witness:
  "let ix = snd (lazy_functions growing_env ''g'' None growing_index) in
   src_bytes (world ix) = sum_values (src_sizes (world ix)) \<and> src_bytes (world ix) \<le> max_total_bytes (world ix)"
proof -
  let ?ix = "snd (lazy_functions growing_env ''g'' None growing_index)"
  have "world growing_index = snd (source_index_pair demo_stats (\<lambda>c. Inr [''a.c'']) demo_pair (Some ''r'') demo_engine)"
    by code_simp
  then have "reaches engine_step (init_engine_cache 2 None 10 True) [GetPair demo_stats (\<lambda>c. Inr [''a.c'']) demo_pair (Some ''r'')] (world growing_index)"
    unfolding demo_engine_def by (metis reaches_Cons reaches_refl step_pair)
  moreover have "on_cache_change growing_env = Some (engine_callback demo_stats (fst demo_pair) 0)" by (simp add: growing_env_def)
  moreover have "reaches (lazy_step growing_env) growing_index [LookupFunctions ''g'' None] ?ix"
    by (rule reaches_Cons, rule step_functions, rule reaches_refl)
  ultimately show ?thesis unfolding Let_def by (rule lookups_keep_engine_budget)
qed

end
