(* ===== verification/Transactions.thy ===== *)
theory Transactions
  imports Prelude Complex_Main
begin

text \<open>
  The transaction boundary of \<open>app/db/transaction.py\<close> and the deadlock retry of \<open>app/db/retry.py\<close>. A
  connection has a committed and a working database, of any type. The driver (outside the
  repository) is a parameter: whether a commit or a rollback raises; a commit that succeeds makes
  the working database the committed one, a rollback that succeeds does the reverse.

  Shown: a transaction commits the effect of the operation as a whole or leaves the committed
  database as it was; the retry loop ends within its bound of attempts, retries only deadlocks,
  waits the documented back-off times, and applies the operation exactly once when it succeeds.
\<close>

section \<open>Errors\<close>

text \<open>An argument of an exception: a number, a text that \<open>int()\<close> may accept, or something it refuses.\<close>

datatype error_arg = ArgInt int | ArgText string | ArgOther

record db_error =
  err_args :: "error_arg list"
  err_text :: string

text \<open>An exception built from one text; which class it has plays no part in the retry.\<close>

definition text_error :: "string \<Rightarrow> db_error" where
  "text_error msg = \<lparr>err_args = [ArgText msg], err_text = msg\<rparr>"

definition RETRYABLE_DEADLOCK_CODES :: "int list" where
  "RETRYABLE_DEADLOCK_CODES = [1205, 1213]"

definition retryable_arg :: "error_arg \<Rightarrow> bool" where
  "retryable_arg a = (case a of ArgInt i \<Rightarrow> i \<in> set RETRYABLE_DEADLOCK_CODES
     | ArgText s \<Rightarrow> (case py_int_text s of Inl e \<Rightarrow> False | Inr i \<Rightarrow> i \<in> set RETRYABLE_DEADLOCK_CODES)
     | ArgOther \<Rightarrow> False)"

definition is_retryable_deadlock :: "db_error \<Rightarrow> bool" where
  "is_retryable_deadlock e \<longleftrightarrow> list_ex retryable_arg (err_args e) \<or>
     (let msg = map to_lower (err_text e) in
      contains_str ''deadlock'' msg \<or> contains_str ''lock wait timeout'' msg \<or> contains_str ''lock wait time-out'' msg)"

section \<open>Transactions\<close>

record 'd connection =
  committed :: 'd
  working :: 'd
  is_closed :: bool

record 'd driver =
  commit_error :: "'d connection \<Rightarrow> db_error option"
  rollback_error :: "'d connection \<Rightarrow> db_error option"

type_synonym ('d, 'a) operation = "'d \<Rightarrow> (db_error + 'a) \<times> 'd"

text \<open>The exception of a rollback is swallowed.\<close>

definition roll_back :: "'d driver \<Rightarrow> 'd connection \<Rightarrow> 'd connection" where
  "roll_back drv c = (case rollback_error drv c of None \<Rightarrow> c\<lparr>working := committed c\<rparr> | Some e \<Rightarrow> c)"

definition with_connection :: "'d driver \<Rightarrow> ('d, 'a) operation \<Rightarrow> 'd connection \<Rightarrow> (db_error + 'a) \<times> 'd connection" where
  "with_connection drv body c =
     (case body (working c) of
        (Inl e, w) \<Rightarrow> (Inl e, roll_back drv (c\<lparr>working := w\<rparr>))
      | (Inr x, w) \<Rightarrow>
          let c1 = c\<lparr>working := w\<rparr> in
          (case commit_error drv c1 of
             None \<Rightarrow> (Inr x, c1\<lparr>committed := w\<rparr>)
           | Some e \<Rightarrow> (Inl e, roll_back drv c1)))"

text \<open>What a manager owns: a connection given to it, or a factory, which may give nothing.\<close>

datatype 'd connection_source = Given "'d connection" | Made "'d connection option"

definition TransactionManager ::
  "'d connection option \<Rightarrow> (unit \<Rightarrow> 'd connection option) option \<Rightarrow> db_error + (unit \<Rightarrow> 'd connection_source)" where
  "TransactionManager connection factory =
     (case connection of
        Some c \<Rightarrow> Inr (\<lambda>u. Given c)
      | None \<Rightarrow> (case factory of None \<Rightarrow> Inl (text_error ''connection or connection_factory is required'')
          | Some build \<Rightarrow> Inr (\<lambda>u. Made (build ()))))"

definition manager_transaction ::
  "'d driver \<Rightarrow> ('d, 'a) operation \<Rightarrow> 'd connection_source \<Rightarrow> (db_error + 'a) \<times> 'd connection option" where
  "manager_transaction drv body src =
     (case src of
        Given c \<Rightarrow> (case with_connection drv body c of (out, c') \<Rightarrow> (out, Some c'))
      | Made None \<Rightarrow> (Inl (text_error ''database connection is unavailable''), None)
      | Made (Some c) \<Rightarrow> (case with_connection drv body c of (out, c') \<Rightarrow> (out, Some (c'\<lparr>is_closed := True\<rparr>))))"

definition transaction ::
  "'d driver \<Rightarrow> ('d, 'a) operation \<Rightarrow> 'd connection \<Rightarrow> (db_error + 'a) \<times> 'd connection" where
  "transaction drv body c =
     (case manager_transaction drv body (Given c) of (out, c') \<Rightarrow> (out, case c' of None \<Rightarrow> c | Some d \<Rightarrow> d))"

section \<open>Retries\<close>

definition retry_delay :: "rat \<Rightarrow> nat \<Rightarrow> rat" where
  "retry_delay base_delay attempt = max 0 base_delay * 2 ^ attempt"

text \<open>The loop from one attempt on; the operation may behave differently in each attempt. The times slept
  are returned in order.\<close>

function retry_from ::
  "'d driver \<Rightarrow> (nat \<Rightarrow> ('d, 'a) operation) \<Rightarrow> nat \<Rightarrow> rat \<Rightarrow> nat \<Rightarrow> 'd connection \<Rightarrow>
   (db_error + 'a) \<times> 'd connection \<times> rat list" where
  "retry_from drv body retries base attempt c =
     (if attempt > retries then (Inl \<lparr>err_args = [], err_text = ''deadlock retry loop did not return''\<rparr>, c, [])
      else case transaction drv (body attempt) c of
        (Inr x, c') \<Rightarrow> (Inr x, c', [])
      | (Inl e, c') \<Rightarrow>
          if \<not> is_retryable_deadlock e \<or> attempt \<ge> retries then (Inl e, c', [])
          else (case retry_from drv body retries base (attempt + 1) c' of
            (out, c2, sleeps) \<Rightarrow>
              (out, c2, (if retry_delay base attempt \<noteq> 0 then [retry_delay base attempt] else []) @ sleeps)))"
  by pat_completeness auto

termination retry_from
  by (relation "measure (\<lambda>(drv, body, retries, base, attempt, c). retries + 1 - attempt)") auto

declare retry_from.simps [simp del]

definition run_transaction_with_deadlock_retry ::
  "'d driver \<Rightarrow> (nat \<Rightarrow> ('d, 'a) operation) \<Rightarrow> int \<Rightarrow> rat \<Rightarrow> 'd connection \<Rightarrow>
   (db_error + 'a) \<times> 'd connection \<times> rat list" where
  "run_transaction_with_deadlock_retry drv body max_retries base_delay c =
     retry_from drv body (nat (max 0 max_retries)) base_delay 0 c"

section \<open>All or nothing\<close>

text \<open>A connection between transactions, and a driver whose rollback works.\<close>

definition clean :: "'d connection \<Rightarrow> bool" where
  "clean c \<longleftrightarrow> working c = committed c"

definition rollback_works :: "'d driver \<Rightarrow> bool" where
  "rollback_works drv \<longleftrightarrow> (\<forall>c. rollback_error drv c = None)"

lemma transaction_eq: "transaction drv body c = with_connection drv body c"
  by (simp add: transaction_def manager_transaction_def split: prod.split)

lemma transaction_cases:
  assumes "rollback_works drv" "clean c" "transaction drv body c = (out, c')"
  shows "clean c' \<and> (case out of
      Inr x \<Rightarrow> body (committed c) = (Inr x, committed c')
    | Inl e \<Rightarrow> committed c' = committed c \<and>
        (fst (body (committed c)) = Inl e \<or> (\<exists>x w. body (committed c) = (Inr x, w) \<and> commit_error drv (c\<lparr>working := w\<rparr>) = Some e)))"
proof (cases "body (committed c)")
  case (Pair r w)
  show ?thesis
  proof (cases r)
    case (Inl e)
    then show ?thesis using assms Pair
      by (auto simp: transaction_eq with_connection_def clean_def roll_back_def rollback_works_def)
  next
    case (Inr x)
    then show ?thesis using assms Pair
      by (auto simp: transaction_eq with_connection_def clean_def roll_back_def rollback_works_def Let_def split: option.splits)
  qed
qed

text \<open>The outcome of the loop from an attempt on: the index of the last attempt, before which all attempts
  failed with a deadlock.\<close>

definition attempt_fails :: "'d driver \<Rightarrow> ('d, 'a) operation \<Rightarrow> 'd connection \<Rightarrow> bool" where
  "attempt_fails drv body c \<longleftrightarrow> (\<exists>e c'. transaction drv body c = (Inl e, c') \<and> is_retryable_deadlock e)"

lemma transaction_error_state:
  assumes "rollback_works drv" "clean c" "transaction drv body c = (Inl e, c')"
  shows "c' = c"
proof -
  have "is_closed c' = is_closed c" using assms(3)
    by (auto simp: transaction_eq with_connection_def roll_back_def Let_def split: prod.splits sum.splits option.splits)
  moreover have "clean c'" "committed c' = committed c" using transaction_cases [OF assms] by auto
  ultimately show ?thesis using assms(2) by (simp add: clean_def)
qed

lemma retry_from_outcome:
  assumes "rollback_works drv" "clean c" "attempt \<le> retries"
    and "retry_from drv body retries base attempt c = (out, c', sleeps)"
  shows "\<exists>k. attempt \<le> k \<and> k \<le> retries \<and> (\<forall>i. attempt \<le> i \<longrightarrow> i < k \<longrightarrow> attempt_fails drv (body i) c) \<and>
    transaction drv (body k) c = (out, c') \<and>
    sleeps = (if base > 0 then map (retry_delay base) [attempt..<k] else []) \<and>
    (case out of Inl e \<Rightarrow> k = retries \<or> \<not> is_retryable_deadlock e | Inr x \<Rightarrow> True)"
  using assms(2-)
proof (induction "retries - attempt" arbitrary: attempt c out c' sleeps)
  case 0
  then show ?case
    by (subst (asm) retry_from.simps) (auto split: prod.splits sum.splits if_splits intro!: exI [of _ attempt])
next
  case (Suc n)
  obtain r c1 where t: "transaction drv (body attempt) c = (r, c1)" by (metis surj_pair)
  show ?case
  proof (cases "\<exists>e. r = Inl e \<and> is_retryable_deadlock e")
    case False
    then show ?thesis using Suc.prems t
      by (subst (asm) retry_from.simps) (auto split: sum.splits if_splits intro!: exI [of _ attempt])
  next
    case True
    then obtain e where e: "r = Inl e" "is_retryable_deadlock e" by blast
    have c1: "c1 = c" using transaction_error_state [OF assms(1) Suc.prems(1)] t e by simp
    have lt: "attempt < retries" using Suc.hyps(2) by simp
    obtain out' c2 sl where r: "retry_from drv body retries base (attempt + 1) c = (out', c2, sl)" by (metis prod_cases3)
    have "retry_from drv body retries base attempt c =
        (out', c2, (if retry_delay base attempt \<noteq> 0 then [retry_delay base attempt] else []) @ sl)"
      using t e c1 lt r by (subst retry_from.simps) simp
    then have o: "out = out'" "c' = c2" "sleeps = (if retry_delay base attempt \<noteq> 0 then [retry_delay base attempt] else []) @ sl"
      using Suc.prems(3) by simp_all
    obtain k where k: "attempt + 1 \<le> k" "k \<le> retries" "\<forall>i. attempt + 1 \<le> i \<longrightarrow> i < k \<longrightarrow> attempt_fails drv (body i) c"
      "transaction drv (body k) c = (out', c2)" "sl = (if base > 0 then map (retry_delay base) [attempt + 1..<k] else [])"
      "case out' of Inl e \<Rightarrow> k = retries \<or> \<not> is_retryable_deadlock e | Inr x \<Rightarrow> True"
    proof -
      have "n = retries - (attempt + 1)" "attempt + 1 \<le> retries" using Suc.hyps(2) lt by simp_all
      from Suc.hyps(1) [OF this(1) Suc.prems(1) this(2) r] show ?thesis using that by blast
    qed
    have "attempt_fails drv (body attempt) c" using t e by (auto simp: attempt_fails_def)
    then have "\<forall>i. attempt \<le> i \<longrightarrow> i < k \<longrightarrow> attempt_fails drv (body i) c" using k(3) by (metis Suc_eq_plus1 le_neq_implies_less Suc_leI)
    moreover have "sleeps = (if base > 0 then map (retry_delay base) [attempt..<k] else [])"
      using o(3) k(1,5) by (auto simp: retry_delay_def upt_conv_Cons)
    ultimately show ?thesis using k(1,2,4,6) o(1,2) by (intro exI [of _ k]) auto
  qed
qed

section \<open>Properties\<close>

text \<open>C32: a transaction on a clean connection leaves it clean; when it returns, the committed database is the one
  the operation produced from the committed database, and when it raises, the committed database is unchanged.\<close>

theorem transaction_all_or_nothing:
  assumes "rollback_works drv" "clean c" "transaction drv body c = (out, c')"
  shows "clean c' \<and> (case out of Inr x \<Rightarrow> body (committed c) = (Inr x, committed c') | Inl e \<Rightarrow> committed c' = committed c)"
  using transaction_cases [OF assms] by (cases out) auto

text \<open>C31: the retry loop ends within its bound: it makes at most \<open>max_retries\<close> retries, only after deadlocks, with the
  doubling back-off times, and what it returns or raises is the outcome of its last attempt on the database as it
  was at the start; the final error of the loop body is never raised.\<close>

theorem deadlock_retry_bounded:
  assumes "rollback_works drv" "clean c"
    and "run_transaction_with_deadlock_retry drv body max_retries base_delay c = (out, c', sleeps)"
  shows "\<exists>k. int k \<le> max 0 max_retries \<and> (\<forall>i < k. attempt_fails drv (body i) c) \<and>
    transaction drv (body k) c = (out, c') \<and>
    sleeps = (if base_delay > 0 then map (\<lambda>i. base_delay * 2 ^ i) [0..<k] else []) \<and>
    (case out of Inl e \<Rightarrow> int k = max 0 max_retries \<or> \<not> is_retryable_deadlock e | Inr x \<Rightarrow> True)"
proof -
  obtain k where k: "k \<le> nat (max 0 max_retries)" "\<forall>i. i < k \<longrightarrow> attempt_fails drv (body i) c"
    "transaction drv (body k) c = (out, c')" "sleeps = (if base_delay > 0 then map (retry_delay base_delay) [0..<k] else [])"
    "case out of Inl e \<Rightarrow> k = nat (max 0 max_retries) \<or> \<not> is_retryable_deadlock e | Inr x \<Rightarrow> True"
    using retry_from_outcome [OF assms(1,2) le0 assms(3) [unfolded run_transaction_with_deadlock_retry_def]] by auto
  show ?thesis
  proof (intro exI [of _ k] conjI)
    show "case out of Inl e \<Rightarrow> int k = max 0 max_retries \<or> \<not> is_retryable_deadlock e | Inr x \<Rightarrow> True"
      using k(5) by (auto split: sum.splits)
    show "sleeps = (if base_delay > 0 then map (\<lambda>i. base_delay * 2 ^ i) [0..<k] else [])"
      using k(4) by (simp add: retry_delay_def)
  qed (use k in auto)
qed

definition demo_driver :: "int driver" where
  "demo_driver = \<lparr>commit_error = (\<lambda>c. None), rollback_error = (\<lambda>c. None)\<rparr>"

text \<open>An operation that meets a deadlock in its first attempt.\<close>

definition demo_operation :: "nat \<Rightarrow> (int, int) operation" where
  "demo_operation attempt d = (if attempt = 0 then (Inl \<lparr>err_args = [ArgInt 1213], err_text = ''Deadlock found''\<rparr>, d + 5) else (Inr d, d + 1))"

definition demo_connection :: "int connection" where
  "demo_connection = \<lparr>committed = 7, working = 7, is_closed = False\<rparr>"

theorem transaction_all_or_nothing_witness:
  "committed (snd (transaction demo_driver (demo_operation 0) demo_connection)) = 7"
proof -
  have c: "rollback_works demo_driver" "clean demo_connection"
    by (simp_all add: rollback_works_def demo_driver_def clean_def demo_connection_def)
  have f: "fst (transaction demo_driver (demo_operation 0) demo_connection) = Inl \<lparr>err_args = [ArgInt 1213], err_text = ''Deadlock found''\<rparr>"
    by (simp add: transaction_eq with_connection_def demo_operation_def demo_connection_def)
  show ?thesis
    using transaction_all_or_nothing [OF c, of "demo_operation 0" _ "snd (transaction demo_driver (demo_operation 0) demo_connection)"] f
    by (cases "transaction demo_driver (demo_operation 0) demo_connection") (simp add: demo_connection_def)
qed

theorem deadlock_retry_bounded_witness:
  "\<exists>k. k \<le> 2 \<and> transaction demo_driver (demo_operation k) demo_connection =
    (let r = run_transaction_with_deadlock_retry demo_driver demo_operation 2 (1 / 20) demo_connection in (fst r, fst (snd r)))"
proof -
  have c: "rollback_works demo_driver" "clean demo_connection"
    by (simp_all add: rollback_works_def demo_driver_def clean_def demo_connection_def)
  obtain out c' sl where r: "run_transaction_with_deadlock_retry demo_driver demo_operation 2 (1 / 20) demo_connection = (out, c', sl)"
    by (metis prod_cases3)
  from deadlock_retry_bounded [OF c r] r show ?thesis by auto
qed

end
