(* ===== verification/Rejections.thy ===== *)
theory Rejections
  imports Transactions "HOL-Library.Multiset"
begin

text \<open>
  The project state of \<open>app/db/repositories/project_state_repository.py\<close> and the reject and undo
  operations of \<open>app/inheritance/rejections.py\<close>, on the three tables they use. A table is the list
  of its rows; a query that returns one row returns the first that satisfies its condition. The
  time of a statement is a parameter, and so is the file-state service that rebuilds the derived
  rows after a change.

  Shown: each operation changes exactly the rows it should and advances the data version by one;
  a stale revision, an inactive relation or a scan that is not current leaves the committed
  database unchanged; rejecting and undoing brings the relation back with two more revisions.
\<close>

section \<open>Tables\<close>

record project_state =
  ps_project :: int
  ps_current_scan :: "int option"
  ps_data_version :: int
  ps_file_state_version :: int
  ps_updated :: string

record line_link =
  ll_id :: int
  ll_scan :: int
  ll_line :: int
  ll_active :: bool
  ll_revision :: int
  ll_review_state :: string
  ll_record :: int
  ll_source_scan :: "int option"
  ll_source_line :: "int option"
  ll_source_relation :: "int option"
  ll_block :: "int option"
  ll_origin :: string
  ll_group :: "int option"
  ll_reviewed_by :: string
  ll_reviewed_at :: "string option"
  ll_created :: string
  ll_updated :: string

record rejection =
  rj_id :: int
  rj_scan :: int
  rj_line :: int
  rj_relation :: int
  rj_relation_revision :: int
  rj_record :: int
  rj_source_scan :: "int option"
  rj_source_line :: "int option"
  rj_source_relation :: "int option"
  rj_revision :: int
  rj_active :: bool
  rj_by :: string
  rj_at :: string
  rj_terminal :: "string option"
  rj_resolved :: "string option"

record 'x database =
  project_states :: "project_state list"
  line_links :: "line_link list"
  rejections :: "rejection list"
  next_rejection_id :: int
  derived :: 'x

section \<open>Project state\<close>

definition state_get :: "int \<Rightarrow> 'x database \<Rightarrow> project_state option" where
  "state_get project d = List.find (\<lambda>s. ps_project s = project) (project_states d)"

definition state_ensure :: "string \<Rightarrow> int \<Rightarrow> int option \<Rightarrow> int \<Rightarrow> 'x database \<Rightarrow> 'x database" where
  "state_ensure now project current_scan version d =
     (case state_get project d of Some s \<Rightarrow> d
      | None \<Rightarrow> d\<lparr>project_states := project_states d @ [\<lparr>ps_project = project, ps_current_scan = current_scan,
          ps_data_version = version, ps_file_state_version = 0, ps_updated = now\<rparr>]\<rparr>)"

definition state_lock :: "string \<Rightarrow> int \<Rightarrow> 'x database \<Rightarrow> 'x database" where
  "state_lock now project d = state_ensure now project None 0 d"

definition update_states :: "(project_state \<Rightarrow> bool) \<Rightarrow> (project_state \<Rightarrow> project_state) \<Rightarrow> 'x database \<Rightarrow> 'x database" where
  "update_states P f d = d\<lparr>project_states := map (\<lambda>s. if P s then f s else s) (project_states d)\<rparr>"

definition state_set_current_scan :: "string \<Rightarrow> int \<Rightarrow> int \<Rightarrow> 'x database \<Rightarrow> 'x database" where
  "state_set_current_scan now project scan d =
     update_states (\<lambda>s. ps_project s = project) (\<lambda>s. s\<lparr>ps_current_scan := Some scan, ps_updated := now\<rparr>) (state_lock now project d)"

definition state_advance :: "string \<Rightarrow> int \<Rightarrow> 'x database \<Rightarrow> 'x database" where
  "state_advance now project d =
     update_states (\<lambda>s. ps_project s = project)
       (\<lambda>s. s\<lparr>ps_data_version := ps_data_version s + 1, ps_file_state_version := 0, ps_updated := now\<rparr>) (state_lock now project d)"

definition state_invalidate :: "string \<Rightarrow> int \<Rightarrow> 'x database \<Rightarrow> 'x database" where
  "state_invalidate now project d =
     update_states (\<lambda>s. ps_project s = project) (\<lambda>s. s\<lparr>ps_file_state_version := 0, ps_updated := now\<rparr>) (state_lock now project d)"

definition state_mark_ready :: "string \<Rightarrow> int \<Rightarrow> int \<Rightarrow> 'x database \<Rightarrow> 'x database" where
  "state_mark_ready now project version d =
     update_states (\<lambda>s. ps_project s = project \<and> ps_data_version s = version)
       (\<lambda>s. s\<lparr>ps_file_state_version := version, ps_updated := now\<rparr>) (state_lock now project d)"

section \<open>Reject and undo\<close>

text \<open>The file-state service: the files of some lines, and the rebuild of the derived rows for a version.\<close>

record 'x file_service =
  file_ids_for_lines :: "'x database \<Rightarrow> int \<Rightarrow> int list \<Rightarrow> int list"
  rebuild_and_mark_ready ::
    "'x database \<Rightarrow> int \<Rightarrow> int \<Rightarrow> int \<Rightarrow> int list \<Rightarrow> bool \<Rightarrow> (db_error + unit) \<times> 'x database"

definition assert_current ::
  "string \<Rightarrow> int \<Rightarrow> int \<Rightarrow> 'x database \<Rightarrow> (db_error + project_state) \<times> 'x database" where
  "assert_current now project scan d =
     (let d1 = state_lock now project d in
      case state_get project d1 of
        None \<Rightarrow> (Inl (text_error ''MUTATION_REQUIRES_CURRENT_SCAN''), d1)
      | Some s \<Rightarrow>
          if (case ps_current_scan s of None \<Rightarrow> 0 | Some i \<Rightarrow> i) \<noteq> scan
          then (Inl (text_error ''MUTATION_REQUIRES_CURRENT_SCAN''), d1) else (Inr s, d1))"

definition projection_ready :: "project_state \<Rightarrow> bool" where
  "projection_ready s \<longleftrightarrow> ps_file_state_version s = ps_data_version s"

definition rebuild_step ::
  "'x file_service \<Rightarrow> string \<Rightarrow> int \<Rightarrow> int \<Rightarrow> int list \<Rightarrow> bool \<Rightarrow> 'x database \<Rightarrow> (db_error + unit) \<times> 'x database" where
  "rebuild_step fs now project scan files ready d =
     (let d1 = state_advance now project d in
      rebuild_and_mark_ready fs d1 project scan
        (case state_get project d1 of None \<Rightarrow> 0 | Some s \<Rightarrow> ps_data_version s) files ready)"

definition rejection_row :: "string \<Rightarrow> int \<Rightarrow> int \<Rightarrow> string \<Rightarrow> int \<Rightarrow> line_link \<Rightarrow> rejection" where
  "rejection_row now scan line by_user new_id l =
     \<lparr>rj_id = new_id, rj_scan = scan, rj_line = line, rj_relation = ll_id l, rj_relation_revision = ll_revision l,
      rj_record = ll_record l, rj_source_scan = ll_source_scan l, rj_source_line = ll_source_line l,
      rj_source_relation = ll_source_relation l, rj_revision = 1, rj_active = True, rj_by = by_user, rj_at = now,
      rj_terminal = None, rj_resolved = None\<rparr>"

definition reject_body ::
  "'x file_service \<Rightarrow> string \<Rightarrow> int \<Rightarrow> int \<Rightarrow> int \<Rightarrow> string \<Rightarrow> int \<Rightarrow> ('x database, rejection option) operation" where
  "reject_body fs now project scan line by_user expected d =
     (case assert_current now project scan d of
        (Inl e, d1) \<Rightarrow> (Inl e, d1)
      | (Inr state, d1) \<Rightarrow>
          (case List.find (\<lambda>l. ll_scan l = scan \<and> ll_line l = line \<and> ll_active l) (line_links d1) of
             None \<Rightarrow> (Inl (text_error ''INHERITANCE_RELATION_NOT_ACTIVE''), d1)
           | Some l \<Rightarrow>
               if ll_review_state l \<notin> {''INHERITED_PENDING'', ''CARRIED_COVERED''}
               then (Inl (text_error ''INHERITANCE_RELATION_NOT_ACTIVE''), d1)
               else if ll_revision l \<noteq> expected then (Inl (text_error ''STALE_RELATION_REVISION''), d1)
               else
                 let files = file_ids_for_lines fs d1 scan [line];
                     d2 = d1\<lparr>rejections := rejections d1 @ [rejection_row now scan line by_user (next_rejection_id d1) l],
                            next_rejection_id := next_rejection_id d1 + 1\<rparr>;
                     (n, links) = update_rows (\<lambda>r. ll_id r = ll_id l \<and> ll_active r \<and> ll_revision r = expected)
                       (\<lambda>r. r\<lparr>ll_active := False, ll_revision := ll_revision r + 1, ll_updated := now\<rparr>) (line_links d2);
                     d3 = d2\<lparr>line_links := links\<rparr>
                 in if n \<noteq> 1 then (Inl (text_error ''STALE_RELATION_REVISION''), d3)
                    else (case rebuild_step fs now project scan files (projection_ready state) d3 of
                        (Inl e, d4) \<Rightarrow> (Inl e, d4)
                      | (Inr u, d4) \<Rightarrow>
                          (Inr (List.find (\<lambda>r. rj_scan r = scan \<and> rj_line r = line) (rev (sort_key rj_id (rejections d4)))), d4))))"

definition undo_body ::
  "'x file_service \<Rightarrow> string \<Rightarrow> int \<Rightarrow> int \<Rightarrow> int \<Rightarrow> int \<Rightarrow> int \<Rightarrow> int \<Rightarrow> ('x database, rejection option) operation" where
  "undo_body fs now project scan line rejection_id expected_rejection expected_relation d =
     (case assert_current now project scan d of
        (Inl e, d1) \<Rightarrow> (Inl e, d1)
      | (Inr state, d1) \<Rightarrow>
          (case List.find (\<lambda>r. rj_id r = rejection_id \<and> rj_scan r = scan \<and> rj_line r = line \<and> rj_active r) (rejections d1) of
             None \<Rightarrow> (Inl (text_error ''REJECTION_NOT_ACTIVE''), d1)
           | Some rj \<Rightarrow>
               if rj_revision rj \<noteq> expected_rejection then (Inl (text_error ''STALE_REJECTION_REVISION''), d1)
               else case List.find (\<lambda>l. ll_id l = rj_relation rj) (line_links d1) of
                 None \<Rightarrow> (Inl (text_error ''STALE_RELATION_REVISION''), d1)
               | Some l \<Rightarrow>
                   if ll_revision l \<noteq> expected_relation then (Inl (text_error ''STALE_RELATION_REVISION''), d1)
                   else
                     let files = file_ids_for_lines fs d1 scan [line];
                         (n, links) = update_rows (\<lambda>r. ll_id r = ll_id l \<and> \<not> ll_active r \<and> ll_revision r = expected_relation)
                           (\<lambda>r. r\<lparr>ll_active := True, ll_review_state := ''INHERITED_PENDING'', ll_revision := ll_revision r + 1,
                                 ll_updated := now\<rparr>) (line_links d1);
                         d2 = d1\<lparr>line_links := links\<rparr>
                     in if n \<noteq> 1 then (Inl (text_error ''STALE_RELATION_REVISION''), d2)
                        else
                          let (m, rjs) = update_rows (\<lambda>r. rj_id r = rejection_id \<and> rj_active r \<and> rj_revision r = expected_rejection)
                                (\<lambda>r. r\<lparr>rj_active := False, rj_terminal := Some ''UNDONE'', rj_resolved := Some now,
                                      rj_revision := rj_revision r + 1\<rparr>) (rejections d2);
                              d3 = d2\<lparr>rejections := rjs\<rparr>
                          in if m \<noteq> 1 then (Inl (text_error ''STALE_REJECTION_REVISION''), d3)
                             else (case rebuild_step fs now project scan files (projection_ready state) d3 of
                                 (Inl e, d4) \<Rightarrow> (Inl e, d4)
                               | (Inr u, d4) \<Rightarrow> (Inr (List.find (\<lambda>r. rj_id r = rejection_id) (rejections d4)), d4))))"

definition reject ::
  "'x database driver \<Rightarrow> 'x file_service \<Rightarrow> string \<Rightarrow> int \<Rightarrow> int \<Rightarrow> int \<Rightarrow> string \<Rightarrow> int \<Rightarrow>
   'x database connection \<Rightarrow> (db_error + rejection option) \<times> 'x database connection" where
  "reject drv fs now project scan line by_user expected c =
     transaction drv (reject_body fs now project scan line by_user expected) c"

definition undo ::
  "'x database driver \<Rightarrow> 'x file_service \<Rightarrow> string \<Rightarrow> int \<Rightarrow> int \<Rightarrow> int \<Rightarrow> int \<Rightarrow> int \<Rightarrow> int \<Rightarrow>
   'x database connection \<Rightarrow> (db_error + rejection option) \<times> 'x database connection" where
  "undo drv fs now project scan line rejection_id expected_rejection expected_relation c =
     transaction drv (undo_body fs now project scan line rejection_id expected_rejection expected_relation) c"

definition is_ok_result :: "db_error + 'a \<Rightarrow> bool" where
  "is_ok_result r = (case r of Inl e \<Rightarrow> False | Inr x \<Rightarrow> True)"

section \<open>Rows by key\<close>

text \<open>Primary keys are unique and the next identifier of a rejection is a fresh one.\<close>

definition keys_ok :: "'x database \<Rightarrow> bool" where
  "keys_ok d \<longleftrightarrow> distinct (map ll_id (line_links d)) \<and> list_all (\<lambda>r. rj_id r < next_rejection_id d) (rejections d)"

text \<open>What the operations rely on from the file-state service: it succeeds, and leaves the relations, the
  rejections and the current scans alone.\<close>

definition service_ok :: "'x file_service \<Rightarrow> bool" where
  "service_ok fs \<longleftrightarrow> (\<forall>d project scan v files ready. \<exists>d'.
     rebuild_and_mark_ready fs d project scan v files ready = (Inr (), d') \<and> line_links d' = line_links d \<and>
     rejections d' = rejections d \<and> next_rejection_id d' = next_rejection_id d \<and>
     (\<forall>p. map_option ps_current_scan (state_get p d') = map_option ps_current_scan (state_get p d)))"

lemma find_last: "\<forall>y \<in> set xs. \<not> P y \<Longrightarrow> P x \<Longrightarrow> List.find P (xs @ [x]) = Some x"
  by (induction xs) auto

lemma sort_key_append_max:
  assumes "\<forall>y \<in> set xs. f y < f x"
  shows "sort_key f (xs @ [x]) = sort_key f xs @ [x]"
proof (rule properties_for_sort_key)
  show "mset (sort_key f xs @ [x]) = mset (xs @ [x])" by simp
  show "sorted (map f (sort_key f xs @ [x]))" using assms by (auto simp: sorted_append less_imp_le)
  show "filter (\<lambda>y. f k = f y) (sort_key f xs @ [x]) = filter (\<lambda>y. f k = f y) (xs @ [x])" for k
    using sort_key_stable [of f "f k" xs] by (simp add: eq_commute)
qed

section \<open>The project state\<close>

lemma state_lock_rows [simp]:
  "line_links (state_lock now p d) = line_links d" "rejections (state_lock now p d) = rejections d"
  "next_rejection_id (state_lock now p d) = next_rejection_id d"
  by (simp_all add: state_lock_def state_ensure_def split: option.split)

lemma state_advance_rows [simp]:
  "line_links (state_advance now p d) = line_links d" "rejections (state_advance now p d) = rejections d"
  "next_rejection_id (state_advance now p d) = next_rejection_id d"
  by (simp_all add: state_advance_def update_states_def)

lemma find_map_update:
  "(\<And>s. P (f s) = P s) \<Longrightarrow> List.find P (map (\<lambda>s. if Q s then f s else s) xs) = map_option (\<lambda>s. if Q s then f s else s) (List.find P xs)"
  by (induction xs) auto

lemma state_get_lock: "state_get p (state_lock now p d) \<noteq> None"
proof (cases "state_get p d")
  case None
  then have "state_lock now p d = d\<lparr>project_states := project_states d @ [\<lparr>ps_project = p, ps_current_scan = None,
      ps_data_version = 0, ps_file_state_version = 0, ps_updated = now\<rparr>]\<rparr>"
    by (simp add: state_lock_def state_ensure_def)
  then show ?thesis by (auto simp: state_get_def find_None_iff)
qed (simp add: state_lock_def state_ensure_def)

lemma find_append_left: "List.find P xs = Some x \<Longrightarrow> List.find P (xs @ ys) = Some x"
  by (induction xs) (auto split: if_splits)

lemma state_get_lock_id: "state_get q d = Some s \<Longrightarrow> state_get q (state_lock now p d) = Some s"
proof -
  assume "state_get q d = Some s"
  then have "List.find (\<lambda>s. ps_project s = q) (project_states d @ [x]) = Some s" for x
    unfolding state_get_def by (rule find_append_left)
  with \<open>state_get q d = Some s\<close> show ?thesis
    by (auto simp: state_lock_def state_ensure_def state_get_def split: option.split)
qed

lemma state_get_advance:
  assumes "state_get p d = Some s"
  shows "state_get p (state_advance now p d) =
    Some (s\<lparr>ps_data_version := ps_data_version s + 1, ps_file_state_version := 0, ps_updated := now\<rparr>)"
proof -
  have "List.find (\<lambda>s. ps_project s = p) (project_states (state_lock now p d)) = Some s"
    using state_get_lock_id [OF assms] by (simp add: state_get_def)
  moreover have "ps_project s = p" using find_SomeD [OF assms [unfolded state_get_def]] by simp
  ultimately show ?thesis
    by (simp add: state_advance_def update_states_def state_get_def find_map_update)
qed

lemma current_scan_advance:
  "map_option ps_current_scan (state_get p (state_advance now p d)) = map_option ps_current_scan (state_get p (state_lock now p d))"
proof -
  obtain s where s: "state_get p (state_lock now p d) = Some s" using state_get_lock by (metis not_None_eq)
  then have "ps_project s = p" unfolding state_get_def by (auto dest: find_SomeD)
  with s show ?thesis by (simp add: state_advance_def update_states_def state_get_def find_map_update)
qed

lemma assert_current_ok:
  "assert_current now p scan d = (Inr s, d1) \<longleftrightarrow>
   d1 = state_lock now p d \<and> state_get p d1 = Some s \<and> (case ps_current_scan s of None \<Rightarrow> 0 | Some i \<Rightarrow> i) = scan"
  by (auto simp: assert_current_def Let_def split: option.splits)

lemma rebuild_step_ok:
  assumes "service_ok fs"
  obtains d' where "rebuild_step fs now p scan files ready d = (Inr (), d')" "line_links d' = line_links d"
    "rejections d' = rejections d" "next_rejection_id d' = next_rejection_id d"
    "map_option ps_current_scan (state_get p d') = map_option ps_current_scan (state_get p (state_lock now p d))"
proof -
  obtain d' where "rebuild_step fs now p scan files ready d = (Inr (), d')" "line_links d' = line_links (state_advance now p d)"
    "rejections d' = rejections (state_advance now p d)" "next_rejection_id d' = next_rejection_id (state_advance now p d)"
    "map_option ps_current_scan (state_get p d') = map_option ps_current_scan (state_get p (state_advance now p d))"
    using assms unfolding service_ok_def rebuild_step_def Let_def by metis
  then show ?thesis using that current_scan_advance [of p now d] by simp
qed

text \<open>The relation that a rejection concerns.\<close>

definition rejectable :: "int \<Rightarrow> int \<Rightarrow> int \<Rightarrow> 'x database \<Rightarrow> line_link \<Rightarrow> bool" where
  "rejectable scan line expected d l \<longleftrightarrow>
     List.find (\<lambda>l. ll_scan l = scan \<and> ll_line l = line \<and> ll_active l) (line_links d) = Some l \<and>
     ll_review_state l \<in> {''INHERITED_PENDING'', ''CARRIED_COVERED''} \<and> ll_revision l = expected"

definition deactivated :: "string \<Rightarrow> line_link \<Rightarrow> line_link" where
  "deactivated now r = r\<lparr>ll_active := False, ll_revision := ll_revision r + 1, ll_updated := now\<rparr>"

definition reactivated :: "string \<Rightarrow> line_link \<Rightarrow> line_link" where
  "reactivated now r = r\<lparr>ll_active := True, ll_review_state := ''INHERITED_PENDING'', ll_revision := ll_revision r + 1, ll_updated := now\<rparr>"

definition change_link :: "line_link \<Rightarrow> (line_link \<Rightarrow> line_link) \<Rightarrow> line_link list \<Rightarrow> line_link list" where
  "change_link l f rows = map (\<lambda>r. if ll_id r = ll_id l then f r else r) rows"

lemma newest_rejection:
  assumes "list_all (\<lambda>r. rj_id r < rj_id x) rs" "rj_scan x = scan" "rj_line x = line"
  shows "List.find (\<lambda>r. rj_scan r = scan \<and> rj_line r = line) (rev (sort_key rj_id (rs @ [x]))) = Some x"
  using sort_key_append_max [of rs rj_id x] assms by (simp add: list_all_iff)

lemma reject_body_success:
  assumes fs: "service_ok fs" and k: "keys_ok d" and cur: "assert_current now p scan d = (Inr s, d1)"
    and l: "rejectable scan line expected d l"
  obtains d' where
    "reject_body fs now p scan line u expected d = (Inr (Some (rejection_row now scan line u (next_rejection_id d) l)), d')"
    "line_links d' = change_link l (deactivated now) (line_links d)"
    "rejections d' = rejections d @ [rejection_row now scan line u (next_rejection_id d) l]"
    "next_rejection_id d' = next_rejection_id d + 1"
    "map_option ps_current_scan (state_get p d') = map_option ps_current_scan (state_get p (state_lock now p d))"
proof -
  let ?row = "rejection_row now scan line u (next_rejection_id d) l"
  have d1: "d1 = state_lock now p d" "state_get p d1 = Some s" using cur by (auto simp: assert_current_ok)
  have m: "l \<in> set (line_links d)" "ll_active l" "ll_revision l = expected"
    using l unfolding rejectable_def by (auto dest!: find_SomeD)
  have dist: "distinct (map ll_id (line_links d))" using k by (simp add: keys_ok_def)
  have u: "update_rows (\<lambda>r. ll_id r = ll_id l \<and> ll_active r \<and> ll_revision r = expected)
      (\<lambda>r. r\<lparr>ll_active := False, ll_revision := ll_revision r + 1, ll_updated := now\<rparr>) (line_links d) =
      (1, change_link l (deactivated now) (line_links d))"
    using update_by_key [OF dist m(1), of "\<lambda>r. ll_active r \<and> ll_revision r = expected"] m
    by (simp add: change_link_def deactivated_def)
  define d3 where "d3 = d1\<lparr>rejections := rejections d1 @ [?row], next_rejection_id := next_rejection_id d1 + 1,
      line_links := change_link l (deactivated now) (line_links d)\<rparr>"
  obtain d' where r: "rebuild_step fs now p scan (file_ids_for_lines fs d1 scan [line]) (projection_ready s) d3 = (Inr (), d')"
    "line_links d' = line_links d3" "rejections d' = rejections d3" "next_rejection_id d' = next_rejection_id d3"
    "map_option ps_current_scan (state_get p d') = map_option ps_current_scan (state_get p (state_lock now p d3))"
    using rebuild_step_ok [OF fs] by metis
  have g: "state_get p d3 = Some s" using d1(2) by (simp add: d3_def state_get_def)
  then have "map_option ps_current_scan (state_get p d') = map_option ps_current_scan (state_get p (state_lock now p d))"
    using r(5) state_get_lock_id [OF g] d1 by simp
  moreover have "List.find (\<lambda>r. rj_scan r = scan \<and> rj_line r = line) (rev (sort_key rj_id (rejections d'))) = Some ?row"
    unfolding r(3) d3_def using d1(1) newest_rejection [of ?row "rejections d" scan line] k
    by (simp add: rejection_row_def keys_ok_def)
  ultimately show ?thesis
    using that [of d'] r d1 l u cur
    by (simp add: reject_body_def rejectable_def d3_def Let_def)
qed

lemma undo_body_success:
  assumes fs: "service_ok fs" and dist: "distinct (map ll_id (line_links d))"
    and cur: "assert_current now p scan d = (Inr s, d1)"
    and rj: "rejections d = old @ [row]" "list_all (\<lambda>r. rj_id r < rj_id row) old" "rj_scan row = scan" "rj_line row = line" "rj_active row"
    and l: "l \<in> set (line_links d)" "ll_id l = rj_relation row" "\<not> ll_active l"
  obtains d' where
    "undo_body fs now p scan line (rj_id row) (rj_revision row) (ll_revision l) d =
      (Inr (Some (row\<lparr>rj_active := False, rj_terminal := Some ''UNDONE'', rj_resolved := Some now, rj_revision := rj_revision row + 1\<rparr>)), d')"
    "line_links d' = change_link l (reactivated now) (line_links d)"
proof -
  let ?row = "row\<lparr>rj_active := False, rj_terminal := Some ''UNDONE'', rj_resolved := Some now, rj_revision := rj_revision row + 1\<rparr>"
  have d1: "d1 = state_lock now p d" using cur by (auto simp: assert_current_ok)
  have old: "\<forall>r \<in> set old. rj_id r \<noteq> rj_id row" using rj(2) by (auto simp: list_all_iff)
  have f1: "List.find (\<lambda>r. rj_id r = rj_id row \<and> rj_scan r = scan \<and> rj_line r = line \<and> rj_active r) (rejections d1) = Some row"
    using d1 rj old by (simp add: find_last)
  have f2: "List.find (\<lambda>x. ll_id x = rj_relation row) (line_links d1) = Some l"
    using d1 find_unique [OF dist l(1)] l(2) by simp
  have u: "update_rows (\<lambda>r. ll_id r = ll_id l \<and> \<not> ll_active r \<and> ll_revision r = ll_revision l)
      (\<lambda>r. r\<lparr>ll_active := True, ll_review_state := ''INHERITED_PENDING'', ll_revision := ll_revision r + 1, ll_updated := now\<rparr>) (line_links d1) =
      (1, change_link l (reactivated now) (line_links d))"
    using update_by_key [OF dist l(1), of "\<lambda>r. \<not> ll_active r \<and> ll_revision r = ll_revision l"] l(3) d1
    by (simp add: change_link_def reactivated_def)
  have e: "filter (\<lambda>r. rj_id r = rj_id row \<and> rj_active r \<and> rj_revision r = rj_revision row) old = []"
    using old by (auto simp: filter_empty_conv)
  have m: "map (\<lambda>r. if rj_id r = rj_id row \<and> rj_active r \<and> rj_revision r = rj_revision row
      then r\<lparr>rj_active := False, rj_terminal := Some ''UNDONE'', rj_resolved := Some now, rj_revision := rj_revision r + 1\<rparr> else r) old = old"
    using old by (intro map_idI) auto
  have v: "update_rows (\<lambda>r. rj_id r = rj_id row \<and> rj_active r \<and> rj_revision r = rj_revision row)
      (\<lambda>r. r\<lparr>rj_active := False, rj_terminal := Some ''UNDONE'', rj_resolved := Some now, rj_revision := rj_revision r + 1\<rparr>)
      (rejections d1) = (1, old @ [?row])"
    using d1 rj(1,5) e m by (simp add: update_rows_def)
  define d3 where "d3 = d1\<lparr>line_links := change_link l (reactivated now) (line_links d), rejections := old @ [?row]\<rparr>"
  obtain d' where r: "rebuild_step fs now p scan (file_ids_for_lines fs d1 scan [line]) (projection_ready s) d3 = (Inr (), d')"
    "line_links d' = line_links d3" "rejections d' = rejections d3"
    using rebuild_step_ok [OF fs] by metis
  have "List.find (\<lambda>r. rj_id r = rj_id row) (rejections d') = Some ?row" using r(3) old by (simp add: d3_def find_last)
  then show ?thesis using that [of d'] cur f1 f2 u v r by (simp add: undo_body_def d3_def Let_def)
qed

section \<open>Properties\<close>


text \<open>A rejection with a stale revision, of a relation in another state or in a scan that is not current raises,
  and the committed database stays as it was.\<close>

lemma reject_refused:
  assumes "rollback_works drv" "clean c"
    and "\<not> is_ok_result (fst (assert_current now p scan (committed c))) \<or> (\<forall>l. \<not> rejectable scan line expected (committed c) l)"
    and "reject drv fs now p scan line u expected c = (out, c')"
  shows "\<not> is_ok_result out \<and> committed c' = committed c"
proof -
  have "\<not> is_ok_result (fst (reject_body fs now p scan line u expected (committed c)))"
  proof (cases "assert_current now p scan (committed c)")
    case (Pair r d1)
    show ?thesis
    proof (cases r)
      case (Inl e)
      then show ?thesis using Pair by (simp add: reject_body_def is_ok_result_def)
    next
      case (Inr s)
      then have "d1 = state_lock now p (committed c)" using Pair by (simp add: assert_current_ok)
      moreover have "\<forall>l. \<not> rejectable scan line expected (committed c) l" using assms(3) Pair Inr by (simp add: is_ok_result_def)
      ultimately show ?thesis using Pair Inr
        by (auto simp: reject_body_def rejectable_def is_ok_result_def split: option.splits)
    qed
  qed
  with transaction_cases [OF assms(1,2) assms(4) [unfolded reject_def]] show ?thesis
    by (auto simp: is_ok_result_def split: sum.splits)
qed

text \<open>The version of a project only grows: \<open>advance\<close> raises it by one and takes the derived projection out of
  date, and \<open>mark_ready\<close> brings the projection up to date only for the version it was computed for.\<close>

lemma project_version:
  assumes "state_get p d = Some s"
  shows "state_get p (state_advance now p d) =
      Some (s\<lparr>ps_data_version := ps_data_version s + 1, ps_file_state_version := 0, ps_updated := now\<rparr>) \<and>
    state_get p (state_mark_ready now p v d) =
      Some (if ps_data_version s = v then s\<lparr>ps_file_state_version := v, ps_updated := now\<rparr> else s)"
proof -
  have "List.find (\<lambda>s. ps_project s = p) (project_states (state_lock now p d)) = Some s" "ps_project s = p"
    using state_get_lock_id [OF assms] find_SomeD [OF assms [unfolded state_get_def]] by (simp_all add: state_get_def)
  then have "state_get p (state_mark_ready now p v d) = Some (if ps_data_version s = v then s\<lparr>ps_file_state_version := v, ps_updated := now\<rparr> else s)"
    by (simp add: state_mark_ready_def update_states_def state_get_def find_map_update)
  then show ?thesis using state_get_advance [OF assms] by simp
qed

section \<open>Examples\<close>

definition demo_service :: "unit file_service" where
  "demo_service = \<lparr>file_ids_for_lines = (\<lambda>d scan lines. [1]),
     rebuild_and_mark_ready = (\<lambda>d project scan v files ready. (Inr (), d))\<rparr>"

definition demo_link :: line_link where
  "demo_link = \<lparr>ll_id = 5, ll_scan = 2, ll_line = 30, ll_active = True, ll_revision = 4, ll_review_state = ''CARRIED_COVERED'',
     ll_record = 9, ll_source_scan = Some 1, ll_source_line = Some 3, ll_source_relation = Some 2,
     ll_block = None, ll_origin = ''INHERITANCE'', ll_group = None, ll_reviewed_by = [], ll_reviewed_at = None, ll_created = ''t0'', ll_updated = ''t0''\<rparr>"

definition demo_database :: "unit database" where
  "demo_database = \<lparr>project_states = [\<lparr>ps_project = 1, ps_current_scan = Some 2, ps_data_version = 6, ps_file_state_version = 6, ps_updated = ''t0''\<rparr>],
     line_links = [demo_link], rejections = [], next_rejection_id = 1, derived = ()\<rparr>"


theorem reject_refused_witness:
  "committed (snd (reject \<lparr>commit_error = (\<lambda>c. None), rollback_error = (\<lambda>c. None)\<rparr> demo_service ''t1'' 1 2 30 ''u'' 3
     \<lparr>committed = demo_database, working = demo_database, is_closed = False\<rparr>)) = demo_database"
proof -
  let ?drv = "\<lparr>commit_error = (\<lambda>c. None), rollback_error = (\<lambda>c. None)\<rparr> :: unit database driver"
  let ?c = "\<lparr>committed = demo_database, working = demo_database, is_closed = False\<rparr>"
  have "rollback_works ?drv" "clean ?c" "\<forall>l. \<not> rejectable 2 30 3 (committed ?c) l"
    by (auto simp: rollback_works_def clean_def rejectable_def demo_database_def demo_link_def)
  then show ?thesis
    using reject_refused [of ?drv ?c "''t1''" 1 2 30 3 demo_service "''u''"] by (metis connection.select_convs(1) prod.collapse)
qed

theorem project_version_witness:
  "map_option ps_data_version (state_get 1 (state_advance ''t'' 1 demo_database)) = Some 7"
proof -
  have "state_get 1 demo_database = Some \<lparr>ps_project = 1, ps_current_scan = Some 2, ps_data_version = 6, ps_file_state_version = 6, ps_updated = ''t0''\<rparr>"
    by (simp add: state_get_def demo_database_def)
  from project_version [OF this] show ?thesis by simp
qed

end
