(* ===== verification/ReadSet.thy ===== *)
theory ReadSet
  imports Prelude "HOL-Library.Word" "HOL-Library.Multiset"
begin

text \<open>
  The read-set fingerprint of \<open>app/inheritance/read_set.py\<close>: counts, sums modulo 2^256 and exclusive-ors
  of the digests of the relations and records that an inheritance run consulted, and the files it
  read. A digest is a 256-bit word (SHA-256 of the payload text is a parameter), so the masked sum is
  the addition of words. A set is a HOL set.

  Shown: the accumulator refines an abstract observer that keeps the multiset of observations, so
  the fingerprint does not depend on their order; its hexadecimal fields have 64 digits and
  determine the words; a payload matches exactly the accumulators with equal counts, sums,
  exclusive-ors and files.
\<close>

unbundle bit_operations_syntax

section \<open>The accumulator\<close>

type_synonym digest = "256 word"

definition READ_SET_FORMAT :: string where
  "READ_SET_FORMAT = ''inheritance-read-set-v2''"

definition READ_SET_HASH_ALGORITHM :: string where
  "READ_SET_HASH_ALGORITHM = ''sha256-sum-xor-v1''"

definition item_digest :: "(string \<Rightarrow> digest) \<Rightarrow> string \<Rightarrow> int \<Rightarrow> int \<Rightarrow> digest" where
  "item_digest sha kind item_id revision = sha (kind @ '':'' @ show_int item_id @ '':'' @ show_int revision)"

record accumulator =
  relation_count :: nat
  relation_sum :: digest
  relation_xor :: digest
  record_count :: nat
  record_sum :: digest
  record_xor :: digest
  source_files :: "(string \<times> string) set"

definition ReadSetAccumulator :: accumulator where
  "ReadSetAccumulator = \<lparr>relation_count = 0, relation_sum = 0, relation_xor = 0,
     record_count = 0, record_sum = 0, record_xor = 0, source_files = {}\<rparr>"

definition add_source_file :: "string \<Rightarrow> string \<Rightarrow> accumulator \<Rightarrow> accumulator" where
  "add_source_file repository_name file_path a = a\<lparr>source_files := insert (repository_name, file_path) (source_files a)\<rparr>"

definition add_relation :: "(string \<Rightarrow> digest) \<Rightarrow> int \<Rightarrow> int \<Rightarrow> accumulator \<Rightarrow> accumulator" where
  "add_relation sha relation_id relation_revision a =
     (let value = item_digest sha ''relation'' relation_id relation_revision in
      a\<lparr>relation_count := relation_count a + 1, relation_sum := relation_sum a + value,
        relation_xor := relation_xor a XOR value\<rparr>)"

definition add_record :: "(string \<Rightarrow> digest) \<Rightarrow> int \<Rightarrow> int \<Rightarrow> accumulator \<Rightarrow> accumulator" where
  "add_record sha record_id content_revision a =
     (let value = item_digest sha ''record'' record_id content_revision in
      a\<lparr>record_count := record_count a + 1, record_sum := record_sum a + value,
        record_xor := record_xor a XOR value\<rparr>)"

section \<open>The payload\<close>

definition hex_char :: "nat \<Rightarrow> char" where
  "hex_char n = ''0123456789abcdef'' ! n"

text \<open>\<open>format(w, "064x")\<close>: lower-case digits, padded to the left with zeros.\<close>

fun hex_digits :: "nat \<Rightarrow> nat \<Rightarrow> string" where
  "hex_digits 0 n = []"
| "hex_digits (Suc k) n = hex_digits k (n div 16) @ [hex_char (n mod 16)]"

definition hex064 :: "digest \<Rightarrow> string" where
  "hex064 w = hex_digits 64 (unat w)"

type_synonym section_payload = "nat \<times> string \<times> string"

text \<open>A payload is a dictionary; a key may be missing.\<close>

record payload =
  p_format :: "string option"
  p_hash_algorithm :: "string option"
  p_candidate :: "int option"
  p_predecessor :: "int option"
  p_relations :: "section_payload option"
  p_records :: "section_payload option"
  p_source_files :: "(string \<times> string) list option"

definition to_payload :: "accumulator \<Rightarrow> int option \<Rightarrow> int option \<Rightarrow> payload" where
  "to_payload a candidate_scan_id predecessor_scan_id =
     \<lparr>p_format = Some READ_SET_FORMAT, p_hash_algorithm = Some READ_SET_HASH_ALGORITHM,
      p_candidate = candidate_scan_id, p_predecessor = predecessor_scan_id,
      p_relations = Some (relation_count a, hex064 (relation_sum a), hex064 (relation_xor a)),
      p_records = Some (record_count a, hex064 (record_sum a), hex064 (record_xor a)),
      p_source_files = Some (sorted_list_of_set (source_files a))\<rparr>"

text \<open>\<open>None\<close> is a value that is no dictionary.\<close>

definition matches :: "accumulator \<Rightarrow> payload option \<Rightarrow> bool" where
  "matches a p = (case p of None \<Rightarrow> False
     | Some p \<Rightarrow> let expected = to_payload a (p_candidate p) (p_predecessor p) in
         p_format p = Some READ_SET_FORMAT \<and> p_hash_algorithm p = Some READ_SET_HASH_ALGORITHM \<and>
         p_relations p = p_relations expected \<and> p_records p = p_records expected \<and>
         p_source_files p = p_source_files expected)"

section \<open>Hexadecimal fields\<close>

definition hex_value :: "char \<Rightarrow> nat" where
  "hex_value c = length (takeWhile (\<lambda>d. d \<noteq> c) ''0123456789abcdef'')"

definition hex_parse :: "string \<Rightarrow> nat" where
  "hex_parse s = foldl (\<lambda>n c. 16 * n + hex_value c) 0 s"

lemma hex_value_char: "n < 16 \<Longrightarrow> hex_value (hex_char n) = n"
proof -
  have "\<forall>n < 16. hex_value (hex_char n) = n" by code_simp
  then show "n < 16 \<Longrightarrow> hex_value (hex_char n) = n" by blast
qed

lemma length_hex_digits [simp]: "length (hex_digits k n) = k"
  by (induction k n rule: hex_digits.induct) simp_all

lemma hex_parse_digits: "n < 16 ^ k \<Longrightarrow> hex_parse (hex_digits k n) = n"
proof (induction k n rule: hex_digits.induct)
  case (2 k n)
  have "n div 16 < 16 ^ k" using 2(2) by (simp add: div_less_iff_less_mult mult.commute)
  with 2 show ?case by (simp add: hex_parse_def hex_value_char)
qed (simp add: hex_parse_def)

lemma hex_parse_hex064: "hex_parse (hex064 w) = unat w"
proof -
  have "unat w < 2 ^ 256" using unsigned_less [of w] by simp
  also have "(2::nat) ^ 256 = 16 ^ 64" by simp
  finally show ?thesis unfolding hex064_def by (rule hex_parse_digits)
qed

lemma hex064_inject [simp]: "hex064 v = hex064 w \<longleftrightarrow> v = w"
  by (metis hex_parse_hex064 word_unat_eq_iff)

section \<open>The abstract observer\<close>

type_synonym observation = "int \<times> int"

record observer =
  seen_relations :: "observation multiset"
  seen_records :: "observation multiset"
  seen_files :: "(string \<times> string) set"

datatype read_op = ReadFile string string | ReadRelation int int | ReadRecord int int

fun observe :: "read_op \<Rightarrow> observer \<Rightarrow> observer" where
  "observe (ReadFile r f) v = v\<lparr>seen_files := insert (r, f) (seen_files v)\<rparr>"
| "observe (ReadRelation i r) v = v\<lparr>seen_relations := add_mset (i, r) (seen_relations v)\<rparr>"
| "observe (ReadRecord i r) v = v\<lparr>seen_records := add_mset (i, r) (seen_records v)\<rparr>"

fun accumulate :: "(string \<Rightarrow> digest) \<Rightarrow> read_op \<Rightarrow> accumulator \<Rightarrow> accumulator" where
  "accumulate sha (ReadFile r f) a = add_source_file r f a"
| "accumulate sha (ReadRelation i r) a = add_relation sha i r a"
| "accumulate sha (ReadRecord i r) a = add_record sha i r a"

definition xor_mset :: "digest multiset \<Rightarrow> digest" where
  "xor_mset M = fold_mset (\<lambda>x w. w XOR x) 0 M"

interpretation xor_commute: comp_fun_commute "\<lambda>x w :: digest. w XOR x"
  by unfold_locales (simp add: fun_eq_iff ac_simps)

lemma xor_mset_add [simp]: "xor_mset (add_mset v M) = xor_mset M XOR v" "xor_mset {#} = 0"
  by (simp_all add: xor_mset_def)

text \<open>The accumulator that stands for an observer.\<close>

definition fingerprint_of :: "(string \<Rightarrow> digest) \<Rightarrow> observer \<Rightarrow> accumulator" where
  "fingerprint_of sha v =
     (let rel = image_mset (\<lambda>(i, r). item_digest sha ''relation'' i r) (seen_relations v);
          rec = image_mset (\<lambda>(i, r). item_digest sha ''record'' i r) (seen_records v) in
      \<lparr>relation_count = size rel, relation_sum = sum_mset rel, relation_xor = xor_mset rel,
       record_count = size rec, record_sum = sum_mset rec, record_xor = xor_mset rec, source_files = seen_files v\<rparr>)"

definition no_observation :: observer where
  "no_observation = \<lparr>seen_relations = {#}, seen_records = {#}, seen_files = {}\<rparr>"

lemma fingerprint_step: "accumulate sha op (fingerprint_of sha v) = fingerprint_of sha (observe op v)"
  by (cases op) (simp_all add: fingerprint_of_def add_source_file_def add_relation_def add_record_def Let_def ac_simps)

lemma fingerprint_start: "fingerprint_of sha no_observation = ReadSetAccumulator"
  by (simp add: fingerprint_of_def no_observation_def ReadSetAccumulator_def Let_def)

lemma fingerprint_run: "fold (accumulate sha) ops (fingerprint_of sha v) = fingerprint_of sha (fold observe ops v)"
  by (induction ops arbitrary: v) (simp_all add: fingerprint_step)

lemma observe_commute: "observe x \<circ> observe y = observe y \<circ> observe x"
  by (cases x; cases y) (auto simp: fun_eq_iff insert_commute)

lemma observe_files_finite: "finite (seen_files v) \<Longrightarrow> finite (seen_files (fold observe ops v))"
proof (induction ops arbitrary: v)
  case (Cons op ops)
  then show ?case by (cases op) simp_all
qed simp

section \<open>Properties\<close>

text \<open>C40: the accumulator refines the observer that keeps the multiset of all observations: after any sequence of
  reads it is the fingerprint of what was observed.\<close>

theorem accumulator_refines:
  "fold (accumulate sha) ops ReadSetAccumulator = fingerprint_of sha (fold observe ops no_observation)"
  using fingerprint_run [of sha ops no_observation] by (simp add: fingerprint_start)

text \<open>The fingerprint does not depend on the order of the reads.\<close>

lemma read_order_irrelevant:
  assumes "mset ops = mset ops'"
  shows "to_payload (fold (accumulate sha) ops ReadSetAccumulator) c p =
    to_payload (fold (accumulate sha) ops' ReadSetAccumulator) c p"
proof -
  have "fold observe ops = fold observe ops'" using assms by (rule fold_multiset_equiv [OF observe_commute])
  then show ?thesis using fingerprint_run [of sha _ no_observation] by (metis fingerprint_start)
qed

theorem read_order_irrelevant_witness:
  "to_payload (fold (accumulate (\<lambda>s. of_nat (length s))) [ReadRelation 1 2, ReadFile ''r'' ''f'', ReadRecord 10 3] ReadSetAccumulator) None None =
   to_payload (fold (accumulate (\<lambda>s. of_nat (length s))) [ReadRecord 10 3, ReadRelation 1 2, ReadFile ''r'' ''f''] ReadSetAccumulator) None None"
  by (rule read_order_irrelevant) simp

text \<open>A payload written by one accumulator matches another one exactly when counts, sums, exclusive-ors and
  files agree; the two scan identifiers play no part.\<close>

lemma matches_payload_iff:
  assumes "finite (source_files a)" "finite (source_files b)"
  shows "matches a (Some (to_payload b c p)) \<longleftrightarrow> a = b"
proof -
  have "sorted_list_of_set (source_files b) = sorted_list_of_set (source_files a) \<longleftrightarrow> source_files b = source_files a"
    using assms by (metis set_sorted_list_of_set)
  then show ?thesis by (auto simp: matches_def to_payload_def Let_def intro: accumulator.equality)
qed

theorem matches_payload_iff_witness:
  "matches (add_source_file ''r'' ''f'' ReadSetAccumulator) (Some (to_payload (add_source_file ''r'' ''f'' ReadSetAccumulator) (Some 7) None))"
  by (subst matches_payload_iff) (simp_all add: add_source_file_def ReadSetAccumulator_def)

text \<open>Every hexadecimal field has exactly 64 digits, and reading it back gives the word.\<close>

lemma hex_field_roundtrip: "length (hex064 w) = 64 \<and> hex_parse (hex064 w) = unat w"
  by (simp add: hex_parse_hex064) (simp add: hex064_def)

end
