(* ===== verification/Lcov.thy ===== *)
theory Lcov
  imports DiffSyntax
begin

text \<open>
  The LCOV reader of \<open>app/incremental/lcov.py\<close>: \<open>_legacy_fn\<close>, \<open>parse_function_records\<close>,
  \<open>iter_info_records\<close>, \<open>parse_info\<close> and \<open>load_info\<close>. The generator is modelled by the list of
  what it yields; an exception of \<open>int()\<close> is the error of the result. A text stream with
  universal newlines is \<open>stream_lines\<close> of the file's text.

  Shown: function ranges accepted in the modern format are complete and ordered, one record
  never influences the next, rendered records are read back, and two ways in which input that
  passes the checks is dropped or makes the reader fail.
\<close>

record function_range =
  start_line :: nat
  end_line :: "nat option"
  range_name :: string
  range_format :: string

record lcov_record =
  file_path :: string
  lines :: "(nat \<times> nat) list"
  function_ranges :: "function_range list"
  function_range_fallback :: bool

section \<open>Function records\<close>

definition legacy_fn :: "string \<Rightarrow> string \<Rightarrow> function_range option result" where
  "legacy_fn location name =
     (let numbers = py_split (CHR '','') location in
      if length numbers \<notin> {1, 2} \<or> \<not> list_all isdigit numbers then Inr None
      else rbind (py_int (numbers ! 0)) (\<lambda>start.
        if length numbers = 2 then
          rbind (py_int (numbers ! 1)) (\<lambda>e.
            Inr (Some \<lparr>start_line = start, end_line = Some e, range_name = name, range_format = ''legacy''\<rparr>))
        else Inr (Some \<lparr>start_line = start, end_line = None, range_name = name, range_format = ''legacy''\<rparr>)))"

record fn_state =
  modern_ranges :: "(nat \<times> function_range) list"
  modern_names :: "(nat \<times> string) list"
  modern_counts :: "(nat \<times> nat) list"
  legacy :: "function_range list"
  modern_seen :: bool
  modern_invalid :: bool

definition init_fn_state :: fn_state where
  "init_fn_state = \<lparr>modern_ranges = [], modern_names = [], modern_counts = [], legacy = [],
     modern_seen = False, modern_invalid = False\<rparr>"

definition step_FN :: "string \<Rightarrow> fn_state \<Rightarrow> fn_state result" where
  "step_FN payload st =
     rbind (case py_split_max (CHR '','') 2 payload of
              [a, b] \<Rightarrow> legacy_fn a b
            | [a, b, c] \<Rightarrow> legacy_fn (a @ '','' @ b) c
            | _ \<Rightarrow> Inr None)
       (\<lambda>item. Inr (case item of None \<Rightarrow> st | Some i \<Rightarrow> st\<lparr>legacy := legacy st @ [i]\<rparr>))"

definition range_rejected :: "function_range \<Rightarrow> bool" where
  "range_rejected r \<longleftrightarrow> start_line r < 1 \<or>
     (case end_line r of None \<Rightarrow> False | Some e \<Rightarrow> e < start_line r)"

definition store_range :: "nat \<Rightarrow> function_range \<Rightarrow> fn_state \<Rightarrow> fn_state" where
  "store_range index candidate st =
     st\<lparr>modern_invalid := modern_invalid st \<or> range_rejected candidate \<or>
          (case map_of (modern_ranges st) index of None \<Rightarrow> False | Some r \<Rightarrow> r \<noteq> candidate),
        modern_ranges := AList.update index candidate (modern_ranges st)\<rparr>"

definition step_FNL :: "string \<Rightarrow> fn_state \<Rightarrow> fn_state result" where
  "step_FNL payload st0 =
     (let st = st0\<lparr>modern_seen := True\<rparr>; fields = py_split (CHR '','') payload in
      if length fields \<notin> {2, 3} \<or> \<not> isdigit (fields ! 0) \<or> \<not> isdigit (fields ! 1)
      then Inr (st\<lparr>modern_invalid := True\<rparr>)
      else if length fields = 3 \<and> \<not> isdigit (fields ! 2)
      then Inr (st\<lparr>modern_invalid := True\<rparr>)
      else rbind (py_int (fields ! 0)) (\<lambda>index.
           rbind (py_int (fields ! 1)) (\<lambda>start.
           rbind (if length fields = 3 then rbind (py_int (fields ! 2)) (\<lambda>e. Inr (Some e)) else Inr None)
             (\<lambda>e. Inr (store_range index
               \<lparr>start_line = start, end_line = e, range_name = [], range_format = ''modern''\<rparr> st)))))"

definition step_FNA :: "string \<Rightarrow> fn_state \<Rightarrow> fn_state result" where
  "step_FNA payload st0 =
     (let st = st0\<lparr>modern_seen := True\<rparr>; fields = py_split_max (CHR '','') 2 payload in
      if length fields \<noteq> 3 \<or> \<not> isdigit (fields ! 0) \<or> \<not> isdigit (fields ! 1)
      then Inr (st\<lparr>modern_invalid := True\<rparr>)
      else rbind (py_int (fields ! 0)) (\<lambda>index.
           rbind (py_int (fields ! 1)) (\<lambda>count.
             Inr (st\<lparr>modern_invalid := modern_invalid st \<or>
                       (case map_of (modern_names st) index of None \<Rightarrow> False
                        | Some n \<Rightarrow> (map_of (modern_counts st) index, Some n) \<noteq> (Some count, Some (fields ! 2))),
                     modern_counts := AList.update index count (modern_counts st),
                     modern_names := AList.update index (fields ! 2) (modern_names st)\<rparr>))))"

definition fn_step :: "string \<Rightarrow> fn_state \<Rightarrow> fn_state result" where
  "fn_step raw st =
     (if starts_with ''FN:'' raw then step_FN (drop 3 raw) st
      else if starts_with ''FNL:'' raw then step_FNL (drop 4 raw) st
      else if starts_with ''FNA:'' raw then step_FNA (drop 4 raw) st
      else Inr st)"

fun fn_steps :: "string list \<Rightarrow> fn_state \<Rightarrow> fn_state result" where
  "fn_steps [] st = Inr st"
| "fn_steps (raw # rest) st = rbind (fn_step raw st) (fn_steps rest)"

definition named_range :: "fn_state \<Rightarrow> nat \<Rightarrow> function_range \<Rightarrow> function_range" where
  "named_range st index r = r\<lparr>range_name := dict_get (modern_names st) index []\<rparr>"

definition modern_result :: "fn_state \<Rightarrow> function_range list \<times> bool" where
  "modern_result st =
     (let items = sort_key fst (modern_ranges st);
          ranges = map (\<lambda>(index, r). named_range st index r) items;
          bad = modern_invalid st \<or>
            list_ex (\<lambda>(index, r). map_of (modern_names st) index = None \<or>
               (case end_line r of None \<Rightarrow> True | Some e \<Rightarrow> e < start_line r)) items \<or>
            list_ex (\<lambda>(index, n). map_of (modern_ranges st) index = None) (modern_names st)
      in (ranges, bad \<or> ranges = []))"

definition parse_function_records :: "string list \<Rightarrow> (function_range list \<times> bool) result" where
  "parse_function_records raw_lines =
     rbind (fn_steps raw_lines init_fn_state) (\<lambda>st.
       Inr (if modern_seen st then modern_result st else (legacy st, False)))"

section \<open>File records\<close>

text \<open>A text stream with universal newlines, each line without its line end.\<close>

definition stream_lines :: "string \<Rightarrow> string list" where
  "stream_lines text =
     (let ls = py_split NL (normalize_newlines text) in if last ls = [] then butlast ls else ls)"

record reader =
  current :: "lcov_record option"
  function_lines :: "string list"

definition init_reader :: reader where
  "init_reader = \<lparr>current = None, function_lines = []\<rparr>"

definition finish_record :: "lcov_record \<Rightarrow> string list \<Rightarrow> lcov_record result" where
  "finish_record rec fls =
     rbind (parse_function_records fls) (\<lambda>(ranges, fallback).
       Inr (rec\<lparr>function_ranges := ranges,
                function_range_fallback := fallback \<or> list_ex (\<lambda>r. end_line r = None) ranges\<rparr>))"

definition emit :: "reader \<Rightarrow> lcov_record list result" where
  "emit st = (case current st of None \<Rightarrow> Inr []
              | Some rec \<Rightarrow> rbind (finish_record rec (function_lines st)) (\<lambda>r. Inr [r]))"

definition data_line :: "string \<Rightarrow> lcov_record \<Rightarrow> lcov_record result" where
  "data_line payload rec =
     (let fields = py_split (CHR '','') payload in
      if length fields \<ge> 2 \<and> isdigit (fields ! 0) \<and> isdigit (fields ! 1)
      then rbind (py_int (fields ! 0)) (\<lambda>n. rbind (py_int (fields ! 1)) (\<lambda>c.
             Inr (rec\<lparr>lines := AList.update n c (lines rec)\<rparr>)))
      else Inr rec)"

definition new_record :: "string \<Rightarrow> lcov_record" where
  "new_record path = \<lparr>file_path = path, lines = [], function_ranges = [], function_range_fallback = False\<rparr>"

definition read_line :: "string \<Rightarrow> reader \<Rightarrow> (lcov_record list \<times> reader) result" where
  "read_line line st =
     (if line = ''end_of_record'' then rbind (emit st) (\<lambda>out. Inr (out, init_reader))
      else if starts_with ''SF:'' line then
        rbind (emit st) (\<lambda>out. Inr (out, \<lparr>current = Some (new_record (drop 3 line)), function_lines = []\<rparr>))
      else case current st of
        None \<Rightarrow> Inr ([], st)
      | Some rec \<Rightarrow>
          if starts_with ''DA:'' line then
            rbind (data_line (drop 3 line) rec) (\<lambda>rec'. Inr ([], st\<lparr>current := Some rec'\<rparr>))
          else if starts_with ''FN:'' line \<or> starts_with ''FNL:'' line \<or> starts_with ''FNA:'' line then
            Inr ([], st\<lparr>function_lines := function_lines st @ [line]\<rparr>)
          else Inr ([], st))"

fun read_lines :: "string list \<Rightarrow> reader \<Rightarrow> (lcov_record list \<times> reader) result" where
  "read_lines [] st = Inr ([], st)"
| "read_lines (l # ls) st =
     rbind (read_line l st) (\<lambda>(out, st'). rbind (read_lines ls st') (\<lambda>(out', st''). Inr (out @ out', st'')))"

definition records_of_lines :: "string list \<Rightarrow> lcov_record list result" where
  "records_of_lines ls = rbind (read_lines ls init_reader) (\<lambda>(out, st). Inr out)"

definition iter_info_records :: "string \<Rightarrow> lcov_record list result" where
  "iter_info_records text = records_of_lines (stream_lines text)"

definition parse_info :: "string \<Rightarrow> (string \<times> lcov_record) list result" where
  "parse_info text = rbind (iter_info_records text) (\<lambda>items.
     Inr (fold (\<lambda>item d. AList.update (file_path item) item d) items []))"

text \<open>The file system: the text of a regular file, if there is one at the path.\<close>

definition load_info :: "(string \<Rightarrow> string option) \<Rightarrow> string \<Rightarrow> (string \<times> lcov_record) list result" where
  "load_info read_file path =
     (if path = [] then Inl (FileNotFoundError path)
      else case read_file path of None \<Rightarrow> Inl (FileNotFoundError path) | Some text \<Rightarrow> parse_info text)"

section \<open>Function ranges\<close>

definition fn_inv :: "fn_state \<Rightarrow> bool" where
  "fn_inv st \<longleftrightarrow> distinct (map fst (modern_ranges st)) \<and>
     (\<forall>r \<in> set (legacy st). range_format r = ''legacy'') \<and>
     (\<not> modern_invalid st \<longrightarrow> (\<forall>(i, r) \<in> set (modern_ranges st). \<not> range_rejected r))"

lemma set_update_subset: "set (AList.update k v d) \<subseteq> insert (k, v) (set d)"
  by (induction d) auto

lemma legacy_fn_format: "legacy_fn loc n = Inr (Some r) \<Longrightarrow> range_format r = ''legacy''"
  by (auto simp: legacy_fn_def Let_def split: if_splits)

lemma store_range_inv: "fn_inv st \<Longrightarrow> fn_inv (store_range i r st)"
  using set_update_subset [of i r "modern_ranges st"]
  by (fastforce simp: fn_inv_def store_range_def distinct_update)

lemma step_FN_inv:
  assumes "fn_inv st" and "step_FN p st = Inr st'"
  shows "fn_inv st'"
proof -
  from assms(2) consider "st' = st" | loc n r where "legacy_fn loc n = Inr (Some r)" "st' = st\<lparr>legacy := legacy st @ [r]\<rparr>"
    by (auto simp: step_FN_def split: option.splits list.splits)
  then show ?thesis
  proof cases
    case 1
    with assms(1) show ?thesis by simp
  next
    case 2
    with assms(1) legacy_fn_format [OF 2(1)] show ?thesis by (simp add: fn_inv_def)
  qed
qed

lemma step_FNL_inv:
  assumes "fn_inv st" and "step_FNL p st = Inr st'"
  shows "fn_inv st'"
proof -
  have seen: "fn_inv (st\<lparr>modern_seen := True\<rparr>)" "fn_inv (st\<lparr>modern_seen := True, modern_invalid := True\<rparr>)"
    using assms(1) by (simp_all add: fn_inv_def)
  from assms(2) show ?thesis
    by (auto simp: step_FNL_def Let_def split: if_splits intro: seen store_range_inv [OF seen(1)])
qed

lemma step_FNA_inv: "fn_inv st \<Longrightarrow> step_FNA p st = Inr st' \<Longrightarrow> fn_inv st'"
  by (auto simp: step_FNA_def Let_def fn_inv_def split: if_splits)

lemma fn_steps_inv: "fn_inv st \<Longrightarrow> fn_steps raws st = Inr st' \<Longrightarrow> fn_inv st'"
proof (induction raws arbitrary: st)
  case (Cons raw raws)
  from Cons.prems(2) obtain st1 where st1: "fn_step raw st = Inr st1" "fn_steps raws st1 = Inr st'" by auto
  then have "fn_inv st1"
    using Cons.prems(1)
    by (auto simp: fn_step_def simp del: starts_with.simps split: if_splits
        dest: step_FN_inv step_FNL_inv step_FNA_inv)
  with Cons.IH st1 show ?case by blast
qed simp

lemma modern_result_ok:
  assumes "fn_inv st" and "modern_result st = (ranges, False)" and "r \<in> set ranges"
  shows "1 \<le> start_line r \<and> (\<exists>e. end_line r = Some e \<and> start_line r \<le> e)"
proof -
  from assms(2,3) obtain i q where q: "(i, q) \<in> set (modern_ranges st)" "r = named_range st i q"
    by (auto simp: modern_result_def Let_def)
  from assms(2) q have "\<not> modern_invalid st" "\<exists>e. end_line q = Some e \<and> start_line q \<le> e"
    by (fastforce simp: modern_result_def Let_def list_ex_iff split: option.splits)+
  with assms(1) q show ?thesis
    by (fastforce simp: fn_inv_def range_rejected_def named_range_def)
qed

section \<open>Records\<close>

lemma read_lines_append:
  "read_lines (a @ b) st =
     rbind (read_lines a st) (\<lambda>(out, st'). rbind (read_lines b st') (\<lambda>(out', st''). Inr (out @ out', st'')))"
proof (induction a arbitrary: st)
  case Nil
  then show ?case by (cases "read_lines b st") auto
next
  case (Cons l a)
  show ?case
  proof (cases "read_line l st")
    case (Inl e)
    then show ?thesis by simp
  next
    case (Inr x)
    obtain o1 st1 where x: "x = (o1, st1)" by (cases x)
    show ?thesis
    proof (cases "read_lines a st1")
      case (Inl e)
      with Inr x Cons [of st1] show ?thesis by simp
    next
      case (Inr y)
      obtain o2 st2 where y: "y = (o2, st2)" by (cases y)
      with Inr \<open>read_line l st = Inr x\<close> x Cons [of st1] show ?thesis
        by (cases "read_lines b st2") auto
    qed
  qed
qed

lemma read_end_of_record: "read_line ''end_of_record'' st = rbind (emit st) (\<lambda>out. Inr (out, init_reader))"
  by (simp add: read_line_def)

text \<open>The text a tracefile holds for records without function data.\<close>

definition render_record :: "lcov_record \<Rightarrow> string list" where
  "render_record rec =
     (''SF:'' @ file_path rec) #
     map (\<lambda>(n, c). ''DA:'' @ show_nat n @ '','' @ show_nat c) (lines rec) @ [''end_of_record'']"

definition plain_record :: "lcov_record \<Rightarrow> bool" where
  "plain_record rec \<longleftrightarrow> distinct (map fst (lines rec)) \<and> function_ranges rec = [] \<and>
     \<not> function_range_fallback rec \<and> NL \<notin> set (file_path rec) \<and> CR \<notin> set (file_path rec)"

definition render_file :: "lcov_record list \<Rightarrow> string" where
  "render_file recs = concat (map (\<lambda>l. l @ [NL]) (concat (map render_record recs)))"

lemma is_digit_dec: "is_dec_digit c \<Longrightarrow> is_digit c"
  by (simp add: is_digit_def)

lemma show_nat_isdigit [simp]: "isdigit (show_nat n)"
  using show_nat_digits [of n] by (auto simp: isdigit_def list_all_iff is_digit_dec)

lemma py_int_show_nat [simp]: "py_int (show_nat n) = Inr n"
  using show_nat_digits [of n] by (simp add: py_int_def digits_value_show_nat)

lemma show_nat_no: "\<not> is_dec_digit c \<Longrightarrow> c \<notin> set (show_nat n)"
  using show_nat_digits [of n] by (auto simp: list_all_iff)

lemma data_line_show:
  "data_line (show_nat n @ '','' @ show_nat c) rec = Inr (rec\<lparr>lines := AList.update n c (lines rec)\<rparr>)"
proof -
  have comma: "CHR '','' \<notin> set (show_nat k)" for k by (rule show_nat_no) (simp add: is_dec_digit_def)
  have "py_split (CHR '','') (show_nat n @ '','' @ show_nat c) = [show_nat n, show_nat c]"
    using py_split_append_sep [OF comma, of n "show_nat c"] by (simp add: py_split_free comma)
  then show ?thesis by (simp add: data_line_def Let_def)
qed

lemma read_data_lines:
  "current st = Some rec \<Longrightarrow> distinct (map fst (lines rec @ ps)) \<Longrightarrow>
   read_lines (map (\<lambda>(n, c). ''DA:'' @ show_nat n @ '','' @ show_nat c) ps) st =
     Inr ([], st\<lparr>current := Some (rec\<lparr>lines := lines rec @ ps\<rparr>)\<rparr>)"
proof (induction ps arbitrary: rec st)
  case Nil
  then show ?case by (cases st) simp
next
  case (Cons p ps)
  obtain n c where p: "p = (n, c)" by (cases p)
  let ?rec = "rec\<lparr>lines := lines rec @ [(n, c)]\<rparr>"
  have "AList.update n c (lines rec) = lines rec @ [(n, c)]"
    using Cons.prems(2) p by (intro update_fresh) auto
  then have "read_line (''DA:'' @ show_nat n @ '','' @ show_nat c) st = Inr ([], st\<lparr>current := Some ?rec\<rparr>)"
    using Cons.prems(1) data_line_show [of n c rec] by (simp add: read_line_def)
  moreover have "read_lines (map (\<lambda>(n, c). ''DA:'' @ show_nat n @ '','' @ show_nat c) ps) (st\<lparr>current := Some ?rec\<rparr>) =
      Inr ([], st\<lparr>current := Some (?rec\<lparr>lines := lines ?rec @ ps\<rparr>)\<rparr>)"
    using Cons.IH [of "st\<lparr>current := Some ?rec\<rparr>" ?rec] Cons.prems(2) p by simp
  ultimately show ?case by (simp add: p)
qed

lemma finish_plain: "finish_record rec [] = Inr (rec\<lparr>function_ranges := [], function_range_fallback := False\<rparr>)"
  by (simp add: finish_record_def parse_function_records_def init_fn_state_def)

lemma read_rendered: "plain_record rec \<Longrightarrow> read_lines (render_record rec) init_reader = Inr ([rec], init_reader)"
proof -
  assume plain: "plain_record rec"
  let ?st = "\<lparr>current = Some (new_record (file_path rec)), function_lines = []\<rparr>"
  have sf: "read_line (''SF:'' @ file_path rec) init_reader = Inr ([], ?st)"
    by (simp add: read_line_def emit_def init_reader_def)
  have "read_lines (map (\<lambda>(n, c). ''DA:'' @ show_nat n @ '','' @ show_nat c) (lines rec)) ?st =
      Inr ([], ?st\<lparr>current := Some ((new_record (file_path rec))\<lparr>lines := lines rec\<rparr>)\<rparr>)"
    using plain read_data_lines [of ?st "new_record (file_path rec)" "lines rec"]
    by (simp add: plain_record_def new_record_def)
  moreover have "(new_record (file_path rec))\<lparr>lines := lines rec, function_ranges := [], function_range_fallback := False\<rparr> = rec"
    using plain by (cases rec) (simp add: plain_record_def new_record_def)
  ultimately show ?thesis
    using sf by (simp add: render_record_def read_lines_append read_end_of_record emit_def finish_plain
        del: append_Cons append_Nil)
qed

lemma read_rendered_list:
  "list_all plain_record recs \<Longrightarrow> read_lines (concat (map render_record recs)) init_reader = Inr (recs, init_reader)"
  by (induction recs) (simp_all add: read_lines_append read_rendered)

lemma stream_lines_unlines:
  assumes "\<forall>l \<in> set ls. NL \<notin> set l \<and> CR \<notin> set l"
  shows "stream_lines (concat (map (\<lambda>l. l @ [NL]) ls)) = ls"
proof -
  let ?t = "concat (map (\<lambda>l. l @ [NL]) ls)"
  have "CR \<notin> set ?t" using assms by auto
  moreover have "py_split NL ?t = ls @ [[]]"
    using assms by (induction ls) (auto simp: py_split_append_sep)
  ultimately show ?thesis by (simp add: stream_lines_def normalize_newlines_id)
qed

lemma render_record_clean: "plain_record rec \<Longrightarrow> l \<in> set (render_record rec) \<Longrightarrow> NL \<notin> set l \<and> CR \<notin> set l"
  using show_nat_no [of NL] show_nat_no [of CR]
  by (auto simp: render_record_def plain_record_def is_dec_digit_def)

section \<open>Correctness\<close>

lemma modern_format:
  assumes "r \<in> set (fst (modern_result st))"
  obtains i q where "(i, q) \<in> set (modern_ranges st)" "r = named_range st i q"
  using assms by (auto simp: modern_result_def Let_def)

lemma init_fn_inv [simp]: "fn_inv init_fn_state"
  by (simp add: fn_inv_def init_fn_state_def)

text \<open>When a record carries FNL/FNA data and \<open>parse_function_records\<close> does not ask for the
  fallback, every function range it returns starts at line 1 or later and has an end line that
  is not before its start; without FNL/FNA data every range is in the legacy format.\<close>

lemma function_ranges_complete:
  assumes "parse_function_records raws = Inr (ranges, False)" and "r \<in> set ranges"
  shows "range_format r = ''legacy'' \<or>
         (1 \<le> start_line r \<and> (\<exists>e. end_line r = Some e \<and> start_line r \<le> e))"
proof -
  from assms(1) obtain st where st: "fn_steps raws init_fn_state = Inr st"
    and res: "(ranges, False) = (if modern_seen st then modern_result st else (legacy st, False))"
    by (auto simp: parse_function_records_def)
  have inv: "fn_inv st" using fn_steps_inv [OF init_fn_inv st] .
  show ?thesis
  proof (cases "modern_seen st")
    case True
    with res modern_result_ok [OF inv _ assms(2)] show ?thesis by simp
  next
    case False
    with res inv assms(2) show ?thesis by (auto simp: fn_inv_def)
  qed
qed

theorem function_ranges_complete_witness:
  "parse_function_records [''FNL:0,3,9'', ''FNA:0,5,main''] =
     Inr ([\<lparr>start_line = 3, end_line = Some 9, range_name = ''main'', range_format = ''modern''\<rparr>], False) \<and>
   (1 \<le> (3::nat) \<and> (\<exists>e. Some 9 = Some e \<and> (3::nat) \<le> e))"
proof -
  let ?r = "\<lparr>start_line = 3, end_line = Some 9, range_name = ''main'', range_format = ''modern''\<rparr>"
  have run: "parse_function_records [''FNL:0,3,9'', ''FNA:0,5,main''] = Inr ([?r], False)" by code_simp
  with function_ranges_complete [OF run, of ?r] show ?thesis by simp
qed

text \<open>Records are isolated: what is read after an \<open>end_of_record\<close> marker does not depend on
  what came before it, so the records of a file are those of its two halves, in order, and an
  error is the first one.\<close>

lemma records_isolated:
  "records_of_lines (a @ [''end_of_record''] @ b) =
     rbind (records_of_lines (a @ [''end_of_record''])) (\<lambda>out.
       rbind (records_of_lines b) (\<lambda>out'. Inr (out @ out')))"
proof (cases "read_lines a init_reader")
  case (Inl e)
  then show ?thesis by (simp add: records_of_lines_def read_lines_append)
next
  case (Inr x)
  obtain o1 st where x: "x = (o1, st)" by (cases x)
  show ?thesis
    by (cases "emit st"; cases "read_lines b init_reader")
       (auto simp: records_of_lines_def read_lines_append Inr x read_end_of_record)
qed

text \<open>C37: Round trip: the line data of a tracefile written record by record is read back by
  \<open>iter_info_records\<close> exactly, record for record and line for line.\<close>

theorem iter_info_records_render:
  assumes "list_all plain_record recs"
  shows "iter_info_records (render_file recs) = Inr recs"
proof -
  have "stream_lines (render_file recs) = concat (map render_record recs)"
    unfolding render_file_def
    by (rule stream_lines_unlines) (use assms render_record_clean in \<open>auto simp: list_all_iff\<close>)
  with read_rendered_list [OF assms] show ?thesis
    by (simp add: iter_info_records_def records_of_lines_def)
qed

theorem iter_info_records_render_witness:
  "iter_info_records (''SF:src/a.c'' @ [NL] @ ''DA:7,0'' @ [NL] @ ''DA:12,31'' @ [NL] @ ''end_of_record'' @ [NL]) =
     Inr [\<lparr>file_path = ''src/a.c'', lines = [(7, 0), (12, 31)], function_ranges = [],
           function_range_fallback = False\<rparr>]"
proof -
  let ?recs = "[\<lparr>file_path = ''src/a.c'', lines = [(7, 0), (12, 31)], function_ranges = [],
           function_range_fallback = False\<rparr>]"
  have plain: "list_all plain_record ?recs" by (simp add: plain_record_def)
  have "render_file ?recs = ''SF:src/a.c'' @ [NL] @ ''DA:7,0'' @ [NL] @ ''DA:12,31'' @ [NL] @ ''end_of_record'' @ [NL]"
    by code_simp
  with iter_info_records_render [OF plain] show ?thesis by simp
qed

text \<open>A legacy function record without an end line whose name contains a comma, as demangled
  C++ signatures do, is silently lost: the name up to its first comma is taken for an end line,
  so the function is neither recorded nor is the fallback requested.\<close>

lemma legacy_comma_name_lost:
  assumes "isdigit start" and "CHR '','' \<notin> set start" and "CHR '','' \<notin> set head" and "\<not> isdigit head"
  shows "parse_function_records [''FN:'' @ start @ '','' @ head @ '','' @ rest] = Inr ([], False)"
proof -
  have max0: "py_split_max (CHR '','') 0 s = [s]" for s
    by (induction s) simp_all
  have one: "CHR '','' \<notin> set p \<Longrightarrow> 0 < n \<Longrightarrow> py_split_max (CHR '','') n (p @ CHR '','' # s) = p # py_split_max (CHR '','') (n - 1) s" for p s n
    by (induction p) auto
  have split: "py_split_max (CHR '','') 2 (start @ '','' @ head @ '','' @ rest) = [start, head, rest]"
    using assms(2,3) by (simp add: one max0)
  have "py_split (CHR '','') (start @ CHR '','' # head) = [start, head]"
    using assms(2,3) by (simp add: py_split_append_sep py_split_free)
  then have "legacy_fn (start @ '','' @ head) rest = Inr None"
    using assms(4) by (simp add: legacy_fn_def Let_def)
  then have "step_FN (start @ '','' @ head @ '','' @ rest) init_fn_state = Inr init_fn_state"
    by (simp only: step_FN_def split) simp
  then show ?thesis
    by (simp add: parse_function_records_def fn_step_def) (simp add: init_fn_state_def)
qed

theorem legacy_comma_name_lost_witness:
  "parse_function_records [''FN:12,foo(int, int)''] = Inr ([], False)"
  using legacy_comma_name_lost [of "''12''" "''foo(int''" "'' int)''"]
  by (simp add: isdigit_def is_digit_def is_dec_digit_def)

text \<open>\<open>isdigit\<close> lets superscript digits through that \<open>int()\<close> refuses: a DA line whose line
  number ends in one makes the whole read fail instead of being skipped.\<close>

lemma superscript_digit_fails:
  "records_of_lines [''SF:a.c'', ''DA:1'' @ [CHR 0xB2] @ '',5'', ''end_of_record''] =
     Inl (ValueError ''invalid literal for int()'')"
  by code_simp

end
