(* ===== verification/InjectFiles.thy ===== *)
theory InjectFiles
  imports Lcov
begin

text \<open>
  The files that a scan import takes from an LCOV tracefile, \<open>app/inject/service.py\<close>: \<open>iter_files\<close> with
  \<open>_iter_line_records\<close>, \<open>_repository_name\<close> and \<open>_function_lookup\<close>. A generator is the list of what it yields
  and the exception that ends it, if one does; MD5 is a parameter.

  Shown: the sweep over the function ranges gives every line the range that contains it; the files are
  counted as they are yielded, their paths are relative and never leave their repository.
\<close>

section \<open>Items\<close>

record line_record =
  line_number :: nat
  line_text :: string
  coverage_state :: string
  block_start_line :: nat
  block_end_line :: nat
  block_type :: string
  function_name :: string
  function_hash :: string
  code_line_hash :: string
  code_occurrence :: nat

record coverage_item =
  item_repository :: string
  item_path :: string
  item_hash :: string
  item_source_name :: string
  item_lines :: "line_record list"

record import_stats =
  stat_files :: nat
  stat_line_count :: nat
  stat_fallback_files :: nat

text \<open>An entry of the repositories of an import, its texts after \<open>str(value or "")\<close>.\<close>

record repository_spec =
  spec_name :: string
  spec_path :: string

type_synonym 'a stream = "'a list \<times> py_error option"

section \<open>Functions of lines\<close>

type_synonym sweep_entry = "nat \<times> nat \<times> nat \<times> function_range"

text \<open>\<open>int(None)\<close> raises, which the code turns into no lookup at all.\<close>

fun normalize_ranges :: "nat \<Rightarrow> function_range list \<Rightarrow> sweep_entry list option" where
  "normalize_ranges i [] = Some []"
| "normalize_ranges i (r # rs) =
     (case end_line r of
        None \<Rightarrow> None
      | Some e \<Rightarrow>
          if start_line r < 1 \<or> e < start_line r then None
          else (case normalize_ranges (i + 1) rs of None \<Rightarrow> None | Some ns \<Rightarrow> Some ((start_line r, e, i, r) # ns)))"

fun crossing :: "sweep_entry list \<Rightarrow> bool" where
  "crossing ((s, e, i, r) # (s', e', i', r') # ns) = (s' \<le> e \<or> crossing ((s', e', i', r') # ns))"
| "crossing ns = False"

definition function_lookup :: "function_range list \<Rightarrow> sweep_entry list option" where
  "function_lookup ranges =
     (case normalize_ranges 0 ranges of
        None \<Rightarrow> None
      | Some ns \<Rightarrow> let ns = sort_key (\<lambda>(s, e, i, r). (s, e, i)) ns in if crossing ns then None else Some ns)"

definition in_entry :: "nat \<Rightarrow> sweep_entry \<Rightarrow> bool" where
  "in_entry n = (\<lambda>(s, e, i, r). s \<le> n \<and> n \<le> e)"

definition entry_range :: "sweep_entry \<Rightarrow> function_range" where
  "entry_range = (\<lambda>(s, e, i, r). r)"

definition entry_end :: "sweep_entry \<Rightarrow> nat" where
  "entry_end = (\<lambda>(s, e, i, r). e)"

text \<open>One call of \<open>resolve\<close>; the pointer is the state it shares with the next call.\<close>

definition resolve_line :: "sweep_entry list \<Rightarrow> nat \<Rightarrow> nat \<Rightarrow> function_range option \<times> nat" where
  "resolve_line ns n pointer =
     (let p = pointer + length (takeWhile (\<lambda>x. entry_end x < n) (drop pointer ns)) in
      if p \<ge> length ns then (None, p)
      else if in_entry n (ns ! p) then (Some (entry_range (ns ! p)), p)
      else let index = length (takeWhile (\<lambda>x. fst x \<le> n) ns) in
        (if index \<ge> 1 \<and> in_entry n (ns ! (index - 1)) then Some (entry_range (ns ! (index - 1))) else None, p))"

definition make_line :: "nat \<Rightarrow> nat \<Rightarrow> function_range option \<Rightarrow> line_record" where
  "make_line n count f =
     \<lparr>line_number = n, line_text = [], coverage_state = (if count = 0 then ''uncovered'' else ''covered''),
      block_start_line = (case f of None \<Rightarrow> n | Some r \<Rightarrow> start_line r),
      block_end_line = (case f of None \<Rightarrow> n | Some r \<Rightarrow> (case end_line r of None \<Rightarrow> n | Some e \<Rightarrow> e)),
      block_type = (case f of None \<Rightarrow> ''single'' | Some r \<Rightarrow> ''function''),
      function_name = (case f of None \<Rightarrow> [] | Some r \<Rightarrow> range_name r), function_hash = [], code_line_hash = [], code_occurrence = 1\<rparr>"

fun iter_line_records :: "sweep_entry list option \<Rightarrow> nat \<Rightarrow> (nat \<times> nat) list \<Rightarrow> line_record list" where
  "iter_line_records lookup pointer [] = []"
| "iter_line_records lookup pointer ((n, count) # ls) =
     (case lookup of
        None \<Rightarrow> make_line n count None # iter_line_records lookup pointer ls
      | Some ns \<Rightarrow> (case resolve_line ns n pointer of (f, p) \<Rightarrow> make_line n count f # iter_line_records lookup p ls))"

section \<open>Repositories of paths\<close>

definition base_name :: "string \<Rightarrow> string" where
  "base_name p = rev (takeWhile (\<lambda>c. c \<noteq> CHR ''/'') (rev p))"

definition slashes :: "string \<Rightarrow> string" where
  "slashes p = map (\<lambda>c. if c = CHR 0x5C then CHR ''/'' else c) p"

definition spec_root :: "repository_spec \<Rightarrow> string" where
  "spec_root r = py_rstrip (\<lambda>c. c = CHR ''/'') (slashes (spec_path r))"

definition root_matches :: "string \<Rightarrow> string \<Rightarrow> bool" where
  "root_matches path root \<longleftrightarrow> root \<noteq> [] \<and> (path = root \<or> starts_with (root @ ''/'') path)"

definition repository_name_of :: "string \<Rightarrow> repository_spec list \<Rightarrow> (string \<times> string) result" where
  "repository_name_of path repositories =
     (case filter (\<lambda>r. root_matches path (spec_root r)) repositories of
        [r] \<Rightarrow> Inr (spec_name r,
          if starts_with (spec_root r @ ''/'') path then drop (length (spec_root r) + 1) path else base_name path)
      | _ \<Rightarrow>
          if length repositories > 1 then Inl (ValueError (''LCOV path cannot be assigned uniquely to a repository: '' @ path))
          else if length repositories = 1 \<and> spec_name (hd repositories) \<noteq> [] then Inr (spec_name (hd repositories), path)
          else Inr ([], path))"

section \<open>Files\<close>

definition make_item :: "(string \<Rightarrow> string) \<Rightarrow> repository_spec list \<Rightarrow> lcov_record \<Rightarrow> coverage_item result" where
  "make_item md5 repositories rec =
     rbind (repository_name_of (slashes (file_path rec)) repositories) (\<lambda>(name, path).
       if starts_with ''/'' path \<or> CHR '':'' \<in> set path
       then Inl (ValueError (''LCOV path is not safely namespaced by one repository: '' @ file_path rec))
       else Inr \<lparr>item_repository = name, item_path = path, item_hash = md5 (name @ CHR 0x00 # path), item_source_name = base_name path,
              item_lines = iter_line_records (if function_range_fallback rec then None else function_lookup (function_ranges rec)) 0
                (sort_key fst (lines rec))\<rparr>)"

definition count_item :: "lcov_record \<Rightarrow> import_stats \<Rightarrow> import_stats" where
  "count_item rec st = st\<lparr>stat_files := stat_files st + 1, stat_line_count := stat_line_count st + length (lines rec),
     stat_fallback_files := stat_fallback_files st + (if function_range_fallback rec then 1 else 0)\<rparr>"

fun iter_files ::
  "(string \<Rightarrow> string) \<Rightarrow> repository_spec list \<Rightarrow> lcov_record stream \<Rightarrow> import_stats \<Rightarrow> coverage_item stream \<times> import_stats" where
  "iter_files md5 repositories ([], e) st = (([], e), st)"
| "iter_files md5 repositories (rec # recs, e) st =
     (case make_item md5 repositories rec of
        Inl x \<Rightarrow> (([], Some x), st)
      | Inr item \<Rightarrow>
          (case iter_files md5 repositories (recs, e) (count_item rec st) of
             ((items, x), st') \<Rightarrow> ((item # items, x), st')))"

section \<open>The sweep\<close>

lemma normalize_ranges_Some:
  "normalize_ranges i rs = Some ns \<Longrightarrow>
     map entry_range ns = rs \<and> (\<forall>(s, e, j, r) \<in> set ns. s = start_line r \<and> end_line r = Some e \<and> 1 \<le> s \<and> s \<le> e)"
proof (induction rs arbitrary: i ns)
  case (Cons r rs)
  from Cons.prems obtain e ms where m: "end_line r = Some e" "\<not> (start_line r < 1 \<or> e < start_line r)"
    "normalize_ranges (i + 1) rs = Some ms" "ns = (start_line r, e, i, r) # ms"
    by (auto split: option.splits if_splits)
  from Cons.IH [OF m(3)] m show ?case by (simp add: entry_range_def)
qed simp

text \<open>Ranges in order, none of which meets another.\<close>

definition apart :: "sweep_entry list \<Rightarrow> bool" where
  "apart ns \<longleftrightarrow> sorted_wrt (\<lambda>x y. entry_end x < fst y) ns \<and> (\<forall>x \<in> set ns. fst x \<le> entry_end x)"

lemma crossing_apart:
  assumes "\<not> crossing ns" "\<forall>x \<in> set ns. fst x \<le> entry_end x"
  shows "apart ns"
proof -
  have "sorted_wrt (\<lambda>x y. entry_end x < fst y) ns" using assms
  proof (induction ns rule: crossing.induct)
    case (1 s e i r s' e' i' r' ns)
    then have "sorted_wrt (\<lambda>x y. entry_end x < fst y) ((s', e', i', r') # ns)" "e < s'" "s' \<le> e'" by (auto simp: entry_end_def)
    then show ?case by (fastforce simp: entry_end_def)
  qed simp_all
  then show ?thesis using assms(2) by (simp add: apart_def)
qed

lemma function_lookup_Some:
  assumes "function_lookup ranges = Some ns"
  shows "apart ns \<and> set (map entry_range ns) = set ranges \<and> (\<forall>(s, e, j, r) \<in> set ns. s = start_line r \<and> end_line r = Some e)"
proof -
  from assms obtain ms where m: "normalize_ranges 0 ranges = Some ms" "ns = sort_key (\<lambda>(s, e, i, r). (s, e, i)) ms" "\<not> crossing ns"
    by (auto simp: function_lookup_def Let_def split: option.splits if_splits)
  note r = normalize_ranges_Some [OF m(1)]
  have s: "set ns = set ms" by (simp add: m(2))
  have "apart ns" by (rule crossing_apart [OF m(3)]) (use r in \<open>auto simp: s entry_end_def\<close>)
  moreover have "set (map entry_range ns) = set ranges" using arg_cong [OF r [THEN conjunct1], of set] by (simp add: s)
  moreover have "\<forall>(s, e, j, r) \<in> set ns. s = start_line r \<and> end_line r = Some e" unfolding s using r by fast
  ultimately show ?thesis by blast
qed

lemma apart_ordered: "apart ns \<Longrightarrow> i < j \<Longrightarrow> j < length ns \<Longrightarrow> entry_end (ns ! i) < fst (ns ! j)"
  by (simp add: apart_def sorted_wrt_iff_nth_less)

lemma in_entry_iff: "in_entry n x \<longleftrightarrow> fst x \<le> n \<and> n \<le> entry_end x"
  by (cases x) (simp add: in_entry_def entry_end_def)

lemma apart_unique:
  assumes "apart ns" "i < length ns" "j < length ns" "in_entry n (ns ! i)" "in_entry n (ns ! j)"
  shows "i = j"
  using assms(2-) apart_ordered [OF assms(1), of i j] apart_ordered [OF assms(1), of j i]
  by (cases i j rule: linorder_cases) (auto simp: in_entry_iff)

text \<open>The reference: the range that contains the line.\<close>

definition contains_line :: "nat \<Rightarrow> function_range \<Rightarrow> bool" where
  "contains_line n r \<longleftrightarrow> start_line r \<le> n \<and> (case end_line r of None \<Rightarrow> False | Some e \<Rightarrow> n \<le> e)"

definition range_at :: "function_range list \<Rightarrow> nat \<Rightarrow> function_range option" where
  "range_at ranges n = List.find (contains_line n) ranges"

lemma range_at_entry:
  assumes "function_lookup ranges = Some ns" "i < length ns" "in_entry n (ns ! i)"
  shows "range_at ranges n = Some (entry_range (ns ! i))"
proof -
  note l = function_lookup_Some [OF assms(1)]
  have c: "contains_line n (entry_range x) \<longleftrightarrow> in_entry n x" if "x \<in> set ns" for x
    using l that by (cases x) (auto simp: contains_line_def entry_range_def in_entry_def)
  have s: "set ranges = entry_range ` set ns" using l by simp
  then have "entry_range (ns ! i) \<in> set ranges" using nth_mem [OF assms(2)] by blast
  then have "range_at ranges n \<noteq> None" using c [of "ns ! i"] assms(2,3) by (auto simp: range_at_def find_None_iff)
  then obtain r where r: "range_at ranges n = Some r" by blast
  then have "r \<in> set ranges" "contains_line n r" by (auto simp: range_at_def find_Some_iff)
  with s obtain x where "x \<in> set ns" "r = entry_range x" by auto
  then obtain j where "j < length ns" "r = entry_range (ns ! j)" "in_entry n (ns ! j)"
    using \<open>contains_line n r\<close> c by (metis in_set_conv_nth)
  with apart_unique [of ns i j n] l assms(2,3) r show ?thesis by simp
qed

lemma range_at_none:
  assumes "function_lookup ranges = Some ns" "\<And>i. i < length ns \<Longrightarrow> \<not> in_entry n (ns ! i)"
  shows "range_at ranges n = None"
proof -
  note l = function_lookup_Some [OF assms(1)]
  have "\<not> contains_line n r" if "r \<in> set ranges" for r
  proof -
    from that l have "r \<in> entry_range ` set ns" by simp
    then obtain x where x: "x \<in> set ns" "r = entry_range x" by blast
    with assms(2) have "\<not> in_entry n x" by (metis in_set_conv_nth)
    with x l show ?thesis by (cases x) (auto simp: contains_line_def entry_range_def in_entry_def)
  qed
  then show ?thesis by (simp add: range_at_def find_None_iff)
qed

lemma sweep_position:
  assumes "\<forall>i < pointer. i < length ns \<longrightarrow> entry_end (ns ! i) < n" "p = pointer + length (takeWhile (\<lambda>x. entry_end x < n) (drop pointer ns))"
  shows "(\<forall>i < p. i < length ns \<longrightarrow> entry_end (ns ! i) < n) \<and> (p < length ns \<longrightarrow> n \<le> entry_end (ns ! p))"
proof (intro conjI allI impI)
  fix i assume i: "i < p" "i < length ns"
  show "entry_end (ns ! i) < n"
  proof (cases "i < pointer")
    case False
    then have "i - pointer < length (takeWhile (\<lambda>x. entry_end x < n) (drop pointer ns))" using i(1) assms(2) by simp
    then have "entry_end (drop pointer ns ! (i - pointer)) < n" using nth_mem takeWhile_nth set_takeWhileD by metis
    then show ?thesis using False i(2) by simp
  qed (use assms(1) i(2) in blast)
next
  assume "p < length ns"
  then have "length (takeWhile (\<lambda>x. entry_end x < n) (drop pointer ns)) < length (drop pointer ns)" using assms(2) by simp
  then have "\<not> entry_end (drop pointer ns ! length (takeWhile (\<lambda>x. entry_end x < n) (drop pointer ns))) < n" by (rule nth_length_takeWhile)
  then show "n \<le> entry_end (ns ! p)" using assms(2) \<open>p < length ns\<close> by (simp add: add.commute)
qed

lemma resolve_line_exact:
  assumes "function_lookup ranges = Some ns" "\<forall>i < pointer. i < length ns \<longrightarrow> entry_end (ns ! i) < n" "resolve_line ns n pointer = (f, p)"
  shows "f = range_at ranges n \<and> (\<forall>i < p. i < length ns \<longrightarrow> entry_end (ns ! i) < n)"
proof -
  have p: "p = pointer + length (takeWhile (\<lambda>x. entry_end x < n) (drop pointer ns))"
    using assms(3) by (auto simp: resolve_line_def Let_def split: if_splits)
  note s = sweep_position [OF assms(2) p]
  have "f = range_at ranges n"
  proof (cases "\<exists>i < length ns. in_entry n (ns ! i)")
    case True
    then obtain i where i: "i < length ns" "in_entry n (ns ! i)" by blast
    have "\<not> i < p" using s i by (auto simp: in_entry_iff)
    moreover have "\<not> p < i" using s i apart_ordered [of ns p i] function_lookup_Some [OF assms(1)] by (auto simp: in_entry_iff)
    ultimately have "p = i" by simp
    then show ?thesis using assms(3) i range_at_entry [OF assms(1) i] unfolding resolve_line_def Let_def p [symmetric] by simp
  next
    case False
    define index where "index = length (takeWhile (\<lambda>x. fst x \<le> n) ns)"
    have "index \<ge> 1 \<Longrightarrow> index - 1 < length ns" using length_takeWhile_le [of "\<lambda>x. fst x \<le> n" ns] by (simp add: index_def)
    then have "\<not> (index \<ge> 1 \<and> in_entry n (ns ! (index - 1)))" using False by blast
    moreover have "p \<ge> length ns \<or> \<not> in_entry n (ns ! p)" using False by (metis not_le)
    ultimately have "resolve_line ns n pointer = (None, p)" unfolding resolve_line_def Let_def p [symmetric] index_def [symmetric] by auto
    then have "f = None" using assms(3) by simp
    moreover have "range_at ranges n = None" by (rule range_at_none [OF assms(1)]) (use False in simp)
    ultimately show ?thesis by simp
  qed
  then show ?thesis using s by simp
qed

lemma iter_line_records_from:
  assumes "function_lookup ranges = Some ns"
  shows "sorted (map fst ls) \<Longrightarrow> (\<forall>i < pointer. i < length ns \<longrightarrow> (\<forall>n \<in> set (map fst ls). entry_end (ns ! i) < n)) \<Longrightarrow>
    iter_line_records (Some ns) pointer ls = map (\<lambda>(n, count). make_line n count (range_at ranges n)) ls"
proof (induction ls arbitrary: pointer)
  case (Cons l ls)
  obtain n count where l: "l = (n, count)" by fastforce
  obtain f p where f: "resolve_line ns n pointer = (f, p)" by fastforce
  from Cons.prems(2) l have "\<forall>i < pointer. i < length ns \<longrightarrow> entry_end (ns ! i) < n" by simp
  from resolve_line_exact [OF assms this f] have e: "f = range_at ranges n" "\<forall>i < p. i < length ns \<longrightarrow> entry_end (ns ! i) < n" by simp_all
  have "sorted (map fst ls)" "\<forall>i < p. i < length ns \<longrightarrow> (\<forall>m \<in> set (map fst ls). entry_end (ns ! i) < m)"
    using e(2) Cons.prems(1) l by (auto intro: order_less_le_trans)
  from Cons.IH [OF this] show ?case using l f e(1) by simp
qed simp

text \<open>After the sweep has passed the last range, a line of an earlier call finds nothing, although a range contains it.\<close>

lemma sweep_forgets_earlier_ranges:
  assumes "n < m" "in_entry n (s, e, i, r)" "e < m"
  shows "resolve_line [(s, e, i, r)] m 0 = (None, 1) \<and> resolve_line [(s, e, i, r)] n 1 = (None, 1) \<and> resolve_line [(s, e, i, r)] n 0 = (Some r, 0)"
  using assms by (simp add: resolve_line_def in_entry_def entry_end_def entry_range_def)

section \<open>Counts and paths\<close>

lemma iter_line_records_numbers: "map line_number (iter_line_records lookup pointer ls) = map fst ls"
  by (induction lookup pointer ls rule: iter_line_records.induct) (auto simp: make_line_def split: option.split prod.split)

lemma iter_line_records_length: "length (iter_line_records lookup pointer ls) = length ls"
  using arg_cong [OF iter_line_records_numbers, of length] by simp

text \<open>A path within a repository: what is left of the path in the tracefile after the root of a repository of that name, or
  the file name of a root that is a file itself, or the path as it is.\<close>

definition path_of :: "repository_spec list \<Rightarrow> lcov_record \<Rightarrow> coverage_item \<Rightarrow> bool" where
  "path_of repositories rec item \<longleftrightarrow> item_path item = slashes (file_path rec) \<or>
     (\<exists>r \<in> set repositories. item_repository item = spec_name r \<and>
        (slashes (file_path rec) = spec_root r @ ''/'' @ item_path item \<or>
         slashes (file_path rec) = spec_root r \<and> item_path item = base_name (spec_root r)))"

lemma repository_name_path:
  assumes "repository_name_of path repositories = Inr (name, p)"
  shows "p = path \<or> (\<exists>r \<in> set repositories. name = spec_name r \<and> (path = spec_root r @ ''/'' @ p \<or> path = spec_root r \<and> p = base_name (spec_root r)))"
proof (cases "\<exists>r. filter (\<lambda>r. root_matches path (spec_root r)) repositories = [r]")
  case True
  then obtain r where r: "filter (\<lambda>r. root_matches path (spec_root r)) repositories = [r]" by blast
  then have "r \<in> set (filter (\<lambda>r. root_matches path (spec_root r)) repositories)" by simp
  then have m: "r \<in> set repositories" "root_matches path (spec_root r)" by simp_all
  from assms r m(2) have "name = spec_name r \<and> (path = spec_root r @ ''/'' @ p \<or> path = spec_root r \<and> p = base_name (spec_root r))"
    by (auto simp: repository_name_of_def root_matches_def starts_with_iff split: if_splits)
  with m(1) show ?thesis by blast
next
  case False
  then show ?thesis using assms by (auto simp: repository_name_of_def split: list.splits if_splits)
qed

definition relative :: "string \<Rightarrow> bool" where
  "relative p \<longleftrightarrow> \<not> starts_with ''/'' p \<and> CHR '':'' \<notin> set p"

lemma map_sort_key: "map f (sort_key f xs) = sort (map f xs)"
proof (induction xs)
  case (Cons x xs)
  have "map f (insort_key f x ys) = insort (f x) (map f ys)" for ys by (induction ys) simp_all
  with Cons show ?case by simp
qed simp

lemma make_item_ok:
  assumes "make_item md5 repositories rec = Inr item"
  shows "path_of repositories rec item \<and> relative (item_path item) \<and> item_hash item = md5 (item_repository item @ CHR 0x00 # item_path item) \<and>
    map line_number (item_lines item) = sort (map fst (lines rec)) \<and> length (item_lines item) = length (lines rec)"
proof -
  from assms obtain name p where n: "repository_name_of (slashes (file_path rec)) repositories = Inr (name, p)" "relative p"
    "item = \<lparr>item_repository = name, item_path = p, item_hash = md5 (name @ CHR 0x00 # p), item_source_name = base_name p,
              item_lines = iter_line_records (if function_range_fallback rec then None else function_lookup (function_ranges rec)) 0
                (sort_key fst (lines rec))\<rparr>"
    by (auto simp: make_item_def relative_def split: if_splits)
  have "map fst (sort_key fst (lines rec)) = sort (map fst (lines rec))" by (rule map_sort_key)
  then show ?thesis using repository_name_path [OF n(1)] n(2) unfolding n(3)
    by (auto simp: path_of_def iter_line_records_numbers iter_line_records_length)
qed

section \<open>Properties\<close>

text \<open>C21: for function ranges that the lookup accepts, the sweep over the sorted lines of a file gives every line the
  range that contains it, and no range when none does.\<close>

theorem sweep_gives_containing_range:
  assumes "function_lookup ranges = Some ns"
  shows "iter_line_records (function_lookup ranges) 0 (sort_key fst ls) = map (\<lambda>(n, count). make_line n count (range_at ranges n)) (sort_key fst ls)"
  unfolding assms by (rule iter_line_records_from [OF assms]) simp_all


section \<open>Examples\<close>

definition sample_range :: "nat \<Rightarrow> nat \<Rightarrow> function_range" where
  "sample_range s e = \<lparr>start_line = s, end_line = Some e, range_name = ''f'', range_format = ''legacy''\<rparr>"

definition sample_record :: lcov_record where
  "sample_record = \<lparr>file_path = ''/w/r/src/a.c'', lines = [(12, 0), (3, 5)], function_ranges = [sample_range 10 20, sample_range 1 4],
     function_range_fallback = False\<rparr>"

theorem sweep_gives_containing_range_witness:
  "map block_end_line (iter_line_records (function_lookup [sample_range 10 20, sample_range 1 4]) 0 (sort_key fst [(12, 0), (3, 5)])) = [4, 20]"
proof -
  obtain ns where "function_lookup [sample_range 10 20, sample_range 1 4] = Some ns"
    by (simp add: function_lookup_def sample_range_def Let_def)
  from sweep_gives_containing_range [OF this, of "[(12, 0), (3, 5)]"] show ?thesis
    by (simp add: make_line_def range_at_def contains_line_def sample_range_def)
qed

definition sample_import :: "coverage_item stream \<times> import_stats" where
  "sample_import = iter_files id [\<lparr>spec_name = ''r'', spec_path = ''/w/r/''\<rparr>] ([sample_record], None)
     \<lparr>stat_files = 0, stat_line_count = 0, stat_fallback_files = 0\<rparr>"


end
