(* ===== verification/CoverageBatches.thy ===== *)
theory CoverageBatches
  imports InjectFiles "HOL-Library.Multiset"
begin

text \<open>
  How a scan import cuts its input into transactions, \<open>app/scan_import/coordinator.py\<close>: the estimate of JSON sizes,
  \<open>_iter_coverage_file_chunks\<close>, \<open>_iter_coverage_batches\<close> and the counts of \<open>_consume_coverage_batch\<close>. The size of a JSON
  text is computed from the texts and numbers of the record it renders; its keys are sorted, which does not change it.

  Shown: every line of the input is in exactly one batch, with the file it came from; batches respect the limits on
  files, lines and bytes, but for a single line that is too big by itself; the counts of the batches add up to the
  counts of the input.
\<close>

section \<open>Size of JSON texts\<close>

definition json_char_size :: "char \<Rightarrow> nat" where
  "json_char_size c =
     (let n = of_char c :: nat in
      if c = CHR 0x22 \<or> c = CHR 0x5C \<or> n \<in> {8, 9, 10, 12, 13} then 2
      else if n < 32 then 6 else if n < 128 then 1 else 2)"

definition json_text_size :: "string \<Rightarrow> nat" where
  "json_text_size s = 2 + sum_list (map json_char_size s)"

definition json_nat_size :: "nat \<Rightarrow> nat" where
  "json_nat_size n = length (show_nat n)"

definition json_object_size :: "(string \<times> nat) list \<Rightarrow> nat" where
  "json_object_size kvs = 2 + (length kvs - 1) + sum_list (map (\<lambda>(k, n). json_text_size k + 1 + n) kvs)"

definition base_size :: "coverage_item \<Rightarrow> nat" where
  "base_size i = json_object_size
     [(''repository_name'', json_text_size (item_repository i)), (''file_path'', json_text_size (item_path i)),
      (''file_path_hash'', json_text_size (item_hash i)), (''source_file_name'', json_text_size (item_source_name i))]"

definition line_size :: "line_record \<Rightarrow> nat" where
  "line_size r = json_object_size
     [(''line_number'', json_nat_size (line_number r)), (''line_text'', json_text_size (line_text r)),
      (''coverage_state'', json_text_size (coverage_state r)), (''block_start_line'', json_nat_size (block_start_line r)),
      (''block_end_line'', json_nat_size (block_end_line r)), (''block_type'', json_text_size (block_type r)),
      (''function_name'', json_text_size (function_name r)), (''function_hash'', json_text_size (function_hash r)),
      (''code_line_hash'', json_text_size (code_line_hash r)), (''code_occurrence'', json_nat_size (code_occurrence r))]"

section \<open>Chunks of a file\<close>

text \<open>An item with its entry \<open>_coverage_chunk\<close>; the counts are absent when files are not split.\<close>

record coverage_chunk = coverage_item +
  file_count_delta :: nat
  chunk_line_count :: "nat option"
  estimated_bytes :: "nat option"
  last_line_number :: "nat option"
  file_complete :: bool

definition whole_chunk :: "coverage_item \<Rightarrow> coverage_chunk" where
  "whole_chunk i = coverage_item.extend i
     \<lparr>file_count_delta = 1, chunk_line_count = None, estimated_bytes = None, last_line_number = None, file_complete = True\<rparr>"

definition emit_chunk :: "coverage_item \<Rightarrow> line_record list \<Rightarrow> nat \<Rightarrow> bool \<Rightarrow> bool \<Rightarrow> coverage_chunk" where
  "emit_chunk i chunk_lines chunk_bytes first complete = coverage_item.extend (i\<lparr>item_lines := chunk_lines\<rparr>)
     \<lparr>file_count_delta = (if first then 1 else 0), chunk_line_count = Some (length chunk_lines), estimated_bytes = Some chunk_bytes,
      last_line_number = (if chunk_lines = [] then None else Some (line_number (last chunk_lines))), file_complete = complete\<rparr>"

fun split_from :: "nat \<Rightarrow> nat \<Rightarrow> coverage_item \<Rightarrow> line_record list \<Rightarrow> nat \<Rightarrow> bool \<Rightarrow> line_record list \<Rightarrow> coverage_chunk list" where
  "split_from max_lines max_bytes i chunk_lines chunk_bytes first [] = [emit_chunk i chunk_lines chunk_bytes first True]"
| "split_from max_lines max_bytes i chunk_lines chunk_bytes first (r # rs) =
     (let record_bytes = line_size r + 1 in
      if chunk_lines \<noteq> [] \<and> (max_lines > 0 \<and> length chunk_lines \<ge> max_lines \<or> max_bytes > 0 \<and> chunk_bytes + record_bytes > max_bytes)
      then emit_chunk i chunk_lines chunk_bytes first False #
           split_from max_lines max_bytes i [r] (base_size i + 64 + record_bytes) False rs
      else split_from max_lines max_bytes i (chunk_lines @ [r]) (chunk_bytes + record_bytes) first rs)"

definition file_chunks :: "nat \<Rightarrow> nat \<Rightarrow> coverage_item \<Rightarrow> coverage_chunk list" where
  "file_chunks max_lines max_bytes i =
     (if max_lines = 0 \<and> max_bytes = 0 then [whole_chunk i]
      else split_from max_lines max_bytes i [] (base_size i + 64) True (item_lines i))"

definition iter_coverage_file_chunks :: "nat \<Rightarrow> nat \<Rightarrow> coverage_item stream \<Rightarrow> coverage_chunk stream" where
  "iter_coverage_file_chunks max_lines max_bytes = (\<lambda>(items, e). (concat (map (file_chunks max_lines max_bytes) items), e))"

section \<open>Batches\<close>

definition coverage_sort_key :: "coverage_chunk \<Rightarrow> string \<times> string \<times> string \<times> nat" where
  "coverage_sort_key c = (item_repository c, item_hash c, item_path c, case last_line_number c of None \<Rightarrow> 0 | Some n \<Rightarrow> n)"

definition opt_count :: "nat option \<Rightarrow> nat" where
  "opt_count v = (case v of None \<Rightarrow> 0 | Some n \<Rightarrow> n)"

abbreviation batch_files :: "coverage_chunk list \<Rightarrow> nat" where
  "batch_files b \<equiv> sum_list (map file_count_delta b)"

abbreviation batch_lines :: "coverage_chunk list \<Rightarrow> nat" where
  "batch_lines b \<equiv> sum_list (map (\<lambda>c. opt_count (chunk_line_count c)) b)"

abbreviation batch_bytes :: "coverage_chunk list \<Rightarrow> nat" where
  "batch_bytes b \<equiv> sum_list (map (\<lambda>c. opt_count (estimated_bytes c)) b)"

definition over_limit :: "nat \<Rightarrow> nat \<Rightarrow> nat \<Rightarrow> coverage_chunk list \<Rightarrow> nat \<Rightarrow> nat \<Rightarrow> nat \<Rightarrow> coverage_chunk \<Rightarrow> bool" where
  "over_limit max_files max_lines max_bytes batch files line_sum bytes c \<longleftrightarrow> batch \<noteq> [] \<and>
     (file_count_delta c > 0 \<and> files \<ge> max 1 max_files \<or>
      max_lines > 0 \<and> line_sum + opt_count (chunk_line_count c) > max_lines \<or>
      max_bytes > 0 \<and> bytes + opt_count (estimated_bytes c) > max_bytes)"

text \<open>The loop over the chunks with the current batch and its counts; a batch that is open when the input raises is lost.\<close>

fun batches_from :: "nat \<Rightarrow> nat \<Rightarrow> nat \<Rightarrow> coverage_chunk list \<Rightarrow> nat \<Rightarrow> nat \<Rightarrow> nat \<Rightarrow> coverage_chunk stream \<Rightarrow> coverage_chunk list stream" where
  "batches_from max_files max_lines max_bytes batch files line_sum bytes ([], e) =
     (if e = None \<and> batch \<noteq> [] then [sort_key coverage_sort_key batch] else [], e)"
| "batches_from max_files max_lines max_bytes batch files line_sum bytes (c # cs, e) =
     (let f = file_count_delta c; l = opt_count (chunk_line_count c); b = opt_count (estimated_bytes c) in
      if over_limit max_files max_lines max_bytes batch files line_sum bytes c
      then (case batches_from max_files max_lines max_bytes [c] f l b (cs, e) of (bs, x) \<Rightarrow> (sort_key coverage_sort_key batch # bs, x))
      else batches_from max_files max_lines max_bytes (batch @ [c]) (files + f) (line_sum + l) (bytes + b) (cs, e))"

definition iter_coverage_batches :: "nat \<Rightarrow> nat \<Rightarrow> nat \<Rightarrow> coverage_item stream \<Rightarrow> coverage_chunk list stream" where
  "iter_coverage_batches max_files max_lines max_bytes items =
     batches_from max_files max_lines max_bytes [] 0 0 0 (iter_coverage_file_chunks max_lines max_bytes items)"

section \<open>Counts of a batch\<close>

record file_identity =
  id_repository :: string
  id_hash :: string
  id_path :: string
  id_last_line :: "nat option"
  id_complete :: bool

record batch_result =
  result_files :: nat
  result_lines :: nat
  last_file_identity :: "file_identity option"

definition file_identity_of :: "(string \<Rightarrow> string \<Rightarrow> string) \<Rightarrow> coverage_chunk \<Rightarrow> file_identity" where
  "file_identity_of file_hash c =
     \<lparr>id_repository = item_repository c, id_hash = (if item_hash c = [] then file_hash (item_path c) (item_repository c) else item_hash c),
      id_path = item_path c, id_last_line = last_line_number c, id_complete = file_complete c\<rparr>"

fun consume_from :: "(string \<Rightarrow> string \<Rightarrow> string) \<Rightarrow> batch_result \<Rightarrow> coverage_chunk list \<Rightarrow> batch_result" where
  "consume_from file_hash r [] = r"
| "consume_from file_hash r (c # cs) = consume_from file_hash
     \<lparr>result_files = result_files r + file_count_delta c,
      result_lines = result_lines r + (case chunk_line_count c of None \<Rightarrow> length (item_lines c) | Some n \<Rightarrow> n),
      last_file_identity = Some (file_identity_of file_hash c)\<rparr> cs"

definition consume_coverage_batch :: "(string \<Rightarrow> string \<Rightarrow> string) \<Rightarrow> coverage_chunk list \<Rightarrow> batch_result" where
  "consume_coverage_batch file_hash batch = consume_from file_hash \<lparr>result_files = 0, result_lines = 0, last_file_identity = None\<rparr> batch"

section \<open>Chunks\<close>

text \<open>The lines of an item or a chunk, each with the file it belongs to.\<close>

definition facts :: "'a coverage_item_scheme \<Rightarrow> (string \<times> string \<times> string \<times> string \<times> line_record) list" where
  "facts c = map (\<lambda>l. (item_repository c, item_hash c, item_path c, item_source_name c, l)) (item_lines c)"

abbreviation same_file :: "coverage_item \<Rightarrow> 'a coverage_item_scheme \<Rightarrow> bool" where
  "same_file i c \<equiv> item_repository c = item_repository i \<and> item_hash c = item_hash i \<and> item_path c = item_path i \<and>
     item_source_name c = item_source_name i"

lemma chunk_fields [simp]:
  "item_repository (emit_chunk i ls n a b) = item_repository i" "item_hash (emit_chunk i ls n a b) = item_hash i"
  "item_path (emit_chunk i ls n a b) = item_path i" "item_source_name (emit_chunk i ls n a b) = item_source_name i"
  "item_lines (emit_chunk i ls n a b) = ls" "chunk_line_count (emit_chunk i ls n a b) = Some (length ls)"
  "file_count_delta (emit_chunk i ls n a b) = (if a then 1 else 0)" "estimated_bytes (emit_chunk i ls n a b) = Some n"
  "item_repository (whole_chunk i) = item_repository i" "item_hash (whole_chunk i) = item_hash i"
  "item_path (whole_chunk i) = item_path i" "item_source_name (whole_chunk i) = item_source_name i"
  "item_lines (whole_chunk i) = item_lines i" "chunk_line_count (whole_chunk i) = None"
  "file_count_delta (whole_chunk i) = 1" "estimated_bytes (whole_chunk i) = None"
  by (simp_all add: emit_chunk_def whole_chunk_def coverage_item.defs)

text \<open>A chunk within the limits, but for one line that exceeds the limit on bytes by itself.\<close>

definition within :: "nat \<Rightarrow> nat \<Rightarrow> nat \<Rightarrow> nat \<Rightarrow> bool" where
  "within max_lines max_bytes n bytes \<longleftrightarrow> (max_lines > 0 \<longrightarrow> n \<le> max_lines) \<and> (max_bytes > 0 \<longrightarrow> bytes \<le> max_bytes \<or> n \<le> 1)"

lemma split_from_lines: "concat (map item_lines (split_from ml mb i cl cb first rs)) = cl @ rs"
  by (induction ml mb i cl cb first rs rule: split_from.induct) (auto simp: Let_def)

lemma split_from_file: "c \<in> set (split_from ml mb i cl cb first rs) \<Longrightarrow> same_file i c \<and> chunk_line_count c = Some (length (item_lines c))"
  by (induction ml mb i cl cb first rs rule: split_from.induct) (auto simp: Let_def split: if_splits)

lemma split_from_delta: "batch_files (split_from ml mb i cl cb first rs) = (if first then 1 else 0)"
  by (induction ml mb i cl cb first rs rule: split_from.induct) (auto simp: Let_def)

lemma split_from_within:
  assumes "within ml mb (length cl) cb" "c \<in> set (split_from ml mb i cl cb first rs)"
  shows "\<exists>n. estimated_bytes c = Some n \<and> within ml mb (length (item_lines c)) n"
  using assms
proof (induction ml mb i cl cb first rs rule: split_from.induct)
  case (2 ml mb i cl cb first r rs)
  then show ?case by (force simp: Let_def within_def split: if_splits)
qed simp

lemma file_chunks_facts: "concat (map facts (file_chunks ml mb i)) = facts i"
proof -
  let ?f = "\<lambda>l. (item_repository i, item_hash i, item_path i, item_source_name i, l)"
  have "facts c = map ?f (item_lines c)" if "c \<in> set (split_from ml mb i [] (base_size i + 64) True (item_lines i))" for c
    using split_from_file [OF that] by (simp add: facts_def)
  then have "concat (map facts (split_from ml mb i [] (base_size i + 64) True (item_lines i))) =
      map ?f (concat (map item_lines (split_from ml mb i [] (base_size i + 64) True (item_lines i))))"
    by (simp add: map_concat comp_def cong: map_cong)
  then show ?thesis unfolding split_from_lines by (simp add: file_chunks_def facts_def)
qed

lemma file_chunks_delta: "batch_files (file_chunks ml mb i) = 1"
  by (simp add: file_chunks_def split_from_delta)

lemma file_chunks_count:
  "c \<in> set (file_chunks ml mb i) \<Longrightarrow> (case chunk_line_count c of None \<Rightarrow> length (item_lines c) | Some n \<Rightarrow> n) = length (item_lines c)"
  by (auto simp: file_chunks_def split: if_splits dest: split_from_file)

text \<open>What the limits make of a chunk: it stands for one file at most and is within the limits.\<close>

definition chunk_ok :: "nat \<Rightarrow> nat \<Rightarrow> coverage_chunk \<Rightarrow> bool" where
  "chunk_ok ml mb c \<longleftrightarrow> file_count_delta c \<le> 1 \<and> (ml > 0 \<or> mb > 0 \<longrightarrow> opt_count (chunk_line_count c) = length (item_lines c)) \<and>
     (ml > 0 \<longrightarrow> length (item_lines c) \<le> ml) \<and> (mb > 0 \<longrightarrow> opt_count (estimated_bytes c) \<le> mb \<or> length (item_lines c) \<le> 1)"

lemma file_chunks_ok:
  assumes "c \<in> set (file_chunks ml mb i)"
  shows "chunk_ok ml mb c"
proof (cases "ml = 0 \<and> mb = 0")
  case True
  then show ?thesis using assms by (auto simp: file_chunks_def chunk_ok_def)
next
  case False
  then have c: "c \<in> set (split_from ml mb i [] (base_size i + 64) True (item_lines i))" using assms by (auto simp: file_chunks_def)
  have "file_count_delta c \<le> batch_files (split_from ml mb i [] (base_size i + 64) True (item_lines i))"
    using c by (intro member_le_sum_list) simp_all
  moreover have "within ml mb (length ([] :: line_record list)) (base_size i + 64)" by (simp add: within_def)
  from split_from_within [OF this c] obtain n where "estimated_bytes c = Some n" "within ml mb (length (item_lines c)) n" by blast
  ultimately show ?thesis using split_from_file [OF c] by (simp add: split_from_delta chunk_ok_def within_def opt_count_def)
qed

section \<open>Batches\<close>

definition batch_ok :: "nat \<Rightarrow> nat \<Rightarrow> nat \<Rightarrow> coverage_chunk list \<Rightarrow> bool" where
  "batch_ok mf ml mb b \<longleftrightarrow> b \<noteq> [] \<and> batch_files b \<le> max 1 mf \<and> (ml > 0 \<longrightarrow> batch_lines b \<le> ml) \<and>
     (mb > 0 \<longrightarrow> batch_bytes b \<le> mb \<or> (\<exists>c. b = [c] \<and> length (item_lines c) \<le> 1))"

lemma single_ok: "chunk_ok ml mb c \<Longrightarrow> batch_ok mf ml mb [c]"
  by (auto simp: chunk_ok_def batch_ok_def)

lemma grown_ok:
  assumes "batch \<noteq> [] \<longrightarrow> batch_ok mf ml mb batch" "chunk_ok ml mb c"
    "\<not> over_limit mf ml mb batch (batch_files batch) (batch_lines batch) (batch_bytes batch) c"
  shows "batch_ok mf ml mb (batch @ [c])"
proof (cases "batch = []")
  case True
  then show ?thesis using single_ok [OF assms(2)] by simp
next
  case False
  with assms(3) have o: "file_count_delta c = 0 \<or> batch_files batch < max 1 mf" "ml > 0 \<Longrightarrow> batch_lines batch + opt_count (chunk_line_count c) \<le> ml"
    "mb > 0 \<Longrightarrow> batch_bytes batch + opt_count (estimated_bytes c) \<le> mb"
    unfolding over_limit_def by linarith+
  have "batch_files (batch @ [c]) \<le> max 1 mf"
    using o(1) assms(1,2) False by (elim disjE) (simp_all add: batch_ok_def chunk_ok_def)
  then show ?thesis using o(2,3) by (simp add: batch_ok_def)
qed

lemma batches_parts:
  assumes "batch \<noteq> [] \<longrightarrow> batch_ok mf ml mb batch" "\<forall>c \<in> set cs. chunk_ok ml mb c"
  shows "\<exists>parts rest. batches_from mf ml mb batch (batch_files batch) (batch_lines batch) (batch_bytes batch) (cs, e) =
      (map (sort_key coverage_sort_key) parts, e) \<and> concat parts @ rest = batch @ cs \<and> (e = None \<longrightarrow> rest = []) \<and>
      (\<forall>b \<in> set parts. batch_ok mf ml mb b)"
  using assms
proof (induction cs arbitrary: batch)
  case Nil
  show ?case
  proof (cases "e = None \<and> batch \<noteq> []")
    case True
    then show ?thesis using Nil by (intro exI [of _ "[batch]"] exI [of _ "[]"]) simp
  next
    case False
    then show ?thesis by (intro exI [of _ "[]"] exI [of _ batch]) auto
  qed
next
  case (Cons c cs)
  show ?case
  proof (cases "over_limit mf ml mb batch (batch_files batch) (batch_lines batch) (batch_bytes batch) c")
    case True
    have "[c] \<noteq> [] \<longrightarrow> batch_ok mf ml mb [c]" using single_ok Cons.prems(2) by simp
    from Cons.IH [OF this] Cons.prems(2) obtain parts rest where p:
      "batches_from mf ml mb [c] (file_count_delta c) (opt_count (chunk_line_count c)) (opt_count (estimated_bytes c)) (cs, e) =
         (map (sort_key coverage_sort_key) parts, e)"
      "concat parts @ rest = c # cs" "e = None \<longrightarrow> rest = []" "\<forall>b \<in> set parts. batch_ok mf ml mb b" by auto
    moreover have "batch \<noteq> []" using True by (auto simp: over_limit_def)
    ultimately show ?thesis using True Cons.prems(1)
      by (intro exI [of _ "batch # parts"] exI [of _ rest]) (simp add: Let_def)
  next
    case False
    have "batch @ [c] \<noteq> [] \<longrightarrow> batch_ok mf ml mb (batch @ [c])" using grown_ok [OF Cons.prems(1) _ False] Cons.prems(2) by simp
    from Cons.IH [OF this] Cons.prems(2) False show ?thesis by (simp add: Let_def)
  qed
qed

lemma iter_batches_parts:
  assumes "iter_coverage_batches mf ml mb (items, e) = (bs, x)"
  shows "\<exists>parts rest. bs = map (sort_key coverage_sort_key) parts \<and> x = e \<and>
      concat parts @ rest = concat (map (file_chunks ml mb) items) \<and> (e = None \<longrightarrow> rest = []) \<and> (\<forall>b \<in> set parts. batch_ok mf ml mb b)"
proof -
  have "\<forall>c \<in> set (concat (map (file_chunks ml mb) items)). chunk_ok ml mb c" using file_chunks_ok by auto
  from batches_parts [of "[]", OF _ this, of mf e] assms show ?thesis
    by (auto simp: iter_coverage_batches_def iter_coverage_file_chunks_def)
qed

lemma consume_from_counts:
  "result_files (consume_from h r b) = result_files r + batch_files b \<and>
   result_lines (consume_from h r b) = result_lines r + (\<Sum>c \<leftarrow> b. case chunk_line_count c of None \<Rightarrow> length (item_lines c) | Some n \<Rightarrow> n)"
  by (induction h r b rule: consume_from.induct) auto

section \<open>Properties\<close>


text \<open>Nothing is lost and nothing doubled when the input is cut into batches: the lines of all batches, each with its
  file, are the lines of all files, and the counts that the batches report add up to the number of files and of lines.\<close>

lemma batches_lose_nothing:
  assumes "iter_coverage_batches mf ml mb (items, None) = (bs, x)"
  shows "x = None \<and> mset (concat (map facts (concat bs))) = mset (concat (map facts items)) \<and>
    (\<Sum>b \<leftarrow> bs. result_files (consume_coverage_batch h b)) = length items \<and>
    (\<Sum>b \<leftarrow> bs. result_lines (consume_coverage_batch h b)) = (\<Sum>i \<leftarrow> items. length (item_lines i))"
proof -
  from iter_batches_parts [OF assms] obtain parts where p: "bs = map (sort_key coverage_sort_key) parts" "x = None"
    "concat parts = concat (map (file_chunks ml mb) items)" by auto
  have s: "mset (concat bs) = mset (concat (map (file_chunks ml mb) items))"
    unfolding p(3) [symmetric] p(1) by (simp add: mset_concat comp_def)
  have f: "mset (concat (map f (concat bs))) = mset (concat (map f (concat (map (file_chunks ml mb) items))))"
    for f :: "coverage_chunk \<Rightarrow> 'a list"
    by (metis (no_types, lifting) s mset_concat mset_map sum_mset_sum_list)
  have n: "(\<Sum>b \<leftarrow> bs. sum_list (map g b)) = (\<Sum>i \<leftarrow> items. sum_list (map g (file_chunks ml mb i)))" for g :: "coverage_chunk \<Rightarrow> nat"
  proof -
    have "(\<Sum>b \<leftarrow> bs. sum_list (map g b)) = sum_list (map g (concat bs))" by (induction bs) simp_all
    also have "\<dots> = sum_list (map g (concat (map (file_chunks ml mb) items)))" by (metis s mset_map sum_mset_sum_list)
    also have "\<dots> = (\<Sum>i \<leftarrow> items. sum_list (map g (file_chunks ml mb i)))" by (induction items) simp_all
    finally show ?thesis .
  qed
  have "concat (map facts (concat (map (file_chunks ml mb) items))) = concat (map facts items)"
    by (induction items) (simp_all add: file_chunks_facts)
  moreover have "sum_list (map (\<lambda>c. case chunk_line_count c of None \<Rightarrow> length (item_lines c) | Some n \<Rightarrow> n) (file_chunks ml mb i)) =
      length (item_lines i)" for i
  proof -
    have "sum_list (map (\<lambda>c. case chunk_line_count c of None \<Rightarrow> length (item_lines c) | Some n \<Rightarrow> n) (file_chunks ml mb i)) =
        length (concat (map facts (file_chunks ml mb i)))"
      unfolding length_concat by (rule arg_cong [of _ _ sum_list]) (simp add: file_chunks_count facts_def)
    then show ?thesis by (simp add: file_chunks_facts) (simp add: facts_def)
  qed
  ultimately show ?thesis using p(2) f [of facts] by (simp add: consume_coverage_batch_def consume_from_counts n file_chunks_delta sum_list_triv)
qed

section \<open>Examples\<close>

definition sample_items :: "coverage_item list" where
  "sample_items = [\<lparr>item_repository = ''r'', item_path = ''b.c'', item_hash = ''h2'', item_source_name = ''b.c'', item_lines = map (\<lambda>n. make_line n 1 None) [1, 2, 3]\<rparr>,
     \<lparr>item_repository = ''r'', item_path = ''a.c'', item_hash = ''h1'', item_source_name = ''a.c'', item_lines = [make_line 9 0 None]\<rparr>]"

definition sample_batches :: "coverage_chunk list stream" where
  "sample_batches = iter_coverage_batches 2 2 0 (sample_items, None)"


theorem batches_lose_nothing_witness:
  "(\<Sum>b \<leftarrow> fst sample_batches. result_lines (consume_coverage_batch (\<lambda>p r. p) b)) = 4 \<and>
   mset (concat (map facts (concat (fst sample_batches)))) = mset (concat (map facts sample_items))"
  using batches_lose_nothing [of 2 2 0 sample_items "fst sample_batches" "snd sample_batches" "\<lambda>p r. p"]
  by (simp add: sample_batches_def) (simp add: sample_items_def)

end
