(* ===== verification/ScanFacts.thy ===== *)
theory ScanFacts
  imports CoverageBatches
begin

text \<open>
  The facts of scans: projects, scans, snapshots of repositories, reports, files and lines,
  \<open>app/db/repositories/project_repository.py\<close>, the writing part of \<open>app/db/repositories/line_index_repository.py\<close>, and
  \<open>ingest_file_batch\<close> of \<open>app/services/project_service.py\<close>. A table is the list of its rows in the order of insertion,
  identifiers are the next unused number. Current times and the hash of a file identity are arguments.

  Shown: whatever operations run, rows of facts are never changed or removed, and a scan changes in its status only; a
  scan that is not under construction accepts nothing; ingesting a batch stores every line of it once under its
  file, and ingesting it again changes nothing.
\<close>

section \<open>Tables\<close>

record project_row =
  pj_id :: int
  pj_name :: string
  pj_created :: string
  pj_updated :: string

record scan_row =
  sc_id :: int
  sc_project :: int
  sc_key :: string
  sc_type :: string
  sc_scope :: string
  sc_info_name :: string
  sc_info_sha :: string
  sc_imported :: string
  sc_status :: string
  sc_legacy :: bool
  sc_metadata_version :: int
  sc_predecessor :: "int option"
  sc_algorithm :: string

record snapshot_values =
  sv_path :: string
  sv_branch :: string
  sv_old_commit :: "string option"
  sv_new_commit :: "string option"
  sv_verified :: bool
  sv_provenance :: string
  sv_repository_id :: "int option"
  sv_commit :: "string option"
  sv_identity_verified :: bool
  sv_identity_provenance :: string

record repository_snapshot =
  rs_id :: int
  rs_scan :: int
  rs_repository :: string
  rs_values :: snapshot_values
  rs_captured :: string

record report_values =
  rv_root :: string
  rv_signature :: string
  rv_schema :: int
  rv_asset :: string
  rv_mode :: string

record report_row =
  rp_db_id :: int
  rp_scan :: int
  rp_report_id :: string
  rp_values :: report_values
  rp_generated :: string

record file_row =
  fl_id :: int
  fl_scan :: int
  fl_repository :: string
  fl_hash :: string
  fl_path :: string
  fl_source_name :: string

text \<open>The fields of a line, without the number the table gives it; an import does not set \<open>suggested_reviewer\<close>.\<close>

record line_row =
  ln_file :: int
  ln_fact :: line_record
  ln_reviewer :: string

record scan_db =
  projects :: "project_row list"
  scans :: "scan_row list"
  snapshots :: "repository_snapshot list"
  reports :: "report_row list"
  files :: "file_row list"
  line_facts :: "line_row list"

text \<open>\<open>AUTO_INCREMENT\<close>: one more than the greatest number in use.\<close>

definition fresh_id :: "int list \<Rightarrow> int" where
  "fresh_id ids = fold max ids 0 + 1"

section \<open>Projects and scans\<close>

definition construction :: "string \<Rightarrow> bool" where
  "construction status \<longleftrightarrow> map to_lower status \<in> set [''building'', ''importing'', ''constructing'']"

definition get_project :: "scan_db \<Rightarrow> int \<Rightarrow> project_row option" where
  "get_project d i = List.find (\<lambda>p. pj_id p = i) (projects d)"

definition get_project_by_name :: "scan_db \<Rightarrow> string \<Rightarrow> project_row option" where
  "get_project_by_name d name = List.find (\<lambda>p. pj_name p = name) (projects d)"

definition list_projects :: "scan_db \<Rightarrow> project_row list" where
  "list_projects d = sort_key pj_name (projects d)"

definition ensure_project :: "string \<Rightarrow> string \<Rightarrow> (scan_db, project_row) action" where
  "ensure_project now name d =
     (if py_strip is_space name = [] then (Inl (ValueError ''project_name is required''), d)
      else case get_project_by_name d name of
        Some p \<Rightarrow> (Inr p, d)
      | None \<Rightarrow>
          let p = \<lparr>pj_id = fresh_id (map pj_id (projects d)), pj_name = name, pj_created = now, pj_updated = now\<rparr>
          in (Inr p, d\<lparr>projects := projects d @ [p]\<rparr>))"

definition update_project_timestamp :: "string \<Rightarrow> int \<Rightarrow> scan_db \<Rightarrow> scan_db" where
  "update_project_timestamp now i d = d\<lparr>projects := map (\<lambda>p. if pj_id p = i then p\<lparr>pj_updated := now\<rparr> else p) (projects d)\<rparr>"

definition get_scan :: "scan_db \<Rightarrow> int \<Rightarrow> scan_row option" where
  "get_scan d i = List.find (\<lambda>s. sc_id s = i) (scans d)"

definition get_scan_by_key :: "scan_db \<Rightarrow> string \<Rightarrow> scan_row option" where
  "get_scan_by_key d key = List.find (\<lambda>s. sc_key s = key) (scans d)"

definition assert_scan_building :: "scan_db \<Rightarrow> int \<Rightarrow> scan_row result" where
  "assert_scan_building d i =
     (case get_scan d i of
        None \<Rightarrow> Inl (KeyError (''scan not found: '' @ show_int i))
      | Some s \<Rightarrow> if construction (sc_status s) then Inr s else Inl (ValueError (''scan '' @ show_int i @ '' is sealed and immutable'')))"

definition list_scans :: "scan_db \<Rightarrow> int \<Rightarrow> scan_row list" where
  "list_scans d project = sort_key (\<lambda>s. (sc_imported s, sc_id s)) (filter (\<lambda>s. sc_project s = project) (scans d))"

text \<open>The arguments of \<open>create_scan\<close> are the row without its number.\<close>

definition create_scan :: "scan_row \<Rightarrow> (scan_db, scan_row) action" where
  "create_scan row d =
     (if \<not> construction (sc_status row) then (Inl (ValueError ''new scans must be created in a construction state''), d)
      else case get_scan_by_key d (sc_key row) of
        Some s \<Rightarrow> (Inr s, d)
      | None \<Rightarrow> let s = row\<lparr>sc_id := fresh_id (map sc_id (scans d))\<rparr> in (Inr s, d\<lparr>scans := scans d @ [s]\<rparr>))"

definition set_status :: "int \<Rightarrow> string \<Rightarrow> scan_db \<Rightarrow> scan_db" where
  "set_status i status d = d\<lparr>scans := map (\<lambda>s. if sc_id s = i then s\<lparr>sc_status := status\<rparr> else s) (scans d)\<rparr>"

definition seal_scan :: "int \<Rightarrow> string \<Rightarrow> (scan_db, scan_row option) action" where
  "seal_scan i status d =
     (case assert_scan_building d i of
        Inl e \<Rightarrow> (Inl e, d)
      | Inr s \<Rightarrow>
          if map to_lower status \<notin> set [''ready'', ''sealed''] then (Inl (ValueError ''sealed scan status must be ready or sealed''), d)
          else let d' = set_status i status d in (Inr (get_scan d' i), d'))"

section \<open>Snapshots and reports\<close>

definition blank :: "string option \<Rightarrow> bool" where
  "blank v = (case v of None \<Rightarrow> True | Some s \<Rightarrow> py_strip is_space s = [])"

definition upsert_repository_snapshot :: "string \<Rightarrow> int \<Rightarrow> string \<Rightarrow> snapshot_values \<Rightarrow> (scan_db, repository_snapshot) action" where
  "upsert_repository_snapshot now scan name v d =
     (case assert_scan_building d scan of
        Inl e \<Rightarrow> (Inl e, d)
      | Inr s \<Rightarrow>
          if sv_identity_verified v \<and> blank (sv_commit v) then (Inl (ValueError ''verified scan identity requires commit_sha''), d)
          else if sv_identity_verified v \<and> py_strip is_space (sv_identity_provenance v) = []
          then (Inl (ValueError ''verified scan identity requires identity_provenance''), d)
          else case List.find (\<lambda>r. rs_scan r = scan \<and> rs_repository r = name) (snapshots d) of
            Some r \<Rightarrow> if rs_values r \<noteq> v then (Inl (ValueError ''repository snapshot is immutable''), d) else (Inr r, d)
          | None \<Rightarrow>
              let r = \<lparr>rs_id = fresh_id (map rs_id (snapshots d)), rs_scan = scan, rs_repository = name, rs_values = v, rs_captured = now\<rparr>
              in (Inr r, d\<lparr>snapshots := snapshots d @ [r]\<rparr>))"

definition get_report :: "scan_db \<Rightarrow> string \<Rightarrow> report_row option" where
  "get_report d i = List.find (\<lambda>r. rp_report_id r = i) (reports d)"

definition get_report_for_scan :: "scan_db \<Rightarrow> int \<Rightarrow> report_row option" where
  "get_report_for_scan d scan = List.find (\<lambda>r. rp_scan r = scan) (sort_key rp_db_id (reports d))"

definition list_repository_snapshots :: "scan_db \<Rightarrow> int \<Rightarrow> repository_snapshot list" where
  "list_repository_snapshots d scan = sort_key rs_repository (filter (\<lambda>r. rs_scan r = scan) (snapshots d))"

definition validate_report_mode :: "string option \<Rightarrow> string \<Rightarrow> string result" where
  "validate_report_mode mode dflt =
     (let value = map to_upper (py_strip is_space (case mode of None \<Rightarrow> dflt | Some v \<Rightarrow> if v = [] then dflt else v)) in
      if value \<in> set [''LEGACY_STATIC'', ''VNEXT_ARTIFACT_READY''] then Inr value else Inl (ValueError ''invalid report_mode''))"

definition vnext_fault :: "report_values \<Rightarrow> string option" where
  "vnext_fault v =
     (if rv_mode v \<noteq> ''VNEXT_ARTIFACT_READY'' then None
      else if rv_root v = [] then Some ''VNEXT report_root is required''
      else if py_strip is_space (rv_asset v) = [] then Some ''VNEXT asset_identity is required''
      else if rv_schema v \<notin> {1, 2} then Some ''VNEXT sidecar_schema is unsupported'' else None)"

text \<open>The mode of the stored report is validated again; a report in the table has a valid one.\<close>

definition store_report :: "string \<Rightarrow> int \<Rightarrow> string \<Rightarrow> report_values \<Rightarrow> (scan_db, report_row) action" where
  "store_report now scan report v d =
     (case get_report d report of
        Some r \<Rightarrow>
          if rp_scan r \<noteq> scan then (Inl (ValueError ''report_id is already bound to another scan''), d)
          else (rbind (validate_report_mode (Some (rv_mode (rp_values r))) ''LEGACY_STATIC'')
                  (\<lambda>stored. if (rp_values r)\<lparr>rv_mode := stored\<rparr> \<noteq> v then Inl (ValueError ''report identity is immutable'') else Inr r), d)
      | None \<Rightarrow>
          (case assert_scan_building d scan of
             Inl e \<Rightarrow> (Inl e, d)
           | Inr s \<Rightarrow>
               let r = \<lparr>rp_db_id = fresh_id (map rp_db_id (reports d)), rp_scan = scan, rp_report_id = report, rp_values = v, rp_generated = now\<rparr>
               in (Inr r, d\<lparr>reports := reports d @ [r]\<rparr>)))"

definition bind_report :: "string \<Rightarrow> int \<Rightarrow> string \<Rightarrow> report_values \<Rightarrow> string option \<Rightarrow> (scan_db, report_row) action" where
  "bind_report now scan report v mode d =
     (if report = [] then (Inl (ValueError ''report_id is required''), d)
      else case validate_report_mode
          (case mode of Some x \<Rightarrow> Some x | None \<Rightarrow> Some (if rv_root v \<noteq> [] then ''VNEXT_ARTIFACT_READY'' else ''LEGACY_STATIC'')) ''LEGACY_STATIC'' of
        Inl e \<Rightarrow> (Inl e, d)
      | Inr checked \<Rightarrow>
          (case vnext_fault (v\<lparr>rv_mode := checked\<rparr>) of
             Some msg \<Rightarrow> (Inl (ValueError msg), d)
           | None \<Rightarrow> store_report now scan report (v\<lparr>rv_mode := checked\<rparr>) d))"

section \<open>Files\<close>

record file_key =
  fk_repository :: string
  fk_hash :: string
  fk_path :: string
  fk_source_name :: string

definition get_file :: "scan_db \<Rightarrow> int \<Rightarrow> string \<Rightarrow> string \<Rightarrow> file_row option" where
  "get_file d scan repository hash = List.find (\<lambda>f. fl_scan f = scan \<and> fl_repository f = repository \<and> fl_hash f = hash) (files d)"

definition get_files_by_identities :: "scan_db \<Rightarrow> int \<Rightarrow> (string \<times> string) list \<Rightarrow> ((string \<times> string) \<times> file_row) list" where
  "get_files_by_identities d scan keys =
     map (\<lambda>f. ((fl_repository f, fl_hash f), f)) (filter (\<lambda>f. fl_scan f = scan \<and> (fl_repository f, fl_hash f) \<in> set keys) (files d))"

fun normalize_files :: "((string \<times> string) \<times> (string \<times> string)) list \<Rightarrow> file_key list \<Rightarrow> ((string \<times> string) \<times> (string \<times> string)) list result" where
  "normalize_files n [] = Inr n"
| "normalize_files n (k # ks) =
     (if fk_hash k = [] \<or> fk_path k = [] then Inl (ValueError ''file_path and file_path_hash are required'')
      else let key = (fk_repository k, fk_hash k); candidate = (fk_path k, fk_source_name k) in
        if (case map_of n key of None \<Rightarrow> False | Some c \<Rightarrow> c \<noteq> candidate) then Inl (ValueError ''duplicate file identity has conflicting paths'')
        else normalize_files (AList.update key candidate n) ks)"

definition add_file :: "int \<Rightarrow> (string \<times> string) \<times> (string \<times> string) \<Rightarrow> scan_db \<Rightarrow> scan_db" where
  "add_file scan = (\<lambda>((repository, hash), (path, source)) d.
     d\<lparr>files := files d @ [\<lparr>fl_id = fresh_id (map fl_id (files d)), fl_scan = scan, fl_repository = repository, fl_hash = hash,
       fl_path = path, fl_source_name = source\<rparr>]\<rparr>)"

definition ensure_files :: "int \<Rightarrow> file_key list \<Rightarrow> (scan_db, ((string \<times> string) \<times> file_row) list) action" where
  "ensure_files scan ks d =
     (case rbind (assert_scan_building d scan) (\<lambda>s. normalize_files [] ks) of
        Inl e \<Rightarrow> (Inl e, d)
      | Inr n \<Rightarrow>
          let existing = get_files_by_identities d scan (map fst n) in
          if list_ex (\<lambda>(key, candidate). case map_of existing key of None \<Rightarrow> False | Some f \<Rightarrow> (fl_path f, fl_source_name f) \<noteq> candidate) n
          then (Inl (ValueError ''file identity is immutable''), d)
          else let missing = filter (\<lambda>(key, candidate). map_of existing key = None) n; d' = fold (add_file scan) missing d
            in (Inr (get_files_by_identities d' scan (map fst missing) @ existing), d'))"

definition ensure_file :: "int \<Rightarrow> file_key \<Rightarrow> (scan_db, file_row option) action" where
  "ensure_file scan k d =
     (case assert_scan_building d scan of
        Inl e \<Rightarrow> (Inl e, d)
      | Inr s \<Rightarrow>
          (case get_file d scan (fk_repository k) (fk_hash k) of
             Some f \<Rightarrow> if (fl_path f, fl_source_name f) \<noteq> (fk_path k, fk_source_name k) then (Inl (ValueError ''file identity is immutable''), d)
                       else (Inr (Some f), d)
           | None \<Rightarrow> let d' = add_file scan ((fk_repository k, fk_hash k), (fk_path k, fk_source_name k)) d
               in (Inr (get_file d' scan (fk_repository k) (fk_hash k)), d')))"

section \<open>Lines\<close>

definition assert_file_scan_building :: "scan_db \<Rightarrow> int \<Rightarrow> unit result" where
  "assert_file_scan_building d f =
     (case List.find (\<lambda>r. fl_id r = f) (files d) of
        None \<Rightarrow> Inl (KeyError (''file not found: '' @ show_int f))
      | Some r \<Rightarrow>
          (case get_scan d (fl_scan r) of
             None \<Rightarrow> Inl (KeyError (''file not found: '' @ show_int f))
           | Some s \<Rightarrow> if construction (sc_status s) then Inr () else Inl (ValueError ''scan facts are sealed and immutable'')))"

definition get_line :: "scan_db \<Rightarrow> int \<Rightarrow> nat \<Rightarrow> line_row option" where
  "get_line d f n = List.find (\<lambda>l. ln_file l = f \<and> line_number (ln_fact l) = n) (line_facts d)"

definition new_line :: "int \<Rightarrow> line_record \<Rightarrow> line_row" where
  "new_line f r = \<lparr>ln_file = f, ln_fact = r, ln_reviewer = []\<rparr>"

definition upsert_line :: "int \<Rightarrow> line_record \<Rightarrow> (scan_db, line_row) action" where
  "upsert_line f r d =
     (case assert_file_scan_building d f of
        Inl e \<Rightarrow> (Inl e, d)
      | Inr u \<Rightarrow>
          if line_number r < 1 then (Inl (ValueError ''line_number must be positive''), d)
          else case get_line d f (line_number r) of
            Some l \<Rightarrow> if l \<noteq> new_line f r then (Inl (ValueError ''physical line fact is immutable''), d) else (Inr l, d)
          | None \<Rightarrow> (Inr (new_line f r), d\<lparr>line_facts := line_facts d @ [new_line f r]\<rparr>))"

definition upsert_lines :: "int \<Rightarrow> line_record list \<Rightarrow> (scan_db, nat) action" where
  "upsert_lines f rs d =
     (case assert_file_scan_building d f of
        Inl e \<Rightarrow> (Inl e, d)
      | Inr u \<Rightarrow>
          if list_ex (\<lambda>r. line_number r < 1) rs then (Inl (ValueError ''line_number must be positive''), d)
          else if \<not> distinct (map line_number rs) then (Inl (ValueError ''duplicate physical line identity in batch''), d)
          else if list_ex (\<lambda>r. case get_line d f (line_number r) of None \<Rightarrow> False | Some l \<Rightarrow> l \<noteq> new_line f r) rs
          then (Inl (ValueError ''physical line fact is immutable''), d)
          else (Inr (length rs), d\<lparr>line_facts := line_facts d @ map (new_line f) (filter (\<lambda>r. get_line d f (line_number r) = None) rs)\<rparr>))"

section \<open>Ingesting a batch\<close>

definition LINE_INGEST_BATCH_SIZE :: nat where
  "LINE_INGEST_BATCH_SIZE = 1000"

text \<open>The stretches of a list that the counting loop writes one by one.\<close>

function slices :: "nat \<Rightarrow> 'a list \<Rightarrow> 'a list list" where
  "slices n xs = (if xs = [] then [] else take (max 1 n) xs # slices n (drop (max 1 n) xs))"
  by pat_completeness auto

termination slices
  by (relation "measure (\<lambda>(n, xs). length xs)") (auto simp: not_le)

declare slices.simps [simp del]

fun upsert_slices :: "int \<Rightarrow> line_record list list \<Rightarrow> (scan_db, unit) action" where
  "upsert_slices f [] d = (Inr (), d)"
| "upsert_slices f (rs # rss) d = act_bind (upsert_lines f rs) (\<lambda>n. upsert_slices f rss) d"

definition chunk_key :: "(string \<Rightarrow> string \<Rightarrow> string) \<Rightarrow> coverage_chunk \<Rightarrow> file_key" where
  "chunk_key file_hash c =
     \<lparr>fk_repository = item_repository c, fk_hash = (if item_hash c = [] then file_hash (item_path c) (item_repository c) else item_hash c),
      fk_path = item_path c, fk_source_name = (if item_source_name c = [] then base_name (item_path c) else item_source_name c)\<rparr>"

fun ingest_lines ::
  "(string \<Rightarrow> string \<Rightarrow> string) \<Rightarrow> nat \<Rightarrow> ((string \<times> string) \<times> file_row) list \<Rightarrow> coverage_chunk list \<Rightarrow> (scan_db, nat) action" where
  "ingest_lines file_hash n rows [] d = (Inr 0, d)"
| "ingest_lines file_hash n rows (c # cs) d =
     (case map_of rows (fk_repository (chunk_key file_hash c), fk_hash (chunk_key file_hash c)) of
        None \<Rightarrow> (Inl (KeyError (fk_hash (chunk_key file_hash c))), d)
      | Some f \<Rightarrow>
          act_bind (upsert_slices (fl_id f) (slices n (item_lines c)))
            (\<lambda>u. act_bind (ingest_lines file_hash n rows cs) (\<lambda>k. act_return (length (item_lines c) + k))) d)"

definition ingest_file_batch :: "(string \<Rightarrow> string \<Rightarrow> string) \<Rightarrow> int \<Rightarrow> nat \<Rightarrow> coverage_chunk list \<Rightarrow> (scan_db, batch_result) action" where
  "ingest_file_batch file_hash scan n batch d =
     (case assert_scan_building d scan of
        Inl e \<Rightarrow> (Inl e, d)
      | Inr s \<Rightarrow>
          if batch = [] then (Inr \<lparr>result_files = 0, result_lines = 0, last_file_identity = None\<rparr>, d)
          else act_bind (ensure_files scan (map (chunk_key file_hash) batch))
            (\<lambda>rows. act_bind (ingest_lines file_hash n rows batch)
              (\<lambda>k. act_return \<lparr>result_files = batch_files batch, result_lines = k,
                     last_file_identity = Some (file_identity_of file_hash (last batch))\<rparr>)) d)"

section \<open>The invariant of the tables\<close>

definition facts_inv :: "scan_db \<Rightarrow> bool" where
  "facts_inv d \<longleftrightarrow> distinct (map sc_id (scans d)) \<and> distinct (map fl_id (files d)) \<and>
     distinct (map (\<lambda>f. (fl_scan f, fl_repository f, fl_hash f)) (files d)) \<and>
     distinct (map (\<lambda>l. (ln_file l, line_number (ln_fact l))) (line_facts d)) \<and>
     list_all (\<lambda>l. ln_file l \<in> set (map fl_id (files d))) (line_facts d)"

definition frozen :: "int \<Rightarrow> scan_db \<Rightarrow> bool" where
  "frozen scan d \<longleftrightarrow> (case get_scan d scan of None \<Rightarrow> False | Some s \<Rightarrow> \<not> construction (sc_status s))"

text \<open>Everything the tables hold about a scan.\<close>

definition scan_lines :: "int \<Rightarrow> scan_db \<Rightarrow> line_row list" where
  "scan_lines scan d = filter (\<lambda>l. ln_file l \<in> set (map fl_id (filter (\<lambda>f. fl_scan f = scan) (files d)))) (line_facts d)"

definition scan_facts :: "int \<Rightarrow> scan_db \<Rightarrow> scan_row option \<times> repository_snapshot list \<times> report_row list \<times> file_row list \<times> line_row list" where
  "scan_facts scan d = (get_scan d scan, filter (\<lambda>r. rs_scan r = scan) (snapshots d), filter (\<lambda>r. rp_scan r = scan) (reports d),
     filter (\<lambda>f. fl_scan f = scan) (files d), scan_lines scan d)"

definition keeps :: "int \<Rightarrow> scan_db \<Rightarrow> scan_db \<Rightarrow> bool" where
  "keeps scan d t \<longleftrightarrow> facts_inv t \<and> (frozen scan d \<longrightarrow> scan_facts scan t = scan_facts scan d) \<and>
     set (snapshots d) \<subseteq> set (snapshots t) \<and> set (reports d) \<subseteq> set (reports t) \<and> set (files d) \<subseteq> set (files t) \<and>
     set (line_facts d) \<subseteq> set (line_facts t)"

lemma keeps_refl [simp]: "facts_inv d \<Longrightarrow> keeps scan d d"
  by (simp add: keeps_def)

lemma frozen_facts: "scan_facts scan t = scan_facts scan d \<Longrightarrow> frozen scan t = frozen scan d"
  by (simp add: scan_facts_def frozen_def)

lemma keeps_trans: "keeps scan d t \<Longrightarrow> keeps scan t u \<Longrightarrow> keeps scan d u"
  unfolding keeps_def using frozen_facts by (metis subset_trans)

lemma keeps_bind:
  assumes "keeps scan d (snd (m d))" "\<And>x t. m d = (Inr x, t) \<Longrightarrow> facts_inv t \<Longrightarrow> keeps scan t (snd (f x t))"
  shows "keeps scan d (snd (act_bind m f d))"
proof (cases "m d")
  case (Pair out t)
  show ?thesis
  proof (cases out)
    case (Inl e)
    then show ?thesis using Pair assms(1) by (simp add: act_bind_def)
  next
    case (Inr x)
    have "facts_inv t" using assms(1) Pair by (simp add: keeps_def)
    with assms(2) [of x t] Pair Inr have "keeps scan t (snd (f x t))" by simp
    then show ?thesis using keeps_trans [of scan d t] assms(1) Pair Inr by (simp add: act_bind_def)
  qed
qed

lemma fold_max_ge: "a \<le> fold max ids a \<and> (x \<in> set ids \<longrightarrow> x \<le> fold max ids (a :: int))"
proof (induction ids arbitrary: a)
  case (Cons i ids)
  have "max i a \<le> fold max ids (max i a)" "x \<in> set ids \<longrightarrow> x \<le> fold max ids (max i a)" using Cons [of "max i a"] by auto
  then show ?case by auto
qed simp

lemma fresh_id_new: "fresh_id ids \<notin> set ids"
  using fold_max_ge [of 0 ids "fresh_id ids"] by (auto simp: fresh_id_def)

lemma building_not_frozen: "assert_scan_building d q = Inr s \<Longrightarrow> frozen scan d \<Longrightarrow> q \<noteq> scan"
  by (auto simp: assert_scan_building_def frozen_def split: option.splits if_splits)

lemma find_append: "List.find P (xs @ ys) = (case List.find P xs of None \<Rightarrow> List.find P ys | Some x \<Rightarrow> Some x)"
  by (induction xs) simp_all

lemma get_scan_append: "get_scan (d\<lparr>scans := scans d @ [s]\<rparr>) i = (case get_scan d i of Some r \<Rightarrow> Some r | None \<Rightarrow> if sc_id s = i then Some s else None)"
  by (simp add: get_scan_def find_append) (simp split: option.split)

lemma scan_facts_rows:
  assumes "scans t = scans d" "snapshots t = snapshots d @ a" "reports t = reports d @ b" "\<forall>r \<in> set a. rs_scan r \<noteq> scan" "\<forall>r \<in> set b. rp_scan r \<noteq> scan"
    "files t = files d" "line_facts t = line_facts d"
  shows "scan_facts scan t = scan_facts scan d"
  using assms by (simp add: scan_facts_def get_scan_def scan_lines_def filter_empty_conv)

lemma keeps_rows:
  assumes "facts_inv d" "scans t = scans d" "snapshots t = snapshots d @ a" "reports t = reports d @ b"
    "\<forall>r \<in> set a. frozen scan d \<longrightarrow> rs_scan r \<noteq> scan" "\<forall>r \<in> set b. frozen scan d \<longrightarrow> rp_scan r \<noteq> scan"
    "files t = files d" "line_facts t = line_facts d"
  shows "keeps scan d t"
  using assms scan_facts_rows [of t d a b scan] by (auto simp: keeps_def facts_inv_def)

lemma keeps_add_file:
  assumes "facts_inv d" "assert_scan_building d q = Inr s" "get_file d q repository hash = None"
  shows "keeps scan d (add_file q ((repository, hash), (path, source)) d)"
proof -
  let ?t = "add_file q ((repository, hash), (path, source)) d"
  have "(q, repository, hash) \<notin> set (map (\<lambda>f. (fl_scan f, fl_repository f, fl_hash f)) (files d))"
    using assms(3) by (auto simp: get_file_def find_None_iff)
  then have "facts_inv ?t" using assms(1) fresh_id_new [of "map fl_id (files d)"] by (auto simp: facts_inv_def add_file_def list_all_iff)
  moreover have "scan_facts scan ?t = scan_facts scan d" if "frozen scan d"
    using building_not_frozen [OF assms(2) that] by (simp add: scan_facts_def get_scan_def scan_lines_def add_file_def)
  ultimately show ?thesis by (auto simp: keeps_def add_file_def)
qed

lemma keeps_add_lines:
  assumes "facts_inv d" "assert_file_scan_building d f = Inr u" "distinct (map line_number rs)" "\<And>r. r \<in> set rs \<Longrightarrow> get_line d f (line_number r) = None"
  shows "keeps scan d (d\<lparr>line_facts := line_facts d @ map (new_line f) rs\<rparr>)"
proof -
  let ?t = "d\<lparr>line_facts := line_facts d @ map (new_line f) rs\<rparr>"
  from assms(2) obtain r s where r: "r \<in> set (files d)" "fl_id r = f" "get_scan d (fl_scan r) = Some s" "construction (sc_status s)"
    by (auto simp: assert_file_scan_building_def split: option.splits if_splits dest!: find_SomeD)
  have "(ln_file l, line_number (ln_fact l)) \<noteq> (f, line_number x)" if "l \<in> set (line_facts d)" "x \<in> set rs" for l x
    using assms(4) [OF that(2)] that(1) by (auto simp: get_line_def find_None_iff)
  moreover have "map (\<lambda>l. (ln_file l, line_number (ln_fact l))) (map (new_line f) rs) = map (Pair f) (map line_number rs)" by (simp add: new_line_def)
  then have "distinct (map (\<lambda>l. (ln_file l, line_number (ln_fact l))) (map (new_line f) rs))" using assms(3) by (simp only: distinct_map inj_on_def) simp
  ultimately have "facts_inv ?t" using assms(1) r(1,2) by (auto simp: facts_inv_def list_all_iff new_line_def)
  moreover have "scan_facts scan ?t = scan_facts scan d" if "frozen scan d"
  proof -
    have "fl_scan r \<noteq> scan" using that r(3,4) by (auto simp: frozen_def)
    then have "f \<notin> set (map fl_id (filter (\<lambda>f. fl_scan f = scan) (files d)))"
      using r(1,2) assms(1) by (auto simp: facts_inv_def distinct_map inj_on_def)
    then show ?thesis by (simp add: scan_facts_def get_scan_def scan_lines_def new_line_def filter_empty_conv)
  qed
  ultimately show ?thesis by (auto simp: keeps_def)
qed

section \<open>Every operation keeps what is there\<close>

lemma keeps_create_scan:
  assumes "facts_inv d"
  shows "keeps scan d (snd (create_scan row d))"
proof (cases "snd (create_scan row d) = d")
  case True
  then show ?thesis using assms by simp
next
  case False
  then have t: "snd (create_scan row d) = d\<lparr>scans := scans d @ [row\<lparr>sc_id := fresh_id (map sc_id (scans d))\<rparr>]\<rparr>"
    by (auto simp: create_scan_def Let_def split: if_splits option.splits)
  have "facts_inv (snd (create_scan row d))" using assms fresh_id_new [of "map sc_id (scans d)"] unfolding t by (auto simp: facts_inv_def)
  moreover have "get_scan (snd (create_scan row d)) scan = get_scan d scan" if "frozen scan d"
    using that unfolding t get_scan_append by (auto simp: frozen_def split: option.splits)
  ultimately show ?thesis unfolding t by (auto simp: keeps_def scan_facts_def scan_lines_def)
qed

lemma keeps_seal_scan:
  assumes "facts_inv d"
  shows "keeps scan d (snd (seal_scan i status d))"
proof (cases "assert_scan_building d i")
  case (Inl e)
  then show ?thesis using assms by (simp add: seal_scan_def)
next
  case (Inr r)
  let ?f = "\<lambda>s. if sc_id s = i then s\<lparr>sc_status := status\<rparr> else s"
  have ids: "map sc_id (map ?f (scans d)) = map sc_id (scans d)" by simp
  have "facts_inv (set_status i status d)"
    using assms ids unfolding facts_inv_def set_status_def by (simp del: map_map add: ids)
  moreover have "scan_facts scan (set_status i status d) = scan_facts scan d" if "frozen scan d"
  proof -
    have "scan \<noteq> i" using building_not_frozen [OF Inr that] by simp
    then have "List.find (\<lambda>s. sc_id s = scan) (map ?f xs) = List.find (\<lambda>s. sc_id s = scan) xs" for xs by (induction xs) auto
    then show ?thesis by (simp add: scan_facts_def get_scan_def scan_lines_def set_status_def)
  qed
  ultimately show ?thesis using assms Inr by (auto simp: seal_scan_def Let_def keeps_def) (auto simp: set_status_def)
qed

lemma keeps_snapshot:
  assumes "facts_inv d"
  shows "keeps scan d (snd (upsert_repository_snapshot now q name v d))"
proof -
  let ?r = "\<lparr>rs_id = fresh_id (map rs_id (snapshots d)), rs_scan = q, rs_repository = name, rs_values = v, rs_captured = now\<rparr>"
  have "snd (upsert_repository_snapshot now q name v d) = d \<or>
      (\<exists>s. assert_scan_building d q = Inr s) \<and> snd (upsert_repository_snapshot now q name v d) = d\<lparr>snapshots := snapshots d @ [?r]\<rparr>"
    by (simp add: upsert_repository_snapshot_def Let_def split: sum.split option.split)
  then show ?thesis
  proof (elim disjE exE conjE)
    fix s assume s: "assert_scan_building d q = Inr s" "snd (upsert_repository_snapshot now q name v d) = d\<lparr>snapshots := snapshots d @ [?r]\<rparr>"
    show ?thesis unfolding s(2) by (rule keeps_rows [OF assms, of _ "[?r]" "[]"]) (use building_not_frozen [OF s(1)] in auto)
  qed (use assms in simp)
qed

lemma keeps_store_report:
  assumes "facts_inv d"
  shows "keeps scan d (snd (store_report now q report v d))"
proof -
  let ?r = "\<lparr>rp_db_id = fresh_id (map rp_db_id (reports d)), rp_scan = q, rp_report_id = report, rp_values = v, rp_generated = now\<rparr>"
  have "snd (store_report now q report v d) = d \<or>
      (\<exists>s. assert_scan_building d q = Inr s) \<and> snd (store_report now q report v d) = d\<lparr>reports := reports d @ [?r]\<rparr>"
    by (simp add: store_report_def Let_def split: sum.split option.split)
  then show ?thesis
  proof (elim disjE exE conjE)
    fix s assume s: "assert_scan_building d q = Inr s" "snd (store_report now q report v d) = d\<lparr>reports := reports d @ [?r]\<rparr>"
    show ?thesis unfolding s(2) by (rule keeps_rows [OF assms, of _ "[]" "[?r]"]) (use building_not_frozen [OF s(1)] in auto)
  qed (use assms in simp)
qed

lemma keeps_bind_report: "facts_inv d \<Longrightarrow> keeps scan d (snd (bind_report now q report v mode d))"
  by (simp add: bind_report_def keeps_store_report split: sum.split option.split)

lemma scans_add_file [simp]: "scans (add_file q k d) = scans d" "assert_scan_building (add_file q k d) i = assert_scan_building d i"
  by (simp_all add: add_file_def assert_scan_building_def get_scan_def split: prod.split)

lemma get_file_add:
  "get_file (add_file q ((r, h), c) d) q' r' h' =
     (case get_file d q' r' h' of Some f \<Rightarrow> Some f
      | None \<Rightarrow> if (q', r', h') = (q, r, h) then Some (last (files (add_file q ((r, h), c) d))) else None)"
  by (cases c) (auto simp: get_file_def add_file_def find_append split: option.split)

lemma keeps_add_files:
  assumes "facts_inv d" "assert_scan_building d q = Inr s" "distinct (map fst ks)" "\<And>r h c. ((r, h), c) \<in> set ks \<Longrightarrow> get_file d q r h = None"
  shows "keeps scan d (fold (add_file q) ks d)"
  using assms
proof (induction ks arbitrary: d)
  case (Cons k ks)
  obtain r h p src where k: "k = ((r, h), (p, src))" by (metis surj_pair)
  have "get_file d q r h = None" by (rule Cons.prems(4) [of r h "(p, src)"]) (simp add: k)
  then have step: "keeps scan d (add_file q k d)" unfolding k by (rule keeps_add_file [OF Cons.prems(1,2)])
  have "get_file (add_file q k d) q r' h' = None" if "((r', h'), c) \<in> set ks" for r' h' c
  proof -
    have "get_file d q r' h' = None" by (rule Cons.prems(4) [of r' h' c]) (simp add: that)
    moreover have "(r', h') \<noteq> (r, h)" using that Cons.prems(3) k by (auto simp: image_iff)
    ultimately show ?thesis unfolding k get_file_add by auto
  qed
  then have "keeps scan (add_file q k d) (fold (add_file q) ks (add_file q k d))"
    using Cons.prems(2,3) step by (intro Cons.IH) (auto simp: keeps_def)
  with step show ?case using keeps_trans by simp
qed simp

lemma normalize_files_distinct: "normalize_files n ks = Inr m \<Longrightarrow> distinct (map fst n) \<Longrightarrow> distinct (map fst m)"
  by (induction n ks rule: normalize_files.induct) (auto simp: Let_def distinct_update split: if_splits)

lemma existing_lookup:
  assumes "facts_inv d" "(r, h) \<in> set keys"
  shows "map_of (get_files_by_identities d q keys) (r, h) = get_file d q r h"
proof -
  have "map_of (map (\<lambda>f. ((fl_repository f, fl_hash f), f)) (filter (\<lambda>f. fl_scan f = q \<and> (fl_repository f, fl_hash f) \<in> set keys) xs)) (r, h) =
      List.find (\<lambda>f. fl_scan f = q \<and> fl_repository f = r \<and> fl_hash f = h) xs" for xs
    using assms(2) by (induction xs) auto
  then show ?thesis by (simp add: get_files_by_identities_def get_file_def)
qed

lemma identities_outside: "key \<notin> set keys \<Longrightarrow> map_of (get_files_by_identities d q keys) key = None"
  by (simp add: map_of_eq_None_iff get_files_by_identities_def image_iff) metis

lemma ensure_files_cases:
  assumes "facts_inv d"
  obtains (raised) e where "ensure_files q ks d = (Inl e, d)"
  | (written) s n missing rows where "assert_scan_building d q = Inr s" "normalize_files [] ks = Inr n" "distinct (map fst n)"
    "\<And>r h c f. ((r, h), c) \<in> set n \<Longrightarrow> get_file d q r h = Some f \<Longrightarrow> (fl_path f, fl_source_name f) = c"
    "missing = filter (\<lambda>((r, h), c). get_file d q r h = None) n" "ensure_files q ks d = (Inr rows, fold (add_file q) missing d)"
    "rows = get_files_by_identities (fold (add_file q) missing d) q (map fst missing) @ get_files_by_identities d q (map fst n)"
proof (cases "assert_scan_building d q")
  case (Inl e)
  then show thesis using raised by (simp add: ensure_files_def)
next
  case s: (Inr s)
  show thesis
  proof (cases "normalize_files [] ks")
    case (Inl e)
    then show thesis using raised s by (simp add: ensure_files_def)
  next
    case n: (Inr n)
    let ?ex = "get_files_by_identities d q (map fst n)"
    have ex: "map_of ?ex (r, h) = get_file d q r h" if "((r, h), c) \<in> set n" for r h c
      using that by (intro existing_lookup [OF assms]) force
    have dist: "distinct (map fst n)" using normalize_files_distinct [OF n] by simp
    show thesis
    proof (cases "list_ex (\<lambda>(key, candidate). case map_of ?ex key of None \<Rightarrow> False | Some f \<Rightarrow> (fl_path f, fl_source_name f) \<noteq> candidate) n")
      case True
      then show thesis using raised s n by (simp add: ensure_files_def Let_def)
    next
      case False
      have "filter (\<lambda>(key, candidate). map_of ?ex key = None) n = filter (\<lambda>((r, h), c). get_file d q r h = None) n"
        using ex by (intro filter_cong) auto
      moreover have "(fl_path f, fl_source_name f) = c" if "((r, h), c) \<in> set n" "get_file d q r h = Some f" for r h c f
        using False ex [OF that(1)] that by (fastforce simp: list_ex_iff)
      ultimately show thesis using written [OF s n dist _ refl] False s n by (simp add: ensure_files_def Let_def)
    qed
  qed
qed

lemma keeps_ensure_files:
  assumes "facts_inv d"
  shows "keeps scan d (snd (ensure_files q ks d))"
  using assms
proof (cases rule: ensure_files_cases [of d q ks])
  case (written s n missing rows)
  have "keeps scan d (fold (add_file q) missing d)"
    by (rule keeps_add_files [OF assms written(1)]) (use written(3) in \<open>auto simp: written(5) distinct_map_filter\<close>)
  then show ?thesis using written(6) by simp
qed (use assms in simp)

lemma keeps_ensure_file: "facts_inv d \<Longrightarrow> keeps scan d (snd (ensure_file q k d))"
  by (auto simp: ensure_file_def Let_def keeps_add_file split: sum.split option.split)

lemma keeps_upsert_line: "facts_inv d \<Longrightarrow> keeps scan d (snd (upsert_line f r d))"
  using keeps_add_lines [of d f "()" "[r]" scan] by (auto simp: upsert_line_def split: sum.split option.split)

lemma keeps_upsert_lines: "facts_inv d \<Longrightarrow> keeps scan d (snd (upsert_lines f rs d))"
  by (auto simp: upsert_lines_def distinct_map_filter intro!: keeps_add_lines split: sum.split)

lemma keeps_upsert_slices: "facts_inv d \<Longrightarrow> keeps scan d (snd (upsert_slices f rss d))"
proof (induction rss arbitrary: d)
  case (Cons rs rss)
  then show ?case by (auto intro!: keeps_bind keeps_upsert_lines)
qed simp

lemma keeps_ingest_lines: "facts_inv d \<Longrightarrow> keeps scan d (snd (ingest_lines h n rows cs d))"
proof (induction cs arbitrary: d)
  case (Cons c cs)
  show ?case
  proof (cases "map_of rows (fk_repository (chunk_key h c), fk_hash (chunk_key h c))")
    case (Some f)
    then show ?thesis using Cons
      by (simp, intro keeps_bind keeps_upsert_slices) (simp_all add: act_bind_def split: prod.split sum.split)
  qed (use Cons in simp)
qed simp

lemma keeps_ingest: "facts_inv d \<Longrightarrow> keeps scan d (snd (ingest_file_batch h q n batch d))"
  unfolding ingest_file_batch_def
  by (auto split: sum.split intro!: keeps_bind keeps_ensure_files keeps_ingest_lines)

section \<open>Runs\<close>

datatype fact_operation =
    EnsureProject string
  | TouchProject int
  | CreateScan scan_row
  | SealScan int string
  | Snapshot int string snapshot_values
  | BindReport int string report_values "string option"
  | EnsureFiles int "file_key list"
  | EnsureFile int file_key
  | UpsertLine int line_record
  | UpsertLines int "line_record list"
  | Ingest int nat "coverage_chunk list"

fun fact_op :: "(string \<Rightarrow> string \<Rightarrow> string) \<Rightarrow> string \<Rightarrow> fact_operation \<Rightarrow> scan_db \<Rightarrow> scan_db" where
  "fact_op h now (EnsureProject name) d = snd (ensure_project now name d)"
| "fact_op h now (TouchProject i) d = update_project_timestamp now i d"
| "fact_op h now (CreateScan row) d = snd (create_scan row d)"
| "fact_op h now (SealScan i status) d = snd (seal_scan i status d)"
| "fact_op h now (Snapshot scan name v) d = snd (upsert_repository_snapshot now scan name v d)"
| "fact_op h now (BindReport scan report v mode) d = snd (bind_report now scan report v mode d)"
| "fact_op h now (EnsureFiles scan ks) d = snd (ensure_files scan ks d)"
| "fact_op h now (EnsureFile scan k) d = snd (ensure_file scan k d)"
| "fact_op h now (UpsertLine f r) d = snd (upsert_line f r d)"
| "fact_op h now (UpsertLines f rs) d = snd (upsert_lines f rs d)"
| "fact_op h now (Ingest scan n batch) d = snd (ingest_file_batch h scan n batch d)"

inductive fact_step :: "(string \<Rightarrow> string \<Rightarrow> string) \<Rightarrow> scan_db \<Rightarrow> string \<times> fact_operation \<Rightarrow> scan_db \<Rightarrow> bool" for h where
  "fact_step h d (now, op) (fact_op h now op d)"

lemma keeps_projects: "facts_inv d \<Longrightarrow> scans t = scans d \<Longrightarrow> snapshots t = snapshots d \<Longrightarrow> reports t = reports d \<Longrightarrow>
    files t = files d \<Longrightarrow> line_facts t = line_facts d \<Longrightarrow> keeps scan d t"
  using keeps_rows [of d t "[]" "[]" scan] by simp

lemma fact_op_keeps:
  assumes "facts_inv d"
  shows "keeps scan d (fact_op h now op d)"
proof (cases op)
  case (EnsureProject name)
  then show ?thesis using assms
    by (auto simp: ensure_project_def Let_def split: option.split intro!: keeps_projects)
qed (use assms in \<open>simp_all add: update_project_timestamp_def keeps_projects keeps_create_scan keeps_seal_scan keeps_snapshot
  keeps_bind_report keeps_ensure_files keeps_ensure_file keeps_upsert_line keeps_upsert_lines keeps_ingest\<close>)

lemma run_keeps: "reaches (fact_step h) d ops t \<Longrightarrow> facts_inv d \<Longrightarrow> keeps scan d t"
proof (induction rule: reaches.induct)
  case (reaches_step d ls t l u)
  then have "keeps scan d t" "facts_inv t" by (auto simp: keeps_def)
  with reaches_step.hyps(2) show ?case by (auto elim!: fact_step.cases intro: keeps_trans fact_op_keeps)
qed simp

section \<open>What a batch stores\<close>

lemma concat_slices: "concat (slices n xs) = xs"
proof (induction n xs rule: slices.induct)
  case (1 n xs)
  then show ?case by (subst slices.simps) (cases "xs = []", simp_all)
qed

definition valid_lines :: "line_record list \<Rightarrow> bool" where
  "valid_lines rs \<longleftrightarrow> list_all (\<lambda>r. line_number r \<ge> 1) rs \<and> distinct (map line_number rs)"

lemma upsert_lines_ok:
  assumes "upsert_lines f rs d = (Inr k, t)"
  shows "valid_lines rs \<and> (\<forall>r \<in> set rs. new_line f r \<in> set (line_facts t))"
proof -
  from assms have v: "\<not> list_ex (\<lambda>r. line_number r < 1) rs" "distinct (map line_number rs)"
    "\<not> list_ex (\<lambda>r. case get_line d f (line_number r) of None \<Rightarrow> False | Some l \<Rightarrow> l \<noteq> new_line f r) rs"
    "line_facts t = line_facts d @ map (new_line f) (filter (\<lambda>r. get_line d f (line_number r) = None) rs)"
    by (auto simp: upsert_lines_def split: sum.splits if_splits)
  have "new_line f r \<in> set (line_facts t)" if "r \<in> set rs" for r
  proof (cases "get_line d f (line_number r)")
    case None
    then show ?thesis using that v(4) by auto
  next
    case (Some l)
    then have "l = new_line f r" using v(3) that by (auto simp: list_ex_iff)
    moreover have "l \<in> set (line_facts d)" using Some find_SomeD by (fastforce simp: get_line_def)
    ultimately have "l = new_line f r" "l \<in> set (line_facts d)" by simp_all
    then show ?thesis using v(4) by simp
  qed
  then show ?thesis using v(1,2) by (auto simp: valid_lines_def list_all_iff list_ex_iff not_less)
qed

lemma upsert_lines_again:
  assumes "facts_inv d" "assert_file_scan_building d f = Inr u" "valid_lines rs" "\<forall>r \<in> set rs. new_line f r \<in> set (line_facts d)"
  shows "upsert_lines f rs d = (Inr (length rs), d)"
proof -
  have "get_line d f (line_number r) = Some (new_line f r)" if "r \<in> set rs" for r
    using find_unique [of "\<lambda>l. (ln_file l, line_number (ln_fact l))" "line_facts d" "new_line f r"] assms(1,4) that
    by (simp add: get_line_def facts_inv_def new_line_def)
  then have "filter (\<lambda>r. get_line d f (line_number r) = None) rs = []"
    "\<not> list_ex (\<lambda>r. case get_line d f (line_number r) of None \<Rightarrow> False | Some l \<Rightarrow> l \<noteq> new_line f r) rs"
    by (auto simp: filter_empty_conv list_ex_iff)
  then show ?thesis using assms(2,3) by (auto simp: upsert_lines_def valid_lines_def list_all_iff list_ex_iff not_less)
qed

lemma upsert_slices_ok:
  "facts_inv d \<Longrightarrow> upsert_slices f rss d = (Inr u, t) \<Longrightarrow> (\<forall>rs \<in> set rss. valid_lines rs) \<and> (\<forall>r \<in> set (concat rss). new_line f r \<in> set (line_facts t))"
proof (induction rss arbitrary: d)
  case (Cons rs rss)
  from Cons.prems(2) obtain k d1 where d1: "upsert_lines f rs d = (Inr k, d1)" "upsert_slices f rss d1 = (Inr u, t)" by (auto simp: act_bind_Inr)
  have inv: "facts_inv d1" using keeps_upsert_lines [OF Cons.prems(1), of 0 f rs] d1(1) by (simp add: keeps_def)
  have "set (line_facts d1) \<subseteq> set (line_facts t)" using keeps_upsert_slices [OF inv, of 0 f rss] d1(2) by (simp add: keeps_def)
  then show ?case using upsert_lines_ok [OF d1(1)] Cons.IH [OF inv d1(2)] by auto
qed simp

lemma upsert_slices_again:
  "facts_inv d \<Longrightarrow> assert_file_scan_building d f = Inr u \<Longrightarrow> \<forall>rs \<in> set rss. valid_lines rs \<Longrightarrow> \<forall>r \<in> set (concat rss). new_line f r \<in> set (line_facts d) \<Longrightarrow>
   upsert_slices f rss d = (Inr (), d)"
proof (induction rss)
  case (Cons rs rss)
  have "upsert_lines f rs d = (Inr (length rs), d)" by (rule upsert_lines_again [OF Cons.prems(1,2)]) (use Cons.prems in auto)
  with Cons show ?case by (simp add: act_bind_def)
qed simp

text \<open>The row that the identifiers give for a chunk, and whether all its lines are stored under it.\<close>

definition row_of :: "(string \<Rightarrow> string \<Rightarrow> string) \<Rightarrow> ((string \<times> string) \<times> file_row) list \<Rightarrow> coverage_chunk \<Rightarrow> file_row option" where
  "row_of h rows c = map_of rows (fk_repository (chunk_key h c), fk_hash (chunk_key h c))"

lemma ingest_lines_ok:
  "facts_inv d \<Longrightarrow> ingest_lines h n rows cs d = (Inr k, t) \<Longrightarrow> k = (\<Sum>c \<leftarrow> cs. length (item_lines c)) \<and>
     (\<forall>c \<in> set cs. \<exists>f. row_of h rows c = Some f \<and> (\<forall>rs \<in> set (slices n (item_lines c)). valid_lines rs) \<and>
        (\<forall>r \<in> set (item_lines c). new_line (fl_id f) r \<in> set (line_facts t)))"
proof (induction cs arbitrary: d k)
  case (Cons c cs)
  from Cons.prems(2) obtain f d1 j where f: "row_of h rows c = Some f" "upsert_slices (fl_id f) (slices n (item_lines c)) d = (Inr (), d1)"
    "ingest_lines h n rows cs d1 = (Inr j, t)" "k = length (item_lines c) + j"
    by (auto simp: row_of_def act_bind_Inr split: option.splits)
  have inv: "facts_inv d1" using keeps_upsert_slices [OF Cons.prems(1), of 0 "fl_id f" "slices n (item_lines c)"] f(2) by (simp add: keeps_def)
  have "set (line_facts d1) \<subseteq> set (line_facts t)" using keeps_ingest_lines [OF inv, of 0 h n rows cs] f(3) by (simp add: keeps_def)
  then show ?case using upsert_slices_ok [OF Cons.prems(1) f(2)] Cons.IH [OF inv f(3)] f(1,4) by (auto simp: concat_slices)
qed simp

lemma ingest_lines_again:
  assumes "facts_inv d" "\<forall>c \<in> set cs. \<exists>f u. row_of h rows c = Some f \<and> assert_file_scan_building d (fl_id f) = Inr u \<and>
     (\<forall>rs \<in> set (slices n (item_lines c)). valid_lines rs) \<and> (\<forall>r \<in> set (item_lines c). new_line (fl_id f) r \<in> set (line_facts d))"
  shows "ingest_lines h n rows cs d = (Inr (\<Sum>c \<leftarrow> cs. length (item_lines c)), d)"
  using assms(2)
proof (induction cs)
  case (Cons c cs)
  then obtain f u where f: "row_of h rows c = Some f" "assert_file_scan_building d (fl_id f) = Inr u"
     "\<forall>rs \<in> set (slices n (item_lines c)). valid_lines rs" "\<forall>r \<in> set (item_lines c). new_line (fl_id f) r \<in> set (line_facts d)" by auto
  have "upsert_slices (fl_id f) (slices n (item_lines c)) d = (Inr (), d)"
    by (rule upsert_slices_again [OF assms(1) f(2,3)]) (use f(4) in \<open>simp add: concat_slices\<close>)
  with Cons f(1) show ?case by (simp add: row_of_def act_bind_def)
qed simp

lemma normalize_files_lookup:
  "normalize_files n ks = Inr m \<Longrightarrow> (\<forall>key c. map_of n key = Some c \<longrightarrow> map_of m key = Some c) \<and>
     (\<forall>k \<in> set ks. map_of m (fk_repository k, fk_hash k) = Some (fk_path k, fk_source_name k))"
proof (induction n ks rule: normalize_files.induct)
  case (2 n k ks)
  then have m: "normalize_files (AList.update (fk_repository k, fk_hash k) (fk_path k, fk_source_name k) n) ks = Inr m"
    "case map_of n (fk_repository k, fk_hash k) of None \<Rightarrow> True | Some c \<Rightarrow> c = (fk_path k, fk_source_name k)"
    by (auto simp: Let_def split: if_splits option.splits)
  have "\<not> (fk_hash k = [] \<or> fk_path k = [])" using "2.prems" by auto
  note ih = "2.IH" [OF this refl refl _ m(1)]
  have "\<not> (case map_of n (fk_repository k, fk_hash k) of None \<Rightarrow> False | Some c \<Rightarrow> c \<noteq> (fk_path k, fk_source_name k))"
    using m(2) by (auto split: option.splits)
  note ih = ih [OF this]
  have "map_of m key = Some c" if "map_of n key = Some c" for key c
    using ih [THEN conjunct1, rule_format, of key c] that m(2) by (cases "key = (fk_repository k, fk_hash k)") auto
  then show ?case using ih by auto
qed simp

lemma normalize_files_keys: "normalize_files n ks = Inr m \<Longrightarrow> fst ` set m \<subseteq> fst ` set n \<union> (\<lambda>k. (fk_repository k, fk_hash k)) ` set ks"
proof (induction n ks rule: normalize_files.induct)
  case (2 n k ks)
  then show ?case by (auto simp: Let_def dom_update split: if_splits)
qed simp

definition is_file :: "int \<Rightarrow> file_key \<Rightarrow> file_row \<Rightarrow> bool" where
  "is_file q k f \<longleftrightarrow> fl_scan f = q \<and> fl_repository f = fk_repository k \<and> fl_hash f = fk_hash k \<and> fl_path f = fk_path k \<and> fl_source_name f = fk_source_name k"

lemma get_file_Some:
  assumes "facts_inv d" "is_file q k f" "f \<in> set (files d)"
  shows "get_file d q (fk_repository k) (fk_hash k) = Some f"
  using find_unique [of "\<lambda>f. (fl_scan f, fl_repository f, fl_hash f)" "files d" f] assms by (simp add: get_file_def facts_inv_def is_file_def)

lemma get_fileD: "get_file d q r h = Some f \<Longrightarrow> f \<in> set (files d) \<and> fl_scan f = q \<and> fl_repository f = r \<and> fl_hash f = h"
  by (auto simp: get_file_def dest!: find_SomeD)

lemma added_file:
  "distinct (map fst ks) \<Longrightarrow> ((r, h), (p, src)) \<in> set ks \<Longrightarrow>
   \<exists>f \<in> set (files (fold (add_file q) ks d)). is_file q \<lparr>fk_repository = r, fk_hash = h, fk_path = p, fk_source_name = src\<rparr> f"
proof (induction ks arbitrary: d)
  case (Cons k ks)
  have grow: "set (files d') \<subseteq> set (files (fold (add_file q) ks d'))" for d'
  proof (induction ks arbitrary: d')
    case (Cons k ks)
    have "set (files d') \<subseteq> set (files (add_file q k d'))" by (auto simp: add_file_def split: prod.split)
    with Cons show ?case by fastforce
  qed simp
  show ?case
  proof (cases "((r, h), (p, src)) = k")
    case True
    then have "\<exists>f \<in> set (files (add_file q k d)). is_file q \<lparr>fk_repository = r, fk_hash = h, fk_path = p, fk_source_name = src\<rparr> f"
      by (auto simp: add_file_def is_file_def)
    then show ?thesis using grow [of "add_file q k d"] by auto
  next
    case False
    then show ?thesis using Cons.IH [of "add_file q k d"] Cons.prems by auto
  qed
qed simp

lemma ensure_files_ok:
  assumes "facts_inv d" "ensure_files q ks d = (Inr rows, t)"
  shows "(\<exists>n. normalize_files [] ks = Inr n) \<and> assert_scan_building t q = assert_scan_building d q \<and>
    (\<forall>k \<in> set ks. \<exists>f \<in> set (files t). is_file q k f \<and> map_of rows (fk_repository k, fk_hash k) = Some f)"
  using assms(1)
proof (cases rule: ensure_files_cases [of d q ks])
  case (written s n missing rows')
  have t: "t = fold (add_file q) missing d" "rows' = rows" using assms(2) written(6) by auto
  have inv: "facts_inv t" using keeps_ensure_files [OF assms(1), of 0 q ks] assms(2) by (simp add: keeps_def)
  have b: "assert_scan_building (fold (add_file q) ms d) q = assert_scan_building d q" for ms by (induction ms arbitrary: d) simp_all
  have "\<exists>f \<in> set (files t). is_file q k f \<and> map_of rows (fk_repository k, fk_hash k) = Some f" if "k \<in> set ks" for k
  proof -
    let ?key = "(fk_repository k, fk_hash k)" and ?c = "(fk_path k, fk_source_name k)"
    have n: "(?key, ?c) \<in> set n" using normalize_files_lookup [OF written(2)] that by (auto intro: map_of_SomeD)
    then have ex: "map_of (get_files_by_identities d q (map fst n)) ?key = get_file d q (fk_repository k) (fk_hash k)"
      by (intro existing_lookup [OF assms(1)]) force
    show ?thesis
    proof (cases "get_file d q (fk_repository k) (fk_hash k)")
      case None
      then have m: "(?key, ?c) \<in> set missing" using n written(5) by simp
      have "distinct (map fst missing)" using written(3,5) by (simp add: distinct_map_filter)
      from added_file [OF this, of "fk_repository k" "fk_hash k" "fk_path k" "fk_source_name k" q d] m
      obtain f where f: "f \<in> set (files t)" "is_file q k f" by (auto simp: t is_file_def)
      have "map_of (get_files_by_identities t q (map fst missing)) ?key = Some f"
        using existing_lookup [OF inv, of "fk_repository k" "fk_hash k" "map fst missing" q] get_file_Some [OF inv f(2,1)] m by force
      then show ?thesis using f by (auto simp: written(7) t(2) [symmetric] t(1) [symmetric] map_add_Some_iff)
    next
      case (Some f)
      have "?key \<notin> set (map fst missing)" using Some written(5) by auto
      then have "map_of (get_files_by_identities t q (map fst missing)) ?key = None"
        by (rule identities_outside)
      moreover have "f \<in> set (files t)" "is_file q k f"
        using keeps_ensure_files [OF assms(1), of 0 q ks] assms(2) get_fileD [OF Some] written(4) [OF n Some] by (auto simp: keeps_def is_file_def)
      ultimately show ?thesis using ex Some by (auto simp: written(7) t(2) [symmetric] t(1) [symmetric] map_add_Some_iff)
    qed
  qed
  then show ?thesis using written(2) b t by auto
qed (use assms(2) in simp)

lemma ensure_files_again:
  assumes "facts_inv d" "assert_scan_building d q = Inr s" "normalize_files [] ks = Inr n" "\<forall>k \<in> set ks. \<exists>f \<in> set (files d). is_file q k f"
  shows "\<exists>rows. ensure_files q ks d = (Inr rows, d)"
  using assms(1)
proof (cases rule: ensure_files_cases [of d q ks])
  case (raised e)
  have look: "map_of n (fk_repository k, fk_hash k) = Some (fk_path k, fk_source_name k)" if "k \<in> set ks" for k
    using normalize_files_lookup [OF assms(3)] that by blast
  let ?ex = "get_files_by_identities d q (map fst n)"
  have "\<not> list_ex (\<lambda>(key, candidate). case map_of ?ex key of None \<Rightarrow> False | Some f \<Rightarrow> (fl_path f, fl_source_name f) \<noteq> candidate) n"
  proof -
    have "(case map_of ?ex key of None \<Rightarrow> False | Some f \<Rightarrow> (fl_path f, fl_source_name f) \<noteq> c) = False" if "(key, c) \<in> set n" for key c
    proof -
      from that normalize_files_keys [OF assms(3)] obtain k where k: "k \<in> set ks" "key = (fk_repository k, fk_hash k)" by force
      have "c = (fk_path k, fk_source_name k)"
        using look [OF k(1)] map_of_is_SomeI [OF normalize_files_distinct [OF assms(3)] that] k(2) by simp
      moreover obtain f where f: "f \<in> set (files d)" "is_file q k f" using assms(4) k(1) by blast
      have "map_of ?ex key = Some f"
        using existing_lookup [OF assms(1), of "fk_repository k" "fk_hash k" "map fst n" q] get_file_Some [OF assms(1) f(2,1)] that k(2) by force
      ultimately show ?thesis using f(2) by (simp add: is_file_def)
    qed
    then show ?thesis by (auto simp: list_ex_iff)
  qed
  then have "fst (ensure_files q ks d) \<noteq> Inl e" using assms(2,3) by (simp add: ensure_files_def Let_def)
  with raised show ?thesis by simp
next
  case (written s' m missing rows)
  have "get_file d q r h \<noteq> None" if "((r, h), c) \<in> set m" for r h c
  proof -
    from that normalize_files_keys [OF written(2)] obtain k where k: "k \<in> set ks" "r = fk_repository k" "h = fk_hash k" by force
    then obtain f where "f \<in> set (files d)" "is_file q k f" using assms(4) by blast
    from get_file_Some [OF assms(1) this(2,1)] show ?thesis using k by simp
  qed
  then have "missing = []" unfolding written(5) by (fastforce simp: filter_empty_conv)
  with written(6) show ?thesis by simp
qed

lemma upsert_slices_scans: "upsert_slices f rss d = (out, t) \<Longrightarrow> scans t = scans d"
proof (induction rss arbitrary: d)
  case (Cons rs rss)
  have "scans (snd (upsert_lines f rs d)) = scans d" by (simp add: upsert_lines_def split: sum.split)
  with Cons show ?case by (fastforce elim!: act_bind_cases)
qed simp

lemma ingest_lines_scans: "ingest_lines h n rows cs d = (out, t) \<Longrightarrow> scans t = scans d"
proof (induction cs arbitrary: d out)
  case (Cons c cs)
  then show ?case by (auto split: option.splits elim!: act_bind_cases dest: upsert_slices_scans)
qed simp

section \<open>Properties\<close>


text \<open>Whatever operations run, no snapshot, report, file or line that is stored is ever changed or removed, a file
  stays the only one with its scan, repository and hash, and a line the only one with its file and number.\<close>

lemma facts_only_grow:
  assumes "reaches (fact_step h) d ops t" "facts_inv d"
  shows "set (snapshots d) \<subseteq> set (snapshots t) \<and> set (reports d) \<subseteq> set (reports t) \<and> set (files d) \<subseteq> set (files t) \<and>
    set (line_facts d) \<subseteq> set (line_facts t) \<and> distinct (map (\<lambda>f. (fl_scan f, fl_repository f, fl_hash f)) (files t)) \<and>
    distinct (map (\<lambda>l. (ln_file l, line_number (ln_fact l))) (line_facts t))"
  using run_keeps [OF assms, of 0] by (auto simp: keeps_def facts_inv_def)

text \<open>C16: a batch that was ingested is stored as a whole: every chunk has a file of the scan with its repository, hash and
  path, under which every line of the chunk is found, and the lines counted are the lines of the batch. Ingesting it
  once more, as a restart may do, gives the same result and changes nothing.\<close>

theorem ingested_batch_is_stored:
  assumes "facts_inv d" "ingest_file_batch h q n batch d = (Inr r, t)"
  shows "ingest_file_batch h q n batch t = (Inr r, t) \<and> result_lines r = (\<Sum>c \<leftarrow> batch. length (item_lines c)) \<and>
    (\<forall>c \<in> set batch. \<exists>f \<in> set (files t). fl_scan f = q \<and> fl_repository f = item_repository c \<and> fl_path f = item_path c \<and>
       (\<forall>l \<in> set (item_lines c). new_line (fl_id f) l \<in> set (line_facts t)))"
proof (cases "batch = []")
  case True
  then show ?thesis using assms by (auto simp: ingest_file_batch_def split: sum.splits)
next
  case False
  let ?ks = "map (chunk_key h) batch"
  from assms(2) False obtain s rows d1 k where s: "assert_scan_building d q = Inr s" "ensure_files q ?ks d = (Inr rows, d1)"
    "ingest_lines h n rows batch d1 = (Inr k, t)"
    "r = \<lparr>result_files = batch_files batch, result_lines = k, last_file_identity = Some (file_identity_of h (last batch))\<rparr>"
    by (auto simp: ingest_file_batch_def act_bind_Inr split: sum.splits)
  have inv1: "facts_inv d1" using keeps_ensure_files [OF assms(1), of 0 q ?ks] s(2) by (simp add: keeps_def)
  have t: "facts_inv t" "set (files d1) \<subseteq> set (files t)" using keeps_ingest_lines [OF inv1, of 0 h n rows batch] s(3) by (auto simp: keeps_def)
  have b: "scans t = scans d1" using s(3) by (rule ingest_lines_scans)
  note e = ensure_files_ok [OF assms(1) s(2)] and l = ingest_lines_ok [OF inv1 s(3)]
  have stored: "\<exists>f \<in> set (files t). is_file q (chunk_key h c) f \<and> (\<forall>rs \<in> set (slices n (item_lines c)). valid_lines rs) \<and>
      (\<forall>l \<in> set (item_lines c). new_line (fl_id f) l \<in> set (line_facts t))" if "c \<in> set batch" for c
    using e l t(2) that by (fastforce simp: row_of_def)
  have bt: "assert_scan_building t q = Inr s" using e s(1) b by (simp add: assert_scan_building_def get_scan_def)
  obtain m where m: "normalize_files [] ?ks = Inr m" using e by blast
  have again: "\<forall>k \<in> set ?ks. \<exists>f \<in> set (files t). is_file q k f" using stored by fastforce
  from ensure_files_again [OF t(1) bt m again] obtain rows' where r': "ensure_files q ?ks t = (Inr rows', t)" by blast
  have lines: "ingest_lines h n rows' batch t = (Inr (\<Sum>c \<leftarrow> batch. length (item_lines c)), t)"
  proof (rule ingest_lines_again [OF t(1)], intro ballI)
    fix c assume c: "c \<in> set batch"
    from stored [OF c] obtain f where f: "f \<in> set (files t)" "is_file q (chunk_key h c) f" "\<forall>rs \<in> set (slices n (item_lines c)). valid_lines rs"
      "\<forall>l \<in> set (item_lines c). new_line (fl_id f) l \<in> set (line_facts t)" by blast
    have "row_of h rows' c = Some f"
      using ensure_files_ok [OF t(1) r'] c get_file_Some [OF t(1) f(2,1)] get_file_Some [OF t(1)] by (fastforce simp: row_of_def)
    moreover have "assert_file_scan_building t (fl_id f) = Inr ()"
      using find_unique [of fl_id "files t" f] t(1) f(1,2) bt
      by (auto simp: assert_file_scan_building_def facts_inv_def is_file_def assert_scan_building_def split: option.splits if_splits)
    ultimately show "\<exists>f u. row_of h rows' c = Some f \<and> assert_file_scan_building t (fl_id f) = Inr u \<and>
        (\<forall>rs \<in> set (slices n (item_lines c)). valid_lines rs) \<and> (\<forall>r \<in> set (item_lines c). new_line (fl_id f) r \<in> set (line_facts t))"
      using f(3,4) by blast
  qed
  have "ingest_file_batch h q n batch t = (Inr r, t)" using False bt r' lines l s(4) by (simp add: ingest_file_batch_def act_bind_def)
  then show ?thesis using l s(4) stored by (fastforce simp: is_file_def chunk_key_def)
qed

section \<open>Examples\<close>

definition sample_scan :: "string \<Rightarrow> scan_row" where
  "sample_scan status = \<lparr>sc_id = 1, sc_project = 1, sc_key = ''k'', sc_type = ''import'', sc_scope = ''full'', sc_info_name = [], sc_info_sha = [],
     sc_imported = ''t'', sc_status = status, sc_legacy = False, sc_metadata_version = 1, sc_predecessor = None, sc_algorithm = []\<rparr>"

definition sample_db :: "string \<Rightarrow> scan_db" where
  "sample_db status = \<lparr>projects = [], scans = [sample_scan status], snapshots = [], reports = [], files = [], line_facts = []\<rparr>"

abbreviation plain_hash :: "string \<Rightarrow> string \<Rightarrow> string" where
  "plain_hash p r \<equiv> r @ ''/'' @ p"

definition ingested :: scan_db where
  "ingested = snd (ingest_file_batch plain_hash 1 1000 (map whole_chunk sample_items) (sample_db ''IMPORTING''))"

definition sealed :: scan_db where
  "sealed = snd (seal_scan 1 ''ready'' ingested)"


theorem facts_only_grow_witness:
  "set (line_facts ingested) \<subseteq> set (line_facts (fact_op plain_hash ''t2'' (SealScan 1 ''ready'') ingested))"
proof -
  have "facts_inv ingested" by code_simp
  moreover have "reaches (fact_step plain_hash) ingested [(''t2'', SealScan 1 ''ready'')] (fact_op plain_hash ''t2'' (SealScan 1 ''ready'') ingested)"
    by (rule reaches_Cons, rule fact_step.intros, rule reaches_refl)
  ultimately show ?thesis using facts_only_grow by blast
qed

theorem ingested_batch_is_stored_witness:
  "snd (ingest_file_batch plain_hash 1 1000 (map whole_chunk sample_items) ingested) = ingested \<and> length (line_facts ingested) = 4"
proof -
  have c: "facts_inv (sample_db ''IMPORTING'')" "is_ok (fst (ingest_file_batch plain_hash 1 1000 (map whole_chunk sample_items) (sample_db ''IMPORTING'')))"
    "length (line_facts ingested) = 4" by code_simp+
  then obtain r where "ingest_file_batch plain_hash 1 1000 (map whole_chunk sample_items) (sample_db ''IMPORTING'') = (Inr r, ingested)"
    by (metis is_ok_iff ingested_def prod.collapse)
  from ingested_batch_is_stored [OF c(1) this] c(3) show ?thesis by simp
qed

end
