(* ===== verification/Publication.thy ===== *)
theory Publication
  imports Rejections ReadSet ScanFacts
begin

text \<open>
  The publication of a scan, \<open>app/scan_import/publication.py\<close>: the only code that moves the pointer to the current scan
  of a project. The project states, relations and rejections are those of \<open>Rejections\<close>, the scans those of
  \<open>ScanFacts\<close>; the revisions of analysis records and the join of relations with lines and files are queries given as
  arguments, as is the check of the fences.

  Shown: a publication happens only for a sealed scan of the project whose predecessor is the expected and present
  current scan, and changes nothing but that pointer; a refused one moves no pointer; of two candidates that expect
  the same current scan one can be published; the compact read set of an unchanged source passes.
\<close>

section \<open>Read sets\<close>

record read_item =
  ri_relation_id :: "int option"
  ri_relation_revision :: "int option"
  ri_record_id :: "int option"
  ri_content_revision :: "int option"
  ri_rejection_id :: "int option"
  ri_rejection_revision :: "int option"
  ri_rejection_is_active :: "int option"

text \<open>\<open>None\<close> in a list of items is a value that is no dictionary; an absent or empty read set is not checked.\<close>

datatype read_set = NoReadSet | Items "read_item option list" | Compact payload

text \<open>A row of the join: relation, revision, record and the revision of the record.\<close>

type_synonym source_row = "int \<times> int \<times> int option \<times> int option"

record 'x source_queries =
  content_revision_of :: "'x database \<Rightarrow> int \<Rightarrow> int option"
  source_rows :: "'x database \<Rightarrow> int \<Rightarrow> string \<Rightarrow> string \<Rightarrow> source_row list"

definition or_zero :: "int option \<Rightarrow> int" where
  "or_zero v = (case v of None \<Rightarrow> 0 | Some i \<Rightarrow> i)"

definition item_unchanged :: "'x source_queries \<Rightarrow> 'x database \<Rightarrow> read_item \<Rightarrow> bool" where
  "item_unchanged qs d i \<longleftrightarrow>
     (case ri_relation_id i of None \<Rightarrow> True
      | Some r \<Rightarrow> (case (ri_relation_revision i, List.find (\<lambda>l. ll_id l = r) (line_links d)) of
          (Some v, Some l) \<Rightarrow> ll_revision l = v | _ \<Rightarrow> False)) \<and>
     (case ri_record_id i of None \<Rightarrow> True
      | Some r \<Rightarrow> (case (ri_content_revision i, content_revision_of qs d r) of (Some v, Some w) \<Rightarrow> w = v | _ \<Rightarrow> False)) \<and>
     (case ri_rejection_id i of None \<Rightarrow> True
      | Some r \<Rightarrow> (case List.find (\<lambda>j. rj_id j = r) (rejections d) of
          None \<Rightarrow> False
        | Some j \<Rightarrow> rj_revision j = or_zero (ri_rejection_revision i) \<and>
            (case ri_rejection_is_active i of None \<Rightarrow> True | Some a \<Rightarrow> (if rj_active j then 1 else 0) = a)))"

definition validate_read_set :: "'x source_queries \<Rightarrow> 'x database \<Rightarrow> read_item option list \<Rightarrow> bool" where
  "validate_read_set qs d items = list_all (\<lambda>i. case i of None \<Rightarrow> False | Some i \<Rightarrow> item_unchanged qs d i) items"

text \<open>What the validation reads of one source file.\<close>

definition row_reads :: "source_row \<Rightarrow> read_op list" where
  "row_reads = (\<lambda>(relation, revision, record, content).
     ReadRelation relation revision # (case (record, content) of (Some r, Some v) \<Rightarrow> [ReadRecord r v] | _ \<Rightarrow> []))"

definition file_reads :: "'x source_queries \<Rightarrow> 'x database \<Rightarrow> int \<Rightarrow> string \<times> string \<Rightarrow> read_op list" where
  "file_reads qs d scan = (\<lambda>(repository, path). ReadFile repository path # concat (map row_reads (source_rows qs d scan repository path)))"

definition validate_compact_read_set :: "'x source_queries \<Rightarrow> (string \<Rightarrow> digest) \<Rightarrow> 'x database \<Rightarrow> payload \<Rightarrow> int \<Rightarrow> int option \<Rightarrow> bool" where
  "validate_compact_read_set qs sha d p candidate predecessor \<longleftrightarrow>
     (case p_candidate p of None \<Rightarrow> True | Some c \<Rightarrow> c = candidate) \<and> p_predecessor p = predecessor \<and>
     (case predecessor of
        None \<Rightarrow> matches ReadSetAccumulator (Some p)
      | Some scan \<Rightarrow>
          (case p_source_files p of
             None \<Rightarrow> False
           | Some fs \<Rightarrow> list_all (\<lambda>(r, f). r \<noteq> [] \<and> f \<noteq> []) fs \<and>
               matches (fold (accumulate sha) (concat (map (file_reads qs d scan) fs)) ReadSetAccumulator) (Some p)))"

definition read_set_valid :: "'x source_queries \<Rightarrow> (string \<Rightarrow> digest) \<Rightarrow> 'x database \<Rightarrow> read_set \<Rightarrow> int \<Rightarrow> int option \<Rightarrow> bool" where
  "read_set_valid qs sha d rs candidate predecessor = (case rs of
       NoReadSet \<Rightarrow> True | Items items \<Rightarrow> validate_read_set qs d items
     | Compact p \<Rightarrow> validate_compact_read_set qs sha d p candidate predecessor)"

section \<open>Publication\<close>

text \<open>The expected current scan: \<open>None\<close> stands for the default, which is not compared.\<close>

type_synonym expectation = "int option option"

definition fits :: "expectation \<Rightarrow> int option \<Rightarrow> bool" where
  "fits expected v = (case expected of None \<Rightarrow> True | Some e \<Rightarrow> v = e)"

definition set_current :: "string \<Rightarrow> int \<Rightarrow> int \<Rightarrow> expectation \<Rightarrow> 'x database \<Rightarrow> nat \<times> 'x database" where
  "set_current now project scan expected d =
     (case update_rows (\<lambda>s. ps_project s = project \<and> fits expected (ps_current_scan s))
         (\<lambda>s. s\<lparr>ps_current_scan := Some scan, ps_updated := now\<rparr>) (project_states d) of
        (n, ss) \<Rightarrow> (n, d\<lparr>project_states := ss\<rparr>))"

definition publish_in_transaction ::
  "'x source_queries \<Rightarrow> (string \<Rightarrow> digest) \<Rightarrow> scan_db \<Rightarrow> string \<Rightarrow> int \<Rightarrow> int \<Rightarrow> expectation \<Rightarrow> read_set \<Rightarrow> unit result \<Rightarrow>
   ('x database, project_state option) action" where
  "publish_in_transaction qs sha fd now project scan expected rs fence d =
     (case get_scan fd scan of
        None \<Rightarrow> (Inl (KeyError ''candidate scan is not bound to project''), d)
      | Some s \<Rightarrow>
          if sc_project s \<noteq> project then (Inl (KeyError ''candidate scan is not bound to project''), d)
          else if map to_upper (sc_status s) \<notin> set [''SEALED'', ''READY''] then (Inl (ValueError ''candidate scan is not sealed''), d)
          else let d1 = state_lock now project d; current = (case state_get project d1 of None \<Rightarrow> None | Some st \<Rightarrow> ps_current_scan st) in
            if \<not> fits expected current then (Inl (ValueError ''CURRENT_POINTER_CHANGED''), d1)
            else if \<not> fits expected (sc_predecessor s) then (Inl (ValueError ''PREDECESSOR_MISMATCH''), d1)
            else if \<not> read_set_valid qs sha d1 rs scan (sc_predecessor s) then (Inl (ValueError ''READ_SET_CHANGED''), d1)
            else case fence of
              Inl e \<Rightarrow> (Inl e, d1)
            | Inr u \<Rightarrow>
                (case set_current now project scan expected d1 of
                   (n, d2) \<Rightarrow> if n \<noteq> 1 then (Inl (ValueError ''CURRENT_POINTER_CHANGED''), d2) else (Inr (state_get project d2), d2)))"

section \<open>Lemmas\<close>

definition states_inv :: "'x database \<Rightarrow> bool" where
  "states_inv d \<longleftrightarrow> distinct (map ps_project (project_states d))"

text \<open>The current scan of a project, if it has a state and a pointer.\<close>

definition current_of :: "'x database \<Rightarrow> int \<Rightarrow> int option" where
  "current_of d p = (case state_get p d of None \<Rightarrow> None | Some s \<Rightarrow> ps_current_scan s)"

lemma state_lock_inv: "states_inv d \<Longrightarrow> states_inv (state_lock now p d)"
  by (auto simp: states_inv_def state_lock_def state_ensure_def state_get_def find_None_iff split: option.split)

lemma state_lock_current: "current_of (state_lock now p d) q = current_of d q"
  by (auto simp: current_of_def state_lock_def state_ensure_def state_get_def find_append split: option.split)

lemma state_lock_exists: "\<exists>s \<in> set (project_states (state_lock now p d)). ps_project s = p"
proof (cases "state_get p d")
  case None
  then show ?thesis by (simp add: state_lock_def state_ensure_def)
next
  case (Some s)
  then show ?thesis by (auto simp: state_lock_def state_ensure_def state_get_def dest: find_SomeD)
qed

lemma state_get_unique: "states_inv d \<Longrightarrow> s \<in> set (project_states d) \<Longrightarrow> state_get (ps_project s) d = Some s"
  using find_unique [of ps_project "project_states d" s] by (simp add: states_inv_def state_get_def)

lemma set_current_spec:
  assumes "states_inv d" "s \<in> set (project_states d)" "ps_project s = project" "fits expected (ps_current_scan s)"
  shows "\<exists>t. set_current now project scan expected d = (1, t) \<and> states_inv t \<and> current_of t project = Some scan \<and>
    (\<forall>q. q \<noteq> project \<longrightarrow> current_of t q = current_of d q) \<and> line_links t = line_links d \<and> rejections t = rejections d \<and> derived t = derived d \<and>
    map ps_data_version (project_states t) = map ps_data_version (project_states d)"
proof -
  let ?f = "\<lambda>s. s\<lparr>ps_current_scan := Some scan, ps_updated := now\<rparr>" and ?g = "\<lambda>r. if ps_project r = project then r\<lparr>ps_current_scan := Some scan, ps_updated := now\<rparr> else r"
  have u: "update_rows (\<lambda>s. ps_project s = project \<and> fits expected (ps_current_scan s)) ?f (project_states d) = (1, map ?g (project_states d))"
    using update_by_key [of ps_project "project_states d" s "\<lambda>r. fits expected (ps_current_scan r)" ?f] assms by (simp add: states_inv_def)
  have "List.find (\<lambda>r. ps_project r = q) (map ?g xs) = map_option ?g (List.find (\<lambda>r. ps_project r = q) xs)" for q xs
    by (induction xs) auto
  then have g: "state_get q (d\<lparr>project_states := map ?g (project_states d)\<rparr>) = map_option ?g (state_get q d)" for q by (simp add: state_get_def)
  have c: "current_of (d\<lparr>project_states := map ?g (project_states d)\<rparr>) q = (if q = project then Some scan else current_of d q)" for q
  proof (cases "q = project")
    case True
    then show ?thesis using state_get_unique [OF assms(1,2)] assms(3) by (simp add: current_of_def g)
  next
    case False
    then show ?thesis unfolding current_of_def g by (auto simp: state_get_def split: option.split dest: find_SomeD)
  qed
  have "map ps_project (map ?g (project_states d)) = map ps_project (project_states d)" by simp
  then have "distinct (map ps_project (map ?g (project_states d)))" using assms(1) by (simp only: states_inv_def)
  then have "states_inv (d\<lparr>project_states := map ?g (project_states d)\<rparr>)" by (simp add: states_inv_def del: map_map)
  then show ?thesis using c u by (auto simp: set_current_def)
qed

lemma publish_cases:
  assumes "states_inv d" "publish_in_transaction qs sha fd now project scan expected rs fence d = (out, t)"
  shows "states_inv t \<and> line_links t = line_links d \<and> rejections t = rejections d \<and> derived t = derived d \<and>
    (case out of
       Inl e \<Rightarrow> (\<forall>q. current_of t q = current_of d q)
     | Inr r \<Rightarrow> (\<exists>s. get_scan fd scan = Some s \<and> sc_project s = project \<and> map to_upper (sc_status s) \<in> set [''SEALED'', ''READY''] \<and>
           fits expected (current_of d project) \<and> fits expected (sc_predecessor s) \<and>
           read_set_valid qs sha (state_lock now project d) rs scan (sc_predecessor s)) \<and> fence = Inr () \<and>
         current_of t project = Some scan \<and> (\<forall>q. q \<noteq> project \<longrightarrow> current_of t q = current_of d q) \<and>
         map ps_data_version (project_states t) = map ps_data_version (project_states (state_lock now project d)))"
proof -
  let ?d1 = "state_lock now project d"
  have d1: "states_inv ?d1" "current_of ?d1 q = current_of d q" "line_links ?d1 = line_links d" "rejections ?d1 = rejections d" "derived ?d1 = derived d" for q
    using state_lock_inv [OF assms(1)] by (simp_all add: state_lock_current) (simp_all add: state_lock_def state_ensure_def split: option.split)
  show ?thesis
  proof (cases "\<exists>s. get_scan fd scan = Some s \<and> sc_project s = project \<and> map to_upper (sc_status s) \<in> set [''SEALED'', ''READY''] \<and>
      fits expected (current_of d project) \<and> fits expected (sc_predecessor s) \<and> read_set_valid qs sha ?d1 rs scan (sc_predecessor s) \<and> fence = Inr ()")
    case True
    then obtain s where s: "get_scan fd scan = Some s" "sc_project s = project" "map to_upper (sc_status s) \<in> set [''SEALED'', ''READY'']"
      "fits expected (current_of d project)" "fits expected (sc_predecessor s)" "read_set_valid qs sha ?d1 rs scan (sc_predecessor s)" "fence = Inr ()" by blast
    obtain st where st: "st \<in> set (project_states ?d1)" "ps_project st = project" using state_lock_exists by blast
    have g: "state_get project ?d1 = Some st" using state_get_unique [OF d1(1) st(1)] st(2) by simp
    then have "fits expected (ps_current_scan st)" using s(4) d1(2) [of project] by (simp add: current_of_def)
    from set_current_spec [OF d1(1) st this, of now scan] obtain u where u: "set_current now project scan expected ?d1 = (1, u)" "states_inv u"
      "current_of u project = Some scan" "\<forall>q. q \<noteq> project \<longrightarrow> current_of u q = current_of ?d1 q" "line_links u = line_links ?d1" "rejections u = rejections ?d1"
      "derived u = derived ?d1" "map ps_data_version (project_states u) = map ps_data_version (project_states ?d1)" by blast
    have "publish_in_transaction qs sha fd now project scan expected rs fence d = (Inr (state_get project u), u)"
      using s u(1) g \<open>fits expected (ps_current_scan st)\<close> unfolding publish_in_transaction_def by (simp add: Let_def)
    then have "t = u" "out = Inr (state_get project u)" using assms(2) by simp_all
    then show ?thesis using s u d1 by auto
  next
    case False
    have "\<exists>e. (out, t) = (Inl e, d) \<or> (out, t) = (Inl e, ?d1)"
      using False unfolding assms(2) [symmetric] publish_in_transaction_def current_of_def d1(2) [unfolded current_of_def, of project, symmetric]
      by (auto simp: Let_def split: option.splits sum.splits)
    then show ?thesis using d1 assms(1) by auto
  qed
qed

section \<open>Properties\<close>

text \<open>A publication that returns was one of a sealed or ready scan of the project, whose predecessor and the current scan
  of the project both were the expected one, with an unchanged read set and valid fences; after it the scan is the
  current one, and nothing else has changed: not the pointer of another project, not a relation or a rejection.\<close>

lemma published_scan_was_due:
  assumes "states_inv d" "publish_in_transaction qs sha fd now project scan (Some e) rs fence d = (Inr r, t)"
  shows "(\<exists>s. get_scan fd scan = Some s \<and> sc_project s = project \<and> map to_upper (sc_status s) \<in> set [''SEALED'', ''READY''] \<and> sc_predecessor s = e) \<and>
    current_of d project = e \<and> fence = Inr () \<and> read_set_valid qs sha (state_lock now project d) rs scan e \<and> current_of t project = Some scan \<and>
    (\<forall>q. q \<noteq> project \<longrightarrow> current_of t q = current_of d q) \<and> line_links t = line_links d \<and> rejections t = rejections d"
  using publish_cases [OF assms] by (auto simp: fits_def)

text \<open>A refused publication moves no pointer and touches no relation or rejection.\<close>

lemma refused_publication_moves_nothing:
  assumes "states_inv d" "publish_in_transaction qs sha fd now project scan expected rs fence d = (Inl x, t)"
  shows "(\<forall>q. current_of t q = current_of d q) \<and> line_links t = line_links d \<and> rejections t = rejections d \<and> derived t = derived d"
  using publish_cases [OF assms] by auto

text \<open>Of two candidates that were built on the same current scan one can be published: after the first has been, the
  second is refused, whatever its read set and its fences.\<close>

lemma one_candidate_wins:
  assumes "states_inv d" "publish_in_transaction qs sha fd now project scan (Some e) rs fence d = (Inr r, t)" "e \<noteq> Some scan"
  shows "\<exists>x u. publish_in_transaction qs sha fd' now' project scan' (Some e) rs' fence' t = (Inl x, u) \<and> (\<forall>q. current_of u q = current_of t q)"
proof -
  have t: "states_inv t" "current_of t project = Some scan" using publish_cases [OF assms(1,2)] by auto
  obtain out u where p: "publish_in_transaction qs sha fd' now' project scan' (Some e) rs' fence' t = (out, u)" by fastforce
  note c = publish_cases [OF t(1) p]
  show ?thesis
  proof (cases out)
    case (Inl x)
    with c p show ?thesis by auto
  next
    case (Inr r')
    with c t(2) assms(3) show ?thesis by (auto simp: fits_def)
  qed
qed

lemma accumulate_relations:
  "relation_count (fold (accumulate sha) ops a) = relation_count a + length (filter (\<lambda>op. \<exists>i r. op = ReadRelation i r) ops)"
proof (induction ops arbitrary: a)
  case (Cons op ops)
  then show ?case by (cases op) (simp_all add: add_source_file_def add_relation_def add_record_def Let_def)
qed simp

lemma row_reads_relation: "length (filter (\<lambda>op. \<exists>i r. op = ReadRelation i r) (concat (map row_reads rows))) = length rows"
  by (induction rows) (auto simp: row_reads_def split: option.split)

lemma file_reads_relations:
  "length (filter (\<lambda>op. \<exists>i r. op = ReadRelation i r) (concat (map (file_reads qs d scan) fs))) = (\<Sum>(r, f) \<leftarrow> fs. length (source_rows qs d scan r f))"
  by (induction fs) (auto simp: file_reads_def row_reads_relation)

text \<open>The compact read set that an inheritance run has recorded passes the check of the publication when the source
  rows are what the run has read, in whatever order; it does not pass when the number of relations of these files
  has changed.\<close>

lemma compact_read_set_checked:
  assumes "a = fold (accumulate sha) ops ReadSetAccumulator" "fs = sorted_list_of_set (source_files a)" "list_all (\<lambda>(r, f). r \<noteq> [] \<and> f \<noteq> []) fs"
  shows "(mset ops = mset (concat (map (file_reads qs d scan) fs)) \<longrightarrow>
      validate_compact_read_set qs sha d (to_payload a (Some c) (Some scan)) c (Some scan)) \<and>
    (validate_compact_read_set qs sha d (to_payload a (Some c) (Some scan)) c (Some scan) \<longrightarrow>
      relation_count a = (\<Sum>(r, f) \<leftarrow> fs. length (source_rows qs d scan r f)))"
proof -
  let ?now = "fold (accumulate sha) (concat (map (file_reads qs d scan) fs)) ReadSetAccumulator"
  have v: "validate_compact_read_set qs sha d (to_payload a (Some c) (Some scan)) c (Some scan) \<longleftrightarrow> matches ?now (Some (to_payload a (Some c) (Some scan)))"
    using assms(2,3) by (simp add: validate_compact_read_set_def to_payload_def)
  have "matches ?now (Some (to_payload a (Some c) (Some scan)))" if "mset ops = mset (concat (map (file_reads qs d scan) fs))"
    using read_order_irrelevant [OF that, of sha "Some c" "Some scan"] assms(1) by (simp add: matches_def Let_def to_payload_def)
  moreover have "relation_count a = relation_count ?now" if "matches ?now (Some (to_payload a (Some c) (Some scan)))"
    using that by (simp add: matches_def Let_def to_payload_def)
  ultimately show ?thesis using v by (auto simp: accumulate_relations file_reads_relations ReadSetAccumulator_def)
qed

section \<open>Examples\<close>

definition sample_review :: "unit database" where
  "sample_review = \<lparr>project_states = [\<lparr>ps_project = 1, ps_current_scan = None, ps_data_version = 3, ps_file_state_version = 0, ps_updated = ''t''\<rparr>],
     line_links = [], rejections = [], next_rejection_id = 1, derived = ()\<rparr>"

definition sample_queries :: "unit source_queries" where
  "sample_queries = \<lparr>content_revision_of = (\<lambda>d i. None), source_rows = (\<lambda>d s r f. [(7, 2, Some 4, Some 1)])\<rparr>"

definition sample_sha :: "string \<Rightarrow> digest" where
  "sample_sha s = of_nat (length s)"

definition published :: "unit database" where
  "published = snd (publish_in_transaction sample_queries sample_sha (sample_db ''SEALED'') ''t1'' 1 1 (Some None) NoReadSet (Inr ()) sample_review)"

lemma sample_publication:
  "states_inv sample_review \<and> (\<exists>r. publish_in_transaction sample_queries sample_sha (sample_db ''SEALED'') ''t1'' 1 1 (Some None) NoReadSet (Inr ()) sample_review = (Inr r, published))"
proof -
  have "states_inv sample_review" "is_ok (fst (publish_in_transaction sample_queries sample_sha (sample_db ''SEALED'') ''t1'' 1 1 (Some None) NoReadSet (Inr ()) sample_review))"
    by code_simp+
  then show ?thesis by (metis is_ok_iff published_def prod.collapse)
qed

theorem published_scan_was_due_witness: "current_of published 1 = Some 1 \<and> current_of sample_review 1 = None"
  using published_scan_was_due [of sample_review sample_queries sample_sha "sample_db ''SEALED''" "''t1''" 1 1 None NoReadSet "Inr ()" _ published]
    sample_publication by blast

theorem refused_publication_moves_nothing_witness:
  "current_of (snd (publish_in_transaction sample_queries sample_sha (sample_db ''IMPORTING'') ''t1'' 1 1 (Some None) NoReadSet (Inr ()) sample_review)) 1 =
   current_of sample_review 1"
proof -
  let ?p = "publish_in_transaction sample_queries sample_sha (sample_db ''IMPORTING'') ''t1'' 1 1 (Some None) NoReadSet (Inr ()) sample_review"
  have "states_inv sample_review" "\<not> is_ok (fst ?p)" by code_simp+
  then obtain x where "?p = (Inl x, snd ?p)" by (cases "fst ?p") (auto simp: prod_eq_iff)
  from refused_publication_moves_nothing [OF \<open>states_inv sample_review\<close> this] show ?thesis by blast
qed

theorem one_candidate_wins_witness:
  "\<exists>x u. publish_in_transaction sample_queries sample_sha (sample_db ''SEALED'') ''t2'' 1 2 (Some None) NoReadSet (Inr ()) published = (Inl x, u)"
  using one_candidate_wins [of sample_review sample_queries sample_sha "sample_db ''SEALED''" "''t1''" 1 1 None NoReadSet "Inr ()" _ published]
    sample_publication by blast

theorem compact_read_set_checked_witness:
  "validate_compact_read_set sample_queries sample_sha sample_review
     (to_payload (fold (accumulate sample_sha) [ReadRecord 4 1, ReadRelation 7 2, ReadFile ''r'' ''f''] ReadSetAccumulator) (Some 9) (Some 3)) 9 (Some 3)"
proof -
  let ?a = "fold (accumulate sample_sha) [ReadRecord 4 1, ReadRelation 7 2, ReadFile ''r'' ''f''] ReadSetAccumulator"
  have s: "source_files ?a = {(''r'', ''f'')}" by (simp add: add_source_file_def add_relation_def add_record_def Let_def ReadSetAccumulator_def)
  have "mset [ReadRecord 4 1, ReadRelation 7 2, ReadFile ''r'' ''f''] = mset (concat (map (file_reads sample_queries sample_review 3) [(''r'', ''f'')]))"
    by (simp add: file_reads_def row_reads_def sample_queries_def)
  then show ?thesis using compact_read_set_checked [OF refl refl, of sample_sha "[ReadRecord 4 1, ReadRelation 7 2, ReadFile ''r'' ''f'']" sample_queries sample_review 3 9]
    unfolding s by simp
qed

end
