(* ===== verification/JobTable.thy ===== *)
theory JobTable
  imports Prelude Complex_Main "HOL-Library.Multiset"
begin

text \<open>
  The table of background jobs, \<open>app/db/repositories/job_repository.py\<close>. The table is a list of rows with
  distinct job identifiers; an SQL statement is the comprehension it stands for, its row count the number
  of rows it touched. Time stamps are the texts \<open>YYYY-MM-DD hh:mm:ss\<close> of the code, whose order is the
  order of the strings; the current time is an argument. Rows that come in from callers are dictionaries
  and therefore records of options.

  Shown: every live operation leaves an ended job alone; start, heartbeat and the terminal transition take
  effect for the lease owner only; of two workers that saw the same row one can claim it; pages that follow
  the cursor list every row exactly once and in order.
\<close>

section \<open>Rows\<close>

record job_row =
  job_id :: string
  project_id :: "int option"
  scan_id :: "int option"
  kind :: string
  state :: string
  progress :: rat
  input_payload :: string
  result_path :: string
  error_message :: string
  data_version :: "int option"
  heartbeat_at :: "string option"
  created_at :: string
  started_at :: "string option"
  finished_at :: "string option"
  updated_at :: string
  lease_owner :: string
  handler_version :: string

record job_dict =
  d_job_id :: string
  d_project_id :: "int option"
  d_scan_id :: "int option"
  d_kind :: "string option"
  d_state :: "string option"
  d_progress :: "rat option"
  d_input_payload :: "string option"
  d_result_path :: "string option"
  d_error_message :: "string option"
  d_data_version :: "int option"
  d_heartbeat_at :: "string option"
  d_created_at :: "string option"
  d_started_at :: "string option"
  d_finished_at :: "string option"
  d_updated_at :: "string option"
  d_lease_owner :: "string option"
  d_handler_version :: "string option"

type_synonym job_table = "job_row list"

text \<open>\<open>v or w\<close> on an optional text.\<close>

definition text_or :: "string option \<Rightarrow> string \<Rightarrow> string" where
  "text_or v w = (case v of None \<Rightarrow> w | Some s \<Rightarrow> if s = [] then w else s)"

definition job_get :: "job_table \<Rightarrow> string \<Rightarrow> job_row option" where
  "job_get t i = List.find (\<lambda>r. job_id r = i) t"

definition full_row :: "string \<Rightarrow> job_dict \<Rightarrow> string option \<Rightarrow> job_row" where
  "full_row now d created =
     \<lparr>job_id = d_job_id d, project_id = d_project_id d, scan_id = d_scan_id d, kind = text_or (d_kind d) [],
      state = text_or (d_state d) ''queued'', progress = (case d_progress d of None \<Rightarrow> 0 | Some x \<Rightarrow> x),
      input_payload = text_or (d_input_payload d) ''{}'', result_path = text_or (d_result_path d) [],
      error_message = text_or (d_error_message d) [], data_version = d_data_version d, heartbeat_at = d_heartbeat_at d,
      created_at = text_or created (text_or (d_created_at d) now), started_at = d_started_at d,
      finished_at = d_finished_at d, updated_at = text_or (d_updated_at d) now,
      lease_owner = text_or (d_lease_owner d) [], handler_version = text_or (d_handler_version d) []\<rparr>"

section \<open>Creation\<close>

definition insert_full :: "string \<Rightarrow> job_dict \<Rightarrow> job_table \<Rightarrow> job_table" where
  "insert_full now d t = t @ [full_row now d None]"

definition job_create :: "string \<Rightarrow> job_dict \<Rightarrow> (job_table, job_row option) action" where
  "job_create now d t =
     (if job_get t (d_job_id d) \<noteq> None then (Inl (ValueError ''JOB_ID_ALREADY_EXISTS''), t)
      else let t' = insert_full now d t in (Inr (job_get t' (d_job_id d)), t'))"

text \<open>Replaying a row of a migrated table; not a live operation.\<close>

definition job_restore :: "string \<Rightarrow> job_dict \<Rightarrow> job_table \<Rightarrow> job_row option \<times> job_table" where
  "job_restore now d t =
     (case job_get t (d_job_id d) of
        None \<Rightarrow> let t' = insert_full now d t in (job_get t' (d_job_id d), t')
      | Some e \<Rightarrow> let t' = snd (update_rows (\<lambda>r. job_id r = d_job_id d)
            (\<lambda>r. full_row now d (Some (text_or (d_created_at d) (created_at e)))) t)
          in (job_get t' (d_job_id d), t'))"

section \<open>Transitions of a lease\<close>

text \<open>The row after an update that touched exactly one row.\<close>

definition when_one :: "string \<Rightarrow> nat \<times> job_table \<Rightarrow> job_row option \<times> job_table" where
  "when_one i = (\<lambda>(n, t). (if n = 1 then job_get t i else None, t))"

definition job_start :: "string \<Rightarrow> job_dict \<Rightarrow> job_table \<Rightarrow> job_row option \<times> job_table" where
  "job_start now d t =
     (let owner = text_or (d_lease_owner d) []; stamp = text_or (d_heartbeat_at d) now in
      if owner = [] then (None, t)
      else when_one (d_job_id d) (update_rows
        (\<lambda>r. job_id r = d_job_id d \<and> state r = ''queued'' \<and> lease_owner r = owner)
        (\<lambda>r. r\<lparr>state := ''running'', started_at := (case started_at r of None \<Rightarrow> Some (text_or (d_started_at d) stamp) | Some s \<Rightarrow> Some s),
               heartbeat_at := Some stamp, updated_at := now\<rparr>) t))"

definition job_heartbeat :: "string \<Rightarrow> job_dict \<Rightarrow> job_table \<Rightarrow> job_row option \<times> job_table" where
  "job_heartbeat now d t =
     (let owner = text_or (d_lease_owner d) []; stamp = text_or (d_heartbeat_at d) now in
      if owner = [] then (None, t)
      else when_one (d_job_id d) (update_rows
        (\<lambda>r. job_id r = d_job_id d \<and> state r = ''running'' \<and> lease_owner r = owner)
        (\<lambda>r. r\<lparr>progress := (case d_progress d of None \<Rightarrow> 0 | Some x \<Rightarrow> x), heartbeat_at := Some stamp, updated_at := now\<rparr>) t))"

definition open_states :: "string list" where
  "open_states = [''queued'', ''running'', ''interrupted'']"

definition transition_terminal :: "string \<Rightarrow> job_dict \<Rightarrow> job_table \<Rightarrow> job_row option \<times> job_table" where
  "transition_terminal now d t =
     (let owner = text_or (d_lease_owner d) []; target = text_or (d_state d) [];
          stamp = text_or (d_heartbeat_at d) (text_or (d_finished_at d) now) in
      if owner = [] \<or> target \<in> set [[], ''queued'', ''running''] then (None, t)
      else when_one (d_job_id d) (update_rows
        (\<lambda>r. job_id r = d_job_id d \<and> state r \<in> set open_states \<and> lease_owner r = owner)
        (\<lambda>r. r\<lparr>state := target, progress := (case d_progress d of None \<Rightarrow> 0 | Some x \<Rightarrow> x),
               result_path := text_or (d_result_path d) [], error_message := text_or (d_error_message d) [],
               heartbeat_at := Some stamp, finished_at := Some (text_or (d_finished_at d) stamp), updated_at := now\<rparr>) t))"

definition job_upsert :: "string \<Rightarrow> job_dict \<Rightarrow> (job_table, job_row option) action" where
  "job_upsert now d t =
     (case job_get t (d_job_id d) of
        None \<Rightarrow> job_create now d t
      | Some e \<Rightarrow>
          let target = text_or (d_state d) ''queued'' in
          if target = ''running'' then (case job_heartbeat now d t of (r, t') \<Rightarrow> (Inr r, t'))
          else if target \<noteq> ''queued'' then (case transition_terminal now d t of (r, t') \<Rightarrow> (Inr r, t'))
          else if state e = ''queued'' \<and> lease_owner e = text_or (d_lease_owner d) [] then (Inr (Some e), t)
          else (Inl (ValueError ''UNFENCED_JOB_UPSERT''), t))"

section \<open>Recovery\<close>

text \<open>Running and not heard of since the cut-off, or, when an owner is given, running for another owner.\<close>

definition stale_running :: "string \<Rightarrow> string option \<Rightarrow> job_row \<Rightarrow> bool" where
  "stale_running cutoff owner r \<longleftrightarrow> state r = ''running'' \<and>
     ((case heartbeat_at r of None \<Rightarrow> True | Some h \<Rightarrow> h < cutoff) \<or>
      (case owner of None \<Rightarrow> False | Some w \<Rightarrow> w \<noteq> [] \<and> lease_owner r \<noteq> w))"

definition mark_stale :: "string \<Rightarrow> string \<Rightarrow> string option \<Rightarrow> string list \<Rightarrow> job_table \<Rightarrow> nat \<times> job_table" where
  "mark_stale now cutoff owner exclude_kinds t =
     update_rows (\<lambda>r. (state r = ''queued'' \<or> stale_running cutoff owner r) \<and> kind r \<notin> set exclude_kinds)
       (\<lambda>r. r\<lparr>state := ''interrupted'', error_message := ''worker lease expired'', updated_at := now, finished_at := Some now\<rparr>) t"

text \<open>What a worker has seen of a row; a component that is absent is not compared.\<close>

record observed =
  expected_state :: "string option"
  expected_owner :: "string option"
  expected_heartbeat :: "string option"

definition still_observed :: "observed \<Rightarrow> job_row \<Rightarrow> bool" where
  "still_observed ob r \<longleftrightarrow>
     (case expected_state ob of None \<Rightarrow> True | Some s \<Rightarrow> state r = s) \<and>
     (case expected_owner ob of None \<Rightarrow> True | Some w \<Rightarrow> lease_owner r = w) \<and>
     (case expected_heartbeat ob of None \<Rightarrow> True | Some h \<Rightarrow> text_or (heartbeat_at r) [] = h)"

definition take_over :: "string list \<Rightarrow> string \<Rightarrow> string \<Rightarrow> string \<Rightarrow> string \<Rightarrow> observed \<Rightarrow> job_table \<Rightarrow> job_row option \<times> job_table" where
  "take_over from_states target now i owner ob t =
     (case update_rows (\<lambda>r. job_id r = i \<and> state r \<in> set from_states \<and> still_observed ob r)
         (\<lambda>r. r\<lparr>state := target, lease_owner := owner, heartbeat_at := Some now, error_message := [], finished_at := None,
                updated_at := now\<rparr>) t of
        (n, t') \<Rightarrow> (if n \<noteq> 0 then job_get t' i else None, t'))"

definition claim_for_recovery :: "string \<Rightarrow> string \<Rightarrow> string \<Rightarrow> observed \<Rightarrow> job_table \<Rightarrow> job_row option \<times> job_table" where
  "claim_for_recovery = take_over [''queued'', ''running''] ''queued''"

definition reclaim :: "string \<Rightarrow> string \<Rightarrow> string \<Rightarrow> observed \<Rightarrow> job_table \<Rightarrow> job_row option \<times> job_table" where
  "reclaim = take_over open_states ''running''"

definition mark_interrupted :: "string \<Rightarrow> string \<Rightarrow> string \<Rightarrow> observed \<Rightarrow> job_table \<Rightarrow> nat \<times> job_table" where
  "mark_interrupted now i message ob t =
     update_rows (\<lambda>r. job_id r = i \<and> state r \<in> set [''queued'', ''running''] \<and> still_observed ob r)
       (\<lambda>r. r\<lparr>state := ''interrupted'', error_message := message, updated_at := now, finished_at := Some now\<rparr>) t"

section \<open>Queries\<close>

type_synonym cursor = "string \<times> string"

definition row_key :: "job_row \<Rightarrow> cursor" where
  "row_key r = (created_at r, job_id r)"

definition after_cursor :: "cursor option \<Rightarrow> job_row \<Rightarrow> bool" where
  "after_cursor c r \<longleftrightarrow> (case c of None \<Rightarrow> True
     | Some (stamp, i) \<Rightarrow> stamp < created_at r \<or> created_at r = stamp \<and> i < job_id r)"

definition clamp_limit :: "nat \<Rightarrow> int \<Rightarrow> int \<Rightarrow> nat" where
  "clamp_limit largest usual limit = min largest (nat (max 1 (if limit = 0 then usual else limit)))"

definition selected :: "int option \<Rightarrow> string list \<Rightarrow> job_row \<Rightarrow> bool" where
  "selected project states r \<longleftrightarrow> (project = None \<or> project_id r = project) \<and> (states = [] \<or> state r \<in> set states)"

definition job_list :: "int option \<Rightarrow> string list \<Rightarrow> int \<Rightarrow> cursor option \<Rightarrow> job_table \<Rightarrow> job_table" where
  "job_list project states limit c t =
     take (clamp_limit 501 100 limit) (sort_key row_key (filter (\<lambda>r. selected project states r \<and> after_cursor c r) t))"

record job_page =
  page_rows :: job_table
  has_more :: bool
  next_cursor :: "cursor option"

definition list_page :: "int option \<Rightarrow> string list \<Rightarrow> int \<Rightarrow> cursor option \<Rightarrow> job_table \<Rightarrow> job_page" where
  "list_page project states limit c t =
     (let page_limit = clamp_limit 500 100 limit;
          rows = job_list project states (int page_limit + 1) c t;
          more = length rows > page_limit; rows' = take page_limit rows in
      \<lparr>page_rows = rows', has_more = more,
       next_cursor = (if more \<and> rows' \<noteq> [] then Some (row_key (last rows')) else None)\<rparr>)"

definition find_active :: "int \<Rightarrow> int \<Rightarrow> string \<Rightarrow> int \<Rightarrow> job_table \<Rightarrow> job_row option" where
  "find_active project scan k version t =
     (case sort_key row_key (filter (\<lambda>r. project_id r = Some project \<and> scan_id r = Some scan \<and> kind r = k \<and>
            data_version r = Some version \<and> state r \<in> set [''queued'', ''running'']) t) of
        [] \<Rightarrow> None | r # _ \<Rightarrow> Some r)"

definition list_recoverable :: "string \<Rightarrow> string option \<Rightarrow> string list \<Rightarrow> int \<Rightarrow> cursor option \<Rightarrow> job_table \<Rightarrow> job_table" where
  "list_recoverable cutoff owner exclude_kinds limit c t =
     take (clamp_limit 200 200 limit) (sort_key row_key (filter (\<lambda>r.
       (state r = ''queued'' \<and> (case owner of None \<Rightarrow> True | Some w \<Rightarrow> w = [] \<or> lease_owner r \<noteq> w) \<or>
        stale_running cutoff owner r) \<and> kind r \<notin> set exclude_kinds \<and> after_cursor c r) t))"

section \<open>Live operations\<close>

datatype job_operation =
    Create job_dict | Start job_dict | Heartbeat job_dict | Terminal job_dict | Upsert job_dict
  | MarkStale string "string option" "string list"
  | Claim string string observed | Reclaim string string observed | Interrupt string string observed

text \<open>The operation at time \<open>now\<close>.\<close>

fun job_op :: "string \<Rightarrow> job_operation \<Rightarrow> job_table \<Rightarrow> job_table" where
  "job_op now (Create d) t = snd (job_create now d t)"
| "job_op now (Start d) t = snd (job_start now d t)"
| "job_op now (Heartbeat d) t = snd (job_heartbeat now d t)"
| "job_op now (Terminal d) t = snd (transition_terminal now d t)"
| "job_op now (Upsert d) t = snd (job_upsert now d t)"
| "job_op now (MarkStale cutoff owner kinds) t = snd (mark_stale now cutoff owner kinds t)"
| "job_op now (Claim i owner ob) t = snd (claim_for_recovery now i owner ob t)"
| "job_op now (Reclaim i owner ob) t = snd (reclaim now i owner ob t)"
| "job_op now (Interrupt i message ob) t = snd (mark_interrupted now i message ob t)"

inductive job_step :: "job_table \<Rightarrow> string \<times> job_operation \<Rightarrow> job_table \<Rightarrow> bool" where
  "job_step t (now, op) (job_op now op t)"

definition ended :: "job_row \<Rightarrow> bool" where
  "ended r \<longleftrightarrow> state r \<notin> set open_states"

lemma snd_when_one [simp]: "snd (when_one i u) = snd u"
  by (simp add: when_one_def case_prod_unfold)

lemmas job_defs = job_start_def job_heartbeat_def transition_terminal_def mark_stale_def stale_running_def take_over_def
  claim_for_recovery_def reclaim_def mark_interrupted_def open_states_def Let_def

lemma job_op_keeps_ended:
  assumes "r \<in> set t" "ended r"
  shows "r \<in> set (job_op now op t)"
proof -
  have n: "state r \<noteq> ''queued''" "state r \<noteq> ''running''" "state r \<noteq> ''interrupted''"
    using assms(2) by (auto simp: ended_def open_states_def)
  note k = update_rows_keeps [OF assms(1)]
  have "r \<in> set (snd (job_create now d t))" for d
    using assms(1) by (simp add: job_create_def insert_full_def Let_def)
  moreover have "r \<in> set (snd (job_heartbeat now d t))" "r \<in> set (snd (transition_terminal now d t))" for d
    using assms(1) n by (auto simp: job_defs intro!: k)
  moreover from this have "r \<in> set (snd (job_upsert now d t))" for d
    using assms(1) calculation by (auto simp: job_upsert_def Let_def case_prod_unfold split: option.split)
  ultimately show ?thesis using assms(1) n by (cases op) (auto simp: job_defs case_prod_unfold intro!: k)
qed

lemma job_op_ids:
  "distinct (map job_id t) \<Longrightarrow> distinct (map job_id (job_op now op t))"
proof -
  assume d: "distinct (map job_id t)"
  have c: "distinct (map job_id (snd (job_create now x t)))" for x
    using d by (auto simp: job_create_def insert_full_def full_row_def job_get_def Let_def find_None_iff)
  have e: "map job_id (snd (job_heartbeat now x t)) = map job_id t" "map job_id (snd (transition_terminal now x t)) = map job_id t" for x
    by (auto simp: job_defs update_rows_ids)
  have "distinct (map job_id (snd (job_upsert now x t)))" for x
    using d c e by (auto simp: job_upsert_def Let_def case_prod_unfold split: option.split)
  then show ?thesis using d c e by (cases op) (auto simp: job_defs case_prod_unfold update_rows_ids)
qed

section \<open>Pages\<close>

definition listing :: "int option \<Rightarrow> string list \<Rightarrow> cursor option \<Rightarrow> job_table \<Rightarrow> job_table" where
  "listing project states c t = sort_key row_key (filter (\<lambda>r. selected project states r \<and> after_cursor c r) t)"

lemma after_cursor_Some: "after_cursor (Some c) r \<longleftrightarrow> c < row_key r"
  by (cases c) (auto simp: after_cursor_def row_key_def)

lemma after_cursor_trans: "after_cursor c r \<Longrightarrow> row_key r < row_key q \<Longrightarrow> after_cursor c q"
  by (cases c) (simp add: after_cursor_def, simp add: after_cursor_Some)

lemma listing_increasing:
  assumes "distinct (map job_id t)"
  shows "sorted_wrt (\<lambda>r q. row_key r < row_key q) (listing project states c t)"
proof -
  let ?l = "listing project states c t"
  have "mset ?l = mset (filter (\<lambda>r. selected project states r \<and> after_cursor c r) t)" by (simp add: listing_def)
  then have "mset (map job_id ?l) = mset (map job_id (filter (\<lambda>r. selected project states r \<and> after_cursor c r) t))" by (simp only: mset_map)
  then have "distinct (map job_id ?l)" using assms by (metis distinct_map_filter mset_eq_imp_distinct_iff)
  then have "distinct (map row_key ?l)" by (auto simp: distinct_map inj_on_def row_key_def)
  moreover have "sorted (map row_key ?l)" by (simp add: listing_def)
  ultimately have "sorted_wrt (<) (map row_key ?l)" by (simp add: strict_sorted_iff)
  then show ?thesis by (simp add: sorted_wrt_map)
qed

lemma filter_after_nth:
  assumes "sorted_wrt (\<lambda>r q. f r < f q) xs" "0 < n" "n \<le> length xs"
  shows "filter (\<lambda>r. f (xs ! (n - 1)) < (f r :: 'a :: linorder)) xs = drop n xs"
proof -
  obtain m where m: "n = Suc m" using assms(2) by (cases n) auto
  have xs: "xs = take m xs @ xs ! m # drop n xs" using assms(3) unfolding m by (simp add: id_take_nth_drop [symmetric])
  have "sorted_wrt (\<lambda>r q. f r < f q) (take m xs @ xs ! m # drop n xs)" using assms(1) xs by simp
  then have "\<forall>r \<in> set (take m xs). f r < f (xs ! m)" "\<forall>r \<in> set (drop n xs). f (xs ! m) < f r"
    by (auto simp: sorted_wrt_append)
  then have "filter (\<lambda>r. f (xs ! m) < f r) (take m xs @ xs ! m # drop n xs) = drop n xs"
    by (auto simp: filter_empty_conv filter_id_conv dest: order_less_imp_not_less)
  then have "filter (\<lambda>r. f (xs ! m) < f r) xs = drop n xs" unfolding xs [symmetric] .
  then show ?thesis by (simp add: m)
qed

lemma listing_after:
  assumes "distinct (map job_id t)" "0 < n" "n \<le> length (listing project states c t)"
  shows "listing project states (Some (row_key (listing project states c t ! (n - 1)))) t = drop n (listing project states c t)"
proof -
  let ?l = "listing project states c t" let ?k = "row_key (?l ! (n - 1))"
  have "?l ! (n - 1) \<in> set ?l" using assms(2,3) by simp
  then have c: "after_cursor c (?l ! (n - 1))" by (auto simp: listing_def)
  have "selected project states r \<and> after_cursor (Some k) r \<longleftrightarrow> (selected project states r \<and> after_cursor c r) \<and> k < row_key r"
    if "k = ?k" for r k using after_cursor_trans [OF c] that by (auto simp: after_cursor_Some)
  then have "listing project states (Some k) t = filter (\<lambda>r. k < row_key r) ?l" if "k = ?k" for k
    using that unfolding listing_def filter_sort filter_filter by simp
  then have "listing project states (Some ?k) t = filter (\<lambda>r. ?k < row_key r) ?l" by blast
  then show ?thesis using filter_after_nth [OF listing_increasing [OF assms(1)] assms(2,3)] by simp
qed

section \<open>Properties\<close>

text \<open>C29: a job that has ended (completed, failed, cancelled, superseded: any state but queued, running and interrupted)
  is never changed again: whatever operations run, its row stays as it is and is the row found for its identifier.\<close>

theorem ended_job_is_final:
  assumes "reaches job_step t ops t'" "distinct (map job_id t)" "job_get t i = Some r" "ended r"
  shows "job_get t' i = Some r"
proof -
  from assms(3) have r: "r \<in> set t" "job_id r = i" by (auto simp: job_get_def find_Some_iff)
  have "distinct (map job_id t') \<and> r \<in> set t'" using assms(1,2) r(1) assms(4)
    by (induction rule: reaches.induct) (auto elim!: job_step.cases intro: job_op_keeps_ended job_op_ids)
  then show ?thesis using find_unique [of job_id t' r] r(2) by (simp add: job_get_def)
qed

text \<open>Start, heartbeat and the terminal transition are fenced by the lease: for an owner that does not hold the
  lease of the job they return nothing and leave the table as it is.\<close>

lemma lease_fences_transitions:
  assumes "\<forall>r \<in> set t. job_id r = d_job_id d \<longrightarrow> lease_owner r \<noteq> text_or (d_lease_owner d) []"
  shows "job_start now d t = (None, t) \<and> job_heartbeat now d t = (None, t) \<and> transition_terminal now d t = (None, t)"
proof -
  have u: "when_one i (update_rows (\<lambda>r. job_id r = d_job_id d \<and> q r \<and> lease_owner r = text_or (d_lease_owner d) []) f t) = (None, t)" for q f i
    using assms by (auto simp: when_one_def update_rows_def filter_empty_conv intro!: map_idI)
  show ?thesis by (simp add: job_start_def job_heartbeat_def transition_terminal_def Let_def u)
qed

text \<open>Of two workers that have seen the same state, owner and heartbeat of a job, one claims it at most: after the
  claim of a worker that is not the observed owner, the same claim by any worker finds nothing and changes nothing.\<close>

lemma one_claim_wins:
  assumes "take_over from_states target now i owner ob t = (Some r, t')" "expected_owner ob = Some w" "owner \<noteq> w"
  shows "take_over from_states target' now' i owner' ob t' = (None, t')"
proof -
  let ?p = "\<lambda>r. job_id r = i \<and> state r \<in> set from_states \<and> still_observed ob r"
  have t': "t' = snd (update_rows ?p (\<lambda>r. r\<lparr>state := target, lease_owner := owner, heartbeat_at := Some now, error_message := [],
      finished_at := None, updated_at := now\<rparr>) t)"
    using assms(1) by (auto simp: take_over_def split: prod.splits)
  have "\<not> ?p r" if "r \<in> set t'" for r
  proof -
    from that obtain q where q: "r = (if ?p q then q\<lparr>state := target, lease_owner := owner, heartbeat_at := Some now,
        error_message := [], finished_at := None, updated_at := now\<rparr> else q)" unfolding t' update_rows_def snd_conv set_map by (rule imageE)
    show ?thesis
    proof (cases "?p q")
      case True
      then show ?thesis using q assms(2,3) by (simp add: still_observed_def)
    next
      case False
      then show ?thesis unfolding q if_not_P [OF False] .
    qed
  qed
  then have "filter ?p t' = []" "map (\<lambda>r. if ?p r then f r else r) t' = t'" for f
    by (auto simp: filter_empty_conv intro!: map_idI)
  then show ?thesis by (simp add: take_over_def update_rows_def)
qed

text \<open>A page holds the next rows in the order of creation, it says that there are more exactly when there are, and
  the cursor it gives continues with exactly the rows that are left: following the cursors lists every selected
  job once.\<close>

lemma pages_list_every_job:
  assumes "distinct (map job_id t)" "n = clamp_limit 500 100 limit" "p = list_page project states limit c t"
  shows "page_rows p = take n (listing project states c t) \<and>
    (has_more p \<longleftrightarrow> n < length (listing project states c t)) \<and>
    (has_more p \<longrightarrow> listing project states (next_cursor p) t = drop n (listing project states c t))"
proof -
  let ?l = "listing project states c t"
  have n: "0 < n" "n \<le> 500" using assms(2) by (auto simp: clamp_limit_def)
  have "clamp_limit 501 100 (int n + 1) = n + 1" using n by (simp add: clamp_limit_def nat_add_distrib)
  then have r: "job_list project states (int n + 1) c t = take (n + 1) ?l" by (simp add: job_list_def listing_def)
  have p: "page_rows p = take n ?l" "has_more p \<longleftrightarrow> n < length ?l"
    unfolding assms(3) list_page_def Let_def assms(2) [symmetric] r by (auto simp: min_def)
  have "listing project states (next_cursor p) t = drop n ?l" if l: "n < length ?l"
  proof -
    have ne: "take n ?l \<noteq> []" using l n(1) by auto
    have "next_cursor p = Some (row_key (last (take n ?l)))"
      unfolding assms(3) list_page_def Let_def assms(2) [symmetric] r using l ne by (auto simp: min_def)
    also have "last (take n ?l) = ?l ! (n - 1)" using l n(1) by (simp add: last_conv_nth [OF ne] min_def)
    finally show ?thesis using listing_after [OF assms(1) n(1)] l by simp
  qed
  with p show ?thesis by blast
qed

section \<open>Examples\<close>

definition sample_dict :: "string \<Rightarrow> string \<Rightarrow> job_dict" where
  "sample_dict i target = \<lparr>d_job_id = i, d_project_id = Some 1, d_scan_id = Some 2, d_kind = Some ''export'', d_state = Some target,
     d_progress = None, d_input_payload = None, d_result_path = None, d_error_message = None, d_data_version = Some 3,
     d_heartbeat_at = None, d_created_at = None, d_started_at = None, d_finished_at = None, d_updated_at = None,
     d_lease_owner = Some ''w1'', d_handler_version = None\<rparr>"

definition sample_table :: job_table where
  "sample_table = [full_row ''10:00'' (sample_dict ''a'' ''completed'') None, full_row ''10:01'' (sample_dict ''b'' ''running'') None]"

theorem ended_job_is_final_witness:
  "job_get (job_op ''11:00'' (MarkStale ''10:30'' None []) sample_table) ''a'' = Some (hd sample_table)"
proof -
  have "reaches job_step sample_table [(''11:00'', MarkStale ''10:30'' None [])] (job_op ''11:00'' (MarkStale ''10:30'' None []) sample_table)"
    by (rule reaches_Cons, rule job_step.intros, rule reaches_refl)
  moreover have "distinct (map job_id sample_table)" "job_get sample_table ''a'' = Some (hd sample_table)" "ended (hd sample_table)"
    by code_simp+
  ultimately show ?thesis by (rule ended_job_is_final)
qed

theorem lease_fences_transitions_witness:
  "job_heartbeat ''11:00'' (sample_dict ''b'' ''running''\<lparr>d_lease_owner := Some ''w2''\<rparr>) sample_table = (None, sample_table)"
proof -
  have "list_all (\<lambda>r. job_id r = ''b'' \<longrightarrow> lease_owner r \<noteq> ''w2'') sample_table" by code_simp
  then show ?thesis
    using lease_fences_transitions [of sample_table "sample_dict ''b'' ''running''\<lparr>d_lease_owner := Some ''w2''\<rparr>"]
    by (simp add: list_all_iff sample_dict_def text_or_def)
qed

definition sample_view :: observed where
  "sample_view = \<lparr>expected_state = Some ''running'', expected_owner = Some ''w1'', expected_heartbeat = None\<rparr>"

theorem one_claim_wins_witness:
  "fst (reclaim ''11:01'' ''b'' ''w3'' sample_view (snd (reclaim ''11:00'' ''b'' ''w2'' sample_view sample_table))) = None"
proof -
  let ?c = "take_over open_states ''running'' ''11:00'' ''b'' ''w2'' sample_view sample_table"
  have "fst ?c \<noteq> None" by code_simp
  then obtain r where "?c = (Some r, snd ?c)" by (metis option.exhaust prod.collapse)
  from one_claim_wins [OF this, of "''w1''" "''running''" "''11:01''" "''w3''"] show ?thesis
    by (simp add: reclaim_def sample_view_def)
qed

theorem pages_list_every_job_witness:
  "listing None [] (next_cursor (list_page None [] 1 None sample_table)) sample_table = drop 1 (listing None [] None sample_table)"
proof -
  have "distinct (map job_id sample_table)" "has_more (list_page None [] 1 None sample_table)" "1 = clamp_limit 500 100 1" by code_simp+
  with pages_list_every_job [OF this(1,3) refl] show ?thesis by blast
qed

end
