(* ===== verification/ImportLocks.thy ===== *)
theory ImportLocks
  imports Prelude Complex_Main
begin

text \<open>
  The locks on physical repositories, \<open>app/scan_import/locks.py\<close>. The state holds the counter of fencing
  tokens of every resource and the lock rows, one per resource. Times are seconds; a stored time is a
  whole second, as the text format of the code cuts it.

  Shown: the tokens handed out for a resource increase strictly in every run, a lock row always carries the
  newest token of its resource, so that a fence check passes for the newest token only; an acquisition
  that finds a resource busy leaves no lock of the caller behind.
\<close>

section \<open>State\<close>

record lock_row =
  physical_resource_id :: int
  lock_job :: string
  owner_token :: string
  fencing_token :: int
  lock_heartbeat_at :: int
  acquired_at :: int
  expires_at :: "int option"

record lock_state =
  next_tokens :: "(int \<times> int) list"
  lock_rows :: "lock_row list"

definition expired :: "rat \<Rightarrow> int option \<Rightarrow> bool" where
  "expired now v = (case v of None \<Rightarrow> False | Some e \<Rightarrow> of_int e < now)"

definition expiry :: "rat \<Rightarrow> rat \<Rightarrow> int option" where
  "expiry now lease = Some \<lfloor>now + lease\<rfloor>"

definition lock_of :: "lock_state \<Rightarrow> int \<Rightarrow> lock_row option" where
  "lock_of s r = List.find (\<lambda>l. physical_resource_id l = r) (lock_rows s)"

section \<open>Operations\<close>

definition next_token :: "int \<Rightarrow> (lock_state, int) action" where
  "next_token r s = (case map_of (next_tokens s) r of
       None \<Rightarrow> (Inl (KeyError ''physical repository resource not found''), s)
     | Some n \<Rightarrow> (Inr (n + 1), s\<lparr>next_tokens := AList.update r (n + 1) (next_tokens s)\<rparr>))"

definition new_lock :: "rat \<Rightarrow> rat \<Rightarrow> int \<Rightarrow> string \<Rightarrow> string \<Rightarrow> int \<Rightarrow> lock_row" where
  "new_lock now lease r job owner token = \<lparr>physical_resource_id = r, lock_job = job, owner_token = owner, fencing_token = token,
     lock_heartbeat_at = \<lfloor>now\<rfloor>, acquired_at = \<lfloor>now\<rfloor>, expires_at = expiry now lease\<rparr>"

definition write_lock :: "lock_row \<Rightarrow> lock_state \<Rightarrow> lock_state" where
  "write_lock l s =
     (if lock_of s (physical_resource_id l) = None then s\<lparr>lock_rows := lock_rows s @ [l]\<rparr>
      else s\<lparr>lock_rows := map (\<lambda>x. if physical_resource_id x = physical_resource_id l then l else x) (lock_rows s)\<rparr>)"

definition held_by_other :: "rat \<Rightarrow> string \<Rightarrow> lock_row \<Rightarrow> bool" where
  "held_by_other now job l \<longleftrightarrow> \<not> expired now (expires_at l) \<and> lock_job l \<noteq> job"

definition acquire_one :: "rat \<Rightarrow> rat \<Rightarrow> string \<Rightarrow> string \<Rightarrow> int \<Rightarrow> (lock_state, int \<times> int) action" where
  "acquire_one now lease job owner r s =
     (if (case lock_of s r of None \<Rightarrow> False | Some l \<Rightarrow> held_by_other now job l)
      then (Inl (RepositoryBusyError (''resource '' @ show_int r @ '' is owned by another active import'')), s)
      else act_bind (next_token r) (\<lambda>token s. (Inr (r, token), write_lock (new_lock now lease r job owner token) s)) s)"

fun acquire_all :: "rat \<Rightarrow> rat \<Rightarrow> string \<Rightarrow> string \<Rightarrow> int list \<Rightarrow> (lock_state, (int \<times> int) list) action" where
  "acquire_all now lease job owner [] s = (Inr [], s)"
| "acquire_all now lease job owner (r # rs) s =
     act_bind (acquire_one now lease job owner r)
       (\<lambda>a. act_bind (acquire_all now lease job owner rs) (\<lambda>as. act_return (a # as))) s"

definition release_matching :: "string \<Rightarrow> string \<Rightarrow> int option \<Rightarrow> lock_row \<Rightarrow> bool" where
  "release_matching job owner token l \<longleftrightarrow> lock_job l = job \<and> owner_token l = owner \<and> (token = None \<or> Some (fencing_token l) = token)"

definition release_locks :: "string \<Rightarrow> string \<Rightarrow> int option \<Rightarrow> lock_state \<Rightarrow> nat \<times> lock_state" where
  "release_locks job owner token s =
     (length (filter (release_matching job owner token) (lock_rows s)),
      s\<lparr>lock_rows := filter (\<lambda>l. \<not> release_matching job owner token l) (lock_rows s)\<rparr>)"

definition acquire_locks :: "rat \<Rightarrow> rat \<Rightarrow> int list \<Rightarrow> string \<Rightarrow> string \<Rightarrow> (lock_state, (int \<times> int) list) action" where
  "acquire_locks now lease resource_ids job owner s =
     (case acquire_all now lease job owner (sort (remdups resource_ids)) s of
        (Inl e, t) \<Rightarrow> (Inl e, snd (release_locks job owner None t))
      | (Inr as, t) \<Rightarrow> (Inr as, t))"

definition heartbeat_locks :: "rat \<Rightarrow> rat \<Rightarrow> string \<Rightarrow> string \<Rightarrow> int \<Rightarrow> (lock_state, nat) action" where
  "heartbeat_locks now lease job owner token s =
     (let n = length (filter (release_matching job owner (Some token)) (lock_rows s)) in
      if n = 0 then (Inl (ValueError ''LOCK_FENCING_FAILED''), s)
      else (Inr n, s\<lparr>lock_rows := map (\<lambda>l. if release_matching job owner (Some token) l
              then l\<lparr>lock_heartbeat_at := \<lfloor>now\<rfloor>, expires_at := expiry now lease\<rparr> else l) (lock_rows s)\<rparr>))"

definition assert_fence :: "rat \<Rightarrow> int \<Rightarrow> string \<Rightarrow> string \<Rightarrow> int \<Rightarrow> lock_state \<Rightarrow> lock_row result" where
  "assert_fence now r job owner token s =
     (case List.find (\<lambda>l. physical_resource_id l = r \<and> release_matching job owner (Some token) l) (lock_rows s) of
        None \<Rightarrow> Inl (ValueError ''LOCK_FENCING_FAILED'')
      | Some l \<Rightarrow> if expired now (expires_at l) then Inl (ValueError ''LOCK_FENCING_FAILED'') else Inr l)"

definition list_locks :: "lock_state \<Rightarrow> lock_row list" where
  "list_locks s = sort_key physical_resource_id (lock_rows s)"

section \<open>Runs\<close>

datatype lock_operation =
    Acquire rat rat "int list" string string
  | HeartbeatLocks rat rat string string int
  | Release string string "int option"

text \<open>A step is labelled with the operation and the tokens it hands out.\<close>

inductive lock_step :: "lock_state \<Rightarrow> lock_operation \<times> (int \<times> int) list \<Rightarrow> lock_state \<Rightarrow> bool" where
  step_acquired: "acquire_locks now lease ids job owner s = (Inr as, t) \<Longrightarrow> lock_step s (Acquire now lease ids job owner, as) t"
| step_refused: "acquire_locks now lease ids job owner s = (Inl e, t) \<Longrightarrow> lock_step s (Acquire now lease ids job owner, []) t"
| step_heartbeat: "lock_step s (HeartbeatLocks now lease job owner token, []) (snd (heartbeat_locks now lease job owner token s))"
| step_release: "lock_step s (Release job owner token, []) (snd (release_locks job owner token s))"

definition counter :: "lock_state \<Rightarrow> int \<Rightarrow> int" where
  "counter s r = dict_get (next_tokens s) r 0"

definition lock_inv :: "lock_state \<Rightarrow> bool" where
  "lock_inv s \<longleftrightarrow> distinct (map physical_resource_id (lock_rows s)) \<and>
     list_all (\<lambda>l. fencing_token l = counter s (physical_resource_id l)) (lock_rows s)"

definition tokens_for :: "int \<Rightarrow> (int \<times> int) list \<Rightarrow> int list" where
  "tokens_for r as = map snd (filter (\<lambda>(q, n). q = r) as)"

lemma tokens_for_simps [simp]:
  "tokens_for r [] = []" "tokens_for r ((q, n) # as) = (if q = r then n # tokens_for r as else tokens_for r as)"
  "tokens_for r (as @ bs) = tokens_for r as @ tokens_for r bs"
  by (simp_all add: tokens_for_def)

text \<open>The tokens of a resource in \<open>as\<close> lead from its counter before to its counter after.\<close>

definition counted :: "lock_state \<Rightarrow> (int \<times> int) list \<Rightarrow> lock_state \<Rightarrow> bool" where
  "counted s as t \<longleftrightarrow> (\<forall>r. sorted_wrt (<) (tokens_for r as) \<and> (\<forall>n \<in> set (tokens_for r as). counter s r < n \<and> n \<le> counter t r) \<and>
     counter s r \<le> counter t r)"

lemma counted_refl: "counted s [] s"
  by (simp add: counted_def)

lemma counted_trans:
  assumes "counted s as t" "counted t bs u"
  shows "counted s (as @ bs) u"
  unfolding counted_def
proof (intro allI conjI)
  fix r
  note c = assms(1) [unfolded counted_def, rule_format, of r] assms(2) [unfolded counted_def, rule_format, of r]
  from c show "sorted_wrt (<) (tokens_for r (as @ bs))" by (fastforce simp: sorted_wrt_append)
  from c show "\<forall>n \<in> set (tokens_for r (as @ bs)). counter s r < n \<and> n \<le> counter u r" by fastforce
  from c show "counter s r \<le> counter u r" by linarith
qed

lemma lock_of_Some: "lock_of s r = Some l \<Longrightarrow> l \<in> set (lock_rows s) \<and> physical_resource_id l = r"
  by (auto simp: lock_of_def find_Some_iff)

lemma lock_of_None: "lock_of s r = None \<longleftrightarrow> r \<notin> physical_resource_id ` set (lock_rows s)"
  by (auto simp: lock_of_def find_None_iff)

lemma write_lock_rows:
  "map physical_resource_id (lock_rows (write_lock l s)) =
     (if lock_of s (physical_resource_id l) = None then map physical_resource_id (lock_rows s) @ [physical_resource_id l]
      else map physical_resource_id (lock_rows s))"
  by (auto simp: write_lock_def)

lemma acquire_one_step:
  assumes "lock_inv s" "acquire_one now lease job owner r s = (out, t)"
  shows "lock_inv t \<and> (case out of Inl e \<Rightarrow> counted s [] t | Inr a \<Rightarrow> counted s [a] t)"
proof (cases out)
  case (Inl e)
  then have "t = s" using assms(2) by (auto simp: acquire_one_def next_token_def act_bind_def split: if_splits option.splits)
  then show ?thesis using Inl assms(1) by (simp add: counted_refl)
next
  case (Inr a)
  with assms(2) obtain n where n: "map_of (next_tokens s) r = Some n" "a = (r, n + 1)"
    "t = write_lock (new_lock now lease r job owner (n + 1)) (s\<lparr>next_tokens := AList.update r (n + 1) (next_tokens s)\<rparr>)"
    by (auto simp: acquire_one_def next_token_def act_bind_def split: if_splits option.splits)
  have c: "counter t q = (if q = r then n + 1 else counter s q)" for q
    unfolding n(3) by (simp add: write_lock_def counter_def dict_get_def)
  have "counted s [a] t" using n(1,2) by (simp add: counted_def c) (simp add: counter_def dict_get_def)
  moreover have "distinct (map physical_resource_id (lock_rows t))"
    using assms(1) unfolding n(3) write_lock_rows
    by (auto simp: lock_inv_def lock_of_def new_lock_def find_None_iff)
  moreover have "list_all (\<lambda>l. fencing_token l = counter t (physical_resource_id l)) (lock_rows t)"
    using assms(1) unfolding c unfolding n(3)
    by (auto simp: lock_inv_def list_all_iff write_lock_def new_lock_def lock_of_def find_None_iff)
  ultimately show ?thesis using Inr by (simp add: lock_inv_def)
qed

lemma acquire_all_step:
  assumes "lock_inv s" "acquire_all now lease job owner rs s = (out, t)"
  shows "lock_inv t \<and> (case out of Inl e \<Rightarrow> counted s [] t | Inr as \<Rightarrow> counted s as t)"
  using assms
proof (induction rs arbitrary: s out t)
  case (Cons r rs)
  from Cons.prems(2) show ?case unfolding acquire_all.simps
  proof (cases rule: act_bind_cases)
    case (raised e)
    then show ?thesis using acquire_one_step [OF Cons.prems(1)] by fastforce
  next
    case (passed a s1)
    note one = acquire_one_step [OF Cons.prems(1) passed(1)]
    from passed(2) show ?thesis
    proof (cases rule: act_bind_cases)
      case (raised e)
      with one Cons.IH [of s1 "Inl e" t] counted_trans [of s "[a]" s1 "[]" t] show ?thesis
        by (auto simp: counted_def)
    next
      case (passed as u)
      with one Cons.IH [of s1 "Inr as" u] counted_trans [of s "[a]" s1 as u] show ?thesis by auto
    qed
  qed
qed (auto simp: counted_refl)

lemma release_step: "lock_inv s \<Longrightarrow> lock_inv (snd (release_locks job owner token s)) \<and> counted s [] (snd (release_locks job owner token s))"
  by (auto simp: lock_inv_def release_locks_def counted_def counter_def list_all_iff distinct_map_filter)

lemma heartbeat_step:
  assumes "lock_inv s"
  shows "lock_inv (snd (heartbeat_locks now lease job owner token s)) \<and> counted s [] (snd (heartbeat_locks now lease job owner token s))"
proof -
  have "map physical_resource_id (lock_rows (snd (heartbeat_locks now lease job owner token s))) = map physical_resource_id (lock_rows s)"
    by (auto simp: heartbeat_locks_def Let_def)
  moreover have "list_all (\<lambda>l. fencing_token l = counter s (physical_resource_id l)) (lock_rows (snd (heartbeat_locks now lease job owner token s)))"
    using assms by (auto simp: heartbeat_locks_def Let_def lock_inv_def list_all_iff)
  moreover have "counter (snd (heartbeat_locks now lease job owner token s)) = counter s"
    by (auto simp: heartbeat_locks_def Let_def counter_def fun_eq_iff)
  ultimately show ?thesis using assms by (simp add: lock_inv_def counted_def)
qed

lemma lock_step_counted: "lock_step s (op, as) t \<Longrightarrow> lock_inv s \<Longrightarrow> lock_inv t \<and> counted s as t"
proof (induction s "(op, as)" t rule: lock_step.induct)
  case (step_acquired now lease ids job owner s t)
  then show ?case using acquire_all_step [of s now lease job owner "sort (remdups ids)"]
    by (auto simp: acquire_locks_def split: prod.splits sum.splits)
next
  case (step_refused now lease ids job owner s e t)
  then obtain u where u: "acquire_all now lease job owner (sort (remdups ids)) s = (Inl e, u)" "t = snd (release_locks job owner None u)"
    by (auto simp: acquire_locks_def split: prod.splits sum.splits)
  note a = acquire_all_step [OF step_refused.prems u(1)]
  then show ?case using release_step [of u job owner None] counted_trans [of s "[]" u "[]" t] u(2) step_refused.hyps by auto
next
  case (step_heartbeat s now lease job owner token)
  then show ?case using heartbeat_step by blast
next
  case (step_release s job owner token)
  then show ?case using release_step by blast
qed

lemma run_counted: "reaches lock_step s ls t \<Longrightarrow> lock_inv s \<Longrightarrow> lock_inv t \<and> counted s (concat (map snd ls)) t"
proof (induction rule: reaches.induct)
  case (reaches_refl s)
  then show ?case by (simp add: counted_refl)
next
  case (reaches_step s ls t l u)
  then show ?case using lock_step_counted [of t "fst l" "snd l" u] counted_trans [of s "concat (map snd ls)" t "snd l" u] by auto
qed

text \<open>Every row that an acquisition adds or changes carries its job and owner, and no lock of another job that has not
  expired is touched.\<close>

definition only_own_changes :: "rat \<Rightarrow> string \<Rightarrow> string \<Rightarrow> lock_state \<Rightarrow> lock_state \<Rightarrow> bool" where
  "only_own_changes now job owner s t \<longleftrightarrow>
     (\<forall>l \<in> set (lock_rows t). l \<in> set (lock_rows s) \<or> lock_job l = job \<and> owner_token l = owner) \<and>
     (\<forall>l \<in> set (lock_rows s). held_by_other now job l \<longrightarrow> l \<in> set (lock_rows t))"

lemma acquire_one_own:
  assumes "lock_inv s" "acquire_one now lease job owner r s = (out, t)"
  shows "only_own_changes now job owner s t"
proof (cases out)
  case (Inl e)
  then have "t = s" using assms(2) by (auto simp: acquire_one_def next_token_def act_bind_def split: if_splits option.splits)
  then show ?thesis by (simp add: only_own_changes_def)
next
  case (Inr a)
  with assms(2) obtain n where n: "\<not> (case lock_of s r of None \<Rightarrow> False | Some l \<Rightarrow> held_by_other now job l)"
    "t = write_lock (new_lock now lease r job owner n) (s\<lparr>next_tokens := AList.update r n (next_tokens s)\<rparr>)"
    by (auto simp: acquire_one_def next_token_def act_bind_def split: if_splits option.splits)
  have "l \<in> set (lock_rows t)" if l: "l \<in> set (lock_rows s)" "held_by_other now job l" for l
  proof -
    have "physical_resource_id l \<noteq> r"
    proof
      assume "physical_resource_id l = r"
      with l(1) assms(1) have "lock_of s r = Some l"
        using find_unique [of physical_resource_id "lock_rows s" l] by (simp add: lock_of_def lock_inv_def)
      with n(1) l(2) show False by simp
    qed
    with l(1) show ?thesis unfolding n(2) by (auto simp: write_lock_def new_lock_def image_iff intro!: bexI [of _ l])
  qed
  moreover have "l \<in> set (lock_rows s) \<or> lock_job l = job \<and> owner_token l = owner" if "l \<in> set (lock_rows t)" for l
    using that unfolding n(2) by (auto simp: write_lock_def new_lock_def split: if_splits)
  ultimately show ?thesis by (simp add: only_own_changes_def)
qed

lemma only_own_trans: "only_own_changes now job owner s t \<Longrightarrow> only_own_changes now job owner t u \<Longrightarrow> only_own_changes now job owner s u"
  unfolding only_own_changes_def by blast

lemma acquire_all_own:
  assumes "lock_inv s" "acquire_all now lease job owner rs s = (out, t)"
  shows "only_own_changes now job owner s t"
  using assms
proof (induction rs arbitrary: s out t)
  case (Cons r rs)
  from Cons.prems(2) show ?case unfolding acquire_all.simps
  proof (cases rule: act_bind_cases)
    case (raised e)
    then show ?thesis using acquire_one_own [OF Cons.prems(1)] by blast
  next
    case (passed a s1)
    have s1: "lock_inv s1" "only_own_changes now job owner s s1"
      using acquire_one_step [OF Cons.prems(1) passed(1)] acquire_one_own [OF Cons.prems(1) passed(1)] by auto
    from passed(2) obtain out' where "acquire_all now lease job owner rs s1 = (out', t)"
      by (cases rule: act_bind_cases) auto
    from only_own_trans [OF s1(2) Cons.IH [OF s1(1) this]] show ?thesis .
  qed
qed (auto simp: only_own_changes_def)

lemma acquire_all_busy:
  assumes "lock_inv s" "r \<in> set rs" "lock_of s r = Some l" "held_by_other now job l"
  shows "\<exists>e t. acquire_all now lease job owner rs s = (Inl e, t)"
  using assms
proof (induction rs arbitrary: s)
  case (Cons q rs)
  show ?case
  proof (cases "q = r")
    case True
    then show ?thesis using Cons.prems(3,4) by (simp add: acquire_one_def act_bind_def)
  next
    case q: False
    obtain out s1 where one: "acquire_one now lease job owner q s = (out, s1)" by fastforce
    have s1: "lock_inv s1" "l \<in> set (lock_rows s1)"
      using acquire_one_step [OF Cons.prems(1) one] acquire_one_own [OF Cons.prems(1) one] lock_of_Some [OF Cons.prems(3)] Cons.prems(4)
      by (auto simp: only_own_changes_def)
    then have "lock_of s1 r = Some l"
      using find_unique [of physical_resource_id "lock_rows s1" l] lock_of_Some [OF Cons.prems(3)]
      by (simp add: lock_of_def lock_inv_def)
    with Cons.IH [OF s1(1) _ _ Cons.prems(4)] q Cons.prems(2) have "\<exists>e t. acquire_all now lease job owner rs s1 = (Inl e, t)" by simp
    then show ?thesis using one by (cases out) (auto simp: act_bind_def)
  qed
qed simp

section \<open>Properties\<close>

text \<open>C18: the fencing tokens that a run hands out for a resource increase strictly, and when a fence check of the
  resource passes at its end, the token checked is not below any of them: a holder whose lock was taken over can not
  pass any more.\<close>

theorem newest_token_alone_passes:
  assumes "lock_rows s = []" "reaches lock_step s ls t" "assert_fence now r job owner token t = Inr l"
  shows "sorted_wrt (<) (tokens_for r (concat (map snd ls))) \<and> (\<forall>n \<in> set (tokens_for r (concat (map snd ls))). n \<le> token) \<and>
    lock_of t r = Some l \<and> fencing_token l = token"
proof -
  have run: "lock_inv t" "counted s (concat (map snd ls)) t"
    using run_counted [OF assms(2)] assms(1) by (auto simp: lock_inv_def)
  have l: "l \<in> set (lock_rows t)" "physical_resource_id l = r" "fencing_token l = token"
    using assms(3) by (auto simp: assert_fence_def release_matching_def find_Some_iff split: option.splits if_splits)
  then have "counter t r = token" using run(1) by (auto simp: lock_inv_def list_all_iff)
  moreover have "lock_of t r = Some l"
    using find_unique [of physical_resource_id "lock_rows t" l] l(1,2) run(1) by (simp add: lock_of_def lock_inv_def)
  ultimately show ?thesis using run(2) l(3) by (auto simp: counted_def)
qed

text \<open>A job that asks for several repositories, one of which another job holds unexpired, gets none of them: the
  acquisition raises, no lock of this job and owner is left, no lock is added, and every unexpired lock of other jobs is
  still there.\<close>

lemma busy_acquisition_leaves_nothing:
  assumes "lock_inv s" "r \<in> set ids" "lock_of s r = Some l" "held_by_other now job l"
  shows "\<exists>e t. acquire_locks now lease ids job owner s = (Inl e, t) \<and>
    (\<forall>k \<in> set (lock_rows t). k \<in> set (lock_rows s) \<and> \<not> (lock_job k = job \<and> owner_token k = owner)) \<and>
    (\<forall>k \<in> set (lock_rows s). held_by_other now job k \<longrightarrow> k \<in> set (lock_rows t))"
proof -
  obtain e u where u: "acquire_all now lease job owner (sort (remdups ids)) s = (Inl e, u)"
    using acquire_all_busy [OF assms(1) _ assms(3,4), of "sort (remdups ids)" lease owner] assms(2) by auto
  from acquire_all_own [OF assms(1) u] show ?thesis
    by (auto simp: acquire_locks_def u only_own_changes_def release_locks_def release_matching_def held_by_other_def)
qed

section \<open>Examples\<close>

definition sample_locks :: lock_state where
  "sample_locks = \<lparr>next_tokens = [(1, 0), (2, 4)], lock_rows = []\<rparr>"

definition after_first :: lock_state where
  "after_first = snd (acquire_locks 10 300 [2] ''j1'' ''w1'' sample_locks)"

definition after_second :: lock_state where
  "after_second = snd (acquire_locks 400 300 [2, 1] ''j2'' ''w2'' after_first)"

theorem newest_token_alone_passes_witness:
  "assert_fence 401 2 ''j2'' ''w2'' 6 after_second = Inr (hd (lock_rows after_second)\<lparr>physical_resource_id := 2\<rparr>) \<and>
   sorted_wrt (<) (tokens_for 2 [(2, 5), (1, 1), (2, 6)]) \<and> lock_of after_second 2 = Some (hd (lock_rows after_second)\<lparr>physical_resource_id := 2\<rparr>)"
proof -
  have f: "fst (acquire_locks 10 300 [2] ''j1'' ''w1'' sample_locks) = Inr [(2, 5)]"
    "fst (acquire_locks 400 300 [2, 1] ''j2'' ''w2'' after_first) = Inr [(1, 1), (2, 6)]"
    "assert_fence 401 2 ''j2'' ''w2'' 6 after_second = Inr (hd (lock_rows after_second)\<lparr>physical_resource_id := 2\<rparr>)"
    by code_simp+
  have "reaches lock_step sample_locks [(Acquire 10 300 [2] ''j1'' ''w1'', [(2, 5)]), (Acquire 400 300 [2, 1] ''j2'' ''w2'', [(1, 1), (2, 6)])]
    after_second"
  proof (rule reaches_Cons)
    show "lock_step sample_locks (Acquire 10 300 [2] ''j1'' ''w1'', [(2, 5)]) after_first"
      by (rule step_acquired) (use f in \<open>simp add: after_first_def prod_eq_iff\<close>)
    have "lock_step after_first (Acquire 400 300 [2, 1] ''j2'' ''w2'', [(1, 1), (2, 6)]) after_second"
      by (rule step_acquired) (use f in \<open>simp add: after_second_def prod_eq_iff\<close>)
    then show "reaches lock_step after_first [(Acquire 400 300 [2, 1] ''j2'' ''w2'', [(1, 1), (2, 6)])] after_second"
      by (rule reaches_Cons) (rule reaches_refl)
  qed
  from newest_token_alone_passes [OF _ this f(3)] show ?thesis using f(3) by (simp add: sample_locks_def)
qed

theorem busy_acquisition_leaves_nothing_witness:
  "\<exists>e t. acquire_locks 20 300 [1, 2] ''j2'' ''w2'' after_first = (Inl e, t)"
proof -
  have "lock_inv after_first" "lock_of after_first 2 = Some (hd (lock_rows after_first))"
    "held_by_other 20 ''j2'' (hd (lock_rows after_first))" by code_simp+
  from busy_acquisition_leaves_nothing [OF this(1) _ this(2,3), of "[1, 2]" 300 "''w2''"] show ?thesis by auto
qed

end
