(* ===== verification/Checkpoints.thy ===== *)
theory Checkpoints
  imports Prelude
begin

text \<open>
  The checkpoints of scan imports, \<open>app/scan_import/checkpoints.py\<close>: one row per job, with a phase, a sequence
  number and a fencing token, all updates conditional on the last two. The payload, a dictionary that the
  table keeps as JSON, is of any type. Current times are arguments.

  Shown: phase, sequence number and token of a row never go back, and the phase moves at most one place per
  number; of two writers that saw the same row one can write; once a job has claimed a newer token, no
  holder of an older one writes again.
\<close>

section \<open>Rows\<close>

definition PHASES :: "string list" where
  "PHASES = [''LOCKED'', ''SCAN_CREATED'', ''INFO_STAGED'', ''COVERAGE_IMPORTED'', ''GIT_VERIFIED'', ''SOURCE_PREPARED'',
     ''LINE_MAP_BUILT'', ''INHERITANCE_COMPUTED'', ''STATS_REBUILT'', ''CONSISTENCY_VERIFIED'', ''SEALED'', ''PUBLISHED'', ''DONE'']"

record 'p checkpoint =
  checkpoint_job :: string
  checkpoint_scan :: "int option"
  phase :: string
  phase_version :: int
  checkpoint_seq :: int
  checkpoint_payload :: 'p
  input_sha256 :: string
  checkpoint_fence :: int
  expected_current_scan_id :: "int option"
  checkpoint_created :: string
  checkpoint_updated :: string

text \<open>\<open>PHASES.index(phase)\<close>, which raises for a text that is no phase.\<close>

definition phase_index :: "string \<Rightarrow> nat result" where
  "phase_index p = (if p \<in> set PHASES then Inr (length (takeWhile (\<lambda>q. q \<noteq> p) PHASES)) else Inl (ValueError ''tuple.index(x): x not in tuple''))"

section \<open>Operations\<close>

definition checkpoint_get :: "'p checkpoint list \<Rightarrow> string \<Rightarrow> 'p checkpoint option" where
  "checkpoint_get t job = List.find (\<lambda>c. checkpoint_job c = job) t"

definition checkpoint_create ::
  "string \<Rightarrow> string \<Rightarrow> int option \<Rightarrow> int option \<Rightarrow> string \<Rightarrow> int \<Rightarrow> 'p \<Rightarrow> 'p checkpoint list \<Rightarrow> 'p checkpoint option \<times> 'p checkpoint list" where
  "checkpoint_create now job scan expected sha token payload t =
     (case checkpoint_get t job of
        Some c \<Rightarrow> (Some c, t)
      | None \<Rightarrow>
          let t' = t @ [\<lparr>checkpoint_job = job, checkpoint_scan = scan, phase = ''LOCKED'', phase_version = 1, checkpoint_seq = 0,
                checkpoint_payload = payload, input_sha256 = sha, checkpoint_fence = token, expected_current_scan_id = expected,
                checkpoint_created = now, checkpoint_updated = now\<rparr>]
          in (checkpoint_get t' job, t'))"

text \<open>The outcome of a conditional update: the row after it, or an exception unless exactly one row was touched.\<close>

definition cas_outcome ::
  "string \<Rightarrow> string \<Rightarrow> nat \<times> 'p checkpoint list \<Rightarrow> 'p checkpoint option result \<times> 'p checkpoint list" where
  "cas_outcome code job = (\<lambda>(n, t). if n \<noteq> 1 then (Inl (ValueError code), t) else (Inr (checkpoint_get t job), t))"

text \<open>The values that \<open>advance\<close> binds to its statement: with a hash, the list of parameters has the hash before the time,
  while the statement names \<open>updated_at\<close> before \<open>input_sha256\<close>.\<close>

definition advance_row :: "string \<Rightarrow> string \<Rightarrow> int \<Rightarrow> 'p \<Rightarrow> string option \<Rightarrow> 'p checkpoint \<Rightarrow> 'p checkpoint" where
  "advance_row now ph next_seq payload sha c =
     (let c1 = c\<lparr>phase := ph, checkpoint_seq := next_seq, checkpoint_payload := payload\<rparr> in
      case sha of None \<Rightarrow> c1\<lparr>checkpoint_updated := now\<rparr>
      | Some h \<Rightarrow> c1\<lparr>checkpoint_updated := h, input_sha256 := now\<rparr>)"

definition checkpoint_advance ::
  "string \<Rightarrow> string \<Rightarrow> int \<Rightarrow> int \<Rightarrow> string \<Rightarrow> 'p \<Rightarrow> string option \<Rightarrow> ('p checkpoint list, 'p checkpoint option) action" where
  "checkpoint_advance now job expected_seq expected_fence ph payload sha t =
     (if ph \<notin> set PHASES then (Inl (ValueError ''unknown import phase''), t)
      else case checkpoint_get t job of
        None \<Rightarrow> (Inl (KeyError ''import checkpoint not found''), t)
      | Some current \<Rightarrow>
          (case rbind (phase_index ph) (\<lambda>i. rbind (phase_index (phase current)) (\<lambda>j. Inr (i, j))) of
             Inl e \<Rightarrow> (Inl e, t)
           | Inr (i, j) \<Rightarrow>
               if i < j then (Inl (ValueError ''IMPORT_PHASE_REGRESSION''), t)
               else if i > j + 1 then (Inl (ValueError ''IMPORT_PHASE_SKIP''), t)
               else cas_outcome ''STALE_IMPORT_CHECKPOINT'' job (update_rows
                 (\<lambda>c. checkpoint_job c = job \<and> checkpoint_seq c = expected_seq \<and> checkpoint_fence c = expected_fence)
                 (advance_row now ph (expected_seq + 1) payload sha) t)))"

definition save_batch ::
  "string \<Rightarrow> string \<Rightarrow> int \<Rightarrow> int \<Rightarrow> 'p \<Rightarrow> ('p checkpoint list, 'p checkpoint option) action" where
  "save_batch now job expected_seq expected_fence payload t =
     (case checkpoint_get t job of
        None \<Rightarrow> (Inl (KeyError ''import checkpoint not found''), t)
      | Some current \<Rightarrow>
          if phase current \<noteq> ''INFO_STAGED'' then (Inl (ValueError ''STALE_IMPORT_CHECKPOINT''), t)
          else cas_outcome ''STALE_IMPORT_CHECKPOINT'' job (update_rows
            (\<lambda>c. checkpoint_job c = job \<and> phase c = ''INFO_STAGED'' \<and> checkpoint_seq c = expected_seq \<and> checkpoint_fence c = expected_fence)
            (\<lambda>c. c\<lparr>checkpoint_seq := expected_seq + 1, checkpoint_payload := payload, checkpoint_updated := now\<rparr>) t))"

definition claim_fencing :: "string \<Rightarrow> string \<Rightarrow> int \<Rightarrow> ('p checkpoint list, 'p checkpoint option) action" where
  "claim_fencing now job token t =
     cas_outcome ''STALE_IMPORT_FENCING'' job (update_rows (\<lambda>c. checkpoint_job c = job \<and> checkpoint_fence c < token)
       (\<lambda>c. c\<lparr>checkpoint_fence := token, checkpoint_updated := now\<rparr>) t)"

section \<open>Runs\<close>

datatype 'p checkpoint_operation =
    CreateCheckpoint string "int option" "int option" string int 'p
  | Advance string int int string 'p "string option"
  | SaveBatch string int int 'p
  | ClaimFencing string int

fun checkpoint_op :: "string \<Rightarrow> 'p checkpoint_operation \<Rightarrow> 'p checkpoint list \<Rightarrow> 'p checkpoint list" where
  "checkpoint_op now (CreateCheckpoint job scan expected sha token payload) t = snd (checkpoint_create now job scan expected sha token payload t)"
| "checkpoint_op now (Advance job seq fence ph payload sha) t = snd (checkpoint_advance now job seq fence ph payload sha t)"
| "checkpoint_op now (SaveBatch job seq fence payload) t = snd (save_batch now job seq fence payload t)"
| "checkpoint_op now (ClaimFencing job token) t = snd (claim_fencing now job token t)"

inductive checkpoint_step :: "'p checkpoint list \<Rightarrow> string \<times> 'p checkpoint_operation \<Rightarrow> 'p checkpoint list \<Rightarrow> bool" where
  "checkpoint_step t (now, op) (checkpoint_op now op t)"

text \<open>The place of a row in the order of phases.\<close>

definition place :: "'p checkpoint \<Rightarrow> nat" where
  "place c = length (takeWhile (\<lambda>q. q \<noteq> phase c) PHASES)"

definition checkpoint_inv :: "'p checkpoint list \<Rightarrow> bool" where
  "checkpoint_inv t \<longleftrightarrow> distinct (map checkpoint_job t) \<and> list_all (\<lambda>c. phase c \<in> set PHASES) t"

definition forward :: "'p checkpoint \<Rightarrow> 'p checkpoint \<Rightarrow> bool" where
  "forward c d \<longleftrightarrow> checkpoint_job d = checkpoint_job c \<and> checkpoint_scan d = checkpoint_scan c \<and>
     expected_current_scan_id d = expected_current_scan_id c \<and> place c \<le> place d \<and> checkpoint_seq c \<le> checkpoint_seq d \<and>
     int (place d) - int (place c) \<le> checkpoint_seq d - checkpoint_seq c \<and> checkpoint_fence c \<le> checkpoint_fence d"

lemma forward_refl [simp]: "forward c c"
  by (simp add: forward_def)

lemma forward_trans: "forward c d \<Longrightarrow> forward d e \<Longrightarrow> forward c e"
  by (auto simp: forward_def)

lemma cas_table [simp]: "snd (cas_outcome code job u) = snd u"
  by (simp add: cas_outcome_def case_prod_unfold)

lemma get_Some:
  assumes "checkpoint_inv t"
  shows "checkpoint_get t job = Some c \<longleftrightarrow> c \<in> set t \<and> checkpoint_job c = job"
proof
  assume "checkpoint_get t job = Some c"
  then show "c \<in> set t \<and> checkpoint_job c = job" by (auto simp: checkpoint_get_def find_Some_iff)
next
  assume "c \<in> set t \<and> checkpoint_job c = job"
  then show "checkpoint_get t job = Some c"
    using find_unique [of checkpoint_job t c] assms by (auto simp: checkpoint_get_def checkpoint_inv_def)
qed

text \<open>A table that keeps the invariant and has every row of another one, moved forward.\<close>

definition moved :: "'p checkpoint list \<Rightarrow> 'p checkpoint list \<Rightarrow> bool" where
  "moved t u \<longleftrightarrow> checkpoint_inv u \<and> (\<forall>c \<in> set t. \<exists>d \<in> set u. forward c d)"

lemma moved_refl: "checkpoint_inv t \<Longrightarrow> moved t t"
  by (auto simp: moved_def intro: forward_refl)

lemma moved_trans: "moved t u \<Longrightarrow> moved u v \<Longrightarrow> moved t v"
  unfolding moved_def by (meson forward_trans)

lemma moved_get:
  assumes "moved t u" "checkpoint_inv t" "checkpoint_get t job = Some c"
  shows "\<exists>d. checkpoint_get u job = Some d \<and> forward c d"
proof -
  have c: "c \<in> set t" "checkpoint_job c = job" using assms(3) get_Some [OF assms(2)] by simp_all
  with assms(1) obtain d where d: "d \<in> set u" "forward c d" by (auto simp: moved_def)
  then have "checkpoint_get u job = Some d" using get_Some [of u job d] assms(1) c(2) by (simp add: moved_def forward_def)
  with d(2) show ?thesis by blast
qed

lemma one_row: "length (filter p t) = 1 \<Longrightarrow> \<exists>c \<in> set t. p c"
  by (cases "filter p t") (auto simp: filter_eq_Cons_iff)

lemma update_moved:
  assumes "checkpoint_inv t" and f: "\<And>c. c \<in> set t \<Longrightarrow> p c \<Longrightarrow> forward c (f c) \<and> phase (f c) \<in> set PHASES"
  shows "moved t (snd (update_rows p f t))"
proof -
  let ?g = "\<lambda>r. if p r then f r else r"
  have g: "forward c (?g c) \<and> phase (?g c) \<in> set PHASES" if "c \<in> set t" for c
    using that assms(1) f [OF that] by (auto simp: checkpoint_inv_def list_all_iff)
  have "map checkpoint_job (map ?g t) = map checkpoint_job t" using g by (auto simp: forward_def)
  then have "distinct (map checkpoint_job (map ?g t))" using assms(1) by (simp only: checkpoint_inv_def)
  then show ?thesis using g by (auto simp only: moved_def checkpoint_inv_def update_rows_def snd_conv list_all_iff set_map)
qed

lemma advance_moved:
  assumes "checkpoint_inv t"
  shows "moved t (snd (checkpoint_advance now job seq fence ph payload sha t))"
proof (cases "snd (checkpoint_advance now job seq fence ph payload sha t) = t")
  case True
  then show ?thesis using assms by (simp add: moved_refl)
next
  case False
  then obtain c where c: "checkpoint_get t job = Some c" "ph \<in> set PHASES"
      "length (takeWhile (\<lambda>q. q \<noteq> ph) PHASES) \<ge> place c" "length (takeWhile (\<lambda>q. q \<noteq> ph) PHASES) \<le> place c + 1"
      "snd (checkpoint_advance now job seq fence ph payload sha t) = snd (update_rows
         (\<lambda>c. checkpoint_job c = job \<and> checkpoint_seq c = seq \<and> checkpoint_fence c = fence) (advance_row now ph (seq + 1) payload sha) t)"
    by (auto simp: checkpoint_advance_def phase_index_def place_def split: option.splits if_splits)
  have "forward b (advance_row now ph (seq + 1) payload sha b) \<and> phase (advance_row now ph (seq + 1) payload sha b) \<in> set PHASES"
    if "b \<in> set t" "checkpoint_job b = job \<and> checkpoint_seq b = seq \<and> checkpoint_fence b = fence" for b
  proof -
    have "b = c" using get_Some [OF assms, of job b] that c(1) by simp
    with that c(2-4) show ?thesis by (auto simp: advance_row_def forward_def place_def Let_def split: option.split)
  qed
  then show ?thesis unfolding c(5) by (rule update_moved [OF assms])
qed

lemma checkpoint_op_moved:
  assumes "checkpoint_inv t"
  shows "moved t (checkpoint_op now op t)"
proof (cases op)
  case (CreateCheckpoint job scan expected sha token payload)
  then show ?thesis using assms
    by (auto simp: checkpoint_create_def Let_def checkpoint_inv_def checkpoint_get_def find_None_iff PHASES_def moved_def
      split: option.split intro: forward_refl)
next
  case (Advance job seq fence ph payload sha)
  then show ?thesis using advance_moved [OF assms] by simp
next
  case (SaveBatch job seq fence payload)
  then show ?thesis using assms
    by (auto simp: save_batch_def moved_refl split: option.split intro!: update_moved)
       (auto simp: forward_def place_def checkpoint_inv_def list_all_iff)
next
  case (ClaimFencing job token)
  then show ?thesis using assms
    by (auto simp: claim_fencing_def intro!: update_moved) (auto simp: forward_def place_def checkpoint_inv_def list_all_iff)
qed

lemma run_moved: "reaches checkpoint_step t ops u \<Longrightarrow> checkpoint_inv t \<Longrightarrow> moved t u"
proof (induction rule: reaches.induct)
  case (reaches_refl s)
  then show ?case by (rule moved_refl)
next
  case (reaches_step s ls t l u)
  then have "moved s t" "checkpoint_inv t" by (auto simp: moved_def)
  with reaches_step.hyps(2) show ?case by (auto elim!: checkpoint_step.cases intro: moved_trans checkpoint_op_moved)
qed

text \<open>A conditional write finds no row when the token or the number does not fit.\<close>

lemma stale_write_raises:
  assumes "\<forall>c \<in> set t. checkpoint_job c = job \<longrightarrow> checkpoint_seq c \<noteq> seq \<or> checkpoint_fence c \<noteq> fence"
  shows "\<exists>e. checkpoint_advance now job seq fence ph payload sha t = (Inl e, t)"
    and "\<exists>e. save_batch now job seq fence payload t = (Inl e, t)"
proof -
  have none: "update_rows p f t = (0, t)" if "\<And>c. c \<in> set t \<Longrightarrow> \<not> p c" for p :: "'a checkpoint \<Rightarrow> bool" and f
    using that by (auto simp: update_rows_def filter_empty_conv intro!: map_idI)
  have u: "update_rows (\<lambda>c. checkpoint_job c = job \<and> checkpoint_seq c = seq \<and> checkpoint_fence c = fence) f t = (0, t)"
    "update_rows (\<lambda>c. checkpoint_job c = job \<and> phase c = ''INFO_STAGED'' \<and> checkpoint_seq c = seq \<and> checkpoint_fence c = fence) f t = (0, t)" for f
    using assms by (auto intro!: none)
  show "\<exists>e. checkpoint_advance now job seq fence ph payload sha t = (Inl e, t)"
    by (auto simp: checkpoint_advance_def u cas_outcome_def split: option.split sum.split)
  show "\<exists>e. save_batch now job seq fence payload t = (Inl e, t)"
    by (auto simp: save_batch_def u cas_outcome_def split: option.split)
qed

text \<open>A claimed token is a lower bound of the token of the row from then on.\<close>

lemma claimed_token_kept:
  assumes "checkpoint_inv t" "claim_fencing now job token t = (Inr r, u)" "reaches checkpoint_step u ops v" "checkpoint_get v job = Some b"
  shows "token \<le> checkpoint_fence b"
proof -
  let ?p = "\<lambda>c. checkpoint_job c = job \<and> checkpoint_fence c < token" and ?f = "\<lambda>c. c\<lparr>checkpoint_fence := token, checkpoint_updated := now\<rparr>"
  have u: "u = snd (update_rows ?p ?f t)" "length (filter ?p t) = 1"
    using assms(2) by (auto simp: claim_fencing_def cas_outcome_def update_rows_def split: if_splits)
  obtain c where c: "c \<in> set t" "?p c" using one_row [OF u(2)] by blast
  have inv: "checkpoint_inv u" using checkpoint_op_moved [OF assms(1), of now "ClaimFencing job token"] assms(2) by (simp add: moved_def)
  have "?f c \<in> set u" using c unfolding u(1) by (auto simp: update_rows_def image_iff intro!: bexI [of _ c])
  then have "checkpoint_get u job = Some (?f c)" using get_Some [OF inv] c(2) by simp
  from moved_get [OF run_moved [OF assms(3) inv] inv this] assms(4) show ?thesis by (auto simp: forward_def)
qed

lemma claimed_table_inv: "checkpoint_inv t \<Longrightarrow> claim_fencing now job token t = (Inr r, u) \<Longrightarrow> reaches checkpoint_step u ops v \<Longrightarrow> checkpoint_inv v"
  using checkpoint_op_moved [of t now "ClaimFencing job token"] run_moved [of u ops v] by (simp add: moved_def)

section \<open>Properties\<close>

text \<open>C17: whatever operations run, a job keeps its checkpoint; its scan and its expected current scan stay, its phase,
  its sequence number and its fencing token never go back, and the phase moves at most as many places as the sequence
  number grows: no phase is skipped.\<close>

theorem checkpoint_never_goes_back:
  assumes "reaches checkpoint_step t ops u" "checkpoint_inv t" "checkpoint_get t job = Some c"
  shows "\<exists>d. checkpoint_get u job = Some d \<and> checkpoint_scan d = checkpoint_scan c \<and>
    expected_current_scan_id d = expected_current_scan_id c \<and> place c \<le> place d \<and> checkpoint_seq c \<le> checkpoint_seq d \<and>
    int (place d) - int (place c) \<le> checkpoint_seq d - checkpoint_seq c \<and> checkpoint_fence c \<le> checkpoint_fence d"
  using moved_get [OF run_moved [OF assms(1,2)] assms(2,3)] by (auto simp: forward_def)

text \<open>Of two writers of one job that have seen the same sequence number one can write: when one has advanced the
  phase, whatever operations follow, an advance or a batch with that number raises and changes nothing.\<close>

lemma one_writer_per_sequence_number:
  assumes "checkpoint_inv t" "checkpoint_advance now job seq fence ph payload sha t = (Inr r, u)" "reaches checkpoint_step u ops v"
  shows "(\<exists>e. checkpoint_advance now' job seq fence' ph' payload' sha' v = (Inl e, v)) \<and> (\<exists>e. save_batch now' job seq fence' payload' v = (Inl e, v))"
proof -
  let ?p = "\<lambda>c. checkpoint_job c = job \<and> checkpoint_seq c = seq \<and> checkpoint_fence c = fence"
  have u: "u = snd (update_rows ?p (advance_row now ph (seq + 1) payload sha) t)" "length (filter ?p t) = 1"
    using assms(2) by (auto simp: checkpoint_advance_def cas_outcome_def update_rows_def split: if_splits option.splits sum.splits)
  obtain c where c: "c \<in> set t" "?p c" using one_row [OF u(2)] by blast
  let ?c = "advance_row now ph (seq + 1) payload sha c"
  have inv: "checkpoint_inv u" using advance_moved [OF assms(1)] assms(2) by (metis moved_def snd_conv)
  have "?c \<in> set u" using c unfolding u(1) by (auto simp: update_rows_def image_iff intro!: bexI [of _ c])
  moreover have "checkpoint_job ?c = job" "checkpoint_seq ?c = seq + 1" using c(2) by (simp_all add: advance_row_def Let_def split: option.split)
  ultimately have "checkpoint_get u job = Some ?c" using get_Some [OF inv] by blast
  from moved_get [OF run_moved [OF assms(3) inv] inv this] obtain d where d: "checkpoint_get v job = Some d" "checkpoint_seq ?c \<le> checkpoint_seq d"
    by (auto simp: forward_def)
  have "checkpoint_inv v" using run_moved [OF assms(3) inv] by (simp add: moved_def)
  then have "b = d" if "b \<in> set v" "checkpoint_job b = job" for b
    using that d(1) get_Some [of v job b] by auto
  then have "\<forall>b \<in> set v. checkpoint_job b = job \<longrightarrow> checkpoint_seq b \<noteq> seq \<or> checkpoint_fence b \<noteq> fence'"
    using d(2) \<open>checkpoint_seq ?c = seq + 1\<close> by fastforce
  from stale_write_raises [OF this] show ?thesis by blast
qed

text \<open>Once a fencing token has been claimed for a job, whatever operations follow, a holder of a lower token neither
  advances the phase nor saves a batch nor claims its token again.\<close>

lemma stale_token_never_writes:
  assumes "checkpoint_inv t" "claim_fencing now job token t = (Inr r, u)" "reaches checkpoint_step u ops v" "old < token"
  shows "(\<exists>e. checkpoint_advance now' job seq old ph payload sha v = (Inl e, v)) \<and> (\<exists>e. save_batch now' job seq old payload v = (Inl e, v)) \<and>
    (\<exists>e. claim_fencing now' job old v = (Inl e, v))"
proof -
  have all: "token \<le> checkpoint_fence b" if "b \<in> set v" "checkpoint_job b = job" for b
    using claimed_token_kept [OF assms(1-3)] get_Some [OF claimed_table_inv [OF assms(1-3)]] that by blast
  have "\<forall>b \<in> set v. checkpoint_job b = job \<longrightarrow> checkpoint_seq b \<noteq> seq \<or> checkpoint_fence b \<noteq> old" using all assms(4) by fastforce
  note stale = stale_write_raises [OF this]
  have "\<not> (checkpoint_job b = job \<and> checkpoint_fence b < old)" if "b \<in> set v" for b using all [OF that] assms(4) by linarith
  then have "update_rows (\<lambda>c. checkpoint_job c = job \<and> checkpoint_fence c < old) f v = (0, v)" for f
    by (auto simp: update_rows_def filter_empty_conv intro!: map_idI)
  then have "claim_fencing now' job old v = (Inl (ValueError ''STALE_IMPORT_FENCING''), v)" by (simp add: claim_fencing_def cas_outcome_def)
  with stale show ?thesis by blast
qed

text \<open>An advance that is given a hash stores it as the time of the update and the time as the hash.\<close>

lemma advance_with_hash_swaps_columns:
  "input_sha256 (advance_row now ph n payload (Some h) c) = now \<and> checkpoint_updated (advance_row now ph n payload (Some h) c) = h"
  by (simp add: advance_row_def Let_def)

section \<open>Examples\<close>

definition sample_checkpoints :: "string checkpoint list" where
  "sample_checkpoints = snd (checkpoint_create ''10:00'' ''j'' (Some 7) None ''h'' 5 ''p'' [])"

definition scan_created :: "string checkpoint list" where
  "scan_created = snd (checkpoint_advance ''10:01'' ''j'' 0 5 ''SCAN_CREATED'' ''p'' None sample_checkpoints)"

definition claimed :: "string checkpoint list" where
  "claimed = snd (claim_fencing ''10:02'' ''j'' 6 scan_created)"

lemma sample_run: "reaches checkpoint_step sample_checkpoints [(''10:01'', Advance ''j'' 0 5 ''SCAN_CREATED'' ''p'' None)] scan_created"
proof (rule reaches_Cons)
  show "checkpoint_step sample_checkpoints (''10:01'', Advance ''j'' 0 5 ''SCAN_CREATED'' ''p'' None) scan_created"
    using checkpoint_step.intros [of sample_checkpoints "''10:01''" "Advance ''j'' 0 5 ''SCAN_CREATED'' ''p'' None"] by (simp add: scan_created_def)
qed (rule reaches_refl)

theorem checkpoint_never_goes_back_witness:
  "\<exists>d. checkpoint_get scan_created ''j'' = Some d \<and> checkpoint_fence d \<ge> 5"
proof -
  have c: "checkpoint_inv sample_checkpoints" "checkpoint_get sample_checkpoints ''j'' = Some (hd sample_checkpoints)"
    "checkpoint_fence (hd sample_checkpoints) = 5" by code_simp+
  from checkpoint_never_goes_back [OF sample_run c(1,2)] c(3) show ?thesis by auto
qed

theorem one_writer_per_sequence_number_witness:
  "\<exists>e. checkpoint_advance ''10:03'' ''j'' 0 5 ''SCAN_CREATED'' ''q'' None scan_created = (Inl e, scan_created)"
proof -
  have c: "checkpoint_inv sample_checkpoints"
    "fst (checkpoint_advance ''10:01'' ''j'' 0 5 ''SCAN_CREATED'' ''p'' None sample_checkpoints) = Inr (Some (hd scan_created))" by code_simp+
  have "checkpoint_advance ''10:01'' ''j'' 0 5 ''SCAN_CREATED'' ''p'' None sample_checkpoints = (Inr (Some (hd scan_created)), scan_created)"
    by (rule prod_eqI) (simp_all only: c(2) scan_created_def fst_conv snd_conv)
  from one_writer_per_sequence_number [OF c(1) this reaches_refl] show ?thesis by blast
qed

theorem stale_token_never_writes_witness:
  "\<exists>e. checkpoint_advance ''10:03'' ''j'' 1 5 ''INFO_STAGED'' ''q'' None claimed = (Inl e, claimed)"
proof -
  have c: "checkpoint_inv scan_created" "fst (claim_fencing ''10:02'' ''j'' 6 scan_created) = Inr (Some (hd claimed))" by code_simp+
  have "claim_fencing ''10:02'' ''j'' 6 scan_created = (Inr (Some (hd claimed)), claimed)"
    by (rule prod_eqI) (simp_all only: c(2) claimed_def fst_conv snd_conv)
  from stale_token_never_writes [OF c(1) this reaches_refl, of 5] show ?thesis by simp
qed

end
