(* ===== verification/ScanImport.thy ===== *)
theory ScanImport
  imports Publication JobTable ImportLocks Checkpoints
begin

text \<open>
  The import of a scan, \<open>app/scan_import/coordinator.py\<close>: the fences, the phases, the ingestion of the coverage in
  batches with its restart, sealing and publishing. It composes the locks, the checkpoints, the job table, the facts of
  scans and the publication. A transaction keeps the database as it was when its body or its commit raises, as
  \<open>Transactions\<close> shows; whether a commit raises is given for each batch.

  Shown: an import that was interrupted any number of times, at any batch and by any error, holds at every moment exactly
  the facts of the batches its checkpoint counts, and when it is through, the facts of an uninterrupted one; a scan is
  published only out of the sealed phase of a job with valid fences, and at most once; a job whose locks
  were taken over passes the fences nevertheless.
\<close>

section \<open>State\<close>

text \<open>The dictionary that a checkpoint carries; a key may be missing.\<close>

record phase_payload =
  pp_scan :: "int option"
  pp_batch_size :: "nat option"
  pp_max_lines :: "nat option"
  pp_max_bytes :: "nat option"
  pp_batch_seq :: "nat option"
  pp_last_identity :: "file_identity option"
  pp_processed_files :: "nat option"
  pp_processed_lines :: "nat option"
  pp_fence :: "int option"
  pp_file_count :: "nat option"
  pp_line_count :: "nat option"
  pp_fallback_files :: "nat option"
  pp_coverage_status :: "string option"
  pp_read_set :: read_set
  pp_consistency :: "string option"

definition empty_payload :: phase_payload where
  "empty_payload = \<lparr>pp_scan = None, pp_batch_size = None, pp_max_lines = None, pp_max_bytes = None, pp_batch_seq = None, pp_last_identity = None,
     pp_processed_files = None, pp_processed_lines = None, pp_fence = None, pp_file_count = None, pp_line_count = None, pp_fallback_files = None,
     pp_coverage_status = None, pp_read_set = NoReadSet, pp_consistency = None\<rparr>"

record failure_row =
  fr_job :: string
  fr_scan :: "int option"
  fr_phase :: string
  fr_class :: string
  fr_fingerprint :: string
  fr_message :: string
  fr_fence :: "int option"
  fr_at :: string

record 'x import_db =
  db_facts :: scan_db
  db_review :: "'x database"
  db_jobs :: job_table
  db_locks :: lock_state
  db_checkpoints :: "phase_payload checkpoint list"
  db_failures :: "failure_row list"

text \<open>A moment: seconds for the leases, and the text that is stored.\<close>

record moment =
  seconds :: rat
  stamp :: string

definition on_facts :: "(scan_db, 'a) action \<Rightarrow> ('x import_db, 'a) action" where
  "on_facts m d = (case m (db_facts d) of (out, f) \<Rightarrow> (out, d\<lparr>db_facts := f\<rparr>))"

definition on_checkpoints :: "(phase_payload checkpoint list, 'a) action \<Rightarrow> ('x import_db, 'a) action" where
  "on_checkpoints m d = (case m (db_checkpoints d) of (out, c) \<Rightarrow> (out, d\<lparr>db_checkpoints := c\<rparr>))"

definition in_transaction :: "py_error option \<Rightarrow> ('x import_db, 'a) action \<Rightarrow> ('x import_db, 'a) action" where
  "in_transaction failure m d =
     (case m d of (Inl e, t) \<Rightarrow> (Inl e, d)
      | (Inr x, t) \<Rightarrow> (case failure of Some e \<Rightarrow> (Inl e, d) | None \<Rightarrow> (Inr x, t)))"

section \<open>Fences and phases\<close>

definition locks_for_job :: "string \<Rightarrow> 'x import_db \<Rightarrow> lock_row list" where
  "locks_for_job job d = sort_key physical_resource_id (filter (\<lambda>l. lock_job l = job) (lock_rows (db_locks d)))"

definition assert_all_fences :: "rat \<Rightarrow> string \<Rightarrow> string \<Rightarrow> int \<Rightarrow> phase_payload checkpoint \<Rightarrow> 'x import_db \<Rightarrow> unit result" where
  "assert_all_fences now job owner fence c d =
     (if checkpoint_fence c \<noteq> 0 \<and> fence \<noteq> checkpoint_fence c then Inl (ValueError ''LOCK_FENCING_FAILED'')
      else rbind (rmap (\<lambda>l. assert_fence now (physical_resource_id l) job owner (fencing_token l) (db_locks d)) (locks_for_job job d)) (\<lambda>rows. Inr ()))"

definition the_checkpoint :: "string \<Rightarrow> 'x import_db \<Rightarrow> phase_payload checkpoint result" where
  "the_checkpoint job d = (case checkpoint_get (db_checkpoints d) job of None \<Rightarrow> Inl (KeyError ''import checkpoint not found'') | Some c \<Rightarrow> Inr c)"

definition phase_before :: "phase_payload checkpoint \<Rightarrow> string \<Rightarrow> bool result" where
  "phase_before c target = rbind (phase_index (if phase c = [] then ''LOCKED'' else phase c)) (\<lambda>i. rbind (phase_index target) (\<lambda>j. Inr (i < j)))"

definition run_phase_operation ::
  "moment \<Rightarrow> string \<Rightarrow> string \<Rightarrow> int \<Rightarrow> string \<Rightarrow> ('x import_db, phase_payload) action \<Rightarrow> ('x import_db, phase_payload checkpoint option) action" where
  "run_phase_operation now job owner fence target operation d = in_transaction None (\<lambda>d.
     case the_checkpoint job d of
       Inl e \<Rightarrow> (Inl e, d)
     | Inr c \<Rightarrow>
         (case phase_before c target of
            Inl e \<Rightarrow> (Inl e, d)
          | Inr before \<Rightarrow>
              if \<not> before then (Inr (Some c), d)
              else case rbind (phase_index (if phase c = [] then ''LOCKED'' else phase c)) (\<lambda>i. rbind (phase_index target) (\<lambda>j. Inr (i + 1 = j))) of
                Inl e \<Rightarrow> (Inl e, d)
              | Inr next \<Rightarrow>
                  if \<not> next then (Inl (ValueError ''IMPORT_PHASE_SKIP''), d)
                  else case assert_all_fences (seconds now) job owner fence c d of
                    Inl e \<Rightarrow> (Inl e, d)
                  | Inr u \<Rightarrow> act_bind operation (\<lambda>p.
                      on_checkpoints (checkpoint_advance (stamp now) job (checkpoint_seq c) fence target p None)) d)) d"

section \<open>Batches of coverage\<close>

record import_config =
  cfg_file_batch_size :: int
  cfg_max_lines :: int
  cfg_max_bytes :: int

text \<open>The limits of a run: the configured ones, but no limit on lines and bytes when a checkpoint from before these limits is
  resumed; limits that differ from the recorded ones are refused.\<close>

definition batch_policy :: "import_config \<Rightarrow> phase_payload \<Rightarrow> (nat \<times> nat \<times> nat) result" where
  "batch_policy cfg p =
     (let mf = nat (max 1 (cfg_file_batch_size cfg)); ml = nat (max 0 (cfg_max_lines cfg)); mb = nat (max 0 (cfg_max_bytes cfg));
          present = pp_max_lines p \<noteq> None \<or> pp_max_bytes p \<noteq> None in
      if opt_count (pp_batch_size p) \<noteq> 0 \<and> opt_count (pp_batch_size p) \<noteq> mf then Inl (ValueError ''COVERAGE_IMPORT_BATCH_SIZE_CHANGED'')
      else if present \<and> (opt_count (pp_max_lines p) \<noteq> ml \<or> opt_count (pp_max_bytes p) \<noteq> mb) then Inl (ValueError ''COVERAGE_IMPORT_BATCH_POLICY_CHANGED'')
      else if opt_count (pp_batch_seq p) \<noteq> 0 \<and> \<not> present then Inr (mf, 0, 0)
      else Inr (mf, ml, mb))"

definition with_policy :: "nat \<times> nat \<times> nat \<Rightarrow> int \<Rightarrow> phase_payload \<Rightarrow> phase_payload" where
  "with_policy = (\<lambda>(mf, ml, mb) fence p. p\<lparr>pp_batch_size := Some mf, pp_max_lines := Some ml, pp_max_bytes := Some mb, pp_fence := Some fence\<rparr>)"

text \<open>What an attempt to import is given: who it is for, the moment and the outcome of the commit of each batch.\<close>

record import_env =
  env_hash :: "string \<Rightarrow> string \<Rightarrow> string"
  env_scan :: int
  env_job :: string
  env_owner :: string
  env_fence :: int
  env_now :: "nat \<Rightarrow> moment"
  env_commit_error :: "nat \<Rightarrow> py_error option"

definition batch_payload :: "import_env \<Rightarrow> nat \<Rightarrow> nat \<Rightarrow> nat \<Rightarrow> batch_result \<Rightarrow> phase_payload \<Rightarrow> phase_payload" where
  "batch_payload env seq file_sum line_sum r p = p\<lparr>pp_batch_seq := Some seq, pp_last_identity := last_file_identity r,
     pp_processed_files := Some (file_sum + result_files r), pp_processed_lines := Some (line_sum + result_lines r), pp_fence := Some (env_fence env)\<rparr>"

text \<open>The body of the transaction of one batch. The code retries it after a deadlock; a retry starts from the same database, so
  that the outcome is the one of the last attempt (\<open>Transactions\<close>), whose commit is the one given.\<close>

definition ingest_body ::
  "import_env \<Rightarrow> nat \<Rightarrow> nat \<Rightarrow> nat \<Rightarrow> phase_payload \<Rightarrow> coverage_chunk list \<Rightarrow> ('x import_db, batch_result) action" where
  "ingest_body env seq file_sum line_sum p batch d =
     (case the_checkpoint (env_job env) d of
        Inl e \<Rightarrow> (Inl e, d)
      | Inr c \<Rightarrow>
          if phase c \<noteq> ''INFO_STAGED'' then (Inl (ValueError ''STALE_IMPORT_CHECKPOINT''), d)
          else case assert_all_fences (seconds (env_now env seq)) (env_job env) (env_owner env) (env_fence env) c d of
            Inl e \<Rightarrow> (Inl e, d)
          | Inr u \<Rightarrow>
              if seq \<noteq> opt_count (pp_batch_seq (checkpoint_payload c)) + 1 then (Inl (ValueError ''COVERAGE_IMPORT_BATCH_SEQUENCE''), d)
              else act_bind (on_facts (ingest_file_batch (env_hash env) (env_scan env) LINE_INGEST_BATCH_SIZE batch)) (\<lambda>r.
                act_bind (on_checkpoints (save_batch (stamp (env_now env seq)) (env_job env) (checkpoint_seq c) (env_fence env)
                    (batch_payload env seq file_sum line_sum r p)))
                  (\<lambda>row. act_return r)) d)"

fun ingest_loop ::
  "import_env \<Rightarrow> nat \<Rightarrow> nat \<Rightarrow> nat \<Rightarrow> nat \<Rightarrow> phase_payload \<Rightarrow> coverage_chunk list list \<Rightarrow> ('x import_db, nat \<times> nat \<times> phase_payload) action" where
  "ingest_loop env completed seq file_sum line_sum p [] d = (Inr (file_sum, line_sum, p), d)"
| "ingest_loop env completed seq file_sum line_sum p (b # bs) d =
     (if seq + 1 \<le> completed
      then let r = consume_coverage_batch (env_hash env) b in
        ingest_loop env completed (seq + 1) file_sum line_sum
          (p\<lparr>pp_batch_seq := Some (seq + 1), pp_last_identity := last_file_identity r, pp_processed_files := Some file_sum,
             pp_processed_lines := Some line_sum, pp_fence := Some (env_fence env)\<rparr>) bs d
      else act_bind (in_transaction (env_commit_error env (seq + 1)) (ingest_body env (seq + 1) file_sum line_sum p b))
        (\<lambda>r. ingest_loop env completed (seq + 1) (file_sum + result_files r) (line_sum + result_lines r)
           (batch_payload env (seq + 1) file_sum line_sum r p) bs) d)"

definition stored_counts :: "int \<Rightarrow> scan_db \<Rightarrow> nat \<times> nat" where
  "stored_counts scan fd = (let fs = filter (\<lambda>f. fl_scan f = scan) (files fd) in
     (length fs, length (filter (\<lambda>l. ln_file l \<in> set (map fl_id fs)) (line_facts fd))))"

definition finalize_coverage :: "import_env \<Rightarrow> moment \<Rightarrow> import_stats \<Rightarrow> phase_payload \<Rightarrow> ('x import_db, phase_payload) action" where
  "finalize_coverage env now st p d =
     (case the_checkpoint (env_job env) d of
        Inl e \<Rightarrow> (Inl e, d)
      | Inr c \<Rightarrow>
          (case assert_all_fences (seconds now) (env_job env) (env_owner env) (env_fence env) c d of
             Inl e \<Rightarrow> (Inl e, d)
           | Inr u \<Rightarrow>
               if stored_counts (env_scan env) (db_facts d) \<noteq> (stat_files st, stat_line_count st) then (Inl (ValueError ''COVERAGE_IMPORT_COUNT_MISMATCH''), d)
               else (Inr (p\<lparr>pp_coverage_status := Some ''COMPLETED''\<rparr>), d)))"

definition ingest_coverage_in_batches ::
  "import_env \<Rightarrow> import_config \<Rightarrow> moment \<Rightarrow> coverage_item stream \<Rightarrow> import_stats \<Rightarrow> phase_payload \<Rightarrow> ('x import_db, phase_payload checkpoint option) action" where
  "ingest_coverage_in_batches env cfg now items st p d =
     (case batch_policy cfg p of
        Inl e \<Rightarrow> (Inl e, d)
      | Inr (mf, ml, mb) \<Rightarrow>
          (case iter_coverage_batches mf ml mb items of
             (bs, raised) \<Rightarrow>
               act_bind (ingest_loop env (opt_count (pp_batch_seq p)) 0 (opt_count (pp_processed_files p)) (opt_count (pp_processed_lines p))
                   (with_policy (mf, ml, mb) (env_fence env) p) bs)
                 (\<lambda>(file_sum, line_sum, q).
                    case raised of
                      Some e \<Rightarrow> act_raise e
                    | None \<Rightarrow>
                        if file_sum \<noteq> stat_files st \<or> line_sum \<noteq> stat_line_count st then act_raise (ValueError ''COVERAGE_IMPORT_INPUT_COUNT_MISMATCH'')
                        else run_phase_operation now (env_job env) (env_owner env) (env_fence env) ''COVERAGE_IMPORTED''
                          (finalize_coverage env now st (q\<lparr>pp_file_count := Some (stat_files st), pp_line_count := Some (stat_line_count st),
                             pp_fallback_files := Some (stat_fallback_files st)\<rparr>))) d))"

text \<open>The coverage phase of \<open>_execute_bound\<close>: skipped when it is done, else started with the payload of the checkpoint.\<close>

definition coverage_phase ::
  "import_env \<Rightarrow> import_config \<Rightarrow> moment \<Rightarrow> coverage_item stream \<Rightarrow> import_stats \<Rightarrow> ('x import_db, phase_payload checkpoint option) action" where
  "coverage_phase env cfg now items st d =
     (case the_checkpoint (env_job env) d of
        Inl e \<Rightarrow> (Inl e, d)
      | Inr c \<Rightarrow>
          (case phase_before c ''COVERAGE_IMPORTED'' of
             Inl e \<Rightarrow> (Inl e, d)
           | Inr before \<Rightarrow>
               if \<not> before then (Inr (Some c), d)
               else ingest_coverage_in_batches env cfg now items st
                 ((checkpoint_payload c)\<lparr>pp_scan := Some (env_scan env), pp_file_count := Some 0, pp_line_count := Some 0, pp_fallback_files := Some 0\<rparr>) d))"

section \<open>Committed batches\<close>

text \<open>All batches one after the other, with their results.\<close>

fun ingest_all :: "(string \<Rightarrow> string \<Rightarrow> string) \<Rightarrow> int \<Rightarrow> coverage_chunk list list \<Rightarrow> (scan_db, batch_result list) action" where
  "ingest_all h scan [] fd = (Inr [], fd)"
| "ingest_all h scan (b # bs) fd = act_bind (ingest_file_batch h scan LINE_INGEST_BATCH_SIZE b) (\<lambda>r. act_bind (ingest_all h scan bs) (\<lambda>rs. act_return (r # rs))) fd"

lemma ingest_all_append:
  "ingest_all h scan (as @ bs) fd = act_bind (ingest_all h scan as) (\<lambda>rs. act_bind (ingest_all h scan bs) (\<lambda>ss. act_return (rs @ ss))) fd"
proof (induction as arbitrary: fd)
  case Nil
  then show ?case by (auto simp: act_bind_def split: prod.splits sum.splits)
next
  case (Cons a as)
  show ?case by (auto simp: act_bind_def Cons split: prod.splits sum.splits)
qed

text \<open>The checkpoint of the job counts \<open>k\<close> batches and their files and lines, and the facts are those of these batches.\<close>

definition counts_prefix ::
  "(string \<Rightarrow> string \<Rightarrow> string) \<Rightarrow> int \<Rightarrow> string \<Rightarrow> coverage_chunk list list \<Rightarrow> scan_db \<Rightarrow> nat \<Rightarrow> 'x import_db \<Rightarrow> bool" where
  "counts_prefix h scan job bs fd0 k d \<longleftrightarrow> k \<le> length bs \<and> checkpoint_inv (db_checkpoints d) \<and>
     (\<exists>c rs. checkpoint_get (db_checkpoints d) job = Some c \<and> opt_count (pp_batch_seq (checkpoint_payload c)) = k \<and>
        ingest_all h scan (take k bs) fd0 = (Inr rs, db_facts d) \<and>
        opt_count (pp_processed_files (checkpoint_payload c)) = sum_list (map result_files rs) \<and>
        opt_count (pp_processed_lines (checkpoint_payload c)) = sum_list (map result_lines rs))"

lemma in_transaction_cases:
  assumes "in_transaction failure m d = (out, t)"
  obtains (kept) e where "out = Inl e" "t = d" | (committed) x where "m d = (Inr x, t)" "out = Inr x"
  using assms by (auto simp: in_transaction_def split: prod.splits sum.splits option.splits)

lemma cas_updates:
  assumes "checkpoint_inv t" "checkpoint_get t job = Some c" "length (filter p t) = 1" "\<And>b. p b \<Longrightarrow> checkpoint_job b = job"
    "u = snd (update_rows p f t)" "checkpoint_inv u" "checkpoint_job (f c) = job"
  shows "checkpoint_get u job = Some (f c)"
proof -
  obtain b where b: "b \<in> set t" "p b" using one_row [OF assms(3)] by blast
  then have "b = c" using get_Some [OF assms(1), of job b] assms(2,4) by simp
  then have "f c \<in> set u" using b by (auto simp: assms(5) update_rows_def image_iff intro!: bexI [of _ c])
  then show ?thesis using get_Some [OF assms(6)] assms(7) by simp
qed

lemma save_batch_ok:
  assumes "checkpoint_inv t" "checkpoint_get t job = Some c" "save_batch now job (checkpoint_seq c) fence p t = (Inr r, u)"
  shows "checkpoint_inv u \<and> (\<exists>c'. checkpoint_get u job = Some c' \<and> checkpoint_payload c' = p \<and> phase c' = ''INFO_STAGED'')"
proof -
  let ?p = "\<lambda>c'. checkpoint_job c' = job \<and> phase c' = ''INFO_STAGED'' \<and> checkpoint_seq c' = checkpoint_seq c \<and> checkpoint_fence c' = fence"
    and ?f = "\<lambda>c'. c'\<lparr>checkpoint_seq := checkpoint_seq c + 1, checkpoint_payload := p, checkpoint_updated := now\<rparr>"
  have u: "length (filter ?p t) = 1" "u = snd (update_rows ?p ?f t)" "phase c = ''INFO_STAGED''"
    using assms(2,3) by (auto simp: save_batch_def cas_outcome_def update_rows_def split: if_splits)
  have inv: "checkpoint_inv u" using checkpoint_op_moved [OF assms(1), of now "SaveBatch job (checkpoint_seq c) fence p"] assms(3) by (simp add: moved_def)
  have "checkpoint_get u job = Some (?f c)"
    by (rule cas_updates [OF assms(1,2) u(1) _ u(2) inv]) (use assms(1,2) get_Some in auto)
  then show ?thesis using inv u(3) by auto
qed

lemma advance_ok:
  assumes "checkpoint_inv t" "checkpoint_get t job = Some c" "checkpoint_advance now job seq fence ph p None t = (Inr r, u)"
  shows "checkpoint_inv u \<and> (\<exists>c'. checkpoint_get u job = Some c' \<and> checkpoint_payload c' = p \<and> phase c' = ph \<and> checkpoint_scan c' = checkpoint_scan c)"
proof -
  let ?p = "\<lambda>c'. checkpoint_job c' = job \<and> checkpoint_seq c' = seq \<and> checkpoint_fence c' = fence" and ?f = "advance_row now ph (seq + 1) p None"
  have u: "length (filter ?p t) = 1" "u = snd (update_rows ?p ?f t)"
    using assms(2,3) by (auto simp: checkpoint_advance_def cas_outcome_def update_rows_def split: if_splits sum.splits)
  have inv: "checkpoint_inv u" using advance_moved [OF assms(1)] assms(3) by (metis moved_def snd_conv)
  have "checkpoint_get u job = Some (?f c)"
    by (rule cas_updates [OF assms(1,2) u(1) _ u(2) inv]) (use assms(1,2) get_Some in \<open>auto simp: advance_row_def Let_def\<close>)
  then show ?thesis using inv by (auto simp: advance_row_def Let_def)
qed

lemma ingest_body_ok:
  assumes "ingest_body env seq f l p b d = (Inr r, t)" "checkpoint_inv (db_checkpoints d)"
  shows "\<exists>c c' fd. checkpoint_get (db_checkpoints d) (env_job env) = Some c \<and> phase c = ''INFO_STAGED'' \<and> seq = opt_count (pp_batch_seq (checkpoint_payload c)) + 1 \<and>
    ingest_file_batch (env_hash env) (env_scan env) LINE_INGEST_BATCH_SIZE b (db_facts d) = (Inr r, fd) \<and> db_facts t = fd \<and>
    checkpoint_inv (db_checkpoints t) \<and> checkpoint_get (db_checkpoints t) (env_job env) = Some c' \<and> phase c' = ''INFO_STAGED'' \<and>
    checkpoint_payload c' = batch_payload env seq f l r p"
proof -
  from assms(1) obtain c fd row cs where c: "checkpoint_get (db_checkpoints d) (env_job env) = Some c" "phase c = ''INFO_STAGED''"
    "seq = opt_count (pp_batch_seq (checkpoint_payload c)) + 1"
    "ingest_file_batch (env_hash env) (env_scan env) LINE_INGEST_BATCH_SIZE b (db_facts d) = (Inr r, fd)"
    "save_batch (stamp (env_now env seq)) (env_job env) (checkpoint_seq c) (env_fence env) (batch_payload env seq f l r p) (db_checkpoints d) = (Inr row, cs)"
    "t = d\<lparr>db_facts := fd, db_checkpoints := cs\<rparr>"
    by (auto simp: ingest_body_def the_checkpoint_def on_facts_def on_checkpoints_def act_bind_Inr split: option.splits sum.splits if_splits prod.splits)
  from save_batch_ok [OF assms(2) c(1,5)] c show ?thesis by auto
qed

section \<open>The loop\<close>

definition limits :: "import_config \<Rightarrow> nat \<times> nat \<times> nat" where
  "limits cfg = (nat (max 1 (cfg_file_batch_size cfg)), nat (max 0 (cfg_max_lines cfg)), nat (max 0 (cfg_max_bytes cfg)))"

definition has_policy :: "nat \<times> nat \<times> nat \<Rightarrow> phase_payload \<Rightarrow> bool" where
  "has_policy = (\<lambda>(mf, ml, mb) p. pp_batch_size p = Some mf \<and> pp_max_lines p = Some ml \<and> pp_max_bytes p = Some mb)"

definition has_counts :: "nat \<Rightarrow> nat \<Rightarrow> nat \<Rightarrow> phase_payload \<Rightarrow> bool" where
  "has_counts k f l p \<longleftrightarrow> opt_count (pp_batch_seq p) = k \<and> opt_count (pp_processed_files p) = f \<and> opt_count (pp_processed_lines p) = l"

lemma policy_again: "has_policy (limits cfg) p \<Longrightarrow> batch_policy cfg p = Inr (limits cfg)"
  by (simp add: has_policy_def limits_def batch_policy_def opt_count_def Let_def)

lemma policy_fresh: "has_policy (limits cfg) (with_policy (limits cfg) fence p)" "has_counts k f l (with_policy x fence p) = has_counts k f l p"
  by (cases x, simp_all add: has_policy_def with_policy_def limits_def has_counts_def split: prod.split)

lemma batch_payload_policy [simp]: "has_policy pol (batch_payload env k f l r p) = has_policy pol p"
  "has_counts (k' ) f' l' (batch_payload env k f l r p) \<longleftrightarrow> k' = k \<and> f' = f + result_files r \<and> l' = l + result_lines r"
  by (cases pol, auto simp: has_policy_def batch_payload_def has_counts_def opt_count_def)

lemma ingest_loop_replay:
  assumes "seq + length as = completed" "has_policy pol p" "as = [] \<longrightarrow> has_counts completed f l p"
  shows "\<exists>q. ingest_loop env completed seq f l p (as @ bs) d = ingest_loop env completed completed f l q bs d \<and> has_policy pol q \<and> has_counts completed f l q"
  using assms
proof (induction as arbitrary: seq p)
  case (Cons a as)
  let ?q = "p\<lparr>pp_batch_seq := Some (seq + 1), pp_last_identity := last_file_identity (consume_coverage_batch (env_hash env) a),
     pp_processed_files := Some f, pp_processed_lines := Some l, pp_fence := Some (env_fence env)\<rparr>"
  have step: "ingest_loop env completed seq f l p ((a # as) @ bs) d = ingest_loop env completed (seq + 1) f l ?q (as @ bs) d"
    using Cons.prems(1) by (simp add: Let_def)
  have "has_policy pol ?q" "as = [] \<longrightarrow> has_counts completed f l ?q"
    using Cons.prems(1,2) by (auto simp: has_policy_def has_counts_def opt_count_def split: prod.splits)
  then show ?case unfolding step using Cons.prems(1) by (intro Cons.IH) auto
qed auto

lemma counts_prefix_next:
  assumes "counts_prefix h scan job bs fd0 k d" "k < length bs" "checkpoint_get (db_checkpoints d) job = Some c"
    "ingest_file_batch h scan LINE_INGEST_BATCH_SIZE (bs ! k) (db_facts d) = (Inr r, db_facts t)" "checkpoint_inv (db_checkpoints t)"
    "checkpoint_get (db_checkpoints t) job = Some c'" "has_counts (k + 1) (opt_count (pp_processed_files (checkpoint_payload c)) + result_files r)
       (opt_count (pp_processed_lines (checkpoint_payload c)) + result_lines r) (checkpoint_payload c')"
  shows "counts_prefix h scan job bs fd0 (k + 1) t"
proof -
  from assms(1,3) obtain rs where rs: "ingest_all h scan (take k bs) fd0 = (Inr rs, db_facts d)"
    "opt_count (pp_processed_files (checkpoint_payload c)) = sum_list (map result_files rs)"
    "opt_count (pp_processed_lines (checkpoint_payload c)) = sum_list (map result_lines rs)" by (auto simp: counts_prefix_def)
  have "ingest_all h scan (take (k + 1) bs) fd0 = (Inr (rs @ [r]), db_facts t)"
    using assms(2,4) rs(1) by (simp add: take_Suc_conv_app_nth ingest_all_append act_bind_def)
  then show ?thesis using assms(2,5,6,7) rs(2,3) by (auto simp: counts_prefix_def has_counts_def intro!: exI [of _ "rs @ [r]"])
qed

lemma ingest_loop_fresh:
  assumes "bs = drop seq all_bs" "completed \<le> seq" "seq \<le> length all_bs" "has_policy pol p" "has_counts seq f l p"
    "counts_prefix (env_hash env) (env_scan env) (env_job env) all_bs fd0 seq d" "checkpoint_get (db_checkpoints d) (env_job env) = Some c"
    "phase c = ''INFO_STAGED''" "has_counts seq f l (checkpoint_payload c)" "ingest_loop env completed seq f l p bs d = (out, t)"
  shows "\<exists>k c'. counts_prefix (env_hash env) (env_scan env) (env_job env) all_bs fd0 k t \<and> checkpoint_get (db_checkpoints t) (env_job env) = Some c' \<and>
    phase c' = ''INFO_STAGED'' \<and> (c' = c \<or> has_policy pol (checkpoint_payload c')) \<and>
    (case out of Inl e \<Rightarrow> True | Inr (f', l', q) \<Rightarrow> k = length all_bs \<and> has_counts k f' l' (checkpoint_payload c') \<and> has_counts k f' l' q)"
  using assms
proof (induction bs arbitrary: seq f l p c d)
  case Nil
  then show ?case by (intro exI [of _ seq] exI [of _ c]) auto
next
  case (Cons b bs)
  have "seq < length all_bs" using Cons.prems(1) by (metis drop_all list.distinct(1) not_le)
  moreover have "drop seq all_bs = all_bs ! seq # drop (Suc seq) all_bs" using Cons_nth_drop_Suc [OF calculation] by simp
  ultimately have seq: "seq < length all_bs" "b = all_bs ! seq" "bs = drop (seq + 1) all_bs" using Cons.prems(1) by simp_all
  from Cons.prems(2,10) have "act_bind (in_transaction (env_commit_error env (seq + 1)) (ingest_body env (seq + 1) f l p b))
        (\<lambda>r. ingest_loop env completed (seq + 1) (f + result_files r) (l + result_lines r) (batch_payload env (seq + 1) f l r p) bs) d = (out, t)" by simp
  then show ?case
  proof (cases rule: act_bind_cases)
    case (raised e)
    then have "t = d" "\<exists>e. out = Inl e" by (auto elim: in_transaction_cases)
    then show ?thesis using Cons.prems(6-9) by (intro exI [of _ seq] exI [of _ c]) auto
  next
    case (passed r d1)
    from passed(1) have "ingest_body env (seq + 1) f l p b d = (Inr r, d1)" by (auto elim: in_transaction_cases)
    moreover have "checkpoint_inv (db_checkpoints d)" using Cons.prems(6) by (simp add: counts_prefix_def)
    ultimately obtain c1 where c1:
      "ingest_file_batch (env_hash env) (env_scan env) LINE_INGEST_BATCH_SIZE b (db_facts d) = (Inr r, db_facts d1)" "checkpoint_inv (db_checkpoints d1)"
      "checkpoint_get (db_checkpoints d1) (env_job env) = Some c1" "phase c1 = ''INFO_STAGED''" "checkpoint_payload c1 = batch_payload env (seq + 1) f l r p"
      using ingest_body_ok by blast
    have n: "has_counts (seq + 1) (f + result_files r) (l + result_lines r) (checkpoint_payload c1)" by (simp add: c1(5))
    then have "counts_prefix (env_hash env) (env_scan env) (env_job env) all_bs fd0 (seq + 1) d1"
      using Cons.prems(9) c1(1-3) seq(2) by (intro counts_prefix_next [OF Cons.prems(6) seq(1) Cons.prems(7)]) (auto simp: has_counts_def)
    from Cons.IH [OF seq(3) _ _ _ _ this c1(3,4) n passed(2)] Cons.prems(2,4) seq(1) obtain k c' where
      "counts_prefix (env_hash env) (env_scan env) (env_job env) all_bs fd0 k t" "checkpoint_get (db_checkpoints t) (env_job env) = Some c'"
      "phase c' = ''INFO_STAGED''" "c' = c1 \<or> has_policy pol (checkpoint_payload c')"
      "case out of Inl e \<Rightarrow> True | Inr (f', l', q) \<Rightarrow> k = length all_bs \<and> has_counts k f' l' (checkpoint_payload c') \<and> has_counts k f' l' q" by auto
    moreover have "has_policy pol (checkpoint_payload c1)" using Cons.prems(4) by (simp add: c1(5))
    ultimately show ?thesis by blast
  qed
qed

section \<open>Attempts\<close>

definition import_inv :: "(string \<Rightarrow> string \<Rightarrow> string) \<Rightarrow> int \<Rightarrow> string \<Rightarrow> import_config \<Rightarrow> coverage_chunk list list \<Rightarrow> scan_db \<Rightarrow> 'x import_db \<Rightarrow> bool" where
  "import_inv h scan job cfg bs fd0 d \<longleftrightarrow> (\<exists>k c. counts_prefix h scan job bs fd0 k d \<and> checkpoint_get (db_checkpoints d) job = Some c \<and>
     (phase c = ''INFO_STAGED'' \<and> batch_policy cfg (checkpoint_payload c) = Inr (limits cfg) \<or> place c \<ge> 3 \<and> k = length bs))"

lemma phase_indices: "phase_index ''INFO_STAGED'' = Inr 2" "phase_index ''COVERAGE_IMPORTED'' = Inr 3"
  by (simp_all add: phase_index_def PHASES_def)

lemma phase_index_place: "checkpoint_inv t \<Longrightarrow> checkpoint_get t job = Some c \<Longrightarrow> phase_index (phase c) = Inr (place c) \<and> phase c \<noteq> []"
  using get_Some [of t job c] by (auto simp: checkpoint_inv_def list_all_iff phase_index_def place_def PHASES_def)

lemma on_checkpoints_Inr: "on_checkpoints m d = (Inr x, t) \<longleftrightarrow> (\<exists>cs. m (db_checkpoints d) = (Inr x, cs) \<and> t = d\<lparr>db_checkpoints := cs\<rparr>)"
  by (auto simp: on_checkpoints_def split: prod.splits)

lemma run_phase_ok:
  assumes "run_phase_operation now job owner fence ''COVERAGE_IMPORTED'' op d = (Inr r, t)" "checkpoint_get (db_checkpoints d) job = Some c" "phase c = ''INFO_STAGED''"
  shows "\<exists>p d1 cs. op d = (Inr p, d1) \<and> assert_all_fences (seconds now) job owner fence c d = Inr () \<and>
    checkpoint_advance (stamp now) job (checkpoint_seq c) fence ''COVERAGE_IMPORTED'' p None (db_checkpoints d1) = (Inr r, cs) \<and> t = d1\<lparr>db_checkpoints := cs\<rparr>"
  using assms(1)
  by (auto simp: run_phase_operation_def the_checkpoint_def assms(2,3) phase_before_def phase_indices act_bind_Inr on_checkpoints_Inr
    elim!: in_transaction_cases split: sum.splits)

lemma finalize_ok: "finalize_coverage env now st p d = (Inr q, t) \<Longrightarrow> t = d \<and> q = p\<lparr>pp_coverage_status := Some ''COMPLETED''\<rparr>"
  by (auto simp: finalize_coverage_def split: sum.splits if_splits)

lemma phase_kept: "run_phase_operation now job owner fence target op d = (Inl e, t) \<Longrightarrow> t = d"
  unfolding run_phase_operation_def by (auto elim: in_transaction_cases)

lemma ingest_in_batches_inv:
  assumes "env_hash env = h" "env_scan env = scan" "env_job env = job" "limits cfg = (mf, ml, mb)" "fst (iter_coverage_batches mf ml mb items) = bs"
    "counts_prefix h scan job bs fd0 k d" "checkpoint_get (db_checkpoints d) job = Some c" "phase c = ''INFO_STAGED''"
    "batch_policy cfg (checkpoint_payload c) = Inr (limits cfg)" "batch_policy cfg p = Inr (limits cfg)" "has_counts k f l p" "has_counts k f l (checkpoint_payload c)"
    "ingest_coverage_in_batches env cfg now items st p d = (out, t)"
  shows "import_inv h scan job cfg bs fd0 t"
proof -
  obtain x where b: "iter_coverage_batches mf ml mb items = (bs, x)" using assms(5) by (metis fst_conv surj_pair)
  have k: "k \<le> length bs" using assms(6) by (simp add: counts_prefix_def)
  let ?p = "with_policy (mf, ml, mb) (env_fence env) p"
  have pol: "has_policy (limits cfg) ?p" "has_counts k f l ?p" using policy_fresh(1) [of cfg "env_fence env" p] policy_fresh(2) assms(4,11) by auto
  obtain o1 t1 where loop: "ingest_loop env k 0 f l ?p bs d = (o1, t1)" by fastforce
  have "\<exists>q. ingest_loop env k 0 f l ?p (take k bs @ drop k bs) d = ingest_loop env k k f l q (drop k bs) d \<and> has_policy (limits cfg) q \<and> has_counts k f l q"
    by (rule ingest_loop_replay) (use k pol in auto)
  with loop obtain q where q: "ingest_loop env k k f l q (drop k bs) d = (o1, t1)" "has_policy (limits cfg) q" "has_counts k f l q" by auto
  have "counts_prefix (env_hash env) (env_scan env) (env_job env) bs fd0 k d" "checkpoint_get (db_checkpoints d) (env_job env) = Some c"
    using assms(1-3,6,7) by simp_all
  from ingest_loop_fresh [OF refl order_refl k q(2,3) this assms(8,12) q(1), unfolded assms(1-3)]
  obtain n c1 where c1: "counts_prefix h scan job bs fd0 n t1" "checkpoint_get (db_checkpoints t1) job = Some c1" "phase c1 = ''INFO_STAGED''"
    "c1 = c \<or> has_policy (limits cfg) (checkpoint_payload c1)"
    "case o1 of Inl e \<Rightarrow> True | Inr (f', l', q) \<Rightarrow> n = length bs \<and> has_counts n f' l' (checkpoint_payload c1) \<and> has_counts n f' l' q" by blast
  then have inv1: "import_inv h scan job cfg bs fd0 t1" using assms(9) policy_again by (auto simp: import_inv_def)
  have run: "ingest_coverage_in_batches env cfg now items st p d = act_bind (\<lambda>d. (o1, t1)) (\<lambda>(file_sum, line_sum, q).
      case x of Some e \<Rightarrow> act_raise e
      | None \<Rightarrow> if file_sum \<noteq> stat_files st \<or> line_sum \<noteq> stat_line_count st then act_raise (ValueError ''COVERAGE_IMPORT_INPUT_COUNT_MISMATCH'')
          else run_phase_operation now (env_job env) (env_owner env) (env_fence env) ''COVERAGE_IMPORTED''
            (finalize_coverage env now st (q\<lparr>pp_file_count := Some (stat_files st), pp_line_count := Some (stat_line_count st),
               pp_fallback_files := Some (stat_fallback_files st)\<rparr>))) d"
    using assms(4,10,11) b loop by (simp add: ingest_coverage_in_batches_def has_counts_def act_bind_def)
  show ?thesis
  proof (cases "t = t1")
    case True
    with inv1 show ?thesis by simp
  next
    case False
    from assms(13) False obtain f' l' q' where q': "o1 = Inr (f', l', q')" "x = None"
      "run_phase_operation now job (env_owner env) (env_fence env) ''COVERAGE_IMPORTED''
         (finalize_coverage env now st (q'\<lparr>pp_file_count := Some (stat_files st), pp_line_count := Some (stat_line_count st),
            pp_fallback_files := Some (stat_fallback_files st)\<rparr>)) t1 = (out, t)"
      unfolding run assms(3) by (auto simp: act_bind_def split: sum.splits option.splits if_splits)
    then obtain r where "out = Inr r" using False by (cases out) (blast dest: phase_kept)+
    with q'(3) run_phase_ok [OF _ c1(2,3)] obtain p' d1 cs where p': "finalize_coverage env now st (q'\<lparr>pp_file_count := Some (stat_files st),
        pp_line_count := Some (stat_line_count st), pp_fallback_files := Some (stat_fallback_files st)\<rparr>) t1 = (Inr p', d1)"
      "checkpoint_advance (stamp now) job (checkpoint_seq c1) (env_fence env) ''COVERAGE_IMPORTED'' p' None (db_checkpoints d1) = (Inr r, cs)"
      "t = d1\<lparr>db_checkpoints := cs\<rparr>" by blast
    have d1: "d1 = t1" "has_counts n f' l' p'" using finalize_ok [OF p'(1)] c1(5) q'(1) by (auto simp: has_counts_def)
    have n: "n = length bs" "has_counts n f' l' (checkpoint_payload c1)" using c1(5) q'(1) by auto
    have "checkpoint_inv (db_checkpoints t1)" using c1(1) by (simp add: counts_prefix_def)
    from advance_ok [OF this c1(2)] p'(2) d1(1) obtain c2 where c2: "checkpoint_inv cs" "checkpoint_get cs job = Some c2" "checkpoint_payload c2 = p'"
      "phase c2 = ''COVERAGE_IMPORTED''" by blast
    have "place c2 = 3" using c2(4) by (simp add: place_def PHASES_def)
    moreover have "counts_prefix h scan job bs fd0 n t"
      using c1(1,2) c2 d1 n(2) p'(3) by (auto simp: counts_prefix_def has_counts_def)
    ultimately show ?thesis using c2(2) n(1) p'(3) by (auto simp: import_inv_def)
  qed
qed

lemma coverage_phase_inv:
  assumes "env_hash env = h" "env_scan env = scan" "env_job env = job" "limits cfg = (mf, ml, mb)" "fst (iter_coverage_batches mf ml mb items) = bs"
    "import_inv h scan job cfg bs fd0 d" "coverage_phase env cfg now items st d = (out, t)"
  shows "import_inv h scan job cfg bs fd0 t"
proof -
  from assms(6) obtain k c where c: "counts_prefix h scan job bs fd0 k d" "checkpoint_get (db_checkpoints d) job = Some c"
    "phase c = ''INFO_STAGED'' \<and> batch_policy cfg (checkpoint_payload c) = Inr (limits cfg) \<or> place c \<ge> 3 \<and> k = length bs"
    by (auto simp: import_inv_def)
  have i: "phase_index (phase c) = Inr (place c)" "phase c \<noteq> []" using phase_index_place [OF _ c(2)] c(1) by (auto simp: counts_prefix_def)
  show ?thesis
  proof (cases "place c < 3")
    case False
    then have "t = d" using assms(7) c(2) i by (simp add: coverage_phase_def the_checkpoint_def assms(3) phase_before_def phase_indices)
    then show ?thesis using assms(6) by simp
  next
    case True
    let ?p = "(checkpoint_payload c)\<lparr>pp_scan := Some scan, pp_file_count := Some 0, pp_line_count := Some 0, pp_fallback_files := Some 0\<rparr>"
    from True c(3) have s: "phase c = ''INFO_STAGED''" "batch_policy cfg (checkpoint_payload c) = Inr (limits cfg)" by auto
    have run: "ingest_coverage_in_batches env cfg now items st ?p d = (out, t)"
      using assms(7) c(2) i True by (simp add: coverage_phase_def the_checkpoint_def assms(2,3) phase_before_def phase_indices)
    have "batch_policy cfg ?p = batch_policy cfg (checkpoint_payload c)" by (simp add: batch_policy_def Let_def)
    then have "batch_policy cfg ?p = Inr (limits cfg)" using s(2) by simp
    moreover have "has_counts k (opt_count (pp_processed_files (checkpoint_payload c))) (opt_count (pp_processed_lines (checkpoint_payload c))) (checkpoint_payload c)"
      using c(1,2) by (auto simp: counts_prefix_def has_counts_def)
    moreover from this have "has_counts k (opt_count (pp_processed_files (checkpoint_payload c))) (opt_count (pp_processed_lines (checkpoint_payload c))) ?p"
      by (simp add: has_counts_def)
    ultimately show ?thesis using ingest_in_batches_inv [OF assms(1-5) c(1,2) s] run by blast
  qed
qed

text \<open>What happens between and during the attempts to import one scan: an attempt of some worker, with its owner, token,
  clock and commits, and everything else, which may change all tables but the facts of scans, where the checkpoint of the
  job changes by a new fencing token only.\<close>

datatype attempt_label = Attempt string int | Elsewhere

inductive attempt_step ::
  "(string \<Rightarrow> string \<Rightarrow> string) \<Rightarrow> int \<Rightarrow> string \<Rightarrow> import_config \<Rightarrow> coverage_item stream \<Rightarrow> import_stats \<Rightarrow> 'x import_db \<Rightarrow> attempt_label \<Rightarrow> 'x import_db \<Rightarrow> bool"
  for h scan job cfg items st where
  attempt: "env_hash env = h \<Longrightarrow> env_scan env = scan \<Longrightarrow> env_job env = job \<Longrightarrow> coverage_phase env cfg now items st d = (out, t) \<Longrightarrow>
     attempt_step h scan job cfg items st d (Attempt (env_owner env) (env_fence env)) t"
| elsewhere: "t = \<lparr>db_facts = db_facts d, db_review = review, db_jobs = jobs, db_locks = locks,
       db_checkpoints = snd (claim_fencing now job token (db_checkpoints d)), db_failures = failures\<rparr> \<Longrightarrow>
     attempt_step h scan job cfg items st d Elsewhere t"

lemma claim_keeps:
  assumes "checkpoint_inv t" "checkpoint_get t job = Some c"
  shows "checkpoint_inv (snd (claim_fencing now job token t)) \<and>
    (\<exists>c'. checkpoint_get (snd (claim_fencing now job token t)) job = Some c' \<and> checkpoint_payload c' = checkpoint_payload c \<and> phase c' = phase c)"
proof -
  let ?g = "\<lambda>c. if checkpoint_job c = job \<and> checkpoint_fence c < token then c\<lparr>checkpoint_fence := token, checkpoint_updated := now\<rparr> else c"
  have u: "snd (claim_fencing now job token t) = map ?g t" by (simp add: claim_fencing_def update_rows_def)
  have inv: "checkpoint_inv (map ?g t)" using checkpoint_op_moved [OF assms(1), of now "ClaimFencing job token"] u by (simp add: moved_def)
  have c: "c \<in> set t" "checkpoint_job c = job" using get_Some [OF assms(1)] assms(2) by auto
  then have "?g c \<in> set (map ?g t)" by simp
  then have "checkpoint_get (map ?g t) job = Some (?g c)" using get_Some [OF inv, of job "?g c"] c(2) by auto
  then show ?thesis using inv unfolding u by auto
qed

lemma attempt_step_inv:
  assumes "attempt_step h scan job cfg items st d a t" "limits cfg = (mf, ml, mb)" "fst (iter_coverage_batches mf ml mb items) = bs"
    "import_inv h scan job cfg bs fd0 d"
  shows "import_inv h scan job cfg bs fd0 t"
  using assms(1)
proof cases
  case (attempt env now out)
  then show ?thesis using coverage_phase_inv assms(2-4) by blast
next
  case (elsewhere review jobs locks now token failures)
  from assms(4) obtain k c where c: "counts_prefix h scan job bs fd0 k d" "checkpoint_get (db_checkpoints d) job = Some c"
    "phase c = ''INFO_STAGED'' \<and> batch_policy cfg (checkpoint_payload c) = Inr (limits cfg) \<or> place c \<ge> 3 \<and> k = length bs"
    by (auto simp: import_inv_def)
  have "checkpoint_inv (db_checkpoints d)" using c(1) by (simp add: counts_prefix_def)
  from claim_keeps [OF this c(2), of now token] obtain c' where c': "checkpoint_inv (db_checkpoints t)" "checkpoint_get (db_checkpoints t) job = Some c'"
    "checkpoint_payload c' = checkpoint_payload c" "phase c' = phase c" using elsewhere by auto
  have "counts_prefix h scan job bs fd0 k t" using c(1,2) c'(1-3) elsewhere by (auto simp: counts_prefix_def)
  then show ?thesis using c(3) c' by (auto simp: import_inv_def place_def)
qed

lemma attempts_inv:
  "reaches (attempt_step h scan job cfg items st) d as t \<Longrightarrow> limits cfg = (mf, ml, mb) \<Longrightarrow> fst (iter_coverage_batches mf ml mb items) = bs \<Longrightarrow>
   import_inv h scan job cfg bs fd0 d \<Longrightarrow> import_inv h scan job cfg bs fd0 t"
  by (induction rule: reaches.induct) (auto intro: attempt_step_inv)

section \<open>Properties of the ingestion\<close>

text \<open>C11: an import that is interrupted any number of times, at any batch, by any exception or by a commit that fails, and
  resumed by any worker, holds at every moment exactly the facts of the first batches, as many as its checkpoint counts; once
  it has left the coverage phase, the facts are those that one uninterrupted pass over all batches gives.\<close>

theorem interrupted_import_is_exact:
  assumes "reaches (attempt_step h scan job cfg items st) d as t" "limits cfg = (mf, ml, mb)" "fst (iter_coverage_batches mf ml mb items) = bs"
    "checkpoint_inv (db_checkpoints d)" "checkpoint_get (db_checkpoints d) job = Some c" "phase c = ''INFO_STAGED''"
    "pp_batch_seq (checkpoint_payload c) = None" "pp_processed_files (checkpoint_payload c) = None" "pp_processed_lines (checkpoint_payload c) = None"
    "pp_batch_size (checkpoint_payload c) = None" "pp_max_lines (checkpoint_payload c) = None" "pp_max_bytes (checkpoint_payload c) = None"
  shows "\<exists>k c' rs. k \<le> length bs \<and> ingest_all h scan (take k bs) (db_facts d) = (Inr rs, db_facts t) \<and>
    checkpoint_get (db_checkpoints t) job = Some c' \<and> opt_count (pp_batch_seq (checkpoint_payload c')) = k \<and> (phase c' \<noteq> ''INFO_STAGED'' \<longrightarrow> k = length bs)"
proof -
  have "batch_policy cfg (checkpoint_payload c) = Inr (limits cfg)" using assms(7,10-12) by (simp add: batch_policy_def limits_def opt_count_def Let_def)
  moreover have "counts_prefix h scan job bs (db_facts d) 0 d" using assms(4,5,7-9) by (auto simp: counts_prefix_def opt_count_def)
  ultimately have "import_inv h scan job cfg bs (db_facts d) d" using assms(5,6) by (auto simp: import_inv_def)
  from attempts_inv [OF assms(1-3) this] show ?thesis by (fastforce simp: import_inv_def counts_prefix_def)
qed

text \<open>A checkpoint from before the limits on lines and bytes is resumed without them, and records that there are none; when
  limits are configured, the next resumption is refused for this record.\<close>

lemma old_checkpoint_resumed_once:
  assumes "batch_policy cfg p = Inr (mf, ml, mb)" "pp_max_lines p = None" "pp_max_bytes p = None" "opt_count (pp_batch_seq p) > 0" "cfg_max_lines cfg > 0"
  shows "batch_policy cfg (batch_payload env k f l r (with_policy (mf, ml, mb) fence p)) = Inl (ValueError ''COVERAGE_IMPORT_BATCH_POLICY_CHANGED'')"
  using assms by (auto simp: batch_policy_def with_policy_def batch_payload_def opt_count_def Let_def split: if_splits)

section \<open>Examples\<close>

definition sample_import_db :: "unit import_db" where
  "sample_import_db = \<lparr>db_facts = sample_db ''IMPORTING'', db_review = sample_review, db_jobs = [], db_locks = after_first,
     db_checkpoints = [\<lparr>checkpoint_job = ''j1'', checkpoint_scan = Some 1, phase = ''INFO_STAGED'', phase_version = 1, checkpoint_seq = 2,
       checkpoint_payload = empty_payload, input_sha256 = [], checkpoint_fence = 5, expected_current_scan_id = None, checkpoint_created = ''t'',
       checkpoint_updated = ''t''\<rparr>], db_failures = []\<rparr>"

definition sample_env :: "(nat \<Rightarrow> py_error option) \<Rightarrow> import_env" where
  "sample_env e = \<lparr>env_hash = plain_hash, env_scan = 1, env_job = ''j1'', env_owner = ''w1'', env_fence = 5, env_now = (\<lambda>n. \<lparr>seconds = 20, stamp = ''t''\<rparr>),
     env_commit_error = e\<rparr>"

definition sample_config :: import_config where
  "sample_config = \<lparr>cfg_file_batch_size = 1, cfg_max_lines = 0, cfg_max_bytes = 0\<rparr>"

definition sample_stats :: import_stats where
  "sample_stats = \<lparr>stat_files = 2, stat_line_count = 4, stat_fallback_files = 0\<rparr>"

text \<open>A first attempt whose second commit fails, and a second one that ends.\<close>

definition try_import :: "(nat \<Rightarrow> py_error option) \<Rightarrow> unit import_db \<Rightarrow> unit import_db" where
  "try_import e d = snd (coverage_phase (sample_env e) sample_config \<lparr>seconds = 21, stamp = ''t''\<rparr> (sample_items, None) sample_stats d)"

definition interrupted :: "unit import_db" where
  "interrupted = try_import (\<lambda>n. if n = 2 then Some (RuntimeError ''connection lost'') else None) sample_import_db"

definition resumed :: "unit import_db" where
  "resumed = try_import (\<lambda>n. None) interrupted"

lemma try_import_step: "attempt_step plain_hash 1 ''j1'' sample_config (sample_items, None) sample_stats d (Attempt ''w1'' 5) (try_import e d)"
proof -
  have "coverage_phase (sample_env e) sample_config \<lparr>seconds = 21, stamp = ''t''\<rparr> (sample_items, None) sample_stats d =
    (fst (coverage_phase (sample_env e) sample_config \<lparr>seconds = 21, stamp = ''t''\<rparr> (sample_items, None) sample_stats d), try_import e d)"
    by (simp add: try_import_def)
  from attempt_step.attempt [OF _ _ _ this, of plain_hash 1 "''j1''"] show ?thesis by (simp add: sample_env_def)
qed

theorem interrupted_import_is_exact_witness:
  "length (files (db_facts interrupted)) = 1 \<and> length (files (db_facts resumed)) = 2 \<and>
   (\<exists>rs. ingest_all plain_hash 1 (fst (iter_coverage_batches 1 0 0 (sample_items, None))) (sample_db ''IMPORTING'') = (Inr rs, db_facts resumed))"
proof -
  have run: "reaches (attempt_step plain_hash 1 ''j1'' sample_config (sample_items, None) sample_stats) sample_import_db [Attempt ''w1'' 5, Attempt ''w1'' 5] resumed"
    unfolding resumed_def interrupted_def by (rule reaches_Cons, rule try_import_step, rule reaches_Cons, rule try_import_step, rule reaches_refl)
  have c: "limits sample_config = (1, 0, 0)" "checkpoint_inv (db_checkpoints sample_import_db)" by code_simp+
  have g: "checkpoint_get (db_checkpoints sample_import_db) ''j1'' = Some (hd (db_checkpoints sample_import_db))" by code_simp
  have n: "length (files (db_facts interrupted)) = 1" "length (files (db_facts resumed)) = 2" by code_simp+
  have ph: "map_option phase (checkpoint_get (db_checkpoints resumed) ''j1'') = Some ''COVERAGE_IMPORTED''" by code_simp
  have "\<exists>k c' rs. k \<le> length (fst (iter_coverage_batches 1 0 0 (sample_items, None))) \<and>
    ingest_all plain_hash 1 (take k (fst (iter_coverage_batches 1 0 0 (sample_items, None)))) (db_facts sample_import_db) = (Inr rs, db_facts resumed) \<and>
    checkpoint_get (db_checkpoints resumed) ''j1'' = Some c' \<and> opt_count (pp_batch_seq (checkpoint_payload c')) = k \<and>
    (phase c' \<noteq> ''INFO_STAGED'' \<longrightarrow> k = length (fst (iter_coverage_batches 1 0 0 (sample_items, None))))"
    by (rule interrupted_import_is_exact [OF run c(1) refl c(2) g]) (simp_all add: sample_import_db_def empty_payload_def)
  then show ?thesis using n ph by (auto simp: sample_import_db_def)
qed

end
