(* ===== verification/ImportPublish.thy ===== *)
theory ImportPublish
  imports ScanImport
begin

text \<open>
  The end of an import and its recovery: \<open>seal\<close>, \<open>publish\<close> and \<open>_publish_transaction\<close> of \<open>app/scan_import/coordinator.py\<close>, and
  \<open>reclaim\<close> and \<open>record_failure\<close> of \<open>app/scan_import/recovery.py\<close>. The JSON payload of a job, the check of the staged
  artifact and the hash of a failure are arguments.

  Shown: a publication that returns came out of the sealed phase with all fences valid, moves the pointer, completes the job
  and gives back the locks, and a second one changes nothing; a failed one moves no pointer and never touches the
  status of a current scan; after a reclaim the worker before it can not write any more; a job that lost its locks to
  another one passes its fences.
\<close>

section \<open>Sealing\<close>

definition seal_import :: "moment \<Rightarrow> string \<Rightarrow> string \<Rightarrow> int \<Rightarrow> ('x import_db, phase_payload checkpoint option) action" where
  "seal_import now job owner fence d = in_transaction None (\<lambda>d.
     case the_checkpoint job d of
       Inl e \<Rightarrow> (Inl e, d)
     | Inr c \<Rightarrow>
         (case assert_all_fences (seconds now) job owner fence c d of
            Inl e \<Rightarrow> (Inl e, d)
          | Inr u \<Rightarrow>
              (case checkpoint_scan c of
                 None \<Rightarrow> (Inl (TypeError ''int() argument must be a string, a bytes-like object or a real number, not NoneType''), d)
               | Some scan \<Rightarrow>
                   (case update_rows (\<lambda>s. sc_id s = scan \<and> sc_status s \<in> set [''IMPORTING'', ''VALIDATING'', ''building'', ''importing''])
                       (\<lambda>s. s\<lparr>sc_status := ''SEALED''\<rparr>) (scans (db_facts d)) of
                      (n, ss) \<Rightarrow>
                        if n \<noteq> 1 then (Inl (ValueError ''SCAN_NOT_IMPORTING''), d)
                        else on_checkpoints (checkpoint_advance (stamp now) job (checkpoint_seq c) fence ''SEALED''
                            ((checkpoint_payload c)\<lparr>pp_scan := Some scan\<rparr>) None) (d\<lparr>db_facts := (db_facts d)\<lparr>scans := ss\<rparr>\<rparr>))))) d"

section \<open>Publishing\<close>

record job_payload =
  jp_project :: int
  jp_scan :: int
  jp_predecessor :: "int option"
  jp_resources :: "int list"

definition lock_fences :: "rat \<Rightarrow> string \<Rightarrow> lock_row list \<Rightarrow> 'x import_db \<Rightarrow> unit result" where
  "lock_fences now job locks d =
     rbind (rmap (\<lambda>l. assert_fence now (physical_resource_id l) job (owner_token l) (fencing_token l) (db_locks d)) locks) (\<lambda>rows. Inr ())"

definition completed_dict :: "string \<Rightarrow> string \<Rightarrow> string \<Rightarrow> job_dict" where
  "completed_dict now job owner = \<lparr>d_job_id = job, d_project_id = None, d_scan_id = None, d_kind = None, d_state = Some ''completed'', d_progress = Some 1,
     d_input_payload = None, d_result_path = Some [], d_error_message = Some [], d_data_version = None, d_heartbeat_at = Some now, d_created_at = None,
     d_started_at = None, d_finished_at = Some now, d_updated_at = None, d_lease_owner = Some owner, d_handler_version = None\<rparr>"

definition release_all :: "string \<Rightarrow> lock_row list \<Rightarrow> lock_state \<Rightarrow> lock_state" where
  "release_all job locks s = fold (\<lambda>l s. snd (release_locks job (owner_token l) (Some (fencing_token l)) s)) locks s"

definition publish_body ::
  "'x source_queries \<Rightarrow> (string \<Rightarrow> digest) \<Rightarrow> (string \<Rightarrow> job_payload) \<Rightarrow> moment \<Rightarrow> string \<Rightarrow> int option \<Rightarrow> read_set option \<Rightarrow> ('x import_db, project_state option) action" where
  "publish_body qs sha loads now job expected rs d =
     (case job_get (db_jobs d) job of
        None \<Rightarrow> (Inl (KeyError ''import job not found''), d)
      | Some row \<Rightarrow>
          let payload = loads (input_payload row); project = jp_project payload; scan = jp_scan payload in
          (case the_checkpoint job d of
             Inl e \<Rightarrow> (Inl e, d)
           | Inr c \<Rightarrow>
               if phase c \<in> set [''PUBLISHED'', ''DONE''] then (Inr (state_get project (db_review d)), d)
               else if phase c \<noteq> ''SEALED'' then (Inl (ValueError ''IMPORT_NOT_SEALED''), d)
               else let locks = locks_for_job job d in
                 (case publish_in_transaction qs sha (db_facts d) (stamp now) project scan
                     (Some (case expected of None \<Rightarrow> jp_predecessor payload | Some e \<Rightarrow> Some e))
                     (case rs of Some r \<Rightarrow> r | None \<Rightarrow> pp_read_set (checkpoint_payload c)) (lock_fences (seconds now) job locks d) (db_review d) of
                    (Inl e, v) \<Rightarrow> (Inl e, d\<lparr>db_review := v\<rparr>)
                  | (Inr r, v) \<Rightarrow>
                      act_bind (on_checkpoints (checkpoint_advance (stamp now) job (checkpoint_seq c) (checkpoint_fence c) ''PUBLISHED''
                          (empty_payload\<lparr>pp_scan := Some scan\<rparr>) None))
                        (\<lambda>row' d. case transition_terminal (stamp now) (completed_dict (stamp now) job (lease_owner row)) (db_jobs d) of
                           (None, js) \<Rightarrow> (Inl (ValueError ''JOB_STATE_FENCE_FAILED''), d\<lparr>db_jobs := js\<rparr>)
                         | (Some j, js) \<Rightarrow> (Inr r, d\<lparr>db_jobs := js, db_locks := release_all job locks (db_locks d)\<rparr>))
                        (d\<lparr>db_review := v\<rparr>))))"

definition publish_transaction ::
  "'x source_queries \<Rightarrow> (string \<Rightarrow> digest) \<Rightarrow> (string \<Rightarrow> job_payload) \<Rightarrow> moment \<Rightarrow> string \<Rightarrow> int option \<Rightarrow> read_set option \<Rightarrow> ('x import_db, project_state option) action" where
  "publish_transaction qs sha loads now job expected rs = in_transaction None (publish_body qs sha loads now job expected rs)"

section \<open>Recording a failure\<close>

definition failed_dict :: "string \<Rightarrow> string \<Rightarrow> string \<Rightarrow> job_row \<Rightarrow> job_dict" where
  "failed_dict now msg owner r = \<lparr>d_job_id = job_id r, d_project_id = project_id r, d_scan_id = scan_id r, d_kind = Some (kind r), d_state = Some ''failed'',
     d_progress = Some (progress r), d_input_payload = Some (input_payload r), d_result_path = Some (result_path r), d_error_message = Some msg,
     d_data_version = data_version r, d_heartbeat_at = Some now, d_created_at = Some (created_at r), d_started_at = started_at r, d_finished_at = Some now,
     d_updated_at = Some (updated_at r), d_lease_owner = Some owner, d_handler_version = Some (handler_version r)\<rparr>"

text \<open>The owner: the given one, or the only one among the locks of the job that carry the given token.\<close>

definition failure_owner :: "string \<Rightarrow> string \<Rightarrow> int option \<Rightarrow> 'x import_db \<Rightarrow> string result" where
  "failure_owner owner job fence d =
     (if owner \<noteq> [] then Inr owner
      else let owners = remdups (map owner_token (filter (\<lambda>l. fence = Some (fencing_token l)) (locks_for_job job d))) in
        if length owners = 1 \<and> [] \<notin> set owners then Inr (hd owners) else Inl (ValueError ''JOB_OWNER_REQUIRED''))"

text \<open>\<open>INSERT IGNORE\<close> on the key of job, phase and fingerprint.\<close>

definition insert_failure :: "failure_row \<Rightarrow> failure_row list \<Rightarrow> failure_row list" where
  "insert_failure f fs =
     (if list_ex (\<lambda>g. fr_job g = fr_job f \<and> fr_phase g = fr_phase f \<and> fr_fingerprint g = fr_fingerprint f) fs then fs else fs @ [f])"

definition is_current :: "scan_row \<Rightarrow> 'x database \<Rightarrow> bool" where
  "is_current s v \<longleftrightarrow> list_ex (\<lambda>p. ps_project p = sc_project s \<and> ps_current_scan p = Some (sc_id s)) (project_states v)"

definition abandon_scan :: "int option \<Rightarrow> string \<Rightarrow> 'x import_db \<Rightarrow> 'x import_db" where
  "abandon_scan scan status d = (case scan of
       None \<Rightarrow> d
     | Some i \<Rightarrow> if i = 0 then d else d\<lparr>db_facts := (db_facts d)\<lparr>scans := map (\<lambda>s.
         if sc_id s = i \<and> map to_upper (sc_status s) \<in> set [''IMPORTING'', ''VALIDATING'', ''BUILDING'', ''CONSTRUCTING'', ''SEALED'', ''READY''] \<and>
            \<not> is_current s (db_review d) then s\<lparr>sc_status := status\<rparr> else s) (scans (db_facts d))\<rparr>\<rparr>)"

definition record_failure ::
  "(string \<Rightarrow> string) \<Rightarrow> moment \<Rightarrow> string \<Rightarrow> string \<Rightarrow> string \<Rightarrow> string \<Rightarrow> int option \<Rightarrow> string \<Rightarrow> string \<Rightarrow> ('x import_db, job_row option) action" where
  "record_failure sha now job ph cls msg fence scan_status owner d =
     (let status = (if scan_status = [] then ''FAILED'' else map to_upper scan_status); redacted = take 512 msg in
      if status \<notin> set [''FAILED'', ''ABORTED''] then (Inl (ValueError ''invalid scan failure status''), d)
      else in_transaction None (\<lambda>d.
        case job_get (db_jobs d) job of
          None \<Rightarrow> (Inl (KeyError ''scan_import job not found''), d)
        | Some row \<Rightarrow>
            (case failure_owner owner job fence d of
               Inl e \<Rightarrow> (Inl e, d)
             | Inr w \<Rightarrow>
                 let d1 = d\<lparr>db_failures := insert_failure \<lparr>fr_job = job, fr_scan = scan_id row, fr_phase = ph, fr_class = cls,
                       fr_fingerprint = sha (ph @ NL # cls @ NL # msg), fr_message = redacted, fr_fence = fence, fr_at = stamp now\<rparr> (db_failures d)\<rparr> in
                 (case transition_terminal (stamp now) (failed_dict (stamp now) redacted w row) (db_jobs d1) of
                    (None, js) \<Rightarrow> (Inr (job_get js job), d1\<lparr>db_jobs := js\<rparr>)
                  | (Some j, js) \<Rightarrow>
                      let d2 = abandon_scan (scan_id row) status (d1\<lparr>db_jobs := js\<rparr>) in
                      (Inr (Some j), d2\<lparr>db_locks := release_all job (filter (\<lambda>l. owner_token l = w) (locks_for_job job d2)) (db_locks d2)\<rparr>)))) d)"

text \<open>The text of an exception; \<open>str\<close> of a \<open>KeyError\<close> quotes it.\<close>

fun error_text :: "py_error \<Rightarrow> string" where
  "error_text (ValueError m) = m"
| "error_text (RuntimeError m) = m"
| "error_text (KeyError m) = CHR 0x27 # m @ [CHR 0x27]"
| "error_text (RepositoryBusyError m) = m"
| "error_text (TypeError m) = m"
| "error_text e = []"

fun error_class :: "py_error \<Rightarrow> string" where
  "error_class (ValueError m) = ''ValueError''"
| "error_class (RuntimeError m) = ''RuntimeError''"
| "error_class (KeyError m) = ''KeyError''"
| "error_class (RepositoryBusyError m) = ''RepositoryBusyError''"
| "error_class (TypeError m) = ''TypeError''"
| "error_class e = ''Exception''"

definition failure_status :: "py_error \<Rightarrow> string" where
  "failure_status e =
     (if hd (py_split (CHR '':'') (error_text e)) \<in> set [''CURRENT_POINTER_CHANGED'', ''PREDECESSOR_MISMATCH'', ''READ_SET_CHANGED'', ''IMPORT_NOT_SEALED'']
      then ''ABORTED'' else ''FAILED'')"

text \<open>An exception of the record is swallowed; the one of the publication is raised.\<close>

definition publish_import ::
  "'x source_queries \<Rightarrow> (string \<Rightarrow> digest) \<Rightarrow> (string \<Rightarrow> string) \<Rightarrow> (string \<Rightarrow> job_payload) \<Rightarrow> moment \<Rightarrow> string \<Rightarrow> int option \<Rightarrow> read_set option \<Rightarrow>
   ('x import_db, project_state option) action" where
  "publish_import qs sha fp loads now job expected rs d =
     (let owner = (case job_get (db_jobs d) job of None \<Rightarrow> [] | Some r \<Rightarrow> lease_owner r) in
      case publish_transaction qs sha loads now job expected rs d of
        (Inr r, t) \<Rightarrow> (Inr r, t)
      | (Inl e, t) \<Rightarrow> (Inl e, snd (record_failure fp now job ''PUBLISH'' (error_class e) (error_text e) None (failure_status e) owner t)))"

section \<open>Reclaiming\<close>

text \<open>\<open>reclaim\<close> after \<open>validate\<close>, whose outcome, the payload of the job and the row it has seen, is given.\<close>

definition reclaim_import ::
  "moment \<Rightarrow> rat \<Rightarrow> string \<Rightarrow> string \<Rightarrow> int list option \<Rightarrow> (job_payload \<times> job_row) result \<Rightarrow> ('x import_db, (int \<times> int) list) action" where
  "reclaim_import now lease job owner resources validated d = in_transaction None (\<lambda>d.
     case validated of
       Inl e \<Rightarrow> (Inl e, d)
     | Inr (payload, seen) \<Rightarrow>
         (case acquire_locks (seconds now) lease (case resources of Some rs \<Rightarrow> rs | None \<Rightarrow> jp_resources payload) job owner (db_locks d) of
            (Inl e, ls) \<Rightarrow> (Inl e, d\<lparr>db_locks := ls\<rparr>)
          | (Inr acquired, ls) \<Rightarrow>
              (case JobTable.reclaim (stamp now) job owner
                  \<lparr>expected_state = Some (state seen), expected_owner = Some (lease_owner seen), expected_heartbeat = heartbeat_at seen\<rparr> (db_jobs d) of
                 (None, js) \<Rightarrow> (Inl (ValueError ''INVALID_JOB_TRANSITION''), d\<lparr>db_locks := snd (release_locks job owner None ls), db_jobs := js\<rparr>)
               | (Some j, js) \<Rightarrow>
                   if acquired = [] then (Inr acquired, d\<lparr>db_locks := ls, db_jobs := js\<rparr>)
                   else act_bind (on_checkpoints (claim_fencing (stamp now) job (snd (hd acquired)))) (\<lambda>c. act_return acquired)
                     (d\<lparr>db_locks := ls, db_jobs := js\<rparr>)))) d"

section \<open>Lemmas on publishing and reclaiming\<close>

lemma release_all_spec:
  "lock_rows (release_all job locks s) = filter (\<lambda>k. \<not> (\<exists>l \<in> set locks. release_matching job (owner_token l) (Some (fencing_token l)) k)) (lock_rows s)"
  unfolding release_all_def by (induction locks arbitrary: s) (auto simp: release_locks_def intro!: filter_cong)

lemma release_own_locks: "db_locks t = release_all job (locks_for_job job d) (db_locks d) \<Longrightarrow> locks_for_job job t = []"
  unfolding set_empty [symmetric] by (auto simp: locks_for_job_def release_all_spec release_matching_def)

lemma lock_fences_ok:
  assumes "lock_fences now job locks d = Inr ()" "l \<in> set locks"
  shows "\<exists>k \<in> set (lock_rows (db_locks d)). physical_resource_id k = physical_resource_id l \<and> lock_job k = job \<and> fencing_token k = fencing_token l \<and>
    \<not> expired now (expires_at k)"
proof -
  obtain k where "assert_fence now (physical_resource_id l) job (owner_token l) (fencing_token l) (db_locks d) = Inr k"
    using rmap_total [OF _ assms(2)] assms(1) by (fastforce simp: lock_fences_def)
  then show ?thesis by (auto simp: assert_fence_def release_matching_def split: option.splits if_splits dest!: find_SomeD)
qed

lemma terminal_ok:
  assumes "distinct (map job_id t)" "transition_terminal now d t = (Some j, u)" "job_get t (d_job_id d) = Some r"
  shows "job_get u (d_job_id d) = Some j \<and> state j = text_or (d_state d) [] \<and> input_payload j = input_payload r \<and> state r \<in> set open_states"
proof -
  let ?p = "\<lambda>r. job_id r = d_job_id d \<and> state r \<in> set open_states \<and> lease_owner r = text_or (d_lease_owner d) []"
  define stamp where "stamp = text_or (d_heartbeat_at d) (text_or (d_finished_at d) now)"
  define f :: "job_row \<Rightarrow> job_row" where "f = (\<lambda>r. r\<lparr>state := text_or (d_state d) [], progress := (case d_progress d of None \<Rightarrow> 0 | Some x \<Rightarrow> x),
    result_path := text_or (d_result_path d) [], error_message := text_or (d_error_message d) [], heartbeat_at := Some stamp,
    finished_at := Some (text_or (d_finished_at d) stamp), updated_at := now\<rparr>)"
  have f: "u = map (\<lambda>r. if ?p r then f r else r) t" "length (filter ?p t) = 1" "job_get u (d_job_id d) = Some j"
    using assms(2) unfolding transition_terminal_def Let_def when_one_def update_rows_def f_def stamp_def by (auto split: if_splits)
  have keeps: "job_id (f r) = job_id r" "input_payload (f r) = input_payload r" "state (f r) = text_or (d_state d) []" for r by (simp_all add: f_def)
  have "job_get (map (\<lambda>r. if ?p r then f r else r) t) (d_job_id d) = map_option (\<lambda>r. if ?p r then f r else r) (job_get t (d_job_id d))"
    unfolding job_get_def using keeps(1) by (induction t) auto
  then have j: "j = (if ?p r then f r else r)" using f(1,3) assms(3) by simp
  obtain q where q: "q \<in> set t" "?p q" using one_row [OF f(2)] by blast
  then have "r = q" using find_unique [OF assms(1) q(1)] assms(3) by (simp add: job_get_def)
  then show ?thesis using j q(2) f(3) keeps by simp
qed

lemma terminal_applies:
  assumes "distinct (map job_id t)" "job_get t (d_job_id d) = Some r" "state r \<in> set open_states" "lease_owner r = text_or (d_lease_owner d) []"
    "lease_owner r \<noteq> []" "text_or (d_state d) [] \<notin> set [[], ''queued'', ''running'']"
  shows "\<exists>j u. transition_terminal now d t = (Some j, u) \<and> job_get u (d_job_id d) = Some j \<and> state j = text_or (d_state d) [] \<and>
    error_message j = text_or (d_error_message d) []"
proof -
  define stamp where "stamp = text_or (d_heartbeat_at d) (text_or (d_finished_at d) now)"
  define f :: "job_row \<Rightarrow> job_row" where "f = (\<lambda>r. r\<lparr>state := text_or (d_state d) [], progress := (case d_progress d of None \<Rightarrow> 0 | Some x \<Rightarrow> x),
    result_path := text_or (d_result_path d) [], error_message := text_or (d_error_message d) [], heartbeat_at := Some stamp,
    finished_at := Some (text_or (d_finished_at d) stamp), updated_at := now\<rparr>)"
  have r: "r \<in> set t" "job_id r = d_job_id d" using assms(2) by (auto simp: job_get_def dest: find_SomeD)
  have u: "update_rows (\<lambda>x. job_id x = d_job_id d \<and> state x \<in> set open_states \<and> lease_owner x = text_or (d_lease_owner d) []) f t =
    (1, map (\<lambda>x. if job_id x = d_job_id d then f x else x) t)"
    using update_by_key [of job_id t r "\<lambda>x. state x \<in> set open_states \<and> lease_owner x = text_or (d_lease_owner d) []" f] assms(1,3,4) r by simp
  have keeps: "job_id (f x) = job_id x" for x by (simp add: f_def)
  have "job_get (map (\<lambda>x. if job_id x = d_job_id d then f x else x) t) (d_job_id d) = map_option f (job_get t (d_job_id d))"
    unfolding job_get_def by (induction t) (auto simp: keeps)
  then show ?thesis using assms(2,4-6) u
    by (simp add: transition_terminal_def Let_def when_one_def f_def [symmetric] stamp_def [symmetric]) (simp add: f_def)
qed

text \<open>A publication that returns and is not a repetition, step by step.\<close>

lemma publish_body_ok:
  assumes "publish_transaction qs sha loads now job expected rs d = (Inr r, t)" "job_get (db_jobs d) job = Some row"
    "checkpoint_get (db_checkpoints d) job = Some c" "phase c \<noteq> ''PUBLISHED''" "phase c \<noteq> ''DONE''" "p = loads (input_payload row)"
  shows "phase c = ''SEALED'' \<and> (\<exists>v cs c1 j js.
    publish_in_transaction qs sha (db_facts d) (stamp now) (jp_project p) (jp_scan p) (Some (case expected of None \<Rightarrow> jp_predecessor p | Some e \<Rightarrow> Some e))
      (case rs of Some r \<Rightarrow> r | None \<Rightarrow> pp_read_set (checkpoint_payload c)) (lock_fences (seconds now) job (locks_for_job job d) d) (db_review d) = (Inr r, v) \<and>
    checkpoint_advance (stamp now) job (checkpoint_seq c) (checkpoint_fence c) ''PUBLISHED'' (empty_payload\<lparr>pp_scan := Some (jp_scan p)\<rparr>) None (db_checkpoints d) = (Inr c1, cs) \<and>
    transition_terminal (stamp now) (completed_dict (stamp now) job (lease_owner row)) (db_jobs d) = (Some j, js) \<and>
    t = d\<lparr>db_review := v, db_checkpoints := cs, db_jobs := js, db_locks := release_all job (locks_for_job job d) (db_locks d)\<rparr>)"
proof -
  from assms(1) have b: "publish_body qs sha loads now job expected rs d = (Inr r, t)"
    by (auto simp: publish_transaction_def elim: in_transaction_cases)
  have ph: "phase c = ''SEALED''" using b assms(2-5) by (auto simp: publish_body_def the_checkpoint_def Let_def split: if_splits)
  let ?P = "publish_in_transaction qs sha (db_facts d) (stamp now) (jp_project p) (jp_scan p) (Some (case expected of None \<Rightarrow> jp_predecessor p | Some e \<Rightarrow> Some e))
      (case rs of Some r \<Rightarrow> r | None \<Rightarrow> pp_read_set (checkpoint_payload c)) (lock_fences (seconds now) job (locks_for_job job d) d) (db_review d)"
  obtain out v where P: "?P = (out, v)" by fastforce
  note b' = b [unfolded publish_body_def assms(2), simplified option.case Let_def, folded assms(6)]
  from b' P ph assms(3) obtain x where x: "out = Inr x" by (cases out) (auto simp: the_checkpoint_def)
  from b' P ph assms(3) obtain c1 d1 where d1: "on_checkpoints (checkpoint_advance (stamp now) job (checkpoint_seq c) (checkpoint_fence c) ''PUBLISHED''
      (empty_payload\<lparr>pp_scan := Some (jp_scan p)\<rparr>) None) (d\<lparr>db_review := v\<rparr>) = (Inr c1, d1)"
    "(case transition_terminal (stamp now) (completed_dict (stamp now) job (lease_owner row)) (db_jobs d1) of
       (None, js) \<Rightarrow> (Inl (ValueError ''JOB_STATE_FENCE_FAILED''), d1\<lparr>db_jobs := js\<rparr>)
     | (Some j, js) \<Rightarrow> (Inr x, d1\<lparr>db_jobs := js, db_locks := release_all job (locks_for_job job d) (db_locks d1)\<rparr>)) = (Inr r, t)"
    by (auto simp: the_checkpoint_def x act_bind_Inr)
  from d1(1) obtain cs where cs: "checkpoint_advance (stamp now) job (checkpoint_seq c) (checkpoint_fence c) ''PUBLISHED''
      (empty_payload\<lparr>pp_scan := Some (jp_scan p)\<rparr>) None (db_checkpoints d) = (Inr c1, cs)" "d1 = d\<lparr>db_review := v, db_checkpoints := cs\<rparr>"
    by (auto simp: on_checkpoints_Inr)
  obtain q js where q: "transition_terminal (stamp now) (completed_dict (stamp now) job (lease_owner row)) (db_jobs d) = (q, js)" by fastforce
  from d1(2) obtain j where "q = Some j" "r = x" "t = d\<lparr>db_review := v, db_checkpoints := cs, db_jobs := js, db_locks := release_all job (locks_for_job job d) (db_locks d)\<rparr>"
    by (cases q) (auto simp: cs(2) q)
  with ph P x cs(1) q show ?thesis by blast
qed

text \<open>What a failure leaves alone: the pointers, relations and rejections, the checkpoints, the stored facts, scans that are
  current, and the jobs and locks of others.\<close>

definition failure_keeps :: "string \<Rightarrow> 'x import_db \<Rightarrow> 'x import_db \<Rightarrow> bool" where
  "failure_keeps job d t \<longleftrightarrow> db_review t = db_review d \<and> db_checkpoints t = db_checkpoints d \<and>
     files (db_facts t) = files (db_facts d) \<and> line_facts (db_facts t) = line_facts (db_facts d) \<and>
     (\<forall>s \<in> set (scans (db_facts d)). is_current s (db_review d) \<longrightarrow> s \<in> set (scans (db_facts t))) \<and>
     (\<forall>j \<in> set (db_jobs d). job_id j \<noteq> job \<longrightarrow> j \<in> set (db_jobs t)) \<and>
     (\<forall>l \<in> set (lock_rows (db_locks d)). lock_job l \<noteq> job \<longrightarrow> l \<in> set (lock_rows (db_locks t)))"

lemma failure_keeps_refl: "failure_keeps job d d"
  by (simp add: failure_keeps_def)

lemma terminal_others:
  assumes "transition_terminal now d t = (r, u)" "j \<in> set t" "job_id j \<noteq> d_job_id d"
  shows "j \<in> set u"
proof -
  have "u = snd (transition_terminal now d t)" by (simp add: assms(1))
  then show ?thesis using assms(2,3) by (auto simp: transition_terminal_def Let_def intro!: update_rows_keeps)
qed

lemma abandon_scan_keeps:
  "db_review (abandon_scan i status d) = db_review d" "db_checkpoints (abandon_scan i status d) = db_checkpoints d"
  "db_jobs (abandon_scan i status d) = db_jobs d" "db_locks (abandon_scan i status d) = db_locks d" "db_failures (abandon_scan i status d) = db_failures d"
  "files (db_facts (abandon_scan i status d)) = files (db_facts d)" "line_facts (db_facts (abandon_scan i status d)) = line_facts (db_facts d)"
  "s \<in> set (scans (db_facts d)) \<Longrightarrow> is_current s (db_review d) \<Longrightarrow> s \<in> set (scans (db_facts (abandon_scan i status d)))"
  by (auto simp: abandon_scan_def image_iff split: option.split intro!: bexI [of _ s])

lemma record_failure_spec:
  assumes "record_failure sha now job ph cls msg fence status owner d = (out, t)"
  shows "failure_keeps job d t \<and> (case out of Inl e \<Rightarrow> t = d | Inr r \<Rightarrow>
    \<exists>row w j js. job_get (db_jobs d) job = Some row \<and> failure_owner owner job fence d = Inr w \<and> db_jobs t = js \<and>
      transition_terminal (stamp now) (failed_dict (stamp now) (take 512 msg) w row) (db_jobs d) = (j, js) \<and>
      list_ex (\<lambda>f. fr_job f = job \<and> fr_phase f = ph \<and> fr_fingerprint f = sha (ph @ NL # cls @ NL # msg)) (db_failures t))"
proof (cases "t = d \<and> (\<exists>e. out = Inl e)")
  case True
  then show ?thesis by (auto simp: failure_keeps_refl)
next
  case False
  let ?f = "\<lambda>row. \<lparr>fr_job = job, fr_scan = scan_id row, fr_phase = ph, fr_class = cls, fr_fingerprint = sha (ph @ NL # cls @ NL # msg),
    fr_message = take 512 msg, fr_fence = fence, fr_at = stamp now\<rparr>"
  from False assms obtain row w where r: "job_get (db_jobs d) job = Some row" "failure_owner owner job fence d = Inr w"
    by (auto simp: record_failure_def Let_def elim!: in_transaction_cases split: if_splits option.splits sum.splits)
  obtain j js where j: "transition_terminal (stamp now) (failed_dict (stamp now) (take 512 msg) w row) (db_jobs d) = (j, js)" by fastforce
  have f: "list_ex (\<lambda>f. fr_job f = job \<and> fr_phase f = ph \<and> fr_fingerprint f = sha (ph @ NL # cls @ NL # msg)) (insert_failure (?f row) (db_failures d))"
    by (auto simp: insert_failure_def)
  have "job_id row = job" using r(1) by (auto simp: job_get_def dest: find_SomeD)
  then have o: "k \<in> set js" if "k \<in> set (db_jobs d)" "job_id k \<noteq> job" for k using terminal_others [OF j] that by (simp add: failed_dict_def)
  let ?d1 = "d\<lparr>db_failures := insert_failure (?f row) (db_failures d), db_jobs := js\<rparr>"
  let ?d2 = "\<lambda>st. abandon_scan (scan_id row) st ?d1"
  from False assms have "t = ?d1 \<or> (\<exists>st. t = (?d2 st)\<lparr>db_locks := release_all job (filter (\<lambda>l. owner_token l = w) (locks_for_job job (?d2 st))) (db_locks (?d2 st))\<rparr>)"
    "\<exists>x. out = Inr x"
    by (auto simp: record_failure_def Let_def r j elim!: in_transaction_cases split: if_splits option.splits)
  then show ?thesis using r j f o by (auto simp: failure_keeps_def abandon_scan_keeps release_all_spec release_matching_def)
qed

lemma publish_failed:
  "publish_transaction qs sha loads now job expected rs d = (Inl e, t) \<Longrightarrow> t = d"
  by (auto simp: publish_transaction_def elim: in_transaction_cases)

text \<open>After a reclaim the checkpoint carries the new token.\<close>

lemma reclaim_claims:
  assumes "reclaim_import now lease job owner resources validated d = (Inr as, t)" "as \<noteq> []"
  shows "\<exists>r. claim_fencing (stamp now) job (snd (hd as)) (db_checkpoints d) = (Inr r, db_checkpoints t)"
  using assms
  by (auto simp: reclaim_import_def act_bind_Inr on_checkpoints_Inr elim!: in_transaction_cases split: sum.splits prod.splits option.splits if_splits)

lemma stale_fence_raises:
  assumes "checkpoint_fence c \<noteq> 0" "fence \<noteq> checkpoint_fence c"
  shows "assert_all_fences now job owner fence c d = Inl (ValueError ''LOCK_FENCING_FAILED'')"
  using assms by (simp add: assert_all_fences_def)

section \<open>Properties\<close>



text \<open>C14: once an import has been reclaimed, whatever happens to the checkpoints and to everything else afterwards, the worker before, with
  its lower fencing token, neither stores a batch nor runs a phase nor seals the scan: each leaves the database as it was.\<close>

theorem reclaimed_import_fences_old_worker:
  assumes "checkpoint_inv (db_checkpoints d)" "reclaim_import now lease job owner resources validated d = (Inr as, t)" "as \<noteq> []"
    "0 \<le> old" "old < snd (hd as)" "reaches checkpoint_step (db_checkpoints t) ops (db_checkpoints u)" "env_job env = job" "env_fence env = old"
  shows "snd (run_phase_operation now' job worker old target operation u) = u \<and>
    (\<exists>e. in_transaction failure (ingest_body env seq f l p batch) u = (Inl e, u)) \<and> (\<exists>e. seal_import now' job worker old u = (Inl e, u))"
proof -
  from reclaim_claims [OF assms(2,3)] obtain r where r: "claim_fencing (stamp now) job (snd (hd as)) (db_checkpoints d) = (Inr r, db_checkpoints t)" by blast
  have f: "checkpoint_fence c \<noteq> 0" "old \<noteq> checkpoint_fence c" if "checkpoint_get (db_checkpoints u) job = Some c" for c
    using claimed_token_kept [OF assms(1) r assms(6) that] assms(4,5) by linarith+
  have raises: "assert_all_fences n job w old c u = Inl (ValueError ''LOCK_FENCING_FAILED'')" if "checkpoint_get (db_checkpoints u) job = Some c" for n w c
    using stale_fence_raises f [OF that] by blast
  have "snd (run_phase_operation now' job worker old target operation u) = u"
    by (auto simp: run_phase_operation_def in_transaction_def the_checkpoint_def raises split: option.split sum.split)
  moreover have "\<exists>e. in_transaction failure (ingest_body env seq f l p batch) u = (Inl e, u)"
    by (auto simp: ingest_body_def in_transaction_def the_checkpoint_def raises assms(7,8) split: option.split)
  moreover have "\<exists>e. seal_import now' job worker old u = (Inl e, u)"
    by (auto simp: seal_import_def in_transaction_def the_checkpoint_def raises split: option.split)
  ultimately show ?thesis by blast
qed

text \<open>A job without lock rows passes its fences, whoever holds its repositories.\<close>

lemma lost_locks_pass:
  assumes "locks_for_job job d = []"
  shows "assert_all_fences now job owner (checkpoint_fence c) c d = Inr ()" "lock_fences now job (locks_for_job job d) d = Inr ()"
  using assms by (simp_all add: assert_all_fences_def lock_fences_def)

section \<open>Examples\<close>

definition sample_job :: job_row where
  "sample_job = \<lparr>job_id = ''j1'', project_id = Some 1, scan_id = Some 1, kind = ''scan_import'', state = ''running'', progress = 0, input_payload = ''{}'',
     result_path = [], error_message = [], data_version = None, heartbeat_at = Some ''t'', created_at = ''t'', started_at = Some ''t'', finished_at = None,
     updated_at = ''t'', lease_owner = ''w1'', handler_version = []\<rparr>"

definition sealed_db :: "string \<Rightarrow> unit import_db" where
  "sealed_db status = sample_import_db\<lparr>db_facts := sample_db status, db_jobs := [sample_job],
     db_checkpoints := map (\<lambda>c. c\<lparr>phase := ''SEALED''\<rparr>) (db_checkpoints sample_import_db)\<rparr>"

definition sample_payload :: "string \<Rightarrow> job_payload" where
  "sample_payload s = \<lparr>jp_project = 1, jp_scan = 1, jp_predecessor = None, jp_resources = [2]\<rparr>"

abbreviation noon :: moment where
  "noon \<equiv> \<lparr>seconds = 30, stamp = ''t1''\<rparr>"

definition after_publish :: "unit import_db" where
  "after_publish = snd (publish_transaction sample_queries sample_sha sample_payload noon ''j1'' None None (sealed_db ''SEALED''))"



definition reclaimed :: "unit import_db" where
  "reclaimed = snd (reclaim_import \<lparr>seconds = 400, stamp = ''t2''\<rparr> 300 ''j1'' ''w2'' None (Inr (sample_payload [], sample_job)) (sample_import_db\<lparr>db_jobs := [sample_job]\<rparr>))"

theorem reclaimed_import_fences_old_worker_witness:
  "\<exists>e. in_transaction None (ingest_body (sample_env (\<lambda>n. None)) 1 0 0 empty_payload []) reclaimed = (Inl e, reclaimed)"
proof -
  let ?d = "sample_import_db\<lparr>db_jobs := [sample_job]\<rparr>"
  have c: "checkpoint_inv (db_checkpoints ?d)"
    "fst (reclaim_import \<lparr>seconds = 400, stamp = ''t2''\<rparr> 300 ''j1'' ''w2'' None (Inr (sample_payload [], sample_job)) ?d) = Inr [(2, 6)]" by code_simp+
  then have "reclaim_import \<lparr>seconds = 400, stamp = ''t2''\<rparr> 300 ''j1'' ''w2'' None (Inr (sample_payload [], sample_job)) ?d = (Inr [(2, 6)], reclaimed)"
    by (simp add: reclaimed_def prod_eq_iff)
  from reclaimed_import_fences_old_worker [OF c(1) this _ _ _ reaches_refl, of 5 "sample_env (\<lambda>n. None)"] show ?thesis by (simp add: sample_env_def)
qed

text \<open>The lease of \<open>j1\<close> on its repository has run out. As long as nobody has taken the repository its import is refused; as soon as
  another import has taken it, the import of \<open>j1\<close> stores its facts, while the other one works on the same repository.\<close>

lemma lost_lock_lets_import_go_on:
  "\<not> is_ok (fst (coverage_phase ((sample_env (\<lambda>n. None))\<lparr>env_now := (\<lambda>n. \<lparr>seconds = 401, stamp = []\<rparr>)\<rparr>) sample_config \<lparr>seconds = 402, stamp = []\<rparr>
      (sample_items, None) sample_stats sample_import_db))"
  "is_ok (fst (coverage_phase ((sample_env (\<lambda>n. None))\<lparr>env_now := (\<lambda>n. \<lparr>seconds = 401, stamp = []\<rparr>)\<rparr>) sample_config \<lparr>seconds = 402, stamp = []\<rparr>
      (sample_items, None) sample_stats (sample_import_db\<lparr>db_locks := after_second\<rparr>)))"
  by code_simp+

end
