(* ===== verification/AnalysisDomain.thy ===== *)
theory AnalysisDomain
  imports Publication
begin

text \<open>
  The analysis domain: records of content, blocks of lines and the relations of lines to them, the write operations of
  \<open>app/db/repositories/analysis_domain_repository.py\<close> and \<open>app/db/repositories/analysis_repository.py\<close> that a save
  uses, and the audit of \<open>app/services/analysis_domain_service.py\<close>. Relations and rejections are those of
  \<open>Rejections\<close>; the tables of content are in its derived part. Files and lines are immutable facts, given as an argument. The
  hash of a content and the times are arguments; the columns that only a migrated row fills are left out.

  Shown: which databases the audit passes, and that every operation keeps what it checks.
\<close>

section \<open>Tables\<close>

record analysis_content =
  c_status :: string
  c_method :: string
  c_reason :: string
  c_comment :: string

record analysis_record =
  ar_id :: int
  ar_content :: analysis_content
  ar_revision :: int
  ar_hash :: string
  ar_origin :: string
  ar_created :: string
  ar_updated :: string

record analysis_block =
  ab_id :: int
  ab_scan :: int
  ab_repository :: "int option"
  ab_file :: int
  ab_start :: int
  ab_end :: int
  ab_origin :: string
  ab_verified :: bool
  ab_record :: "int option"
  ab_hash :: "string option"
  ab_by :: string
  ab_at :: string

record inheritance_group =
  ig_id :: int
  ig_scan :: int
  ig_file :: int
  ig_source_block :: "int option"

record legacy_row =
  lg_line :: int
  lg_content :: analysis_content
  lg_draft :: bool
  lg_reviewer :: string

record 'y domain =
  records :: "analysis_record list"
  blocks :: "analysis_block list"
  groups :: "inheritance_group list"
  legacy :: "legacy_row list"
  file_states :: 'y

record physical_line =
  pl_id :: int
  pl_file :: int
  pl_number :: int

text \<open>The facts: files and lines, and the repositories of scans.\<close>

record physical =
  ph_files :: "file_row list"
  ph_lines :: "physical_line list"
  ph_repositories :: "(int \<times> int) list"

type_synonym 'y review_db = "'y domain database"

definition on_domain :: "('y domain \<Rightarrow> 'y domain) \<Rightarrow> 'y review_db \<Rightarrow> 'y review_db" where
  "on_domain f d = d\<lparr>derived := f (derived d)\<rparr>"

definition op_bind :: "('d, 'a) operation \<Rightarrow> ('a \<Rightarrow> ('d, 'b) operation) \<Rightarrow> ('d, 'b) operation" where
  "op_bind m f d = (case m d of (Inl e, t) \<Rightarrow> (Inl e, t) | (Inr x, t) \<Rightarrow> f x t)"

abbreviation refuse :: "string \<Rightarrow> ('d, 'a) operation" where
  "refuse msg d \<equiv> (Inl (text_error msg), d)"

definition first_fault :: "string option list \<Rightarrow> string option" where
  "first_fault fs = (case List.find (\<lambda>f. f \<noteq> None) fs of None \<Rightarrow> None | Some f \<Rightarrow> f)"

section \<open>Lookups\<close>

definition get_record :: "int \<Rightarrow> 'y review_db \<Rightarrow> analysis_record option" where
  "get_record i d = List.find (\<lambda>r. ar_id r = i) (records (derived d))"

definition get_block :: "int \<Rightarrow> 'y review_db \<Rightarrow> analysis_block option" where
  "get_block i d = List.find (\<lambda>b. ab_id b = i) (blocks (derived d))"

definition get_group :: "int \<Rightarrow> 'y review_db \<Rightarrow> inheritance_group option" where
  "get_group i d = List.find (\<lambda>g. ig_id g = i) (groups (derived d))"

definition relation_by_id :: "int \<Rightarrow> 'y review_db \<Rightarrow> line_link option" where
  "relation_by_id i d = List.find (\<lambda>l. ll_id l = i) (line_links d)"

definition get_link :: "int \<Rightarrow> int \<Rightarrow> 'y review_db \<Rightarrow> line_link option" where
  "get_link scan line d = List.find (\<lambda>l. ll_scan l = scan \<and> ll_line l = line) (line_links d)"

definition get_active_line_ids :: "int \<Rightarrow> 'y review_db \<Rightarrow> int set" where
  "get_active_line_ids i d = set (map ll_line (filter (\<lambda>l. ll_active l \<and> ll_record l = i) (line_links d)))"

text \<open>A line with the scan of its file.\<close>

definition the_line :: "physical \<Rightarrow> int \<Rightarrow> (physical_line \<times> int) option" where
  "the_line ph i = (case List.find (\<lambda>l. pl_id l = i) (ph_lines ph) of
       None \<Rightarrow> None
     | Some l \<Rightarrow> map_option (\<lambda>f. (l, fl_scan f)) (List.find (\<lambda>f. fl_id f = pl_file l) (ph_files ph)))"

definition file_scan :: "physical \<Rightarrow> int \<Rightarrow> int option" where
  "file_scan ph i = map_option fl_scan (List.find (\<lambda>f. fl_id f = i) (ph_files ph))"

section \<open>Records\<close>

definition new_record :: "(analysis_content \<Rightarrow> string) \<Rightarrow> string \<Rightarrow> string \<Rightarrow> int \<Rightarrow> analysis_content \<Rightarrow> analysis_record" where
  "new_record hash now origin i c = \<lparr>ar_id = i, ar_content = c, ar_revision = 1, ar_hash = hash c, ar_origin = origin, ar_created = now, ar_updated = now\<rparr>"

definition fresh_ids :: "int list \<Rightarrow> nat \<Rightarrow> int list" where
  "fresh_ids ids n = map (\<lambda>k. fresh_id ids + int k) [0..<n]"

definition create_record :: "(analysis_content \<Rightarrow> string) \<Rightarrow> string \<Rightarrow> string \<Rightarrow> analysis_content \<Rightarrow> 'y review_db \<Rightarrow> analysis_record option \<times> 'y review_db" where
  "create_record hash now origin c d =
     (let i = fresh_id (map ar_id (records (derived d))); d' = on_domain (\<lambda>m. m\<lparr>records := records m @ [new_record hash now origin i c]\<rparr>) d in (get_record i d', d'))"

text \<open>The identifiers of one insertion follow each other; the rows are read back in the order of the input.\<close>

definition create_manual_records_many ::
  "(analysis_content \<Rightarrow> string) \<Rightarrow> string \<Rightarrow> string \<Rightarrow> analysis_content list \<Rightarrow> 'y review_db \<Rightarrow> analysis_record list \<times> 'y review_db" where
  "create_manual_records_many hash now origin cs d =
     (let rows = map2 (new_record hash now origin) (fresh_ids (map ar_id (records (derived d))) (length cs)) cs
      in (rows, on_domain (\<lambda>m. m\<lparr>records := records m @ rows\<rparr>) d))"

record record_update =
  ru_record :: int
  ru_expected :: "int option"
  ru_content :: analysis_content

definition update_fault :: "'y review_db \<Rightarrow> record_update \<Rightarrow> string option" where
  "update_fault d u =
     (case ru_expected u of
        None \<Rightarrow> Some ''EXPECTED_RECORD_REVISION_REQUIRED''
      | Some e \<Rightarrow> (case get_record (ru_record u) d of None \<Rightarrow> None
          | Some r \<Rightarrow> if ar_revision r \<noteq> e then Some ''STALE_CONTENT_REVISION'' else None))"

definition updated_record :: "(analysis_content \<Rightarrow> string) \<Rightarrow> string \<Rightarrow> analysis_content \<Rightarrow> analysis_record \<Rightarrow> analysis_record" where
  "updated_record hash now c r = r\<lparr>ar_content := c, ar_revision := ar_revision r + 1, ar_hash := hash c, ar_updated := now\<rparr>"

definition update_records_many ::
  "(analysis_content \<Rightarrow> string) \<Rightarrow> string \<Rightarrow> record_update list \<Rightarrow> ('y review_db, analysis_record option list) operation" where
  "update_records_many hash now us d =
     (if us = [] then (Inr [], d)
      else if list_ex (\<lambda>u. ru_record u \<le> 0) us then refuse ''analysis record id is required'' d
      else if \<not> distinct (map ru_record us) then refuse ''duplicate analysis record in update batch'' d
      else if list_ex (\<lambda>u. get_record (ru_record u) d = None) us then refuse ''analysis record not found'' d
      else case first_fault (map (update_fault d) us) of
        Some msg \<Rightarrow> refuse msg d
      | None \<Rightarrow>
          (case update_rows (\<lambda>r. ar_id r \<in> set (map ru_record us))
              (\<lambda>r. case map_of (map (\<lambda>u. (ru_record u, ru_content u)) us) (ar_id r) of None \<Rightarrow> r | Some c \<Rightarrow> updated_record hash now c r) (records (derived d)) of
             (n, rs) \<Rightarrow>
               let d' = on_domain (\<lambda>m. m\<lparr>records := rs\<rparr>) d in
               if n \<noteq> length us then refuse ''STALE_CONTENT_REVISION'' d' else (Inr (map (\<lambda>u. get_record (ru_record u) d') us), d')))"

definition update_record ::
  "(analysis_content \<Rightarrow> string) \<Rightarrow> string \<Rightarrow> int \<Rightarrow> analysis_content \<Rightarrow> int option \<Rightarrow> ('y review_db, analysis_record option) operation" where
  "update_record hash now i c expected d =
     (case get_record i d of
        None \<Rightarrow> refuse ''analysis record not found'' d
      | Some r \<Rightarrow>
          if (case expected of None \<Rightarrow> False | Some e \<Rightarrow> ar_revision r \<noteq> e) then refuse ''STALE_CONTENT_REVISION'' d
          else (case update_rows (\<lambda>q. ar_id q = i \<and> ar_revision q = ar_revision r) (updated_record hash now c) (records (derived d)) of
            (n, rs) \<Rightarrow>
              let d' = on_domain (\<lambda>m. m\<lparr>records := rs\<rparr>) d in
              if n \<noteq> 1 then refuse ''STALE_CONTENT_REVISION'' d' else (Inr (get_record i d'), d')))"

section \<open>Rejections that a save ends\<close>

definition close_active_rejections_many :: "string \<Rightarrow> int \<Rightarrow> int list \<Rightarrow> string \<Rightarrow> 'y review_db \<Rightarrow> nat \<times> 'y review_db" where
  "close_active_rejections_many now scan ids reason d =
     (case update_rows (\<lambda>x. rj_scan x = scan \<and> rj_line x \<in> set ids \<and> rj_active x)
         (\<lambda>x. x\<lparr>rj_active := False, rj_terminal := Some reason, rj_resolved := Some now, rj_revision := rj_revision x + 1\<rparr>) (rejections d) of
        (n, xs) \<Rightarrow> (n, d\<lparr>rejections := xs\<rparr>))"

definition close_active_rejection :: "string \<Rightarrow> int \<Rightarrow> int \<Rightarrow> string \<Rightarrow> 'y review_db \<Rightarrow> nat \<times> 'y review_db" where
  "close_active_rejection now scan line reason d =
     (case update_rows (\<lambda>x. rj_scan x = scan \<and> rj_line x = line \<and> rj_active x)
         (\<lambda>x. x\<lparr>rj_active := False, rj_terminal := Some reason, rj_resolved := Some now, rj_revision := rj_revision x + 1\<rparr>) (rejections d) of
        (n, xs) \<Rightarrow> (n, d\<lparr>rejections := xs\<rparr>))"

section \<open>Blocks\<close>

record block_request =
  br_scan :: int
  br_repository :: "int option"
  br_file :: int
  br_start :: int
  br_end :: int
  br_record :: int
  br_hash :: "string option"
  br_by :: string
  br_verified :: bool

definition new_block :: "string \<Rightarrow> string \<Rightarrow> int \<Rightarrow> block_request \<Rightarrow> analysis_block" where
  "new_block now origin i b = \<lparr>ab_id = i, ab_scan = br_scan b, ab_repository = br_repository b, ab_file = br_file b, ab_start = br_start b, ab_end = br_end b,
     ab_origin = origin, ab_verified = br_verified b, ab_record = Some (br_record b), ab_hash = br_hash b, ab_by = br_by b, ab_at = now\<rparr>"

definition create_blocks_many :: "physical \<Rightarrow> string \<Rightarrow> string \<Rightarrow> block_request list \<Rightarrow> ('y review_db, analysis_block list) operation" where
  "create_blocks_many ph now origin bs d =
     (if bs = [] then (Inr [], d)
      else if \<not> list_all (\<lambda>b. br_scan b = br_scan (hd bs)) bs \<or> br_scan (hd bs) = 0 then refuse ''ANALYSIS_BLOCK_BATCH_SCAN_IDENTITY_MISMATCH'' d
      else if list_ex (\<lambda>b. br_file b \<le> 0) bs then refuse ''ANALYSIS_BLOCK_FILE_REQUIRED'' d
      else if list_ex (\<lambda>b. file_scan ph (br_file b) \<noteq> Some (br_scan b)) bs then refuse ''ANALYSIS_BLOCK_FILE_SCAN_IDENTITY_MISMATCH'' d
      else if list_ex (\<lambda>b. case br_repository b of None \<Rightarrow> False | Some r \<Rightarrow> (br_scan b, r) \<notin> set (ph_repositories ph)) bs
        then refuse ''ANALYSIS_BLOCK_REPOSITORY_IDENTITY_MISMATCH'' d
      else if list_ex (\<lambda>b. br_record b \<le> 0) bs then refuse ''ANALYSIS_BLOCK_RECORD_REQUIRED'' d
      else if list_ex (\<lambda>b. get_record (br_record b) d = None) bs then refuse ''ANALYSIS_RECORD_NOT_FOUND'' d
      else if list_ex (\<lambda>b. br_start b < 1 \<or> br_end b < br_start b) bs then refuse ''invalid analysis block range'' d
      else let rows = map2 (new_block now origin) (fresh_ids (map ab_id (blocks (derived d))) (length bs)) bs
        in (Inr rows, on_domain (\<lambda>m. m\<lparr>blocks := blocks m @ rows\<rparr>) d))"

definition create_block :: "physical \<Rightarrow> string \<Rightarrow> string \<Rightarrow> int option \<Rightarrow> block_request \<Rightarrow> ('y review_db, analysis_block option) operation" where
  "create_block ph now origin r b d =
     (if br_start b < 1 \<or> br_end b < br_start b then refuse ''invalid analysis block range'' d
      else if file_scan ph (br_file b) \<noteq> Some (br_scan b) then refuse ''ANALYSIS_BLOCK_FILE_SCAN_IDENTITY_MISMATCH'' d
      else if (case br_repository b of None \<Rightarrow> False | Some p \<Rightarrow> (br_scan b, p) \<notin> set (ph_repositories ph)) then refuse ''ANALYSIS_BLOCK_REPOSITORY_IDENTITY_MISMATCH'' d
      else let i = fresh_id (map ab_id (blocks (derived d))); d' = on_domain (\<lambda>m. m\<lparr>blocks := blocks m @ [(new_block now origin i b)\<lparr>ab_record := r\<rparr>]\<rparr>) d
        in (Inr (get_block i d'), d'))"

section \<open>Relations\<close>

record link_request =
  lq_scan :: int
  lq_line :: int
  lq_record :: int
  lq_block :: "int option"
  lq_state :: string
  lq_origin :: string
  lq_group :: "int option"
  lq_active :: bool
  lq_by :: string
  lq_at :: "string option"
  lq_source_scan :: "int option"
  lq_source_line :: "int option"
  lq_source_relation :: "int option"
  lq_expected :: "int option"

definition block_fault :: "'y review_db \<Rightarrow> physical_line \<Rightarrow> link_request \<Rightarrow> string option" where
  "block_fault d l q = (case lq_block q of
       None \<Rightarrow> None
     | Some i \<Rightarrow> (case get_block i d of None \<Rightarrow> Some ''ANALYSIS_BLOCK_NOT_FOUND''
         | Some b \<Rightarrow> if ab_scan b \<noteq> lq_scan q \<or> ab_file b \<noteq> pl_file l then Some ''ANALYSIS_BLOCK_IDENTITY_MISMATCH''
             else if pl_number l < ab_start b \<or> ab_end b < pl_number l then Some ''ANALYSIS_BLOCK_LINE_RANGE_MISMATCH'' else None))"

definition group_fault :: "'y review_db \<Rightarrow> physical_line \<Rightarrow> link_request \<Rightarrow> string option" where
  "group_fault d l q = (case lq_group q of
       None \<Rightarrow> None
     | Some i \<Rightarrow> (case get_group i d of None \<Rightarrow> Some ''INHERITANCE_GROUP_NOT_FOUND''
         | Some g \<Rightarrow> if ig_scan g \<noteq> lq_scan q \<or> ig_file g \<noteq> pl_file l then Some ''INHERITANCE_GROUP_IDENTITY_MISMATCH'' else None))"

definition source_fault :: "'y review_db \<Rightarrow> link_request \<Rightarrow> string option" where
  "source_fault d q = (case (lq_source_scan q, lq_source_line q, lq_source_relation q) of
       (None, None, None) \<Rightarrow> None
     | (Some s, Some n, Some i) \<Rightarrow> (case relation_by_id i d of None \<Rightarrow> Some ''SOURCE_RELATION_NOT_FOUND''
         | Some r \<Rightarrow> if ll_scan r \<noteq> s \<or> ll_line r \<noteq> n then Some ''SOURCE_RELATION_IDENTITY_MISMATCH'' else None)
     | _ \<Rightarrow> Some ''SOURCE_RELATION_IDENTITY_MISMATCH'')"

definition revision_fault :: "'y review_db \<Rightarrow> link_request \<Rightarrow> string option" where
  "revision_fault d q = (case lq_expected q of
       None \<Rightarrow> None
     | Some e \<Rightarrow> if (case get_link (lq_scan q) (lq_line q) d of None \<Rightarrow> 0 | Some r \<Rightarrow> ll_revision r) \<noteq> e then Some ''STALE_RELATION_REVISION'' else None)"

definition link_fault :: "physical \<Rightarrow> 'y review_db \<Rightarrow> link_request \<Rightarrow> string option" where
  "link_fault ph d q = (case the_line ph (lq_line q) of
       None \<Rightarrow> Some ''LINE_SCAN_IDENTITY_MISMATCH''
     | Some (l, s) \<Rightarrow> first_fault [block_fault d l q, group_fault d l q, source_fault d q, revision_fault d q])"

definition new_link :: "string \<Rightarrow> int \<Rightarrow> link_request \<Rightarrow> line_link" where
  "new_link now i q = \<lparr>ll_id = i, ll_scan = lq_scan q, ll_line = lq_line q, ll_active = lq_active q, ll_revision = 1, ll_review_state = lq_state q,
     ll_record = lq_record q, ll_source_scan = lq_source_scan q, ll_source_line = lq_source_line q, ll_source_relation = lq_source_relation q,
     ll_block = lq_block q, ll_origin = lq_origin q, ll_group = lq_group q, ll_reviewed_by = lq_by q, ll_reviewed_at = lq_at q, ll_created = now, ll_updated = now\<rparr>"

definition relink :: "string \<Rightarrow> link_request \<Rightarrow> line_link \<Rightarrow> line_link" where
  "relink now q l = l\<lparr>ll_record := lq_record q, ll_block := lq_block q, ll_review_state := lq_state q, ll_origin := lq_origin q, ll_group := lq_group q,
     ll_active := lq_active q, ll_reviewed_by := lq_by q, ll_reviewed_at := lq_at q, ll_source_scan := lq_source_scan q, ll_source_line := lq_source_line q,
     ll_source_relation := lq_source_relation q, ll_revision := ll_revision l + 1, ll_updated := now\<rparr>"

definition write_links :: "string \<Rightarrow> link_request list \<Rightarrow> line_link list \<Rightarrow> line_link list" where
  "write_links now qs ls =
     (let known = (\<lambda>q. list_ex (\<lambda>l. ll_scan l = lq_scan q \<and> ll_line l = lq_line q) ls); added = filter (\<lambda>q. \<not> known q) qs in
      map (\<lambda>l. case List.find (\<lambda>q. lq_scan q = ll_scan l \<and> lq_line q = ll_line l) qs of None \<Rightarrow> l | Some q \<Rightarrow> relink now q l) ls @
      map2 (new_link now) (fresh_ids (map ll_id ls) (length added)) added)"

definition create_links_many :: "physical \<Rightarrow> string \<Rightarrow> link_request list \<Rightarrow> ('y review_db, line_link option list) operation" where
  "create_links_many ph now qs d =
     (if qs = [] then (Inr [], d)
      else if \<not> list_all (\<lambda>q. lq_scan q = lq_scan (hd qs)) qs \<or> lq_scan (hd qs) = 0 then refuse ''LINE_LINK_BATCH_SCAN_IDENTITY_MISMATCH'' d
      else if list_ex (\<lambda>q. lq_line q \<le> 0) qs then refuse ''LINE_ID_REQUIRED'' d
      else if \<not> distinct (map lq_line qs) then refuse ''DUPLICATE_LINE_IN_BATCH'' d
      else if list_ex (\<lambda>q. map_option snd (the_line ph (lq_line q)) \<noteq> Some (lq_scan q)) qs then refuse ''LINE_SCAN_IDENTITY_MISMATCH'' d
      else if list_ex (\<lambda>q. lq_record q \<le> 0) qs then refuse ''ANALYSIS_RECORD_REQUIRED'' d
      else if list_ex (\<lambda>q. get_record (lq_record q) d = None) qs then refuse ''ANALYSIS_RECORD_NOT_FOUND'' d
      else if list_ex (\<lambda>q. case lq_block q of None \<Rightarrow> False | Some i \<Rightarrow> get_block i d = None) qs then refuse ''ANALYSIS_BLOCK_NOT_FOUND'' d
      else if list_ex (\<lambda>q. case lq_group q of None \<Rightarrow> False | Some i \<Rightarrow> get_group i d = None) qs then refuse ''INHERITANCE_GROUP_NOT_FOUND'' d
      else if list_ex (\<lambda>q. case lq_source_relation q of None \<Rightarrow> False | Some i \<Rightarrow> relation_by_id i d = None) qs then refuse ''SOURCE_RELATION_NOT_FOUND'' d
      else case first_fault (map (link_fault ph d) qs) of
        Some msg \<Rightarrow> refuse msg d
      | None \<Rightarrow>
          let d' = d\<lparr>line_links := write_links now qs (line_links d)\<rparr> in
          if length (filter (\<lambda>l. list_ex (\<lambda>q. lq_scan q = ll_scan l \<and> lq_line q = ll_line l) qs) (line_links d)) \<noteq>
             length (filter (\<lambda>q. get_link (lq_scan q) (lq_line q) d \<noteq> None) qs) then refuse ''STALE_RELATION_REVISION'' d'
          else (Inr (map (\<lambda>q. get_link (lq_scan q) (lq_line q) d') qs), d'))"

text \<open>One relation at a time, as the inheritance engine writes them.\<close>

definition link_block_fault :: "'y review_db \<Rightarrow> physical_line \<Rightarrow> link_request \<Rightarrow> string option" where
  "link_block_fault d l q = (case lq_block q of
       None \<Rightarrow> None
     | Some i \<Rightarrow> (case get_block i d of None \<Rightarrow> Some ''ANALYSIS_BLOCK_IDENTITY_MISMATCH''
         | Some b \<Rightarrow> if ab_scan b \<noteq> lq_scan q \<or> ab_file b \<noteq> pl_file l then Some ''ANALYSIS_BLOCK_IDENTITY_MISMATCH''
             else if pl_number l < ab_start b \<or> ab_end b < pl_number l then Some ''ANALYSIS_BLOCK_LINE_RANGE_MISMATCH'' else None))"

definition link_group_fault :: "'y review_db \<Rightarrow> physical_line \<Rightarrow> link_request \<Rightarrow> string option" where
  "link_group_fault d l q = (case lq_group q of
       None \<Rightarrow> None
     | Some i \<Rightarrow> (case get_group i d of None \<Rightarrow> Some ''INHERITANCE_GROUP_IDENTITY_MISMATCH''
         | Some g \<Rightarrow> if ig_scan g \<noteq> lq_scan q \<or> ig_file g \<noteq> pl_file l then Some ''INHERITANCE_GROUP_IDENTITY_MISMATCH'' else None))"

definition link_source_fault :: "'y review_db \<Rightarrow> link_request \<Rightarrow> string option" where
  "link_source_fault d q = (case (lq_source_scan q, lq_source_line q, lq_source_relation q) of
       (None, None, None) \<Rightarrow> None
     | (Some s, Some n, Some i) \<Rightarrow> (case relation_by_id i d of None \<Rightarrow> Some ''SOURCE_RELATION_IDENTITY_MISMATCH''
         | Some r \<Rightarrow> if ll_scan r \<noteq> s \<or> ll_line r \<noteq> n then Some ''SOURCE_RELATION_IDENTITY_MISMATCH'' else None)
     | _ \<Rightarrow> Some ''SOURCE_RELATION_IDENTITY_MISMATCH'')"

definition store_link :: "string \<Rightarrow> link_request \<Rightarrow> ('y review_db, line_link option) operation" where
  "store_link now q d =
     (case get_link (lq_scan q) (lq_line q) d of
        Some r \<Rightarrow>
          if (case lq_expected q of None \<Rightarrow> False | Some e \<Rightarrow> ll_revision r \<noteq> e) then refuse ''STALE_RELATION_REVISION'' d
          else (case update_rows (\<lambda>x. ll_scan x = lq_scan q \<and> ll_line x = lq_line q \<and> (case lq_expected q of None \<Rightarrow> True | Some e \<Rightarrow> ll_revision x = e))
              (relink now (q\<lparr>lq_active := True\<rparr>)) (line_links d) of
            (n, ls) \<Rightarrow> let d' = d\<lparr>line_links := ls\<rparr> in
              if lq_expected q \<noteq> None \<and> n \<noteq> 1 then refuse ''STALE_RELATION_REVISION'' d' else (Inr (get_link (lq_scan q) (lq_line q) d'), d'))
      | None \<Rightarrow>
          if (case lq_expected q of None \<Rightarrow> False | Some e \<Rightarrow> e \<noteq> 0) then refuse ''STALE_RELATION_REVISION'' d
          else let i = fresh_id (map ll_id (line_links d)); d' = d\<lparr>line_links := line_links d @ [new_link now i (q\<lparr>lq_active := True\<rparr>)]\<rparr>
            in (Inr (relation_by_id i d'), d'))"

definition create_link :: "physical \<Rightarrow> string \<Rightarrow> link_request \<Rightarrow> ('y review_db, line_link option) operation" where
  "create_link ph now q d =
     (case the_line ph (lq_line q) of
        None \<Rightarrow> refuse ''LINE_SCAN_IDENTITY_MISMATCH'' d
      | Some (l, s) \<Rightarrow>
          if s \<noteq> lq_scan q then refuse ''LINE_SCAN_IDENTITY_MISMATCH'' d
          else if get_record (lq_record q) d = None then refuse ''ANALYSIS_RECORD_NOT_FOUND'' d
          else (case first_fault [link_block_fault d l q, link_group_fault d l q, link_source_fault d q] of Some msg \<Rightarrow> refuse msg d | None \<Rightarrow> store_link now q d))"

section \<open>The projection for old readers\<close>

definition upsert_many :: "legacy_row list \<Rightarrow> 'y review_db \<Rightarrow> 'y review_db" where
  "upsert_many rows = on_domain (\<lambda>m. m\<lparr>legacy := fold (\<lambda>r ls.
     if list_ex (\<lambda>l. lg_line l = lg_line r) ls then map (\<lambda>l. if lg_line l = lg_line r then r else l) ls else ls @ [r]) rows (legacy m)\<rparr>)"

section \<open>Audit\<close>

definition orphan_link :: "physical \<Rightarrow> 'y review_db \<Rightarrow> line_link \<Rightarrow> bool" where
  "orphan_link ph d q \<longleftrightarrow> get_record (ll_record q) d = None \<or> map_option snd (the_line ph (ll_line q)) \<noteq> Some (ll_scan q)"

definition unreferenced_record :: "'y review_db \<Rightarrow> analysis_record \<Rightarrow> bool" where
  "unreferenced_record d r \<longleftrightarrow> \<not> list_ex (\<lambda>q. ll_record q = ar_id r) (line_links d) \<and> \<not> list_ex (\<lambda>b. ab_record b = Some (ar_id r)) (blocks (derived d)) \<and>
     \<not> list_ex (\<lambda>x. rj_record x = ar_id r) (rejections d)"

definition cross_scan_block :: "physical \<Rightarrow> analysis_block \<Rightarrow> bool" where
  "cross_scan_block ph b \<longleftrightarrow> file_scan ph (ab_file b) \<noteq> Some (ab_scan b)"

definition bad_link_identity :: "physical \<Rightarrow> 'y review_db \<Rightarrow> line_link \<Rightarrow> bool" where
  "bad_link_identity ph d q = (case the_line ph (ll_line q) of
       None \<Rightarrow> True
     | Some (l, s) \<Rightarrow> s \<noteq> ll_scan q \<or>
         (case ll_block q of None \<Rightarrow> False | Some i \<Rightarrow> (case get_block i d of None \<Rightarrow> False
            | Some b \<Rightarrow> ab_scan b \<noteq> ll_scan q \<or> ab_file b \<noteq> pl_file l \<or> ab_start b < 1 \<or> ab_end b < ab_start b \<or> pl_number l < ab_start b \<or> ab_end b < pl_number l)) \<or>
         (case ll_group q of None \<Rightarrow> False | Some i \<Rightarrow> (case get_group i d of None \<Rightarrow> True
            | Some g \<Rightarrow> ig_scan g \<noteq> ll_scan q \<or> ig_file g \<noteq> pl_file l \<or> ig_source_block g = None)))"

definition REVIEW_STATES :: "string list" where
  "REVIEW_STATES = [''MANUAL_DRAFT'', ''MANUAL_CONFIRMED'', ''INHERITED_PENDING'', ''CARRIED_COVERED'']"

definition bad_source_identity :: "'y review_db \<Rightarrow> line_link \<Rightarrow> bool" where
  "bad_source_identity d q =
     (if ll_origin q = ''INHERITANCE''
      then (case (ll_source_scan q, ll_source_line q, ll_source_relation q) of
              (Some s, Some n, Some i) \<Rightarrow> (case relation_by_id i d of None \<Rightarrow> True | Some r \<Rightarrow> ll_scan r \<noteq> s \<or> ll_line r \<noteq> n)
            | _ \<Rightarrow> True)
      else ll_source_scan q \<noteq> None \<or> ll_source_line q \<noteq> None \<or> ll_source_relation q \<noteq> None)"

definition bad_rejection :: "'y review_db \<Rightarrow> rejection \<Rightarrow> bool" where
  "bad_rejection d x \<longleftrightarrow> rj_active x \<and>
     (case relation_by_id (rj_relation x) d of None \<Rightarrow> True
      | Some q \<Rightarrow> ll_scan q \<noteq> rj_scan x \<or> ll_line q \<noteq> rj_line x \<or> ll_active q \<or> ll_revision q \<noteq> rj_relation_revision x + 1 \<or> ll_record q \<noteq> rj_record x \<or>
          or_zero (ll_source_scan q) \<noteq> or_zero (rj_source_scan x) \<or> or_zero (ll_source_line q) \<noteq> or_zero (rj_source_line x) \<or>
          or_zero (ll_source_relation q) \<noteq> or_zero (rj_source_relation x))"

definition duplicates :: "'a list \<Rightarrow> nat" where
  "duplicates ks = length (filter (\<lambda>k. count_list ks k > 1) (remdups ks))"

definition in_scope :: "int option \<Rightarrow> line_link \<Rightarrow> bool" where
  "in_scope scope q = (case scope of None \<Rightarrow> True | Some s \<Rightarrow> ll_scan q = s)"

record audit_counts =
  orphan_links :: nat
  orphan_records :: nat
  not_linked_to_current_line :: nat
  historical_referenced_records :: nat
  cross_scan_blocks :: nat
  duplicate_current_links :: nat
  link_identity_mismatches :: nat
  invalid_review_states :: nat
  source_identity_mismatches :: nat
  rejection_identity_mismatches :: nat
  duplicate_active_rejections :: nat

definition audit_consistency :: "physical \<Rightarrow> int option \<Rightarrow> 'y review_db \<Rightarrow> audit_counts" where
  "audit_consistency ph scope d =
     (let links = filter (in_scope scope) (line_links d); unlinked = filter (\<lambda>r. \<not> list_ex (\<lambda>q. ll_record q = ar_id r) (line_links d)) (records (derived d)) in
      \<lparr>orphan_links = length (filter (orphan_link ph d) links),
       orphan_records = length (filter (unreferenced_record d) (records (derived d))),
       not_linked_to_current_line = length unlinked,
       historical_referenced_records = length (filter (\<lambda>r. \<not> unreferenced_record d r) unlinked),
       cross_scan_blocks = length (filter (cross_scan_block ph) (blocks (derived d))),
       duplicate_current_links = duplicates (map (\<lambda>q. (ll_scan q, ll_line q)) (line_links d)),
       link_identity_mismatches = length (filter (bad_link_identity ph d) links),
       invalid_review_states = length (filter (\<lambda>q. ll_review_state q \<notin> set REVIEW_STATES) links),
       source_identity_mismatches = length (filter (bad_source_identity d) links),
       rejection_identity_mismatches = length (filter (bad_rejection d) (rejections d)),
       duplicate_active_rejections = duplicates (map (\<lambda>x. (rj_scan x, rj_line x)) (filter rj_active (rejections d)))\<rparr>)"

text \<open>The status of the scope, which ignores records without a reference when a scan is given, and the global one.\<close>

definition global_passed :: "audit_counts \<Rightarrow> bool" where
  "global_passed a \<longleftrightarrow> orphan_links a = 0 \<and> orphan_records a = 0 \<and> cross_scan_blocks a = 0 \<and> duplicate_current_links a = 0 \<and> link_identity_mismatches a = 0 \<and>
     invalid_review_states a = 0 \<and> source_identity_mismatches a = 0 \<and> rejection_identity_mismatches a = 0 \<and> duplicate_active_rejections a = 0"

definition audit_passed :: "int option \<Rightarrow> audit_counts \<Rightarrow> bool" where
  "audit_passed scope a = global_passed (if scope = None then a else a\<lparr>orphan_records := 0\<rparr>)"

section \<open>What the audit means\<close>

lemma duplicates_0: "duplicates ks = 0 \<longleftrightarrow> distinct ks"
proof -
  have "duplicates ks = 0 \<longleftrightarrow> (\<forall>k \<in> set ks. count_list ks k \<le> 1)" by (auto simp: duplicates_def filter_empty_conv not_less)
  also have "\<dots> \<longleftrightarrow> (\<forall>k. count_list ks k = (if k \<in> set ks then 1 else 0))"
    using count_list_0_iff [of ks] by (metis One_nat_def le_0_eq le_Suc_eq order_refl zero_le)
  also have "\<dots> \<longleftrightarrow> distinct ks" by (simp add: distinct_count_atmost_1 count_mset)
  finally show ?thesis .
qed

text \<open>Keys are unique, the next number of a rejection is a fresh one, blocks have lines, and the block of a relation exists.\<close>

definition domain_keys :: "'y review_db \<Rightarrow> bool" where
  "domain_keys d \<longleftrightarrow> keys_ok d \<and> distinct (map ar_id (records (derived d))) \<and> distinct (map ab_id (blocks (derived d))) \<and>
     (\<forall>b \<in> set (blocks (derived d)). 1 \<le> ab_start b \<and> ab_start b \<le> ab_end b) \<and>
     (\<forall>q \<in> set (line_links d). \<forall>i. ll_block q = Some i \<longrightarrow> get_block i d \<noteq> None)"

definition good_link :: "physical \<Rightarrow> 'y review_db \<Rightarrow> line_link \<Rightarrow> bool" where
  "good_link ph d q \<longleftrightarrow> \<not> orphan_link ph d q \<and> \<not> bad_link_identity ph d q \<and> ll_review_state q \<in> set REVIEW_STATES \<and> \<not> bad_source_identity d q"

abbreviation link_key :: "line_link \<Rightarrow> int \<times> int" where
  "link_key q \<equiv> (ll_scan q, ll_line q)"

abbreviation rejection_key :: "rejection \<Rightarrow> int \<times> int" where
  "rejection_key x \<equiv> (rj_scan x, rj_line x)"

definition gate_ok :: "physical \<Rightarrow> 'y review_db \<Rightarrow> bool" where
  "gate_ok ph d \<longleftrightarrow> (\<forall>q \<in> set (line_links d). good_link ph d q) \<and> (\<forall>b \<in> set (blocks (derived d)). \<not> cross_scan_block ph b) \<and>
     distinct (map link_key (line_links d)) \<and> (\<forall>x \<in> set (rejections d). \<not> bad_rejection d x) \<and> distinct (map rejection_key (filter rj_active (rejections d)))"

text \<open>The audit of every single scan passes.\<close>

lemma gate_ok_iff: "(\<forall>s. audit_passed (Some s) (audit_consistency ph (Some s) d)) \<longleftrightarrow> gate_ok ph d"
  by (auto simp: audit_passed_def global_passed_def audit_consistency_def Let_def in_scope_def duplicates_0 good_link_def gate_ok_def filter_empty_conv)

section \<open>Lookups after a change\<close>

lemma find_key_map: "(\<And>x. key (f x) = key x) \<Longrightarrow> List.find (\<lambda>x. key x = i) (map f xs) = map_option f (List.find (\<lambda>x. key x = i) xs)"
  by (induction xs) auto

lemma fresh_id_above: "i \<in> set ids \<Longrightarrow> i < fresh_id ids"
proof -
  have "m \<le> fold max xs m \<and> (\<forall>i \<in> set xs. i \<le> fold max xs m)" for xs :: "int list" and m
    by (induction xs arbitrary: m) (auto, (meson max.cobounded1 max.cobounded2 order_trans)+)
  then show "i \<in> set ids \<Longrightarrow> i < fresh_id ids" by (force simp: fresh_id_def)
qed

lemma fresh_id_positive: "fresh_id ids > 0"
proof -
  have "m \<le> fold max xs m" for xs :: "int list" and m by (induction xs arbitrary: m) (auto, meson max.cobounded2 order_trans)
  then show ?thesis by (smt (verit) fresh_id_def)
qed

lemma fresh_ids_spec: "distinct (fresh_ids ids n)" "length (fresh_ids ids n) = n" "i \<in> set (fresh_ids ids n) \<Longrightarrow> i \<notin> set ids \<and> i > 0"
proof -
  show "distinct (fresh_ids ids n)" by (auto simp: fresh_ids_def distinct_map inj_on_def)
  show "length (fresh_ids ids n) = n" by (simp add: fresh_ids_def)
  assume "i \<in> set (fresh_ids ids n)"
  then have "fresh_id ids \<le> i" by (auto simp: fresh_ids_def)
  then show "i \<notin> set ids \<and> i > 0" using fresh_id_above [of i ids] fresh_id_positive [of ids] by auto
qed

lemma map2_key: "(\<And>i x. key (f i x) = i) \<Longrightarrow> length is = length xs \<Longrightarrow> map key (map2 f is xs) = is"
  by (induction "is" xs rule: list_induct2') auto

text \<open>What the later database still has: records, blocks, groups and, with scan and line, relations.\<close>

definition extends :: "'y review_db \<Rightarrow> 'y review_db \<Rightarrow> bool" where
  "extends d t \<longleftrightarrow> (\<forall>i. get_record i d \<noteq> None \<longrightarrow> get_record i t \<noteq> None) \<and> (\<forall>i b. get_block i d = Some b \<longrightarrow> get_block i t = Some b) \<and>
     groups (derived t) = groups (derived d) \<and> (\<forall>i l. relation_by_id i d = Some l \<longrightarrow> (\<exists>m. relation_by_id i t = Some m \<and> link_key m = link_key l))"

lemma extends_trans: "extends d t \<Longrightarrow> extends t u \<Longrightarrow> extends d u"
  by (simp add: extends_def) (metis (no_types, opaque_lifting))

lemma good_link_extends:
  assumes "good_link ph d q" "extends d t" "\<forall>i. ll_block q = Some i \<longrightarrow> get_block i d \<noteq> None"
  shows "good_link ph t q"
proof -
  have r: "\<not> orphan_link ph t q" using assms(1,2) by (auto simp: good_link_def orphan_link_def extends_def)
  have g: "get_group i t = get_group i d" for i using assms(2) by (simp add: extends_def get_group_def)
  have b: "get_block i t = get_block i d" if "ll_block q = Some i" for i using assms(2,3) that by (auto simp: extends_def)
  have "bad_link_identity ph t q = bad_link_identity ph d q" by (auto simp: bad_link_identity_def g b split: option.split)
  moreover have "\<not> bad_source_identity t q"
  proof (cases "ll_origin q = ''INHERITANCE''")
    case True
    with assms(1) obtain s n i r where i: "ll_source_scan q = Some s" "ll_source_line q = Some n" "ll_source_relation q = Some i"
      "relation_by_id i d = Some r" "ll_scan r = s" "ll_line r = n" by (auto simp: good_link_def bad_source_identity_def split: option.splits)
    with assms(2) obtain m where "relation_by_id i t = Some m" "link_key m = link_key r" unfolding extends_def by blast
    with i True show ?thesis by (simp add: bad_source_identity_def)
  next
    case False
    with assms(1) show ?thesis by (simp add: good_link_def bad_source_identity_def)
  qed
  ultimately show ?thesis using assms(1) r by (simp add: good_link_def)
qed

section \<open>Healthy databases\<close>

definition healthy :: "physical \<Rightarrow> 'y review_db \<Rightarrow> bool" where
  "healthy ph d \<longleftrightarrow> domain_keys d \<and> gate_ok ph d"

lemma op_bind_Inr: "op_bind m f d = (Inr y, u) \<longleftrightarrow> (\<exists>x t. m d = (Inr x, t) \<and> f x t = (Inr y, u))"
  by (auto simp: op_bind_def split: prod.splits sum.splits)

text \<open>The tables that the audit reads.\<close>

definition same_tables :: "'y review_db \<Rightarrow> 'y review_db \<Rightarrow> bool" where
  "same_tables d t \<longleftrightarrow> line_links t = line_links d \<and> rejections t = rejections d \<and> next_rejection_id t = next_rejection_id d \<and>
     records (derived t) = records (derived d) \<and> blocks (derived t) = blocks (derived d) \<and> groups (derived t) = groups (derived d)"

lemma same_lookups:
  assumes "same_tables d t"
  shows "get_record i t = get_record i d" "get_block i t = get_block i d" "get_group i t = get_group i d" "relation_by_id i t = relation_by_id i d"
    "get_link s n t = get_link s n d" "get_active_line_ids i t = get_active_line_ids i d"
  using assms by (simp_all add: same_tables_def get_record_def get_block_def get_group_def relation_by_id_def get_link_def get_active_line_ids_def)

lemma same_tables_healthy: "same_tables d t \<Longrightarrow> healthy ph t = healthy ph d"
proof -
  assume a: "same_tables d t"
  have "good_link ph t = good_link ph d" "bad_rejection t = bad_rejection d"
    by (auto simp: fun_eq_iff good_link_def orphan_link_def bad_link_identity_def bad_source_identity_def bad_rejection_def same_lookups [OF a] split: option.splits)
  then show ?thesis using a by (simp add: healthy_def domain_keys_def gate_ok_def keys_ok_def same_tables_def same_lookups [OF a])
qed

lemma same_tables_lock [simp]: "same_tables d (state_lock now p d)" "same_tables d (state_advance now p d)"
  by (simp_all add: same_tables_def state_advance_def state_lock_def state_ensure_def update_states_def split: option.split)

text \<open>What saving relies on from the file-state service: a rebuild that succeeds leaves these tables alone.\<close>

definition service_frame :: "'y domain file_service \<Rightarrow> bool" where
  "service_frame fs \<longleftrightarrow> (\<forall>d project scan v files ready u t. rebuild_and_mark_ready fs d project scan v files ready = (Inr u, t) \<longrightarrow> same_tables d t)"

lemma rebuild_frame: "service_frame fs \<Longrightarrow> rebuild_step fs now p scan fls ready d = (Inr u, t) \<Longrightarrow> same_tables d t"
proof -
  assume "service_frame fs" "rebuild_step fs now p scan fls ready d = (Inr u, t)"
  then have "same_tables (state_advance now p d) t" unfolding service_frame_def rebuild_step_def Let_def by metis
  then show ?thesis using same_tables_lock(2) [of d now p] by (simp add: same_tables_def)
qed

lemma extends_refl [simp]: "extends d d"
  by (simp add: extends_def)

text \<open>A later database is healthy when its new relations and blocks are good and its rejections fit.\<close>

lemma healthy_later:
  assumes d: "healthy ph d" and x: "extends d t" and k: "domain_keys t"
    and l: "\<And>q. q \<in> set (line_links t) \<Longrightarrow> q \<in> set (line_links d) \<or> good_link ph t q"
    and b: "\<And>b. b \<in> set (blocks (derived t)) \<Longrightarrow> b \<in> set (blocks (derived d)) \<or> \<not> cross_scan_block ph b"
    and u: "distinct (map link_key (line_links t))"
    and r: "\<And>x. x \<in> set (rejections t) \<Longrightarrow> \<not> bad_rejection t x" "distinct (map rejection_key (filter rj_active (rejections t)))"
  shows "healthy ph t"
proof -
  have "good_link ph t q" if "q \<in> set (line_links t)" for q
    using l [OF that] good_link_extends [OF _ x] d by (auto simp: healthy_def gate_ok_def domain_keys_def)
  moreover have "\<not> cross_scan_block ph c" if "c \<in> set (blocks (derived t))" for c
    using b [OF that] d by (auto simp: healthy_def gate_ok_def)
  ultimately show ?thesis using k u r by (simp add: healthy_def gate_ok_def)
qed

section \<open>What the writes do\<close>

text \<open>Only records change, and none goes away.\<close>

definition records_only :: "'y review_db \<Rightarrow> 'y review_db \<Rightarrow> bool" where
  "records_only d t \<longleftrightarrow> (\<exists>rs. t = on_domain (\<lambda>m. m\<lparr>records := rs\<rparr>) d \<and> distinct (map ar_id rs)) \<and> (\<forall>i. get_record i d \<noteq> None \<longrightarrow> get_record i t \<noteq> None)"

lemma records_only_tables:
  assumes "records_only d t"
  shows "line_links t = line_links d" "rejections t = rejections d" "next_rejection_id t = next_rejection_id d" "blocks (derived t) = blocks (derived d)"
    "extends d t" "domain_keys d \<Longrightarrow> domain_keys t" "get_link s n t = get_link s n d" "project_states t = project_states d"
  using assms by (auto simp: records_only_def on_domain_def extends_def get_block_def relation_by_id_def domain_keys_def keys_ok_def get_link_def)

lemma records_only_trans: "records_only d t \<Longrightarrow> records_only t u \<Longrightarrow> records_only d u"
  unfolding records_only_def by (auto simp: on_domain_def)

lemma first_fault_None: "first_fault fs = None \<longleftrightarrow> (\<forall>f \<in> set fs. f = None)"
  by (induction fs) (auto simp: first_fault_def split: option.splits)

lemma map_of_unique: "distinct (map f us) \<Longrightarrow> u \<in> set us \<Longrightarrow> map_of (map (\<lambda>u. (f u, g u)) us) (f u) = Some (g u)"
  by (induction us) (auto simp: rev_image_eqI)

lemma map_of_absent: "i \<notin> f ` set us \<Longrightarrow> map_of (map (\<lambda>u. (f u, g u)) us) i = None"
  by (induction us) auto

lemma update_records_ok:
  assumes u: "update_records_many hash now us d = (Inr rs, t)" and k: "domain_keys d"
  shows "records_only d t" "rs = map (\<lambda>u. get_record (ru_record u) t) us"
    "\<And>u. u \<in> set us \<Longrightarrow> \<exists>r. get_record (ru_record u) d = Some r \<and> get_record (ru_record u) t = Some (updated_record hash now (ru_content u) r)"
    "\<And>i. i \<notin> ru_record ` set us \<Longrightarrow> get_record i t = get_record i d"
proof -
  define g where "g r = (case map_of (map (\<lambda>u. (ru_record u, ru_content u)) us) (ar_id r) of None \<Rightarrow> r | Some c \<Rightarrow> updated_record hash now c r)" for r
  define h where "h r = (if ar_id r \<in> set (map ru_record us) then g r else r)" for r
  have hid: "ar_id (h r) = ar_id r" for r by (simp add: h_def g_def updated_record_def split: option.split)
  have t: "t = on_domain (\<lambda>m. m\<lparr>records := map h (records (derived d))\<rparr>) d \<and> rs = map (\<lambda>u. get_record (ru_record u) t) us" (is ?t)
    and e: "us = [] \<or> (distinct (map ru_record us) \<and> (\<forall>u \<in> set us. get_record (ru_record u) d \<noteq> None))" (is ?e)
  proof -
    have *: "map h (records (derived d)) = records (derived d)" if "us = []" using that by (simp add: h_def [abs_def] map_idI)
    show ?t using u * by (cases "us = []") (auto simp: update_records_many_def update_rows_def h_def [abs_def] g_def [abs_def] on_domain_def Let_def split: if_splits option.splits)
    show ?e using u by (auto simp: update_records_many_def list_ex_iff split: if_splits option.splits)
  qed
  have get: "get_record i t = map_option h (get_record i d)" for i
    using t by (simp add: get_record_def on_domain_def find_key_map [of ar_id h, OF hid])
  show "rs = map (\<lambda>u. get_record (ru_record u) t) us" using t by simp
  show "records_only d t" using t k get hid by (auto simp: records_only_def domain_keys_def comp_def)
  show "\<exists>r. get_record (ru_record u) d = Some r \<and> get_record (ru_record u) t = Some (updated_record hash now (ru_content u) r)" if "u \<in> set us" for u
  proof -
    from e that have "get_record (ru_record u) d \<noteq> None" "distinct (map ru_record us)" by auto
    then obtain r where r: "get_record (ru_record u) d = Some r" "ar_id r = ru_record u" by (auto simp: get_record_def dest: find_SomeD)
    then have "h r = updated_record hash now (ru_content u) r"
      using map_of_unique [OF \<open>distinct (map ru_record us)\<close> that, of ru_content] that by (simp add: h_def g_def)
    with r get show ?thesis by simp
  qed
  show "get_record i t = get_record i d" if "i \<notin> ru_record ` set us" for i
    using get [of i] that by (cases "get_record i d") (auto simp: get_record_def h_def dest: find_SomeD)
qed

lemma create_records_ok:
  assumes c: "create_manual_records_many hash now origin cs d = (made, t)" and k: "domain_keys d"
  shows "records_only d t" "map ar_content made = cs" "\<And>r. r \<in> set made \<Longrightarrow> get_record (ar_id r) t = Some r"
    "\<And>i. get_record i d \<noteq> None \<Longrightarrow> get_record i t = get_record i d"
proof -
  define ids where "ids = fresh_ids (map ar_id (records (derived d))) (length cs)"
  have m: "made = map2 (new_record hash now origin) ids cs" and t: "t = on_domain (\<lambda>m. m\<lparr>records := records m @ made\<rparr>) d"
    using c by (auto simp: create_manual_records_many_def ids_def Let_def)
  have len: "length ids = length cs" by (simp add: ids_def fresh_ids_spec)
  have mi: "map ar_id made = ids" unfolding m by (rule map2_key) (simp_all add: new_record_def len)
  have fresh: "ar_id r \<noteq> i" if "r \<in> set (records (derived d))" "i \<in> set ids" for r i
    using that fresh_ids_spec(3) [of i "map ar_id (records (derived d))" "length cs"] by (auto simp: ids_def)
  have g: "get_record i t = (case get_record i d of None \<Rightarrow> List.find (\<lambda>r. ar_id r = i) made | Some r \<Rightarrow> Some r)" for i
    by (simp add: t get_record_def on_domain_def find_append)
  show old: "get_record i t = get_record i d" if "get_record i d \<noteq> None" for i using g [of i] that by auto
  have "distinct (map ar_id (records (derived d) @ made))"
    using k fresh fresh_ids_spec(1) [of "map ar_id (records (derived d))" "length cs"] by (auto simp: domain_keys_def mi ids_def [symmetric])
  then have "\<exists>rs. t = on_domain (\<lambda>m. m\<lparr>records := rs\<rparr>) d \<and> distinct (map ar_id rs)"
    by (intro exI [of _ "records (derived d) @ made"]) (simp add: t on_domain_def)
  then show "records_only d t" using old unfolding records_only_def by auto
  show "map ar_content made = cs" using len unfolding m by (induction ids cs rule: list_induct2) (auto simp: new_record_def)
  show "get_record (ar_id r) t = Some r" if "r \<in> set made" for r
  proof -
    have "ar_id r \<in> set ids" using that mi by (metis image_eqI set_map)
    then have "get_record (ar_id r) d = None" using fresh by (auto simp: get_record_def find_None_iff)
    moreover have "distinct (map ar_id made)" unfolding mi by (simp add: ids_def fresh_ids_spec)
    ultimately show ?thesis using g [of "ar_id r"] find_unique [OF _ that] by simp
  qed
qed

lemma create_blocks_ok:
  assumes c: "create_blocks_many ph now origin bs d = (Inr made, t)" and k: "domain_keys d"
  shows "domain_keys t" "extends d t" "line_links t = line_links d" "rejections t = rejections d" "next_rejection_id t = next_rejection_id d"
    "records (derived t) = records (derived d)" "length made = length bs" "\<And>b. b \<in> set made \<Longrightarrow> get_block (ab_id b) t = Some b"
    "\<And>b. b \<in> set (blocks (derived t)) \<Longrightarrow> b \<in> set (blocks (derived d)) \<or> \<not> cross_scan_block ph b"
    "\<And>i. i < length bs \<Longrightarrow> made ! i = new_block now origin (ab_id (made ! i)) (bs ! i)"
proof -
  define ids where "ids = fresh_ids (map ab_id (blocks (derived d))) (length bs)"
  have m: "made = map2 (new_block now origin) ids bs" and t: "t = on_domain (\<lambda>m. m\<lparr>blocks := blocks m @ made\<rparr>) d"
    and ok: "\<forall>b \<in> set bs. file_scan ph (br_file b) = Some (br_scan b) \<and> 1 \<le> br_start b \<and> br_start b \<le> br_end b"
    using c by (cases "bs = []"; fastforce simp: create_blocks_many_def ids_def fresh_ids_def on_domain_def Let_def list_ex_iff not_less split: if_splits)+
  have len: "length ids = length bs" by (simp add: ids_def fresh_ids_spec)
  then show lm: "length made = length bs" by (simp add: m)
  have nth: "made ! i = new_block now origin (ids ! i) (bs ! i)" if "i < length bs" for i using that len by (simp add: m)
  then show "made ! i = new_block now origin (ab_id (made ! i)) (bs ! i)" if "i < length bs" for i using that by (simp add: new_block_def)
  have mi: "map ab_id made = ids" unfolding m by (rule map2_key) (simp_all add: new_block_def len)
  have dist: "distinct ids" by (simp add: ids_def fresh_ids_spec)
  have fresh: "ab_id b \<noteq> i" if "b \<in> set (blocks (derived d))" "i \<in> set ids" for b i
    using that fresh_ids_spec(3) [of i "map ab_id (blocks (derived d))" "length bs"] by (auto simp: ids_def)
  have g: "get_block i t = (case get_block i d of None \<Rightarrow> List.find (\<lambda>b. ab_id b = i) made | Some b \<Rightarrow> Some b)" for i
    by (simp add: t get_block_def on_domain_def find_append)
  have good: "\<not> cross_scan_block ph b \<and> 1 \<le> ab_start b \<and> ab_start b \<le> ab_end b" if bm: "b \<in> set made" for b
  proof -
    obtain i where "i < length bs" "b = made ! i" using bm lm by (metis in_set_conv_nth)
    then show ?thesis using nth [of i] ok by (simp add: new_block_def cross_scan_block_def)
  qed
  have "distinct (map ab_id (blocks (derived d) @ made))" using k fresh dist by (auto simp: domain_keys_def mi)
  moreover have "get_block i t \<noteq> None" if "get_block i d \<noteq> None" for i using that g [of i] by auto
  ultimately show "domain_keys t" using k good unfolding domain_keys_def by (auto simp: t on_domain_def keys_ok_def)
  show "extends d t" using g by (auto simp: extends_def t on_domain_def get_record_def relation_by_id_def)
  show "b \<in> set (blocks (derived d)) \<or> \<not> cross_scan_block ph b" if "b \<in> set (blocks (derived t))" for b
    using that good by (auto simp: t on_domain_def)
  show "get_block (ab_id b) t = Some b" if "b \<in> set made" for b
  proof -
    have "ab_id b \<in> set ids" using that mi by (metis image_eqI set_map)
    then have "get_block (ab_id b) d = None" using fresh by (auto simp: get_block_def find_None_iff)
    moreover have "distinct (map ab_id made)" using dist by (simp add: mi)
    ultimately show ?thesis using g [of "ab_id b"] find_unique [OF _ that] by simp
  qed
qed (use c in \<open>auto simp: create_blocks_many_def on_domain_def Let_def split: if_splits\<close>)

abbreviation request_key :: "link_request \<Rightarrow> int \<times> int" where
  "request_key q \<equiv> (lq_scan q, lq_line q)"

text \<open>The relation written for a request: the one of the line with a further revision, or a new one.\<close>

definition written :: "string \<Rightarrow> line_link option \<Rightarrow> link_request \<Rightarrow> line_link \<Rightarrow> bool" where
  "written now old q m \<longleftrightarrow> (case old of Some l \<Rightarrow> m = relink now q l | None \<Rightarrow> m = new_link now (ll_id m) q)"

lemma written_fields:
  assumes "written now old q m" "\<And>l. old = Some l \<Longrightarrow> link_key l = request_key q"
  shows "ll_scan m = lq_scan q" "ll_line m = lq_line q" "ll_record m = lq_record q" "ll_block m = lq_block q" "ll_review_state m = lq_state q"
    "ll_origin m = lq_origin q" "ll_group m = lq_group q" "ll_active m = lq_active q" "ll_source_scan m = lq_source_scan q"
    "ll_source_line m = lq_source_line q" "ll_source_relation m = lq_source_relation q" "ll_revision m = (case old of None \<Rightarrow> 1 | Some l \<Rightarrow> ll_revision l + 1)"
  using assms by (cases old; simp add: written_def relink_def; metis line_link.select_convs new_link_def)+

text \<open>The relations after the requests, and what each lookup gives.\<close>

lemma write_links_ids: "map ll_id (write_links now qs ls) = map ll_id ls @ fresh_ids (map ll_id ls) (length (filter (\<lambda>q. \<not> list_ex (\<lambda>l. ll_scan l = lq_scan q \<and> ll_line l = lq_line q) ls) qs))"
proof -
  have a: "map ll_id (map (\<lambda>l. case List.find (\<lambda>q. lq_scan q = ll_scan l \<and> lq_line q = ll_line l) qs of None \<Rightarrow> l | Some q \<Rightarrow> relink now q l) ls) = map ll_id ls"
    by (auto simp: relink_def split: option.split)
  have b: "map ll_id (map2 (new_link now) (fresh_ids ids (length as)) as) = fresh_ids ids (length as)" for ids as
    by (rule map2_key) (simp_all add: new_link_def fresh_ids_spec)
  show ?thesis unfolding write_links_def Let_def map_append a b ..
qed

lemma write_links_keys: "map link_key (write_links now qs ls) =
    map link_key ls @ map request_key (filter (\<lambda>q. \<not> list_ex (\<lambda>l. ll_scan l = lq_scan q \<and> ll_line l = lq_line q) ls) qs)"
proof -
  have a: "map link_key (map (\<lambda>l. case List.find (\<lambda>q. lq_scan q = ll_scan l \<and> lq_line q = ll_line l) qs of None \<Rightarrow> l | Some q \<Rightarrow> relink now q l) ls) = map link_key ls"
    by (auto simp: relink_def split: option.split)
  have "length is = length as \<Longrightarrow> map link_key (map2 (new_link now) is as) = map request_key as" for "is" as
    by (induction "is" as rule: list_induct2) (auto simp: new_link_def)
  from this [OF fresh_ids_spec(2)] show ?thesis unfolding write_links_def Let_def map_append a by (simp only:)
qed

lemma write_links_distinct:
  assumes "distinct (map ll_id ls)" "distinct (map link_key ls)" "distinct (map request_key qs)"
  shows "distinct (map ll_id (write_links now qs ls))" "distinct (map link_key (write_links now qs ls))"
proof -
  show "distinct (map ll_id (write_links now qs ls))"
    unfolding write_links_ids using assms(1) fresh_ids_spec(1) [of "map ll_id ls"] fresh_ids_spec(3) [of _ "map ll_id ls"] by (fastforce simp: distinct_append)
  show "distinct (map link_key (write_links now qs ls))"
    unfolding write_links_keys using assms(2,3) by (auto simp: distinct_map_filter list_ex_iff)
qed

lemma write_links_old:
  "relation_by_id i d = Some l \<Longrightarrow> \<exists>m. relation_by_id i (d\<lparr>line_links := write_links now qs (line_links d)\<rparr>) = Some m \<and>
     (m = l \<and> link_key l \<notin> request_key ` set qs \<or> (\<exists>q \<in> set qs. request_key q = link_key l \<and> m = relink now q l))"
proof -
  assume i: "relation_by_id i d = Some l"
  define g where "g l = (case List.find (\<lambda>q. lq_scan q = ll_scan l \<and> lq_line q = ll_line l) qs of None \<Rightarrow> l | Some q \<Rightarrow> relink now q l)" for l
  have id: "ll_id (g l) = ll_id l" for l by (simp add: g_def relink_def split: option.split)
  have "List.find (\<lambda>l. ll_id l = i) (map g (line_links d)) = Some (g l)" using i by (simp add: relation_by_id_def find_key_map [of ll_id g, OF id])
  then have "relation_by_id i (d\<lparr>line_links := write_links now qs (line_links d)\<rparr>) = Some (g l)"
    by (simp add: relation_by_id_def write_links_def Let_def find_append g_def [abs_def])
  moreover have "g l = l \<and> link_key l \<notin> request_key ` set qs \<or> (\<exists>q \<in> set qs. request_key q = link_key l \<and> g l = relink now q l)"
    by (auto simp: g_def find_None_iff split: option.split dest!: find_SomeD)
  ultimately show ?thesis by blast
qed

lemma write_links_kept:
  assumes "relation_by_id i d = Some l" "link_key l \<notin> request_key ` set qs"
  shows "relation_by_id i (d\<lparr>line_links := write_links now qs (line_links d)\<rparr>) = Some l"
  using write_links_old [OF assms(1), of now qs]
proof (elim exE conjE disjE bexE)
  fix m q
  assume "q \<in> set qs" "request_key q = link_key l"
  then have "link_key l \<in> request_key ` set qs" by (intro rev_image_eqI [of q]) (simp_all only:)
  with assms(2) show ?thesis by contradiction
qed simp

lemma get_link_key: "get_link s n d = List.find (\<lambda>l. link_key l = (s, n)) (line_links d)"
  by (simp add: get_link_def)

lemma get_link_SomeD: "get_link s n d = Some l \<Longrightarrow> l \<in> set (line_links d) \<and> ll_scan l = s \<and> ll_line l = n"
  by (auto simp: get_link_def dest: find_SomeD)

lemma get_link_unique: "distinct (map link_key (line_links d)) \<Longrightarrow> l \<in> set (line_links d) \<Longrightarrow> get_link (ll_scan l) (ll_line l) d = Some l"
  unfolding get_link_key by (rule find_unique)

lemma write_links_get:
  assumes u: "distinct (map request_key qs)"
  shows "q \<in> set qs \<Longrightarrow> \<exists>m. get_link (lq_scan q) (lq_line q) (d\<lparr>line_links := write_links now qs (line_links d)\<rparr>) = Some m \<and>
      written now (get_link (lq_scan q) (lq_line q) d) q m"
    and "(s, n) \<notin> request_key ` set qs \<Longrightarrow> get_link s n (d\<lparr>line_links := write_links now qs (line_links d)\<rparr>) = get_link s n d"
proof -
  define added where "added = filter (\<lambda>q. \<not> list_ex (\<lambda>l. ll_scan l = lq_scan q \<and> ll_line l = lq_line q) (line_links d)) qs"
  define new where "new = map2 (new_link now) (fresh_ids (map ll_id (line_links d)) (length added)) added"
  define g where "g l = (case List.find (\<lambda>q. request_key q = link_key l) qs of None \<Rightarrow> l | Some q \<Rightarrow> relink now q l)" for l
  have key: "link_key (g l) = link_key l" for l by (simp add: g_def relink_def split: option.split)
  have w: "write_links now qs (line_links d) = map g (line_links d) @ new"
    by (simp add: write_links_def Let_def new_def added_def g_def [abs_def])
  have get: "get_link s n (d\<lparr>line_links := write_links now qs (line_links d)\<rparr>) =
      (case get_link s n d of None \<Rightarrow> List.find (\<lambda>l. link_key l = (s, n)) new | Some l \<Rightarrow> Some (g l))" for s n
  proof -
    have "List.find (\<lambda>l. link_key l = (s, n)) (map g (line_links d)) = map_option g (get_link s n d)"
      unfolding get_link_key using key by (rule find_key_map)
    then show ?thesis by (simp add: get_link_key w find_append split: option.split)
  qed
  have new: "\<exists>q i. m = new_link now i q \<and> q \<in> set qs" if "m \<in> set new" for m
    using that unfolding new_def added_def by (auto dest!: set_zip_rightD)
  show "\<exists>m. get_link (lq_scan q) (lq_line q) (d\<lparr>line_links := write_links now qs (line_links d)\<rparr>) = Some m \<and>
      written now (get_link (lq_scan q) (lq_line q) d) q m" if q: "q \<in> set qs"
  proof (cases "get_link (lq_scan q) (lq_line q) d")
    case (Some l)
    then have "List.find (\<lambda>q'. request_key q' = link_key l) qs = Some q" using find_unique [OF u q] get_link_SomeD [OF Some] by simp
    then have "g l = relink now q l" by (simp add: g_def)
    then show ?thesis using get Some by (simp add: written_def)
  next
    case None
    then have "q \<in> set added" using q by (auto simp: added_def list_ex_iff get_link_def find_None_iff)
    moreover have "map link_key new = map request_key added"
      using write_links_keys [of now qs "line_links d"] unfolding w map_append added_def [symmetric] by (simp add: comp_def key [simplified])
    ultimately have "request_key q \<in> link_key ` set new" unfolding set_map [symmetric] by simp
    then obtain m where m: "List.find (\<lambda>l. link_key l = request_key q) new = Some m" by (cases "List.find (\<lambda>l. link_key l = request_key q) new") (auto simp: find_None_iff)
    then have mk: "m \<in> set new" "link_key m = request_key q" by (auto dest: find_SomeD)
    with new obtain i q' where n: "m = new_link now i q'" "q' \<in> set qs" "link_key m = request_key q" by blast
    then have "q' = q" using u q by (auto simp: new_link_def distinct_map inj_on_def)
    then show ?thesis using get None m n by (auto simp: written_def new_link_def)
  qed
  show "get_link s n (d\<lparr>line_links := write_links now qs (line_links d)\<rparr>) = get_link s n d" if o: "(s, n) \<notin> request_key ` set qs"
  proof -
    have "List.find (\<lambda>l. link_key l = (s, n)) new = None" using new o by (fastforce simp: find_None_iff new_link_def)
    moreover have "g l = l" if "get_link s n d = Some l" for l
    proof -
      have "List.find (\<lambda>q. request_key q = link_key l) qs = None" unfolding find_None_iff using o get_link_SomeD [OF that] by force
      then show ?thesis by (simp add: g_def)
    qed
    ultimately show ?thesis using get [of s n] by (auto split: option.split)
  qed
qed

text \<open>A request of a save: no source, no group.\<close>

definition manual_request :: "link_request \<Rightarrow> bool" where
  "manual_request q \<longleftrightarrow> lq_origin q = ''MANUAL'' \<and> lq_group q = None \<and> lq_source_scan q = None \<and> lq_source_line q = None \<and> lq_source_relation q = None \<and>
     lq_state q \<in> set REVIEW_STATES"

lemma create_links_ok:
  assumes c: "create_links_many ph now qs d = (Inr out, t)"
  shows "t = d\<lparr>line_links := write_links now qs (line_links d)\<rparr>" "distinct (map request_key qs)"
    "\<And>q. q \<in> set qs \<Longrightarrow> get_record (lq_record q) d \<noteq> None \<and> map_option snd (the_line ph (lq_line q)) = Some (lq_scan q) \<and> link_fault ph d q = None"
proof -
  have e: "write_links now [] ls = ls" for ls by (simp add: write_links_def Let_def fresh_ids_def)
  show "t = d\<lparr>line_links := write_links now qs (line_links d)\<rparr>"
    using c e by (cases "qs = []") (auto simp: create_links_many_def Let_def split: if_splits option.splits)
  have "qs = [] \<or> distinct (map lq_line qs)" using c by (auto simp: create_links_many_def split: if_splits)
  then show "distinct (map request_key qs)" by (auto simp: distinct_map inj_on_def)
  show "get_record (lq_record q) d \<noteq> None \<and> map_option snd (the_line ph (lq_line q)) = Some (lq_scan q) \<and> link_fault ph d q = None" if "q \<in> set qs" for q
  proof -
    have "qs \<noteq> []" using that by auto
    then have "\<not> list_ex (\<lambda>q. map_option snd (the_line ph (lq_line q)) \<noteq> Some (lq_scan q)) qs" "\<not> list_ex (\<lambda>q. get_record (lq_record q) d = None) qs"
      "first_fault (map (link_fault ph d) qs) = None" using c by (auto simp: create_links_many_def split: if_splits option.splits)
    then show ?thesis using that unfolding list_ex_iff first_fault_None by auto
  qed
qed

lemma written_good:
  assumes w: "written now old q m" "\<And>l. old = Some l \<Longrightarrow> link_key l = request_key q" and q: "manual_request q"
    and c: "get_record (lq_record q) d \<noteq> None" "map_option snd (the_line ph (lq_line q)) = Some (lq_scan q)" "link_fault ph d q = None"
    and b: "\<forall>b \<in> set (blocks (derived d)). 1 \<le> ab_start b \<and> ab_start b \<le> ab_end b"
  shows "good_link ph d m" "ll_block m = Some i \<Longrightarrow> get_block i d \<noteq> None"
proof -
  note f = written_fields [OF w]
  obtain l where l: "the_line ph (lq_line q) = Some (l, lq_scan q)" using c(2) by auto
  have bf: "block_fault d l q = None" using c(3) by (auto simp: link_fault_def l first_fault_None)
  then show "ll_block m = Some i \<Longrightarrow> get_block i d \<noteq> None" using f by (auto simp: block_fault_def split: option.splits)
  have "\<not> bad_link_identity ph d m"
  proof (cases "lq_block q")
    case (Some i)
    with bf obtain b' where b': "get_block i d = Some b'" "ab_scan b' = lq_scan q" "ab_file b' = pl_file l" "ab_start b' \<le> pl_number l" "pl_number l \<le> ab_end b'"
      by (auto simp: block_fault_def split: option.splits if_splits)
    then have "1 \<le> ab_start b'" using b by (auto simp: get_block_def dest!: find_SomeD)
    with b' show ?thesis using Some q by (simp add: bad_link_identity_def f l manual_request_def)
  qed (use q in \<open>simp add: bad_link_identity_def f l manual_request_def\<close>)
  then show "good_link ph d m" using c(1,2) q by (auto simp: good_link_def orphan_link_def bad_source_identity_def f manual_request_def)
qed

lemma write_links_member:
  assumes "distinct (map request_key qs)" "distinct (map ll_id (line_links d))" "distinct (map link_key (line_links d))" and m: "m \<in> set (write_links now qs (line_links d))"
  shows "m \<in> set (line_links d) \<or> (\<exists>q \<in> set qs. written now (get_link (lq_scan q) (lq_line q) d) q m)"
proof -
  let ?t = "d\<lparr>line_links := write_links now qs (line_links d)\<rparr>"
  have g: "get_link (ll_scan m) (ll_line m) ?t = Some m"
    by (rule get_link_unique) (use m write_links_distinct(2) [OF assms(2,3,1)] in simp_all)
  show ?thesis
  proof (cases "link_key m \<in> request_key ` set qs")
    case True
    then obtain q where q: "q \<in> set qs" "lq_scan q = ll_scan m" "lq_line q = ll_line m" by auto
    then have "written now (get_link (lq_scan q) (lq_line q) d) q m" using write_links_get(1) [OF assms(1) q(1), of now d] g by simp
    with q(1) show ?thesis by blast
  next
    case False
    then have "get_link (ll_scan m) (ll_line m) d = Some m" using write_links_get(2) [OF assms(1) False, of now d] g by simp
    then show ?thesis using get_link_SomeD by blast
  qed
qed

lemma closed_rejections:
  "rejections (snd (close_active_rejections_many now scan ids reason d)) =
     map (\<lambda>x. if rj_scan x = scan \<and> rj_line x \<in> set ids \<and> rj_active x
       then x\<lparr>rj_active := False, rj_terminal := Some reason, rj_resolved := Some now, rj_revision := rj_revision x + 1\<rparr> else x) (rejections d)"
  by (simp add: close_active_rejections_many_def update_rows_def)

lemma closed_active:
  "filter rj_active (rejections (snd (close_active_rejections_many now scan ids reason d))) =
     filter (\<lambda>x. rj_active x \<and> \<not> (rj_scan x = scan \<and> rj_line x \<in> set ids)) (rejections d)"
proof -
  define f where "f x = (if rj_scan x = scan \<and> rj_line x \<in> set ids \<and> rj_active x
    then x\<lparr>rj_active := False, rj_terminal := Some reason, rj_resolved := Some now, rj_revision := rj_revision x + 1\<rparr> else x)" for x :: rejection
  have "filter rj_active (map f xs) = filter (\<lambda>x. rj_active x \<and> \<not> (rj_scan x = scan \<and> rj_line x \<in> set ids)) xs" for xs
    by (induction xs) (auto simp: f_def)
  from this [of "rejections d"] show ?thesis unfolding closed_rejections f_def .
qed

lemma distinct_map_subfilter: "distinct (map k (filter P xs)) \<Longrightarrow> distinct (map k (filter (\<lambda>x. P x \<and> Q x) xs))"
  by (induction xs) (auto split: if_splits)

lemma relinked_healthy:
  assumes h: "healthy ph d" and c: "create_links_many ph now qs d = (Inr out, t)" and q: "\<And>q. q \<in> set qs \<Longrightarrow> manual_request q \<and> lq_scan q = scan"
    and ids: "set ids = lq_line ` set qs"
  shows "healthy ph (snd (close_active_rejections_many now scan ids reason t))" (is "healthy ph ?u")
proof (rule healthy_later [OF h])
  note ok = create_links_ok [OF c]
  have u: "line_links ?u = write_links now qs (line_links d)" "derived ?u = derived d" "next_rejection_id ?u = next_rejection_id d"
    by (simp_all add: close_active_rejections_many_def update_rows_def ok(1))
  have k: "domain_keys d" and uk: "distinct (map link_key (line_links d))" using h by (simp_all add: healthy_def gate_ok_def)
  have ui: "distinct (map ll_id (line_links d))" using k by (simp add: domain_keys_def keys_ok_def)
  have eq: "get_record i ?u = get_record i d" "get_block i ?u = get_block i d" "get_group i ?u = get_group i d" for i
    using u(2) by (simp_all add: get_record_def get_block_def get_group_def)
  have rel: "relation_by_id i ?u = relation_by_id i (d\<lparr>line_links := write_links now qs (line_links d)\<rparr>)" for i by (simp add: relation_by_id_def u(1))
  have "\<exists>m. relation_by_id i ?u = Some m \<and> link_key m = link_key l" if "relation_by_id i d = Some l" for i l
    unfolding rel using write_links_old [OF that, of now qs] by (auto simp: relink_def)
  then show x: "extends d ?u" by (simp add: extends_def eq u(2))
  have mem: "m \<in> set (line_links d) \<or> (good_link ph d m \<and> (\<forall>i. ll_block m = Some i \<longrightarrow> get_block i d \<noteq> None))" if m: "m \<in> set (line_links ?u)" for m
    using write_links_member [OF ok(2) ui uk m [unfolded u(1)]]
  proof (elim disjE bexE)
    fix p
    assume p: "p \<in> set qs" "written now (get_link (lq_scan p) (lq_line p) d) p m"
    have b: "\<forall>b \<in> set (blocks (derived d)). 1 \<le> ab_start b \<and> ab_start b \<le> ab_end b" using k by (simp add: domain_keys_def)
    have o: "link_key l = request_key p" if "get_link (lq_scan p) (lq_line p) d = Some l" for l using get_link_SomeD [OF that] by simp
    have m1: "manual_request p" "get_record (lq_record p) d \<noteq> None" "map_option snd (the_line ph (lq_line p)) = Some (lq_scan p)" "link_fault ph d p = None"
      using q [OF p(1)] ok(3) [OF p(1)] by simp_all
    have "good_link ph d m" by (rule written_good(1) [OF p(2) _ m1 b]) (rule o)
    moreover have "get_block i d \<noteq> None" if "ll_block m = Some i" for i by (rule written_good(2) [OF p(2) _ m1 b that]) (rule o)
    ultimately show ?thesis by blast
  qed simp
  show "q \<in> set (line_links d) \<or> good_link ph ?u q" if "q \<in> set (line_links ?u)" for q
    using mem [OF that] good_link_extends [OF _ x] by blast
  have "\<forall>q \<in> set (line_links ?u). \<forall>i. ll_block q = Some i \<longrightarrow> get_block i ?u \<noteq> None" using mem k unfolding eq domain_keys_def by blast
  moreover have "list_all (\<lambda>r. rj_id r < next_rejection_id d) (rejections ?u)"
    using k by (auto simp: closed_rejections ok(1) domain_keys_def keys_ok_def list_all_iff)
  ultimately show "domain_keys ?u" using k write_links_distinct(1) [OF ui uk ok(2), of now] by (simp add: domain_keys_def keys_ok_def u)
  show "distinct (map link_key (line_links ?u))" using write_links_distinct(2) [OF ui uk ok(2)] by (simp add: u(1))
  show "\<not> bad_rejection ?u y" if y: "y \<in> set (rejections ?u)" for y
  proof (cases "rj_active y")
    case True
    from y obtain z where z: "z \<in> set (rejections t)" "y = (if rj_scan z = scan \<and> rj_line z \<in> set ids \<and> rj_active z
        then z\<lparr>rj_active := False, rj_terminal := Some reason, rj_resolved := Some now, rj_revision := rj_revision z + 1\<rparr> else z)"
      unfolding closed_rejections by auto
    have nz: "\<not> (rj_scan z = scan \<and> rj_line z \<in> set ids \<and> rj_active z)" by (rule notI) (use True z(2) in simp)
    have "y = z" using z(2) unfolding if_not_P [OF nz] .
    with z(1) nz True have d: "y \<in> set (rejections d)" and "\<not> (rj_scan y = scan \<and> rj_line y \<in> set ids)" by (auto simp: ok(1))
    then have nk: "rejection_key y \<notin> request_key ` set qs" using q ids by force
    have "\<not> bad_rejection d y" using d h by (simp add: healthy_def gate_ok_def)
    then obtain l where l: "relation_by_id (rj_relation y) d = Some l" "ll_scan l = rj_scan y" "ll_line l = rj_line y"
      using True by (auto simp: bad_rejection_def split: option.splits)
    then have "link_key l \<notin> request_key ` set qs" using nk by simp
    then have "relation_by_id (rj_relation y) ?u = Some l" unfolding rel by (rule write_links_kept [OF l(1)])
    then show ?thesis using \<open>\<not> bad_rejection d y\<close> l(1) by (simp add: bad_rejection_def)
  qed (simp add: bad_rejection_def)
  show "distinct (map rejection_key (filter rj_active (rejections ?u)))"
  proof -
    have "distinct (map rejection_key (filter rj_active (rejections d)))" using h by (simp add: healthy_def gate_ok_def)
    then show ?thesis using closed_active [of now scan ids reason t] by (simp add: ok(1) distinct_map_subfilter)
  qed
qed (simp add: close_active_rejections_many_def update_rows_def create_links_ok(1) [OF c])

section \<open>Changes of one relation\<close>

text \<open>A change that leaves alone what the audit compares.\<close>

definition keeps_identity :: "(line_link \<Rightarrow> line_link) \<Rightarrow> bool" where
  "keeps_identity f \<longleftrightarrow> (\<forall>r. ll_id (f r) = ll_id r \<and> link_key (f r) = link_key r \<and> ll_record (f r) = ll_record r \<and> ll_block (f r) = ll_block r \<and>
     ll_group (f r) = ll_group r \<and> ll_origin (f r) = ll_origin r \<and> ll_source_scan (f r) = ll_source_scan r \<and> ll_source_line (f r) = ll_source_line r \<and>
     ll_source_relation (f r) = ll_source_relation r)"

lemma changed_relation:
  assumes "keeps_identity f" "line_links t = change_link l f (line_links d)"
  shows "relation_by_id i t = map_option (\<lambda>r. if ll_id r = ll_id l then f r else r) (relation_by_id i d)"
proof -
  have "ll_id (if ll_id r = ll_id l then f r else r) = ll_id r" for r using assms(1) by (simp add: keeps_identity_def)
  then show ?thesis unfolding relation_by_id_def assms(2) change_link_def by (rule find_key_map)
qed

lemma changed_link_healthy:
  fixes d t :: "'y review_db"
  assumes h: "healthy ph d" and f: "keeps_identity f" "ll_review_state (f l) \<in> set REVIEW_STATES" and l: "l \<in> set (line_links d)"
    and t: "line_links t = change_link l f (line_links d)" "records (derived t) = records (derived d)" "blocks (derived t) = blocks (derived d)"
      "groups (derived t) = groups (derived d)"
    and r: "list_all (\<lambda>x. rj_id x < next_rejection_id t) (rejections t)" "\<And>x. x \<in> set (rejections t) \<Longrightarrow> \<not> bad_rejection t x"
      "distinct (map rejection_key (filter rj_active (rejections t)))"
  shows "healthy ph t"
proof (rule healthy_later [OF h])
  have eq: "get_record i t = get_record i d" "get_block i t = get_block i d" "get_group i t = get_group i d" for i
    using t by (simp_all add: get_record_def get_block_def get_group_def)
  have ui: "distinct (map ll_id (line_links d))" using h by (simp add: healthy_def domain_keys_def keys_ok_def)
  have m: "q \<in> set (line_links d) \<or> q = f l" if "q \<in> set (line_links t)" for q
  proof -
    have "r = l" if "r \<in> set (line_links d)" "ll_id r = ll_id l" for r using that l ui by (auto simp: distinct_map inj_on_def)
    then show ?thesis using \<open>q \<in> set (line_links t)\<close> unfolding t(1) change_link_def by (auto split: if_splits)
  qed
  show x: "extends d t" using changed_relation [OF f(1) t(1)] f(1) t(4) by (auto simp: extends_def eq keeps_identity_def)
  have k: "map ll_id (line_links t) = map ll_id (line_links d)" "map link_key (line_links t) = map link_key (line_links d)"
    using f(1) by (auto simp: t(1) change_link_def keeps_identity_def)
  have b: "get_block i d \<noteq> None" if "q \<in> set (line_links t)" "ll_block q = Some i" for q i
    using m [OF that(1)] that(2) h l f(1) by (auto simp: healthy_def domain_keys_def keeps_identity_def)
  show "domain_keys t" using h k(1) r(1) b by (simp add: healthy_def domain_keys_def keys_ok_def eq t(2,3))
  show "distinct (map link_key (line_links t))" using h by (simp only: k healthy_def gate_ok_def)
  have "good_link ph d l" "\<forall>i. ll_block l = Some i \<longrightarrow> get_block i d \<noteq> None" using h l by (auto simp: healthy_def gate_ok_def domain_keys_def)
  then have "good_link ph t l" using good_link_extends x by blast
  moreover have fl: "ll_scan (f l) = ll_scan l" "ll_line (f l) = ll_line l" "ll_record (f l) = ll_record l" "ll_block (f l) = ll_block l" "ll_group (f l) = ll_group l"
    "ll_origin (f l) = ll_origin l" "ll_source_scan (f l) = ll_source_scan l" "ll_source_line (f l) = ll_source_line l" "ll_source_relation (f l) = ll_source_relation l"
    using f(1) by (simp_all add: keeps_identity_def)
  ultimately have "good_link ph t (f l)" using f(2) unfolding good_link_def orphan_link_def bad_link_identity_def bad_source_identity_def fl by blast
  then show "q \<in> set (line_links d) \<or> good_link ph t q" if "q \<in> set (line_links t)" for q using m [OF that] by blast
  show "distinct (map rejection_key (filter rj_active (rejections t)))" by (rule r(3))
qed (use t(3) r(2) in simp_all)

lemma healthy_rejection:
  assumes "healthy ph d" "y \<in> set (rejections d)" "rj_active y"
  obtains q where "relation_by_id (rj_relation y) d = Some q" "link_key q = rejection_key y" "\<not> ll_active q" "\<not> bad_rejection d y"
  using assms by (auto simp: healthy_def gate_ok_def bad_rejection_def split: option.splits)

text \<open>A change of an active relation leaves the rejections as they fit.\<close>

lemma active_change_rejection:
  assumes h: "healthy ph d" and l: "l \<in> set (line_links d)" "ll_active l" and f: "keeps_identity f" "line_links t = change_link l f (line_links d)"
    and y: "y \<in> set (rejections d)"
  shows "\<not> bad_rejection t y" "rj_active y \<Longrightarrow> rejection_key y \<noteq> link_key l"
proof -
  have ui: "distinct (map ll_id (line_links d))" and uk: "distinct (map link_key (line_links d))" using h by (simp_all add: healthy_def gate_ok_def domain_keys_def keys_ok_def)
  have *: "\<not> bad_rejection t y \<and> rejection_key y \<noteq> link_key l" if a: "rj_active y"
  proof -
    obtain q where q: "relation_by_id (rj_relation y) d = Some q" "link_key q = rejection_key y" "\<not> ll_active q" "\<not> bad_rejection d y"
      using healthy_rejection [OF h y a] by blast
    have qm: "q \<in> set (line_links d)" using q(1) by (auto simp: relation_by_id_def dest: find_SomeD)
    have "q \<noteq> l" using q(3) l(2) by auto
    then have n: "link_key q \<noteq> link_key l" "ll_id q \<noteq> ll_id l" using ui uk qm l(1) by (auto simp: distinct_map inj_on_def)
    then have "relation_by_id (rj_relation y) t = Some q" using changed_relation [OF f, of "rj_relation y"] q(1) by simp
    then show ?thesis using n(1) q by (simp add: bad_rejection_def)
  qed
  then show "\<not> bad_rejection t y" "rj_active y \<Longrightarrow> rejection_key y \<noteq> link_key l" by (auto simp: bad_rejection_def)
qed

section \<open>Reject and undo\<close>

text \<open>The database of a successful rejection just before the rebuild.\<close>

definition rejected :: "string \<Rightarrow> int \<Rightarrow> int \<Rightarrow> string \<Rightarrow> line_link \<Rightarrow> 'x database \<Rightarrow> 'x database" where
  "rejected now scan line u l d = d\<lparr>rejections := rejections d @ [rejection_row now scan line u (next_rejection_id d) l], next_rejection_id := next_rejection_id d + 1,
     line_links := change_link l (deactivated now) (line_links d)\<rparr>"

lemma reject_body_run:
  assumes "reject_body fs now p scan line u expected d = (Inr x, t)" "keys_ok d"
  obtains s l v where "assert_current now p scan d = (Inr s, state_lock now p d)" "rejectable scan line expected d l"
    "rebuild_step fs now p scan (file_ids_for_lines fs (state_lock now p d) scan [line]) (projection_ready s) (rejected now scan line u l (state_lock now p d)) = (Inr v, t)"
proof -
  from assms(1) obtain s where cur: "assert_current now p scan d = (Inr s, state_lock now p d)"
    by (auto simp: reject_body_def assert_current_ok split: prod.splits sum.splits)
  let ?e = "state_lock now p d"
  from assms(1) cur obtain l where l: "rejectable scan line expected d l"
    by (auto simp: reject_body_def rejectable_def split: option.splits if_splits)
  then have lm: "l \<in> set (line_links d)" "ll_active l \<and> ll_revision l = expected" unfolding rejectable_def by (auto dest!: find_SomeD)
  have "distinct (map ll_id (line_links d))" using assms(2) by (simp add: keys_ok_def)
  from update_by_key [OF this lm(1), of "\<lambda>r. ll_active r \<and> ll_revision r = expected", OF lm(2)]
  have u: "update_rows (\<lambda>r. ll_id r = ll_id l \<and> ll_active r \<and> ll_revision r = expected)
      (\<lambda>r. r\<lparr>ll_active := False, ll_revision := ll_revision r + 1, ll_updated := now\<rparr>) (line_links d) = (1, change_link l (deactivated now) (line_links d))"
    by (simp add: change_link_def deactivated_def)
  have "\<exists>v. rebuild_step fs now p scan (file_ids_for_lines fs ?e scan [line]) (projection_ready s) (rejected now scan line u l ?e) = (Inr v, t)"
    using assms(1) cur l u by (auto simp: reject_body_def rejectable_def Let_def rejected_def split: prod.splits sum.splits)
  then show ?thesis using that cur l by blast
qed

lemma reject_body_inv:
  fixes d t :: "'y review_db"
  assumes "reject_body fs now p scan line u expected d = (Inr x, t)" "service_frame fs" "keys_ok d"
  obtains l where "rejectable scan line expected d l" "same_tables (rejected now scan line u l d) t"
proof -
  obtain s l v where r: "rejectable scan line expected d l"
    "rebuild_step fs now p scan (file_ids_for_lines fs (state_lock now p d) scan [line]) (projection_ready s) (rejected now scan line u l (state_lock now p d)) = (Inr v, t)"
    using reject_body_run [OF assms(1,3)] by metis
  have "same_tables (rejected now scan line u l (state_lock now p d)) t" using rebuild_frame [OF assms(2) r(2)] .
  moreover have "same_tables d (state_lock now p d)" by simp
  ultimately show ?thesis using that [OF r(1)] by (simp add: same_tables_def rejected_def)
qed

lemma reject_healthy:
  fixes d t :: "'y review_db"
  assumes h: "healthy ph d" and "reject_body fs now p scan line u expected d = (Inr x, t)" "service_frame fs"
  shows "healthy ph t"
proof -
  have k: "keys_ok d" using h by (simp add: healthy_def domain_keys_def)
  obtain l where l: "rejectable scan line expected d l" and t: "same_tables (d\<lparr>rejections := rejections d @ [rejection_row now scan line u (next_rejection_id d) l],
      next_rejection_id := next_rejection_id d + 1, line_links := change_link l (deactivated now) (line_links d)\<rparr>) t" (is "same_tables ?t t")
    using reject_body_inv [OF assms(2,3) k] unfolding rejected_def by blast
  have lm: "l \<in> set (line_links d)" "ll_active l" "link_key l = (scan, line)" using l unfolding rejectable_def by (auto dest!: find_SomeD)
  have f: "keeps_identity (deactivated now)" by (simp add: keeps_identity_def deactivated_def)
  have links: "line_links ?t = change_link l (deactivated now) (line_links d)" by simp
  have "relation_by_id (ll_id l) d = Some l" unfolding relation_by_id_def using k lm(1) by (intro find_unique) (simp_all add: keys_ok_def)
  then have n: "relation_by_id (ll_id l) ?t = Some (deactivated now l)" using changed_relation [OF f links] by simp
  have "healthy ph ?t"
  proof (rule changed_link_healthy [OF h f _ lm(1) links])
    show "ll_review_state (deactivated now l) \<in> set REVIEW_STATES" using h lm(1) by (simp add: healthy_def gate_ok_def good_link_def deactivated_def)
    show "list_all (\<lambda>x. rj_id x < next_rejection_id ?t) (rejections ?t)" using k by (auto simp: keys_ok_def list_all_iff rejection_row_def)
    show "\<not> bad_rejection ?t y" if "y \<in> set (rejections ?t)" for y
    proof (cases "y \<in> set (rejections d)")
      case False
      then have "y = rejection_row now scan line u (next_rejection_id d) l" using that by simp
      then show ?thesis using n lm(3) by (simp add: bad_rejection_def rejection_row_def deactivated_def)
    qed (rule active_change_rejection(1) [OF h lm(1,2) f links])
    have "rejection_key y \<noteq> (scan, line)" if "y \<in> set (rejections d)" "rj_active y" for y using active_change_rejection(2) [OF h lm(1,2) f links that] lm(3) by simp
    moreover have "distinct (map rejection_key (filter rj_active (rejections d)))" using h by (simp add: healthy_def gate_ok_def)
    ultimately show "distinct (map rejection_key (filter rj_active (rejections ?t)))" by (auto simp: rejection_row_def)
  qed simp_all
  then show ?thesis using same_tables_healthy [OF t] by simp
qed

text \<open>An undone rejection.\<close>

definition undone :: "string \<Rightarrow> int \<Rightarrow> int \<Rightarrow> rejection \<Rightarrow> rejection" where
  "undone now i expected x = (if rj_id x = i \<and> rj_active x \<and> rj_revision x = expected
     then x\<lparr>rj_active := False, rj_terminal := Some ''UNDONE'', rj_resolved := Some now, rj_revision := rj_revision x + 1\<rparr> else x)"

definition restored :: "string \<Rightarrow> int \<Rightarrow> int \<Rightarrow> line_link \<Rightarrow> 'x database \<Rightarrow> 'x database" where
  "restored now i er l d = d\<lparr>line_links := change_link l (reactivated now) (line_links d), rejections := map (undone now i er) (rejections d)\<rparr>"

lemma undo_body_run:
  fixes d t :: "'y review_db"
  assumes "undo_body fs now p scan line i er el d = (Inr x, t)" "healthy ph d"
  obtains s y l v where "assert_current now p scan d = (Inr s, state_lock now p d)" "y \<in> set (rejections d)" "rj_active y" "rj_id y = i" "rj_revision y = er" "rejection_key y = (scan, line)"
    "relation_by_id (rj_relation y) d = Some l" "\<not> ll_active l" "link_key l = rejection_key y"
    "rebuild_step fs now p scan (file_ids_for_lines fs (state_lock now p d) scan [line]) (projection_ready s) (restored now i er l (state_lock now p d)) = (Inr v, t)"
proof -
  from assms(1) obtain s where cur: "assert_current now p scan d = (Inr s, state_lock now p d)"
    by (auto simp: undo_body_def assert_current_ok split: prod.splits sum.splits)
  let ?e = "state_lock now p d"
  from assms(1) cur obtain y l where f: "List.find (\<lambda>r. rj_id r = i \<and> rj_scan r = scan \<and> rj_line r = line \<and> rj_active r) (rejections d) = Some y"
      "rj_revision y = er" "List.find (\<lambda>l. ll_id l = rj_relation y) (line_links d) = Some l" "ll_revision l = el"
    by (auto simp: undo_body_def split: option.splits if_splits)
  have y: "y \<in> set (rejections d)" "rj_active y" "rj_id y = i" and yk: "rejection_key y = (scan, line)" using f(1) by (auto dest!: find_SomeD)
  have rl: "relation_by_id (rj_relation y) d = Some l" using f(3) by (simp add: relation_by_id_def)
  then have l: "\<not> ll_active l" "link_key l = rejection_key y" using healthy_rejection [OF assms(2) y(1,2)] by auto
  have lm: "l \<in> set (line_links d)" "\<not> ll_active l \<and> ll_revision l = el" using f(3,4) l(1) by (auto dest!: find_SomeD)
  have "distinct (map ll_id (line_links d))" using assms(2) by (simp add: healthy_def domain_keys_def keys_ok_def)
  from update_by_key [OF this lm(1), of "\<lambda>r. \<not> ll_active r \<and> ll_revision r = el", OF lm(2)]
  have u: "update_rows (\<lambda>r. ll_id r = ll_id l \<and> \<not> ll_active r \<and> ll_revision r = el)
      (\<lambda>r. r\<lparr>ll_active := True, ll_review_state := ''INHERITED_PENDING'', ll_revision := ll_revision r + 1, ll_updated := now\<rparr>) (line_links d) =
      (1, change_link l (reactivated now) (line_links d))"
    by (simp add: change_link_def reactivated_def)
  have "\<exists>v. rebuild_step fs now p scan (file_ids_for_lines fs ?e scan [line]) (projection_ready s) (restored now i er l ?e) = (Inr v, t)"
    using assms(1) cur f u by (auto simp: undo_body_def update_rows_def undone_def [abs_def] Let_def restored_def split: prod.splits sum.splits if_splits)
  then show ?thesis using that [OF cur y f(2) yk rl l] by blast
qed

lemma undo_body_inv:
  fixes d t :: "'y review_db"
  assumes "undo_body fs now p scan line i er el d = (Inr x, t)" "service_frame fs" "healthy ph d"
  obtains y l where "y \<in> set (rejections d)" "rj_active y" "rj_id y = i" "rj_revision y = er" "relation_by_id (rj_relation y) d = Some l" "\<not> ll_active l"
    "link_key l = rejection_key y" "same_tables (restored now i er l d) t"
proof -
  obtain s y l v where r: "y \<in> set (rejections d)" "rj_active y" "rj_id y = i" "rj_revision y = er" "relation_by_id (rj_relation y) d = Some l" "\<not> ll_active l" "link_key l = rejection_key y"
    "rebuild_step fs now p scan (file_ids_for_lines fs (state_lock now p d) scan [line]) (projection_ready s) (restored now i er l (state_lock now p d)) = (Inr v, t)"
    using undo_body_run [OF assms(1,3)] by metis
  have "same_tables (restored now i er l (state_lock now p d)) t" using rebuild_frame [OF assms(2) r(8)] .
  moreover have "same_tables d (state_lock now p d)" by simp
  ultimately show ?thesis using that [OF r(1-7)] by (simp add: same_tables_def restored_def)
qed

lemma undone_active:
  "filter rj_active (map (undone now i er) xs) = filter (\<lambda>x. rj_active x \<and> \<not> (rj_id x = i \<and> rj_revision x = er)) xs"
  "x \<in> set (map (undone now i er) xs) \<Longrightarrow> rj_active x \<Longrightarrow> x \<in> set xs \<and> \<not> (rj_id x = i \<and> rj_revision x = er)"
proof -
  have u: "rj_active (undone now i er a) \<longleftrightarrow> rj_active a \<and> \<not> (rj_id a = i \<and> rj_revision a = er)"
    "rj_active (undone now i er a) \<Longrightarrow> undone now i er a = a" for a by (auto simp: undone_def)
  show eq: "filter rj_active (map (undone now i er) xs) = filter (\<lambda>x. rj_active x \<and> \<not> (rj_id x = i \<and> rj_revision x = er)) xs"
    using u by (induction xs) auto
  assume "x \<in> set (map (undone now i er) xs)" "rj_active x"
  then have "x \<in> set (filter rj_active (map (undone now i er) xs))" by simp
  then show "x \<in> set xs \<and> \<not> (rj_id x = i \<and> rj_revision x = er)" unfolding eq by auto
qed

lemma undo_healthy:
  fixes d t :: "'y review_db"
  assumes h: "healthy ph d" and "undo_body fs now p scan line i er el d = (Inr x, t)" "service_frame fs"
  shows "healthy ph t"
proof -
  obtain y l where y: "y \<in> set (rejections d)" "rj_active y" "rj_id y = i" "rj_revision y = er" and l: "relation_by_id (rj_relation y) d = Some l" "\<not> ll_active l"
    "link_key l = rejection_key y" and t: "same_tables (d\<lparr>line_links := change_link l (reactivated now) (line_links d), rejections := map (undone now i er) (rejections d)\<rparr>) t"
      (is "same_tables ?t t")
    using undo_body_inv [OF assms(2,3,1)] unfolding restored_def by blast
  have lm: "l \<in> set (line_links d)" using l(1) by (auto simp: relation_by_id_def dest: find_SomeD)
  have f: "keeps_identity (reactivated now)" by (simp add: keeps_identity_def reactivated_def)
  have links: "line_links ?t = change_link l (reactivated now) (line_links d)" by simp
  have ua: "distinct (map rejection_key (filter rj_active (rejections d)))" using h by (simp add: healthy_def gate_ok_def)
  have "healthy ph ?t"
  proof (rule changed_link_healthy [OF h f _ lm links])
    show "ll_review_state (reactivated now l) \<in> set REVIEW_STATES" by (simp add: reactivated_def REVIEW_STATES_def)
    show "list_all (\<lambda>x. rj_id x < next_rejection_id ?t) (rejections ?t)" using h by (auto simp: healthy_def domain_keys_def keys_ok_def list_all_iff undone_def)
    show "\<not> bad_rejection ?t z" if z: "z \<in> set (rejections ?t)" for z
    proof (cases "rj_active z")
      case True
      then have zd: "z \<in> set (rejections d)" and "z \<noteq> y" using undone_active(2) [of z now i er "rejections d"] z y by auto
      then have nk: "rejection_key z \<noteq> rejection_key y" using ua y(1,2) True by (auto simp: distinct_map inj_on_def)
      obtain q where q: "relation_by_id (rj_relation z) d = Some q" "link_key q = rejection_key z" "\<not> bad_rejection d z" using healthy_rejection [OF h zd True] by blast
      have "q \<in> set (line_links d)" using q(1) by (auto simp: relation_by_id_def dest: find_SomeD)
      then have "ll_id q \<noteq> ll_id l" using q(2) l(3) lm nk h by (auto simp: healthy_def domain_keys_def keys_ok_def distinct_map inj_on_def)
      then have "relation_by_id (rj_relation z) ?t = Some q" using changed_relation [OF f links, of "rj_relation z"] q(1) by simp
      then show ?thesis using q by (simp add: bad_rejection_def)
    qed (simp add: bad_rejection_def)
    show "distinct (map rejection_key (filter rj_active (rejections ?t)))" using ua by (simp add: undone_active(1) distinct_map_subfilter)
  qed simp_all
  then show ?thesis using same_tables_healthy [OF t] by simp
qed

section \<open>A batch of relations and one at a time\<close>

fun create_each :: "physical \<Rightarrow> string \<Rightarrow> link_request list \<Rightarrow> ('y review_db, line_link option list) operation" where
  "create_each ph now [] d = (Inr [], d)"
| "create_each ph now (q # qs) d = op_bind (create_link ph now q) (\<lambda>l. op_bind (create_each ph now qs) (\<lambda>ls d. (Inr (l # ls), d))) d"

lemma fresh_ids_Suc: "fresh_ids ids (Suc n) = fresh_id ids # fresh_ids (ids @ [fresh_id ids]) n"
proof -
  have "fresh_id (ids @ [fresh_id ids]) = fresh_id ids + 1" by (simp add: fresh_id_def)
  then show ?thesis unfolding fresh_ids_def upt_conv_Cons [OF zero_less_Suc] map_Suc_upt [symmetric] by simp
qed

lemma write_links_Cons:
  assumes "distinct (map request_key (q # qs))"
  shows "write_links now (q # qs) ls = write_links now qs (write_links now [q] ls)"
proof -
  define g where "g qs l = (case List.find (\<lambda>q. request_key q = link_key l) qs of None \<Rightarrow> l | Some q \<Rightarrow> relink now q l)" for qs l
  define known where "known ls q \<longleftrightarrow> request_key q \<in> link_key ` set ls" for ls q
  define added where "added qs ls = filter (\<lambda>q. \<not> known ls q) qs" for qs ls
  have w: "write_links now qs ls = map (g qs) ls @ map2 (new_link now) (fresh_ids (map ll_id ls) (length (added qs ls))) (added qs ls)" for qs ls
  proof -
    have "list_ex (\<lambda>l. ll_scan l = lq_scan q \<and> ll_line l = lq_line q) ls = known ls q" for q by (induction ls) (auto simp: known_def)
    then show ?thesis by (simp add: write_links_def Let_def added_def g_def [abs_def])
  qed
  have key: "link_key (g p l) = link_key l" "ll_id (g p l) = ll_id l" for p l by (simp_all add: g_def relink_def split: option.split)
  have kq: "request_key p \<noteq> request_key q" if "p \<in> set qs" for p using assms that by (auto simp: image_iff)
  have gc: "g (p # ps) l = (if request_key p = link_key l then relink now p l else g ps l)" "g [] l = l" for p ps l by (simp_all add: g_def)
  have g2: "g (q # qs) l = g qs (g [q] l)" for l
  proof (cases "request_key q = link_key l")
    case True
    then have "List.find (\<lambda>p. request_key p = link_key (relink now q l)) qs = None" using kq by (auto simp: find_None_iff relink_def)
    then have "g qs (relink now q l) = relink now q l" by (simp add: g_def)
    then show ?thesis unfolding gc if_P [OF True] by (rule sym)
  next
    case False
    show ?thesis unfolding gc if_not_P [OF False] by (rule refl)
  qed
  show ?thesis
  proof (cases "known ls q")
    case True
    then have one: "write_links now [q] ls = map (g [q]) ls" by (simp add: w added_def fresh_ids_def)
    have "known (map (g [q]) ls) p = known ls p" for p by (simp add: known_def image_image key)
    then show ?thesis unfolding one unfolding w using True by (simp add: added_def g2 comp_def key)
  next
    case False
    let ?m = "new_link now (fresh_id (map ll_id ls)) q"
    have id: "map (g [q]) ls = ls" using False by (intro map_idI) (auto simp: g_def known_def image_iff)
    have one: "write_links now [q] ls = ls @ [?m]" using False by (simp add: w added_def id fresh_ids_Suc)
    have m: "link_key ?m = request_key q" "ll_id ?m = fresh_id (map ll_id ls)" by (simp_all add: new_link_def)
    have "g qs ?m = ?m" using kq m(1) by (auto simp: g_def find_None_iff split: option.split dest!: find_SomeD)
    moreover have "known (ls @ [?m]) p = known ls p" if "p \<in> set qs" for p using kq [OF that] m(1) by (auto simp: known_def)
    then have "added qs (ls @ [?m]) = added qs ls" by (simp add: added_def cong: filter_cong)
    moreover have "map (g (q # qs)) ls = map (g qs) ls" using id g2 by (metis (no_types, lifting) list.map_comp comp_apply map_eq_conv)
    ultimately show ?thesis unfolding one unfolding w using False by (simp add: added_def fresh_ids_Suc m(2))
  qed
qed

lemma store_link_eq:
  assumes "distinct (map link_key (line_links d))" "lq_active q" "revision_fault d q = None"
  shows "\<exists>l. store_link now q d = (Inr l, d\<lparr>line_links := write_links now [q] (line_links d)\<rparr>) \<and>
    l = get_link (lq_scan q) (lq_line q) (d\<lparr>line_links := write_links now [q] (line_links d)\<rparr>)"
proof -
  have a: "q\<lparr>lq_active := True\<rparr> = q" using assms(2) by (cases q) simp
  show ?thesis
  proof (cases "get_link (lq_scan q) (lq_line q) d")
    case (Some r)
    then have r: "r \<in> set (line_links d)" "ll_scan r = lq_scan q" "ll_line r = lq_line q" using get_link_SomeD by auto
    have e: "case lq_expected q of None \<Rightarrow> True | Some e \<Rightarrow> ll_revision r = e" using assms(3) Some by (auto simp: revision_fault_def split: option.splits if_splits)
    have "update_rows (\<lambda>x. link_key x = link_key r \<and> (case lq_expected q of None \<Rightarrow> True | Some e \<Rightarrow> ll_revision x = e)) (relink now q) (line_links d) =
        (1, map (\<lambda>x. if link_key x = link_key r then relink now q x else x) (line_links d))"
      using assms(1) r(1) e by (rule update_by_key)
    moreover have "write_links now [q] (line_links d) = map (\<lambda>x. if link_key x = link_key r then relink now q x else x) (line_links d)"
    proof -
      have "list_ex (\<lambda>l. ll_scan l = lq_scan q \<and> ll_line l = lq_line q) (line_links d)" using r by (auto simp: list_ex_iff)
      then show ?thesis by (auto simp: write_links_def Let_def fresh_ids_def r)
    qed
    ultimately show ?thesis using Some e by (simp add: store_link_def a r Let_def conj_assoc split: option.splits)
  next
    case None
    then have n: "\<not> list_ex (\<lambda>l. ll_scan l = lq_scan q \<and> ll_line l = lq_line q) (line_links d)" by (auto simp: get_link_def find_None_iff list_ex_iff)
    let ?m = "new_link now (fresh_id (map ll_id (line_links d))) q"
    have "map (\<lambda>l. case List.find (\<lambda>q. lq_scan q = ll_scan l \<and> lq_line q = ll_line l) [q] of None \<Rightarrow> l | Some q \<Rightarrow> relink now q l) (line_links d) = line_links d"
      using n by (intro map_idI) (auto simp: list_ex_iff)
    then have w: "write_links now [q] (line_links d) = line_links d @ [?m]" unfolding write_links_def Let_def using n by (simp add: fresh_ids_Suc del: find.simps)
    have "relation_by_id (fresh_id (map ll_id (line_links d))) (d\<lparr>line_links := line_links d @ [?m]\<rparr>) = Some ?m"
      using fresh_id_above [of _ "map ll_id (line_links d)"] by (simp add: relation_by_id_def) (intro find_last, fastforce simp: new_link_def, simp add: new_link_def)
    moreover have "get_link (lq_scan q) (lq_line q) (d\<lparr>line_links := line_links d @ [?m]\<rparr>) = Some ?m"
      using n by (simp add: get_link_def) (intro find_last, auto simp: new_link_def list_ex_iff)
    moreover have "case lq_expected q of None \<Rightarrow> True | Some e \<Rightarrow> e = 0" using assms(3) None by (auto simp: revision_fault_def split: option.splits if_splits)
    ultimately show ?thesis using None by (simp add: store_link_def a w Let_def split: option.splits)
  qed
qed

lemma accepted_link:
  assumes "get_record (lq_record q) d \<noteq> None" "map_option snd (the_line ph (lq_line q)) = Some (lq_scan q)" "link_fault ph d q = None"
    and "lq_active q" "distinct (map link_key (line_links d))"
  shows "create_link ph now q d = (Inr (get_link (lq_scan q) (lq_line q) (d\<lparr>line_links := write_links now [q] (line_links d)\<rparr>)), d\<lparr>line_links := write_links now [q] (line_links d)\<rparr>)"
proof -
  obtain l where l: "the_line ph (lq_line q) = Some (l, lq_scan q)" using assms(2) by auto
  have f: "block_fault d l q = None" "group_fault d l q = None" "source_fault d q = None" "revision_fault d q = None"
    using assms(3) by (auto simp: link_fault_def l first_fault_None)
  have "link_block_fault d l q = None" using f(1) by (auto simp: block_fault_def link_block_fault_def split: option.splits if_splits)
  moreover have "link_group_fault d l q = None" using f(2) by (auto simp: group_fault_def link_group_fault_def split: option.splits if_splits)
  moreover have "link_source_fault d q = None" using f(3) by (auto simp: source_fault_def link_source_fault_def split: option.splits if_splits)
  ultimately show ?thesis using l assms(1) store_link_eq [OF assms(5,4) f(4), of now] by (auto simp: create_link_def first_fault_def)
qed

text \<open>A request is still accepted after the relation of another line has been written.\<close>

lemma fault_after_write:
  assumes "link_fault ph d p = None" "request_key p \<noteq> request_key q"
  shows "link_fault ph (d\<lparr>line_links := write_links now [q] (line_links d)\<rparr>) p = None" (is "link_fault ph ?t p = None")
proof -
  obtain l s where l: "the_line ph (lq_line p) = Some (l, s)" using assms(1) by (auto simp: link_fault_def split: option.splits)
  have f: "block_fault d l p = None" "group_fault d l p = None" "source_fault d p = None" "revision_fault d p = None"
    using assms(1) by (auto simp: link_fault_def l first_fault_None)
  have "get_link (lq_scan p) (lq_line p) ?t = get_link (lq_scan p) (lq_line p) d" by (rule write_links_get(2)) (use assms(2) in auto)
  note gl = this
  have "revision_fault ?t p = None" using f(4) unfolding revision_fault_def gl .
  moreover have eq: "get_block i ?t = get_block i d" "get_group i ?t = get_group i d" for i by (simp_all add: get_block_def get_group_def)
  have "block_fault ?t l p = None" "group_fault ?t l p = None" using f(1,2) unfolding block_fault_def group_fault_def eq .
  moreover have "source_fault ?t p = None"
  proof (cases "lq_source_relation p")
    case (Some i)
    have "\<exists>m. relation_by_id i ?t = Some m \<and> link_key m = link_key r" if "relation_by_id i d = Some r" for r
      using write_links_old [OF that, of now "[q]"] by (auto simp: relink_def)
    then show ?thesis using f(3) Some by (fastforce simp: source_fault_def split: option.splits if_splits)
  qed (use f(3) in \<open>auto simp: source_fault_def split: option.splits\<close>)
  ultimately show ?thesis by (simp add: link_fault_def l first_fault_None)
qed

lemma create_each_ok:
  assumes "distinct (map request_key qs)" "distinct (map ll_id (line_links d))" "distinct (map link_key (line_links d))"
    and "\<And>q. q \<in> set qs \<Longrightarrow> lq_active q \<and> get_record (lq_record q) d \<noteq> None \<and> map_option snd (the_line ph (lq_line q)) = Some (lq_scan q) \<and> link_fault ph d q = None"
  shows "create_each ph now qs d = (Inr (map (\<lambda>q. get_link (lq_scan q) (lq_line q) (d\<lparr>line_links := write_links now qs (line_links d)\<rparr>)) qs),
    d\<lparr>line_links := write_links now qs (line_links d)\<rparr>)"
  using assms
proof (induction qs arbitrary: d)
  case Nil
  then show ?case by (simp add: write_links_def Let_def fresh_ids_def)
next
  case (Cons q qs)
  let ?t = "d\<lparr>line_links := write_links now [q] (line_links d)\<rparr>"
  let ?u = "d\<lparr>line_links := write_links now (q # qs) (line_links d)\<rparr>"
  have u: "?t\<lparr>line_links := write_links now qs (line_links ?t)\<rparr> = ?u" using write_links_Cons [OF Cons.prems(1)] by simp
  have c: "create_link ph now q d = (Inr (get_link (lq_scan q) (lq_line q) ?t), ?t)" using Cons.prems(4) [of q] Cons.prems(3) by (intro accepted_link) auto
  have dist: "distinct (map request_key [q])" "distinct (map request_key qs)" using Cons.prems(1) by simp_all
  have nk: "request_key p \<noteq> request_key q" if "p \<in> set qs" for p using Cons.prems(1) that by (auto simp: image_iff)
  have "create_each ph now qs ?t = (Inr (map (\<lambda>q. get_link (lq_scan q) (lq_line q) ?u) qs), ?u)"
    unfolding u [symmetric]
  proof (rule Cons.IH [OF dist(2)])
    show "distinct (map ll_id (line_links ?t))" "distinct (map link_key (line_links ?t))" using write_links_distinct [OF Cons.prems(2,3) dist(1), of now] by simp_all
    show "lq_active p \<and> get_record (lq_record p) ?t \<noteq> None \<and> map_option snd (the_line ph (lq_line p)) = Some (lq_scan p) \<and> link_fault ph ?t p = None" if "p \<in> set qs" for p
      using Cons.prems(4) [of p] that fault_after_write [OF _ nk [OF that], of ph d now] by (auto simp: get_record_def)
  qed
  moreover have "get_link (lq_scan q) (lq_line q) ?u = get_link (lq_scan q) (lq_line q) ?t"
    unfolding u [symmetric] by (rule write_links_get(2) [OF dist(2)]) (use nk in fastforce)
  ultimately show ?case using c by (simp add: op_bind_def)
qed


definition demo_facts :: physical where
  "demo_facts = \<lparr>ph_files = [\<lparr>fl_id = 1, fl_scan = 2, fl_repository = ''r'', fl_hash = ''h'', fl_path = ''a.c'', fl_source_name = ''a.c''\<rparr>],
     ph_lines = [\<lparr>pl_id = 30, pl_file = 1, pl_number = 5\<rparr>, \<lparr>pl_id = 31, pl_file = 1, pl_number = 6\<rparr>], ph_repositories = []\<rparr>"

definition demo_domain :: "unit review_db" where
  "demo_domain = \<lparr>project_states = [], line_links = [], rejections = [], next_rejection_id = 1,
     derived = \<lparr>records = [new_record (\<lambda>c. []) ''t0'' ''MANUAL'' 1 \<lparr>c_status = [], c_method = [], c_reason = [], c_comment = []\<rparr>], blocks = [], groups = [], legacy = [],
       file_states = ()\<rparr>\<rparr>"

definition demo_request :: "int \<Rightarrow> link_request" where
  "demo_request line = \<lparr>lq_scan = 2, lq_line = line, lq_record = 1, lq_block = None, lq_state = ''MANUAL_DRAFT'', lq_origin = ''MANUAL'', lq_group = None, lq_active = True, lq_by = [],
     lq_at = None, lq_source_scan = None, lq_source_line = None, lq_source_relation = None, lq_expected = Some 0\<rparr>"


end
