(* ===== verification/AnalysisSave.thy ===== *)
theory AnalysisSave
  imports AnalysisDomain
begin

text \<open>
  Saving and confirming analyses: \<open>app/services/analysis_service.py\<close> and \<open>confirm\<close> of
  \<open>app/services/inheritance_review_service.py\<close>, on the analysis domain. A client sends items, each a range of lines or
  a line with a content; the service resolves them to lines, checks the revisions the client has seen, writes
  records, blocks and relations, and ends rejections of the lines. The values of an item are of the types the
  code converts them to.

  Shown: saving, confirming, rejecting and undoing keep every database that passes the audit such; a save gives exactly
  the named lines the content and state sent, and no other line another content; a second save with the same
  expected revision is refused. A rejected relation whose record is edited comes back with the edited content, and an edit
  in place stores a status that was never checked.
\<close>

section \<open>Items\<close>

record save_item =
  si_ranges :: "(int \<times> int) list option"
  si_line_start :: "int option"
  si_line_end :: "int option"
  si_line_numbers :: "int list option"
  si_line_id :: int
  si_line_number :: "int option"
  si_repository :: string
  si_file_hash :: string
  si_file_path :: string
  si_status :: string
  si_conclusion :: "string option"
  si_method :: "string option"
  si_method_alias :: "string option"
  si_reason :: "string option"
  si_reason_alias :: "string option"
  si_comment :: string
  si_draft :: bool
  si_reviewer :: string
  si_reviewed_at :: "string option"
  si_record :: int
  si_expected_relation :: "int option"
  si_expected_record :: "int option"

record save_row = save_item +
  rw_operation :: nat
  rw_range :: nat
  rw_start :: int
  rw_end :: int

text \<open>The three Chinese words for coverable, not coverable and redundant code, and the one for not confirmed, as UTF-8.\<close>

definition CONFIRMED_STATUSES :: "string list" where
  "CONFIRMED_STATUSES = [[CHR 0xE5, CHR 0x8F, CHR 0xAF, CHR 0xE8, CHR 0xA6, CHR 0x86, CHR 0xE7, CHR 0x9B, CHR 0x96],
     [CHR 0xE6, CHR 0x97, CHR 0xA0, CHR 0xE6, CHR 0xB3, CHR 0x95, CHR 0xE8, CHR 0xA6, CHR 0x86, CHR 0xE7, CHR 0x9B, CHR 0x96],
     [CHR 0xE5, CHR 0x86, CHR 0x97, CHR 0xE4, CHR 0xBD, CHR 0x99, CHR 0xE4, CHR 0xBB, CHR 0xA3, CHR 0xE7, CHR 0xA0, CHR 0x81]]"

definition VALID_STATUSES :: "string list" where
  "VALID_STATUSES = [[], [CHR 0xE6, CHR 0x9C, CHR 0xAA, CHR 0xE7, CHR 0xA1, CHR 0xAE, CHR 0xE8, CHR 0xAE, CHR 0xA4]] @ CONFIRMED_STATUSES"

definition MAX_EXPANDED_ANALYSIS_LINES :: nat where
  "MAX_EXPANDED_ANALYSIS_LINES = 20000"

section \<open>Resolving items\<close>

definition item_ranges :: "save_item \<Rightarrow> (db_error + (int \<times> int) list option)" where
  "item_ranges i =
     (case si_ranges i of
        Some rs \<Rightarrow> Inr (Some rs)
      | None \<Rightarrow> (case si_line_start i of
          Some s \<Rightarrow> Inr (Some [(s, case si_line_end i of None \<Rightarrow> s | Some e \<Rightarrow> e)])
        | None \<Rightarrow> (case si_line_numbers i of
            Some ns \<Rightarrow> Inr (Some (map (\<lambda>n. (n, n)) ns))
          | None \<Rightarrow> (case si_line_number i of
              Some n \<Rightarrow> Inr (Some [(n, n)])
            | None \<Rightarrow> if si_line_id i \<noteq> 0 then Inr None else Inl (text_error ''int() argument must be a string, a bytes-like object or a real number, not NoneType'')))))"

definition make_row :: "nat \<Rightarrow> save_item \<Rightarrow> nat \<Rightarrow> int \<Rightarrow> int \<Rightarrow> save_row" where
  "make_row k i n start stop = save_item.extend i \<lparr>rw_operation = k, rw_range = n, rw_start = start, rw_end = stop\<rparr>"

fun expand_ranges :: "nat \<Rightarrow> save_item \<Rightarrow> nat \<Rightarrow> (int \<times> int) list \<Rightarrow> save_row list \<Rightarrow> db_error + save_row list" where
  "expand_ranges k i n [] acc = Inr acc"
| "expand_ranges k i n ((s, e) # rs) acc =
     (if s < 1 \<or> e < s then Inl (text_error ''invalid analysis line range'')
      else if e - s + 1 > int MAX_EXPANDED_ANALYSIS_LINES then Inl (text_error ''analysis line range is too large'')
      else let acc' = acc @ map (\<lambda>m. make_row k (i\<lparr>si_line_number := Some m\<rparr>) n s e) [s..e] in
        if length acc' > MAX_EXPANDED_ANALYSIS_LINES then Inl (text_error ''too many analysis lines in one batch'')
        else expand_ranges k i (n + 1) rs acc')"

fun expand_items :: "nat \<Rightarrow> save_item list \<Rightarrow> save_row list \<Rightarrow> db_error + save_row list" where
  "expand_items k [] acc = Inr acc"
| "expand_items k (i # is) acc =
     (case item_ranges i of
        Inl e \<Rightarrow> Inl e
      | Inr None \<Rightarrow> expand_items (k + 1) is (acc @ [make_row k i 0 0 0])
      | Inr (Some rs) \<Rightarrow> (case expand_ranges k i 0 rs acc of Inl e \<Rightarrow> Inl e | Inr acc' \<Rightarrow> expand_items (k + 1) is acc'))"

definition with_hash :: "(string \<Rightarrow> string \<Rightarrow> string) \<Rightarrow> save_row \<Rightarrow> save_row" where
  "with_hash path_hash r = (if si_file_hash r = [] \<and> si_file_path r \<noteq> [] then r\<lparr>si_file_hash := path_hash (si_file_path r) (si_repository r)\<rparr> else r)"

definition file_of_row :: "physical \<Rightarrow> int \<Rightarrow> save_row \<Rightarrow> file_row option" where
  "file_of_row ph scan r = List.find (\<lambda>f. fl_scan f = scan \<and> fl_repository f = si_repository r \<and> fl_hash f = si_file_hash r) (ph_files ph)"

definition row_line :: "physical \<Rightarrow> int \<Rightarrow> save_row \<Rightarrow> db_error + physical_line" where
  "row_line ph scan r =
     (if si_line_id r \<noteq> 0
      then (case the_line ph (si_line_id r) of
              None \<Rightarrow> Inl (text_error ''physical source line is not in scan'')
            | Some (l, s) \<Rightarrow>
                if s \<noteq> scan then Inl (text_error ''physical source line is not in scan'')
                else if si_line_number r \<noteq> None \<and> si_line_number r \<noteq> Some (pl_number l) then Inl (text_error ''LINE_NUMBER_IDENTITY_MISMATCH'')
                else Inr l)
      else (case List.find (\<lambda>l. map_option fl_id (file_of_row ph scan r) = Some (pl_file l) \<and> si_line_number r = Some (pl_number l)) (ph_lines ph) of
              None \<Rightarrow> Inl (text_error ''physical source line not found'')
            | Some l \<Rightarrow> Inr l))"

definition resolve_row :: "physical \<Rightarrow> int \<Rightarrow> string \<Rightarrow> save_row \<Rightarrow> db_error + save_row" where
  "resolve_row ph scan reviewer r =
     (case row_line ph scan r of
        Inl e \<Rightarrow> Inl e
      | Inr l \<Rightarrow>
          if si_status r \<notin> set VALID_STATUSES then Inl (text_error (''invalid analysis status: '' @ si_status r))
          else Inr (r\<lparr>si_line_id := pl_id l, si_line_number := Some (pl_number l), rw_start := (if rw_start r = 0 then pl_number l else rw_start r),
                 rw_end := (if rw_end r = 0 then pl_number l else rw_end r), si_reviewer := (if si_reviewer r = [] then reviewer else si_reviewer r)\<rparr>))"

fun traverse :: "('a \<Rightarrow> db_error + 'b) \<Rightarrow> 'a list \<Rightarrow> db_error + 'b list" where
  "traverse f [] = Inr []"
| "traverse f (x # xs) = (case f x of Inl e \<Rightarrow> Inl e | Inr y \<Rightarrow> (case traverse f xs of Inl e \<Rightarrow> Inl e | Inr ys \<Rightarrow> Inr (y # ys)))"

text \<open>The last item of a line wins, at the place of the first.\<close>

definition dedupe :: "save_row list \<Rightarrow> save_row list" where
  "dedupe rows = map snd (fold (\<lambda>r m. AList.update (si_line_id r) r m) rows [])"

definition resolve_records :: "(string \<Rightarrow> string \<Rightarrow> string) \<Rightarrow> physical \<Rightarrow> int \<Rightarrow> save_item list \<Rightarrow> string \<Rightarrow> db_error + save_row list" where
  "resolve_records path_hash ph scan items reviewer =
     (case expand_items 1 items [] of
        Inl e \<Rightarrow> Inl e
      | Inr rows \<Rightarrow>
          let hashed = map (with_hash path_hash) rows in
          if list_ex (\<lambda>r. si_line_id r = 0 \<and> file_of_row ph scan r = None) hashed then Inl (text_error ''file identity not found'')
          else (case traverse (resolve_row ph scan reviewer) hashed of Inl e \<Rightarrow> Inl e | Inr done_rows \<Rightarrow> Inr (dedupe done_rows)))"

section \<open>Revisions\<close>

definition seen_record :: "int \<Rightarrow> save_row \<Rightarrow> 'y review_db \<Rightarrow> analysis_record option" where
  "seen_record scan r d =
     (let i = (if si_record r \<noteq> 0 then si_record r else (case get_link scan (si_line_id r) d of None \<Rightarrow> 0 | Some l \<Rightarrow> ll_record l))
      in if i > 0 then get_record i d else None)"

definition concurrency_fault :: "int \<Rightarrow> 'y review_db \<Rightarrow> save_row \<Rightarrow> string option" where
  "concurrency_fault scan d r = first_fault
     [(case si_expected_relation r of None \<Rightarrow> None
       | Some e \<Rightarrow> if (case get_link scan (si_line_id r) d of None \<Rightarrow> 0 | Some l \<Rightarrow> ll_revision l) \<noteq> e then Some ''STALE_RELATION_REVISION'' else None),
      (case si_expected_record r of None \<Rightarrow> None
       | Some e \<Rightarrow> if map_option ar_revision (seen_record scan r d) \<noteq> Some e then Some ''STALE_CONTENT_REVISION'' else None)]"

definition validate_concurrency :: "int \<Rightarrow> save_row list \<Rightarrow> ('y review_db, unit) operation" where
  "validate_concurrency scan rows d = (case first_fault (map (concurrency_fault scan d) rows) of Some msg \<Rightarrow> refuse msg d | None \<Rightarrow> (Inr (), d))"

section \<open>Writing\<close>

definition review_state :: "save_row \<Rightarrow> string" where
  "review_state r = (if si_draft r then ''MANUAL_DRAFT'' else if si_status r \<in> set CONFIRMED_STATUSES then ''MANUAL_CONFIRMED'' else ''MANUAL_DRAFT'')"

definition text_of :: "string option \<Rightarrow> string" where
  "text_of v = (case v of None \<Rightarrow> [] | Some s \<Rightarrow> s)"

definition with_alias :: "string option \<Rightarrow> string option \<Rightarrow> string" where
  "with_alias v alias = (case v of Some s \<Rightarrow> s | None \<Rightarrow> text_of alias)"

text \<open>The content of a new record, of an edited one, and of the projection for old readers.\<close>

definition created_content :: "save_row \<Rightarrow> analysis_content" where
  "created_content r = \<lparr>c_status = si_status r, c_method = text_of (si_method r), c_reason = text_of (si_reason r), c_comment = si_comment r\<rparr>"

definition edited_content :: "save_row \<Rightarrow> analysis_content" where
  "edited_content r = \<lparr>c_status = (case si_conclusion r of Some s \<Rightarrow> s | None \<Rightarrow> si_status r), c_method = with_alias (si_method r) (si_method_alias r),
     c_reason = with_alias (si_reason r) (si_reason_alias r), c_comment = si_comment r\<rparr>"

definition legacy_of :: "save_row \<Rightarrow> legacy_row" where
  "legacy_of r = \<lparr>lg_line = si_line_id r, lg_content = \<lparr>c_status = si_status r, c_method = with_alias (si_method r) (si_method_alias r),
     c_reason = with_alias (si_reason r) (si_reason_alias r), c_comment = si_comment r\<rparr>, lg_draft = si_draft r, lg_reviewer = si_reviewer r\<rparr>"

definition row_file :: "physical \<Rightarrow> save_row \<Rightarrow> int" where
  "row_file ph r = (case the_line ph (si_line_id r) of None \<Rightarrow> 0 | Some (l, s) \<Rightarrow> pl_file l)"

definition operations :: "save_row list \<Rightarrow> nat list" where
  "operations rows = sort (remdups (map rw_operation rows))"

definition rows_of :: "save_row list \<Rightarrow> nat \<Rightarrow> save_row list" where
  "rows_of rows k = filter (\<lambda>r. rw_operation r = k) rows"

definition first_of :: "save_row list \<Rightarrow> nat \<Rightarrow> save_row" where
  "first_of rows k = hd (rows_of rows k)"

text \<open>A record is edited in place when the operation covers all the lines it is active on; otherwise a new one is made.\<close>

definition in_place :: "save_row list \<Rightarrow> 'y review_db \<Rightarrow> nat \<Rightarrow> bool" where
  "in_place rows d k \<longleftrightarrow> si_record (first_of rows k) \<noteq> 0 \<and> get_active_line_ids (si_record (first_of rows k)) d = set (map si_line_id (rows_of rows k))"

definition updates_of :: "save_row list \<Rightarrow> 'y review_db \<Rightarrow> record_update list" where
  "updates_of rows d = map (\<lambda>k. \<lparr>ru_record = si_record (first_of rows k), ru_expected = si_expected_record (first_of rows k), ru_content = edited_content (first_of rows k)\<rparr>)
     (filter (in_place rows d) (operations rows))"

definition creations_of :: "save_row list \<Rightarrow> 'y review_db \<Rightarrow> nat list" where
  "creations_of rows d = filter (\<lambda>k. \<not> in_place rows d k) (operations rows)"

text \<open>The record of each operation, after the records have been edited and created.\<close>

definition write_records ::
  "(analysis_content \<Rightarrow> string) \<Rightarrow> string \<Rightarrow> save_row list \<Rightarrow> ('y review_db, (nat \<times> analysis_record) list) operation" where
  "write_records hash now rows d =
     (if list_ex (\<lambda>k. in_place rows d k \<and> si_expected_record (first_of rows k) = None) (operations rows) then refuse ''EXPECTED_RECORD_REVISION_REQUIRED'' d
      else op_bind (update_records_many hash now (updates_of rows d)) (\<lambda>updated t.
        case create_manual_records_many hash now ''MANUAL'' (map (\<lambda>k. created_content (first_of rows k)) (creations_of rows d)) t of
          (made, u) \<Rightarrow>
            if None \<in> set updated then refuse ''analysis operation has no content record'' u
            else (Inr (zip (filter (in_place rows d) (operations rows)) (map the updated) @ zip (creations_of rows d) made), u)) d)"

definition block_keys :: "physical \<Rightarrow> save_row list \<Rightarrow> (nat \<times> nat \<times> int) list" where
  "block_keys ph rows = concat (map (\<lambda>k. map (\<lambda>(r, f). (k, r, f))
     (sort_key (\<lambda>(r, f). (show_nat r, f)) (remdups (map (\<lambda>r. (rw_range r, row_file ph r)) (rows_of rows k))))) (operations rows))"

definition row_key :: "physical \<Rightarrow> save_row \<Rightarrow> nat \<times> nat \<times> int" where
  "row_key ph r = (rw_operation r, rw_range r, row_file ph r)"

definition block_for :: "physical \<Rightarrow> int \<Rightarrow> save_row list \<Rightarrow> (nat \<times> analysis_record) list \<Rightarrow> nat \<times> nat \<times> int \<Rightarrow> block_request" where
  "block_for ph scan rows recs key =
     (let r = hd (filter (\<lambda>r. row_key ph r = key) rows); c = map_of recs (fst key) in
      \<lparr>br_scan = scan, br_repository = None, br_file = snd (snd key), br_start = rw_start r, br_end = rw_end r, br_record = (case c of None \<Rightarrow> 0 | Some a \<Rightarrow> ar_id a),
       br_hash = map_option ar_hash c, br_by = si_reviewer r, br_verified = True\<rparr>)"

definition link_for :: "physical \<Rightarrow> int \<Rightarrow> (nat \<times> analysis_record) list \<Rightarrow> ((nat \<times> nat \<times> int) \<times> analysis_block) list \<Rightarrow> save_row \<Rightarrow> link_request" where
  "link_for ph scan recs bs r =
     \<lparr>lq_scan = scan, lq_line = si_line_id r, lq_record = (case map_of recs (rw_operation r) of None \<Rightarrow> 0 | Some a \<Rightarrow> ar_id a),
      lq_block = map_option ab_id (map_of bs (row_key ph r)), lq_state = review_state r, lq_origin = ''MANUAL'', lq_group = None, lq_active = True,
      lq_by = si_reviewer r, lq_at = si_reviewed_at r, lq_source_scan = None, lq_source_line = None, lq_source_relation = None, lq_expected = si_expected_relation r\<rparr>"

definition plan_order :: "save_row list \<Rightarrow> save_row list" where
  "plan_order rows = concat (map (rows_of rows) (operations rows))"

definition save_domain_records ::
  "(analysis_content \<Rightarrow> string) \<Rightarrow> physical \<Rightarrow> string \<Rightarrow> int \<Rightarrow> save_row list \<Rightarrow> ('y review_db, int list) operation" where
  "save_domain_records hash ph now scan rows =
     op_bind (write_records hash now rows) (\<lambda>recs.
       op_bind (create_blocks_many ph now ''MANUAL'' (map (block_for ph scan rows recs) (block_keys ph rows))) (\<lambda>bs.
         op_bind (create_links_many ph now (map (link_for ph scan recs (zip (block_keys ph rows) bs)) (plan_order rows))) (\<lambda>links d.
           (Inr (sort (remdups (map (row_file ph) rows))), d))))"

definition save_body ::
  "(analysis_content \<Rightarrow> string) \<Rightarrow> (string \<Rightarrow> string \<Rightarrow> string) \<Rightarrow> physical \<Rightarrow> 'y domain file_service \<Rightarrow> string \<Rightarrow> int \<Rightarrow> int \<Rightarrow> save_item list \<Rightarrow> string \<Rightarrow> bool \<Rightarrow>
   ('y review_db, nat \<times> int) operation" where
  "save_body hash path_hash ph fs now project scan items reviewer enforce_current d =
     (let d1 = state_lock now project d; version = (\<lambda>d. case state_get project d of None \<Rightarrow> 0 | Some s \<Rightarrow> ps_data_version s);
          ready = (case state_get project d1 of None \<Rightarrow> False | Some s \<Rightarrow> projection_ready s);
          current = (case state_get project d1 of None \<Rightarrow> 0 | Some s \<Rightarrow> or_zero (ps_current_scan s)) in
      if enforce_current \<and> current \<noteq> scan then refuse ''MUTATION_REQUIRES_CURRENT_SCAN'' d1
      else if items = [] then (Inr (0, version d1), d1)
      else case resolve_records path_hash ph scan items reviewer of
        Inl e \<Rightarrow> (Inl e, d1)
      | Inr rows \<Rightarrow>
          op_bind (validate_concurrency scan rows) (\<lambda>u.
            op_bind (save_domain_records hash ph now scan rows) (\<lambda>affected d2.
              let d3 = snd (close_active_rejections_many now scan (map si_line_id rows) ''MANUAL_REANALYSIS'' d2); d4 = upsert_many (map legacy_of rows) d3 in
              op_bind (rebuild_step fs now project scan affected ready) (\<lambda>u d5. (Inr (length rows, version d5), d5)) d4)) d1)"

text \<open>The project and the scan are looked up before the transaction.\<close>

definition save ::
  "'y review_db driver \<Rightarrow> scan_db \<Rightarrow> (analysis_content \<Rightarrow> string) \<Rightarrow> (string \<Rightarrow> string \<Rightarrow> string) \<Rightarrow> physical \<Rightarrow> 'y domain file_service \<Rightarrow> string \<Rightarrow> string \<Rightarrow> int \<Rightarrow>
   save_item list \<Rightarrow> string \<Rightarrow> bool \<Rightarrow> 'y review_db connection \<Rightarrow> (db_error + nat \<times> int) \<times> 'y review_db connection" where
  "save drv fd hash path_hash ph fs now project_name scan items reviewer enforce_current c =
     (case get_project_by_name fd project_name of
        None \<Rightarrow> (Inl (text_error ''project not found''), c)
      | Some p \<Rightarrow>
          if map_option sc_project (get_scan fd scan) \<noteq> Some (pj_id p) then (Inl (text_error ''scan is not bound to project''), c)
          else transaction drv (save_body hash path_hash ph fs now (pj_id p) scan items reviewer enforce_current) c)"

text \<open>The edit of an inherited line is a save in the current scan.\<close>

definition edit_confirm ::
  "'y review_db driver \<Rightarrow> scan_db \<Rightarrow> (analysis_content \<Rightarrow> string) \<Rightarrow> (string \<Rightarrow> string \<Rightarrow> string) \<Rightarrow> physical \<Rightarrow> 'y domain file_service \<Rightarrow> string \<Rightarrow> string \<Rightarrow> int \<Rightarrow>
   save_item list \<Rightarrow> string \<Rightarrow> 'y review_db connection \<Rightarrow> (db_error + nat \<times> int) \<times> 'y review_db connection" where
  "edit_confirm drv fd hash path_hash ph fs now project_name scan items reviewer c = save drv fd hash path_hash ph fs now project_name scan items reviewer True c"

section \<open>Confirming\<close>

definition expected_revision :: "(int \<times> int) list \<Rightarrow> int option \<Rightarrow> int \<Rightarrow> int" where
  "expected_revision m dflt line = (case map_of m line of Some e \<Rightarrow> e | None \<Rightarrow> or_zero dflt)"

definition confirm_line :: "string \<Rightarrow> int \<Rightarrow> string \<Rightarrow> (int \<times> int) list \<Rightarrow> int option \<Rightarrow> int \<Rightarrow> ('y review_db, int \<times> int) operation" where
  "confirm_line now scan reviewer m dflt line d =
     (let expected = expected_revision m dflt line in
      if expected = 0 then refuse ''line_id and expected_relation_revision are required'' d
      else case List.find (\<lambda>l. ll_scan l = scan \<and> ll_line l = line \<and> ll_active l) (line_links d) of
        None \<Rightarrow> refuse ''STALE_RELATION_REVISION'' d
      | Some l \<Rightarrow>
          if ll_revision l \<noteq> expected then refuse ''STALE_RELATION_REVISION'' d
          else if ll_review_state l \<notin> set [''INHERITED_PENDING'', ''CARRIED_COVERED''] then refuse ''INHERITANCE_RELATION_NOT_ACTIVE'' d
          else (case update_rows (\<lambda>r. ll_id r = ll_id l \<and> ll_revision r = expected \<and> ll_active r)
              (\<lambda>r. r\<lparr>ll_review_state := ''MANUAL_CONFIRMED'', ll_reviewed_by := reviewer, ll_reviewed_at := Some now, ll_revision := ll_revision r + 1, ll_updated := now\<rparr>)
              (line_links d) of
            (n, ls) \<Rightarrow> if n \<noteq> 1 then refuse ''STALE_RELATION_REVISION'' (d\<lparr>line_links := ls\<rparr>) else (Inr (line, expected + 1), d\<lparr>line_links := ls\<rparr>)))"

fun confirm_lines :: "string \<Rightarrow> int \<Rightarrow> string \<Rightarrow> (int \<times> int) list \<Rightarrow> int option \<Rightarrow> int list \<Rightarrow> ('y review_db, (int \<times> int) list) operation" where
  "confirm_lines now scan reviewer m dflt [] d = (Inr [], d)"
| "confirm_lines now scan reviewer m dflt (i # is) d =
     op_bind (confirm_line now scan reviewer m dflt i) (\<lambda>r. op_bind (confirm_lines now scan reviewer m dflt is) (\<lambda>rs d. (Inr (r # rs), d))) d"

definition confirm_body ::
  "'y domain file_service \<Rightarrow> string \<Rightarrow> int \<Rightarrow> int \<Rightarrow> int list \<Rightarrow> (int \<times> int) list \<Rightarrow> int option \<Rightarrow> string \<Rightarrow> ('y review_db, (int \<times> int) list) operation" where
  "confirm_body fs now project scan selected m dflt reviewer =
     op_bind (assert_current now project scan) (\<lambda>state d.
       let files = file_ids_for_lines fs d scan selected in
       op_bind (confirm_lines now scan reviewer m dflt selected) (\<lambda>rs.
         op_bind (rebuild_step fs now project scan files (projection_ready state)) (\<lambda>u d. (Inr rs, d))) d)"

definition confirm ::
  "'y review_db driver \<Rightarrow> 'y domain file_service \<Rightarrow> string \<Rightarrow> int \<Rightarrow> int \<Rightarrow> int list \<Rightarrow> (int \<times> int) list \<Rightarrow> int option \<Rightarrow> string \<Rightarrow> 'y review_db connection \<Rightarrow>
   (db_error + (int \<times> int) list) \<times> 'y review_db connection" where
  "confirm drv fs now project scan ids m dflt reviewer c =
     (let selected = filter (\<lambda>i. i \<noteq> 0) ids in
      if selected = [] then (Inl (text_error ''line_id and expected_relation_revision are required''), c)
      else if length selected > 500 then (Inl (text_error ''selected_line_ids exceeds limit''), c)
      else transaction drv (confirm_body fs now project scan selected m dflt reviewer) c)"

section \<open>What the writes of a save do\<close>

lemma operations_distinct [simp]: "distinct (operations rows)"
  by (simp add: operations_def)

lemma set_operations [simp]: "set (operations rows) = rw_operation ` set rows"
  by (simp add: operations_def)

lemma set_plan_order [simp]: "set (plan_order rows) = set rows"
  by (auto simp: plan_order_def rows_of_def)

definition operation_content :: "save_row list \<Rightarrow> 'y review_db \<Rightarrow> nat \<Rightarrow> analysis_content" where
  "operation_content rows d k = (if in_place rows d k then edited_content (first_of rows k) else created_content (first_of rows k))"

lemma write_records_ok:
  assumes w: "write_records hash now rows d = (Inr recs, t)" and k: "domain_keys d"
  shows "records_only d t"
    "\<And>k. k \<in> rw_operation ` set rows \<Longrightarrow> \<exists>a. map_of recs k = Some a \<and> get_record (ar_id a) t = Some a \<and> ar_content a = operation_content rows d k"
    "\<And>i. get_record i d \<noteq> None \<Longrightarrow> (\<And>k. k \<in> rw_operation ` set rows \<Longrightarrow> in_place rows d k \<Longrightarrow> i \<noteq> si_record (first_of rows k)) \<Longrightarrow> get_record i t = get_record i d"
proof -
  define P where "P = filter (in_place rows d) (operations rows)"
  define C where "C = creations_of rows d"
  have C: "C = filter (\<lambda>k. \<not> in_place rows d k) (operations rows)" by (simp add: C_def creations_of_def)
  obtain upd t1 where u: "update_records_many hash now (updates_of rows d) d = (Inr upd, t1)"
    and w1: "(case create_manual_records_many hash now ''MANUAL'' (map (\<lambda>k. created_content (first_of rows k)) (creations_of rows d)) t1 of
      (made, u) \<Rightarrow> if None \<in> set upd then refuse ''analysis operation has no content record'' u
        else (Inr (zip (filter (in_place rows d) (operations rows)) (map the upd) @ zip (creations_of rows d) made), u)) = (Inr recs, t)"
    using w unfolding write_records_def op_bind_Inr by (auto simp: op_bind_Inr split: if_splits)
  obtain made t2 where c: "create_manual_records_many hash now ''MANUAL'' (map (\<lambda>k. created_content (first_of rows k)) C) t1 = (made, t2)" by (metis surj_pair)
  with w1 have r: "recs = zip P (map the upd) @ zip C made" and "t2 = t" by (simp_all add: C_def P_def split: if_splits)
  note c = c [unfolded \<open>t2 = t\<close>]
  note uo = update_records_ok [OF u k]
  have k1: "domain_keys t1" using records_only_tables(6) [OF uo(1)] k by simp
  note co = create_records_ok [OF c k1]
  show "records_only d t" using records_only_trans [OF uo(1) co(1)] .
  have upd: "map the upd = map (\<lambda>k. the (get_record (si_record (first_of rows k)) t1)) P" unfolding uo(2) by (simp add: updates_of_def P_def)
  have len: "length made = length C" using co(2) by (metis length_map)
  show "\<exists>a. map_of recs k = Some a \<and> get_record (ar_id a) t = Some a \<and> ar_content a = operation_content rows d k" if kk: "k \<in> rw_operation ` set rows" for k
  proof (cases "in_place rows d k")
    case True
    let ?u = "\<lparr>ru_record = si_record (first_of rows k), ru_expected = si_expected_record (first_of rows k), ru_content = edited_content (first_of rows k)\<rparr>"
    have kp: "k \<in> set P" using True kk by (simp add: P_def)
    then have "?u \<in> set (updates_of rows d)" unfolding updates_of_def P_def [symmetric] by simp
    then obtain a0 where a0: "get_record (si_record (first_of rows k)) t1 = Some (updated_record hash now (edited_content (first_of rows k)) a0)"
      using uo(3) [of ?u] by auto
    let ?a = "updated_record hash now (edited_content (first_of rows k)) a0"
    have "map_of recs k = Some ?a" using kp a0 by (simp add: r upd map_add_def map_of_zip_map C split: option.split) (use True in \<open>simp add: map_of_eq_None_iff\<close>)?
    moreover have "ar_id ?a = si_record (first_of rows k)" using a0 by (auto simp: get_record_def dest: find_SomeD)
    moreover have "get_record (si_record (first_of rows k)) t = Some ?a" using co(4) a0 by simp
    ultimately show ?thesis using True by (auto simp: operation_content_def updated_record_def)
  next
    case False
    then have "k \<in> set C" "k \<notin> set P" using kk by (simp_all add: C P_def)
    then obtain j where j: "j < length C" "C ! j = k" by (metis in_set_conv_nth)
    then have "map_of (zip C made) k = Some (made ! j)" using map_of_zip_nth [of C made j] len by (simp add: C)
    moreover have "map_of (zip P (map the upd)) k = None" using \<open>k \<notin> set P\<close> by (auto simp: map_of_eq_None_iff dest: set_zip_leftD)
    moreover have "ar_content (made ! j) = created_content (first_of rows k)" using arg_cong [OF co(2), of "\<lambda>xs. xs ! j"] j len by simp
    moreover have "get_record (ar_id (made ! j)) t = Some (made ! j)" using co(3) j len by simp
    ultimately show ?thesis using False by (simp add: r map_add_def operation_content_def)
  qed
  show "get_record i t = get_record i d" if "get_record i d \<noteq> None" "\<And>k. k \<in> rw_operation ` set rows \<Longrightarrow> in_place rows d k \<Longrightarrow> i \<noteq> si_record (first_of rows k)" for i
  proof -
    have "i \<notin> ru_record ` set (updates_of rows d)" using that(2) by (fastforce simp: updates_of_def)
    then have "get_record i t1 = get_record i d" by (rule uo(4))
    then show ?thesis using co(4) [of i] that(1) by simp
  qed
qed

lemma link_for_manual: "manual_request (link_for ph scan recs bs r) \<and> lq_scan (link_for ph scan recs bs r) = scan \<and> lq_line (link_for ph scan recs bs r) = si_line_id r"
  by (simp add: link_for_def manual_request_def REVIEW_STATES_def review_state_def)

text \<open>The three writes of a save, one after the other.\<close>

lemma save_records_inv:
  assumes s: "save_domain_records hash ph now scan rows d = (Inr affected, t)"
  obtains recs d1 bs d2 out where "write_records hash now rows d = (Inr recs, d1)"
    "create_blocks_many ph now ''MANUAL'' (map (block_for ph scan rows recs) (block_keys ph rows)) d1 = (Inr bs, d2)"
    "create_links_many ph now (map (link_for ph scan recs (zip (block_keys ph rows) bs)) (plan_order rows)) d2 = (Inr out, t)"
  using s unfolding save_domain_records_def op_bind_Inr by auto

lemma save_records_healthy:
  assumes h: "healthy ph d" and s: "save_domain_records hash ph now scan rows d = (Inr affected, t)"
  shows "healthy ph (snd (close_active_rejections_many now scan (map si_line_id rows) reason t))"
proof -
  obtain recs d1 bs d2 out where w: "write_records hash now rows d = (Inr recs, d1)"
    and b: "create_blocks_many ph now ''MANUAL'' (map (block_for ph scan rows recs) (block_keys ph rows)) d1 = (Inr bs, d2)"
    and l: "create_links_many ph now (map (link_for ph scan recs (zip (block_keys ph rows) bs)) (plan_order rows)) d2 = (Inr out, t)"
    using save_records_inv [OF s] by metis
  have k: "domain_keys d" using h by (simp add: healthy_def)
  note wo = records_only_tables [OF write_records_ok(1) [OF w k]]
  note bo = create_blocks_ok [OF b wo(6) [OF k]]
  have x: "extends d d2" using extends_trans [OF wo(5) bo(2)] .
  have "healthy ph d2"
  proof (rule healthy_later [OF h x bo(1)])
    have rel: "relation_by_id i d2 = relation_by_id i d" for i by (simp add: relation_by_id_def bo(3) wo(1))
    show "\<not> bad_rejection d2 y" if "y \<in> set (rejections d2)" for y
      using h that unfolding healthy_def gate_ok_def bad_rejection_def rel bo(4) wo(2) by blast
  qed (use h bo(3,4,9) wo(1,2,4) in \<open>simp_all add: healthy_def gate_ok_def\<close>)
  then show ?thesis by (rule relinked_healthy [OF _ l]) (auto simp: link_for_manual image_iff)
qed

lemma save_body_inv:
  assumes s: "save_body hash path_hash ph fs now project scan items reviewer enforce d = (Inr (n, v), t)"
  obtains (nothing) "items = []" "same_tables d t" "n = 0"
  | (saved) rows affected d2 ready where "resolve_records path_hash ph scan items reviewer = Inr rows"
    "validate_concurrency scan rows (state_lock now project d) = (Inr (), state_lock now project d)"
    "save_domain_records hash ph now scan rows (state_lock now project d) = (Inr affected, d2)" "n = length rows"
    "rebuild_step fs now project scan affected ready (upsert_many (map legacy_of rows) (snd (close_active_rejections_many now scan (map si_line_id rows) ''MANUAL_REANALYSIS'' d2))) = (Inr (), t)"
    "enforce \<longrightarrow> (case state_get project (state_lock now project d) of None \<Rightarrow> 0 | Some s \<Rightarrow> or_zero (ps_current_scan s)) = scan"
    "ready = (case state_get project (state_lock now project d) of None \<Rightarrow> False | Some s \<Rightarrow> projection_ready s)"
proof (cases "items = []")
  case True
  with s have "same_tables d t" "n = 0" by (auto simp: save_body_def Let_def split: if_splits)
  with True show ?thesis by (rule nothing)
next
  case False
  let ?e = "state_lock now project d"
  have cur: "enforce \<longrightarrow> (case state_get project ?e of None \<Rightarrow> 0 | Some s \<Rightarrow> or_zero (ps_current_scan s)) = scan"
    using s by (auto simp: save_body_def Let_def split: if_splits)
  then obtain rows where r: "resolve_records path_hash ph scan items reviewer = Inr rows"
    using s False by (auto simp: save_body_def Let_def split: if_splits sum.splits)
  have "validate_concurrency scan rows ?e = (Inr (), ?e)" if "validate_concurrency scan rows ?e = (Inr u, e)" for u e
    using that by (auto simp: validate_concurrency_def split: option.splits)
  then show ?thesis using saved [OF r] s False cur r unfolding save_body_def Let_def by (auto simp: op_bind_Inr split: if_splits)
qed

lemma upsert_many_tables: "same_tables d (upsert_many ls d)"
  by (simp add: same_tables_def upsert_many_def on_domain_def)

lemma save_healthy:
  assumes h: "healthy ph d" and s: "save_body hash path_hash ph fs now project scan items reviewer enforce d = (Inr (n, v), t)" and f: "service_frame fs"
  shows "healthy ph t"
  using s
proof (cases rule: save_body_inv)
  case nothing
  then show ?thesis using h same_tables_healthy by blast
next
  case (saved rows affected d2 ready)
  have "healthy ph (state_lock now project d)" using h same_tables_healthy [OF same_tables_lock(1)] by blast
  from save_records_healthy [OF this saved(3)]
  have "healthy ph (upsert_many (map legacy_of rows) (snd (close_active_rejections_many now scan (map si_line_id rows) ''MANUAL_REANALYSIS'' d2)))"
    using same_tables_healthy [OF upsert_many_tables] by blast
  then show ?thesis using same_tables_healthy [OF rebuild_frame [OF f saved(5)]] by blast
qed

definition confirmed :: "string \<Rightarrow> string \<Rightarrow> line_link \<Rightarrow> line_link" where
  "confirmed now reviewer r = r\<lparr>ll_review_state := ''MANUAL_CONFIRMED'', ll_reviewed_by := reviewer, ll_reviewed_at := Some now, ll_revision := ll_revision r + 1, ll_updated := now\<rparr>"

lemma confirm_line_inv:
  assumes c: "confirm_line now scan reviewer m dflt line d = (Inr x, t)" and k: "distinct (map ll_id (line_links d))"
  obtains l where "l \<in> set (line_links d)" "link_key l = (scan, line)" "ll_active l" "ll_review_state l \<in> {''INHERITED_PENDING'', ''CARRIED_COVERED''}"
    "ll_revision l = expected_revision m dflt line" "t = d\<lparr>line_links := change_link l (confirmed now reviewer) (line_links d)\<rparr>" "x = (line, ll_revision l + 1)"
proof -
  let ?e = "expected_revision m dflt line"
  obtain l where l: "List.find (\<lambda>l. ll_scan l = scan \<and> ll_line l = line \<and> ll_active l) (line_links d) = Some l" "ll_revision l = ?e"
    "ll_review_state l \<in> {''INHERITED_PENDING'', ''CARRIED_COVERED''}" "?e \<noteq> 0"
    using c by (auto simp: confirm_line_def Let_def split: if_splits option.splits)
  have lm: "l \<in> set (line_links d)" "link_key l = (scan, line)" "ll_active l" using l(1) by (auto dest: find_SomeD)
  have "update_rows (\<lambda>r. ll_id r = ll_id l \<and> ll_revision r = ?e \<and> ll_active r) (confirmed now reviewer) (line_links d) =
      (1, change_link l (confirmed now reviewer) (line_links d))"
    using update_by_key [OF k lm(1), of "\<lambda>r. ll_revision r = ?e \<and> ll_active r"] lm(3) l(2) by (simp add: change_link_def)
  then show ?thesis using that [OF lm l(3,2)] c l by (auto simp: confirm_line_def Let_def confirmed_def [abs_def])
qed

lemma confirm_lines_healthy: "healthy ph d \<Longrightarrow> confirm_lines now scan reviewer m dflt ids d = (Inr rs, t) \<Longrightarrow> healthy ph t"
proof (induction ids arbitrary: d rs)
  case (Cons i ids)
  from Cons.prems(2) obtain r t1 rs' where c: "confirm_line now scan reviewer m dflt i d = (Inr r, t1)" "confirm_lines now scan reviewer m dflt ids t1 = (Inr rs', t)"
    by (auto simp: op_bind_Inr)
  have k: "distinct (map ll_id (line_links d))" using Cons.prems(1) by (simp add: healthy_def domain_keys_def keys_ok_def)
  obtain l where l: "l \<in> set (line_links d)" "ll_active l" and t1: "t1 = d\<lparr>line_links := change_link l (confirmed now reviewer) (line_links d)\<rparr>"
    using confirm_line_inv [OF c(1) k] by blast
  have f: "keeps_identity (confirmed now reviewer)" by (simp add: keeps_identity_def confirmed_def)
  have links: "line_links t1 = change_link l (confirmed now reviewer) (line_links d)" by (simp add: t1)
  have "healthy ph t1"
  proof (rule changed_link_healthy [OF Cons.prems(1) f _ l(1) links])
    show "ll_review_state (confirmed now reviewer l) \<in> set REVIEW_STATES" by (simp add: confirmed_def REVIEW_STATES_def)
    show "\<not> bad_rejection t1 y" if "y \<in> set (rejections t1)" for y using active_change_rejection(1) [OF Cons.prems(1) l f links] that by (simp add: t1)
  qed (use Cons.prems(1) in \<open>simp_all add: t1 healthy_def gate_ok_def domain_keys_def keys_ok_def\<close>)
  then show ?case using c(2) by (rule Cons.IH)
qed simp

lemma confirm_healthy:
  assumes h: "healthy ph d" and c: "confirm_body fs now project scan selected m dflt reviewer d = (Inr rs, t)" and f: "service_frame fs"
  shows "healthy ph t"
proof -
  obtain d2 fls ready u where l: "confirm_lines now scan reviewer m dflt selected (state_lock now project d) = (Inr rs, d2)"
    and r: "rebuild_step fs now project scan fls ready d2 = (Inr u, t)"
    using c by (auto simp: confirm_body_def op_bind_Inr assert_current_ok Let_def)
  have "healthy ph (state_lock now project d)" using h same_tables_healthy [OF same_tables_lock(1)] by blast
  then have "healthy ph d2" using l by (rule confirm_lines_healthy)
  then show ?thesis using same_tables_healthy [OF rebuild_frame [OF f r]] by blast
qed

section \<open>What a save leaves\<close>

lemma set_block_keys [simp]: "set (block_keys ph rows) = row_key ph ` set rows"
  by (auto simp: block_keys_def rows_of_def row_key_def image_iff) metis

text \<open>The relation of a saved line, with its record and its block.\<close>

definition saved_as :: "physical \<Rightarrow> int \<Rightarrow> 'y review_db \<Rightarrow> analysis_content \<Rightarrow> save_row \<Rightarrow> 'y review_db \<Rightarrow> bool" where
  "saved_as ph scan d content r t \<longleftrightarrow> (\<exists>l a i b. get_link scan (si_line_id r) t = Some l \<and> ll_active l \<and> ll_review_state l = review_state r \<and>
     ll_revision l = (case get_link scan (si_line_id r) d of None \<Rightarrow> 1 | Some p \<Rightarrow> ll_revision p + 1) \<and>
     get_record (ll_record l) t = Some a \<and> ar_content a = content \<and> ll_block l = Some i \<and> get_block i t = Some b \<and> ab_record b = Some (ll_record l))"

lemma saved_as_tables: "same_tables t u \<Longrightarrow> saved_as ph scan d c r u = saved_as ph scan d c r t"
  by (simp add: saved_as_def same_lookups)

lemma block_request_made:
  assumes "length bs = length keys" "\<And>i. i < length keys \<Longrightarrow> bs ! i = new_block now origin (ab_id (bs ! i)) (f (keys ! i))" "key \<in> set keys"
  obtains b where "map_of (zip keys bs) key = Some b" "b \<in> set bs" "ab_record b = Some (br_record (f key))"
proof -
  obtain b where b: "map_of (zip keys bs) key = Some b" using assms(1,3) by (metis map_of_zip_is_Some)
  then have "(key, b) \<in> set (zip keys bs)" by (rule map_of_SomeD)
  then obtain i where "i < length keys" "keys ! i = key" "bs ! i = b" "i < length bs" by (auto simp: set_zip)
  then show ?thesis using that [OF b] assms(2) [of i] by (metis analysis_block.select_convs(9) new_block_def nth_mem)
qed

lemma save_records_exact:
  assumes h: "healthy ph d" and s: "save_domain_records hash ph now scan rows d = (Inr affected, t)"
  shows "r \<in> set rows \<Longrightarrow> saved_as ph scan d (operation_content rows d (rw_operation r)) r t"
    "(z, n) \<notin> (\<lambda>r. (scan, si_line_id r)) ` set rows \<Longrightarrow> get_link z n t = get_link z n d"
    "(z, n) \<notin> (\<lambda>r. (scan, si_line_id r)) ` set rows \<Longrightarrow> get_link z n d = Some l \<Longrightarrow> ll_active l \<Longrightarrow> get_record (ll_record l) t = get_record (ll_record l) d"
proof -
  obtain recs d1 bs d2 out where w: "write_records hash now rows d = (Inr recs, d1)"
    and b: "create_blocks_many ph now ''MANUAL'' (map (block_for ph scan rows recs) (block_keys ph rows)) d1 = (Inr bs, d2)"
    and l: "create_links_many ph now (map (link_for ph scan recs (zip (block_keys ph rows) bs)) (plan_order rows)) d2 = (Inr out, t)"
    using save_records_inv [OF s] by metis
  define f where "f = link_for ph scan recs (zip (block_keys ph rows) bs)"
  have k: "domain_keys d" using h by (simp add: healthy_def)
  note wo = write_records_ok [OF w k] and wt = records_only_tables [OF write_records_ok(1) [OF w k]]
  note bo = create_blocks_ok [OF b wt(6) [OF k]] and lo = create_links_ok [OF l, folded f_def]
  have keys: "request_key ` set (map f (plan_order rows)) = (\<lambda>r. (scan, si_line_id r)) ` set rows" unfolding set_map image_image set_plan_order by (simp add: f_def link_for_def)
  have link: "get_link z n d2 = get_link z n d" for z n by (simp add: get_link_def bo(3) wt(1))
  have rec: "get_record i t = get_record i d1" for i by (simp add: lo(1) get_record_def bo(6))
  have blk: "get_block i t = get_block i d2" for i by (simp add: lo(1) get_block_def)
  show other: "get_link z n t = get_link z n d" if "(z, n) \<notin> (\<lambda>r. (scan, si_line_id r)) ` set rows" for z n
    using write_links_get(2) [OF lo(2), of z n now d2] that unfolding keys lo(1) link by simp
  show "saved_as ph scan d (operation_content rows d (rw_operation r)) r t" if r: "r \<in> set rows" for r
  proof -
    obtain a where a: "map_of recs (rw_operation r) = Some a" "get_record (ar_id a) d1 = Some a" "ar_content a = operation_content rows d (rw_operation r)"
      using wo(2) [of "rw_operation r"] r by auto
    obtain c where c: "map_of (zip (block_keys ph rows) bs) (row_key ph r) = Some c" "c \<in> set bs" "ab_record c = Some (br_record (block_for ph scan rows recs (row_key ph r)))"
      using block_request_made [of bs "block_keys ph rows" now "''MANUAL''" "block_for ph scan rows recs" "row_key ph r"] bo(7,10) r by auto
    have q: "f r \<in> set (map f (plan_order rows))" using r by simp
    obtain m where m: "get_link (lq_scan (f r)) (lq_line (f r)) t = Some m" "written now (get_link (lq_scan (f r)) (lq_line (f r)) d2) (f r) m"
      using write_links_get(1) [OF lo(2) q, of now d2] unfolding lo(1) by blast
    note mf = written_fields [OF m(2)]
    have fr: "lq_scan (f r) = scan" "lq_line (f r) = si_line_id r" "lq_record (f r) = ar_id a" "lq_block (f r) = Some (ab_id c)" "lq_state (f r) = review_state r" "lq_active (f r)"
      using a(1) c(1) by (simp_all add: f_def link_for_def)
    have key: "p = Some x \<Longrightarrow> p = get_link (lq_scan (f r)) (lq_line (f r)) d2 \<Longrightarrow> link_key x = request_key (f r)" for p x using get_link_SomeD by auto
    have "ab_record c = Some (ar_id a)" using c(3) a(1) by (simp add: block_for_def Let_def row_key_def)
    then show ?thesis unfolding saved_as_def
      using m(1) mf(3-5,8,12) key fr a(2,3) bo(8) [OF c(2)] by (auto simp: rec blk link)
  qed
  show "get_record (ll_record l) t = get_record (ll_record l) d"
    if o: "(z, n) \<notin> (\<lambda>r. (scan, si_line_id r)) ` set rows" "get_link z n d = Some l" "ll_active l" for z n l
  proof -
    have lm: "l \<in> set (line_links d)" "link_key l = (z, n)" using get_link_SomeD [OF o(2)] by auto
    have g: "get_record (ll_record l) d \<noteq> None" "map_option snd (the_line ph n) = Some z"
      using h lm by (auto simp: healthy_def gate_ok_def good_link_def orphan_link_def)
    have "ll_record l \<noteq> si_record (first_of rows k)" if ip: "in_place rows d k" for k
    proof
      assume "ll_record l = si_record (first_of rows k)"
      then have "n \<in> get_active_line_ids (si_record (first_of rows k)) d" using lm o(3) by (force simp: get_active_line_ids_def)
      then obtain r where r: "r \<in> set rows" "si_line_id r = n" using ip by (auto simp: in_place_def rows_of_def)
      have q: "f r \<in> set (map f (plan_order rows))" using r(1) by simp
      have "lq_scan (f r) = scan" "lq_line (f r) = n" using r(2) by (simp_all add: f_def link_for_def)
      then have "map_option snd (the_line ph n) = Some scan" using lo(3) [OF q] by auto
      then show False using g(2) o(1) r by auto
    qed
    then show ?thesis using wo(3) [OF g(1)] rec by simp
  qed
qed

section \<open>Rows carry what their item sent\<close>

definition sent :: "'a save_item_scheme \<Rightarrow> string \<times> bool \<times> string option \<times> (string option \<times> string option) \<times> (string option \<times> string option) \<times> string \<times> int \<times> int option \<times> int option" where
  "sent r = (si_status r, si_draft r, si_conclusion r, (si_method r, si_method_alias r), (si_reason r, si_reason_alias r), si_comment r, si_record r, si_expected_relation r, si_expected_record r)"

lemma sent_content: "sent r = sent q \<Longrightarrow> created_content r = created_content q \<and> edited_content r = edited_content q \<and> review_state r = review_state q"
  by (simp add: sent_def created_content_def edited_content_def review_state_def split: option.split)

definition from_items :: "nat \<Rightarrow> save_item list \<Rightarrow> save_row \<Rightarrow> bool" where
  "from_items k is r \<longleftrightarrow> (\<exists>j < length is. rw_operation r = k + j \<and> sent r = sent (is ! j))"

lemma from_items_Cons: "rw_operation r = k \<and> sent r = sent i \<Longrightarrow> from_items k (i # is) r" "from_items (k + 1) is r \<Longrightarrow> from_items k (i # is) r"
  unfolding from_items_def by (auto intro: exI [of _ 0])

lemma expand_ranges_rows:
  "expand_ranges k i n rs acc = Inr out \<Longrightarrow> r \<in> set out \<Longrightarrow> r \<in> set acc \<or> (rw_operation r = k \<and> sent r = sent i)"
proof (induction k i n rs acc rule: expand_ranges.induct)
  case (2 k i n s e rs acc)
  then show ?case by (fastforce simp: Let_def make_row_def sent_def save_item.defs split: if_splits)
qed simp

lemma expand_items_rows: "expand_items k is acc = Inr out \<Longrightarrow> r \<in> set out \<Longrightarrow> r \<in> set acc \<or> from_items k is r"
proof (induction k "is" acc rule: expand_items.induct)
  case (2 k i "is" acc)
  show ?case
  proof (cases "item_ranges i")
    case (Inr rs)
    show ?thesis
    proof (cases rs)
      case None
      have "rw_operation (make_row k i 0 0 0) = k \<and> sent (make_row k i 0 0 0) = sent i" by (simp add: make_row_def sent_def save_item.defs)
      then have "from_items k (i # is) (make_row k i 0 0 0)" by (rule from_items_Cons)
      moreover have "r \<in> set (acc @ [make_row k i 0 0 0]) \<or> from_items (k + 1) is r" using 2(1) [OF Inr None] 2(3,4) Inr None by simp
      ultimately show ?thesis using from_items_Cons(2) by auto
    next
      case (Some ranges)
      with 2 Inr obtain acc' where a: "expand_ranges k i 0 ranges acc = Inr acc'" "expand_items (k + 1) is acc' = Inr out" by (auto split: sum.splits)
      have "r \<in> set acc' \<or> from_items (k + 1) is r" using 2(2) [OF Inr Some a(1)] a(2) 2(4) by simp
      moreover have "r \<in> set acc \<or> from_items k (i # is) r" if "r \<in> set acc'" using expand_ranges_rows [OF a(1) that] from_items_Cons(1) by auto
      ultimately show ?thesis using from_items_Cons(2) by auto
    qed
  qed (use 2 in simp)
qed simp

lemma traverse_mem: "traverse f xs = Inr ys \<Longrightarrow> y \<in> set ys \<Longrightarrow> \<exists>x \<in> set xs. f x = Inr y"
  by (induction xs arbitrary: ys) (auto split: sum.splits)

lemma dedupe_fold:
  "distinct (map fst m) \<and> (\<forall>p \<in> set m. fst p = si_line_id (snd p)) \<Longrightarrow>
   distinct (map fst (fold (\<lambda>r m. AList.update (si_line_id r) r m) rows m)) \<and>
   (\<forall>p \<in> set (fold (\<lambda>r m. AList.update (si_line_id r) r m) rows m). fst p = si_line_id (snd p) \<and> (p \<in> set m \<or> snd p \<in> set rows))"
proof (induction rows arbitrary: m)
  case (Cons r rows)
  have u: "distinct (map fst (AList.update (si_line_id r) r m))" using Cons.prems by (simp add: AList.distinct_update)
  have v: "p = (si_line_id r, r) \<or> p \<in> set m" if "p \<in> set (AList.update (si_line_id r) r m)" for p using that
    by (induction m) (auto split: if_splits)
  have w: "\<forall>p \<in> set (AList.update (si_line_id r) r m). fst p = si_line_id (snd p)"
  proof
    fix p assume "p \<in> set (AList.update (si_line_id r) r m)"
    from v [OF this] Cons.prems show "fst p = si_line_id (snd p)" by auto
  qed
  let ?f = "fold (\<lambda>r m. AList.update (si_line_id r) r m) rows (AList.update (si_line_id r) r m)"
  have ih: "distinct (map fst ?f)" "\<And>p. p \<in> set ?f \<Longrightarrow> fst p = si_line_id (snd p) \<and> (p \<in> set (AList.update (si_line_id r) r m) \<or> snd p \<in> set rows)"
    using Cons.IH [of "AList.update (si_line_id r) r m"] u w by blast+
  have "p \<in> set m \<or> snd p \<in> set (r # rows)" if "p \<in> set ?f" for p using ih(2) [OF that] v [of p] by auto
  then show ?case using ih by simp
qed simp

lemma resolve_records_rows:
  assumes "resolve_records path_hash ph scan items reviewer = Inr rows"
  shows "distinct (map si_line_id rows)" "\<And>r. r \<in> set rows \<Longrightarrow> from_items 1 items r"
proof -
  obtain ex done_rows where e: "expand_items 1 items [] = Inr ex" "traverse (resolve_row ph scan reviewer) (map (with_hash path_hash) ex) = Inr done_rows" "rows = dedupe done_rows"
    using assms by (auto simp: resolve_records_def Let_def split: sum.splits if_splits)
  define m where "m = fold (\<lambda>r m. AList.update (si_line_id r) r m) done_rows []"
  have m: "distinct (map fst m)" "\<And>p. p \<in> set m \<Longrightarrow> fst p = si_line_id (snd p) \<and> snd p \<in> set done_rows"
    using dedupe_fold [of "[]" done_rows] by (auto simp: m_def)
  have rows: "rows = map snd m" by (simp add: e(3) dedupe_def m_def)
  have "map si_line_id rows = map fst m" using m(2) by (auto simp: rows)
  then show "distinct (map si_line_id rows)" using m(1) by simp
  show "from_items 1 items r" if "r \<in> set rows" for r
  proof -
    have "r \<in> set done_rows" using that m(2) by (auto simp: rows)
    then obtain x where x: "x \<in> set ex" "resolve_row ph scan reviewer (with_hash path_hash x) = Inr r" using traverse_mem [OF e(2)] by auto
    then have "rw_operation r = rw_operation x \<and> sent r = sent x" by (auto simp: resolve_row_def with_hash_def sent_def Let_def split: sum.splits if_splits)
    then show ?thesis using expand_items_rows [OF e(1) x(1)] by (auto simp: from_items_def)
  qed
qed

lemma first_of_sent:
  assumes "resolve_records path_hash ph scan items reviewer = Inr rows" "r \<in> set rows"
  shows "sent (first_of rows (rw_operation r)) = sent r"
proof -
  have "rows_of rows (rw_operation r) \<noteq> []" using assms(2) by (auto simp: rows_of_def filter_empty_conv)
  then have "first_of rows (rw_operation r) \<in> set (rows_of rows (rw_operation r))" by (simp add: first_of_def)
  then have "first_of rows (rw_operation r) \<in> set rows" "rw_operation (first_of rows (rw_operation r)) = rw_operation r" by (auto simp: rows_of_def)
  moreover obtain i where "rw_operation r = 1 + i" "sent r = sent (items ! i)"
    using resolve_records_rows(2) [OF assms] by (auto simp: from_items_def)
  moreover obtain j where "rw_operation (first_of rows (rw_operation r)) = 1 + j" "sent (first_of rows (rw_operation r)) = sent (items ! j)"
    using resolve_records_rows(2) [OF assms(1) calculation(1)] by (auto simp: from_items_def)
  ultimately show ?thesis by simp
qed

lemma in_place_tables: "same_tables d t \<Longrightarrow> in_place rows t = in_place rows d"
  by (simp add: fun_eq_iff in_place_def same_lookups)

lemma save_body_exact:
  assumes h: "healthy ph d" and f: "service_frame fs" and rs: "resolve_records path_hash ph scan items reviewer = Inr rows" "items \<noteq> []"
    and s: "save_body hash path_hash ph fs now project scan items reviewer enforce d = (Inr (n, v), t)"
  shows "r \<in> set rows \<Longrightarrow> saved_as ph scan d (if in_place rows d (rw_operation r) then edited_content r else created_content r) r t"
    "(z, m) \<notin> (\<lambda>r. (scan, si_line_id r)) ` set rows \<Longrightarrow> get_link z m t = get_link z m d"
    "(z, m) \<notin> (\<lambda>r. (scan, si_line_id r)) ` set rows \<Longrightarrow> get_link z m d = Some l \<Longrightarrow> ll_active l \<Longrightarrow> get_record (ll_record l) t = get_record (ll_record l) d"
    "r \<in> set rows \<Longrightarrow> concurrency_fault scan d r = None"
proof -
  let ?e = "state_lock now project d"
  obtain affected d2 ready where w: "validate_concurrency scan rows ?e = (Inr (), ?e)" "save_domain_records hash ph now scan rows ?e = (Inr affected, d2)"
    "rebuild_step fs now project scan affected ready (upsert_many (map legacy_of rows) (snd (close_active_rejections_many now scan (map si_line_id rows) ''MANUAL_REANALYSIS'' d2))) = (Inr (), t)"
    using s by (cases rule: save_body_inv) (use rs in auto)
  let ?c = "snd (close_active_rejections_many now scan (map si_line_id rows) ''MANUAL_REANALYSIS'' d2)"
  have st: "same_tables d ?e" by simp
  have "same_tables ?c t" using rebuild_frame [OF f w(3)] upsert_many_tables [of ?c "map legacy_of rows"] by (simp add: same_tables_def)
  then have lt: "get_link z m t = get_link z m d2" "get_record i t = get_record i d2" "get_block i t = get_block i d2" for z m i
    by (simp_all add: same_tables_def close_active_rejections_many_def update_rows_def get_link_def get_record_def get_block_def)
  have he: "healthy ph ?e" using h same_tables_healthy [OF st] by blast
  note ex = save_records_exact [OF he w(2)]
  show "saved_as ph scan d (if in_place rows d (rw_operation r) then edited_content r else created_content r) r t" if r: "r \<in> set rows"
  proof -
    have "operation_content rows ?e (rw_operation r) = (if in_place rows d (rw_operation r) then edited_content r else created_content r)"
      using sent_content [OF first_of_sent [OF rs(1) r]] by (simp add: operation_content_def in_place_tables [OF st])
    then show ?thesis using ex(1) [OF r] by (simp add: saved_as_def lt same_lookups [OF st])
  qed
  show "get_link z m t = get_link z m d" if "(z, m) \<notin> (\<lambda>r. (scan, si_line_id r)) ` set rows" using ex(2) [OF that] by (simp add: lt same_lookups [OF st])
  show "get_record (ll_record l) t = get_record (ll_record l) d" if "(z, m) \<notin> (\<lambda>r. (scan, si_line_id r)) ` set rows" "get_link z m d = Some l" "ll_active l"
    using ex(3) [OF that(1) _ that(3)] that(2) by (simp add: lt same_lookups [OF st])
  show "concurrency_fault scan d r = None" if "r \<in> set rows"
  proof -
    have "concurrency_fault scan ?e q = concurrency_fault scan d q" for q unfolding concurrency_fault_def seen_record_def same_lookups [OF st] ..
    then show ?thesis using w(1) that by (auto simp: validate_concurrency_def first_fault_None split: option.splits)
  qed
qed

lemma transaction_keeps:
  assumes "rollback_works drv" "clean c" "P (committed c)" "c' = c \<or> transaction drv body c = (out, c')" "\<And>d x t. P d \<Longrightarrow> body d = (Inr x, t) \<Longrightarrow> P t"
  shows "clean c' \<and> P (committed c')"
  using assms(4)
proof
  assume "transaction drv body c = (out, c')"
  from transaction_cases [OF assms(1,2) this] assms(3,5) show ?thesis by (auto split: sum.splits)
qed (use assms(2,3) in simp)

section \<open>Reviews\<close>

text \<open>One call of the four operations on a connection, with any arguments, whether it returns or raises.\<close>

inductive review_step ::
  "'y review_db driver \<Rightarrow> 'y domain file_service \<Rightarrow> physical \<Rightarrow> (analysis_content \<Rightarrow> string) \<Rightarrow> 'y review_db connection \<Rightarrow> 'y review_db connection \<Rightarrow> bool"
  for drv fs ph hash where
  step_save: "save drv fd hash path_hash ph fs now name scan items reviewer enforce c = (out, c') \<Longrightarrow> review_step drv fs ph hash c c'"
| step_confirm: "confirm drv fs now project scan ids m dflt reviewer c = (out', c') \<Longrightarrow> review_step drv fs ph hash c c'"
| step_reject: "reject drv fs now project scan line user expected c = (out'', c') \<Longrightarrow> review_step drv fs ph hash c c'"
| step_undo: "undo drv fs now project scan line i er el c = (out'', c') \<Longrightarrow> review_step drv fs ph hash c c'"

lemma review_step_healthy:
  assumes "review_step drv fs ph hash c c'" "rollback_works drv" "service_frame fs" "clean c" "healthy ph (committed c)"
  shows "clean c' \<and> healthy ph (committed c')"
  using assms
proof (induction rule: review_step.induct)
  case (step_save fd path_hash now name scan items reviewer enforce c out c')
  let ?body = "save_body hash path_hash ph fs now (pj_id (the (get_project_by_name fd name))) scan items reviewer enforce"
  have "c' = c \<or> transaction drv ?body c = (out, c')" using step_save(1) by (auto simp: save_def split: option.splits if_splits)
  then show ?case by (rule transaction_keeps [where P = "healthy ph", OF step_save(2,4,5)]) (metis save_healthy [OF _ _ step_save(3)] surj_pair)
next
  case (step_confirm now project scan ids m dflt reviewer c out' c')
  let ?body = "confirm_body fs now project scan (filter (\<lambda>i. i \<noteq> 0) ids) m dflt reviewer"
  have "c' = c \<or> transaction drv ?body c = (out', c')" using step_confirm(1) by (auto simp: confirm_def Let_def split: if_splits)
  then show ?case by (rule transaction_keeps [where P = "healthy ph", OF step_confirm(2,4,5)]) (rule confirm_healthy [OF _ _ step_confirm(3)])
next
  case (step_reject now project scan line user expected c out'' c')
  then have "c' = c \<or> transaction drv (reject_body fs now project scan line user expected) c = (out'', c')" by (simp add: reject_def)
  then show ?case by (rule transaction_keeps [where P = "healthy ph", OF step_reject(2,4,5)]) (rule reject_healthy [OF _ _ step_reject(3)])
next
  case (step_undo now project scan line i er el c out'' c')
  then have "c' = c \<or> transaction drv (undo_body fs now project scan line i er el) c = (out'', c')" by (simp add: undo_def)
  then show ?case by (rule transaction_keeps [where P = "healthy ph", OF step_undo(2,4,5)]) (rule undo_healthy [OF _ _ step_undo(3)])
qed

section \<open>Properties\<close>

text \<open>C6: any sequence of saves, confirmations, rejections and undoings, whether they return or raise, from a database
  with unique keys whose audit passes for every scan, ends in such a database.\<close>

theorem reviews_keep_audit:
  assumes "(review_step drv fs ph hash)\<^sup>*\<^sup>* c c'" "rollback_works drv" "service_frame fs" "clean c" "domain_keys (committed c)"
    and "\<forall>s. audit_passed (Some s) (audit_consistency ph (Some s) (committed c))"
  shows "clean c' \<and> domain_keys (committed c') \<and> (\<forall>s. audit_passed (Some s) (audit_consistency ph (Some s) (committed c')))"
proof -
  have "healthy ph (committed c)" using assms(5,6) by (simp add: healthy_def gate_ok_iff)
  with assms(1,4) have "clean c' \<and> healthy ph (committed c')"
    by (induction rule: rtranclp_induct) (simp_all add: review_step_healthy [OF _ assms(2,3)])
  then show ?thesis by (simp add: healthy_def gate_ok_iff)
qed


text \<open>C8: no save is lost: after a save that named a revision of a relation, a save that names the same revision of that
  relation is refused and changes nothing.\<close>

theorem second_save_is_refused:
  assumes "rollback_works drv" "clean c" "service_frame fs" "healthy ph (committed c)" "items \<noteq> []" "items2 \<noteq> []"
    and "resolve_records path_hash ph scan items reviewer = Inr rows" "r \<in> set rows" "si_expected_relation r = Some e"
    and "save drv fd hash path_hash ph fs now name scan items reviewer enforce c = (Inr (n, v), c')"
    and "resolve_records path_hash ph scan items2 reviewer2 = Inr rows2" "r2 \<in> set rows2" "si_line_id r2 = si_line_id r" "si_expected_relation r2 = Some e"
    and "save drv fd2 hash path_hash ph fs now2 name2 scan items2 reviewer2 enforce2 c' = (out, c'')"
  shows "(\<exists>err. out = Inl err) \<and> committed c'' = committed c'"
proof -
  have s: "save_body hash path_hash ph fs now (pj_id (the (get_project_by_name fd name))) scan items reviewer enforce (committed c) = (Inr (n, v), committed c')" and cl: "clean c'"
    using assms(10) transaction_cases [OF assms(1,2)] by (fastforce simp: save_def split: option.splits if_splits)+
  note ex = save_body_exact [OF assms(4,3,7,5) s]
  have "ex_rev = e" if "ex_rev = (case get_link scan (si_line_id r) (committed c) of None \<Rightarrow> 0 | Some l \<Rightarrow> ll_revision l)" for ex_rev
    using ex(4) [OF assms(8)] assms(9) that by (auto simp: concurrency_fault_def first_fault_None split: if_splits)
  then obtain l where "get_link scan (si_line_id r2) (committed c') = Some l" "ll_revision l \<noteq> e"
    using ex(1) [OF assms(8)] assms(13) by (auto simp: saved_as_def split: option.splits)
  then have st: "concurrency_fault scan (committed c') r2 \<noteq> None" using assms(14) by (auto simp: concurrency_fault_def first_fault_def)
  have "healthy ph (committed c')" using save_healthy [OF assms(4) s assms(3)] .
  have "\<exists>err. out = Inl err"
  proof (cases out)
    case (Inr nv)
    then have "save_body hash path_hash ph fs now2 (pj_id (the (get_project_by_name fd2 name2))) scan items2 reviewer2 enforce2 (committed c') = (Inr (fst nv, snd nv), committed c'')"
      using assms(15) transaction_cases [OF assms(1) cl] by (fastforce simp: save_def split: option.splits if_splits)
    from save_body_exact(4) [OF \<open>healthy ph (committed c')\<close> assms(3,11,6) this assms(12)] st show ?thesis by simp
  qed simp
  moreover have "committed c'' = committed c'" using assms(15) calculation transaction_cases [OF assms(1) cl] by (fastforce simp: save_def split: option.splits if_splits)
  ultimately show ?thesis by blast
qed

section \<open>Examples\<close>

definition demo_frame :: "unit domain file_service" where
  "demo_frame = \<lparr>file_ids_for_lines = (\<lambda>d scan lines. [2]), rebuild_and_mark_ready = (\<lambda>d project scan v files ready. (Inr (), d))\<rparr>"

text \<open>A source scan 1 and its successor 2, whose two lines have inherited one cloned record.\<close>

definition demo_physical :: physical where
  "demo_physical = \<lparr>ph_files = map (\<lambda>i. \<lparr>fl_id = i, fl_scan = i, fl_repository = ''r'', fl_hash = ''h'', fl_path = ''a.c'', fl_source_name = ''a.c''\<rparr>) [1, 2],
     ph_lines = [\<lparr>pl_id = 3, pl_file = 1, pl_number = 5\<rparr>, \<lparr>pl_id = 4, pl_file = 1, pl_number = 6\<rparr>, \<lparr>pl_id = 30, pl_file = 2, pl_number = 5\<rparr>, \<lparr>pl_id = 31, pl_file = 2, pl_number = 6\<rparr>],
     ph_repositories = []\<rparr>"

definition demo_inherited :: "int \<Rightarrow> int \<Rightarrow> int \<Rightarrow> int \<Rightarrow> line_link" where
  "demo_inherited i line source_line source = \<lparr>ll_id = i, ll_scan = 2, ll_line = line, ll_active = True, ll_revision = 1, ll_review_state = ''INHERITED_PENDING'', ll_record = 9,
     ll_source_scan = Some 1, ll_source_line = Some source_line, ll_source_relation = Some source, ll_block = Some 2, ll_origin = ''INHERITANCE'', ll_group = None,
     ll_reviewed_by = [], ll_reviewed_at = None, ll_created = ''t0'', ll_updated = ''t0''\<rparr>"

definition demo_manual :: "int \<Rightarrow> int \<Rightarrow> line_link" where
  "demo_manual i line = \<lparr>ll_id = i, ll_scan = 1, ll_line = line, ll_active = True, ll_revision = 1, ll_review_state = ''MANUAL_CONFIRMED'', ll_record = 8,
     ll_source_scan = None, ll_source_line = None, ll_source_relation = None, ll_block = Some 1, ll_origin = ''MANUAL'', ll_group = None,
     ll_reviewed_by = [], ll_reviewed_at = None, ll_created = ''t0'', ll_updated = ''t0''\<rparr>"

definition demo_record :: "int \<Rightarrow> string \<Rightarrow> analysis_record" where
  "demo_record i origin = \<lparr>ar_id = i, ar_content = \<lparr>c_status = hd CONFIRMED_STATUSES, c_method = [], c_reason = [], c_comment = ''old''\<rparr>, ar_revision = 1, ar_hash = [],
     ar_origin = origin, ar_created = ''t0'', ar_updated = ''t0''\<rparr>"

definition demo_block :: "int \<Rightarrow> int \<Rightarrow> analysis_block" where
  "demo_block i r = \<lparr>ab_id = i, ab_scan = i, ab_repository = None, ab_file = i, ab_start = 5, ab_end = 6, ab_origin = ''MANUAL'', ab_verified = True, ab_record = Some r,
     ab_hash = None, ab_by = [], ab_at = ''t0''\<rparr>"

definition demo_review :: "unit review_db" where
  "demo_review = \<lparr>project_states = [\<lparr>ps_project = 1, ps_current_scan = Some 2, ps_data_version = 6, ps_file_state_version = 6, ps_updated = ''t0''\<rparr>],
     line_links = [demo_manual 1 3, demo_manual 2 4, demo_inherited 3 30 3 1, demo_inherited 4 31 4 2], rejections = [], next_rejection_id = 1,
     derived = \<lparr>records = [demo_record 8 ''MANUAL'', demo_record 9 ''INHERITED''], blocks = [demo_block 1 8, demo_block 2 9], groups = [], legacy = [], file_states = ()\<rparr>\<rparr>"

definition demo_item :: save_item where
  "demo_item = \<lparr>si_ranges = None, si_line_start = None, si_line_end = None, si_line_numbers = None, si_line_id = 30, si_line_number = None, si_repository = [], si_file_hash = [],
     si_file_path = [], si_status = hd CONFIRMED_STATUSES, si_conclusion = None, si_method = None, si_method_alias = None, si_reason = None, si_reason_alias = None,
     si_comment = ''new'', si_draft = False, si_reviewer = [], si_reviewed_at = None, si_record = 9, si_expected_relation = Some 1, si_expected_record = Some 1\<rparr>"

definition demo_save :: "save_item \<Rightarrow> (unit review_db, nat \<times> int) operation" where
  "demo_save i = save_body (\<lambda>c. c_comment c) (\<lambda>p r. p) demo_physical demo_frame ''t1'' 1 2 [i] ''u'' True"

lemma demo_healthy: "healthy demo_physical demo_review"
proof -
  have "gate_ok demo_physical demo_review" by code_simp
  moreover have "domain_keys demo_review"
    by (auto simp: domain_keys_def keys_ok_def demo_review_def demo_manual_def demo_inherited_def demo_record_def demo_block_def get_block_def)
  ultimately show ?thesis by (simp add: healthy_def)
qed

lemma demo_frame_frame: "service_frame demo_frame"
  by (simp add: service_frame_def demo_frame_def same_tables_def)

text \<open>A line that is rejected while it shares its record, and undone after the record was edited in place for the other
  line, comes back with the edited content.\<close>

lemma undo_shows_edit:
  "let d1 = snd (reject_body demo_frame ''t1'' 1 2 31 ''u'' 1 demo_review); d2 = snd (demo_save demo_item d1);
     r = undo_body demo_frame ''t3'' 1 2 31 1 1 2 d2; content = (\<lambda>d. map_option (\<lambda>l. map_option (\<lambda>a. c_comment (ar_content a)) (get_record (ll_record l) d)) (get_link 2 31 d))
   in is_ok_result (fst (demo_save demo_item d1)) \<and> is_ok_result (fst r) \<and> map_option ll_active (get_link 2 31 (snd r)) = Some True \<and>
      content demo_review = Some (Some ''old'') \<and> content (snd r) = Some (Some ''new'')"
  by code_simp

text \<open>An edit in place takes the status from the field that was never checked, while a new record takes the checked one.\<close>

lemma edit_stores_unchecked_status:
  "let i = demo_item\<lparr>si_line_id := 0, si_ranges := Some [(5, 6)], si_repository := ''r'', si_file_hash := ''h'', si_conclusion := Some ''anything''\<rparr>; r = demo_save i demo_review
   in is_ok_result (fst r) \<and> map_option (\<lambda>a. c_status (ar_content a)) (get_record 9 (snd r)) = Some ''anything'' \<and> ''anything'' \<notin> set VALID_STATUSES \<and>
      map_option ll_review_state (get_link 2 30 (snd r)) = Some ''MANUAL_CONFIRMED''"
  by code_simp

text \<open>A new record drops the other names of method and reason, which the projection for old readers keeps.\<close>

lemma alias_is_dropped:
  "let r = demo_save (demo_item\<lparr>si_method_alias := Some ''test'', si_record := 0, si_expected_record := None\<rparr>) demo_review
   in is_ok_result (fst r) \<and> map (\<lambda>g. c_method (lg_content g)) (legacy (derived (snd r))) = [''test''] \<and>
      map_option (\<lambda>l. map_option (\<lambda>a. c_method (ar_content a)) (get_record (ll_record l) (snd r))) (get_link 2 30 (snd r)) = Some (Some [])"
  by code_simp

definition demo_link_driver :: "unit review_db driver" where
  "demo_link_driver = \<lparr>commit_error = (\<lambda>c. None), rollback_error = (\<lambda>c. None)\<rparr>"

definition demo_link_connection :: "unit review_db connection" where
  "demo_link_connection = \<lparr>committed = demo_review, working = demo_review, is_closed = False\<rparr>"

definition demo_scans :: scan_db where
  "demo_scans = \<lparr>projects = [\<lparr>pj_id = 1, pj_name = ''p'', pj_created = [], pj_updated = []\<rparr>],
     scans = [\<lparr>sc_id = 2, sc_project = 1, sc_key = ''k'', sc_type = [], sc_scope = [], sc_info_name = [], sc_info_sha = [], sc_imported = [], sc_status = ''PUBLISHED'',
       sc_legacy = False, sc_metadata_version = 1, sc_predecessor = Some 1, sc_algorithm = []\<rparr>],
     snapshots = [], reports = [], files = [], line_facts = []\<rparr>"

definition demo_save_call :: "unit review_db connection \<Rightarrow> (db_error + nat \<times> int) \<times> unit review_db connection" where
  "demo_save_call = save demo_link_driver demo_scans (\<lambda>c. c_comment c) (\<lambda>p r. p) demo_physical demo_frame ''t1'' ''p'' 2 [demo_item] ''u'' True"

lemma demo_link_clean: "rollback_works demo_link_driver" "clean demo_link_connection" "healthy demo_physical (committed demo_link_connection)"
  using demo_healthy by (simp_all add: rollback_works_def clean_def demo_link_driver_def demo_link_connection_def)

definition demo_row :: save_row where
  "demo_row = (make_row 1 demo_item 0 5 5)\<lparr>si_line_number := Some 5, si_reviewer := ''u''\<rparr>"

lemma demo_resolved: "resolve_records (\<lambda>p r. p) demo_physical 2 [demo_item] ''u'' = Inr [demo_row]"
  by code_simp

lemma demo_save_ok: "demo_save_call demo_link_connection = (Inr (1, 7), snd (demo_save_call demo_link_connection))"
  by (rule prod_eqI) (code_simp, simp)

theorem reviews_keep_audit_witness:
  "audit_passed (Some 2) (audit_consistency demo_physical (Some 2)
     (committed (snd (confirm demo_link_driver demo_frame ''t2'' 1 2 [31] [(31, 1)] None ''u'' (snd (demo_save_call demo_link_connection))))))"
proof -
  let ?step = "review_step demo_link_driver demo_frame demo_physical (\<lambda>c. c_comment c)"
  let ?c1 = "snd (demo_save_call demo_link_connection)"
  let ?c2 = "snd (confirm demo_link_driver demo_frame ''t2'' 1 2 [31] [(31, 1)] None ''u'' ?c1)"
  have "?step demo_link_connection ?c1" unfolding demo_save_call_def by (rule step_save) (rule prod.collapse [symmetric])
  moreover have "?step ?c1 ?c2" by (rule step_confirm) (rule prod.collapse [symmetric])
  ultimately have "?step\<^sup>*\<^sup>* demo_link_connection ?c2" by simp
  moreover have "domain_keys (committed demo_link_connection)" "\<forall>s. audit_passed (Some s) (audit_consistency demo_physical (Some s) (committed demo_link_connection))"
    using demo_link_clean(3) by (simp_all add: healthy_def gate_ok_iff)
  ultimately show ?thesis using reviews_keep_audit [OF _ demo_link_clean(1) demo_frame_frame demo_link_clean(2)] by blast
qed


theorem second_save_is_refused_witness:
  "\<exists>err. fst (demo_save_call (snd (demo_save_call demo_link_connection))) = Inl err"
proof -
  have r: "demo_row \<in> set [demo_row]" "si_expected_relation demo_row = Some 1" by (simp, code_simp)
  obtain out c'' where s: "demo_save_call (snd (demo_save_call demo_link_connection)) = (out, c'')" by (metis surj_pair)
  have "(\<exists>err. out = Inl err) \<and> committed c'' = committed (snd (demo_save_call demo_link_connection))"
    by (rule second_save_is_refused [OF demo_link_clean(1,2) demo_frame_frame demo_link_clean(3) _ _ demo_resolved r demo_save_ok [unfolded demo_save_call_def]
        demo_resolved r(1) refl r(2) s [unfolded demo_save_call_def], folded demo_save_call_def]) simp_all
  then show ?thesis by (simp add: s)
qed

end
