(* ===== verification/FileState.thy ===== *)
theory FileState
  imports AnalysisSave
begin

text \<open>
  The file states: \<open>app/db/repositories/file_state_repository.py\<close> and \<open>app/services/file_state_service.py\<close>. A row of the table
  holds, for a file of a scan, how many of its lines are uncovered, analysed, drafts, confirmed and pending, with
  the data version it was computed for. The service recomputes the rows of the files that a review has changed, or
  all of them, compares them with the facts and marks the project as ready. The coverage state of a line is an
  argument; a joined query is the function of the rows that its keys select, of which there is at most one.

  Shown: the service leaves alone what saving relies on; after every review of a current scan the file states of a
  project that is marked ready are those of the facts; the gate never refuses a rebuild; the grouped query and
  the summary of one file count the same.
\<close>

section \<open>Tables\<close>

record counts =
  ct_lines :: nat
  ct_uncovered :: nat
  ct_filled :: nat
  ct_draft :: nat
  ct_confirmed :: nat
  ct_pending :: nat
  ct_ordinary :: nat
  ct_inherited :: nat
  ct_manual :: nat

record file_state =
  fs_scan :: int
  fs_file :: int
  fs_counts :: counts
  fs_version :: int
  fs_updated :: string

type_synonym state_db = "file_state list review_db"

abbreviation state_rows :: "state_db \<Rightarrow> file_state list" where
  "state_rows d \<equiv> file_states (derived d)"

section \<open>What a line counts as\<close>

definition UNCOVERED_STATES :: "string list" where
  "UNCOVERED_STATES = [''uncovered'', ''uncovered_line'', ''uncovered-code'', ''0'',
     [CHR 0xE6, CHR 0x9C, CHR 0xAA, CHR 0xE8, CHR 0xA6, CHR 0x86, CHR 0xE7, CHR 0x9B, CHR 0x96]]"

text \<open>A line joined with its active relation, the record of that and the row for old readers.\<close>

record line_view =
  lv_number :: int
  lv_uncovered :: bool
  lv_state :: "string option"
  lv_status :: string
  lv_draft :: bool

definition active_link :: "int \<Rightarrow> int \<Rightarrow> 'y review_db \<Rightarrow> line_link option" where
  "active_link scan line d = List.find (\<lambda>q. ll_scan q = scan \<and> ll_line q = line \<and> ll_active q) (line_links d)"

definition legacy_line :: "int \<Rightarrow> 'y review_db \<Rightarrow> legacy_row option" where
  "legacy_line line d = List.find (\<lambda>a. lg_line a = line) (legacy (derived d))"

definition view_status :: "int \<Rightarrow> int \<Rightarrow> 'y review_db \<Rightarrow> string" where
  "view_status scan line d = (case active_link scan line d of
       Some q \<Rightarrow> (case get_record (ll_record q) d of None \<Rightarrow> [] | Some r \<Rightarrow> c_status (ar_content r))
     | None \<Rightarrow> (case legacy_line line d of None \<Rightarrow> [] | Some a \<Rightarrow> c_status (lg_content a)))"

definition view_draft :: "int \<Rightarrow> int \<Rightarrow> 'y review_db \<Rightarrow> bool" where
  "view_draft scan line d = (case active_link scan line d of
       Some q \<Rightarrow> ll_review_state q \<in> set [''MANUAL_DRAFT'', ''INHERITED_PENDING'']
     | None \<Rightarrow> (case legacy_line line d of None \<Rightarrow> False | Some a \<Rightarrow> lg_draft a))"

definition view_line :: "(int \<Rightarrow> string) \<Rightarrow> int \<Rightarrow> 'y review_db \<Rightarrow> physical_line \<Rightarrow> line_view" where
  "view_line cov scan d l = \<lparr>lv_number = pl_number l, lv_uncovered = (map to_lower (cov (pl_id l)) \<in> set UNCOVERED_STATES),
     lv_state = map_option ll_review_state (active_link scan (pl_id l) d), lv_status = view_status scan (pl_id l) d, lv_draft = view_draft scan (pl_id l) d\<rparr>"

definition is_confirmed :: "line_view \<Rightarrow> bool" where
  "is_confirmed v \<longleftrightarrow> lv_status v \<in> set CONFIRMED_STATUSES \<and> \<not> lv_draft v"

definition ordinary_pending :: "line_view \<Rightarrow> bool" where
  "ordinary_pending v \<longleftrightarrow> lv_uncovered v \<and> lv_state v = None \<and> \<not> is_confirmed v"

definition inherited_pending :: "line_view \<Rightarrow> bool" where
  "inherited_pending v \<longleftrightarrow> lv_uncovered v \<and> lv_state v = Some ''INHERITED_PENDING''"

definition manual_draft_pending :: "line_view \<Rightarrow> bool" where
  "manual_draft_pending v \<longleftrightarrow> lv_uncovered v \<and> lv_state v \<noteq> None \<and> lv_state v \<noteq> Some ''INHERITED_PENDING'' \<and> \<not> is_confirmed v"

section \<open>Counting\<close>

definition how_many :: "('a \<Rightarrow> bool) \<Rightarrow> 'a list \<Rightarrow> nat" where
  "how_many P xs = length (filter P xs)"

definition count_views :: "line_view list \<Rightarrow> counts" where
  "count_views vs = \<lparr>ct_lines = length vs, ct_uncovered = how_many lv_uncovered vs, ct_filled = how_many (\<lambda>v. lv_status v \<noteq> []) vs, ct_draft = how_many lv_draft vs,
     ct_confirmed = how_many (\<lambda>v. lv_uncovered v \<and> is_confirmed v) vs, ct_pending = how_many (\<lambda>v. lv_uncovered v \<and> \<not> is_confirmed v) vs,
     ct_ordinary = how_many ordinary_pending vs, ct_inherited = how_many inherited_pending vs, ct_manual = how_many manual_draft_pending vs\<rparr>"

definition file_views :: "(int \<Rightarrow> string) \<Rightarrow> physical \<Rightarrow> 'y review_db \<Rightarrow> file_row \<Rightarrow> line_view list" where
  "file_views cov ph d f = map (view_line cov (fl_scan f) d) (filter (\<lambda>l. pl_file l = fl_id f) (ph_lines ph))"

definition grouped_counts :: "(int \<Rightarrow> string) \<Rightarrow> physical \<Rightarrow> 'y review_db \<Rightarrow> file_row \<Rightarrow> counts" where
  "grouped_counts cov ph d f = count_views (file_views cov ph d f)"

text \<open>The summary of one file, from the list of its lines.\<close>

definition authoritative_file_summary :: "(int \<Rightarrow> string) \<Rightarrow> physical \<Rightarrow> 'y review_db \<Rightarrow> int \<Rightarrow> int \<Rightarrow> counts \<times> int list \<times> int list" where
  "authoritative_file_summary cov ph d scan i =
     (let rows = sort_key lv_number (map (view_line cov scan d) (filter (\<lambda>l. pl_file l = i \<and> file_scan ph i = Some scan) (ph_lines ph)));
          uncovered = filter lv_uncovered rows;
          confirmed = filter (\<lambda>v. \<not> lv_draft v \<and> lv_status v \<in> set CONFIRMED_STATUSES) uncovered;
          pending = filter (\<lambda>v. \<not> (\<not> lv_draft v \<and> lv_status v \<in> set CONFIRMED_STATUSES)) uncovered;
          blank = (\<lambda>v. case lv_state v of None \<Rightarrow> True | Some s \<Rightarrow> s = []) in
      (\<lparr>ct_lines = length rows, ct_uncovered = length uncovered, ct_filled = length (filter (\<lambda>v. lv_status v \<noteq> []) rows), ct_draft = length (filter lv_draft rows),
        ct_confirmed = length confirmed, ct_pending = length pending, ct_ordinary = length (filter blank pending),
        ct_inherited = length (filter (\<lambda>v. lv_state v = Some ''INHERITED_PENDING'') pending),
        ct_manual = length (filter (\<lambda>v. \<not> blank v \<and> lv_state v \<noteq> Some ''INHERITED_PENDING'') pending)\<rparr>,
       map lv_number pending, map lv_number uncovered))"

definition add_counts :: "counts \<Rightarrow> counts \<Rightarrow> counts" where
  "add_counts a b = \<lparr>ct_lines = ct_lines a + ct_lines b, ct_uncovered = ct_uncovered a + ct_uncovered b, ct_filled = ct_filled a + ct_filled b, ct_draft = ct_draft a + ct_draft b,
     ct_confirmed = ct_confirmed a + ct_confirmed b, ct_pending = ct_pending a + ct_pending b, ct_ordinary = ct_ordinary a + ct_ordinary b,
     ct_inherited = ct_inherited a + ct_inherited b, ct_manual = ct_manual a + ct_manual b\<rparr>"

definition no_counts :: counts where
  "no_counts = count_views []"

definition sum_counts :: "counts list \<Rightarrow> counts" where
  "sum_counts cs = foldr add_counts cs no_counts"

section \<open>Rebuilding\<close>

definition get_state :: "int \<Rightarrow> int \<Rightarrow> state_db \<Rightarrow> file_state option" where
  "get_state scan i d = List.find (\<lambda>r. fs_scan r = scan \<and> fs_file r = i) (state_rows d)"

text \<open>Insertion, or update of the row with the same key.\<close>

definition upsert :: "('r \<Rightarrow> 'k) \<Rightarrow> 'r \<Rightarrow> 'r list \<Rightarrow> 'r list" where
  "upsert key r rows = (if list_ex (\<lambda>x. key x = key r) rows then map (\<lambda>x. if key x = key r then r else x) rows else rows @ [r])"

abbreviation state_key :: "file_state \<Rightarrow> int \<times> int" where
  "state_key r \<equiv> (fs_scan r, fs_file r)"

definition put_state :: "file_state \<Rightarrow> file_state list \<Rightarrow> file_state list" where
  "put_state = upsert state_key"

definition on_states :: "(file_state list \<Rightarrow> file_state list) \<Rightarrow> state_db \<Rightarrow> state_db" where
  "on_states f = on_domain (\<lambda>m. m\<lparr>file_states := f (file_states m)\<rparr>)"

definition rebuild_file :: "(int \<Rightarrow> string) \<Rightarrow> physical \<Rightarrow> string \<Rightarrow> int \<Rightarrow> int \<Rightarrow> int \<Rightarrow> state_db \<Rightarrow> file_state option \<times> state_db" where
  "rebuild_file cov ph now scan i version d =
     (let row = \<lparr>fs_scan = scan, fs_file = i, fs_counts = fst (authoritative_file_summary cov ph d scan i), fs_version = version, fs_updated = now\<rparr>;
          d' = on_states (put_state row) d in (get_state scan i d', d'))"

definition rebase_scan_version :: "string \<Rightarrow> int \<Rightarrow> int \<Rightarrow> state_db \<Rightarrow> nat \<times> state_db" where
  "rebase_scan_version now scan version d =
     (case update_rows (\<lambda>r. fs_scan r = scan) (\<lambda>r. r\<lparr>fs_version := version, fs_updated := now\<rparr>) (state_rows d) of (n, rows) \<Rightarrow> (n, on_states (\<lambda>x. rows) d))"

definition normalized_file_ids :: "int list option \<Rightarrow> int list option" where
  "normalized_file_ids ids = map_option (\<lambda>is. sort (remdups (filter (\<lambda>i. i > 0) is))) ids"

text \<open>The files of a scan, all or those selected.\<close>

definition scan_files :: "physical \<Rightarrow> int \<Rightarrow> int list option \<Rightarrow> file_row list" where
  "scan_files ph scan sel = filter (\<lambda>f. fl_scan f = scan \<and> (case sel of None \<Rightarrow> True | Some ids \<Rightarrow> fl_id f \<in> set ids)) (ph_files ph)"

definition grouped_row :: "(int \<Rightarrow> string) \<Rightarrow> physical \<Rightarrow> string \<Rightarrow> int \<Rightarrow> state_db \<Rightarrow> file_row \<Rightarrow> file_state" where
  "grouped_row cov ph now version d f = \<lparr>fs_scan = fl_scan f, fs_file = fl_id f, fs_counts = grouped_counts cov ph d f, fs_version = version, fs_updated = now\<rparr>"

definition rebuild_scan :: "(int \<Rightarrow> string) \<Rightarrow> physical \<Rightarrow> string \<Rightarrow> int \<Rightarrow> int \<Rightarrow> int list option \<Rightarrow> state_db \<Rightarrow> state_db" where
  "rebuild_scan cov ph now scan version ids d =
     (let sel = normalized_file_ids ids in
      if sel = Some [] then d
      else let d' = on_states (fold put_state (map (grouped_row cov ph now version d) (scan_files ph scan sel))) d in
        if sel = None then on_states (filter (\<lambda>r. \<not> (fs_scan r = scan \<and> \<not> list_ex (\<lambda>f. fl_id f = fs_file r \<and> fl_scan f = scan) (ph_files ph)))) d' else d')"

section \<open>The gate\<close>

definition state_selected :: "int list option \<Rightarrow> file_state \<Rightarrow> bool" where
  "state_selected sel r = (case sel of None \<Rightarrow> True | Some ids \<Rightarrow> fs_file r \<in> set ids)"

definition scan_aggregate :: "int \<Rightarrow> int list option \<Rightarrow> state_db \<Rightarrow> nat \<times> counts" where
  "scan_aggregate scan ids d =
     (let rows = filter (\<lambda>r. fs_scan r = scan \<and> state_selected (normalized_file_ids ids) r) (state_rows d) in (length rows, sum_counts (map fs_counts rows)))"

definition scan_summary_from_facts :: "(int \<Rightarrow> string) \<Rightarrow> physical \<Rightarrow> int \<Rightarrow> int list option \<Rightarrow> state_db \<Rightarrow> nat \<times> counts" where
  "scan_summary_from_facts cov ph scan ids d =
     (let fs = scan_files ph scan (normalized_file_ids ids) in (length (remdups (map fl_id fs)), count_views (concat (map (file_views cov ph d) fs))))"

definition orphan_states :: "physical \<Rightarrow> int \<Rightarrow> state_db \<Rightarrow> nat" where
  "orphan_states ph scan d = how_many (\<lambda>r. fs_scan r = scan \<and> \<not> list_ex (\<lambda>f. fl_id f = fs_file r \<and> fl_scan f = fs_scan r) (ph_files ph)) (state_rows d)"

definition is_stale :: "int \<Rightarrow> int list option \<Rightarrow> bool \<Rightarrow> file_state \<Rightarrow> bool" where
  "is_stale version sel allow_older r = (case sel of
       None \<Rightarrow> if allow_older then fs_version r > version else fs_version r \<noteq> version
     | Some [] \<Rightarrow> False
     | Some ids \<Rightarrow> (allow_older \<and> fs_version r > version) \<or> (fs_file r \<in> set ids \<and> fs_version r \<noteq> version))"

definition file_state_completeness :: "physical \<Rightarrow> int \<Rightarrow> int \<Rightarrow> int list option \<Rightarrow> bool \<Rightarrow> state_db \<Rightarrow> bool" where
  "file_state_completeness ph scan version ids allow_older d =
     (let sel = normalized_file_ids ids; fs = scan_files ph scan None; found = map (\<lambda>f. get_state scan (fl_id f) d) fs;
          expected = length (remdups (map fl_id fs)); states = length (remdups (map (\<lambda>r. fs_file (the r)) (filter (\<lambda>r. r \<noteq> None) found)));
          missing = how_many (\<lambda>r. r = None) found; stale = how_many (\<lambda>r. case r of None \<Rightarrow> False | Some r \<Rightarrow> is_stale version sel allow_older r) found in
      expected = states \<and> missing = 0 \<and> stale = 0 \<and> orphan_states ph scan d = 0 \<and>
      (case sel of None \<Rightarrow> True | Some is \<Rightarrow> length (remdups (filter (\<lambda>i. i \<in> set is) (map fl_id fs))) = length is))"

definition pending_conservation :: "physical \<Rightarrow> int \<Rightarrow> int list option \<Rightarrow> state_db \<Rightarrow> bool" where
  "pending_conservation ph scan ids d =
     (let fs = scan_files ph scan (normalized_file_ids ids); found = map (\<lambda>f. get_state scan (fl_id f) d) fs;
          expected = length (remdups (map fl_id fs)); states = length (remdups (map (\<lambda>r. fs_file (the r)) (filter (\<lambda>r. r \<noteq> None) found)));
          missing = how_many (\<lambda>r. r = None) found;
          mismatched = how_many (\<lambda>r. case r of None \<Rightarrow> False | Some r \<Rightarrow> ct_pending (fs_counts r) \<noteq> ct_ordinary (fs_counts r) + ct_inherited (fs_counts r) + ct_manual (fs_counts r)) found in
      expected = states \<and> mismatched + missing + orphan_states ph scan d = 0)"

definition validate_rebuilt :: "(int \<Rightarrow> string) \<Rightarrow> physical \<Rightarrow> int \<Rightarrow> int \<Rightarrow> int \<Rightarrow> int list option \<Rightarrow> bool \<Rightarrow> bool \<Rightarrow> state_db \<Rightarrow> string" where
  "validate_rebuilt cov ph project scan version affected aggregates_given require_exact d =
     (if (case state_get project d of None \<Rightarrow> 0 | Some s \<Rightarrow> ps_data_version s) \<noteq> version then ''DATA_VERSION_CHANGED''
      else let sel = normalized_file_ids affected; incremental = (sel \<noteq> None \<and> aggregates_given); scope = (if incremental then sel else None) in
        if \<not> file_state_completeness ph scan version scope (incremental \<or> \<not> require_exact) d then ''FILE_STATE_INCOMPLETE''
        else if \<not> pending_conservation ph scan scope d then ''PENDING_CONSERVATION_FAILED''
        else if scan_aggregate scan scope d \<noteq> scan_summary_from_facts cov ph scan scope d then ''FILE_STATE_RECONCILIATION_FAILED'' else ''READY'')"

definition rebuild_validate_and_mark_ready_in_transaction ::
  "(int \<Rightarrow> string) \<Rightarrow> physical \<Rightarrow> string \<Rightarrow> int \<Rightarrow> int \<Rightarrow> int \<Rightarrow> int list option \<Rightarrow> bool option \<Rightarrow> (state_db, project_state) operation" where
  "rebuild_validate_and_mark_ready_in_transaction cov ph now project scan version affected previous_ready d =
     (let sel = normalized_file_ids affected; complete = file_state_completeness ph scan (max 0 (version - 1)) None False d;
          ready = (case previous_ready of None \<Rightarrow> version > 0 \<and> complete | Some b \<Rightarrow> b \<and> complete); incremental = (sel \<noteq> None \<and> ready);
          d1 = state_invalidate now project d; d2 = rebuild_scan cov ph now scan version (if incremental then sel else None) d1;
          reason = validate_rebuilt cov ph project scan version (if incremental then sel else None) incremental True d2 in
      if reason \<noteq> ''READY'' then refuse ''FILE_STATE_READY_GATE_FAILED'' d2
      else let d3 = state_mark_ready now project version d2 in
        (case state_get project d3 of
           None \<Rightarrow> refuse ''FILE_STATE_READY_GATE_FAILED'' d3
         | Some s \<Rightarrow> if ps_data_version s \<noteq> version \<or> ps_file_state_version s \<noteq> version then refuse ''FILE_STATE_READY_GATE_FAILED'' d3 else (Inr s, d3)))"

text \<open>The transaction of its own, which leaves the projection marked stale when it fails.\<close>

definition rebuild_validate_and_mark_ready ::
  "state_db driver \<Rightarrow> (int \<Rightarrow> string) \<Rightarrow> physical \<Rightarrow> string \<Rightarrow> int \<Rightarrow> int \<Rightarrow> int \<Rightarrow> state_db connection \<Rightarrow> (db_error + project_state) \<times> state_db connection" where
  "rebuild_validate_and_mark_ready drv cov ph now project scan version c =
     (case transaction drv (rebuild_validate_and_mark_ready_in_transaction cov ph now project scan version None None) c of
        (Inr s, c') \<Rightarrow> (Inr s, c')
      | (Inl e, c') \<Rightarrow> (Inl e, snd (transaction drv (\<lambda>d. (Inr (), state_invalidate now project d)) c')))"

definition state_file_ids_for_lines :: "physical \<Rightarrow> int \<Rightarrow> int list \<Rightarrow> int list" where
  "state_file_ids_for_lines ph scan ids =
     sort (remdups (map fl_id (filter (\<lambda>f. fl_scan f = scan \<and> list_ex (\<lambda>l. pl_file l = fl_id f \<and> pl_id l > 0 \<and> pl_id l \<in> set ids) (ph_lines ph)) (ph_files ph))))"

text \<open>The service that saving, confirming, rejecting and undoing call.\<close>

definition FileStateService :: "(int \<Rightarrow> string) \<Rightarrow> physical \<Rightarrow> string \<Rightarrow> file_state list domain file_service" where
  "FileStateService cov ph now = \<lparr>file_ids_for_lines = (\<lambda>d scan ids. state_file_ids_for_lines ph scan ids),
     rebuild_and_mark_ready = (\<lambda>d project scan version ids ready.
       case rebuild_validate_and_mark_ready_in_transaction cov ph now project scan version (Some ids) (Some ready) d of (Inl e, t) \<Rightarrow> (Inl e, t) | (Inr s, t) \<Rightarrow> (Inr (), t))\<rparr>"

section \<open>Facts and rows\<close>

text \<open>The numbers of files and lines are keys, and positive.\<close>

definition facts_ok :: "physical \<Rightarrow> bool" where
  "facts_ok ph \<longleftrightarrow> distinct (map fl_id (ph_files ph)) \<and> distinct (map pl_id (ph_lines ph)) \<and> (\<forall>f \<in> set (ph_files ph). fl_id f > 0) \<and> (\<forall>l \<in> set (ph_lines ph). pl_id l > 0)"

text \<open>What the views of lines depend on.\<close>

definition same_facts :: "'y review_db \<Rightarrow> 'y review_db \<Rightarrow> bool" where
  "same_facts d t \<longleftrightarrow> same_tables d t \<and> legacy (derived t) = legacy (derived d)"

lemma view_line_cong:
  assumes "active_link z (pl_id l) t = active_link z (pl_id l) d" "\<And>q. active_link z (pl_id l) d = Some q \<Longrightarrow> get_record (ll_record q) t = get_record (ll_record q) d"
    and "legacy_line (pl_id l) t = legacy_line (pl_id l) d"
  shows "view_line cov z t l = view_line cov z d l"
proof -
  have "view_status z (pl_id l) t = view_status z (pl_id l) d" unfolding view_status_def assms(1,3) using assms(2) by (auto split: option.split)
  moreover have "view_draft z (pl_id l) t = view_draft z (pl_id l) d" unfolding view_draft_def assms(1,3) ..
  ultimately show ?thesis by (simp add: view_line_def assms(1))
qed

lemma same_facts_views: "same_facts d t \<Longrightarrow> file_views cov ph t f = file_views cov ph d f"
  unfolding file_views_def by (intro map_cong refl view_line_cong) (simp_all add: same_facts_def same_tables_def active_link_def legacy_line_def get_record_def)

lemma same_facts_trans: "same_facts d t \<Longrightarrow> same_facts t u \<Longrightarrow> same_facts d u"
  by (simp add: same_facts_def same_tables_def)

lemma same_facts_steps [simp]:
  "same_facts d (on_states f d)" "same_facts d (state_lock now p d)" "same_facts d (state_advance now p d)" "same_facts d (state_invalidate now p d)" "same_facts d (state_mark_ready now p v d)"
  by (simp_all add: same_facts_def same_tables_def on_states_def on_domain_def state_advance_def state_invalidate_def state_mark_ready_def state_lock_def state_ensure_def update_states_def split: option.split)

lemma state_rows_steps [simp]:
  "state_rows (on_states f d) = f (state_rows d)" "state_rows (state_lock now p d) = state_rows d" "state_rows (state_advance now p d) = state_rows d"
  "state_rows (state_invalidate now p d) = state_rows d" "state_rows (state_mark_ready now p v d) = state_rows d"
  by (simp_all add: on_states_def on_domain_def state_advance_def state_invalidate_def state_mark_ready_def state_lock_def state_ensure_def update_states_def split: option.split)

lemma get_state_key: "get_state scan i d = List.find (\<lambda>r. state_key r = (scan, i)) (state_rows d)"
  by (simp add: get_state_def)

lemma upsert_get: "List.find (\<lambda>x. key x = k) (upsert key r rows) = (if key r = k then Some r else List.find (\<lambda>x. key x = k) rows)"
proof -
  have "List.find (\<lambda>x. key x = k) (map (\<lambda>x. if key x = key r then r else x) rows) = List.find (\<lambda>x. key x = k) rows" if "key r \<noteq> k"
    using that by (induction rows) auto
  moreover have "List.find (\<lambda>x. key x = k) (map (\<lambda>x. if key x = key r then r else x) rows) = Some r" if "key r = k" "list_ex (\<lambda>x. key x = key r) rows"
    using that by (induction rows) auto
  moreover have "List.find (\<lambda>x. key x = k) (rows @ [r]) = (if key r = k then Some r else List.find (\<lambda>x. key x = k) rows)" if "\<not> list_ex (\<lambda>x. key x = key r) rows"
    using that by (induction rows) auto
  ultimately show ?thesis by (simp add: upsert_def)
qed

lemma upsert_distinct: "distinct (map key rows) \<Longrightarrow> distinct (map key (upsert key r rows))"
proof -
  have "map key (map (\<lambda>x. if key x = key r then r else x) rows) = map key rows" by simp
  then show "distinct (map key rows) \<Longrightarrow> distinct (map key (upsert key r rows))" unfolding upsert_def by (auto simp: list_ex_iff simp del: map_map)
qed

lemma fold_upsert_get: "distinct (map key rs) \<Longrightarrow>
  List.find (\<lambda>x. key x = k) (fold (upsert key) rs rows) = (case List.find (\<lambda>x. key x = k) rs of None \<Rightarrow> List.find (\<lambda>x. key x = k) rows | Some r \<Rightarrow> Some r)"
proof (induction rs arbitrary: rows)
  case (Cons r rs)
  have n: "List.find (\<lambda>x. key x = k) rs = None" if "key r = k" using Cons.prems that unfolding find_None_iff by simp (metis imageI)
  show ?case using Cons.IH [of "upsert key r rows"] Cons.prems n by (simp add: upsert_get split: option.split)
qed simp

lemma fold_upsert_other: "k \<notin> key ` set rs \<Longrightarrow> List.find (\<lambda>x. key x = k) (fold (upsert key) rs rows) = List.find (\<lambda>x. key x = k) rows"
  by (induction rs arbitrary: rows) (auto simp: upsert_get)

lemma fold_upsert_distinct: "distinct (map key rows) \<Longrightarrow> distinct (map key (fold (upsert key) rs rows))"
  by (induction rs arbitrary: rows) (auto intro: upsert_distinct)

lemma scan_files_keys: "facts_ok ph \<Longrightarrow> distinct (map fl_id (scan_files ph scan sel))"
  by (simp add: facts_ok_def scan_files_def distinct_map_filter)

lemma file_by_id: "facts_ok ph \<Longrightarrow> f \<in> set (ph_files ph) \<Longrightarrow> g \<in> set (ph_files ph) \<Longrightarrow> fl_id f = fl_id g \<Longrightarrow> f = g"
  by (auto simp: facts_ok_def distinct_map inj_on_def)

text \<open>Which row a lookup gives after a rebuild.\<close>

lemma rebuild_scan_facts [simp]: "same_facts d (rebuild_scan cov ph now scan v ids d)"
proof -
  have "same_facts d d" by (simp add: same_facts_def same_tables_def)
  then show ?thesis by (simp add: rebuild_scan_def Let_def same_facts_trans [OF same_facts_steps(1) same_facts_steps(1)])
qed

lemma grouped_rows_keys: "facts_ok ph \<Longrightarrow> distinct (map state_key (map (grouped_row cov ph now v d) (scan_files ph scan sel)))"
  using scan_files_keys [of ph scan sel] by (auto simp: grouped_row_def distinct_map inj_on_def)

lemma scan_files_mem: "f \<in> set (scan_files ph scan sel) \<longleftrightarrow> f \<in> set (ph_files ph) \<and> fl_scan f = scan \<and> (case sel of None \<Rightarrow> True | Some ids \<Rightarrow> fl_id f \<in> set ids)"
  by (auto simp: scan_files_def)

lemma normalized_None [simp]: "normalized_file_ids None = None"
  by (simp add: normalized_file_ids_def)

lemma normalized_idem [simp]: "normalized_file_ids (normalized_file_ids ids) = normalized_file_ids ids"
  by (cases ids) (simp_all add: normalized_file_ids_def filter_sort [symmetric] sort_key_id_if_sorted)

lemma normalized_mem: "facts_ok ph \<Longrightarrow> f \<in> set (ph_files ph) \<Longrightarrow> normalized_file_ids (Some ids) = Some is \<Longrightarrow> fl_id f \<in> set is \<longleftrightarrow> fl_id f \<in> set ids"
  by (auto simp: normalized_file_ids_def facts_ok_def)

lemma find_filter_kept: "(\<And>x. key x = k \<Longrightarrow> P x) \<Longrightarrow> List.find (\<lambda>x. key x = k) (filter P xs) = List.find (\<lambda>x. key x = k) xs"
  by (induction xs) auto

lemma rebuild_scan_get:
  assumes ok: "facts_ok ph" and f: "f \<in> set (ph_files ph)"
  shows "get_state (fl_scan f) (fl_id f) (rebuild_scan cov ph now scan v ids d) =
    (if f \<in> set (scan_files ph scan (normalized_file_ids ids)) then Some (grouped_row cov ph now v d f) else get_state (fl_scan f) (fl_id f) d)"
proof -
  let ?sel = "normalized_file_ids ids"
  let ?rs = "map (grouped_row cov ph now v d) (scan_files ph scan ?sel)"
  let ?k = "(fl_scan f, fl_id f)"
  have found: "List.find (\<lambda>x. state_key x = ?k) ?rs = (if f \<in> set (scan_files ph scan ?sel) then Some (grouped_row cov ph now v d f) else None)"
  proof (cases "f \<in> set (scan_files ph scan ?sel)")
    case True
    then have "List.find (\<lambda>x. state_key x = state_key (grouped_row cov ph now v d f)) ?rs = Some (grouped_row cov ph now v d f)"
      by (intro find_unique grouped_rows_keys [OF ok]) simp
    with True show ?thesis by (simp add: grouped_row_def)
  next
    case False
    have "state_key (grouped_row cov ph now v d g) \<noteq> ?k" if "g \<in> set (scan_files ph scan ?sel)" for g
      using that False file_by_id [OF ok _ f, of g] by (auto simp: grouped_row_def scan_files_mem)
    then show ?thesis using False by (auto simp: find_None_iff)
  qed
  have "List.find (\<lambda>x. state_key x = ?k) (fold put_state ?rs (state_rows d)) =
      (if f \<in> set (scan_files ph scan ?sel) then Some (grouped_row cov ph now v d f) else get_state (fl_scan f) (fl_id f) d)"
    unfolding put_state_def fold_upsert_get [OF grouped_rows_keys [OF ok]] found get_state_key by simp
  moreover have "List.find (\<lambda>x. state_key x = ?k) (filter (\<lambda>r. \<not> (fs_scan r = scan \<and> \<not> list_ex (\<lambda>f. fl_id f = fs_file r \<and> fl_scan f = scan) (ph_files ph))) rows) =
      List.find (\<lambda>x. state_key x = ?k) rows" for rows
    by (rule find_filter_kept) (use f in \<open>auto simp: list_ex_iff\<close>)
  moreover have "scan_files ph scan (Some []) = []" by (simp add: scan_files_def)
  ultimately show ?thesis unfolding get_state_key rebuild_scan_def Let_def
    by (cases "?sel = Some []"; cases "?sel = None") (simp_all only: if_True if_False state_rows_steps list.set empty_iff option.distinct, simp_all add: get_state_key)
qed

section \<open>Project states\<close>

lemma state_get_other:
  assumes "q \<noteq> p"
  shows "state_get q (state_lock now p d) = state_get q d" "state_get q (state_advance now p d) = state_get q d" "state_get q (state_invalidate now p d) = state_get q d"
    "state_get q (state_mark_ready now p v d) = state_get q d"
proof -
  show l: "state_get q (state_lock now p d) = state_get q d" using assms by (auto simp: state_lock_def state_ensure_def state_get_def find_append split: option.split)
  have u: "state_get q (update_states (\<lambda>s. ps_project s = p \<and> P s) f e) = state_get q e" if "\<And>s. ps_project (f s) = ps_project s" for P f and e :: "'a database"
    unfolding update_states_def state_get_def using assms that by (simp add: find_map_update) (cases "List.find (\<lambda>s. ps_project s = q) (project_states e)"; auto dest!: find_SomeD)
  have u1: "state_get q (update_states (\<lambda>s. ps_project s = p) f e) = state_get q e" if "\<And>s. ps_project (f s) = ps_project s" for f and e :: "'a database"
    using u [of f "\<lambda>s. True" e] that by simp
  show "state_get q (state_advance now p d) = state_get q d" "state_get q (state_invalidate now p d) = state_get q d" "state_get q (state_mark_ready now p v d) = state_get q d"
    unfolding state_advance_def state_invalidate_def state_mark_ready_def by (simp_all add: u u1 l)
qed

lemma current_kept:
  "map_option ps_current_scan (state_get p (state_invalidate now p d)) = map_option ps_current_scan (state_get p (state_lock now p d))"
  "map_option ps_current_scan (state_get p (state_mark_ready now p v d)) = map_option ps_current_scan (state_get p (state_lock now p d))"
proof -
  obtain s where s: "state_get p (state_lock now p d) = Some s" using state_get_lock by (metis not_None_eq)
  then have "ps_project s = p" unfolding state_get_def by (auto dest: find_SomeD)
  with s show "map_option ps_current_scan (state_get p (state_invalidate now p d)) = map_option ps_current_scan (state_get p (state_lock now p d))"
    "map_option ps_current_scan (state_get p (state_mark_ready now p v d)) = map_option ps_current_scan (state_get p (state_lock now p d))"
    by (simp_all add: state_invalidate_def state_mark_ready_def update_states_def state_get_def find_map_update)
qed

lemma project_states_rebuild [simp]: "project_states (rebuild_scan cov ph now scan v ids d) = project_states d" "project_states (on_states f d) = project_states d"
  by (simp_all add: rebuild_scan_def Let_def on_states_def on_domain_def)

lemma state_get_rebuild [simp]: "state_get p (rebuild_scan cov ph now scan v ids d) = state_get p d"
  by (simp add: state_get_def)

section \<open>The projection of a ready project\<close>

definition exact_file :: "(int \<Rightarrow> string) \<Rightarrow> physical \<Rightarrow> state_db \<Rightarrow> file_row \<Rightarrow> bool" where
  "exact_file cov ph d f \<longleftrightarrow> map_option fs_counts (get_state (fl_scan f) (fl_id f) d) = Some (grouped_counts cov ph d f)"

text \<open>The file states of the current scan of every project that is marked ready are those of the facts.\<close>

definition ready_exact :: "(int \<Rightarrow> string) \<Rightarrow> physical \<Rightarrow> state_db \<Rightarrow> bool" where
  "ready_exact cov ph d \<longleftrightarrow> (\<forall>p s. state_get p d = Some s \<longrightarrow> projection_ready s \<longrightarrow> (\<forall>f \<in> set (ph_files ph). ps_current_scan s = Some (fl_scan f) \<longrightarrow> exact_file cov ph d f))"

lemma rebuild_run:
  assumes "rebuild_validate_and_mark_ready_in_transaction cov ph now p scan v affected ready d = (Inr s, t)"
  shows "t = state_mark_ready now p v (rebuild_scan cov ph now scan v
      (if normalized_file_ids affected \<noteq> None \<and> (case ready of None \<Rightarrow> v > 0 \<and> file_state_completeness ph scan (max 0 (v - 1)) None False d
         | Some b \<Rightarrow> b \<and> file_state_completeness ph scan (max 0 (v - 1)) None False d) then normalized_file_ids affected else None) (state_invalidate now p d))" "state_get p t = Some s"
  using assms unfolding rebuild_validate_and_mark_ready_in_transaction_def Let_def by (simp_all only: split: if_splits option.splits) auto

lemma service_run:
  assumes "rebuild_validate_and_mark_ready_in_transaction cov ph now p scan v affected ready d = (Inr s, t)" and ok: "facts_ok ph"
  shows "same_facts d t" "state_get p t = Some s" "\<And>q. q \<noteq> p \<Longrightarrow> state_get q t = state_get q d"
    "map_option ps_current_scan (state_get p t) = map_option ps_current_scan (state_get p (state_lock now p d))"
    "\<And>f. f \<in> set (ph_files ph) \<Longrightarrow> fl_scan f = scan \<Longrightarrow> affected = None \<or> fl_id f \<in> set (the affected) \<or> ready = Some False \<or> exact_file cov ph d f \<Longrightarrow> exact_file cov ph t f"
    "\<And>f. f \<in> set (ph_files ph) \<Longrightarrow> fl_scan f \<noteq> scan \<Longrightarrow> exact_file cov ph t f = exact_file cov ph d f"
proof -
  obtain sel where sel: "sel = None \<or> ready \<noteq> Some False \<and> sel = normalized_file_ids affected"
    and t: "t = state_mark_ready now p v (rebuild_scan cov ph now scan v sel (state_invalidate now p d))" and s: "state_get p t = Some s"
  proof -
    let ?old = "file_state_completeness ph scan (max 0 (v - 1)) None False d"
    let ?inc = "normalized_file_ids affected \<noteq> None \<and> (case ready of None \<Rightarrow> v > 0 \<and> ?old | Some b \<Rightarrow> b \<and> ?old)"
    let ?sel = "if ?inc then normalized_file_ids affected else None"
    note rebuild_run [OF assms(1)]
    moreover have "?sel = None \<or> ready \<noteq> Some False \<and> ?sel = normalized_file_ids affected" by auto
    ultimately show ?thesis using that [of ?sel] by blast
  qed
  let ?d1 = "state_invalidate now p d"
  let ?d2 = "rebuild_scan cov ph now scan v sel ?d1"
  have f1: "same_facts d ?d1" "same_facts ?d1 ?d2" "same_facts ?d2 t" by (simp_all add: t)
  show sf: "same_facts d t" using f1 same_facts_trans by blast
  show "state_get p t = Some s" by (rule s)
  show "state_get q t = state_get q d" if "q \<noteq> p" for q using that by (simp add: t state_get_other)
  show "map_option ps_current_scan (state_get p t) = map_option ps_current_scan (state_get p (state_lock now p d))"
  proof -
    have "state_get p ?d2 \<noteq> None" using current_kept(1) [of p now d] state_get_lock [of p now d] by auto
    then have "state_get p (state_lock now p ?d2) = state_get p ?d2" using state_get_lock_id by fastforce
    then show ?thesis unfolding t current_kept(2) by (simp add: current_kept(1))
  qed
  have grp: "grouped_counts cov ph t f = grouped_counts cov ph d f" "grouped_counts cov ph ?d1 f = grouped_counts cov ph d f" for f
    using same_facts_views [OF sf] same_facts_views [OF f1(1)] by (simp_all add: grouped_counts_def)
  have get: "get_state z i t = get_state z i ?d2" "get_state z i ?d1 = get_state z i d" for z i by (simp_all add: t get_state_def)
  have ex: "exact_file cov ph t f = (f \<in> set (scan_files ph scan (normalized_file_ids sel)) \<or> exact_file cov ph d f)" if "f \<in> set (ph_files ph)" for f
    using rebuild_scan_get [OF ok that, of cov now scan v sel ?d1] by (simp add: exact_file_def get grp grouped_row_def)
  show "exact_file cov ph t f" if f: "f \<in> set (ph_files ph)" "fl_scan f = scan" "affected = None \<or> fl_id f \<in> set (the affected) \<or> ready = Some False \<or> exact_file cov ph d f" for f
  proof (cases "sel = None")
    case True
    then show ?thesis unfolding ex [OF f(1)] using f by (simp add: scan_files_mem normalized_file_ids_def)
  next
    case False
    then obtain ids "is" where "affected = Some ids" "sel = Some is" "normalized_file_ids (Some ids) = Some is" "ready \<noteq> Some False" using sel by (cases affected) (auto simp: normalized_file_ids_def)
    then show ?thesis unfolding ex [OF f(1)] using f normalized_mem [OF ok f(1), of ids "is"] normalized_idem [of "Some ids"] by (auto simp: scan_files_mem)
  qed
  show "exact_file cov ph t f = exact_file cov ph d f" if "f \<in> set (ph_files ph)" "fl_scan f \<noteq> scan" for f
    unfolding ex [OF that(1)] using that by (simp add: scan_files_mem)
qed

section \<open>Reviews keep the projection exact\<close>

lemma service_frame_holds: "facts_ok ph \<Longrightarrow> service_frame (FileStateService cov ph now)"
  unfolding service_frame_def
proof (intro allI impI)
  fix d project scan v ids ready u t
  assume ok: "facts_ok ph" and r: "rebuild_and_mark_ready (FileStateService cov ph now) d project scan v ids ready = (Inr u, t)"
  then obtain s where "rebuild_validate_and_mark_ready_in_transaction cov ph now project scan v (Some ids) (Some ready) d = (Inr s, t)"
    by (auto simp: FileStateService_def split: prod.splits sum.splits)
  from service_run(1) [OF this ok] show "same_tables d t" by (simp add: same_facts_def)
qed

text \<open>What a review has done before its rebuild: the views of the files it does not name are as before.\<close>

lemma rebuild_keeps_exact:
  assumes ok: "facts_ok ph" and d: "ready_exact cov ph d"
    and s: "state_get p (state_lock now p d) = Some s" "or_zero (ps_current_scan s) = scan"
    and e: "project_states e = project_states (state_lock now p d)" "state_rows e = state_rows d"
    and v: "\<And>f. f \<in> set (ph_files ph) \<Longrightarrow> fl_id f \<notin> set ids \<Longrightarrow> file_views cov ph e f = file_views cov ph d f"
    and i: "\<And>f. f \<in> set (ph_files ph) \<Longrightarrow> fl_id f \<in> set ids \<Longrightarrow> fl_scan f = scan"
    and r: "rebuild_step (FileStateService cov ph now0) now p scan ids (projection_ready s) e = (Inr u, t)"
  shows "ready_exact cov ph t"
proof -
  let ?a = "state_advance now p e"
  obtain s' w where r': "rebuild_validate_and_mark_ready_in_transaction cov ph now0 p scan w (Some ids) (Some (projection_ready s)) ?a = (Inr s', t)"
    using r by (auto simp: rebuild_step_def FileStateService_def Let_def split: prod.splits sum.splits)
  note run = service_run [OF r' ok]
  have ge: "state_get q e = state_get q (state_lock now p d)" for q by (simp add: state_get_def e(1))
  have same: "exact_file cov ph ?a f = exact_file cov ph d f" if "f \<in> set (ph_files ph)" "fl_id f \<notin> set ids" for f
    using v [OF that] same_facts_views [OF same_facts_steps(3) [of e now p], of cov ph f] by (simp add: exact_file_def grouped_counts_def get_state_def e(2))
  have cur: "ps_current_scan s' = ps_current_scan s"
  proof -
    have "state_get p e = Some s" using ge s(1) by simp
    then have le: "state_get p (state_lock now p e) = Some s" using state_get_lock_id by blast
    have "map_option ps_current_scan (state_get p ?a) = Some (ps_current_scan s)" using current_scan_advance [of p now e] le by simp
    then obtain s2 where "state_get p ?a = Some s2" "ps_current_scan s2 = ps_current_scan s" by auto
    then have "state_get p (state_lock now0 p ?a) = Some s2" using state_get_lock_id by blast
    then show ?thesis using run(2,4) \<open>ps_current_scan s2 = ps_current_scan s\<close> by simp
  qed
  show ?thesis unfolding ready_exact_def
  proof (intro allI impI ballI)
    fix q z f
    assume z: "state_get q t = Some z" "projection_ready z" and f: "f \<in> set (ph_files ph)" "ps_current_scan z = Some (fl_scan f)"
    have other: "exact_file cov ph d f" if "q \<noteq> p"
    proof -
      have "state_get q d = Some z" using run(3) [OF that] that z(1) by (simp add: state_get_other ge)
      then show ?thesis using d z(2) f unfolding ready_exact_def by blast
    qed
    have mine: "ps_current_scan s = Some (fl_scan f)" if "q = p" using z(1) run(2) that cur f(2) by simp
    show "exact_file cov ph t f"
    proof (cases "fl_scan f = scan")
      case True
      have "exact_file cov ph ?a f" if n: "projection_ready s" "fl_id f \<notin> set ids"
      proof (cases "q = p")
        case True
        have "state_get p d = Some s" using s(1) mine [OF True] by (auto simp: state_lock_def state_ensure_def state_get_def find_append split: option.splits if_splits)
        then show ?thesis using d same [OF f(1) n(2)] n(1) mine [OF True] f(1) by (auto simp: ready_exact_def)
      qed (use other same [OF f(1) n(2)] in simp)
      then show ?thesis using run(5) [OF f(1) True] by auto
    next
      case False
      then have "fl_id f \<notin> set ids" using i [OF f(1)] by blast
      moreover have "q \<noteq> p" using mine s(2) False by (auto simp: or_zero_def)
      ultimately show ?thesis using other run(6) [OF f(1) False] same [OF f(1)] by simp
    qed
  qed
qed

lemma find_map_same: "\<forall>x \<in> set xs. P (g x) = P x \<and> (P x \<longrightarrow> g x = x) \<Longrightarrow> List.find P (map g xs) = List.find P xs"
  by (induction xs) auto

lemma change_link_active:
  assumes "keeps_identity f" "distinct (map ll_id (line_links d))" "l \<in> set (line_links d)" "link_key l \<noteq> (z, n)" "line_links t = change_link l f (line_links d)"
  shows "active_link z n t = active_link z n d"
proof -
  have "(ll_scan (f r) = z \<and> ll_line (f r) = n \<and> ll_active (f r)) = (ll_scan r = z \<and> ll_line r = n \<and> ll_active r) \<and> \<not> (ll_scan r = z \<and> ll_line r = n \<and> ll_active r)"
    if r: "r \<in> set (line_links d)" "ll_id r = ll_id l" for r
  proof -
    have "r = l" using r assms(2,3) by (auto simp: distinct_map inj_on_def)
    then show ?thesis using assms(1,4) by (auto simp: keeps_identity_def)
  qed
  then show ?thesis unfolding active_link_def assms(5) change_link_def by (intro find_map_same) auto
qed

text \<open>Relations of some lines of a scan have changed, and nothing else that views depend on.\<close>

definition links_changed :: "int \<Rightarrow> int list \<Rightarrow> state_db \<Rightarrow> state_db \<Rightarrow> bool" where
  "links_changed scan ids d e \<longleftrightarrow> (\<forall>z n. (z = scan \<longrightarrow> n \<notin> set ids) \<longrightarrow> active_link z n e = active_link z n d) \<and> records (derived e) = records (derived d) \<and>
     legacy (derived e) = legacy (derived d) \<and> state_rows e = state_rows d \<and> project_states e = project_states d"

lemma links_changed_views:
  assumes ok: "facts_ok ph" and c: "links_changed scan ids d e" and f: "f \<in> set (ph_files ph)" "fl_id f \<notin> set (state_file_ids_for_lines ph scan ids)"
  shows "file_views cov ph e f = file_views cov ph d f"
  unfolding file_views_def
proof (intro map_cong refl view_line_cong)
  fix l assume "l \<in> set (filter (\<lambda>l. pl_file l = fl_id f) (ph_lines ph))"
  then have "fl_scan f = scan \<longrightarrow> pl_id l \<notin> set ids" using f ok by (auto simp: state_file_ids_for_lines_def list_ex_iff facts_ok_def)
  then show "active_link (fl_scan f) (pl_id l) e = active_link (fl_scan f) (pl_id l) d" using c by (simp add: links_changed_def)
  show "get_record i e = get_record i d" "legacy_line n e = legacy_line n d" for i n using c by (simp_all add: links_changed_def get_record_def legacy_line_def)
qed

lemma link_review_exact:
  assumes ok: "facts_ok ph" and d: "ready_exact cov ph d" and cur: "assert_current now p scan d = (Inr s, state_lock now p d)"
    and c: "links_changed scan ids (state_lock now p d) e"
    and r: "rebuild_step (FileStateService cov ph now0) now p scan (state_file_ids_for_lines ph scan ids) (projection_ready s) e = (Inr u, t)"
  shows "ready_exact cov ph t"
proof (rule rebuild_keeps_exact [OF ok d _ _ _ _ _ _ r])
  show "state_get p (state_lock now p d) = Some s" "or_zero (ps_current_scan s) = scan" using cur by (simp_all add: assert_current_ok or_zero_def)
  show "project_states e = project_states (state_lock now p d)" "state_rows e = state_rows d" using c by (simp_all add: links_changed_def)
  show "file_views cov ph e f = file_views cov ph d f" if "f \<in> set (ph_files ph)" "fl_id f \<notin> set (state_file_ids_for_lines ph scan ids)" for f
    using links_changed_views [OF ok c that] same_facts_views [OF same_facts_steps(2) [of d now p]] by simp
  show "fl_scan f = scan" if f: "f \<in> set (ph_files ph)" "fl_id f \<in> set (state_file_ids_for_lines ph scan ids)" for f
  proof -
    obtain g where "g \<in> set (ph_files ph)" "fl_id g = fl_id f" "fl_scan g = scan" using f(2) by (auto simp: state_file_ids_for_lines_def)
    then show ?thesis using file_by_id [OF ok _ f(1)] by blast
  qed
qed

lemma service_ids: "file_ids_for_lines (FileStateService cov ph now) d scan ids = state_file_ids_for_lines ph scan ids"
  by (simp add: FileStateService_def)

lemma reject_exact:
  assumes ok: "facts_ok ph" and h: "healthy ph d" and d: "ready_exact cov ph d"
    and r: "reject_body (FileStateService cov ph now0) now p scan line u expected d = (Inr x, t)"
  shows "ready_exact cov ph t"
proof -
  have k: "keys_ok d" using h by (simp add: healthy_def domain_keys_def)
  obtain s l v where run: "assert_current now p scan d = (Inr s, state_lock now p d)" "rejectable scan line expected d l"
    "rebuild_step (FileStateService cov ph now0) now p scan (state_file_ids_for_lines ph scan [line]) (projection_ready s) (rejected now scan line u l (state_lock now p d)) = (Inr v, t)"
    using reject_body_run [OF r k] unfolding service_ids by blast
  have lm: "l \<in> set (line_links d)" "link_key l = (scan, line)" using run(2) unfolding rejectable_def by (auto dest!: find_SomeD)
  have f: "keeps_identity (deactivated now)" by (simp add: keeps_identity_def deactivated_def)
  have "links_changed scan [line] (state_lock now p d) (rejected now scan line u l (state_lock now p d))"
    unfolding links_changed_def
  proof (intro conjI allI impI)
    show "active_link z n (rejected now scan line u l (state_lock now p d)) = active_link z n (state_lock now p d)" if "z = scan \<longrightarrow> n \<notin> set [line]" for z n
      by (rule change_link_active [OF f, of _ l]) (use that lm k in \<open>auto simp: rejected_def keys_ok_def\<close>)
  qed (simp_all add: rejected_def)
  then show ?thesis by (rule link_review_exact [OF ok d run(1) _ run(3)])
qed

lemma undo_exact:
  assumes ok: "facts_ok ph" and h: "healthy ph d" and d: "ready_exact cov ph d"
    and r: "undo_body (FileStateService cov ph now0) now p scan line i er el d = (Inr x, t)"
  shows "ready_exact cov ph t"
proof -
  obtain s y l v where run: "assert_current now p scan d = (Inr s, state_lock now p d)" "y \<in> set (rejections d)" "rj_active y" "rj_id y = i" "rj_revision y = er" "rejection_key y = (scan, line)"
    "relation_by_id (rj_relation y) d = Some l" "\<not> ll_active l" "link_key l = rejection_key y"
    "rebuild_step (FileStateService cov ph now0) now p scan (file_ids_for_lines (FileStateService cov ph now0) (state_lock now p d) scan [line]) (projection_ready s)
      (restored now i er l (state_lock now p d)) = (Inr v, t)"
    by (rule undo_body_run [OF r h])
  have lm: "l \<in> set (line_links d)" "link_key l = (scan, line)" using run(6,7,9) by (auto simp: relation_by_id_def dest: find_SomeD)
  have f: "keeps_identity (reactivated now)" by (simp add: keeps_identity_def reactivated_def)
  have k: "distinct (map ll_id (line_links d))" using h by (simp add: healthy_def domain_keys_def keys_ok_def)
  have "links_changed scan [line] (state_lock now p d) (restored now i er l (state_lock now p d))"
    unfolding links_changed_def
  proof (intro conjI allI impI)
    show "active_link z n (restored now i er l (state_lock now p d)) = active_link z n (state_lock now p d)" if "z = scan \<longrightarrow> n \<notin> set [line]" for z n
      by (rule change_link_active [OF f, of _ l]) (use that lm k in \<open>auto simp: restored_def\<close>)
  qed (simp_all add: restored_def)
  then show ?thesis by (rule link_review_exact [OF ok d run(1) _ run(10) [unfolded service_ids]])
qed

lemma confirm_lines_changed:
  "distinct (map ll_id (line_links d)) \<Longrightarrow> confirm_lines now scan reviewer m dflt ids d = (Inr rs, t) \<Longrightarrow> links_changed scan ids d t"
proof (induction ids arbitrary: d rs)
  case (Cons i ids)
  from Cons.prems(2) obtain r t1 rs' where c: "confirm_line now scan reviewer m dflt i d = (Inr r, t1)" "confirm_lines now scan reviewer m dflt ids t1 = (Inr rs', t)"
    by (auto simp: op_bind_Inr)
  obtain l where l: "l \<in> set (line_links d)" "link_key l = (scan, i)" and t1: "t1 = d\<lparr>line_links := change_link l (confirmed now reviewer) (line_links d)\<rparr>"
    using confirm_line_inv [OF c(1) Cons.prems(1)] by blast
  have f: "keeps_identity (confirmed now reviewer)" by (simp add: keeps_identity_def confirmed_def)
  have "distinct (map ll_id (line_links t1))" using Cons.prems(1) f by (simp add: t1 change_link_def keeps_identity_def comp_def if_distrib cong: if_cong)
  then have ih: "links_changed scan ids t1 t" using c(2) by (rule Cons.IH)
  have "active_link z n t1 = active_link z n d" if "z = scan \<longrightarrow> n \<noteq> i" for z n
    by (rule change_link_active [OF f Cons.prems(1) l(1)]) (use that l(2) in \<open>auto simp: t1\<close>)
  then show ?case using ih by (auto simp: links_changed_def t1)
qed (simp add: links_changed_def)

lemma confirm_exact:
  assumes ok: "facts_ok ph" and h: "healthy ph d" and d: "ready_exact cov ph d"
    and c: "confirm_body (FileStateService cov ph now0) now p scan ids m dflt reviewer d = (Inr rs, t)"
  shows "ready_exact cov ph t"
proof -
  obtain s d2 u where run: "assert_current now p scan d = (Inr s, state_lock now p d)" "confirm_lines now scan reviewer m dflt ids (state_lock now p d) = (Inr rs, d2)"
    "rebuild_step (FileStateService cov ph now0) now p scan (state_file_ids_for_lines ph scan ids) (projection_ready s) d2 = (Inr u, t)"
    using c by (auto simp: confirm_body_def op_bind_Inr assert_current_ok Let_def FileStateService_def)
  have k: "distinct (map ll_id (line_links (state_lock now p d)))" using h by (simp add: healthy_def domain_keys_def keys_ok_def)
  show ?thesis by (rule link_review_exact [OF ok d run(1) confirm_lines_changed [OF k run(2)] run(3)])
qed

lemma upsert_many_legacy: "n \<notin> lg_line ` set rows \<Longrightarrow> legacy_line n (upsert_many rows d) = legacy_line n d"
proof -
  assume n: "n \<notin> lg_line ` set rows"
  have "upsert_many rows d = on_domain (\<lambda>m. m\<lparr>legacy := fold (upsert lg_line) rows (legacy m)\<rparr>) d" by (simp add: upsert_many_def upsert_def [abs_def])
  then show ?thesis using fold_upsert_other [OF n] by (simp add: legacy_line_def on_domain_def)
qed

lemma active_link_get:
  assumes "distinct (map link_key (line_links d))"
  shows "active_link z n d = (case get_link z n d of None \<Rightarrow> None | Some q \<Rightarrow> if ll_active q then Some q else None)"
proof (cases "active_link z n d")
  case None
  then show ?thesis by (auto simp: active_link_def find_None_iff dest: get_link_SomeD split: option.split)
next
  case (Some q)
  then have "q \<in> set (line_links d)" "ll_scan q = z" "ll_line q = n" "ll_active q" by (auto simp: active_link_def dest: find_SomeD)
  then show ?thesis using get_link_unique [OF assms, of q] Some by simp
qed

lemma save_records_rest:
  fixes d :: state_db
  assumes s: "save_domain_records hash ph now scan rows d = (Inr affected, t)" and k: "domain_keys d"
  shows "legacy (derived t) = legacy (derived d)" "project_states t = project_states d" "state_rows t = state_rows d"
proof -
  obtain recs d1 bs d2 out where w: "write_records hash now rows d = (Inr recs, d1)"
    and b: "create_blocks_many ph now ''MANUAL'' (map (block_for ph scan rows recs) (block_keys ph rows)) d1 = (Inr bs, d2)"
    and l: "create_links_many ph now (map (link_for ph scan recs (zip (block_keys ph rows) bs)) (plan_order rows)) d2 = (Inr out, t)"
    using save_records_inv [OF s] by metis
  obtain rs where d1: "d1 = on_domain (\<lambda>m. m\<lparr>records := rs\<rparr>) d" using write_records_ok(1) [OF w k] by (auto simp: records_only_def)
  have d2: "legacy (derived d2) = legacy (derived d1)" "project_states d2 = project_states d1" "state_rows d2 = state_rows d1"
    using b by (auto simp: create_blocks_many_def on_domain_def Let_def split: if_splits)
  show "legacy (derived t) = legacy (derived d)" "project_states t = project_states d" "state_rows t = state_rows d"
    by (simp_all add: create_links_ok(1) [OF l] d2 d1 on_domain_def)
qed

lemma save_views:
  fixes d :: state_db
  assumes ok: "facts_ok ph" and h: "healthy ph d" and s: "save_domain_records hash ph now scan rows d = (Inr affected, d2)"
    and e: "e = upsert_many (map legacy_of rows) (snd (close_active_rejections_many now scan (map si_line_id rows) reason d2))"
    and f: "f \<in> set (ph_files ph)"
  shows "fl_id f \<notin> set affected \<Longrightarrow> file_views cov ph e f = file_views cov ph d f" "fl_id f \<in> set affected \<Longrightarrow> fl_scan f = scan"
proof -
  obtain recs d1 bs d0 out where l: "create_links_many ph now (map (link_for ph scan recs (zip (block_keys ph rows) bs)) (plan_order rows)) d0 = (Inr out, d2)"
    using save_records_inv [OF s] by metis
  have aff: "affected = sort (remdups (map (row_file ph) rows))" using s by (auto simp: save_domain_records_def op_bind_Inr)
  have line: "\<exists>k g. List.find (\<lambda>l. pl_id l = si_line_id r) (ph_lines ph) = Some k \<and> List.find (\<lambda>f. fl_id f = pl_file k) (ph_files ph) = Some g \<and> fl_scan g = scan \<and> row_file ph r = pl_file k"
    if r: "r \<in> set rows" for r
  proof -
    have "link_for ph scan recs (zip (block_keys ph rows) bs) r \<in> set (map (link_for ph scan recs (zip (block_keys ph rows) bs)) (plan_order rows))" using r by simp
    from create_links_ok(3) [OF l this] have "map_option snd (the_line ph (si_line_id r)) = Some scan" by (simp add: link_for_def)
    then show ?thesis by (auto simp: the_line_def row_file_def split: option.splits)
  qed
  show "fl_scan f = scan" if fa: "fl_id f \<in> set affected"
  proof -
    obtain r where r: "r \<in> set rows" "fl_id f = row_file ph r" using fa by (auto simp: aff)
    obtain k :: physical_line and g where g: "List.find (\<lambda>f. fl_id f = pl_file k) (ph_files ph) = Some g" "fl_scan g = scan" "row_file ph r = pl_file k" using line [OF r(1)] by blast
    then have "g \<in> set (ph_files ph)" "fl_id g = fl_id f" using r(2) by (auto dest: find_SomeD)
    then show ?thesis using file_by_id [OF ok _ f] g(2) by blast
  qed
  show "file_views cov ph e f = file_views cov ph d f" if nf: "fl_id f \<notin> set affected"
    unfolding file_views_def
  proof (intro map_cong refl view_line_cong)
    fix x assume x: "x \<in> set (filter (\<lambda>l. pl_file l = fl_id f) (ph_lines ph))"
    have nr: "pl_id x \<notin> si_line_id ` set rows"
    proof
      assume "pl_id x \<in> si_line_id ` set rows"
      then obtain r where r: "r \<in> set rows" "pl_id x = si_line_id r" by blast
      obtain k where k: "List.find (\<lambda>l. pl_id l = si_line_id r) (ph_lines ph) = Some k" "row_file ph r = pl_file k" using line [OF r(1)] by auto
      have "k \<in> set (ph_lines ph)" "pl_id k = pl_id x" using find_SomeD [OF k(1)] r(2) by simp_all
      then have "k = x" using x ok by (auto simp: facts_ok_def distinct_map dest: inj_onD)
      then have "row_file ph r = fl_id f" using k(2) x by simp
      then show False using imageI [OF r(1), of "row_file ph"] nf by (simp add: aff)
    qed
    then have nk: "(fl_scan f, pl_id x) \<notin> (\<lambda>r. (scan, si_line_id r)) ` set rows" by auto
    have tab: "line_links e = line_links d2" "records (derived e) = records (derived d2)" by (simp_all add: e upsert_many_def on_domain_def close_active_rejections_many_def update_rows_def)
    have "healthy ph e" unfolding e same_tables_healthy [OF upsert_many_tables] by (rule save_records_healthy [OF h s])
    then have u: "distinct (map link_key (line_links e))" "distinct (map link_key (line_links d))" using h by (simp_all add: healthy_def gate_ok_def)
    have ge: "get_link z n e = get_link z n d2" "get_record i e = get_record i d2" for z n i by (simp_all add: get_link_def get_record_def tab)
    have gl: "get_link (fl_scan f) (pl_id x) e = get_link (fl_scan f) (pl_id x) d" using save_records_exact(2) [OF h s nk] by (simp add: ge)
    show al: "active_link (fl_scan f) (pl_id x) e = active_link (fl_scan f) (pl_id x) d" unfolding active_link_get [OF u(1)] active_link_get [OF u(2)] gl ..
    show "get_record (ll_record q) e = get_record (ll_record q) d" if "active_link (fl_scan f) (pl_id x) d = Some q" for q
    proof -
      have "get_link (fl_scan f) (pl_id x) d = Some q" "ll_active q" using that unfolding active_link_get [OF u(2)] by (auto split: option.splits if_splits)
      then show ?thesis using save_records_exact(3) [OF h s nk] by (simp add: ge)
    qed
    have "legacy (derived (snd (close_active_rejections_many now scan (map si_line_id rows) reason d2))) = legacy (derived d)"
      using save_records_rest(1) [OF s] h by (simp add: close_active_rejections_many_def update_rows_def healthy_def)
    moreover have n: "pl_id x \<notin> lg_line ` set (map legacy_of rows)" using nr by (auto simp: legacy_of_def)
    ultimately show "legacy_line (pl_id x) e = legacy_line (pl_id x) d" unfolding e upsert_many_legacy [OF n] by (simp add: legacy_line_def)
  qed
qed

lemma save_exact_states:
  assumes ok: "facts_ok ph" and h: "healthy ph d" and d: "ready_exact cov ph d"
    and s: "save_body hash path_hash ph (FileStateService cov ph now0) now p scan items reviewer True d = (Inr (n, v), t)"
  shows "ready_exact cov ph t"
proof -
  let ?l = "state_lock now p d"
  have locked: "ready_exact cov ph ?l"
  proof -
    have eq: "exact_file cov ph ?l f = exact_file cov ph d f" for f
      using same_facts_views [OF same_facts_steps(2) [of d now p], of cov ph f] by (simp add: exact_file_def grouped_counts_def get_state_def)
    have "state_get q d = Some z" if "state_get q ?l = Some z" "ps_current_scan z \<noteq> None" for q z
      using that by (auto simp: state_lock_def state_ensure_def state_get_def find_append split: option.splits if_splits)
    then show ?thesis using d unfolding ready_exact_def eq by (metis option.distinct(1))
  qed
  obtain st where st: "state_get p ?l = Some st" using state_get_lock by (metis not_None_eq)
  show ?thesis using s
  proof (cases rule: save_body_inv)
    case nothing
    with s have "t = ?l" by (auto simp: save_body_def Let_def split: if_splits)
    then show ?thesis using locked by simp
  next
    case (saved rows affected d2 ready)
    let ?c = "snd (close_active_rejections_many now scan (map si_line_id rows) ''MANUAL_REANALYSIS'' d2)"
    let ?e = "upsert_many (map legacy_of rows) ?c"
    have hl: "healthy ph ?l" using h same_tables_healthy [OF same_tables_lock(1)] by blast
    have k: "domain_keys ?l" using hl by (simp add: healthy_def)
    note rest = save_records_rest [OF saved(3) k]
    have pe: "project_states ?e = project_states ?l" "state_rows ?e = state_rows d"
      using rest(2,3) by (simp_all add: upsert_many_def on_domain_def close_active_rejections_many_def update_rows_def)
    have ready: "ready = projection_ready st" using saved(7) st by simp
    show ?thesis
    proof (rule rebuild_keeps_exact [OF ok d st _ pe])
      show "or_zero (ps_current_scan st) = scan" using saved(6) st by simp
      show "rebuild_step (FileStateService cov ph now0) now p scan affected (projection_ready st) ?e = (Inr (), t)" using saved(5) ready by simp
      show "file_views cov ph ?e f = file_views cov ph d f" if "f \<in> set (ph_files ph)" "fl_id f \<notin> set affected" for f
        using save_views(1) [OF ok hl saved(3) refl that] same_facts_views [OF same_facts_steps(2) [of d now p]] by simp
      show "fl_scan f = scan" if "f \<in> set (ph_files ph)" "fl_id f \<in> set affected" for f using save_views(2) [OF ok hl saved(3) refl that] .
    qed
  qed
qed

text \<open>A review of the current scan, with the service of the file states: saves are those that demand the current scan.\<close>

inductive current_step ::
  "state_db driver \<Rightarrow> (int \<Rightarrow> string) \<Rightarrow> physical \<Rightarrow> (analysis_content \<Rightarrow> string) \<Rightarrow> state_db connection \<Rightarrow> state_db connection \<Rightarrow> bool"
  for drv cov ph hash where
  current_save: "save drv fd hash path_hash ph (FileStateService cov ph now0) now name scan items reviewer True c = (out, c') \<Longrightarrow> current_step drv cov ph hash c c'"
| current_confirm: "confirm drv (FileStateService cov ph now0) now project scan ids m dflt reviewer c = (out', c') \<Longrightarrow> current_step drv cov ph hash c c'"
| current_reject: "reject drv (FileStateService cov ph now0) now project scan line user expected c = (out'', c') \<Longrightarrow> current_step drv cov ph hash c c'"
| current_undo: "undo drv (FileStateService cov ph now0) now project scan line i er el c = (out'', c') \<Longrightarrow> current_step drv cov ph hash c c'"

definition projected :: "(int \<Rightarrow> string) \<Rightarrow> physical \<Rightarrow> state_db \<Rightarrow> bool" where
  "projected cov ph d \<longleftrightarrow> healthy ph d \<and> ready_exact cov ph d"

lemma current_step_projected:
  assumes "current_step drv cov ph hash c c'" "rollback_works drv" "facts_ok ph" "clean c" "projected cov ph (committed c)"
  shows "clean c' \<and> projected cov ph (committed c')"
  using assms
proof (induction rule: current_step.induct)
  case (current_save fd path_hash now0 now name scan items reviewer c out c')
  let ?body = "save_body hash path_hash ph (FileStateService cov ph now0) now (pj_id (the (get_project_by_name fd name))) scan items reviewer True"
  have b: "projected cov ph t" if "projected cov ph d" "?body d = (Inr x, t)" for d x t
    using that save_healthy [OF _ _ service_frame_holds [OF current_save(3)]] save_exact_states [OF current_save(3)] by (cases x) (auto simp: projected_def)
  have "c' = c \<or> transaction drv ?body c = (out, c')" using current_save(1) by (auto simp: save_def split: option.splits if_splits)
  then show ?case by (rule transaction_keeps [where P = "projected cov ph", OF current_save(2,4,5)]) (rule b)
next
  case (current_confirm now0 now project scan ids m dflt reviewer c out' c')
  let ?body = "confirm_body (FileStateService cov ph now0) now project scan (filter (\<lambda>i. i \<noteq> 0) ids) m dflt reviewer"
  have b: "projected cov ph t" if "projected cov ph d" "?body d = (Inr x, t)" for d x t
    using that confirm_healthy [OF _ _ service_frame_holds [OF current_confirm(3)]] confirm_exact [OF current_confirm(3)] by (auto simp: projected_def)
  have "c' = c \<or> transaction drv ?body c = (out', c')" using current_confirm(1) by (auto simp: confirm_def Let_def split: if_splits)
  then show ?case by (rule transaction_keeps [where P = "projected cov ph", OF current_confirm(2,4,5)]) (rule b)
next
  case (current_reject now0 now project scan line user expected c out'' c')
  have b: "projected cov ph t" if "projected cov ph d" "reject_body (FileStateService cov ph now0) now project scan line user expected d = (Inr x, t)" for d x t
    using that reject_healthy [OF _ _ service_frame_holds [OF current_reject(3)]] reject_exact [OF current_reject(3)] by (auto simp: projected_def)
  have "c' = c \<or> transaction drv (reject_body (FileStateService cov ph now0) now project scan line user expected) c = (out'', c')" using current_reject(1) by (simp add: reject_def)
  then show ?case by (rule transaction_keeps [where P = "projected cov ph", OF current_reject(2,4,5)]) (rule b)
next
  case (current_undo now0 now project scan line i er el c out'' c')
  have b: "projected cov ph t" if "projected cov ph d" "undo_body (FileStateService cov ph now0) now project scan line i er el d = (Inr x, t)" for d x t
    using that undo_healthy [OF _ _ service_frame_holds [OF current_undo(3)]] undo_exact [OF current_undo(3)] by (auto simp: projected_def)
  have "c' = c \<or> transaction drv (undo_body (FileStateService cov ph now0) now project scan line i er el) c = (out'', c')" using current_undo(1) by (simp add: undo_def)
  then show ?case by (rule transaction_keeps [where P = "projected cov ph", OF current_undo(2,4,5)]) (rule b)
qed

section \<open>The gate accepts what was rebuilt\<close>

lemma how_many_append [simp]: "how_many P (xs @ ys) = how_many P xs + how_many P ys" "how_many P [] = 0"
  by (simp_all add: how_many_def)

lemma how_many_zero: "how_many P xs = 0 \<longleftrightarrow> (\<forall>x \<in> set xs. \<not> P x)"
  by (simp add: how_many_def filter_empty_conv)

lemma how_many_split: "\<forall>x \<in> set xs. P x \<longleftrightarrow> Q x \<or> R x \<Longrightarrow> \<forall>x \<in> set xs. \<not> (Q x \<and> R x) \<Longrightarrow> how_many P xs = how_many Q xs + how_many R xs"
  unfolding how_many_def by (induction xs) auto

lemma count_views_append: "count_views (xs @ ys) = add_counts (count_views xs) (count_views ys)"
  by (simp add: count_views_def add_counts_def)

lemma sum_counts_concat: "sum_counts (map count_views vss) = count_views (concat vss)"
  by (induction vss) (simp_all add: sum_counts_def no_counts_def count_views_append)

text \<open>Every pending line is pending in exactly one way.\<close>

lemma view_inherited_draft: "lv_state (view_line cov z d l) = Some ''INHERITED_PENDING'' \<Longrightarrow> lv_draft (view_line cov z d l)"
  by (auto simp: view_line_def view_draft_def)

lemma pending_split:
  assumes "\<forall>v \<in> set vs. lv_state v = Some ''INHERITED_PENDING'' \<longrightarrow> lv_draft v"
  shows "ct_pending (count_views vs) = ct_ordinary (count_views vs) + ct_inherited (count_views vs) + ct_manual (count_views vs)"
proof -
  have "how_many (\<lambda>v. lv_uncovered v \<and> \<not> is_confirmed v) vs = how_many (\<lambda>v. ordinary_pending v \<or> inherited_pending v) vs + how_many manual_draft_pending vs"
    by (rule how_many_split) (use assms in \<open>auto simp: ordinary_pending_def inherited_pending_def manual_draft_pending_def is_confirmed_def\<close>)
  moreover have "how_many (\<lambda>v. ordinary_pending v \<or> inherited_pending v) vs = how_many ordinary_pending vs + how_many inherited_pending vs"
    by (rule how_many_split) (auto simp: ordinary_pending_def inherited_pending_def)
  ultimately show ?thesis by (simp add: count_views_def)
qed

lemma grouped_conserved: "ct_pending (grouped_counts cov ph d f) = ct_ordinary (grouped_counts cov ph d f) + ct_inherited (grouped_counts cov ph d f) + ct_manual (grouped_counts cov ph d f)"
  unfolding grouped_counts_def by (rule pending_split) (auto simp: file_views_def dest: view_inherited_draft)

text \<open>A sum does not depend on the order of the rows.\<close>

lemma sum_counts_fields:
  "ct_lines (sum_counts cs) = sum_list (map ct_lines cs)" "ct_uncovered (sum_counts cs) = sum_list (map ct_uncovered cs)" "ct_filled (sum_counts cs) = sum_list (map ct_filled cs)"
  "ct_draft (sum_counts cs) = sum_list (map ct_draft cs)" "ct_confirmed (sum_counts cs) = sum_list (map ct_confirmed cs)" "ct_pending (sum_counts cs) = sum_list (map ct_pending cs)"
  "ct_ordinary (sum_counts cs) = sum_list (map ct_ordinary cs)" "ct_inherited (sum_counts cs) = sum_list (map ct_inherited cs)" "ct_manual (sum_counts cs) = sum_list (map ct_manual cs)"
  by (induction cs) (simp_all add: sum_counts_def no_counts_def count_views_def add_counts_def)

lemma sum_list_mset: "mset xs = mset ys \<Longrightarrow> sum_list (map (f :: 'a \<Rightarrow> nat) xs) = sum_list (map f ys)"
  by (metis mset_map sum_mset_sum_list)

lemma sum_counts_mset: "mset cs = mset cs' \<Longrightarrow> sum_counts cs = sum_counts cs'"
  by (rule counts.equality) (simp_all only: sum_counts_fields sum_list_mset [of cs cs'], simp)

lemma same_rows_mset: "distinct (map key xs) \<Longrightarrow> distinct (map key ys) \<Longrightarrow> set xs = set ys \<Longrightarrow> mset xs = mset ys"
  by (simp add: distinct_map set_eq_iff_mset_eq_distinct)

lemma get_stateD: "get_state scan i d = Some r \<Longrightarrow> fs_file r = i \<and> fs_scan r = scan \<and> r \<in> set (state_rows d)"
  by (auto simp: get_state_def dest: find_SomeD)

lemma get_state_row: "distinct (map state_key (state_rows d)) \<Longrightarrow> r \<in> set (state_rows d) \<Longrightarrow> get_state (fs_scan r) (fs_file r) d = Some r"
  unfolding get_state_key by (rule find_unique)

lemma all_found: "\<forall>f \<in> set fs. get_state scan (fl_id f) d \<noteq> None \<Longrightarrow>
  map (\<lambda>r. fs_file (the r)) (filter (\<lambda>r. r \<noteq> None) (map (\<lambda>f. get_state scan (fl_id f) d) fs)) = map fl_id fs"
  by (induction fs) (auto dest: get_stateD)

lemma completeI:
  assumes "\<forall>f \<in> set (scan_files ph scan None). \<exists>r. get_state scan (fl_id f) d = Some r \<and> \<not> is_stale v (normalized_file_ids ids) older r" "orphan_states ph scan d = 0"
    and "\<forall>is. normalized_file_ids ids = Some is \<longrightarrow> set is \<subseteq> fl_id ` set (scan_files ph scan None)"
  shows "file_state_completeness ph scan v ids older d"
proof -
  let ?fs = "scan_files ph scan None"
  have "\<forall>f \<in> set ?fs. get_state scan (fl_id f) d \<noteq> None" using assms(1) by auto
  note found = all_found [OF this]
  have "length (remdups (filter (\<lambda>i. i \<in> set is) (map fl_id ?fs))) = length is" if "normalized_file_ids ids = Some is" for "is"
  proof -
    have "distinct is" using that by (auto simp: normalized_file_ids_def)
    moreover have "set (filter (\<lambda>i. i \<in> set is) (map fl_id ?fs)) = set is" using assms(3) that by fastforce
    ultimately show ?thesis by (simp only: length_remdups_card_conv distinct_card)
  qed
  moreover have "how_many (\<lambda>r. r = None) (map (\<lambda>f. get_state scan (fl_id f) d) ?fs) = 0"
    "how_many (\<lambda>r. case r of None \<Rightarrow> False | Some r \<Rightarrow> is_stale v (normalized_file_ids ids) older r) (map (\<lambda>f. get_state scan (fl_id f) d) ?fs) = 0"
    unfolding how_many_zero using assms(1) by auto
  ultimately show ?thesis unfolding file_state_completeness_def Let_def found using assms(2) by (simp split: option.split)
qed

lemma completeD:
  assumes "file_state_completeness ph scan v None False d"
  shows "\<forall>f \<in> set (scan_files ph scan None). \<exists>r. get_state scan (fl_id f) d = Some r \<and> fs_version r = v" "orphan_states ph scan d = 0"
proof -
  let ?found = "map (\<lambda>f. get_state scan (fl_id f) d) (scan_files ph scan None)"
  have "how_many (\<lambda>r. r = None) ?found = 0" "how_many (\<lambda>r. case r of None \<Rightarrow> False | Some r \<Rightarrow> is_stale v None False r) ?found = 0"
    using assms by (simp_all add: file_state_completeness_def Let_def normalized_file_ids_def)
  then show "\<forall>f \<in> set (scan_files ph scan None). \<exists>r. get_state scan (fl_id f) d = Some r \<and> fs_version r = v" unfolding how_many_zero by (fastforce simp: is_stale_def)
  show "orphan_states ph scan d = 0" using assms by (simp add: file_state_completeness_def Let_def)
qed

lemma conservedI:
  assumes "\<forall>f \<in> set (scan_files ph scan (normalized_file_ids ids)). \<exists>r. get_state scan (fl_id f) d = Some r \<and> ct_pending (fs_counts r) = ct_ordinary (fs_counts r) + ct_inherited (fs_counts r) + ct_manual (fs_counts r)"
    and "orphan_states ph scan d = 0"
  shows "pending_conservation ph scan ids d"
proof -
  let ?fs = "scan_files ph scan (normalized_file_ids ids)"
  have "\<forall>f \<in> set ?fs. get_state scan (fl_id f) d \<noteq> None" using assms(1) by auto
  note found = all_found [OF this]
  have "how_many (\<lambda>r. r = None) (map (\<lambda>f. get_state scan (fl_id f) d) ?fs) = 0"
    "how_many (\<lambda>r. case r of None \<Rightarrow> False | Some r \<Rightarrow> ct_pending (fs_counts r) \<noteq> ct_ordinary (fs_counts r) + ct_inherited (fs_counts r) + ct_manual (fs_counts r)) (map (\<lambda>f. get_state scan (fl_id f) d) ?fs) = 0"
    unfolding how_many_zero using assms(1) by auto
  then show ?thesis unfolding pending_conservation_def Let_def found using assms(2) by simp
qed

lemma rebuild_scan_distinct: "distinct (map state_key (state_rows d)) \<Longrightarrow> distinct (map state_key (state_rows (rebuild_scan cov ph now scan v ids d)))"
  using fold_upsert_distinct [of state_key "state_rows d"] by (simp add: rebuild_scan_def Let_def put_state_def distinct_map_filter)

lemma upsert_set: "set (upsert key r rows) \<subseteq> insert r (set rows)"
  by (auto simp: upsert_def)

lemma fold_upsert_set: "set (fold (upsert key) rs rows) \<subseteq> set rs \<union> set rows"
  using upsert_set by (induction rs arbitrary: rows) fastforce+

lemma has_file: "f \<in> set (scan_files ph scan sel) \<Longrightarrow> list_ex (\<lambda>g. fl_id g = fs_file (grouped_row cov ph now v d f) \<and> fl_scan g = scan) (ph_files ph)"
  by (auto simp: scan_files_mem list_ex_iff grouped_row_def)

text \<open>No row is left without a file: a full rebuild deletes such rows, and another adds none.\<close>

lemma rebuild_no_orphans:
  assumes "normalized_file_ids ids = None \<or> orphan_states ph scan d = 0"
  shows "orphan_states ph scan (rebuild_scan cov ph now scan v ids d) = 0"
proof -
  let ?rs = "map (grouped_row cov ph now v d) (scan_files ph scan (normalized_file_ids ids))"
  have rows: "set (fold put_state ?rs (state_rows d)) \<subseteq> set ?rs \<union> set (state_rows d)" unfolding put_state_def by (rule fold_upsert_set)
  show ?thesis
  proof (cases "normalized_file_ids ids = None")
    case True
    then show ?thesis by (auto simp: orphan_states_def how_many_zero rebuild_scan_def Let_def)
  next
    case False
    then have "\<forall>r \<in> set (state_rows d). fs_scan r = scan \<longrightarrow> list_ex (\<lambda>g. fl_id g = fs_file r \<and> fl_scan g = fs_scan r) (ph_files ph)"
      using assms by (auto simp: orphan_states_def how_many_zero)
    moreover have "\<forall>r \<in> set ?rs. list_ex (\<lambda>g. fl_id g = fs_file r \<and> fl_scan g = scan) (ph_files ph)" using has_file by fastforce
    moreover have "set (state_rows (rebuild_scan cov ph now scan v ids d)) \<subseteq> set ?rs \<union> set (state_rows d)" using rows False by (auto simp: rebuild_scan_def Let_def)
    ultimately show ?thesis unfolding orphan_states_def how_many_zero by blast
  qed
qed

text \<open>The rows of the selected files after a rebuild are the grouped rows of these files.\<close>

lemma rebuilt_rows:
  assumes ok: "facts_ok ph" and u: "distinct (map state_key (state_rows d))" and o: "normalized_file_ids ids = None \<or> orphan_states ph scan d = 0"
  shows "mset (filter (\<lambda>r. fs_scan r = scan \<and> state_selected (normalized_file_ids ids) r) (state_rows (rebuild_scan cov ph now scan v ids d))) =
    mset (map (grouped_row cov ph now v d) (scan_files ph scan (normalized_file_ids ids)))" (is "mset (filter ?P (state_rows ?t)) = mset ?rs")
proof (rule same_rows_mset)
  have ut: "distinct (map state_key (state_rows ?t))" by (rule rebuild_scan_distinct [OF u])
  then show "distinct (map state_key (filter ?P (state_rows ?t)))" by (rule distinct_map_filter)
  show "distinct (map state_key ?rs)" by (rule grouped_rows_keys [OF ok])
  have get: "get_state scan (fl_id f) ?t = Some (grouped_row cov ph now v d f)" if "f \<in> set (scan_files ph scan (normalized_file_ids ids))" for f
    using rebuild_scan_get [OF ok, of f] that by (auto simp: scan_files_mem)
  show "set (filter ?P (state_rows ?t)) = set ?rs"
  proof (intro equalityI subsetI)
    fix r assume "r \<in> set (filter ?P (state_rows ?t))"
    then have r: "r \<in> set (state_rows ?t)" "fs_scan r = scan" "state_selected (normalized_file_ids ids) r" by simp_all
    have "list_ex (\<lambda>g. fl_id g = fs_file r \<and> fl_scan g = fs_scan r) (ph_files ph)"
      using rebuild_no_orphans [OF o, of cov now v] r(1,2) unfolding orphan_states_def how_many_zero by blast
    then obtain f where "f \<in> set (ph_files ph)" "fl_id f = fs_file r" "fl_scan f = scan" using r(2) by (auto simp: list_ex_iff)
    then have f: "f \<in> set (scan_files ph scan (normalized_file_ids ids))" "fl_id f = fs_file r" using r(3) by (auto simp: scan_files_mem state_selected_def split: option.splits)
    have "Some r = Some (grouped_row cov ph now v d f)" using get [OF f(1)] get_state_row [OF ut r(1)] r(2) f(2) by simp
    then show "r \<in> set ?rs" using f(1) by simp
  next
    fix r assume "r \<in> set ?rs"
    then obtain f where f: "f \<in> set (scan_files ph scan (normalized_file_ids ids))" "r = grouped_row cov ph now v d f" by auto
    from get_stateD [OF get [OF f(1)]] f show "r \<in> set (filter ?P (state_rows ?t))" by (auto simp: scan_files_mem state_selected_def grouped_row_def split: option.splits)
  qed
qed

lemma rebuilt_reconciles:
  assumes ok: "facts_ok ph" and u: "distinct (map state_key (state_rows d))" and o: "normalized_file_ids ids = None \<or> orphan_states ph scan d = 0"
  shows "scan_aggregate scan ids (rebuild_scan cov ph now scan v ids d) = scan_summary_from_facts cov ph scan ids (rebuild_scan cov ph now scan v ids d)"
proof -
  let ?t = "rebuild_scan cov ph now scan v ids d" and ?fs = "scan_files ph scan (normalized_file_ids ids)"
  let ?rows = "filter (\<lambda>r. fs_scan r = scan \<and> state_selected (normalized_file_ids ids) r) (state_rows ?t)"
  note m = rebuilt_rows [OF ok u o, of cov now v]
  have "length ?rows = length (remdups (map fl_id ?fs))" using mset_eq_length [OF m] scan_files_keys [OF ok] by (simp add: distinct_remdups_id)
  moreover have "sum_counts (map fs_counts ?rows) = sum_counts (map fs_counts (map (grouped_row cov ph now v d) ?fs))"
    by (rule sum_counts_mset) (simp only: mset_map m)
  moreover have "map fs_counts (map (grouped_row cov ph now v d) ?fs) = map count_views (map (file_views cov ph ?t) ?fs)"
    by (simp add: grouped_row_def grouped_counts_def same_facts_views [OF rebuild_scan_facts])
  ultimately show ?thesis by (simp only: scan_aggregate_def scan_summary_from_facts_def Let_def sum_counts_concat)
qed

lemma rebuilt_valid:
  assumes ok: "facts_ok ph" and u: "distinct (map state_key (state_rows d))" and s: "state_get p d = Some s" "ps_data_version s = v" "0 \<le> v"
    and old: "normalized_file_ids ids = None \<or> file_state_completeness ph scan (max 0 (v - 1)) None False d"
    and files: "\<And>is. normalized_file_ids ids = Some is \<Longrightarrow> set is \<subseteq> fl_id ` set (scan_files ph scan None)"
    and given: "given \<or> normalized_file_ids ids = None"
  shows "validate_rebuilt cov ph p scan v ids given True (rebuild_scan cov ph now scan v ids d) = ''READY''"
proof -
  let ?t = "rebuild_scan cov ph now scan v ids d" and ?sel = "normalized_file_ids ids"
  have o: "?sel = None \<or> orphan_states ph scan d = 0" using old by (auto dest: completeD(2))
  note no = rebuild_no_orphans [OF o, of cov now v]
  have get: "get_state scan (fl_id f) ?t = (if f \<in> set (scan_files ph scan ?sel) then Some (grouped_row cov ph now v d f) else get_state scan (fl_id f) d)" if "f \<in> set (scan_files ph scan None)" for f
    using rebuild_scan_get [OF ok, of f] that by (auto simp: scan_files_mem)
  have fresh: "\<not> is_stale v ?sel (?sel \<noteq> None) (grouped_row cov ph now v d f)" for f by (auto simp: is_stale_def grouped_row_def split: option.split list.split)
  have kept: "\<exists>r. get_state scan (fl_id f) d = Some r \<and> \<not> is_stale v ?sel (?sel \<noteq> None) r" if f: "f \<in> set (scan_files ph scan None)" "f \<notin> set (scan_files ph scan ?sel)" for f
  proof -
    obtain "is" where "?sel = Some is" "fl_id f \<notin> set is" using f by (auto simp: scan_files_mem split: option.splits)
    moreover obtain r where "get_state scan (fl_id f) d = Some r" "fs_version r = max 0 (v - 1)" using old completeD(1) f(1) \<open>?sel = Some is\<close> by force
    ultimately show ?thesis using get_stateD [of scan "fl_id f" d r] s(3) by (auto simp: is_stale_def split: list.split)
  qed
  have "\<forall>f \<in> set (scan_files ph scan None). \<exists>r. get_state scan (fl_id f) ?t = Some r \<and> \<not> is_stale v ?sel (?sel \<noteq> None) r" using get fresh kept by auto
  then have c: "file_state_completeness ph scan v ids (?sel \<noteq> None) ?t" by (rule completeI [OF _ no]) (use files in blast)
  have "f \<in> set (scan_files ph scan None)" if "f \<in> set (scan_files ph scan ?sel)" for f using that by (simp add: scan_files_mem)
  then have p: "pending_conservation ph scan ids ?t" by (intro conservedI no) (simp add: get grouped_row_def grouped_conserved)
  have ids: "normalized_file_ids (if ?sel \<noteq> None \<and> given then ?sel else None) = ?sel" using given by (cases "?sel = None") simp_all
  have cong: "file_state_completeness ph scan v i1 o1 ?t = file_state_completeness ph scan v ids o1 ?t" "pending_conservation ph scan i1 ?t = pending_conservation ph scan ids ?t"
    "scan_aggregate scan i1 ?t = scan_aggregate scan ids ?t" "scan_summary_from_facts cov ph scan i1 ?t = scan_summary_from_facts cov ph scan ids ?t" if "normalized_file_ids i1 = ?sel" for i1 o1
    by (simp_all only: file_state_completeness_def pending_conservation_def scan_aggregate_def scan_summary_from_facts_def that)
  show ?thesis unfolding validate_rebuilt_def Let_def cong [OF ids] using c p rebuilt_reconciles [OF ok u o, of cov now v] s given by auto
qed

text \<open>What a rebuild relies on: the project has a state with the version asked for, and the files named are files of the scan.\<close>

definition rebuildable :: "physical \<Rightarrow> int \<Rightarrow> int \<Rightarrow> int \<Rightarrow> int list option \<Rightarrow> state_db \<Rightarrow> bool" where
  "rebuildable ph p scan v affected d \<longleftrightarrow> facts_ok ph \<and> distinct (map state_key (state_rows d)) \<and> map_option ps_data_version (state_get p d) = Some v \<and> 0 \<le> v \<and>
     (case affected of None \<Rightarrow> True | Some ids \<Rightarrow> \<forall>i \<in> set ids. i > 0 \<longrightarrow> list_ex (\<lambda>f. fl_id f = i \<and> fl_scan f = scan) (ph_files ph))"

lemma invalidate_get: "state_get p d = Some s \<Longrightarrow> state_get p (state_invalidate now p d) = Some (s\<lparr>ps_file_state_version := 0, ps_updated := now\<rparr>)"
  using state_get_lock_id [of p d s now] by (auto simp: state_invalidate_def update_states_def state_get_def find_map_update dest: find_SomeD)

lemma mark_ready_get: "state_get p d = Some s \<Longrightarrow> ps_data_version s = v \<Longrightarrow> state_get p (state_mark_ready now p v d) = Some (s\<lparr>ps_file_state_version := v, ps_updated := now\<rparr>)"
  using state_get_lock_id [of p d s now] by (auto simp: state_mark_ready_def update_states_def state_get_def find_map_update dest: find_SomeD)

section \<open>Properties\<close>

text \<open>C10: the gate never refuses a rebuild: with unique keys, the version asked for that of the project and the files named
  files of the scan, the rebuild returns, marks the project ready for that version and leaves no file state without a
  file; every file of the scan that was named, or whose file state was right, has the file state that the facts
  give, and when no files are named every file of the scan has.\<close>

theorem rebuild_passes_gate:
  assumes "rebuildable ph p scan v affected d"
  shows "\<exists>s t. rebuild_validate_and_mark_ready_in_transaction cov ph now p scan v affected ready d = (Inr s, t) \<and> state_get p t = Some s \<and>
    ps_data_version s = v \<and> projection_ready s \<and> orphan_states ph scan t = 0 \<and>
    (\<forall>f \<in> set (scan_files ph scan None). affected = None \<or> fl_id f \<in> set (the affected) \<or> exact_file cov ph d f \<longrightarrow> exact_file cov ph t f)"
proof -
  have ok: "facts_ok ph" and u: "distinct (map state_key (state_rows d))" and v: "0 \<le> v" using assms by (simp_all add: rebuildable_def)
  obtain s where s: "state_get p d = Some s" "ps_data_version s = v" using assms by (auto simp: rebuildable_def)
  let ?old = "file_state_completeness ph scan (max 0 (v - 1)) None False d"
  let ?inc = "normalized_file_ids affected \<noteq> None \<and> (case ready of None \<Rightarrow> v > 0 \<and> ?old | Some b \<Rightarrow> b \<and> ?old)"
  let ?ids = "if ?inc then normalized_file_ids affected else None"
  let ?d1 = "state_invalidate now p d"
  let ?d2 = "rebuild_scan cov ph now scan v ?ids ?d1"
  let ?t = "state_mark_ready now p v ?d2"
  have s1: "state_get p ?d1 = Some (s\<lparr>ps_file_state_version := 0, ps_updated := now\<rparr>)" by (rule invalidate_get [OF s(1)])
  have old: "file_state_completeness ph scan w i b ?d1 = file_state_completeness ph scan w i b d" for w i b by (simp add: file_state_completeness_def get_state_def orphan_states_def)
  have inc: "normalized_file_ids ?ids = None \<or> ?inc \<and> ?old" by (auto simp: normalized_file_ids_def split: option.splits)
  have fls: "set is \<subseteq> fl_id ` set (scan_files ph scan None)" if "normalized_file_ids ?ids = Some is" for "is"
    using assms that by (auto simp: rebuildable_def normalized_file_ids_def list_ex_iff scan_files_mem rev_image_eqI split: if_splits option.splits)
  have "validate_rebuilt cov ph p scan v ?ids ?inc True ?d2 = ''READY''"
  proof (rule rebuilt_valid [OF ok _ s1 _ v _ fls])
    show "distinct (map state_key (state_rows ?d1))" "ps_data_version (s\<lparr>ps_file_state_version := 0, ps_updated := now\<rparr>) = v" using u s(2) by simp_all
    show "normalized_file_ids ?ids = None \<or> file_state_completeness ph scan (max 0 (v - 1)) None False ?d1" unfolding old using inc by blast
    show "?inc \<or> normalized_file_ids ?ids = None" by simp
  qed
  moreover have s2: "state_get p ?t = Some (s\<lparr>ps_file_state_version := v, ps_updated := now\<rparr>)" using mark_ready_get [of p ?d2 _ v now] s1 s(2) by simp
  ultimately have run: "rebuild_validate_and_mark_ready_in_transaction cov ph now p scan v affected ready d = (Inr (s\<lparr>ps_file_state_version := v, ps_updated := now\<rparr>), ?t)"
    unfolding rebuild_validate_and_mark_ready_in_transaction_def Let_def by (simp add: s(2))
  have "orphan_states ph scan ?d1 = orphan_states ph scan d" "orphan_states ph scan ?t = orphan_states ph scan ?d2" by (simp_all add: orphan_states_def)
  then have "orphan_states ph scan ?t = 0" using rebuild_no_orphans [of ?ids ph scan ?d1 cov now v] inc completeD(2) by metis
  moreover have "exact_file cov ph ?t f" if f: "f \<in> set (scan_files ph scan None)" "affected = None \<or> fl_id f \<in> set (the affected) \<or> exact_file cov ph d f" for f
    using service_run(5) [OF run ok, of f] f by (auto simp: scan_files_mem)
  ultimately show ?thesis using run s2 s(2) by (auto simp: projection_ready_def)
qed

text \<open>C9: from a database that passes the audit and whose ready projects have the right file states, any sequence of saves,
  confirmations, rejections and undoings of current scans, whether they return or raise, ends in a database where every
  file of the current scan of a project that is marked ready has a file state with exactly the counts that the
  lines, relations and records give.\<close>

theorem ready_projection_is_exact:
  assumes "(current_step drv cov ph hash)\<^sup>*\<^sup>* c c'" "rollback_works drv" "facts_ok ph" "clean c" "healthy ph (committed c)" "ready_exact cov ph (committed c)"
    and "state_get p (committed c') = Some s" "projection_ready s" "f \<in> set (ph_files ph)" "ps_current_scan s = Some (fl_scan f)"
  shows "map_option fs_counts (get_state (fl_scan f) (fl_id f) (committed c')) = Some (grouped_counts cov ph (committed c') f)"
proof -
  have "projected cov ph (committed c)" using assms(5,6) by (simp add: projected_def)
  with assms(1,4) have "clean c' \<and> projected cov ph (committed c')"
    by (induction rule: rtranclp_induct) (simp_all add: current_step_projected [OF _ assms(2,3)])
  then have "exact_file cov ph (committed c') f" using assms(7-10) unfolding projected_def ready_exact_def by blast
  then show ?thesis by (simp add: exact_file_def)
qed

lemma how_many_sort: "length (filter P (sort_key k xs)) = how_many P xs"
  unfolding how_many_def by (simp only: filter_sort length_sort)

lemma how_many_filter: "length (filter P (filter Q xs)) = how_many (\<lambda>x. Q x \<and> P x) xs"
  by (simp add: how_many_def)

lemma how_many_cong: "(\<And>x. x \<in> set xs \<Longrightarrow> P x = Q x) \<Longrightarrow> how_many P xs = how_many Q xs"
  unfolding how_many_def by (metis filter_cong)

text \<open>The summary of one file, taken from its list of lines, has the counts of the grouped query, as long as no relation has an
  empty state; its pending numbers are those of the uncovered lines that are not confirmed, in order.\<close>

lemma file_summary_agrees:
  assumes "facts_ok ph" "f \<in> set (ph_files ph)" "\<forall>q \<in> set (line_links d). ll_review_state q \<noteq> []"
  shows "fst (authoritative_file_summary cov ph d (fl_scan f) (fl_id f)) = grouped_counts cov ph d f \<and>
    (let numbers = fst (snd (authoritative_file_summary cov ph d (fl_scan f) (fl_id f))) in sorted numbers \<and>
      mset numbers = image_mset lv_number (filter_mset (\<lambda>v. lv_uncovered v \<and> \<not> is_confirmed v) (mset (file_views cov ph d f))))"
proof -
  let ?vs = "file_views cov ph d f"
  have "file_scan ph (fl_id f) = Some (fl_scan f)"
    using assms(1,2) find_unique [of fl_id "ph_files ph" f] by (simp add: facts_ok_def file_scan_def)
  then have rows: "map (view_line cov (fl_scan f) d) (filter (\<lambda>l. pl_file l = fl_id f \<and> file_scan ph (fl_id f) = Some (fl_scan f)) (ph_lines ph)) = ?vs" by (simp add: file_views_def)
  have st: "lv_state v \<noteq> Some []" "lv_state v = Some ''INHERITED_PENDING'' \<longrightarrow> lv_draft v" if "v \<in> set ?vs" for v
  proof -
    obtain l where v: "v = view_line cov (fl_scan f) d l" using \<open>v \<in> set ?vs\<close> by (auto simp: file_views_def)
    show "lv_state v \<noteq> Some []" using assms(3) by (auto simp: v view_line_def active_link_def dest: find_SomeD)
    show "lv_state v = Some ''INHERITED_PENDING'' \<longrightarrow> lv_draft v" using view_inherited_draft unfolding v by blast
  qed
  have blank: "(case lv_state v of None \<Rightarrow> True | Some s \<Rightarrow> s = []) = (lv_state v = None)" if "v \<in> set ?vs" for v using st(1) [OF that] by (auto split: option.split)
  have "fst (authoritative_file_summary cov ph d (fl_scan f) (fl_id f)) = grouped_counts cov ph d f"
    unfolding authoritative_file_summary_def Let_def rows grouped_counts_def count_views_def fst_conv filter_filter how_many_sort
    by (auto simp: blank is_confirmed_def ordinary_pending_def inherited_pending_def manual_draft_pending_def dest: st(2) intro!: how_many_cong)
  moreover have "sorted (map lv_number (filter P (sort_key lv_number ?vs)))" for P by (simp add: filter_sort)
  ultimately show ?thesis unfolding authoritative_file_summary_def Let_def rows by (auto simp: filter_filter mset_filter is_confirmed_def conj_commute intro!: arg_cong [where f = "image_mset lv_number"] filter_mset_cong)
qed

text \<open>After a rebuild of some files of a scan, the others still have the version before, so that the next rebuild, which demands
  the version of every row to be the one before, is one of the whole scan.\<close>

lemma incremental_then_full:
  assumes "facts_ok ph" "file_state_completeness ph scan (v - 1) None False d" "0 < v" "f \<in> set (scan_files ph scan None)" "fl_id f \<notin> set ids"
    and "rebuild_validate_and_mark_ready_in_transaction cov ph now p scan v (Some ids) (Some True) d = (Inr s, t)"
  shows "\<not> file_state_completeness ph scan v None False t"
proof
  assume c: "file_state_completeness ph scan v None False t"
  let ?d1 = "state_invalidate now p d"
  obtain "is" where n: "normalized_file_ids (Some ids) = Some is" by (simp add: normalized_file_ids_def)
  have "max 0 (v - 1) = v - 1" using assms(3) by simp
  then have t: "t = state_mark_ready now p v (rebuild_scan cov ph now scan v (Some is) ?d1)" using rebuild_run(1) [OF assms(6)] assms(2) n by simp
  have f: "f \<in> set (ph_files ph)" "fl_scan f = scan" using assms(4) by (simp_all add: scan_files_mem)
  have "fl_id f \<notin> set is" using normalized_mem [OF assms(1) f(1) n] assms(5) by simp
  moreover have "normalized_file_ids (Some is) = Some is" using n normalized_idem [of "Some ids"] by simp
  ultimately have same: "get_state scan (fl_id f) t = get_state scan (fl_id f) d"
    using rebuild_scan_get [OF assms(1) f(1), of cov now scan v "Some is" ?d1] f(2) by (simp add: t get_state_def scan_files_mem)
  obtain r q where "get_state scan (fl_id f) t = Some r" "fs_version r = v" "get_state scan (fl_id f) d = Some q" "fs_version q = v - 1"
    using completeD(1) [OF c] completeD(1) [OF assms(2)] assms(4) by blast
  with same show False by simp
qed

section \<open>Examples\<close>

definition demo_cov :: "int \<Rightarrow> string" where
  "demo_cov i = ''0''"

definition demo_states :: state_db where
  "demo_states = \<lparr>project_states = [\<lparr>ps_project = 1, ps_current_scan = Some 2, ps_data_version = 6, ps_file_state_version = 0, ps_updated = ''t0''\<rparr>],
     line_links = [demo_manual 1 3, demo_manual 2 4, demo_inherited 3 30 3 1, demo_inherited 4 31 4 2], rejections = [], next_rejection_id = 1,
     derived = \<lparr>records = [demo_record 8 ''MANUAL'', demo_record 9 ''INHERITED''], blocks = [demo_block 1 8, demo_block 2 9], groups = [], legacy = [], file_states = []\<rparr>\<rparr>"

definition demo_state_driver :: "state_db driver" where
  "demo_state_driver = \<lparr>commit_error = (\<lambda>c. None), rollback_error = (\<lambda>c. None)\<rparr>"

definition demo_state_connection :: "state_db connection" where
  "demo_state_connection = \<lparr>committed = demo_states, working = demo_states, is_closed = False\<rparr>"

definition demo_rejection :: "state_db connection" where
  "demo_rejection = snd (reject demo_state_driver (FileStateService demo_cov demo_physical ''t1'') ''t1'' 1 2 31 ''u'' 1 demo_state_connection)"

lemma demo_states_healthy: "healthy demo_physical demo_states"
proof -
  have "gate_ok demo_physical demo_states" by code_simp
  moreover have "domain_keys demo_states"
    by (auto simp: domain_keys_def keys_ok_def demo_states_def demo_manual_def demo_inherited_def demo_record_def demo_block_def get_block_def)
  ultimately show ?thesis by (simp add: healthy_def)
qed

lemma demo_facts: "facts_ok demo_physical"
  by code_simp

theorem rebuild_passes_gate_witness:
  "\<exists>s t. rebuild_validate_and_mark_ready_in_transaction demo_cov demo_physical ''t1'' 1 2 6 (Some [2]) (Some True) demo_states = (Inr s, t) \<and> projection_ready s"
proof -
  have "rebuildable demo_physical 1 2 6 (Some [2]) demo_states" by code_simp
  from rebuild_passes_gate [OF this, of demo_cov "''t1''" "Some True"] show ?thesis by blast
qed

theorem ready_projection_is_exact_witness:
  "map_option fs_counts (get_state 2 2 (committed demo_rejection)) = Some (grouped_counts demo_cov demo_physical (committed demo_rejection) (ph_files demo_physical ! 1))"
proof -
  let ?f = "ph_files demo_physical ! 1"
  let ?s = "\<lparr>ps_project = 1, ps_current_scan = Some 2, ps_data_version = 7, ps_file_state_version = 7, ps_updated = ''t1''\<rparr>"
  have f: "?f \<in> set (ph_files demo_physical)" "fl_scan ?f = 2" "fl_id ?f = 2" by (simp_all add: demo_physical_def)
  have "current_step demo_state_driver demo_cov demo_physical (\<lambda>c. c_comment c) demo_state_connection demo_rejection"
    unfolding demo_rejection_def by (rule current_reject) (rule prod.collapse [symmetric])
  then have "(current_step demo_state_driver demo_cov demo_physical (\<lambda>c. c_comment c))\<^sup>*\<^sup>* demo_state_connection demo_rejection" by simp
  moreover have "rollback_works demo_state_driver" "clean demo_state_connection" "healthy demo_physical (committed demo_state_connection)"
    using demo_states_healthy by (simp_all add: rollback_works_def clean_def demo_state_driver_def demo_state_connection_def)
  moreover have "ready_exact demo_cov demo_physical (committed demo_state_connection)"
    by (auto simp: ready_exact_def demo_state_connection_def demo_states_def state_get_def projection_ready_def split: if_splits)
  moreover have "state_get 1 (committed demo_rejection) = Some ?s" by code_simp
  moreover have "projection_ready ?s" by (simp add: projection_ready_def)
  moreover have "ps_current_scan ?s = Some (fl_scan ?f)" unfolding f(2) by simp
  ultimately have "map_option fs_counts (get_state (fl_scan ?f) (fl_id ?f) (committed demo_rejection)) = Some (grouped_counts demo_cov demo_physical (committed demo_rejection) ?f)"
    by (intro ready_projection_is_exact [OF _ _ demo_facts _ _ _ _ _ f(1)])
  then show ?thesis unfolding f(2,3) .
qed

theorem file_summary_agrees_witness:
  "fst (authoritative_file_summary demo_cov demo_physical demo_states 2 2) = grouped_counts demo_cov demo_physical demo_states (ph_files demo_physical ! 1)"
proof -
  let ?f = "ph_files demo_physical ! 1"
  have f: "?f \<in> set (ph_files demo_physical)" "fl_scan ?f = 2" "fl_id ?f = 2" by (simp_all add: demo_physical_def)
  have "\<forall>q \<in> set (line_links demo_states). ll_review_state q \<noteq> []" by (simp add: demo_states_def demo_manual_def demo_inherited_def)
  from file_summary_agrees [OF demo_facts f(1) this, of demo_cov] show ?thesis unfolding f(2,3) by (rule conjunct1)
qed

end
