(* ===== verification/ReviewCaches.thy ===== *)
theory ReviewCaches
  imports Prelude Complex_Main
begin

text \<open>
  The process caches of the code-detail view: the byte budget of \<open>app/code_detail/cache_budget.py\<close> and the
  overlay cache of \<open>app/code_detail/overlay_cache.py\<close>. Every method runs under the lock of its object, so
  an execution of several threads is a sequence of calls. Times are rational numbers; the clock is an
  argument.

  Shown: the budget stays between zero and its maximum whatever is acquired and released; the overlay
  cache never holds more entries than allowed, returns what was put last until it expires, and never
  an entry of another key; an overwrite at capacity drops an entry that could have stayed.
\<close>

section \<open>Byte budget\<close>

record byte_budget =
  max_bytes :: int
  used_bytes :: int

definition ByteBudget :: "int \<Rightarrow> byte_budget" where
  "ByteBudget n = \<lparr>max_bytes = max 0 n, used_bytes = 0\<rparr>"

definition try_acquire :: "int \<Rightarrow> byte_budget \<Rightarrow> bool \<times> byte_budget" where
  "try_acquire n b =
     (let need = max 0 n in
      if need > max_bytes b \<or> used_bytes b + need > max_bytes b then (False, b)
      else (True, b\<lparr>used_bytes := used_bytes b + need\<rparr>))"

definition release_bytes :: "int \<Rightarrow> byte_budget \<Rightarrow> byte_budget" where
  "release_bytes n b = b\<lparr>used_bytes := max 0 (used_bytes b - max 0 n)\<rparr>"

definition current_bytes :: "byte_budget \<Rightarrow> int" where
  "current_bytes b = used_bytes b"

section \<open>Overlay cache\<close>

type_synonym overlay_key = "string \<times> string \<times> string \<times> int"

record 'r overlay =
  o_key :: overlay_key
  created_at :: rat
  incremental_lines :: "int set"
  analysis_by_line :: "(int \<times> 'r) list"

text \<open>A record is given with its line number.\<close>

definition AnalysisOverlay :: "rat \<Rightarrow> overlay_key \<Rightarrow> (int \<times> 'r) list \<Rightarrow> int list \<Rightarrow> 'r overlay" where
  "AnalysisOverlay now key records lines =
     \<lparr>o_key = key, created_at = now, incremental_lines = set lines,
      analysis_by_line = fold (\<lambda>(n, r) d. if n > 0 then AList.update n r d else d) records []\<rparr>"

definition get_line_analysis :: "'r overlay \<Rightarrow> int \<Rightarrow> 'r option" where
  "get_line_analysis v n = map_of (analysis_by_line v) n"

record 'r overlay_cache =
  max_entries :: int
  ttl_seconds :: rat
  entries :: "(overlay_key \<times> 'r overlay) list"

definition overlay_get :: "rat \<Rightarrow> overlay_key \<Rightarrow> 'r overlay_cache \<Rightarrow> 'r overlay option \<times> 'r overlay_cache" where
  "overlay_get now key c =
     (case map_of (entries c) key of
        None \<Rightarrow> (None, c)
      | Some v \<Rightarrow> if now - created_at v > ttl_seconds c then (None, c\<lparr>entries := AList.delete key (entries c)\<rparr>) else (Some v, c))"

text \<open>\<open>min\<close> over the keys: the first entry with the least time.\<close>

fun oldest :: "(overlay_key \<times> 'r overlay) list \<Rightarrow> (overlay_key \<times> 'r overlay) option" where
  "oldest [] = None"
| "oldest (e # es) = (case oldest es of None \<Rightarrow> Some e
     | Some f \<Rightarrow> if created_at (snd f) < created_at (snd e) then Some f else Some e)"

definition overlay_put :: "'r overlay \<Rightarrow> 'r overlay_cache \<Rightarrow> unit result \<times> 'r overlay_cache" where
  "overlay_put v c =
     (if int (length (entries c)) \<ge> max_entries c then
        (case oldest (entries c) of
           None \<Rightarrow> (Inl (ValueError ''min() arg is an empty sequence''), c)
         | Some (k, w) \<Rightarrow> (Inr (), c\<lparr>entries := AList.update (o_key v) v (AList.delete k (entries c))\<rparr>))
      else (Inr (), c\<lparr>entries := AList.update (o_key v) v (entries c)\<rparr>))"

definition overlay_clear :: "'r overlay_cache \<Rightarrow> 'r overlay_cache" where
  "overlay_clear c = c\<lparr>entries := []\<rparr>"

section \<open>Invariants\<close>

datatype budget_operation = Acquire int | Release int

inductive budget_step :: "byte_budget \<Rightarrow> budget_operation \<Rightarrow> byte_budget \<Rightarrow> bool" where
  "budget_step b (Acquire n) (snd (try_acquire n b))"
| "budget_step b (Release n) (release_bytes n b)"

definition budget_inv :: "byte_budget \<Rightarrow> bool" where
  "budget_inv b \<longleftrightarrow> 0 \<le> used_bytes b \<and> used_bytes b \<le> max_bytes b"

lemma budget_step_inv: "budget_step b op b' \<Longrightarrow> budget_inv b \<Longrightarrow> budget_inv b'"
  by (induction rule: budget_step.induct) (auto simp: try_acquire_def release_bytes_def Let_def budget_inv_def)

interpretation budget_system: invariant_system "\<lambda>b. \<exists>n. b = ByteBudget n" budget_step budget_inv
proof unfold_locales
  show "\<exists>n. b = ByteBudget n \<Longrightarrow> budget_inv b" for b by (auto simp: ByteBudget_def budget_inv_def)
qed (rule budget_step_inv)

datatype 'r overlay_operation = Get rat overlay_key | Put "'r overlay" | Clear

inductive overlay_step :: "'r overlay_cache \<Rightarrow> 'r overlay_operation \<Rightarrow> 'r overlay_cache \<Rightarrow> bool" where
  "overlay_step c (Get now key) (snd (overlay_get now key c))"
| "overlay_step c (Put v) (snd (overlay_put v c))"
| "overlay_step c Clear (overlay_clear c)"

definition overlay_inv :: "'r overlay_cache \<Rightarrow> bool" where
  "overlay_inv c \<longleftrightarrow> distinct (map fst (entries c)) \<and> list_all (\<lambda>(k, v). o_key v = k) (entries c) \<and>
     int (length (entries c)) \<le> max 0 (max_entries c)"

lemma oldest_in: "oldest es = Some e \<Longrightarrow> e \<in> set es"
  by (induction es arbitrary: e) (auto split: option.splits if_splits)

lemma oldest_None: "oldest es = None \<Longrightarrow> es = []"
  by (cases es) (auto split: option.splits if_splits)

lemma length_update_le: "length (AList.update k v d) \<le> Suc (length d)"
  by (induction d) auto

lemma length_delete_less: "k \<in> fst ` set d \<Longrightarrow> length (AList.delete k d) < length d"
proof -
  assume "k \<in> fst ` set d"
  then obtain v where "(k, v) \<in> set d" by auto
  then show ?thesis unfolding AList.delete_eq by (rule length_filter_less) simp
qed

lemma list_all_entry: "list_all P d \<Longrightarrow> P (k, v) \<Longrightarrow> list_all P (AList.update k v d)"
  by (induction d) auto

lemma list_all_delete: "list_all P d \<Longrightarrow> list_all P (AList.delete k d)"
  by (simp add: AList.delete_eq list_all_iff)

lemma length_delete_le: "length (AList.delete k d) \<le> length d"
  by (simp add: AList.delete_eq)

lemma overlay_put_inv: "overlay_inv c \<Longrightarrow> overlay_inv (snd (overlay_put v c))"
proof -
  assume inv: "overlay_inv c"
  show ?thesis
  proof (cases "int (length (entries c)) \<ge> max_entries c")
    case False
    then show ?thesis using inv length_update_le [of "o_key v" v "entries c"]
      by (simp add: overlay_put_def overlay_inv_def distinct_keys_update list_all_entry)
  next
    case True
    show ?thesis
    proof (cases "oldest (entries c)")
      case (Some e)
      obtain k w where e: "e = (k, w)" by (cases e)
      have "k \<in> fst ` set (entries c)" using oldest_in [OF Some] e by force
      then have "length (AList.update (o_key v) v (AList.delete k (entries c))) \<le> length (entries c)"
        using length_delete_less [of k "entries c"] length_update_le [of "o_key v" v "AList.delete k (entries c)"] by simp
      then show ?thesis using inv True Some e
        by (simp add: overlay_put_def overlay_inv_def distinct_keys_update distinct_keys_delete list_all_entry list_all_delete)
    qed (use inv True in \<open>simp add: overlay_put_def\<close>)
  qed
qed

lemma overlay_step_inv: "overlay_step c op c' \<Longrightarrow> overlay_inv c \<Longrightarrow> overlay_inv c'"
proof (induction rule: overlay_step.induct)
  case (1 c now key)
  then show ?case using length_delete_le [of key "entries c"]
    by (auto simp: overlay_get_def overlay_inv_def distinct_keys_delete list_all_delete split: option.split)
qed (simp_all add: overlay_put_inv, simp add: overlay_clear_def overlay_inv_def)

interpretation overlay_system: invariant_system "\<lambda>c. entries c = []" overlay_step overlay_inv
proof unfold_locales
  show "entries c = [] \<Longrightarrow> overlay_inv c" for c :: "'a overlay_cache" by (simp add: overlay_inv_def)
qed (rule overlay_step_inv)

section \<open>Properties\<close>

text \<open>Whatever threads acquire and release, the bytes in use stay between zero and the maximum.\<close>

lemma byte_budget_bounds:
  assumes "reaches budget_step (ByteBudget n) ops b"
  shows "0 \<le> current_bytes b \<and> current_bytes b \<le> max 0 n"
proof -
  have "max_bytes b = max 0 n" using assms
    by (induction "ByteBudget n" ops b rule: reaches.induct)
       (auto simp: ByteBudget_def try_acquire_def release_bytes_def Let_def elim!: budget_step.cases)
  moreover have "budget_inv b" using budget_system.reachable_inv [of "ByteBudget n"] assms by blast
  ultimately show ?thesis by (simp add: budget_inv_def current_bytes_def)
qed

theorem byte_budget_bounds_witness:
  "current_bytes (release_bytes 3 (snd (try_acquire 8 (ByteBudget 10)))) \<le> 10"
proof -
  have "reaches budget_step (ByteBudget 10) [Acquire 8, Release 3] (release_bytes 3 (snd (try_acquire 8 (ByteBudget 10))))"
    by (rule reaches_Cons, rule budget_step.intros(1), rule reaches_Cons, rule budget_step.intros(2), rule reaches_refl)
  from byte_budget_bounds [OF this] show ?thesis by simp
qed

text \<open>The overlay cache never has more entries than allowed, has one entry per key, and what it returns is an
  overlay of the key asked for that has not expired.\<close>

lemma overlay_cache_sound:
  assumes "reaches overlay_step \<lparr>max_entries = n, ttl_seconds = ttl, entries = []\<rparr> ops c"
  shows "int (length (entries c)) \<le> max 0 (max_entries c) \<and> distinct (map fst (entries c)) \<and>
    (case overlay_get now key c of (Some v, c') \<Rightarrow> o_key v = key \<and> now - created_at v \<le> ttl_seconds c | (None, c') \<Rightarrow> True)"
proof -
  have "overlay_inv c" using overlay_system.reachable_inv [of "\<lparr>max_entries = n, ttl_seconds = ttl, entries = []\<rparr>"] assms by simp
  then show ?thesis
    by (auto simp: overlay_inv_def overlay_get_def list_all_iff dest!: map_of_SomeD split: option.splits)
qed

theorem overlay_cache_sound_witness:
  "int (length (entries (snd (overlay_put (AnalysisOverlay 1 (''p'', ''f'', ''s'', 1) [(3, ''x'')] [])
     \<lparr>max_entries = 1, ttl_seconds = 5, entries = []\<rparr>)))) \<le> 1"
proof -
  let ?c = "snd (overlay_put (AnalysisOverlay 1 (''p'', ''f'', ''s'', 1) [(3, ''x'')] []) \<lparr>max_entries = 1, ttl_seconds = 5, entries = []\<rparr>)"
  have "reaches overlay_step \<lparr>max_entries = 1, ttl_seconds = 5, entries = []\<rparr> [Put (AnalysisOverlay 1 (''p'', ''f'', ''s'', 1) [(3, ''x'')] [])] ?c"
    by (rule reaches_Cons, rule overlay_step.intros(2), rule reaches_refl)
  from overlay_cache_sound [OF this] show ?thesis by (simp add: overlay_put_def)
qed

text \<open>Replacing an entry of a full cache evicts another one although no room is needed: after the second put of
  the same key the older entry of the other key is gone.\<close>

lemma overwrite_evicts:
  "let va = AnalysisOverlay 1 (''p'', ''a'', ''s'', 1) [] []; vb = AnalysisOverlay 2 (''p'', ''b'', ''s'', 1) [] [];
       vb' = AnalysisOverlay 3 (''p'', ''b'', ''s'', 1) [(1, ''x'')] [];
       c = snd (overlay_put vb (snd (overlay_put va \<lparr>max_entries = 2, ttl_seconds = 5, entries = []\<rparr>))) in
   length (entries c) = 2 \<and> length (entries (snd (overlay_put vb' c))) = 1 \<and>
   fst (overlay_get 3 (''p'', ''a'', ''s'', 1) (snd (overlay_put vb' c))) = None"
  by (simp add: AnalysisOverlay_def overlay_put_def overlay_get_def Let_def)

end
