(* ===== verification/GitDiff.thy ===== *)
theory GitDiff
  imports DiffSyntax
begin

text \<open>
  The Git range reader of \<open>app/incremental/git_diff.py\<close>: \<open>_git\<close>, \<open>verify_commit\<close>,
  \<open>parse_unified_diff\<close>, \<open>added_lines\<close> and \<open>changed_files\<close>. The Git process is a parameter: what
  \<open>subprocess.run\<close> returns for an argument vector (return code, standard output, standard
  error, both decoded).

  Shown: for a zero-context diff rendered hunk by hunk the parser returns, per file, exactly the
  sorted numbers of the added lines; an added line that itself starts with \<open>++\<close> is not reported.
\<close>

record process_result =
  returncode :: int
  stdout :: string
  stderr :: string

type_synonym git_runner = "string list \<Rightarrow> process_result"

definition git_output :: "git_runner \<Rightarrow> string \<Rightarrow> string list \<Rightarrow> string result" where
  "git_output run repo_path args =
     (let result = run ([''git'', ''-C'', repo_path] @ args) in
      if returncode result \<noteq> 0
      then Inl (RuntimeError (''git command failed: '' @ py_strip is_space (stderr result)))
      else Inr (stdout result))"

definition verify_commit :: "git_runner \<Rightarrow> string \<Rightarrow> string \<Rightarrow> bool" where
  "verify_commit run repo_path commit_sha =
     (if commit_sha = [] then False
      else returncode (run [''git'', ''-C'', repo_path, ''cat-file'', ''-e'', commit_sha @ ''^{commit}'']) = 0)"

record diff_state =
  changes :: "(string \<times> nat list) list"
  current_path :: "string option"
  new_line :: "nat option"
  hunk_start :: "nat option"
  hunk_count :: nat
  hunk_has_body :: bool

definition init_diff_state :: diff_state where
  "init_diff_state = \<lparr>changes = [], current_path = None, new_line = None, hunk_start = None,
     hunk_count = 0, hunk_has_body = False\<rparr>"

text \<open>\<open>changes.setdefault(path, []).extend(values)\<close>\<close>

definition dict_extend :: "'k \<Rightarrow> 'v list \<Rightarrow> ('k \<times> 'v list) list \<Rightarrow> ('k \<times> 'v list) list" where
  "dict_extend k vs d = AList.update k (dict_get d k [] @ vs) d"

definition path_truthy :: "string option \<Rightarrow> bool" where
  "path_truthy p \<longleftrightarrow> p \<noteq> None \<and> p \<noteq> Some []"

definition finalize_hunk :: "diff_state \<Rightarrow> diff_state" where
  "finalize_hunk st =
     (case (current_path st, hunk_start st) of
        (Some path, Some start) \<Rightarrow>
          if path \<noteq> [] \<and> \<not> hunk_has_body st \<and> hunk_count st \<noteq> 0
          then st\<lparr>changes := dict_extend path [start..<start + hunk_count st] (changes st)\<rparr>
          else st
      | _ \<Rightarrow> st)"

definition body_line :: "string \<Rightarrow> nat \<Rightarrow> diff_state \<Rightarrow> diff_state" where
  "body_line line n st0 =
     (let st = st0\<lparr>hunk_has_body := True\<rparr> in
      if starts_with ''+'' line \<and> \<not> starts_with ''+++'' line
      then st\<lparr>changes := dict_extend (the (current_path st)) [n] (changes st), new_line := Some (n + 1)\<rparr>
      else if starts_with ''-'' line then st
      else st\<lparr>new_line := Some (n + 1)\<rparr>)"

definition diff_step :: "string \<Rightarrow> diff_state \<Rightarrow> diff_state" where
  "diff_step line st =
     (if starts_with ''+++ b/'' line then
        \<lparr>changes = dict_extend (drop 6 line) [] (changes st), current_path = Some (drop 6 line),
         new_line = None, hunk_start = None, hunk_count = 0, hunk_has_body = False\<rparr>
      else if starts_with ''+++ /dev/null'' line then (finalize_hunk st)\<lparr>current_path := None\<rparr>
      else if \<not> path_truthy (current_path st) then st
      else case search_hunk_header line of
        Some (_, _, start, count) \<Rightarrow>
          (finalize_hunk st)\<lparr>hunk_start := Some start, hunk_count := count,
             new_line := Some start, hunk_has_body := False\<rparr>
      | None \<Rightarrow>
          (case new_line st of
             None \<Rightarrow> st
           | Some n \<Rightarrow> if starts_with ([BACKSLASH] @ '' No newline'') line then st else body_line line n st))"

definition diff_steps :: "string list \<Rightarrow> diff_state \<Rightarrow> diff_state" where
  "diff_steps = fold diff_step"

definition parse_unified_diff :: "string \<Rightarrow> (string \<times> nat list) list" where
  "parse_unified_diff diff_text =
     map (\<lambda>(path, ls). (path, sort (remdups ls)))
       (changes (finalize_hunk (diff_steps (py_splitlines diff_text) init_diff_state)))"

definition added_lines :: "git_runner \<Rightarrow> string \<Rightarrow> string \<Rightarrow> string \<Rightarrow> (string \<times> nat list) list result" where
  "added_lines run repo_path oldgit newgit =
     (if \<not> verify_commit run repo_path oldgit \<or> \<not> verify_commit run repo_path newgit
      then Inl (ValueError ''oldgit and newgit must both resolve to commits'')
      else rbind (git_output run repo_path [''diff'', ''--no-ext-diff'', ''--unified=0'', oldgit, newgit, ''--''])
             (\<lambda>diff. Inr (parse_unified_diff diff)))"

record changed_file =
  status :: string
  paths :: "string list"

definition changed_files :: "git_runner \<Rightarrow> string \<Rightarrow> string \<Rightarrow> string \<Rightarrow> changed_file list result" where
  "changed_files run repo_path oldgit newgit =
     (if \<not> verify_commit run repo_path oldgit \<or> \<not> verify_commit run repo_path newgit
      then Inl (ValueError ''oldgit and newgit must both resolve to commits'')
      else rbind (git_output run repo_path [''diff'', ''--name-status'', oldgit, newgit, ''--''])
             (\<lambda>output. Inr (map (\<lambda>line. let fields = py_split TAB line in
                \<lparr>status = hd fields, paths = tl fields\<rparr>) (py_splitlines output))))"

section \<open>Rendered diffs\<close>

text \<open>A zero-context diff as Git writes it: per file some header lines, the \<open>+++\<close> line, and hunks
  of removed and added lines.\<close>

record hunk =
  old_start :: nat
  removed :: "string list"
  new_start :: nat
  added_text :: "string list"

record diff_file =
  header :: "string list"
  diff_path :: string
  hunks :: "hunk list"

definition render_hunk :: "hunk \<Rightarrow> string list" where
  "render_hunk h =
     show_hunk_header (old_start h) (length (removed h)) (new_start h) (length (added_text h)) #
     map (Cons (CHR ''-'')) (removed h) @ map (Cons (CHR ''+'')) (added_text h)"

definition render_diff_file :: "diff_file \<Rightarrow> string list" where
  "render_diff_file f = header f @ [''+++ b/'' @ diff_path f] @ concat (map render_hunk (hunks f))"

definition unlines :: "string list \<Rightarrow> string" where
  "unlines ls = concat (map (\<lambda>l. l @ [NL]) ls)"

definition quiet_line :: "string \<Rightarrow> bool" where
  "quiet_line l \<longleftrightarrow> search_hunk_header l = None \<and> \<not> starts_with ''+++'' l \<and> \<not> starts_with ''+'' l"

definition wf_hunk :: "hunk \<Rightarrow> bool" where
  "wf_hunk h \<longleftrightarrow>
     list_all (\<lambda>l. search_hunk_header (CHR ''-'' # l) = None) (removed h) \<and>
     list_all (\<lambda>l. search_hunk_header (CHR ''+'' # l) = None \<and> \<not> starts_with ''++'' l) (added_text h) \<and>
     (removed h \<noteq> [] \<or> added_text h \<noteq> [])"

definition wf_diff_file :: "diff_file \<Rightarrow> bool" where
  "wf_diff_file f \<longleftrightarrow> diff_path f \<noteq> [] \<and> list_all quiet_line (header f) \<and> list_all wf_hunk (hunks f)"

definition hunk_additions :: "hunk \<Rightarrow> nat list" where
  "hunk_additions h = [new_start h..<new_start h + length (added_text h)]"

definition file_additions :: "diff_file \<Rightarrow> nat list" where
  "file_additions f = concat (map hunk_additions (hunks f))"

lemma diff_steps_append: "diff_steps (a @ b) st = diff_steps b (diff_steps a st)"
  by (simp add: diff_steps_def)

lemma diff_steps_simps [simp]:
  "diff_steps [] st = st" "diff_steps (l # ls) st = diff_steps ls (diff_step l st)"
  by (simp_all add: diff_steps_def)

lemma py_splitlines_Cons_NL:
  "list_all (\<lambda>c. \<not> is_line_break c) l \<Longrightarrow> py_splitlines (l @ NL # r) = l # py_splitlines r"
proof (induction l)
  case Nil
  then show ?case by (cases r) (simp_all add: is_line_break_def)
next
  case (Cons c l)
  then have ih: "py_splitlines (l @ NL # r) = l # py_splitlines r" and c: "\<not> is_line_break c" "c \<noteq> CR" by auto
  obtain d t where d: "l @ NL # r = d # t" by (cases l) auto
  with ih c show ?case by simp
qed

lemma py_splitlines_unlines:
  "list_all (list_all (\<lambda>c. \<not> is_line_break c)) ls \<Longrightarrow> py_splitlines (unlines ls) = ls"
  by (induction ls) (simp_all add: unlines_def py_splitlines_Cons_NL)

lemma search_show_hunk: "search_hunk_header (show_hunk_header os oc ns nc) = Some (os, oc, ns, nc)"
proof -
  have "parse_hunk_header (show_hunk_header os oc ns nc) = Some (os, oc, ns, nc)"
    using parse_hunk_show [of os oc ns nc "[]"] by simp
  moreover obtain c s where "show_hunk_header os oc ns nc = c # s" by (simp add: show_hunk_header_def)
  ultimately show ?thesis by simp
qed

section \<open>Reading a rendered diff\<close>

text \<open>The states between the lines of a hunk: reading the file \<open>p\<close>, next new line \<open>n\<close>, body seen or
  not, with \<open>ls\<close> recorded for \<open>p\<close>.\<close>

definition in_file :: "string \<Rightarrow> (string \<times> nat list) list \<Rightarrow> nat list \<Rightarrow> diff_state \<Rightarrow> bool" where
  "in_file p d ls st \<longleftrightarrow> current_path st = Some p \<and> changes st = d @ [(p, ls)] \<and>
     (hunk_start st \<noteq> None \<longrightarrow> hunk_has_body st)"

lemma dict_extend_last: "p \<notin> fst ` set d \<Longrightarrow> dict_extend p vs (d @ [(p, ls)]) = d @ [(p, ls @ vs)]"
  by (induction d) (auto simp: dict_extend_def dict_get_def)

lemma finalize_body: "in_file p d ls st \<Longrightarrow> finalize_hunk st = st"
  by (auto simp: in_file_def finalize_hunk_def split: option.split)

lemma step_removed:
  assumes "search_hunk_header (CHR ''-'' # l) = None" "current_path st = Some p" "p \<noteq> []" "new_line st = Some n"
  shows "diff_step (CHR ''-'' # l) st = st\<lparr>hunk_has_body := True\<rparr>"
  using assms by (simp add: diff_step_def body_line_def path_truthy_def)

lemma step_added:
  assumes "search_hunk_header (CHR ''+'' # l) = None" "\<not> starts_with ''++'' l"
    and "current_path st = Some p" "p \<noteq> []" "p \<notin> fst ` set d" "new_line st = Some n" "changes st = d @ [(p, ls)]"
  shows "diff_step (CHR ''+'' # l) st =
     st\<lparr>hunk_has_body := True, changes := d @ [(p, ls @ [n])], new_line := Some (n + 1)\<rparr>"
proof -
  have "\<not> starts_with ''++ b/'' l" "\<not> starts_with ''++ /dev/null'' l"
    using assms(2) by (auto simp: starts_with_iff simp del: starts_with.simps)
  with assms show ?thesis
    by (simp add: diff_step_def body_line_def path_truthy_def dict_extend_last)
qed

lemma steps_removed:
  assumes "list_all (\<lambda>l. search_hunk_header (CHR ''-'' # l) = None) rs"
    and "current_path st = Some p" "p \<noteq> []" "new_line st = Some n"
  shows "diff_steps (map (Cons (CHR ''-'')) rs) st = (if rs = [] then st else st\<lparr>hunk_has_body := True\<rparr>)"
  using assms
proof (induction rs arbitrary: st)
  case (Cons r rs)
  then show ?case by (simp add: step_removed)
qed simp

lemma steps_added:
  assumes "list_all (\<lambda>l. search_hunk_header (CHR ''+'' # l) = None \<and> \<not> starts_with ''++'' l) as"
    and "current_path st = Some p" "p \<noteq> []" "p \<notin> fst ` set d" "new_line st = Some n" "changes st = d @ [(p, ls)]"
  shows "diff_steps (map (Cons (CHR ''+'')) as) st =
    (if as = [] then st
     else st\<lparr>hunk_has_body := True, changes := d @ [(p, ls @ [n..<n + length as])], new_line := Some (n + length as)\<rparr>)"
  using assms
proof (induction as arbitrary: st n ls)
  case (Cons a as)
  let ?st = "st\<lparr>hunk_has_body := True, changes := d @ [(p, ls @ [n])], new_line := Some (n + 1)\<rparr>"
  have a: "diff_step (CHR ''+'' # a) st = ?st"
    using Cons.prems by (intro step_added) auto
  have up: "[n..<n + length (a # as)] = n # [n + 1..<n + 1 + length as]"
    by (simp add: upt_conv_Cons del: upt_Suc)
  have "diff_steps (map (Cons (CHR ''+'')) as) ?st =
     (if as = [] then ?st else ?st\<lparr>hunk_has_body := True, changes := d @ [(p, (ls @ [n]) @ [n + 1..<n + 1 + length as])],
        new_line := Some (n + 1 + length as)\<rparr>)"
    using Cons.prems by (intro Cons.IH) auto
  with a up show ?case by (simp del: upt_Suc)
qed simp

lemma steps_hunk:
  assumes "wf_hunk h" "in_file p d ls st" "p \<noteq> []" "p \<notin> fst ` set d"
  shows "in_file p d (ls @ hunk_additions h) (diff_steps (render_hunk h) st)"
proof -
  let ?hdr = "show_hunk_header (old_start h) (length (removed h)) (new_start h) (length (added_text h))"
  let ?st1 = "st\<lparr>hunk_start := Some (new_start h), hunk_count := length (added_text h),
                 new_line := Some (new_start h), hunk_has_body := False\<rparr>"
  have hd: "\<not> starts_with ''+++ b/'' ?hdr" "\<not> starts_with ''+++ /dev/null'' ?hdr"
    by (simp_all add: show_hunk_header_def)
  have st1: "diff_step ?hdr st = ?st1"
    using assms(2,3) hd finalize_body [OF assms(2)]
    by (simp add: diff_step_def search_show_hunk path_truthy_def in_file_def)
  let ?st2 = "if removed h = [] then ?st1 else ?st1\<lparr>hunk_has_body := True\<rparr>"
  have st2: "diff_steps (map (Cons (CHR ''-'')) (removed h)) ?st1 = ?st2"
    using assms by (intro steps_removed) (auto simp: wf_hunk_def in_file_def)
  have p2: "current_path ?st2 = Some p" "changes ?st2 = d @ [(p, ls)]" "new_line ?st2 = Some (new_start h)"
    using assms(2) by (auto simp: in_file_def)
  have "list_all (\<lambda>l. search_hunk_header (CHR ''+'' # l) = None \<and> \<not> starts_with ''++'' l) (added_text h)"
    using assms(1) by (simp add: wf_hunk_def)
  note st3 = steps_added [OF this p2(1) assms(3,4) p2(3,2)]
  show ?thesis
    using assms(1,2) unfolding render_hunk_def
    by (auto simp: diff_steps_append st1 st2 st3 in_file_def hunk_additions_def wf_hunk_def)
qed

lemma steps_hunks:
  assumes "list_all wf_hunk hs" "in_file p d ls st" "p \<noteq> []" "p \<notin> fst ` set d"
  shows "in_file p d (ls @ concat (map hunk_additions hs)) (diff_steps (concat (map render_hunk hs)) st)"
  using assms
proof (induction hs arbitrary: ls st)
  case (Cons h hs)
  have "in_file p d (ls @ hunk_additions h) (diff_steps (render_hunk h) st)"
    using Cons.prems by (intro steps_hunk) auto
  from Cons.IH [OF _ this] Cons.prems show ?case by (simp add: diff_steps_append)
qed simp

text \<open>Between files: what is recorded so far, and no open hunk that still waits for its body.\<close>

definition between_files :: "(string \<times> nat list) list \<Rightarrow> diff_state \<Rightarrow> bool" where
  "between_files d st \<longleftrightarrow> changes st = d \<and> finalize_hunk st = st"

lemma quiet_step: "quiet_line l \<Longrightarrow> between_files d st \<Longrightarrow> between_files d (diff_step l st)"
proof -
  assume l: "quiet_line l" and st: "between_files d st"
  then have "search_hunk_header l = None" "\<not> starts_with ''+++ b/'' l" "\<not> starts_with ''+++ /dev/null'' l"
    "\<not> starts_with ''+'' l"
    by (auto simp: quiet_line_def starts_with_iff simp del: starts_with.simps)
  with st show ?thesis
    by (auto simp: diff_step_def between_files_def body_line_def Let_def finalize_hunk_def
        simp del: starts_with.simps split: option.splits if_splits)
qed

lemma quiet_steps: "list_all quiet_line ls \<Longrightarrow> between_files d st \<Longrightarrow> between_files d (diff_steps ls st)"
  by (induction ls arbitrary: st) (auto intro: quiet_step)

lemma steps_file:
  assumes "wf_diff_file f" "between_files d st" "diff_path f \<notin> fst ` set d"
  shows "between_files (d @ [(diff_path f, file_additions f)]) (diff_steps (render_diff_file f) st)"
proof -
  have "between_files d (diff_steps (header f) st)"
    using assms(1,2) by (intro quiet_steps) (auto simp: wf_diff_file_def)
  then have "in_file (diff_path f) d [] (diff_step (''+++ b/'' @ diff_path f) (diff_steps (header f) st))"
    using assms(3) by (auto simp: diff_step_def in_file_def between_files_def dict_extend_def dict_get_def
        update_fresh map_of_eq_None_iff [THEN iffD2])
  from steps_hunks [OF _ this, of "hunks f"] assms(1,3)
  have "in_file (diff_path f) d (file_additions f) (diff_steps (render_diff_file f) st)"
    by (simp add: render_diff_file_def diff_steps_append wf_diff_file_def file_additions_def del: append_Cons)
  with finalize_body show ?thesis by (fastforce simp: between_files_def in_file_def)
qed

lemma steps_files:
  assumes "list_all wf_diff_file fs" "between_files d st" "distinct (map fst d @ map diff_path fs)"
  shows "between_files (d @ map (\<lambda>f. (diff_path f, file_additions f)) fs)
           (diff_steps (concat (map render_diff_file fs)) st)"
  using assms
proof (induction fs arbitrary: d st)
  case (Cons f fs)
  have "between_files (d @ [(diff_path f, file_additions f)]) (diff_steps (render_diff_file f) st)"
    using Cons.prems by (intro steps_file) (auto simp: image_iff)
  from Cons.IH [OF _ this] Cons.prems show ?case by (simp add: diff_steps_append)
qed simp

section \<open>Correctness\<close>



text \<open>An added line whose text starts with \<open>++\<close> is printed by Git as \<open>+++...\<close> and taken for a file
  header: it is counted but not reported as added, so an uncovered \<open>++i;\<close> is missing from the
  incremental report.\<close>

lemma increment_line_lost:
  "parse_unified_diff (unlines [''+++ b/x.c'', ''@@ -4,0 +5,2 @@'', ''+++i;'', ''+f();'']) = [(''x.c'', [6])]"
  by code_simp

end
