(* ===== verification/PathIndex.thy ===== *)
theory PathIndex
  imports Prelude
begin

text \<open>
  The LCOV path lookup of \<open>app/incremental/path_index.py\<close> (\<open>normalize_lcov_path\<close>,
  \<open>LCOVPathLookupIndex\<close>) and the metadata lookup of \<open>app/incremental/service.py\<close>
  (\<open>IncrementalService\<close>). The set-valued tables of the index are association lists of
  duplicate-free lists.

  Shown: what each table holds, that a path is resolved only within its repository and only
  when the match is unique, that a parent traversal never resolves, and that the cached index
  of \<open>IncrementalService\<close> is the index of the mapping it was built from.
\<close>

abbreviation SLASH :: char where "SLASH \<equiv> CHR ''/''"

definition path_parts :: "string \<Rightarrow> string list" where
  "path_parts path =
     (let clean = py_lstrip (\<lambda>c. c = SLASH)
            (py_strip is_space (map (\<lambda>c. if c = BACKSLASH then SLASH else c) path))
      in filter (\<lambda>p. p \<noteq> [] \<and> p \<noteq> ''.'') (py_split SLASH clean))"

definition normalize_lcov_path :: "string \<Rightarrow> string result" where
  "normalize_lcov_path path =
     (if ''..'' \<in> set (path_parts path)
      then Inl (ValueError ''LCOV path contains a parent traversal segment'')
      else Inr (py_join [SLASH] (path_parts path)))"

record repo_index =
  exact :: "(string \<times> string) list"
  normalized :: "(string \<times> string list) list"
  suffix_of :: "(string \<times> string list) list"
  basename :: "(string \<times> string list) list"

definition empty_index :: repo_index where
  "empty_index = \<lparr>exact = [], normalized = [], suffix_of = [], basename = []\<rparr>"

text \<open>The joined suffixes of a normalised path with at least two components, longest first.\<close>

definition path_suffixes :: "string \<Rightarrow> string list" where
  "path_suffixes norm =
     (let parts = py_split SLASH norm
      in map (\<lambda>i. py_join [SLASH] (drop i parts)) [0..<length parts - 1])"

definition base_name :: "string \<Rightarrow> string" where
  "base_name norm = last (py_split SLASH norm)"

definition index_path :: "string \<Rightarrow> repo_index \<Rightarrow> repo_index" where
  "index_path p idx =
     (case normalize_lcov_path p of
        Inl _ \<Rightarrow> idx
      | Inr norm \<Rightarrow>
          if norm = [] then idx
          else \<lparr>exact = AList.update p p (exact idx),
                normalized = dict_add norm p (normalized idx),
                suffix_of = fold (\<lambda>suf d. dict_add suf p d) (path_suffixes norm) (suffix_of idx),
                basename = dict_add (base_name norm) p (basename idx)\<rparr>)"

definition build_single_repo_index :: "string list \<Rightarrow> repo_index" where
  "build_single_repo_index paths = fold index_path paths empty_index"

type_synonym path_index = "(string \<times> repo_index) list"

definition LCOVPathLookupIndex :: "(string \<times> string list) list \<Rightarrow> path_index" where
  "LCOVPathLookupIndex repo_target_paths =
     map (\<lambda>(repo_name, paths). (repo_name, build_single_repo_index paths)) repo_target_paths"

text \<open>The loop over the query's suffixes.\<close>

fun find_suffix :: "(string \<times> string list) list \<Rightarrow> string list \<Rightarrow> (string option \<times> string) option" where
  "find_suffix table [] = None"
| "find_suffix table (suf # sufs) =
     (case map_of table suf of
        None \<Rightarrow> find_suffix table sufs
      | Some candidates \<Rightarrow>
          (case candidates of [p] \<Rightarrow> Some (Some p, ''unique_suffix'')
           | _ \<Rightarrow> Some (None, ''ambiguous_suffix'')))"

definition resolve_path :: "path_index \<Rightarrow> string \<Rightarrow> string \<Rightarrow> string option \<times> string" where
  "resolve_path index repo_name query_path =
     (case map_of index repo_name of
        None \<Rightarrow> (None, ''repo_not_found'')
      | Some idx \<Rightarrow>
        (case map_of (exact idx) query_path of
           Some p \<Rightarrow> (Some p, ''exact'')
         | None \<Rightarrow>
           (case normalize_lcov_path query_path of
              Inl _ \<Rightarrow> (None, ''invalid_path'')
            | Inr norm \<Rightarrow>
              if norm = [] then (None, ''invalid_path'')
              else case map_of (normalized idx) norm of
                Some candidates \<Rightarrow>
                  (case candidates of [p] \<Rightarrow> (Some p, ''normalized'')
                   | _ \<Rightarrow> (None, ''ambiguous_normalized''))
              | None \<Rightarrow>
                (case find_suffix (suffix_of idx) (path_suffixes norm) of
                   Some r \<Rightarrow> r
                 | None \<Rightarrow>
                   if map_of (basename idx) (base_name norm) \<noteq> None
                   then (None, ''basename_only_rejected'') else (None, ''miss'')))))"

section \<open>IncrementalService\<close>

text \<open>A mapping object is its identity and its contents; the cache keeps the object it indexed.\<close>

type_synonym 'v mapping_object = "nat \<times> (string \<times> 'v) list"
type_synonym 'v mapping_indexes = "((nat \<times> string) \<times> ('v mapping_object \<times> path_index)) list"

definition mapping_index :: "'v mapping_object \<Rightarrow> string \<Rightarrow> path_index" where
  "mapping_index mapping repo_name = LCOVPathLookupIndex [(repo_name, map fst (snd mapping))]"

definition prepare_mapping ::
  "'v mapping_indexes \<Rightarrow> 'v mapping_object option \<Rightarrow> string \<Rightarrow> path_index option \<times> 'v mapping_indexes" where
  "prepare_mapping cache mapping repo_name =
     (case mapping of
        None \<Rightarrow> (None, cache)
      | Some obj \<Rightarrow>
          if snd obj = [] then (None, cache)
          else case map_of cache (fst obj, repo_name) of
            Some (cached, index) \<Rightarrow>
              if fst cached = fst obj then (Some index, cache)
              else (Some (mapping_index obj repo_name),
                    AList.update (fst obj, repo_name) (obj, mapping_index obj repo_name) cache)
          | None \<Rightarrow>
              (Some (mapping_index obj repo_name),
               AList.update (fst obj, repo_name) (obj, mapping_index obj repo_name) cache))"

definition resolve_mapping_value ::
  "'v mapping_indexes \<Rightarrow> string \<Rightarrow> 'v mapping_object option \<Rightarrow> string \<Rightarrow> path_index option
   \<Rightarrow> ('v option \<times> string) \<times> 'v mapping_indexes" where
  "resolve_mapping_value cache query_path mapping repo_name given =
     (case mapping of
        None \<Rightarrow> ((None, ''empty''), cache)
      | Some obj \<Rightarrow>
          if snd obj = [] then ((None, ''empty''), cache)
          else
            let (index, cache') =
              (case given of Some i \<Rightarrow> (i, cache)
               | None \<Rightarrow> (case prepare_mapping cache mapping repo_name of
                    (Some i, c) \<Rightarrow> (i, c) | (None, c) \<Rightarrow> ([], c)))
            in case resolve_path index repo_name query_path of
                 (None, match_type) \<Rightarrow> ((None, match_type), cache')
               | (Some p, match_type) \<Rightarrow> ((map_of (snd obj) p, match_type), cache'))"

section \<open>What the tables hold\<close>

definition keys_of :: "(string \<Rightarrow> string list) \<Rightarrow> string \<Rightarrow> string list" where
  "keys_of f p = (case normalize_lcov_path p of Inl _ \<Rightarrow> [] | Inr n \<Rightarrow> if n = [] then [] else f n)"

text \<open>A table lists under each key exactly the paths that have it.\<close>

definition table_of :: "string list \<Rightarrow> (string \<Rightarrow> string list) \<Rightarrow> (string \<times> string list) list \<Rightarrow> bool" where
  "table_of paths f d \<longleftrightarrow>
     (\<forall>k. case map_of d k of
        None \<Rightarrow> (\<forall>p \<in> set paths. k \<notin> set (keys_of f p))
      | Some vs \<Rightarrow> vs \<noteq> [] \<and> distinct vs \<and> set vs = {p \<in> set paths. k \<in> set (keys_of f p)})"

lemma set_add_twice: "set_add v (set_add v vs) = set_add v vs"
  by (simp add: set_add_def)

lemma map_of_fold_dict_add:
  "map_of (fold (\<lambda>k d. dict_add k p d) ks d) k =
     (if k \<in> set ks then Some (set_add p (case map_of d k of None \<Rightarrow> [] | Some vs \<Rightarrow> vs)) else map_of d k)"
  by (induction ks arbitrary: d) (auto simp: map_of_dict_add set_add_twice)

lemma table_of_step:
  assumes "table_of paths f d"
  shows "table_of (paths @ [p]) f (fold (\<lambda>k d. dict_add k p d) (keys_of f p) d)"
  unfolding table_of_def
proof
  fix k
  have set_add_ne: "set_add p vs \<noteq> []" for vs by (cases vs) (simp_all add: set_add_def)
  show "case map_of (fold (\<lambda>k d. dict_add k p d) (keys_of f p) d) k of
      None \<Rightarrow> \<forall>q \<in> set (paths @ [p]). k \<notin> set (keys_of f q)
    | Some vs \<Rightarrow> vs \<noteq> [] \<and> distinct vs \<and> set vs = {q \<in> set (paths @ [p]). k \<in> set (keys_of f q)}"
    using assms [unfolded table_of_def, THEN spec [of _ k]] set_add_ne
    by (auto simp: map_of_fold_dict_add split: option.splits)
qed

lemma index_path_tables:
  "normalized (index_path p idx) = fold (\<lambda>k d. dict_add k p d) (keys_of (\<lambda>n. [n]) p) (normalized idx)"
  "suffix_of (index_path p idx) = fold (\<lambda>k d. dict_add k p d) (keys_of path_suffixes p) (suffix_of idx)"
  "basename (index_path p idx) = fold (\<lambda>k d. dict_add k p d) (keys_of (\<lambda>n. [base_name n]) p) (basename idx)"
  by (auto simp: index_path_def keys_of_def split: sum.split)

lemma build_snoc: "build_single_repo_index (paths @ [p]) = index_path p (build_single_repo_index paths)"
  by (simp add: build_single_repo_index_def)

lemma build_tables:
  "table_of paths (\<lambda>n. [n]) (normalized (build_single_repo_index paths)) \<and>
   table_of paths path_suffixes (suffix_of (build_single_repo_index paths)) \<and>
   table_of paths (\<lambda>n. [base_name n]) (basename (build_single_repo_index paths))"
proof (induction paths rule: rev_induct)
  case Nil
  then show ?case by (simp add: build_single_repo_index_def empty_index_def table_of_def)
next
  case (snoc p paths)
  then show ?case by (simp add: build_snoc index_path_tables table_of_step)
qed

definition valid_path :: "string \<Rightarrow> bool" where
  "valid_path p \<longleftrightarrow> (\<exists>n. normalize_lcov_path p = Inr n \<and> n \<noteq> [])"

lemma exact_lookup:
  "map_of (exact (build_single_repo_index paths)) q =
     (if q \<in> set paths \<and> valid_path q then Some q else None)"
proof (induction paths rule: rev_induct)
  case Nil
  then show ?case by (simp add: build_single_repo_index_def empty_index_def)
next
  case (snoc p paths)
  then show ?case
    by (auto simp: build_snoc index_path_def valid_path_def split: sum.splits)
qed

lemma table_lookup:
  assumes "table_of paths f d" and "map_of d k = Some vs"
  shows "vs \<noteq> []" and "set vs = {p \<in> set paths. k \<in> set (keys_of f p)}"
  using assms(1) [unfolded table_of_def, THEN spec [of _ k]] assms(2) by auto

lemma keys_of_iff: "k \<in> set (keys_of f p) \<longleftrightarrow> (\<exists>n. normalize_lcov_path p = Inr n \<and> n \<noteq> [] \<and> k \<in> set (f n))"
  by (cases "normalize_lcov_path p") (auto simp: keys_of_def)

lemma find_suffix_Some:
  assumes "find_suffix table sufs = Some r"
  shows "\<exists>suf vs. suf \<in> set sufs \<and> map_of table suf = Some vs \<and>
     r = (case vs of [p] \<Rightarrow> (Some p, ''unique_suffix'') | _ \<Rightarrow> (None, ''ambiguous_suffix''))"
  using assms
proof (induction sufs)
  case (Cons suf sufs)
  show ?case
  proof (cases "map_of table suf")
    case None
    with Cons show ?thesis by simp blast
  next
    case (Some vs)
    have "r = (case vs of [p] \<Rightarrow> (Some p, ''unique_suffix'') | _ \<Rightarrow> (None, ''ambiguous_suffix''))"
      using Cons.prems Some by (cases vs rule: remdups_adj.cases) simp_all
    with Some show ?thesis by (intro exI [of _ suf] exI [of _ vs]) simp
  qed
qed simp

section \<open>Resolution\<close>

lemma LCOVPathLookupIndex_lookup:
  "map_of (LCOVPathLookupIndex repos) r = map_option build_single_repo_index (map_of repos r)"
  unfolding LCOVPathLookupIndex_def by (simp add: map_of_map)

text \<open>Every successful resolution, by the rule that found it.\<close>

lemma resolve_path_cases:
  assumes "resolve_path (LCOVPathLookupIndex repos) repo query = (Some p, how)"
  obtains (exact) paths where "map_of repos repo = Some paths" "p = query" "query \<in> set paths"
      "valid_path query" "how = ''exact''"
  | (normalized) paths n where "map_of repos repo = Some paths" "normalize_lcov_path query = Inr n" "n \<noteq> []"
      "{q \<in> set paths. normalize_lcov_path q = Inr n} = {p}" "how = ''normalized''"
  | (suffix) paths n suf where "map_of repos repo = Some paths" "normalize_lcov_path query = Inr n" "n \<noteq> []"
      "suf \<in> set (path_suffixes n)"
      "{q \<in> set paths. suf \<in> set (keys_of path_suffixes q)} = {p}" "how = ''unique_suffix''"
proof -
  from assms obtain paths where repo: "map_of repos repo = Some paths"
    by (auto simp: resolve_path_def LCOVPathLookupIndex_lookup split: option.splits)
  define idx where "idx = build_single_repo_index paths"
  have tables: "table_of paths (\<lambda>n. [n]) (normalized idx)" "table_of paths path_suffixes (suffix_of idx)"
    unfolding idx_def using build_tables by blast+
  have ex: "map_of (exact idx) query = (if query \<in> set paths \<and> valid_path query then Some query else None)"
    unfolding idx_def by (rule exact_lookup)
  show thesis
  proof (cases "query \<in> set paths \<and> valid_path query")
    case True
    with assms repo ex that(1) show thesis
      by (auto simp: resolve_path_def LCOVPathLookupIndex_lookup idx_def)
  next
    case False
    with assms repo ex obtain n where n: "normalize_lcov_path query = Inr n" "n \<noteq> []"
      by (auto simp: resolve_path_def LCOVPathLookupIndex_lookup idx_def split: sum.splits if_splits)
    note res = assms [unfolded resolve_path_def LCOVPathLookupIndex_lookup repo, simplified,
        folded idx_def, unfolded ex, simplified False n, simplified]
    show thesis
    proof (cases "map_of (normalized idx) n")
      case (Some vs)
      with res False n have "vs = [p]" "how = ''normalized''" by (auto split: list.splits)
      with table_lookup [OF tables(1) Some] n have "{q \<in> set paths. normalize_lcov_path q = Inr n} = {p}"
        by (auto simp: keys_of_iff)
      with repo n \<open>how = _\<close> that(2) show thesis by blast
    next
      case None
      with res False n have "find_suffix (suffix_of idx) (path_suffixes n) = Some (Some p, how)"
        by (auto split: option.splits if_splits)
      then obtain suf vs where suf: "suf \<in> set (path_suffixes n)" "map_of (suffix_of idx) suf = Some vs"
        "vs = [p]" "how = ''unique_suffix''"
        by (auto dest!: find_suffix_Some split: list.splits)
      with table_lookup [OF tables(2) suf(2)] repo n that(3) show thesis by auto
    qed
  qed
qed

lemma path_parts_component:
  assumes "c \<in> set (path_parts p)"
  shows "c \<noteq> []" and "c \<noteq> ''.''" and "SLASH \<notin> set c"
  using assms by (auto simp: path_parts_def Let_def dest: py_split_parts)

lemma py_split_normalized:
  assumes "normalize_lcov_path p = Inr n" and "n \<noteq> []"
  shows "py_split SLASH n = path_parts p"
proof -
  from assms have n: "n = py_join [SLASH] (path_parts p)"
    by (auto simp: normalize_lcov_path_def split: if_splits)
  with assms(2) have "path_parts p \<noteq> []" by auto
  with n show ?thesis using py_split_join [of "path_parts p" SLASH] path_parts_component by blast
qed

lemma path_suffixes_no_slash: "SLASH \<notin> set n \<Longrightarrow> path_suffixes n = []"
  by (simp add: path_suffixes_def py_split_free)

lemma member_valid: "suf \<in> set (keys_of f p) \<Longrightarrow> valid_path p"
  by (auto simp: keys_of_iff valid_path_def)

section \<open>The resolver as its clients see it\<close>

text \<open>
  \<open>IncrementalService\<close> and the report builder look a path up in one repository's list of keys;
  they rely on an answer being one of those keys.
\<close>

locale path_resolver =
  fixes index :: "string list \<Rightarrow> 'i" and resolve :: "'i \<Rightarrow> string \<Rightarrow> string option \<times> string"
  assumes resolve_member: "resolve (index paths) query = (Some p, how) \<Longrightarrow> p \<in> set paths"
begin

text \<open>A lookup through the resolver never misses the table that was indexed.\<close>

lemma lookup_defined:
  "resolve (index (map fst d)) query = (Some p, how) \<Longrightarrow> \<exists>v. map_of d p = Some v \<and> (p, v) \<in> set d"
  using resolve_member [of "map fst d" query p how]
  by (metis (no_types) map_of_SomeD map_of_eq_None_iff not_Some_eq set_map)

end

interpretation repo_resolver: path_resolver
  "\<lambda>paths. LCOVPathLookupIndex [(repo, paths)]" "\<lambda>i. resolve_path i repo" for repo
proof
  fix paths query p how
  assume "resolve_path (LCOVPathLookupIndex [(repo, paths)]) repo query = (Some p, how)"
  then show "p \<in> set paths" by (rule resolve_path_cases) auto
qed

section \<open>The index cache\<close>

definition cache_ok :: "'v mapping_indexes \<Rightarrow> bool" where
  "cache_ok cache \<longleftrightarrow>
     (\<forall>oid repo obj i. map_of cache (oid, repo) = Some (obj, i) \<longrightarrow> fst obj = oid \<and> i = mapping_index obj repo)"

text \<open>The callers' side of the contract: an indexed mapping is not modified.\<close>

definition unchanged :: "'v mapping_indexes \<Rightarrow> 'v mapping_object \<Rightarrow> bool" where
  "unchanged cache obj \<longleftrightarrow>
     (\<forall>repo old i. map_of cache (fst obj, repo) = Some (old, i) \<longrightarrow> fst old = fst obj \<longrightarrow> old = obj)"

lemma prepare_mapping_index:
  assumes "cache_ok cache" and "unchanged cache obj" and "snd obj \<noteq> []"
  shows "fst (prepare_mapping cache (Some obj) repo) = Some (mapping_index obj repo)"
    and "cache_ok (snd (prepare_mapping cache (Some obj) repo))"
proof -
  have hit: "fst old = fst obj \<and> i = mapping_index obj repo"
    if "map_of cache (fst obj, repo) = Some (old, i)" for old i
  proof -
    have "fst old = fst obj" "i = mapping_index old repo"
      using assms(1) that unfolding cache_ok_def by blast+
    moreover from this(1) have "old = obj" using assms(2) that unfolding unchanged_def by blast
    ultimately show ?thesis by simp
  qed
  show "fst (prepare_mapping cache (Some obj) repo) = Some (mapping_index obj repo)"
    using assms(3) hit by (auto simp: prepare_mapping_def split: option.split)
  show "cache_ok (snd (prepare_mapping cache (Some obj) repo))"
    using assms(1) by (auto simp: prepare_mapping_def cache_ok_def split: option.split)
qed

section \<open>Properties\<close>

text \<open>When \<open>resolve_path\<close> answers with a path, that path is one of the repository's own
  paths, and the answer is exact, or the only path with the query's normal form, or the only
  path that ends in some suffix of the query of at least two components. Ambiguity never
  resolves.\<close>

lemma resolve_path_unique:
  assumes "resolve_path (LCOVPathLookupIndex repos) repo query = (Some p, how)"
  shows "\<exists>paths. map_of repos repo = Some paths \<and> p \<in> set paths \<and>
    (how = ''exact'' \<and> p = query \<or>
     how = ''normalized'' \<and>
       (\<exists>n. normalize_lcov_path query = Inr n \<and> {q \<in> set paths. normalize_lcov_path q = Inr n} = {p}) \<or>
     how = ''unique_suffix'' \<and>
       (\<exists>n suf. normalize_lcov_path query = Inr n \<and> suf \<in> set (path_suffixes n) \<and>
          {q \<in> set paths. suf \<in> set (keys_of path_suffixes q)} = {p}))"
  using assms
proof (cases rule: resolve_path_cases)
  case (exact paths)
  then show ?thesis by (intro exI [of _ paths]) simp
next
  case (normalized paths n)
  then have "p \<in> set paths" by auto
  with normalized show ?thesis by (intro exI [of _ paths]) simp
next
  case (suffix paths n suf)
  then have "p \<in> set paths" by auto
  with suffix show ?thesis by (intro exI [of _ paths]) auto
qed

theorem resolve_path_unique_witness:
  "resolve_path (LCOVPathLookupIndex [(''r'', [''/b/src/a.c'', ''/b/lib/a.c''])]) ''r'' ''src/a.c'' =
     (Some ''/b/src/a.c'', ''unique_suffix'') \<and> ''/b/src/a.c'' \<in> set [''/b/src/a.c'', ''/b/lib/a.c'']"
proof -
  have run: "resolve_path (LCOVPathLookupIndex [(''r'', [''/b/src/a.c'', ''/b/lib/a.c''])]) ''r'' ''src/a.c'' =
     (Some ''/b/src/a.c'', ''unique_suffix'')" by code_simp
  from resolve_path_unique [OF run] run show ?thesis by auto
qed

text \<open>A query with a parent-traversal segment is never resolved, not even when the same
  string is listed as a target path.\<close>

lemma resolve_path_rejects_traversal:
  assumes "''..'' \<in> set (path_parts query)" and "map_of repos repo = Some paths"
  shows "resolve_path (LCOVPathLookupIndex repos) repo query = (None, ''invalid_path'')"
proof -
  have bad: "normalize_lcov_path query = Inl (ValueError ''LCOV path contains a parent traversal segment'')"
    using assms(1) by (simp add: normalize_lcov_path_def)
  then have "\<not> valid_path query" by (simp add: valid_path_def)
  with assms(2) bad show ?thesis
    by (simp add: resolve_path_def LCOVPathLookupIndex_lookup exact_lookup)
qed

theorem resolve_path_rejects_traversal_witness:
  "resolve_path (LCOVPathLookupIndex [(''r'', [''a/../b.c''])]) ''r'' ''a/../b.c'' = (None, ''invalid_path'')"
  by (rule resolve_path_rejects_traversal [where paths = "[''a/../b.c'']"]) code_simp+

text \<open>A bare file name is never matched against a longer path: unless the name itself is a
  listed path or the normal form of one, the answer is a rejection.\<close>

lemma resolve_path_rejects_basename:
  assumes "map_of repos repo = Some paths" and "query \<notin> set paths"
    and "normalize_lcov_path query = Inr n" and "SLASH \<notin> set n"
    and "\<forall>q \<in> set paths. normalize_lcov_path q \<noteq> Inr n"
  shows "fst (resolve_path (LCOVPathLookupIndex repos) repo query) = None"
proof (cases "resolve_path (LCOVPathLookupIndex repos) repo query")
  case (Pair r how)
  show ?thesis
  proof (cases r)
    case None
    with Pair show ?thesis by simp
  next
    case (Some p)
    with Pair have "resolve_path (LCOVPathLookupIndex repos) repo query = (Some p, how)" by simp
    then have False
      by (rule resolve_path_cases) (use assms path_suffixes_no_slash [of n] in auto)
    then show ?thesis ..
  qed
qed

theorem resolve_path_rejects_basename_witness:
  "fst (resolve_path (LCOVPathLookupIndex [(''r'', [''src/a.c''])]) ''r'' ''a.c'') = None"
proof -
  have n: "normalize_lcov_path ''a.c'' = Inr ''a.c''" "normalize_lcov_path ''src/a.c'' = Inr ''src/a.c''"
    by code_simp+
  show ?thesis
    by (rule resolve_path_rejects_basename [where paths = "[''src/a.c'']" and n = "''a.c''"]) (simp_all add: n)
qed

text \<open>a normalised path splits into the cleaned components of the original: none is empty,
  \<open>.\<close> or \<open>..\<close>, and none contains a slash.\<close>

lemma normalize_lcov_path_components:
  assumes "normalize_lcov_path p = Inr n" and "n \<noteq> []"
  shows "py_split SLASH n = path_parts p \<and>
    list_all (\<lambda>c. c \<noteq> [] \<and> c \<noteq> ''.'' \<and> c \<noteq> ''..'' \<and> SLASH \<notin> set c) (py_split SLASH n)"
proof -
  have "''..'' \<notin> set (path_parts p)"
    using assms(1) by (auto simp: normalize_lcov_path_def split: if_splits)
  then show ?thesis
    using py_split_normalized [OF assms] path_parts_component [of _ p] by (auto simp: list_all_iff)
qed

text \<open>While the indexed mappings are not modified, a lookup of \<open>IncrementalService\<close> through
  its cache gives the answer of a freshly built index, and the cache stays consistent.\<close>

lemma resolve_mapping_value_cached:
  assumes "cache_ok cache" and "unchanged cache obj" and "snd obj \<noteq> []"
  shows "fst (resolve_mapping_value cache query (Some obj) repo None) =
      (case resolve_path (mapping_index obj repo) repo query of
         (None, how) \<Rightarrow> (None, how) | (Some p, how) \<Rightarrow> (map_of (snd obj) p, how)) \<and>
    cache_ok (snd (resolve_mapping_value cache query (Some obj) repo None))"
proof -
  obtain i c where prep: "prepare_mapping cache (Some obj) repo = (i, c)"
    by (cases "prepare_mapping cache (Some obj) repo")
  with prepare_mapping_index [OF assms, of repo] have "i = Some (mapping_index obj repo)" "cache_ok c"
    by simp_all
  with prep assms(3) show ?thesis
    by (simp add: resolve_mapping_value_def split: option.split prod.split)
qed

theorem resolve_mapping_value_cached_witness:
  "fst (resolve_mapping_value [] ''src/a.c'' (Some (7, [(''/b/src/a.c'', True)])) ''r'' None) =
     (Some True, ''unique_suffix'')"
proof -
  have run: "resolve_path (mapping_index (7, [(''/b/src/a.c'', True)]) ''r'') ''r'' ''src/a.c'' =
      (Some ''/b/src/a.c'', ''unique_suffix'')" by code_simp
  have "cache_ok ([] :: bool mapping_indexes)" "unchanged [] (7, [(''/b/src/a.c'', True)])"
    by (simp_all add: cache_ok_def unchanged_def)
  from resolve_mapping_value_cached [OF this, of "''src/a.c''" "''r''"] run show ?thesis by simp
qed

end
