(* ===== verification/Incremental.thy ===== *)
theory Incremental
  imports GitDiff Lcov PathIndex
begin

text \<open>
  The incremental report: the blame parser of \<open>app/incremental/blame.py\<close>, the report model of
  \<open>app/incremental/report.py\<close> and \<open>IncrementalOrchestrator\<close> of
  \<open>app/incremental/orchestrator.py\<close>, on top of the Git range reader (\<open>GitDiff\<close>), the LCOV reader
  (\<open>Lcov\<close>) and the path index (\<open>PathIndex\<close>).

  Parameters: the Git process, the file system, the clock and the digest (SHA-256 of the
  report's canonical JSON).

  Shown: blame output written record by record is read back except for the line text, which is
  always lost; and the report lists exactly the added lines with execution count 0 of the files
  whose path resolves.
\<close>

section \<open>Blame\<close>

record blame_record =
  commit :: string
  original_line :: int
  final_line :: int
  boundary :: bool
  author :: string
  author_mail :: string
  author_time :: string
  author_tz :: string
  filename :: string
  line_text :: string

definition lstrip_caret :: "string \<Rightarrow> string" where
  "lstrip_caret s = py_lstrip (\<lambda>c. c = CHR ''^'') s"

definition looks_like_sha :: "string \<Rightarrow> bool" where
  "looks_like_sha s =
     (let v = lstrip_caret s in
      length v \<in> {7, 8, 40} \<and> list_all (\<lambda>c. c \<in> set ''0123456789abcdef'') (map to_lower v))"

record blame_state =
  records :: "blame_record list"
  open_record :: "blame_record option"
  pending_boundary :: bool

definition init_blame_state :: blame_state where
  "init_blame_state = \<lparr>records = [], open_record = None, pending_boundary = False\<rparr>"

definition new_blame_record :: "string list \<Rightarrow> blame_record result" where
  "new_blame_record ws =
     rbind (py_int_text (ws ! 1)) (\<lambda>orig. rbind (py_int_text (ws ! 2)) (\<lambda>final.
       Inr \<lparr>commit = lstrip_caret (ws ! 0), original_line = orig, final_line = final,
            boundary = starts_with ''^'' (ws ! 0), author = [], author_mail = [],
            author_time = [], author_tz = [], filename = [], line_text = []\<rparr>))"

definition blame_header :: "string \<Rightarrow> blame_record \<Rightarrow> blame_record" where
  "blame_header line rec =
     (if starts_with ''author '' line then rec\<lparr>author := drop 7 line\<rparr>
      else if starts_with ''author-mail '' line
      then rec\<lparr>author_mail := py_strip (\<lambda>c. c \<in> set ''<>'') (drop 12 line)\<rparr>
      else if starts_with ''author-time '' line then rec\<lparr>author_time := drop 12 line\<rparr>
      else if starts_with ''author-tz '' line then rec\<lparr>author_tz := drop 10 line\<rparr>
      else rec)"

definition close_record :: "blame_state \<Rightarrow> blame_record list" where
  "close_record st = records st @ (case open_record st of None \<Rightarrow> [] | Some r \<Rightarrow> [r])"

definition blame_step :: "string \<Rightarrow> blame_state \<Rightarrow> blame_state result" where
  "blame_step line st =
     (if starts_with ''boundary'' line then
        Inr (st\<lparr>pending_boundary := True,
               open_record := map_option (\<lambda>r. r\<lparr>boundary := True\<rparr>) (open_record st)\<rparr>)
      else if starts_with ''filename '' line then
        Inr (case open_record st of
               None \<Rightarrow> st\<lparr>pending_boundary := False\<rparr>
             | Some r \<Rightarrow>
                 \<lparr>records = records st @ [r\<lparr>filename := drop 9 line, boundary := boundary r \<or> pending_boundary st\<rparr>],
                  open_record = None, pending_boundary = False\<rparr>)
      else if starts_with [TAB] line then
        Inr (st\<lparr>open_record := map_option (\<lambda>r. r\<lparr>line_text := drop 1 line\<rparr>) (open_record st)\<rparr>)
      else let ws = py_words line in
        if length ws \<ge> 3 \<and> looks_like_sha (ws ! 0)
        then rbind (new_blame_record ws) (\<lambda>r. Inr (st\<lparr>records := close_record st, open_record := Some r\<rparr>))
        else Inr (st\<lparr>open_record := map_option (blame_header line) (open_record st)\<rparr>))"

fun blame_steps :: "string list \<Rightarrow> blame_state \<Rightarrow> blame_state result" where
  "blame_steps [] st = Inr st"
| "blame_steps (l # ls) st = rbind (blame_step l st) (blame_steps ls)"

definition parse_porcelain :: "string \<Rightarrow> blame_record list result" where
  "parse_porcelain t =
     rbind (blame_steps (py_splitlines t) init_blame_state) (\<lambda>st. Inr (close_record st))"

definition unsafe_identity :: "string \<Rightarrow> string \<Rightarrow> bool" where
  "unsafe_identity commit_sha path \<longleftrightarrow> commit_sha = [] \<or> path = [] \<or> starts_with ''/'' path \<or>
     ''..'' \<in> set (py_split SLASH (map (\<lambda>c. if c = BACKSLASH then SLASH else c) path))"

definition blame_file :: "git_runner \<Rightarrow> string \<Rightarrow> string \<Rightarrow> string \<Rightarrow> blame_record list result" where
  "blame_file run repo_path commit_sha path =
     (if unsafe_identity commit_sha path then Inl (ValueError ''unsafe blame identity'')
      else let result = run [''git'', ''-C'', repo_path, ''blame'', ''--line-porcelain'', commit_sha, ''--'', path] in
        if returncode result \<noteq> 0 then Inl (RuntimeError (py_strip is_space (stderr result)))
        else parse_porcelain (stdout result))"

definition owner_by_line :: "git_runner \<Rightarrow> string \<Rightarrow> string \<Rightarrow> string \<Rightarrow> (int \<times> blame_record) list result" where
  "owner_by_line run repo_path commit_sha path =
     rbind (blame_file run repo_path commit_sha path) (\<lambda>rs.
       Inr (fold (\<lambda>r d. AList.update (final_line r) r d) rs []))"

section \<open>The report\<close>

record report_detail =
  line_number :: nat
  execution_count :: nat
  suggested_reviewer :: string
  blame_commit :: string
  blame_boundary :: bool

record report_file =
  rf_repository :: string
  rf_path :: string
  rf_added :: "nat list"
  details :: "report_detail list"
  rf_ranges :: "function_range list"
  rf_fallback :: bool

record report_payload =
  project_name :: string
  repository_name :: string
  oldgit :: string
  newgit :: string
  files :: "report_file list"

record incremental_report = report_payload +
  scan_id :: "nat option"
  report_id :: string
  generated_at :: string

record report_dict = incremental_report +
  source_signature_field :: string

definition IncrementalReport ::
  "string \<Rightarrow> string \<Rightarrow> string \<Rightarrow> string \<Rightarrow> string \<Rightarrow> report_file list \<Rightarrow> nat option \<Rightarrow> string \<Rightarrow> incremental_report" where
  "IncrementalReport now project repo old new fs scan rid =
     \<lparr>project_name = project, repository_name = repo, oldgit = old, newgit = new, files = fs,
      scan_id = scan, report_id = rid, generated_at = now\<rparr>"

definition source_signature :: "(report_payload \<Rightarrow> string) \<Rightarrow> incremental_report \<Rightarrow> string" where
  "source_signature digest r =
     digest \<lparr>project_name = project_name r, repository_name = repository_name r, oldgit = oldgit r,
             newgit = newgit r, files = files r\<rparr>"

definition report_to_dict :: "(report_payload \<Rightarrow> string) \<Rightarrow> incremental_report \<Rightarrow> report_dict" where
  "report_to_dict digest r =
     \<lparr>project_name = project_name r, repository_name = repository_name r, oldgit = oldgit r,
      newgit = newgit r, files = files r, scan_id = scan_id r, report_id = report_id r,
      generated_at = generated_at r, source_signature_field = source_signature digest r\<rparr>"

section \<open>The orchestrator\<close>

definition owner_name :: "blame_record option \<Rightarrow> string" where
  "owner_name owner =
     (let a = py_strip is_space (case owner of None \<Rightarrow> [] | Some r \<Rightarrow> author r);
          e = py_strip is_space (case owner of None \<Rightarrow> [] | Some r \<Rightarrow> author_mail r) in
      if a \<noteq> [] \<and> e \<noteq> [] then a @ '' <'' @ e @ ''>'' else if a \<noteq> [] then a else e)"

definition find_lcov ::
  "(string \<times> lcov_record) list \<Rightarrow> string \<Rightarrow> string \<Rightarrow> path_index option \<Rightarrow> lcov_record option" where
  "find_lcov lcov relative_path repo given =
     (let index = (case given of Some i \<Rightarrow> i | None \<Rightarrow> LCOVPathLookupIndex [(repo, map fst lcov)]) in
      case resolve_path index repo relative_path of
        (None, _) \<Rightarrow> None
      | (Some p, _) \<Rightarrow> map_of lcov p)"

definition uncovered_lines :: "lcov_record \<Rightarrow> (nat \<times> nat) list" where
  "uncovered_lines item = filter (\<lambda>(line, count). count = 0) (lines item)"

definition report_details ::
  "(int \<times> blame_record) list \<Rightarrow> (nat \<times> nat) list \<Rightarrow> nat list \<Rightarrow> report_detail list" where
  "report_details owners uncovered added =
     map (\<lambda>n. let owner = map_of owners (int n) in
            \<lparr>line_number = n, execution_count = dict_get uncovered n 0,
             suggested_reviewer = owner_name owner,
             blame_commit = (case owner of None \<Rightarrow> [] | Some r \<Rightarrow> commit r),
             blame_boundary = (case owner of None \<Rightarrow> False | Some r \<Rightarrow> boundary r)\<rparr>)
       (sort (filter (\<lambda>n. n \<in> set (map fst uncovered)) (remdups added)))"

definition build_file ::
  "git_runner \<Rightarrow> string \<Rightarrow> string \<Rightarrow> string \<Rightarrow> (string \<times> lcov_record) list \<Rightarrow> path_index
   \<Rightarrow> string \<times> nat list \<Rightarrow> report_file option result" where
  "build_file run repo_path new repo lcov index entry =
     (let (relative_path, added) = entry in
      case find_lcov lcov relative_path repo (Some index) of
        None \<Rightarrow> Inr None
      | Some item \<Rightarrow>
          rbind (owner_by_line run repo_path new relative_path) (\<lambda>owners.
            let ds = report_details owners (uncovered_lines item) added in
            Inr (if ds = [] then None
                 else Some \<lparr>rf_repository = repo, rf_path = relative_path, rf_added = sort added,
                        details = ds, rf_ranges = function_ranges item,
                        rf_fallback = function_range_fallback item\<rparr>)))"

definition build_report ::
  "git_runner \<Rightarrow> (string \<Rightarrow> string option) \<Rightarrow> (report_payload \<Rightarrow> string) \<Rightarrow> string
   \<Rightarrow> string \<Rightarrow> string \<Rightarrow> string \<Rightarrow> string \<Rightarrow> string \<Rightarrow> string \<Rightarrow> nat option \<Rightarrow> string \<Rightarrow> report_dict result" where
  "build_report run read_file digest now project repo_path old new info_path repo scan rid =
     rbind (added_lines run repo_path old new) (\<lambda>additions.
     rbind (load_info read_file info_path) (\<lambda>lcov.
       let index = LCOVPathLookupIndex [(repo, map fst lcov)] in
       rbind (rmap (build_file run repo_path new repo lcov index) (sort additions)) (\<lambda>fs.
         Inr (report_to_dict digest
           (IncrementalReport now project repo old new (List.map_filter id fs) scan rid)))))"

section \<open>Reading blame output back\<close>

text \<open>One entry of \<open>git blame --line-porcelain\<close>: the identity line, the author headers, further
  headers, the boundary marker, the file name and, last, the line itself.\<close>

record blame_entry =
  e_record :: blame_record
  e_extra :: "string list"
  e_content :: string

definition render_blame :: "blame_entry \<Rightarrow> string list" where
  "render_blame e = (let r = e_record e in
     (commit r @ '' '' @ show_nat (nat (original_line r)) @ '' '' @ show_nat (nat (final_line r)) @ '' 1'') #
     [''author '' @ author r, ''author-mail <'' @ author_mail r @ ''>'', ''author-time '' @ author_time r,
      ''author-tz '' @ author_tz r] @
     e_extra e @ (if boundary r then [''boundary''] else []) @ [''filename '' @ filename r, TAB # e_content e])"

definition neutral_header :: "string \<Rightarrow> bool" where
  "neutral_header l \<longleftrightarrow> \<not> starts_with ''boundary'' l \<and> \<not> starts_with ''filename '' l \<and> \<not> starts_with [TAB] l \<and>
     \<not> starts_with ''author'' l \<and> (length (py_words l) < 3 \<or> \<not> looks_like_sha (py_words l ! 0))"

definition wf_entry :: "blame_entry \<Rightarrow> bool" where
  "wf_entry e \<longleftrightarrow> (let r = e_record e in
     length (commit r) = 40 \<and> list_all (\<lambda>c. c \<in> set ''0123456789abcdef'') (commit r) \<and>
     0 \<le> original_line r \<and> 0 \<le> final_line r \<and>
     py_strip (\<lambda>c. c \<in> set ''<>'') (''<'' @ author_mail r @ ''>'') = author_mail r \<and>
     list_all neutral_header (e_extra e))"

lemma py_words_word:
  assumes "w \<noteq> []" and "list_all (\<lambda>c. \<not> is_space c) w"
  shows "py_words (w @ CHR '' '' # s) = w # py_words s"
  using assms
proof (induction w)
  case (Cons c w)
  show ?case
  proof (cases w)
    case Nil
    with Cons.prems show ?thesis by (simp add: is_space_def)
  next
    case (Cons d v)
    with Cons.IH Cons.prems show ?thesis by simp
  qed
qed simp

definition hex_word :: "string \<Rightarrow> bool" where
  "hex_word s \<longleftrightarrow> length s = 40 \<and> list_all (\<lambda>c. c \<in> set ''0123456789abcdef'') s"

lemma hex_lower: "c \<in> set ''0123456789abcdef'' \<Longrightarrow> to_lower c = c \<and> c \<noteq> CHR ''^'' \<and> \<not> is_space c"
  by (auto simp: to_lower_def is_space_def)

lemma hex_word_char: "hex_word s \<Longrightarrow> c \<in> set s \<Longrightarrow> to_lower c = c \<and> c \<noteq> CHR ''^'' \<and> \<not> is_space c"
  using hex_lower [of c] unfolding hex_word_def list_all_iff by blast

lemma hex_word_no_space:
  assumes "hex_word s"
  shows "s \<noteq> []" and "list_all (\<lambda>c. \<not> is_space c) s"
  using assms hex_word_char [OF assms] by (auto simp: hex_word_def list_all_iff simp del: set_simps)

lemma hex_caret: "hex_word s \<Longrightarrow> lstrip_caret s = s"
  using hex_word_char [of s] by (cases s) (simp_all add: lstrip_caret_def py_lstrip_def)

lemma hex_sha: "hex_word s \<Longrightarrow> looks_like_sha s"
proof -
  assume hex: "hex_word s"
  then have "map to_lower s = s" using hex_word_char by (intro map_idI) blast
  with hex hex_caret [OF hex] show ?thesis unfolding looks_like_sha_def hex_word_def Let_def by simp
qed

lemma hex_prefix:
  assumes "hex_word s"
  shows "\<not> starts_with ''boundary'' (s @ r)" "\<not> starts_with ''filename '' (s @ r)" "\<not> starts_with [TAB] (s @ r)"
    "\<not> starts_with ''^'' s"
proof -
  from assms obtain c d t where s: "s = c # d # t" by (cases s rule: remdups_adj.cases) (auto simp: hex_word_def)
  with assms show "\<not> starts_with ''boundary'' (s @ r)" "\<not> starts_with ''filename '' (s @ r)" "\<not> starts_with [TAB] (s @ r)"
    "\<not> starts_with ''^'' s"
    by (auto simp: hex_word_def)
qed

text \<open>What the parser returns for an entry: everything but the line's text.\<close>

definition parsed_entry :: "blame_entry \<Rightarrow> blame_record" where
  "parsed_entry e = (e_record e)\<lparr>line_text := []\<rparr>"

lemma blame_steps_append: "blame_steps (a @ b) st = rbind (blame_steps a st) (blame_steps b)"
  by (induction a arbitrary: st) (simp_all, case_tac "blame_step a1 st", simp_all)

lemma step_identity:
  assumes "hex_word sha" and "open_record st = None"
  shows "blame_step (sha @ '' '' @ show_nat a @ '' '' @ show_nat b @ '' 1'') st =
    Inr (st\<lparr>open_record := Some \<lparr>commit = sha, original_line = int a, final_line = int b, boundary = False,
       author = [], author_mail = [], author_time = [], author_tz = [], filename = [], line_text = []\<rparr>\<rparr>)"
proof -
  let ?l = "sha @ '' '' @ show_nat a @ '' '' @ show_nat b @ '' 1''"
  have sha: "sha \<noteq> []" "list_all (\<lambda>c. \<not> is_space c) sha"
    by (rule hex_word_no_space [OF assms(1)])+
  have num: "show_nat n \<noteq> []" "list_all (\<lambda>c. \<not> is_space c) (show_nat n)" for n
    using show_nat_digits [of n] digits_no_space by auto
  have "py_words ?l = [sha, show_nat a, show_nat b, ''1'']"
    by (simp add: py_words_word sha num) (simp add: is_space_def)
  with assms hex_prefix [OF assms(1)] show ?thesis
    by (simp add: blame_step_def new_blame_record_def hex_sha hex_caret py_int_text_show close_record_def Let_def)
qed

lemma step_header:
  assumes "open_record st = Some r" "\<not> starts_with ''boundary'' l" "\<not> starts_with ''filename '' l" "\<not> starts_with [TAB] l"
    "length (py_words l) < 3 \<or> \<not> looks_like_sha (py_words l ! 0)"
  shows "blame_step l st = Inr (st\<lparr>open_record := Some (blame_header l r)\<rparr>)"
  using assms by (auto simp: blame_step_def Let_def)

lemma author_words: "\<not> is_space c \<Longrightarrow> list_all (\<lambda>c. \<not> is_space c) w \<Longrightarrow> py_words (c # w @ CHR '' '' # s) ! 0 = c # w"
  using py_words_word [of "c # w" s] by simp

lemma author_headers:
  "blame_steps [''author '' @ a, ''author-mail <'' @ m @ ''>'', ''author-time '' @ t, ''author-tz '' @ z]
     (st\<lparr>open_record := Some r\<rparr>) =
   Inr (st\<lparr>open_record := Some (r\<lparr>author := a, author_mail := py_strip (\<lambda>c. c \<in> set ''<>'') (''<'' @ m @ ''>''),
      author_time := t, author_tz := z\<rparr>)\<rparr>)"
proof -
  have w: "py_words (''author '' @ x) ! 0 = ''author''" "py_words (''author-mail '' @ x) ! 0 = ''author-mail''"
    "py_words (''author-time '' @ x) ! 0 = ''author-time''" "py_words (''author-tz '' @ x) ! 0 = ''author-tz''" for x
    using author_words [of _ "''uthor''" x] author_words [of _ "''uthor-mail''" x]
      author_words [of _ "''uthor-time''" x] author_words [of _ "''uthor-tz''" x]
    by (simp_all add: is_space_def)
  have sha: "\<not> looks_like_sha ''author''" "\<not> looks_like_sha ''author-mail''"
    "\<not> looks_like_sha ''author-time''" "\<not> looks_like_sha ''author-tz''"
    by code_simp+
  have 1: "blame_step (''author '' @ a) (st\<lparr>open_record := Some r\<rparr>) = Inr (st\<lparr>open_record := Some (r\<lparr>author := a\<rparr>)\<rparr>)" for r
    by (subst step_header [where r = r]) (use w(1) [of a] sha(1) in \<open>simp_all add: blame_header_def del: py_words.simps\<close>)
  have 2: "blame_step (''author-mail <'' @ m @ ''>'') (st\<lparr>open_record := Some r\<rparr>) =
      Inr (st\<lparr>open_record := Some (r\<lparr>author_mail := py_strip (\<lambda>c. c \<in> set ''<>'') (''<'' @ m @ ''>'')\<rparr>)\<rparr>)" for r
    by (subst step_header [where r = r]) (use w(2) [of "''<'' @ m @ ''>''"] sha(2) in \<open>simp_all add: blame_header_def del: py_words.simps\<close>)
  have 3: "blame_step (''author-time '' @ t) (st\<lparr>open_record := Some r\<rparr>) = Inr (st\<lparr>open_record := Some (r\<lparr>author_time := t\<rparr>)\<rparr>)" for r
    by (subst step_header [where r = r]) (use w(3) [of t] sha(3) in \<open>simp_all add: blame_header_def del: py_words.simps\<close>)
  have 4: "blame_step (''author-tz '' @ z) (st\<lparr>open_record := Some r\<rparr>) = Inr (st\<lparr>open_record := Some (r\<lparr>author_tz := z\<rparr>)\<rparr>)" for r
    by (subst step_header [where r = r]) (use w(4) [of z] sha(4) in \<open>simp_all add: blame_header_def del: py_words.simps\<close>)
  show ?thesis by (simp only: blame_steps.simps rbind.simps 1 2 3 4)
qed

lemma neutral_steps:
  "list_all neutral_header ls \<Longrightarrow> open_record st = Some r \<Longrightarrow> blame_steps ls st = Inr st"
proof (induction ls)
  case (Cons l ls)
  then have l: "neutral_header l" by simp
  then have "\<not> starts_with ''author '' l" "\<not> starts_with ''author-mail '' l" "\<not> starts_with ''author-time '' l"
    "\<not> starts_with ''author-tz '' l"
    unfolding neutral_header_def starts_with_iff by auto
  then have "blame_header l r = r" unfolding blame_header_def by (simp only: if_False)
  with l Cons.prems(2) have "blame_step l st = Inr st"
    by (subst step_header [of st r]) (simp_all add: neutral_header_def del: starts_with.simps)
  with Cons show ?case by simp
qed simp

lemma blame_tail:
  assumes "open_record st = Some r" and "\<not> boundary r" and "\<not> pending_boundary st"
  shows "blame_steps ((if b then [''boundary''] else []) @ [''filename '' @ f, TAB # x]) st =
     Inr \<lparr>records = records st @ [r\<lparr>filename := f, boundary := b\<rparr>], open_record = None, pending_boundary = False\<rparr>"
  using assms by (auto simp: blame_step_def)

lemma blame_entry_steps:
  assumes "wf_entry e" and "open_record st = None" and "\<not> pending_boundary st"
  shows "blame_steps (render_blame e) st = Inr (st\<lparr>records := records st @ [parsed_entry e]\<rparr>)"
proof -
  define r where "r = e_record e"
  have wf: "hex_word (commit r)" "0 \<le> original_line r" "0 \<le> final_line r" "list_all neutral_header (e_extra e)"
    "py_strip (\<lambda>c. c \<in> set ''<>'') (''<'' @ author_mail r @ ''>'') = author_mail r"
    using assms(1) by (simp_all add: wf_entry_def hex_word_def r_def Let_def)
  let ?r0 = "\<lparr>commit = commit r, original_line = original_line r, final_line = final_line r, boundary = False,
     author = [], author_mail = [], author_time = [], author_tz = [], filename = [], line_text = []\<rparr>"
  let ?r1 = "?r0\<lparr>author := author r, author_mail := author_mail r, author_time := author_time r, author_tz := author_tz r\<rparr>"
  let ?st = "st\<lparr>open_record := Some ?r1\<rparr>"
  have id: "blame_step (commit r @ '' '' @ show_nat (nat (original_line r)) @ '' '' @ show_nat (nat (final_line r)) @ '' 1'') st =
      Inr (st\<lparr>open_record := Some ?r0\<rparr>)"
    using step_identity [OF wf(1) assms(2)] wf(2,3) by simp
  have "blame_steps (render_blame e) st =
      rbind (blame_steps (e_extra e) ?st) (blame_steps ((if boundary r then [''boundary''] else []) @ [''filename '' @ filename r, TAB # e_content e]))"
    unfolding render_blame_def Let_def r_def [symmetric]
    by (subst blame_steps.simps(2)) (simp only: id rbind.simps blame_steps_append author_headers wf(5))
  also have "\<dots> = Inr (st\<lparr>records := records st @ [parsed_entry e]\<rparr>)"
    using blame_tail [of ?st ?r1 "boundary r" "filename r" "e_content e"] assms(2,3)
    by (cases "e_record e", cases st) (simp add: neutral_steps [OF wf(4)] parsed_entry_def r_def)
  finally show ?thesis .
qed

lemma blame_entries_steps:
  "list_all wf_entry es \<Longrightarrow> open_record st = None \<Longrightarrow> \<not> pending_boundary st \<Longrightarrow>
   blame_steps (concat (map render_blame es)) st = Inr (st\<lparr>records := records st @ map parsed_entry es\<rparr>)"
proof (induction es arbitrary: st)
  case (Cons e es)
  then show ?case by (simp add: blame_steps_append blame_entry_steps)
qed (simp add: Let_def)

text \<open>Blame output written entry by entry is read back in full, boundary flags included, except
  for the text of the line: the record is closed by its \<open>filename\<close> header, which Git prints before
  the line itself, so \<open>line_text\<close> is always empty.\<close>

lemma parse_porcelain_render:
  assumes "list_all wf_entry es"
    and "list_all (list_all (\<lambda>c. \<not> is_line_break c)) (concat (map render_blame es))"
  shows "parse_porcelain (unlines (concat (map render_blame es))) =
     Inr (map (\<lambda>e. (e_record e)\<lparr>line_text := []\<rparr>) es)"
proof -
  have "parsed_entry = (\<lambda>e. (e_record e)\<lparr>line_text := []\<rparr>)" by (simp add: fun_eq_iff parsed_entry_def)
  then show ?thesis
    using blame_entries_steps [OF assms(1), of init_blame_state]
    by (simp add: parse_porcelain_def py_splitlines_unlines [OF assms(2)] init_blame_state_def close_record_def)
qed

theorem parse_porcelain_render_witness:
  "let e = \<lparr>e_record = \<lparr>commit = replicate 40 CHR ''a'', original_line = 3, final_line = 12, boundary = True,
        author = ''Ann'', author_mail = ''ann@x'', author_time = ''17'', author_tz = ''+0000'', filename = ''a.c'',
        line_text = ''int x;''\<rparr>, e_extra = [''summary fix''], e_content = ''int x;''\<rparr> in
   parse_porcelain (unlines (render_blame e)) = Inr [(e_record e)\<lparr>line_text := []\<rparr>]"
proof -
  let ?e = "\<lparr>e_record = \<lparr>commit = replicate 40 CHR ''a'', original_line = 3, final_line = 12, boundary = True,
        author = ''Ann'', author_mail = ''ann@x'', author_time = ''17'', author_tz = ''+0000'', filename = ''a.c'',
        line_text = ''int x;''\<rparr>, e_extra = [''summary fix''], e_content = ''int x;''\<rparr>"
  have wf: "list_all wf_entry [?e]" by code_simp
  have clean: "list_all (list_all (\<lambda>c. \<not> is_line_break c)) (concat (map render_blame [?e]))" by code_simp
  from parse_porcelain_render [OF wf clean] show ?thesis by (simp only: list.map concat.simps append_Nil2 Let_def)
qed

section \<open>What the report lists\<close>

lemma report_details_lines:
  "line_number ` set (report_details owners uncovered added) = set added \<inter> fst ` set uncovered"
  by (force simp: report_details_def Let_def image_image)

lemma uncovered_keys: "fst ` set (uncovered_lines item) = {n. (n, 0) \<in> set (lines item)}"
  by (force simp: uncovered_lines_def)

lemma build_file_lists:
  assumes "build_file run repo_path new repo lcov index (path, added) = Inr fo"
  shows "(\<exists>f. fo = Some f \<and> rf_path f = p \<and> n \<in> line_number ` set (details f)) \<longleftrightarrow>
     p = path \<and> n \<in> set added \<and> (\<exists>item. find_lcov lcov path repo (Some index) = Some item \<and> (n, 0) \<in> set (lines item))"
proof (cases "find_lcov lcov path repo (Some index)")
  case None
  with assms show ?thesis by (simp add: build_file_def)
next
  case (Some item)
  with assms obtain owners where
    "fo = (let ds = report_details owners (uncovered_lines item) added in
            if ds = [] then None
            else Some \<lparr>rf_repository = repo, rf_path = path, rf_added = sort added, details = ds,
                   rf_ranges = function_ranges item, rf_fallback = function_range_fallback item\<rparr>)"
    by (auto simp: build_file_def Let_def)
  with Some report_details_lines [of owners "uncovered_lines item" added] uncovered_keys [of item]
  show ?thesis by (auto simp: Let_def)
qed

text \<open>C36: The report lists exactly the lines it is about: a line of a file is in the report if and
  only if Git reports it as added between the two commits and the LCOV record to which the
  file's path resolves has it with execution count 0.\<close>

theorem build_report_exact:
  assumes "build_report run read_file digest now project repo_path old new info repo scan rid = Inr r"
    and "added_lines run repo_path old new = Inr additions" and "load_info read_file info = Inr lcov"
  shows "(\<exists>f \<in> set (files r). rf_path f = p \<and> n \<in> line_number ` set (details f)) \<longleftrightarrow>
     (\<exists>added item key how. (p, added) \<in> set additions \<and> n \<in> set added \<and>
        resolve_path (LCOVPathLookupIndex [(repo, map fst lcov)]) repo p = (Some key, how) \<and>
        map_of lcov key = Some item \<and> (n, 0) \<in> set (lines item))"
proof -
  let ?index = "LCOVPathLookupIndex [(repo, map fst lcov)]"
  let ?build = "build_file run repo_path new repo lcov ?index"
  from assms obtain fs where fs: "rmap ?build (sort additions) = Inr fs"
    and r: "files r = List.map_filter id fs"
    by (auto simp: build_report_def Let_def report_to_dict_def IncrementalReport_def)
  have find: "(\<exists>item. find_lcov lcov p repo (Some ?index) = Some item \<and> (n, 0) \<in> set (lines item)) \<longleftrightarrow>
     (\<exists>item key how. resolve_path ?index repo p = (Some key, how) \<and> map_of lcov key = Some item \<and> (n, 0) \<in> set (lines item))"
    by (auto simp: find_lcov_def split: option.splits prod.splits)
  have in_files: "f \<in> set (files r) \<longleftrightarrow> (\<exists>x \<in> set additions. ?build x = Inr (Some f))" for f
    using rmap_set [OF fs, of "Some f"] by (force simp: r map_filter_def)
  have total: "x \<in> set additions \<Longrightarrow> \<exists>fo. ?build x = Inr fo" for x
    using rmap_total [OF fs, of x] by auto
  have "(\<exists>f \<in> set (files r). rf_path f = p \<and> n \<in> line_number ` set (details f)) \<longleftrightarrow>
     (\<exists>x \<in> set additions. \<exists>fo. ?build x = Inr fo \<and> (\<exists>f. fo = Some f \<and> rf_path f = p \<and> n \<in> line_number ` set (details f)))"
    using in_files by blast
  also have "\<dots> \<longleftrightarrow> (\<exists>added. (p, added) \<in> set additions \<and> n \<in> set added \<and>
      (\<exists>item. find_lcov lcov p repo (Some ?index) = Some item \<and> (n, 0) \<in> set (lines item)))"
    using total build_file_lists [of run repo_path new repo lcov ?index _ _ _ p n] by fast
  finally show ?thesis unfolding find by blast
qed

text \<open>A repository with one changed file, for the witness.\<close>

definition sample_git :: git_runner where
  "sample_git args =
     (if ''cat-file'' \<in> set args then \<lparr>returncode = 0, stdout = [], stderr = []\<rparr>
      else if ''diff'' \<in> set args then
        \<lparr>returncode = 0, stdout = unlines [''--- a/s/x.c'', ''+++ b/s/x.c'', ''@@ -4 +4,2 @@'', ''-old'', ''+new'', ''+more''],
         stderr = []\<rparr>
      else \<lparr>returncode = 0, stdout = unlines [''abcdef0 3 5 1'', ''author Ann'', ''author-mail <a@x>'', ''filename s/x.c''],
            stderr = []\<rparr>)"

definition sample_files :: "string \<Rightarrow> string option" where
  "sample_files path = (if path = ''c.info'' then
     Some (unlines [''SF:/build/s/x.c'', ''DA:4,1'', ''DA:5,0'', ''DA:7,0'', ''end_of_record'']) else None)"

theorem build_report_exact_witness:
  "\<exists>r. build_report sample_git sample_files (\<lambda>p. ''d'') ''now'' ''P'' ''repo'' ''a'' ''b'' ''c.info'' ''default'' None [] = Inr r \<and>
     (\<exists>f \<in> set (files r). rf_path f = ''s/x.c'' \<and> 5 \<in> line_number ` set (details f))"
proof -
  let ?build = "build_report sample_git sample_files (\<lambda>p. ''d'') ''now'' ''P'' ''repo'' ''a'' ''b'' ''c.info'' ''default'' None []"
  let ?item = "\<lparr>file_path = ''/build/s/x.c'', lines = [(4, 1), (5, 0), (7, 0)], function_ranges = [], function_range_fallback = False\<rparr>"
  have "is_ok ?build" by code_simp
  then obtain r where r: "?build = Inr r" by (auto simp: is_ok_iff)
  have a: "added_lines sample_git ''repo'' ''a'' ''b'' = Inr [(''s/x.c'', [4, 5])]" by code_simp
  have l: "load_info sample_files ''c.info'' = Inr [(''/build/s/x.c'', ?item)]" by code_simp
  have "resolve_path (LCOVPathLookupIndex [(''default'', map fst [(''/build/s/x.c'', ?item)])]) ''default'' ''s/x.c'' = (Some ''/build/s/x.c'', ''unique_suffix'')"
    by code_simp
  with build_report_exact [OF r a l, of "''s/x.c''" 5] r show ?thesis by simp
qed

end
