(* ===== verification/JobExecutor.thy ===== *)
theory JobExecutor
  imports Prelude "HOL-Library.Multiset"
begin

text \<open>
  The background executor of \<open>app/jobs/bounded_executor.py\<close>. Job objects live in a store and are
  named by their position, because the registry \<open>_jobs\<close>, the queues and the threads share them;
  a worker thread is its resource class and the point of \<open>_worker_loop\<close> it has reached. The step
  relation interleaves the threads: a step that the code performs under \<open>_lock\<close> (or the condition
  \<open>_capacity\<close> built on it) needs the lock free, while \<open>shutdown\<close> sets its flags and empties the
  queues without it, as in the source. The job's function is the outcome of the step that ends it,
  \<open>time.time()\<close> is the field \<open>clock\<close>, and the calls made to \<open>db_manager\<close> are logged in order.

  Shown: bounded queues, isolation of the resource classes, the global worker budget, that a job
  that ended or was cancelled never changes its status again, what pruning keeps, and the
  interleaving of \<open>shutdown\<close> with \<open>submit_job\<close> that leaves a job queued for ever.
\<close>

datatype job_status = QUEUED | RUNNING | COMPLETED | FAILED | CANCELLED | INTERRUPTED

record job =
  job_id :: string
  job_type :: string
  project_name :: string
  resource_class :: string
  status :: job_status
  progress :: nat
  job_result :: "string option"
  error_message :: "string option"
  created_at :: nat
  started_at :: "nat option"
  finished_at :: "nat option"
  cancel_requested :: bool

definition JobDescriptor :: "string \<Rightarrow> string \<Rightarrow> string \<Rightarrow> string \<Rightarrow> nat \<Rightarrow> job" where
  "JobDescriptor jid jtype project resource now =
     \<lparr>job_id = jid, job_type = jtype, project_name = project,
      resource_class = (if resource = [] then ''default'' else resource), status = QUEUED, progress = 0,
      job_result = None, error_message = None, created_at = now, started_at = None, finished_at = None,
      cancel_requested = False\<rparr>"

record bucket =
  queue :: "nat list"
  max_workers :: nat
  max_queue_size :: nat

datatype worker_pc = W_idle | W_polling | W_holding nat | W_running nat | W_exited

record worker =
  w_resource :: string
  pc :: worker_pc

datatype db_call = Upsert string string string job_status nat "string option" | Mark_stale

record submission =
  s_type :: string
  s_project :: string
  s_job_id :: string
  s_reuse :: bool
  s_resource :: string

datatype shutdown_pc = S_not_called | S_at nat | S_holding nat nat | S_done

record executor =
  store :: "job list"
  jobs :: "(string \<times> nat) list"
  buckets :: "(string \<times> bucket) list"
  workers :: "worker list"
  lock_holder :: "submission option"
  shutdown_event :: bool
  accepting :: bool
  active_jobs :: "string list"
  max_retained_jobs :: nat
  global_worker_budget :: "nat option"
  clock :: nat
  has_db :: bool
  db_calls :: "db_call list"
  shutdown_at :: shutdown_pc

section \<open>Construction\<close>

definition create_bucket :: "string \<Rightarrow> int \<Rightarrow> int \<Rightarrow> (string \<times> bucket) list \<Rightarrow> (string \<times> bucket) list" where
  "create_bucket name n_workers queue_size bs =
     (if map_of bs name \<noteq> None then bs
      else bs @ [(name, \<lparr>queue = [], max_workers = nat (max 1 n_workers), max_queue_size = nat (max 1 queue_size)\<rparr>)])"

text \<open>A configured limit: the number of workers and the queue size, 25 when only workers are given.\<close>

definition configured_buckets :: "(string \<times> int \<times> int) list \<Rightarrow> (string \<times> bucket) list \<Rightarrow> (string \<times> bucket) list" where
  "configured_buckets limits bs =
     fold (\<lambda>(name, n_workers, queue_size) bs.
       if name = ''default'' then bs else create_bucket name (max 1 n_workers) (max 1 queue_size) bs) limits bs"

definition start_workers :: "(string \<times> bucket) list \<Rightarrow> worker list" where
  "start_workers bs =
     concat (map (\<lambda>(name, b). replicate (max_workers b) \<lparr>w_resource = name, pc = W_idle\<rparr>) bs)"

definition make_buckets :: "int \<Rightarrow> int \<Rightarrow> (string \<times> int \<times> int) list \<Rightarrow> (string \<times> bucket) list" where
  "make_buckets n_workers queue_size limits =
     create_bucket ''disk'' 1 25 (create_bucket ''cpu'' 1 25 (create_bucket ''database'' 1 25
       (configured_buckets limits (create_bucket ''default'' (max 1 n_workers) (max 1 queue_size) []))))"

definition BoundedJobExecutor ::
  "int \<Rightarrow> int \<Rightarrow> bool \<Rightarrow> (string \<times> int \<times> int) list \<Rightarrow> int \<Rightarrow> int option \<Rightarrow> nat \<Rightarrow> executor" where
  "BoundedJobExecutor n_workers queue_size db limits retained budget now =
     (let bs = make_buckets n_workers queue_size limits in
      \<lparr>store = [], jobs = [], buckets = bs, workers = start_workers bs, lock_holder = None,
       shutdown_event = False, accepting = True, active_jobs = [],
       max_retained_jobs = nat (max 16 retained),
       global_worker_budget = map_option (\<lambda>b. nat (max 1 b)) budget,
       clock = now, has_db = db, db_calls = [], shutdown_at = S_not_called\<rparr>)"

section \<open>Operations\<close>

definition persist_job_state :: "nat \<Rightarrow> executor \<Rightarrow> executor" where
  "persist_job_state r s =
     (if \<not> has_db s then s
      else let j = store s ! r in
        s\<lparr>db_calls := db_calls s @
            [Upsert (job_id j) (project_name j) (job_type j) (status j) (progress j) (error_message j)]\<rparr>)"

definition recover_interrupted_jobs :: "executor \<Rightarrow> executor" where
  "recover_interrupted_jobs s = (if \<not> has_db s then s else s\<lparr>db_calls := db_calls s @ [Mark_stale]\<rparr>)"

definition update_job :: "nat \<Rightarrow> (job \<Rightarrow> job) \<Rightarrow> executor \<Rightarrow> executor" where
  "update_job r f s = s\<lparr>store := (store s)[r := f (store s ! r)]\<rparr>"

definition set_pc :: "nat \<Rightarrow> worker_pc \<Rightarrow> executor \<Rightarrow> executor" where
  "set_pc w p s = s\<lparr>workers := (workers s)[w := (workers s ! w)\<lparr>pc := p\<rparr>]\<rparr>"

definition set_queue :: "string \<Rightarrow> nat list \<Rightarrow> executor \<Rightarrow> executor" where
  "set_queue name q s =
     (case map_of (buckets s) name of
        None \<Rightarrow> s
      | Some b \<Rightarrow> s\<lparr>buckets := AList.update name (b\<lparr>queue := q\<rparr>) (buckets s)\<rparr>)"

definition is_terminal :: "job_status \<Rightarrow> bool" where
  "is_terminal x \<longleftrightarrow> x \<in> {COMPLETED, FAILED, CANCELLED, INTERRUPTED}"

definition prunable :: "executor \<Rightarrow> nat list" where
  "prunable s =
     filter (\<lambda>r. is_terminal (status (store s ! r)) \<and> job_id (store s ! r) \<notin> set (active_jobs s))
       (map snd (jobs s))"

definition prune_key :: "job \<Rightarrow> nat" where
  "prune_key j = (case finished_at j of None \<Rightarrow> created_at j | Some t \<Rightarrow> if t = 0 then created_at j else t)"

definition prune_jobs_locked :: "executor \<Rightarrow> executor" where
  "prune_jobs_locked s =
     (let terminal = prunable s in
      if length terminal \<le> max_retained_jobs s then s
      else let old = take (length terminal - max_retained_jobs s) (sort_key (\<lambda>r. prune_key (store s ! r)) terminal) in
        s\<lparr>jobs := fold (\<lambda>r d. AList.delete (job_id (store s ! r)) d) old (jobs s)\<rparr>)"

text \<open>\<open>submit_job\<close> up to the point where it queues the job: the refusals and the reuse.\<close>

datatype submit_outcome = Submitted nat | Reused nat | Raised py_error

definition live :: "job_status \<Rightarrow> bool" where
  "live x \<longleftrightarrow> x = QUEUED \<or> x = RUNNING"

definition find_existing :: "submission \<Rightarrow> executor \<Rightarrow> nat option" where
  "find_existing p s =
     List.find (\<lambda>r. job_type (store s ! r) = s_type p \<and> project_name (store s ! r) = s_project p \<and>
       live (status (store s ! r))) (map snd (jobs s))"

definition resource_name :: "submission \<Rightarrow> string" where
  "resource_name p = (if s_resource p = [] then ''default'' else s_resource p)"

definition submit_check :: "submission \<Rightarrow> executor \<Rightarrow> submit_outcome option" where
  "submit_check p s =
     (if \<not> accepting s then Some (Raised (RuntimeError ''background job executor is shutting down''))
      else case (if s_reuse p then find_existing p s else None) of
        Some r \<Rightarrow> Some (Reused r)
      | None \<Rightarrow>
          if map_of (buckets s) (resource_name p) = None
          then Some (Raised (ValueError (''unknown background resource class: '' @ resource_name p)))
          else None)"

text \<open>The rest of \<open>submit_job\<close>: \<open>put_nowait\<close>, registration and persistence. \<open>s_job_id\<close> is the
  caller's identifier or the generated one.\<close>

definition submit_put :: "submission \<Rightarrow> executor \<Rightarrow> submit_outcome \<times> executor" where
  "submit_put p s =
     (case map_of (buckets s) (resource_name p) of
        None \<Rightarrow> (Raised (KeyError (resource_name p)), s)
      | Some b \<Rightarrow>
          if length (queue b) \<ge> max_queue_size b
          then (Raised (RuntimeError (''Background job queue is full for resource '' @ [SQUOTE] @ resource_name p @ [SQUOTE] @
                '' ('' @ show_nat (max_queue_size b) @ '' pending jobs).'')), s)
          else let r = length (store s);
                   j = JobDescriptor (s_job_id p) (s_type p) (s_project p) (resource_name p) (clock s) in
            (Submitted r,
             persist_job_state r
               ((set_queue (resource_name p) (queue b @ [r]) (s\<lparr>store := store s @ [j]\<rparr>))
                  \<lparr>jobs := AList.update (s_job_id p) r (jobs s)\<rparr>)))"

definition submit_job :: "submission \<Rightarrow> executor \<Rightarrow> submit_outcome \<times> executor" where
  "submit_job p s = (case submit_check p s of Some out \<Rightarrow> (out, s) | None \<Rightarrow> submit_put p s)"

definition cancel_job :: "string \<Rightarrow> executor \<Rightarrow> bool \<times> executor" where
  "cancel_job jid s =
     (case map_of (jobs s) jid of
        None \<Rightarrow> (False, s)
      | Some r \<Rightarrow>
          if status (store s ! r) \<in> {COMPLETED, FAILED, CANCELLED} then (False, s)
          else if status (store s ! r) = QUEUED
          then (True, persist_job_state r
                 (update_job r (\<lambda>j. j\<lparr>cancel_requested := True, status := CANCELLED, finished_at := Some (clock s)\<rparr>) s))
          else (True, update_job r (\<lambda>j. j\<lparr>cancel_requested := True\<rparr>) s))"

definition get_job :: "string \<Rightarrow> executor \<Rightarrow> job option" where
  "get_job jid s = map_option (\<lambda>r. store s ! r) (map_of (jobs s) jid)"

record resource_metrics =
  m_workers :: nat
  m_capacity :: nat
  m_queued :: nat
  m_active :: nat

record executor_metrics =
  m_jobs :: nat
  m_resources :: "(string \<times> resource_metrics) list"
  m_limit :: "nat option"
  m_global_active :: nat

definition metrics :: "executor \<Rightarrow> executor_metrics" where
  "metrics s =
     \<lparr>m_jobs = length (jobs s),
      m_resources = map (\<lambda>(name, b). (name,
        \<lparr>m_workers = max_workers b, m_capacity = max_queue_size b, m_queued = length (queue b),
         m_active = length (filter (\<lambda>r. resource_class (store s ! r) = name \<and> status (store s ! r) = RUNNING)
           (map snd (jobs s)))\<rparr>)) (buckets s),
      m_limit = global_worker_budget s, m_global_active = length (active_jobs s)\<rparr>"

section \<open>The worker loop\<close>

text \<open>A worker checks the shutdown flag (\<open>W_idle\<close>), then waits in \<open>queue.get(timeout)\<close> (\<open>W_polling\<close>),
  which returns a job or, on \<open>Empty\<close>, goes back to the check.\<close>

definition worker_get :: "nat \<Rightarrow> executor \<Rightarrow> executor" where
  "worker_get w s =
     (case map_of (buckets s) (w_resource (workers s ! w)) of
        None \<Rightarrow> s
      | Some b \<Rightarrow>
          (case queue b of [] \<Rightarrow> set_pc w W_idle s
           | r # rest \<Rightarrow> set_pc w (W_holding r) (set_queue (w_resource (workers s ! w)) rest s)))"

definition budget_full :: "executor \<Rightarrow> bool" where
  "budget_full s = (case global_worker_budget s of None \<Rightarrow> False | Some n \<Rightarrow> length (active_jobs s) \<ge> n)"

text \<open>The block under \<open>_capacity\<close> before the job runs. It is not entered while the condition of the
  waiting loop holds.\<close>

definition must_wait :: "nat \<Rightarrow> executor \<Rightarrow> bool" where
  "must_wait r s \<longleftrightarrow> budget_full s \<and> \<not> shutdown_event s \<and> \<not> cancel_requested (store s ! r)"

definition worker_start :: "nat \<Rightarrow> nat \<Rightarrow> executor \<Rightarrow> executor" where
  "worker_start w r s =
     (if cancel_requested (store s ! r) \<or> shutdown_event s
      then set_pc w W_idle (persist_job_state r
             (update_job r (\<lambda>j. j\<lparr>status := CANCELLED, finished_at := Some (clock s)\<rparr>) s))
      else let s1 = update_job r (\<lambda>j. j\<lparr>status := RUNNING, started_at := Some (clock s)\<rparr>) s;
               s2 = s1\<lparr>active_jobs := set_add (job_id (store s ! r)) (active_jobs s)\<rparr>
           in set_pc w (W_running r) (persist_job_state r s2))"

text \<open>The end of a job: its function returned a value or raised an exception.\<close>

datatype job_outcome = Returned string | Raised_error string

definition finished_job :: "job_outcome \<Rightarrow> nat \<Rightarrow> job \<Rightarrow> job" where
  "finished_job out now j =
     (case out of
        Returned res \<Rightarrow>
          if cancel_requested j then j\<lparr>status := CANCELLED, finished_at := Some now\<rparr>
          else j\<lparr>status := COMPLETED, job_result := Some res, progress := 1, finished_at := Some now\<rparr>
      | Raised_error e \<Rightarrow> j\<lparr>status := FAILED, error_message := Some e, finished_at := Some now\<rparr>)"

definition worker_finish :: "nat \<Rightarrow> nat \<Rightarrow> job_outcome \<Rightarrow> executor \<Rightarrow> executor" where
  "worker_finish w r out s =
     (let s1 = persist_job_state r (update_job r (finished_job out (clock s)) s);
          s2 = s1\<lparr>active_jobs := removeAll (job_id (store s ! r)) (active_jobs s1)\<rparr>
      in set_pc w W_idle (prune_jobs_locked s2))"

section \<open>Shutdown\<close>

definition shutdown_begin :: "executor \<Rightarrow> executor" where
  "shutdown_begin s = s\<lparr>accepting := False, shutdown_event := True, shutdown_at := S_at 0\<rparr>"

text \<open>\<open>get_nowait\<close> on the queue of the \<open>i\<close>-th bucket.\<close>

definition drain_get :: "nat \<Rightarrow> executor \<Rightarrow> executor" where
  "drain_get i s =
     (let (name, b) = buckets s ! i in
      case queue b of
        [] \<Rightarrow> s\<lparr>shutdown_at := (if Suc i < length (buckets s) then S_at (Suc i) else S_done)\<rparr>
      | r # rest \<Rightarrow> (set_queue name rest s)\<lparr>shutdown_at := S_holding i r\<rparr>)"

definition drain_cancel :: "nat \<Rightarrow> nat \<Rightarrow> executor \<Rightarrow> executor" where
  "drain_cancel i r s =
     (prune_jobs_locked (persist_job_state r
        (update_job r (\<lambda>j. j\<lparr>cancel_requested := True, status := CANCELLED, finished_at := Some (clock s)\<rparr>) s)))
       \<lparr>shutdown_at := S_at i\<rparr>"

section \<open>Interleavings\<close>

datatype label = Tick nat | Submit_enter submission | Submit_put | Cancel string
  | Poll nat | Get nat | Start nat nat | Finish nat nat job_outcome | Exit nat
  | Shutdown_begin | Drain_get nat | Drain_cancel nat nat

inductive estep :: "executor \<Rightarrow> label \<Rightarrow> executor \<Rightarrow> bool" where
  tick: "clock s \<le> t \<Longrightarrow> estep s (Tick t) (s\<lparr>clock := t\<rparr>)"
| submit_enter: "lock_holder s = None \<Longrightarrow> submit_check p s = None \<Longrightarrow>
    estep s (Submit_enter p) (s\<lparr>lock_holder := Some p\<rparr>)"
| submit_commit: "lock_holder s = Some p \<Longrightarrow> submit_put p s = (out, t) \<Longrightarrow>
    estep s Submit_put (t\<lparr>lock_holder := None\<rparr>)"
| cancel: "lock_holder s = None \<Longrightarrow> cancel_job jid s = (ok, t) \<Longrightarrow> estep s (Cancel jid) t"
| poll: "w < length (workers s) \<Longrightarrow> pc (workers s ! w) = W_idle \<Longrightarrow> \<not> shutdown_event s \<Longrightarrow>
    estep s (Poll w) (set_pc w W_polling s)"
| get: "w < length (workers s) \<Longrightarrow> pc (workers s ! w) = W_polling \<Longrightarrow> estep s (Get w) (worker_get w s)"
| worker_begin: "lock_holder s = None \<Longrightarrow> w < length (workers s) \<Longrightarrow> pc (workers s ! w) = W_holding r \<Longrightarrow>
    \<not> must_wait r s \<Longrightarrow> estep s (Start w r) (worker_start w r s)"
| worker_end: "lock_holder s = None \<Longrightarrow> w < length (workers s) \<Longrightarrow> pc (workers s ! w) = W_running r \<Longrightarrow>
    estep s (Finish w r out) (worker_finish w r out s)"
| worker_exit: "w < length (workers s) \<Longrightarrow> pc (workers s ! w) = W_idle \<Longrightarrow> shutdown_event s \<Longrightarrow>
    estep s (Exit w) (set_pc w W_exited s)"
| shutdown: "shutdown_at s = S_not_called \<Longrightarrow> estep s Shutdown_begin (shutdown_begin s)"
| drain_queue: "shutdown_at s = S_at i \<Longrightarrow> i < length (buckets s) \<Longrightarrow> estep s (Drain_get i) (drain_get i s)"
| drain_job: "lock_holder s = None \<Longrightarrow> shutdown_at s = S_holding i r \<Longrightarrow>
    estep s (Drain_cancel i r) (drain_cancel i r s)"

inductive_cases estep_cases: "estep s l t"

section \<open>Frame lemmas\<close>

lemma persist_frame [simp]:
  "store (persist_job_state r s) = store s" "jobs (persist_job_state r s) = jobs s"
  "buckets (persist_job_state r s) = buckets s" "workers (persist_job_state r s) = workers s"
  "lock_holder (persist_job_state r s) = lock_holder s" "shutdown_event (persist_job_state r s) = shutdown_event s"
  "accepting (persist_job_state r s) = accepting s" "active_jobs (persist_job_state r s) = active_jobs s"
  "max_retained_jobs (persist_job_state r s) = max_retained_jobs s"
  "global_worker_budget (persist_job_state r s) = global_worker_budget s"
  "shutdown_at (persist_job_state r s) = shutdown_at s"
  by (simp_all add: persist_job_state_def Let_def)

lemma update_frame [simp]:
  "store (update_job r f s) = (store s)[r := f (store s ! r)]" "jobs (update_job r f s) = jobs s"
  "buckets (update_job r f s) = buckets s" "workers (update_job r f s) = workers s"
  "lock_holder (update_job r f s) = lock_holder s" "shutdown_event (update_job r f s) = shutdown_event s"
  "active_jobs (update_job r f s) = active_jobs s" "global_worker_budget (update_job r f s) = global_worker_budget s"
  "max_retained_jobs (update_job r f s) = max_retained_jobs s"
  "shutdown_at (update_job r f s) = shutdown_at s"
  by (simp_all add: update_job_def)

lemma set_pc_frame [simp]:
  "store (set_pc w p s) = store s" "jobs (set_pc w p s) = jobs s" "buckets (set_pc w p s) = buckets s"
  "active_jobs (set_pc w p s) = active_jobs s" "global_worker_budget (set_pc w p s) = global_worker_budget s"
  "shutdown_at (set_pc w p s) = shutdown_at s" "shutdown_event (set_pc w p s) = shutdown_event s"
  "workers (set_pc w p s) = (workers s)[w := (workers s ! w)\<lparr>pc := p\<rparr>]"
  by (simp_all add: set_pc_def)

lemma set_queue_frame [simp]:
  "store (set_queue n q s) = store s" "jobs (set_queue n q s) = jobs s" "workers (set_queue n q s) = workers s"
  "active_jobs (set_queue n q s) = active_jobs s" "global_worker_budget (set_queue n q s) = global_worker_budget s"
  "shutdown_at (set_queue n q s) = shutdown_at s" "shutdown_event (set_queue n q s) = shutdown_event s"
  by (simp_all add: set_queue_def split: option.split)

lemma prune_frame [simp]:
  "store (prune_jobs_locked s) = store s" "buckets (prune_jobs_locked s) = buckets s"
  "workers (prune_jobs_locked s) = workers s" "active_jobs (prune_jobs_locked s) = active_jobs s"
  "global_worker_budget (prune_jobs_locked s) = global_worker_budget s"
  "shutdown_at (prune_jobs_locked s) = shutdown_at s" "shutdown_event (prune_jobs_locked s) = shutdown_event s"
  by (simp_all add: prune_jobs_locked_def Let_def)

section \<open>Where a job is\<close>

fun held :: "worker_pc \<Rightarrow> nat list" where
  "held (W_holding r) = [r]"
| "held _ = []"

fun run_by :: "worker_pc \<Rightarrow> nat list" where
  "run_by (W_running r) = [r]"
| "run_by _ = []"

fun drained :: "shutdown_pc \<Rightarrow> nat list" where
  "drained (S_holding i r) = [r]"
| "drained _ = []"

definition queued_refs :: "executor \<Rightarrow> nat multiset" where
  "queued_refs s = mset (concat (map (\<lambda>(n, b). queue b) (buckets s)))"

definition held_refs :: "executor \<Rightarrow> nat multiset" where
  "held_refs s = mset (concat (map (\<lambda>w. held (pc w)) (workers s)))"

definition waiting :: "executor \<Rightarrow> nat multiset" where
  "waiting s = queued_refs s + held_refs s + mset (drained (shutdown_at s))"

definition running :: "executor \<Rightarrow> nat multiset" where
  "running s = mset (concat (map (\<lambda>w. run_by (pc w)) (workers s)))"

lemma mset_concat_update:
  "i < length xs \<Longrightarrow> mset (concat (map f (xs[i := y]))) + mset (f (xs ! i)) = mset (concat (map f xs)) + mset (f y)"
  by (induction xs arbitrary: i) (auto split: nat.split simp: less_Suc_eq_0_disj ac_simps)

lemma mset_concat_AList_update:
  "map_of d k = Some v \<Longrightarrow>
   mset (concat (map f (AList.update k v' d))) + mset (f (k, v)) = mset (concat (map f d)) + mset (f (k, v'))"
  by (induction d) (auto simp: ac_simps split: if_splits)

lemma queued_set_queue:
  assumes "map_of (buckets s) n = Some b"
  shows "queued_refs (set_queue n q s) + mset (queue b) = queued_refs s + mset q"
  using mset_concat_AList_update [OF assms, of "\<lambda>(n, b). queue b" "b\<lparr>queue := q\<rparr>"] assms
  by (simp add: queued_refs_def set_queue_def)

lemma held_set_pc:
  "w < length (workers s) \<Longrightarrow> held_refs (set_pc w p s) + mset (held (pc (workers s ! w))) = held_refs s + mset (held p)"
  using mset_concat_update [of w "workers s" "\<lambda>w. held (pc w)" "(workers s ! w)\<lparr>pc := p\<rparr>"]
  by (simp add: held_refs_def)

lemma running_set_pc:
  "w < length (workers s) \<Longrightarrow> running (set_pc w p s) + mset (run_by (pc (workers s ! w))) = running s + mset (run_by p)"
  using mset_concat_update [of w "workers s" "\<lambda>w. run_by (pc w)" "(workers s ! w)\<lparr>pc := p\<rparr>"]
  by (simp add: running_def)

lemma refs_cong:
  "buckets t = buckets s \<Longrightarrow> queued_refs t = queued_refs s"
  "workers t = workers s \<Longrightarrow> held_refs t = held_refs s"
  "workers t = workers s \<Longrightarrow> running t = running s"
  by (simp_all add: queued_refs_def held_refs_def running_def)

section \<open>The invariant\<close>

definition ok_waiting :: "job \<Rightarrow> bool" where
  "ok_waiting j \<longleftrightarrow> status j = QUEUED \<or> (status j = CANCELLED \<and> cancel_requested j)"

definition places_ok :: "executor \<Rightarrow> bool" where
  "places_ok s \<longleftrightarrow> (\<forall>r. count (waiting s + running s) r \<le> 1) \<and> (\<forall>r \<in># waiting s + running s. r < length (store s)) \<and>
     (\<forall>r \<in> snd ` set (jobs s). r < length (store s))"

definition status_ok :: "executor \<Rightarrow> bool" where
  "status_ok s \<longleftrightarrow> (\<forall>r \<in># waiting s. ok_waiting (store s ! r)) \<and> (\<forall>r \<in># running s. status (store s ! r) = RUNNING)"

definition bucket_ok :: "job list \<Rightarrow> string \<times> bucket \<Rightarrow> bool" where
  "bucket_ok st p \<longleftrightarrow> length (queue (snd p)) \<le> max_queue_size (snd p) \<and>
     (\<forall>r \<in> set (queue (snd p)). resource_class (st ! r) = fst p)"

definition worker_ok :: "job list \<Rightarrow> worker \<Rightarrow> bool" where
  "worker_ok st w \<longleftrightarrow> (\<forall>r \<in> set (held (pc w)) \<union> set (run_by (pc w)). resource_class (st ! r) = w_resource w)"

definition class_ok :: "executor \<Rightarrow> bool" where
  "class_ok s \<longleftrightarrow> distinct (map fst (buckets s)) \<and> (\<forall>p \<in> set (buckets s). bucket_ok (store s) p) \<and>
     (\<forall>w \<in> set (workers s). worker_ok (store s) w)"

definition executor_inv :: "executor \<Rightarrow> bool" where
  "executor_inv s \<longleftrightarrow> places_ok s \<and> status_ok s \<and> class_ok s"

lemmas refs_defs = waiting_def running_def queued_refs_def held_refs_def
lemmas inv_defs = executor_inv_def places_ok_def status_ok_def class_ok_def

lemma places_ok_sub:
  assumes "places_ok s" and sub: "waiting t + running t \<subseteq># waiting s + running s"
    and "length (store t) = length (store s)" and "snd ` set (jobs t) \<subseteq> snd ` set (jobs s)"
  shows "places_ok t"
proof -
  have "count (waiting t + running t) r \<le> count (waiting s + running s) r" for r
    by (rule mset_subset_eq_count [OF sub])
  moreover have "set_mset (waiting t + running t) \<subseteq> set_mset (waiting s + running s)"
    by (rule set_mset_mono [OF sub])
  ultimately show ?thesis
    using assms(1,3,4) unfolding places_ok_def by (metis (no_types, lifting) le_trans subsetD)
qed

lemma places_apart: "places_ok s \<Longrightarrow> r \<in># running s \<Longrightarrow> r \<notin># waiting s"
proof
  assume "places_ok s" "r \<in># running s" "r \<in># waiting s"
  then have "count (waiting s) r + count (running s) r \<le> 1" "0 < count (waiting s) r" "0 < count (running s) r"
    by (simp_all add: places_ok_def)
  then show False by linarith
qed

lemma held_mem: "w < length (workers s) \<Longrightarrow> pc (workers s ! w) = W_holding r \<Longrightarrow> r \<in># held_refs s"
  by (force simp: held_refs_def in_set_conv_nth)

lemma running_mem: "w < length (workers s) \<Longrightarrow> pc (workers s ! w) = W_running r \<Longrightarrow> r \<in># running s"
  by (force simp: running_def in_set_conv_nth)

lemma queue_mem: "x \<in> set (buckets s) \<Longrightarrow> q \<in> set (queue (snd x)) \<Longrightarrow> q \<in># queued_refs s"
  by (cases x) (auto simp: queued_refs_def)

lemma bucket_update:
  assumes "map_of (buckets s) n = Some b"
  shows "set (buckets (set_queue n q s)) \<subseteq> insert (n, b\<lparr>queue := q\<rparr>) (set (buckets s))"
    and "distinct (map fst (buckets s)) \<Longrightarrow> distinct (map fst (buckets (set_queue n q s)))"
proof -
  have "set (AList.update k v d) \<subseteq> insert (k, v) (set d)" for k and v :: bucket and d by (induction d) auto
  with assms show "set (buckets (set_queue n q s)) \<subseteq> insert (n, b\<lparr>queue := q\<rparr>) (set (buckets s))"
    by (simp add: set_queue_def)
  show "distinct (map fst (buckets s)) \<Longrightarrow> distinct (map fst (buckets (set_queue n q s)))"
    using assms by (simp add: set_queue_def distinct_update)
qed

lemma class_ok_queue:
  assumes "class_ok s" "map_of (buckets s) n = Some b" "bucket_ok (store s) (n, b\<lparr>queue := q\<rparr>)"
  shows "class_ok (set_queue n q s)"
  using assms bucket_update [OF assms(2), of q] unfolding class_ok_def set_queue_frame by blast

lemma class_ok_pc:
  assumes "class_ok s" "w < length (workers s)" "worker_ok (store s) ((workers s ! w)\<lparr>pc := p\<rparr>)"
  shows "class_ok (set_pc w p s)"
  using assms set_update_subset_insert [of "workers s" w "(workers s ! w)\<lparr>pc := p\<rparr>"]
  unfolding class_ok_def set_pc_frame by blast

lemma class_ok_store:
  assumes "class_ok s" "buckets t = buckets s" "workers t = workers s"
    and "\<And>r. resource_class (store t ! r) = resource_class (store s ! r)"
  shows "class_ok t"
  using assms by (simp add: class_ok_def bucket_ok_def worker_ok_def)

lemma class_ok_worker: "class_ok s \<Longrightarrow> w < length (workers s) \<Longrightarrow> worker_ok (store s) (workers s ! w)"
  by (simp add: class_ok_def)

lemma class_ok_bucket: "class_ok s \<Longrightarrow> map_of (buckets s) n = Some b \<Longrightarrow> bucket_ok (store s) (n, b)"
  unfolding class_ok_def by (blast dest: map_of_SomeD)

lemma class_update: "resource_class (f j) = resource_class j \<Longrightarrow> j = xs ! r \<Longrightarrow> resource_class (xs[r := f j] ! q) = resource_class (xs ! q)"
  by (cases "r < length xs"; cases "q = r") (simp_all add: list_update_beyond)

lemma AList_delete_sub: "set (fold (\<lambda>r d. AList.delete (k r) d) rs d) \<subseteq> set d"
proof (induction rs arbitrary: d)
  case (Cons r rs)
  have "set (AList.delete (k r) d) \<subseteq> set d" by (auto simp: AList.delete_eq)
  with Cons [of "AList.delete (k r) d"] show ?case by simp
qed simp

lemma prune_jobs_sub: "set (jobs (prune_jobs_locked s)) \<subseteq> set (jobs s)"
proof (cases "length (prunable s) \<le> max_retained_jobs s")
  case False
  then have "jobs (prune_jobs_locked s) = fold (\<lambda>r d. AList.delete (job_id (store s ! r)) d)
      (take (length (prunable s) - max_retained_jobs s) (sort_key (\<lambda>r. prune_key (store s ! r)) (prunable s))) (jobs s)"
    by (simp add: prune_jobs_locked_def Let_def)
  then show ?thesis by (simp only: AList_delete_sub [of "\<lambda>r. job_id (store s ! r)"])
qed (simp add: prune_jobs_locked_def)

section \<open>Every step keeps the invariant\<close>

lemma inv_cong:
  assumes "executor_inv s" "store t = store s" "jobs t = jobs s" "buckets t = buckets s" "workers t = workers s"
    and "drained (shutdown_at t) = drained (shutdown_at s)"
  shows "executor_inv t"
  using assms by (simp add: inv_defs refs_defs)

lemma inv_set_pc_free:
  assumes inv: "executor_inv s" and w: "w < length (workers s)" "held (pc (workers s ! w)) = []" "run_by (pc (workers s ! w)) = []"
    and p: "held p = []" "run_by p = []"
  shows "executor_inv (set_pc w p s)"
proof -
  have "waiting (set_pc w p s) = waiting s" "running (set_pc w p s) = running s"
    using held_set_pc [OF w(1), of p] running_set_pc [OF w(1), of p] w(2,3) p
      refs_cong(1) [of "set_pc w p s" s] by (simp_all add: waiting_def)
  moreover have "class_ok (set_pc w p s)"
    by (rule class_ok_pc) (use inv w(1) p in \<open>simp_all add: executor_inv_def worker_ok_def\<close>)
  ultimately show ?thesis
    using inv by (simp add: executor_inv_def places_ok_def status_ok_def)
qed

lemma inv_update_same:
  assumes inv: "executor_inv s" and t: "buckets t = buckets s" "workers t = workers s"
      "drained (shutdown_at t) = drained (shutdown_at s)" "set (jobs t) \<subseteq> set (jobs s)"
    and st: "store t = (store s)[r := f (store s ! r)]"
    and f: "resource_class (f (store s ! r)) = resource_class (store s ! r)"
      "ok_waiting (store s ! r) \<Longrightarrow> ok_waiting (f (store s ! r))"
      "status (store s ! r) = RUNNING \<Longrightarrow> status (f (store s ! r)) = RUNNING"
  shows "executor_inv t"
proof -
  have refs: "waiting t = waiting s" "running t = running s" using t by (simp_all add: refs_defs)
  have nth: "store t ! q = (if q = r \<and> r < length (store s) then f (store s ! r) else store s ! q)" for q
    by (cases "r < length (store s)") (auto simp: st nth_list_update list_update_beyond)
  have "places_ok t"
    by (rule places_ok_sub [of s]) (use inv t refs st in \<open>auto simp: executor_inv_def\<close>)
  moreover have "status_ok t" using inv f(2,3) unfolding executor_inv_def status_ok_def refs nth by auto
  moreover have "class_ok t"
    by (rule class_ok_store [of s]) (use inv t f(1) in \<open>auto simp: executor_inv_def nth\<close>)
  ultimately show ?thesis by (simp add: executor_inv_def)
qed

lemma cancel_jobE:
  assumes "cancel_job jid s = (ok, t)"
  obtains "t = s" | r where "status (store s ! r) = QUEUED"
      "t = persist_job_state r (update_job r (\<lambda>j. j\<lparr>cancel_requested := True, status := CANCELLED, finished_at := Some (clock s)\<rparr>) s)"
    | r where "status (store s ! r) \<notin> {COMPLETED, FAILED, CANCELLED, QUEUED}" "t = update_job r (\<lambda>j. j\<lparr>cancel_requested := True\<rparr>) s"
proof (cases "map_of (jobs s) jid")
  case None
  with assms that(1) show thesis by (simp add: cancel_job_def)
next
  case (Some r)
  note def = assms [unfolded cancel_job_def Some option.case]
  consider "status (store s ! r) \<in> {COMPLETED, FAILED, CANCELLED}" | "status (store s ! r) = QUEUED"
    | "status (store s ! r) \<notin> {COMPLETED, FAILED, CANCELLED, QUEUED}" by blast
  then show thesis
  proof cases
    case 1
    with def have "t = s" by auto
    then show thesis by (rule that(1))
  next
    case 2
    with def have "t = persist_job_state r (update_job r (\<lambda>j. j\<lparr>cancel_requested := True, status := CANCELLED, finished_at := Some (clock s)\<rparr>) s)"
      by simp
    with 2 show thesis by (rule that(2))
  next
    case 3
    with def have "t = update_job r (\<lambda>j. j\<lparr>cancel_requested := True\<rparr>) s" by simp
    with 3 show thesis by (rule that(3))
  qed
qed

lemma inv_cancel:
  assumes "executor_inv s" and "cancel_job jid s = (ok, t)"
  shows "executor_inv t"
proof -
  consider "t = s" | r where "status (store s ! r) = QUEUED"
      "t = persist_job_state r (update_job r (\<lambda>j. j\<lparr>cancel_requested := True, status := CANCELLED, finished_at := Some (clock s)\<rparr>) s)"
    | r where "status (store s ! r) \<notin> {COMPLETED, FAILED, CANCELLED, QUEUED}" "t = update_job r (\<lambda>j. j\<lparr>cancel_requested := True\<rparr>) s"
    by (rule cancel_jobE [OF assms(2)])
  then show ?thesis
  proof cases
    case 2
    show ?thesis
      by (rule inv_update_same [OF assms(1), where r = r and f = "\<lambda>j. j\<lparr>cancel_requested := True, status := CANCELLED, finished_at := Some (clock s)\<rparr>"])
         (use 2 in \<open>simp_all add: ok_waiting_def\<close>)
  next
    case 3
    show ?thesis
      by (rule inv_update_same [OF assms(1), where r = r and f = "\<lambda>j. j\<lparr>cancel_requested := True\<rparr>"])
         (use 3 in \<open>simp_all add: ok_waiting_def\<close>)
  qed (use assms in simp)
qed

lemma inv_poll_get:
  assumes inv: "executor_inv s" and w: "w < length (workers s)" "pc (workers s ! w) = W_polling"
  shows "executor_inv (worker_get w s)"
proof -
  let ?n = "w_resource (workers s ! w)"
  consider "worker_get w s = s" | "worker_get w s = set_pc w W_idle s"
    | b r rest where "map_of (buckets s) ?n = Some b" "queue b = r # rest"
        "worker_get w s = set_pc w (W_holding r) (set_queue ?n rest s)"
    by (cases "map_of (buckets s) ?n"; cases "queue (the (map_of (buckets s) ?n))") (simp_all add: worker_get_def)
  then show ?thesis
  proof cases
    case 3
    let ?u = "set_queue ?n rest s" and ?t = "set_pc w (W_holding r) (set_queue ?n rest s)"
    have bok: "bucket_ok (store s) (?n, b)" using inv 3(1) class_ok_bucket by (simp add: executor_inv_def)
    have "held_refs ?t = held_refs ?u + {#r#}" "running ?t = running ?u"
      using held_set_pc [of w ?u "W_holding r"] running_set_pc [of w ?u "W_holding r"] w by simp_all
    moreover have "queued_refs ?t = queued_refs ?u" "held_refs ?u = held_refs s" "running ?u = running s"
      by (simp_all add: refs_defs)
    moreover have "queued_refs ?u + {#r#} = queued_refs s"
      using queued_set_queue [OF 3(1), of rest] 3(2) by simp
    ultimately have refs: "waiting ?t = waiting s" "running ?t = running s"
      by (simp_all add: waiting_def)
    have "class_ok ?u" using inv bok 3(1,2) by (intro class_ok_queue) (auto simp: executor_inv_def bucket_ok_def)
    then have "class_ok ?t" using bok 3(2) w by (intro class_ok_pc) (simp_all add: worker_ok_def bucket_ok_def)
    with inv refs 3(3) show ?thesis by (simp add: executor_inv_def places_ok_def status_ok_def)
  next
    case 2
    then show ?thesis using inv_set_pc_free [OF inv w(1), of W_idle] w(2) by simp
  qed (use inv in simp)
qed

lemma inv_leave:
  assumes inv: "executor_inv s" and w: "w < length (workers s)" "held (pc (workers s ! w)) @ run_by (pc (workers s ! w)) = [r]"
    and t: "t = set_pc w W_idle u" "buckets u = buckets s" "workers u = workers s"
      "shutdown_at u = shutdown_at s" "set (jobs u) \<subseteq> set (jobs s)" "store u = (store s)[r := f (store s ! r)]"
    and f: "resource_class (f (store s ! r)) = resource_class (store s ! r)"
  shows "executor_inv t"
proof -
  have "held_refs u = held_refs s" "running u = running s" "queued_refs t = queued_refs s"
    using t by (simp_all add: refs_defs)
  then have sum: "waiting t + running t + {#r#} = waiting s + running s"
    using held_set_pc [of w u W_idle] running_set_pc [of w u W_idle] w t
    by (cases "pc (workers s ! w)") (auto simp: waiting_def ac_simps)
  have le: "waiting t \<subseteq># waiting s" "running t \<subseteq># running s"
    using held_set_pc [of w u W_idle] running_set_pc [of w u W_idle] w t \<open>held_refs u = _\<close> \<open>running u = _\<close> \<open>queued_refs t = _\<close>
    by (auto simp: waiting_def) (metis mset_subset_eq_add_left)+
  have r: "r \<notin># waiting t + running t"
  proof -
    have "count (waiting t + running t) r + 1 \<le> 1"
      using inv unfolding executor_inv_def places_ok_def sum [symmetric] by (metis count_add_mset count_single count_union)
    then show ?thesis by (simp add: count_eq_zero_iff)
  qed
  have nth: "q \<noteq> r \<Longrightarrow> store t ! q = store s ! q" for q using t by simp
  have "waiting t + running t \<subseteq># waiting s + running s"
    using sum by (metis mset_subset_eq_add_left)
  then have "places_ok t"
    by (rule places_ok_sub [of s, rotated]) (use inv t in \<open>auto simp: executor_inv_def\<close>)
  moreover have "status_ok t"
    using inv r nth le unfolding executor_inv_def status_ok_def by (metis mset_subset_eqD union_iff)
  moreover have "class_ok u"
    by (rule class_ok_store [of s]) (use inv t f in \<open>auto simp: executor_inv_def class_update\<close>)
  then have "class_ok t" using w t by (auto intro!: class_ok_pc simp: worker_ok_def)
  ultimately show ?thesis by (simp add: executor_inv_def)
qed

lemma inv_worker_start:
  assumes inv: "executor_inv s" and w: "w < length (workers s)" "pc (workers s ! w) = W_holding r"
  shows "executor_inv (worker_start w r s)"
proof (cases "cancel_requested (store s ! r) \<or> shutdown_event s")
  case True
  let ?u = "persist_job_state r (update_job r (\<lambda>j. j\<lparr>status := CANCELLED, finished_at := Some (clock s)\<rparr>) s)"
  show ?thesis
    by (rule inv_leave [OF inv w(1), of r _ ?u "\<lambda>j. j\<lparr>status := CANCELLED, finished_at := Some (clock s)\<rparr>"])
       (use True w in \<open>simp_all add: worker_start_def\<close>)
next
  case False
  define f where "f = (\<lambda>j :: job. j\<lparr>status := RUNNING, started_at := Some (clock s)\<rparr>)"
  define u where "u = persist_job_state r ((update_job r f s)\<lparr>active_jobs := set_add (job_id (store s ! r)) (active_jobs s)\<rparr>)"
  let ?t = "set_pc w (W_running r) u"
  have t: "worker_start w r s = ?t" using False by (simp add: worker_start_def f_def u_def Let_def)
  have u: "workers u = workers s" "buckets u = buckets s" "jobs u = jobs s" "shutdown_at u = shutdown_at s"
    "store u = (store s)[r := f (store s ! r)]" by (simp_all add: u_def)
  have c: "queued_refs ?t = queued_refs s" "held_refs u = held_refs s" "running u = running s"
    using u by (simp_all add: refs_defs)
  have h: "held_refs ?t + {#r#} = held_refs s" and run: "running ?t = running s + {#r#}"
    using held_set_pc [of w u "W_running r"] running_set_pc [of w u "W_running r"] w u(1) c by simp_all
  have wait: "waiting ?t + {#r#} = waiting s" using h c u(4) by (simp add: waiting_def ac_simps)
  have rin: "r \<in># waiting s" using wait by (metis union_iff add_mset_add_single insert_iff set_mset_add_mset_insert)
  then have r: "r < length (store s)" using inv by (auto simp: executor_inv_def places_ok_def)
  have sum: "waiting ?t + running ?t = waiting s + running s"
    using wait run by (metis add.assoc add.commute)
  have rout: "r \<notin># waiting ?t"
  proof -
    have "count (waiting s) r \<le> 1" using inv by (metis add_leD1 count_union executor_inv_def places_ok_def)
    then have "count (waiting ?t) r = 0" using wait by (metis add_leE count_add_mset add_mset_add_single Suc_leI le_less_Suc_eq not_less_eq_eq le_zero_eq One_nat_def Suc_le_mono)
    then show ?thesis by (simp add: count_eq_zero_iff)
  qed
  have nth: "store ?t ! q = (if q = r then f (store s ! r) else store s ! q)" for q using u r by (auto simp: nth_list_update)
  have "places_ok ?t"
    by (rule places_ok_sub [of s]) (use inv sum u in \<open>auto simp: executor_inv_def\<close>)
  moreover have "status_ok ?t"
  proof -
    have "q \<in># waiting ?t \<Longrightarrow> ok_waiting (store ?t ! q)" for q
      using inv rout nth wait unfolding executor_inv_def status_ok_def by (metis union_iff)
    moreover have "q \<in># running ?t \<Longrightarrow> status (store ?t ! q) = RUNNING" for q
      using inv nth run unfolding executor_inv_def status_ok_def f_def by (cases "q = r") auto
    ultimately show ?thesis by (simp add: status_ok_def)
  qed
  moreover have "resource_class (store u ! q) = resource_class (store s ! q)" for q
    using class_update [of f "store s ! r" "store s" r q] u(5) by (simp add: f_def)
  then have "class_ok u"
    by (rule_tac class_ok_store [of s]) (use inv u in \<open>auto simp: executor_inv_def\<close>)
  then have "class_ok ?t"
    by (rule class_ok_pc) (use inv w u r class_ok_worker [of s w] in \<open>auto simp: executor_inv_def worker_ok_def f_def\<close>)
  ultimately show ?thesis using t by (simp add: executor_inv_def)
qed

lemma inv_worker_finish:
  assumes inv: "executor_inv s" and w: "w < length (workers s)" "pc (workers s ! w) = W_running r"
  shows "executor_inv (worker_finish w r out s)"
proof -
  let ?s1 = "persist_job_state r (update_job r (finished_job out (clock s)) s)"
  let ?u = "prune_jobs_locked (?s1\<lparr>active_jobs := removeAll (job_id (store s ! r)) (active_jobs ?s1)\<rparr>)"
  have jobs: "set (jobs ?u) \<subseteq> set (jobs s)"
    using prune_jobs_sub [of "?s1\<lparr>active_jobs := removeAll (job_id (store s ! r)) (active_jobs ?s1)\<rparr>"] by simp
  have class_f: "resource_class (finished_job out (clock s) j) = resource_class j" for j
    by (auto simp: finished_job_def split: job_outcome.split)
  show ?thesis
    by (rule inv_leave [OF inv w(1), of r _ ?u "finished_job out (clock s)"])
       (use w jobs class_f in \<open>simp_all add: worker_finish_def Let_def\<close>)
qed

lemma inv_submit_put:
  assumes inv: "executor_inv s" and "submit_put p s = (out, t)"
  shows "executor_inv t"
proof (cases "map_of (buckets s) (resource_name p)")
  case None
  with assms show ?thesis by (simp add: submit_put_def)
next
  case (Some b)
  let ?n = "resource_name p" and ?r = "length (store s)"
  let ?j = "JobDescriptor (s_job_id p) (s_type p) (s_project p) ?n (clock s)"
  let ?u = "s\<lparr>store := store s @ [?j]\<rparr>"
  let ?v = "set_queue ?n (queue b @ [?r]) ?u"
  show ?thesis
  proof (cases "length (queue b) \<ge> max_queue_size b")
    case True
    with assms Some show ?thesis by (simp add: submit_put_def)
  next
    case False
    with assms Some have t: "t = persist_job_state ?r (?v\<lparr>jobs := AList.update (s_job_id p) ?r (jobs s)\<rparr>)"
      by (simp add: submit_put_def Let_def)
    have "queued_refs ?v = queued_refs s + {#?r#}"
      using queued_set_queue [of ?u ?n b "queue b @ [?r]"] Some by (simp add: queued_refs_def)
    then have refs: "waiting t = waiting s + {#?r#}" "running t = running s"
      by (simp_all add: t refs_defs ac_simps)
    have cls: "resource_class ?j = ?n" by (simp add: JobDescriptor_def resource_name_def)
    have old: "q < length (store s) \<Longrightarrow> store t ! q = store s ! q" for q by (simp add: t nth_append)
    have new: "store t ! ?r = ?j" by (simp add: t)
    have places: "\<forall>q. count (waiting s + running s) q \<le> 1" "\<forall>q \<in># waiting s + running s. q < ?r"
      "\<forall>q \<in> snd ` set (jobs s). q < ?r"
      using inv by (auto simp: executor_inv_def places_ok_def)
    then have "count (waiting s + running s) ?r = 0" by (metis count_eq_zero_iff less_irrefl)
    with places(1) have count: "count (waiting t + running t) q \<le> 1" for q
      by (cases "q = ?r") (simp_all add: refs)
    have "set (AList.update k v d) \<subseteq> insert (k, v) (set d)" for k and v :: nat and d by (induction d) auto
    then have "snd ` set (jobs t) \<subseteq> insert ?r (snd ` set (jobs s))" by (force simp: t)
    moreover have len: "length (store t) = Suc ?r" by (simp add: t)
    ultimately have bound: "\<forall>q \<in> snd ` set (jobs t). q < length (store t)"
      using places(3) by (metis insertE less_Suc_eq subsetD)
    have bound': "\<forall>q \<in># waiting t + running t. q < length (store t)"
      using places(2) unfolding len refs by (auto simp: less_Suc_eq)
    have "status_ok t"
      using inv places(2) old new by (auto simp: executor_inv_def status_ok_def refs ok_waiting_def JobDescriptor_def)
    moreover have "class_ok t"
    proof -
      have mem: "x \<in> set (buckets s) \<Longrightarrow> q \<in> set (queue (snd x)) \<Longrightarrow> q < ?r" for x q
        using places(2) queue_mem [of x s q] by (simp add: waiting_def)
      have mem_w: "x \<in> set (workers s) \<Longrightarrow> q \<in> set (held (pc x)) \<union> set (run_by (pc x)) \<Longrightarrow> q < ?r" for x q
        using places(2) by (auto simp: waiting_def held_refs_def running_def)
      have "class_ok ?u"
        using inv mem mem_w by (auto simp: executor_inv_def class_ok_def bucket_ok_def worker_ok_def nth_append)
      moreover have "bucket_ok (store ?u) (?n, b\<lparr>queue := queue b @ [?r]\<rparr>)"
        using class_ok_bucket [OF calculation, of ?n b] Some False cls by (simp add: bucket_ok_def nth_append)
      ultimately have "class_ok ?v" using Some by (intro class_ok_queue) simp_all
      then show ?thesis by (simp add: t class_ok_def)
    qed
    ultimately show ?thesis using count bound bound' unfolding executor_inv_def places_ok_def by blast
  qed
qed

lemma inv_drain_get:
  assumes inv: "executor_inv s" and at: "shutdown_at s = S_at i" "i < length (buckets s)"
  shows "executor_inv (drain_get i s)"
proof -
  obtain n b where nb: "buckets s ! i = (n, b)" by (cases "buckets s ! i")
  then have b: "map_of (buckets s) n = Some b"
    using inv at(2) by (metis executor_inv_def class_ok_def map_of_is_SomeI nth_mem)
  show ?thesis
  proof (cases "queue b")
    case Nil
    then show ?thesis using inv at by (intro inv_cong [OF inv]) (simp_all add: drain_get_def nb)
  next
    case (Cons r rest)
    let ?u = "set_queue n rest s"
    have t: "drain_get i s = ?u\<lparr>shutdown_at := S_holding i r\<rparr>" using Cons nb by (simp add: drain_get_def)
    have "queued_refs ?u + {#r#} = queued_refs s" using queued_set_queue [OF b, of rest] Cons by simp
    then have refs: "waiting (drain_get i s) = waiting s" "running (drain_get i s) = running s"
      using at(1) by (simp_all add: t refs_defs)
    have "bucket_ok (store s) (n, b)" using inv b class_ok_bucket by (simp add: executor_inv_def)
    then have "class_ok ?u" using inv b Cons by (intro class_ok_queue) (auto simp: executor_inv_def bucket_ok_def)
    then have "class_ok (drain_get i s)" by (simp add: t class_ok_def)
    with inv refs show ?thesis by (simp add: executor_inv_def places_ok_def status_ok_def t)
  qed
qed

lemma inv_forget:
  assumes "executor_inv u" "waiting t + {#r#} = waiting u" "running t = running u"
    and "store t = store u" "jobs t = jobs u" "buckets t = buckets u" "workers t = workers u"
  shows "executor_inv t"
proof -
  have sub: "waiting t \<subseteq># waiting u" using assms(2) by (metis mset_subset_eq_add_left)
  have "places_ok t"
    by (rule places_ok_sub [of u]) (use assms sub in \<open>auto simp: executor_inv_def\<close>)
  moreover have "status_ok t"
    using assms(1,3,4) mset_subset_eqD [OF sub] by (simp add: executor_inv_def status_ok_def)
  moreover have "class_ok t" using assms by (simp add: executor_inv_def class_ok_def)
  ultimately show ?thesis by (simp add: executor_inv_def)
qed

lemma inv_drain_cancel:
  assumes inv: "executor_inv s" and at: "shutdown_at s = S_holding i r"
  shows "executor_inv (drain_cancel i r s)"
proof -
  define f where "f = (\<lambda>j :: job. j\<lparr>cancel_requested := True, status := CANCELLED, finished_at := Some (clock s)\<rparr>)"
  have r: "r \<in># waiting s" using at by (simp add: waiting_def)
  let ?u = "prune_jobs_locked (persist_job_state r (update_job r f s))"
  have "executor_inv ?u"
    by (rule inv_update_same [OF inv, where r = r and f = f])
       (use inv r prune_jobs_sub [of "persist_job_state r (update_job r f s)"] places_apart in
         \<open>auto simp: f_def ok_waiting_def executor_inv_def status_ok_def\<close>)
  moreover have "waiting (?u\<lparr>shutdown_at := S_at i\<rparr>) + {#r#} = waiting ?u" "running (?u\<lparr>shutdown_at := S_at i\<rparr>) = running ?u"
    using at by (simp_all add: refs_defs)
  ultimately have "executor_inv (?u\<lparr>shutdown_at := S_at i\<rparr>)"
    by (rule inv_forget [of ?u _ r]) simp_all
  then show ?thesis by (simp add: drain_cancel_def f_def)
qed

lemma estep_inv: "estep s l t \<Longrightarrow> executor_inv s \<Longrightarrow> executor_inv t"
proof (induction rule: estep.induct)
  case (submit_commit s p out t)
  show ?case by (rule inv_cong [OF inv_submit_put [OF submit_commit(3,2)]]) simp_all
next
  case (worker_exit w s)
  then show ?case by (simp add: inv_set_pc_free)
next
  case (poll w s)
  then show ?case by (simp add: inv_set_pc_free)
next
  case (tick s t)
  show ?case by (rule inv_cong [OF tick(2)]) simp_all
next
  case (submit_enter s p)
  show ?case by (rule inv_cong [OF submit_enter(3)]) simp_all
next
  case (shutdown s)
  show ?case by (rule inv_cong [OF shutdown(2)]) (simp_all add: shutdown_begin_def shutdown(1))
next
  case (cancel s jid ok t)
  then show ?case by (blast intro: inv_cancel)
next
  case (get w s)
  then show ?case by (simp add: inv_poll_get)
next
  case (worker_begin s w r)
  then show ?case by (simp add: inv_worker_start)
next
  case (worker_end s w r out)
  then show ?case by (simp add: inv_worker_finish)
next
  case (drain_queue s i)
  then show ?case by (simp add: inv_drain_get)
next
  case (drain_job s i r)
  then show ?case by (simp add: inv_drain_cancel)
qed

section \<open>What the steps leave alone\<close>

lemma submit_put_effect:
  assumes "submit_put p s = (out, t)"
  shows "t = s \<or> (store t = store s @ [JobDescriptor (s_job_id p) (s_type p) (s_project p) (resource_name p) (clock s)] \<and>
     workers t = workers s \<and> active_jobs t = active_jobs s \<and> global_worker_budget t = global_worker_budget s)"
  using assms by (cases "map_of (buckets s) (resource_name p)") (auto simp: submit_put_def Let_def split: if_splits)

lemma worker_get_effect:
  "store (worker_get w s) = store s \<and> active_jobs (worker_get w s) = active_jobs s \<and>
   global_worker_budget (worker_get w s) = global_worker_budget s"
  by (cases "map_of (buckets s) (w_resource (workers s ! w))";
      cases "queue (the (map_of (buckets s) (w_resource (workers s ! w))))") (simp_all add: worker_get_def)

lemma worker_get_running:
  assumes "w < length (workers s)" "pc (workers s ! w) = W_polling"
  shows "running (worker_get w s) = running s"
proof -
  let ?n = "w_resource (workers s ! w)"
  show ?thesis
  proof (cases "map_of (buckets s) ?n")
    case (Some b)
    show ?thesis
    proof (cases "queue b")
      case Nil
      with Some assms running_set_pc [of w s W_idle] show ?thesis by (simp add: worker_get_def)
    next
      case (Cons r rest)
      with Some assms running_set_pc [of w "set_queue ?n rest s" "W_holding r"] show ?thesis
        by (simp add: worker_get_def) (simp add: running_def)
    qed
  qed (simp add: worker_get_def)
qed

lemma drain_get_effect:
  "store (drain_get i s) = store s \<and> workers (drain_get i s) = workers s \<and> active_jobs (drain_get i s) = active_jobs s \<and>
   global_worker_budget (drain_get i s) = global_worker_budget s"
  by (cases "buckets s ! i") (simp add: drain_get_def split: list.split)

lemma finished_job_keeps:
  "job_id (finished_job out now j) = job_id j"
  by (auto simp: finished_job_def split: job_outcome.split)

text \<open>A job that has ended, or was cancelled, keeps its status.\<close>

definition ended :: "job \<Rightarrow> bool" where
  "ended j \<longleftrightarrow> status j \<in> {COMPLETED, FAILED, CANCELLED}"

lemma running_not_ended:
  "executor_inv s \<Longrightarrow> w < length (workers s) \<Longrightarrow> pc (workers s ! w) = W_running r \<Longrightarrow> \<not> ended (store s ! r)"
  using running_mem [of w s r] by (auto simp: executor_inv_def status_ok_def ended_def)

lemma waiting_ended:
  "executor_inv s \<Longrightarrow> r \<in># waiting s \<Longrightarrow> ended (store s ! r) \<Longrightarrow> status (store s ! r) = CANCELLED \<and> cancel_requested (store s ! r)"
  unfolding executor_inv_def status_ok_def ended_def ok_waiting_def by auto

lemma estep_ended:
  assumes "estep s l t" "executor_inv s" "q < length (store s)" "ended (store s ! q)"
  shows "q < length (store t) \<and> status (store t ! q) = status (store s ! q)"
  using assms
proof (induction rule: estep.induct)
  case (submit_commit s p out t)
  then show ?case using submit_put_effect [OF submit_commit(2)] by (auto simp: nth_append)
next
  case (cancel s jid ok t)
  from cancel(2) show ?case
    by (rule cancel_jobE) (use cancel in \<open>auto simp: nth_update_if ended_def\<close>)
next
  case (get w s)
  then show ?case by (simp add: worker_get_effect)
next
  case (worker_begin s w r)
  then have "r \<in># waiting s" by (simp add: waiting_def held_mem)
  with worker_begin waiting_ended [of s r] show ?case
    by (auto simp: worker_start_def Let_def nth_update_if)
next
  case (worker_end s w r out)
  then show ?case using running_not_ended [of s w r] by (auto simp: worker_finish_def Let_def nth_update_if)
next
  case (drain_queue s i)
  then show ?case by (simp add: drain_get_effect)
next
  case (drain_job s i r)
  then have "r \<in># waiting s" by (simp add: waiting_def)
  with drain_job waiting_ended [of s r] show ?case by (auto simp: drain_cancel_def nth_update_if)
qed (simp_all add: shutdown_begin_def)

section \<open>The global budget\<close>

definition fresh_step :: "executor \<Rightarrow> label \<Rightarrow> executor \<Rightarrow> bool" where
  "fresh_step s l t \<longleftrightarrow> estep s l t \<and>
     (\<forall>p. l = Submit_put \<and> lock_holder s = Some p \<longrightarrow> s_job_id p \<notin> job_id ` set (store s))"

definition budget_inv :: "executor \<Rightarrow> bool" where
  "budget_inv s \<longleftrightarrow> executor_inv s \<and> distinct (map job_id (store s)) \<and> distinct (active_jobs s) \<and>
     set (active_jobs s) = (\<lambda>r. job_id (store s ! r)) ` set_mset (running s) \<and>
     (\<forall>n. global_worker_budget s = Some n \<longrightarrow> length (active_jobs s) \<le> n)"

lemma budget_keep:
  assumes "budget_inv s" "executor_inv t" "map job_id (store t) = map job_id (store s)"
    and "running t = running s" "active_jobs t = active_jobs s" "global_worker_budget t = global_worker_budget s"
  shows "budget_inv t"
proof -
  have "r \<in># running s \<Longrightarrow> job_id (store t ! r) = job_id (store s ! r)" for r
    using assms(1,3) by (metis budget_inv_def executor_inv_def length_map nth_map places_ok_def union_iff)
  with assms show ?thesis by (simp add: budget_inv_def)
qed

lemma budget_size:
  assumes "budget_inv s"
  shows "size (running s) = length (active_jobs s)"
proof -
  have cnt: "count (running s) r \<le> 1" for r
    using assms unfolding budget_inv_def executor_inv_def places_ok_def by (metis add_leD2 count_union)
  have "running s = mset_set (set_mset (running s))"
    by (rule multiset_eqI) (metis cnt count_mset_set(1) count_mset_set(3) finite_set_mset count_eq_zero_iff le_antisym less_one not_le count_greater_zero_iff Suc_leI One_nat_def)
  then have "size (running s) = card (set_mset (running s))" by (metis size_mset_set)
  also have "\<dots> = card ((\<lambda>r. job_id (store s ! r)) ` set_mset (running s))"
  proof (rule card_image [symmetric], rule inj_onI)
    fix x y assume "x \<in># running s" "y \<in># running s" "job_id (store s ! x) = job_id (store s ! y)"
    moreover from this have "x < length (store s)" "y < length (store s)"
      using assms by (auto simp: budget_inv_def executor_inv_def places_ok_def)
    ultimately show "x = y" using assms nth_eq_iff_index_eq [of "map job_id (store s)" x y] by (simp add: budget_inv_def)
  qed
  also have "\<dots> = length (active_jobs s)"
    using assms by (metis budget_inv_def distinct_card)
  finally show ?thesis .
qed

lemma ids_update: "job_id j = job_id (xs ! r) \<Longrightarrow> map job_id (xs[r := j]) = map job_id xs"
  by (metis list_update_id map_update)

lemma budget_start:
  assumes b: "budget_inv s" and w: "w < length (workers s)" "pc (workers s ! w) = W_holding r" and go: "\<not> must_wait r s"
  shows "budget_inv (worker_start w r s)"
proof -
  have inv: "executor_inv (worker_start w r s)" using b w by (intro inv_worker_start) (simp_all add: budget_inv_def)
  show ?thesis
  proof (cases "cancel_requested (store s ! r) \<or> shutdown_event s")
    case True
    let ?u = "persist_job_state r (update_job r (\<lambda>j. j\<lparr>status := CANCELLED, finished_at := Some (clock s)\<rparr>) s)"
    have "running (set_pc w W_idle ?u) = running s"
      using running_set_pc [of w ?u W_idle] w by simp (simp add: running_def)
    with True show ?thesis
      by (intro budget_keep [OF b inv]) (simp_all add: worker_start_def ids_update)
  next
    case False
    define f where "f = (\<lambda>j :: job. j\<lparr>status := RUNNING, started_at := Some (clock s)\<rparr>)"
    define u where "u = persist_job_state r ((update_job r f s)\<lparr>active_jobs := set_add (job_id (store s ! r)) (active_jobs s)\<rparr>)"
    have t: "worker_start w r s = set_pc w (W_running r) u"
      using False by (simp add: worker_start_def f_def u_def Let_def)
    have "running u = running s" by (simp add: u_def running_def)
    then have run: "running (worker_start w r s) = running s + {#r#}"
      using running_set_pc [of w u "W_running r"] w by (simp add: t u_def)
    have ids: "map job_id (store (worker_start w r s)) = map job_id (store s)"
      by (simp add: t u_def ids_update f_def)
    have r: "r < length (store s)"
      using held_mem [OF w] b by (auto simp: budget_inv_def executor_inv_def places_ok_def waiting_def)
    have id_eq: "q < length (store s) \<Longrightarrow> job_id (store (worker_start w r s) ! q) = job_id (store s ! q)" for q
      using ids by (metis length_map nth_map)
    have act: "active_jobs (worker_start w r s) = set_add (job_id (store s ! r)) (active_jobs s)" by (simp add: t u_def)
    have bound: "q \<in># running s \<Longrightarrow> q < length (store s)" for q
      using b by (auto simp: budget_inv_def executor_inv_def places_ok_def)
    have "global_worker_budget (worker_start w r s) = global_worker_budget s" by (simp add: t u_def)
    moreover have "length (active_jobs (worker_start w r s)) \<le> n" if "global_worker_budget s = Some n" for n
      using go False that by (simp add: act must_wait_def budget_full_def set_add_def)
    moreover have "set (active_jobs (worker_start w r s)) = (\<lambda>q. job_id (store (worker_start w r s) ! q)) ` set_mset (running (worker_start w r s))"
      using b r id_eq bound by (auto simp: act run budget_inv_def image_iff)
    ultimately show ?thesis using inv b ids act by (simp add: budget_inv_def)
  qed
qed

lemma budget_finish:
  assumes b: "budget_inv s" and w: "w < length (workers s)" "pc (workers s ! w) = W_running r"
  shows "budget_inv (worker_finish w r out s)"
proof -
  let ?t = "worker_finish w r out s"
  have inv: "executor_inv ?t" using b w by (intro inv_worker_finish) (simp_all add: budget_inv_def)
  let ?s1 = "persist_job_state r (update_job r (finished_job out (clock s)) s)"
  define u where "u = prune_jobs_locked (?s1\<lparr>active_jobs := removeAll (job_id (store s ! r)) (active_jobs s)\<rparr>)"
  have t: "?t = set_pc w W_idle u" by (simp add: worker_finish_def u_def Let_def)
  have "running u = running s" by (simp add: u_def running_def)
  then have run: "running ?t + {#r#} = running s"
    using running_set_pc [of w u W_idle] w by (simp add: t u_def)
  have ids: "map job_id (store ?t) = map job_id (store s)" by (simp add: t u_def ids_update finished_job_keeps)
  have bound: "q \<in># running s \<Longrightarrow> q < length (store s)" for q
    using b by (auto simp: budget_inv_def executor_inv_def places_ok_def)
  have id_eq: "q \<in># running s \<Longrightarrow> job_id (store ?t ! q) = job_id (store s ! q)" for q
    using ids bound by (metis length_map nth_map)
  have rin: "r \<in># running s" by (rule running_mem [OF w])
  have "count (running s) r \<le> 1"
    using b unfolding budget_inv_def executor_inv_def places_ok_def by (metis add_leD2 count_union)
  then have "count (running ?t) r = 0" unfolding run [symmetric] by simp
  then have mem: "q \<in># running ?t \<longleftrightarrow> q \<in># running s \<and> q \<noteq> r" for q
    unfolding run [symmetric] by (auto simp: count_eq_zero_iff)
  have inj: "q \<in># running s \<Longrightarrow> job_id (store s ! q) = job_id (store s ! r) \<Longrightarrow> q = r" for q
    using b bound rin nth_eq_iff_index_eq [of "map job_id (store s)" q r] by (simp add: budget_inv_def)
  have act: "active_jobs ?t = removeAll (job_id (store s ! r)) (active_jobs s)" by (simp add: t u_def)
  have "set (active_jobs ?t) = (\<lambda>q. job_id (store s ! q)) ` (set_mset (running s) - {r})"
    using b inj by (auto simp: act budget_inv_def)
  also have "\<dots> = (\<lambda>q. job_id (store ?t ! q)) ` set_mset (running ?t)"
    using id_eq mem by (auto simp: image_iff)
  finally have "set (active_jobs ?t) = (\<lambda>q. job_id (store ?t ! q)) ` set_mset (running ?t)" .
  moreover have "length (active_jobs ?t) \<le> length (active_jobs s)" by (simp add: act)
  moreover have "global_worker_budget ?t = global_worker_budget s" by (simp add: t u_def)
  ultimately show ?thesis using inv b ids by (auto simp: budget_inv_def act distinct_removeAll intro: le_trans [OF length_removeAll_less_eq])
qed

lemma fresh_step_budget:
  assumes "fresh_step s l t" and b: "budget_inv s"
  shows "budget_inv t"
proof -
  from assms(1) have step: "estep s l t" by (simp add: fresh_step_def)
  then have inv: "executor_inv t" using b estep_inv by (auto simp: budget_inv_def)
  from step show ?thesis
  proof cases
    case (worker_begin w r)
    with b show ?thesis by (simp add: budget_start)
  next
    case (worker_end w r out)
    with b show ?thesis by (simp add: budget_finish)
  next
    case (submit_commit p out u)
    from submit_put_effect [OF submit_commit(4)] show ?thesis
    proof
      assume "u = s"
      with submit_commit show ?thesis by (intro budget_keep [OF b inv]) (simp_all add: running_def)
    next
      assume u: "store u = store s @ [JobDescriptor (s_job_id p) (s_type p) (s_project p) (resource_name p) (clock s)] \<and>
        workers u = workers s \<and> active_jobs u = active_jobs s \<and> global_worker_budget u = global_worker_budget s"
      have "s_job_id p \<notin> job_id ` set (store s)" using assms(1) submit_commit by (simp add: fresh_step_def)
      moreover have "q \<in># running s \<Longrightarrow> q < length (store s)" for q
        using b by (auto simp: budget_inv_def executor_inv_def places_ok_def)
      moreover have "running t = running s" using u submit_commit by (simp add: running_def)
      ultimately show ?thesis using inv u b submit_commit
        by (auto simp: budget_inv_def JobDescriptor_def nth_append image_iff)
    qed
  next
    case (cancel jid ok)
    from cancel(3) show ?thesis
      by (rule cancel_jobE) (rule budget_keep [OF b inv]; simp add: running_def ids_update)+
  next
    case (get w)
    then show ?thesis by (intro budget_keep [OF b inv]) (simp_all add: worker_get_effect worker_get_running)
  next
    case (drain_queue i)
    then show ?thesis by (intro budget_keep [OF b inv]) (simp_all add: drain_get_effect running_def)
  next
    case (drain_job i r)
    then show ?thesis
      by (intro budget_keep [OF b inv]) (simp_all add: drain_cancel_def running_def ids_update)
  next
    case (poll w)
    then show ?thesis using running_set_pc [of w s W_polling]
      by (intro budget_keep [OF b inv]) simp_all
  next
    case (worker_exit w)
    then show ?thesis using running_set_pc [of w s W_exited]
      by (intro budget_keep [OF b inv]) simp_all
  next
    case (submit_enter p)
    then show ?thesis by (intro budget_keep [OF b inv]) (simp_all add: running_def)
  next
    case shutdown
    then show ?thesis by (intro budget_keep [OF b inv]) (simp_all add: running_def shutdown_begin_def)
  next
    case (tick n)
    then show ?thesis by (intro budget_keep [OF b inv]) (simp_all add: running_def)
  qed
qed

section \<open>The executor as a transition system\<close>

definition executor_start :: "executor \<Rightarrow> bool" where
  "executor_start s \<longleftrightarrow> (\<exists>n_workers queue_size db limits retained budget now.
     s = BoundedJobExecutor n_workers queue_size db limits retained budget now)"

definition empty_buckets :: "(string \<times> bucket) list \<Rightarrow> bool" where
  "empty_buckets bs \<longleftrightarrow> distinct (map fst bs) \<and> (\<forall>(n, b) \<in> set bs. queue b = [])"

lemma create_bucket_empty: "empty_buckets bs \<Longrightarrow> empty_buckets (create_bucket n a b bs)"
  by (auto simp: empty_buckets_def create_bucket_def map_of_eq_None_iff)

lemma configured_buckets_empty: "empty_buckets bs \<Longrightarrow> empty_buckets (configured_buckets limits bs)"
  unfolding configured_buckets_def by (induction limits arbitrary: bs) (auto simp: create_bucket_empty)

lemma make_buckets_empty: "empty_buckets (make_buckets a b limits)"
  unfolding make_buckets_def
  by (intro create_bucket_empty configured_buckets_empty) (simp add: empty_buckets_def)

lemma start_workers_idle: "w \<in> set (start_workers bs) \<Longrightarrow> pc w = W_idle"
  by (auto simp: start_workers_def)

lemma executor_start_refs:
  assumes "executor_start s"
  shows "waiting s = {#}" "running s = {#}"
proof -
  from assms obtain a b limits where s: "buckets s = make_buckets a b limits" "workers s = start_workers (buckets s)"
    "shutdown_at s = S_not_called"
    by (auto simp: executor_start_def BoundedJobExecutor_def Let_def)
  have q: "(n, c) \<in> set (buckets s) \<Longrightarrow> queue c = []" for n c
    using make_buckets_empty [of a b limits] s(1) by (auto simp: empty_buckets_def)
  have w: "w \<in> set (workers s) \<Longrightarrow> pc w = W_idle" for w using s(2) start_workers_idle by simp
  show "waiting s = {#}" "running s = {#}"
    using q w s(3) by (auto simp: refs_defs)
qed

lemma executor_start_inv:
  assumes "executor_start s"
  shows "executor_inv s"
proof -
  from assms have s: "jobs s = []" "workers s = start_workers (buckets s)" "empty_buckets (buckets s)"
    using make_buckets_empty by (auto simp: executor_start_def BoundedJobExecutor_def Let_def)
  then have "class_ok s"
    using start_workers_idle by (fastforce simp: class_ok_def empty_buckets_def bucket_ok_def worker_ok_def)
  with s(1) executor_start_refs [OF assms] show ?thesis
    by (simp add: executor_inv_def places_ok_def status_ok_def)
qed

interpretation executor_system: invariant_system executor_start estep executor_inv
  by unfold_locales (auto intro: executor_start_inv elim: estep_inv)

interpretation executor_budget: invariant_system executor_start fresh_step budget_inv
proof
  show "executor_start s \<Longrightarrow> budget_inv s" for s
    using executor_start_inv [of s] executor_start_refs [of s]
    by (auto simp: budget_inv_def executor_start_def BoundedJobExecutor_def Let_def)
qed (rule fresh_step_budget)

section \<open>Correctness\<close>

text \<open>Every label determines its step, so a schedule can be run.\<close>

fun exec_label :: "label \<Rightarrow> executor \<Rightarrow> executor option" where
  "exec_label (Tick t) s = (if clock s \<le> t then Some (s\<lparr>clock := t\<rparr>) else None)"
| "exec_label (Submit_enter p) s =
     (if lock_holder s = None \<and> submit_check p s = None then Some (s\<lparr>lock_holder := Some p\<rparr>) else None)"
| "exec_label Submit_put s =
     (case lock_holder s of None \<Rightarrow> None | Some p \<Rightarrow> Some ((snd (submit_put p s))\<lparr>lock_holder := None\<rparr>))"
| "exec_label (Cancel jid) s = (if lock_holder s = None then Some (snd (cancel_job jid s)) else None)"
| "exec_label (Poll w) s =
     (if w < length (workers s) \<and> pc (workers s ! w) = W_idle \<and> \<not> shutdown_event s then Some (set_pc w W_polling s) else None)"
| "exec_label (Get w) s =
     (if w < length (workers s) \<and> pc (workers s ! w) = W_polling then Some (worker_get w s) else None)"
| "exec_label (Start w r) s =
     (if lock_holder s = None \<and> w < length (workers s) \<and> pc (workers s ! w) = W_holding r \<and> \<not> must_wait r s
      then Some (worker_start w r s) else None)"
| "exec_label (Finish w r out) s =
     (if lock_holder s = None \<and> w < length (workers s) \<and> pc (workers s ! w) = W_running r
      then Some (worker_finish w r out s) else None)"
| "exec_label (Exit w) s =
     (if w < length (workers s) \<and> pc (workers s ! w) = W_idle \<and> shutdown_event s then Some (set_pc w W_exited s) else None)"
| "exec_label Shutdown_begin s = (if shutdown_at s = S_not_called then Some (shutdown_begin s) else None)"
| "exec_label (Drain_get i) s = (if shutdown_at s = S_at i \<and> i < length (buckets s) then Some (drain_get i s) else None)"
| "exec_label (Drain_cancel i r) s =
     (if lock_holder s = None \<and> shutdown_at s = S_holding i r then Some (drain_cancel i r s) else None)"

fun run_labels :: "label list \<Rightarrow> executor \<Rightarrow> executor option" where
  "run_labels [] s = Some s"
| "run_labels (l # ls) s = (case exec_label l s of None \<Rightarrow> None | Some t \<Rightarrow> run_labels ls t)"

lemma case_SomeE:
  assumes "case x of None \<Rightarrow> False | Some t \<Rightarrow> P t"
  obtains t where "x = Some t" "P t"
  using assms by (cases x) auto

lemma exec_label_estep: "exec_label l s = Some t \<Longrightarrow> estep s l t"
proof (cases l)
  case Submit_put
  assume "exec_label l s = Some t"
  with Submit_put obtain p where p: "lock_holder s = Some p" "t = (snd (submit_put p s))\<lparr>lock_holder := None\<rparr>"
    by (auto split: option.splits)
  then show ?thesis using submit_commit [OF p(1), of "fst (submit_put p s)" "snd (submit_put p s)"] Submit_put by simp
next
  case (Cancel jid)
  assume "exec_label l s = Some t"
  then show ?thesis using Cancel estep.cancel [of s jid "fst (cancel_job jid s)" "snd (cancel_job jid s)"]
    by (auto split: if_splits)
qed (auto intro: estep.intros split: if_splits)

lemma run_labels_reaches: "run_labels ls s = Some t \<Longrightarrow> reaches estep s ls t"
  by (induction ls arbitrary: s) (auto intro: reaches_refl reaches_Cons exec_label_estep split: option.splits)

fun fresh_labels :: "label list \<Rightarrow> executor \<Rightarrow> bool" where
  "fresh_labels [] s = True"
| "fresh_labels (l # ls) s =
     ((l = Submit_put \<longrightarrow> (case lock_holder s of None \<Rightarrow> True | Some p \<Rightarrow> s_job_id p \<notin> set (map job_id (store s)))) \<and>
      (case exec_label l s of None \<Rightarrow> True | Some t \<Rightarrow> fresh_labels ls t))"

lemma run_labels_fresh: "run_labels ls s = Some t \<Longrightarrow> fresh_labels ls s \<Longrightarrow> reaches fresh_step s ls t"
proof (induction ls arbitrary: s)
  case (Cons l ls)
  then obtain u where u: "exec_label l s = Some u" "run_labels ls u = Some t" by (auto split: option.splits)
  with Cons.prems(2) have "fresh_step s l u" "fresh_labels ls u"
    by (auto simp: fresh_step_def exec_label_estep)
  with Cons.IH u(2) show ?case by (blast intro: reaches_Cons)
qed (simp add: reaches_refl)

lemma reaches_ended:
  "reaches estep s ls t \<Longrightarrow> executor_inv s \<Longrightarrow> q < length (store s) \<Longrightarrow> ended (store s ! q) \<Longrightarrow>
   executor_inv t \<and> q < length (store t) \<and> status (store t ! q) = status (store s ! q)"
proof (induction rule: reaches.induct)
  case (reaches_step s ls t l u)
  then have t: "executor_inv t" "q < length (store t)" "status (store t ! q) = status (store s ! q)" by auto
  then have "ended (store t ! q)" using reaches_step.prems(3) by (simp add: ended_def)
  then show ?case
    using t estep_inv [OF reaches_step.hyps(2)] estep_ended [OF reaches_step.hyps(2) t(1,2)] by simp
qed simp

lemma length_run_by: "length (concat (map (\<lambda>w. run_by (pc w)) ws)) = length (filter (\<lambda>w. run_by (pc w) \<noteq> []) ws)"
proof (induction ws)
  case (Cons w ws)
  then show ?case by (cases "pc w") simp_all
qed simp

definition sample_submission :: submission where
  "sample_submission = \<lparr>s_type = ''export'', s_project = ''P'', s_job_id = ''j1'', s_reuse = True, s_resource = []\<rparr>"

definition sample_executor :: executor where
  "sample_executor = BoundedJobExecutor 1 2 True [] 16 (Some 1) 0"

lemma sample_executor_start: "executor_start sample_executor"
  unfolding executor_start_def sample_executor_def by blast

text \<open>In every interleaving, every queue holds at most its configured number of jobs and only
  jobs of its own resource class, and a worker only ever holds or runs jobs of its own class.\<close>

lemma executor_queues_bounded_isolated:
  assumes "executor_start s0" and "reaches estep s0 ls s"
  shows "(\<forall>(n, b) \<in> set (buckets s). length (queue b) \<le> max_queue_size b \<and>
            (\<forall>r \<in> set (queue b). resource_class (store s ! r) = n)) \<and>
         (\<forall>w \<in> set (workers s). \<forall>r \<in> set (held (pc w)) \<union> set (run_by (pc w)). resource_class (store s ! r) = w_resource w)"
  using executor_system.reachable_inv [OF assms]
  by (fastforce simp: executor_inv_def class_ok_def bucket_ok_def worker_ok_def)

theorem executor_queues_bounded_isolated_witness:
  "\<exists>s. run_labels [Submit_enter sample_submission, Submit_put] sample_executor = Some s \<and>
     list_all (\<lambda>(n, b). length (queue b) \<le> max_queue_size b) (buckets s) \<and> length (store s) = 1"
proof -
  have "run_labels [Submit_enter sample_submission, Submit_put] sample_executor \<noteq> None" by code_simp
  then obtain s where s: "run_labels [Submit_enter sample_submission, Submit_put] sample_executor = Some s" by auto
  have "map_option (\<lambda>s. length (store s)) (run_labels [Submit_enter sample_submission, Submit_put] sample_executor) = Some 1"
    by code_simp
  with executor_queues_bounded_isolated [OF sample_executor_start run_labels_reaches [OF s]] s show ?thesis
    by (auto simp: list_all_iff)
qed

text \<open>A job that has completed, failed or been cancelled keeps that status in every later
  state: in particular a job cancelled while it was queued is never run.\<close>

lemma ended_job_stays_ended:
  assumes "executor_start s0" and "reaches estep s0 ls s" and "reaches estep s ls' t"
    and "q < length (store s)" and "status (store s ! q) \<in> {COMPLETED, FAILED, CANCELLED}"
  shows "status (store t ! q) = status (store s ! q)"
  using reaches_ended [OF assms(3) executor_system.reachable_inv [OF assms(1,2)] assms(4)] assms(5)
  by (simp add: ended_def)

theorem ended_job_stays_ended_witness:
  "\<exists>s t. run_labels [Submit_enter sample_submission, Submit_put, Cancel ''j1''] sample_executor = Some s \<and>
     run_labels [Poll 0, Get 0, Start 0 0] s = Some t \<and> status (store t ! 0) = CANCELLED"
proof -
  let ?ls = "[Submit_enter sample_submission, Submit_put, Cancel ''j1'']"
  have "\<exists>s. run_labels ?ls sample_executor = Some s \<and> length (store s) = 1 \<and> status (store s ! 0) = CANCELLED \<and>
      run_labels [Poll 0, Get 0, Start 0 0] s \<noteq> None"
  proof -
    have "(case run_labels ?ls sample_executor of None \<Rightarrow> False | Some s \<Rightarrow>
        length (store s) = 1 \<and> status (store s ! 0) = CANCELLED \<and> run_labels [Poll 0, Get 0, Start 0 0] s \<noteq> None)"
      by code_simp
    then show ?thesis by (rule case_SomeE) blast
  qed
  then obtain s t where s: "run_labels ?ls sample_executor = Some s" "length (store s) = 1" "status (store s ! 0) = CANCELLED"
    and t: "run_labels [Poll 0, Get 0, Start 0 0] s = Some t" by auto
  with ended_job_stays_ended [OF sample_executor_start run_labels_reaches [OF s(1)] run_labels_reaches [OF t], of 0]
  show ?thesis by auto
qed

text \<open>C28: With a global worker budget, and identifiers that are not reused, at most that many worker
  threads run a job at any time, whatever the resource classes and the interleaving.\<close>

theorem global_budget_respected:
  assumes "executor_start s0" and "reaches fresh_step s0 ls s" and "global_worker_budget s = Some n"
  shows "length (filter (\<lambda>w. run_by (pc w) \<noteq> []) (workers s)) \<le> n"
proof -
  have b: "budget_inv s" by (rule executor_budget.reachable_inv [OF assms(1,2)])
  have "size (running s) \<le> n" using budget_size [OF b] b assms(3) by (simp add: budget_inv_def)
  then show ?thesis by (simp add: running_def length_run_by)
qed

theorem global_budget_respected_witness:
  "\<exists>s. run_labels [Submit_enter sample_submission, Submit_put, Poll 0, Get 0, Start 0 0] sample_executor = Some s \<and>
     length (filter (\<lambda>w. run_by (pc w) \<noteq> []) (workers s)) \<le> 1"
proof -
  let ?ls1 = "[Submit_enter sample_submission]" and ?ls2 = "[Poll 0, Get 0, Start 0 0]"
  have "(case run_labels [Submit_enter sample_submission, Submit_put, Poll 0, Get 0, Start 0 0] sample_executor of
      None \<Rightarrow> False | Some s \<Rightarrow> global_worker_budget s = Some 1)" by code_simp
  then obtain s where s: "run_labels [Submit_enter sample_submission, Submit_put, Poll 0, Get 0, Start 0 0] sample_executor = Some s"
    and n: "global_worker_budget s = Some 1" by (rule case_SomeE)
  have "fresh_labels [Submit_enter sample_submission, Submit_put, Poll 0, Get 0, Start 0 0] sample_executor" by code_simp
  from global_budget_respected [OF sample_executor_start run_labels_fresh [OF s this] n] s show ?thesis by blast
qed

text \<open>\<open>shutdown\<close> empties the queues without the lock, so a submission that has already passed the
  check of \<open>_accepting\<close> can queue its job after its queue was emptied: \<open>shutdown\<close> is through,
  every worker has left, and the job is still reported as queued.\<close>

lemma shutdown_leaves_queued_job:
  "\<exists>ls t. reaches estep sample_executor ls t \<and> shutdown_at t = S_done \<and> lock_holder t = None \<and>
     list_all (\<lambda>w. pc w = W_exited) (workers t) \<and> map_option status (get_job ''j1'' t) = Some QUEUED"
proof -
  let ?ls = "[Submit_enter sample_submission, Shutdown_begin, Drain_get 0, Drain_get 1, Drain_get 2, Drain_get 3,
     Submit_put, Exit 0, Exit 1, Exit 2, Exit 3]"
  have "(case run_labels ?ls sample_executor of None \<Rightarrow> False | Some t \<Rightarrow> shutdown_at t = S_done \<and> lock_holder t = None \<and>
     list_all (\<lambda>w. pc w = W_exited) (workers t) \<and> map_option status (get_job ''j1'' t) = Some QUEUED)"
    by code_simp
  then obtain t where t: "run_labels ?ls sample_executor = Some t" and "shutdown_at t = S_done \<and> lock_holder t = None \<and>
     list_all (\<lambda>w. pc w = W_exited) (workers t) \<and> map_option status (get_job ''j1'' t) = Some QUEUED"
    by (rule case_SomeE)
  with run_labels_reaches [OF t] show ?thesis by blast
qed

end
