(* ===== verification/ConnectionPool.thy ===== *)
theory ConnectionPool
  imports Prelude "HOL-Library.Multiset"
begin

text \<open>
  The MySQL connection pool of \<open>app/db/connection_pool.py\<close>: wrapped connections, borrowing,
  returning and closing as steps that threads interleave, the retrying read-only cursor, and
  the registry of shared pools. What PyMySQL answers (whether a ping, a rollback or a connect
  succeeds, what \<open>get_autocommit\<close> says) is an argument of the step that asks. The threads are
  represented by what they hold: \<open>in_check\<close> are wrappers a borrower took from the queue and has
  not validated yet, \<open>borrowed\<close> are in a caller's hands, \<open>returning\<close> passed the checks of
  \<open>return_connection\<close> and are about to be queued, \<open>closing\<close> were taken by \<open>close_all\<close>. Times are whole
  numbers.

  Shown: open connections plus connections being opened never exceed \<open>max_connections\<close> and every
  open connection is in exactly one place; a statement is executed a second time only if it is a
  plain read that failed with a connection error; a shared pool is closed only by its last
  release; and two defects, a connection left open by \<open>close_all\<close> and pool limits that the
  registry ignores.
\<close>

section \<open>Retrying reads\<close>

record conn_error =
  os_error :: bool
  pymysql_error :: bool
  error_code :: "int option"

definition is_connection_error :: "conn_error \<Rightarrow> bool" where
  "is_connection_error e \<longleftrightarrow> os_error e \<or> pymysql_error e \<or>
     (case error_code e of None \<Rightarrow> False | Some c \<Rightarrow> c \<in> {2006, 2013, 2055})"

datatype sql_argument = No_sql | Sql string | Undecodable_bytes

definition is_retryable_read_sql :: "sql_argument \<Rightarrow> bool" where
  "is_retryable_read_sql sql =
     (case sql of Undecodable_bytes \<Rightarrow> False | No_sql \<Rightarrow> False
      | Sql t \<Rightarrow> (case py_words t of [] \<Rightarrow> False
          | w # _ \<Rightarrow> map to_upper w \<in> set [''SELECT'', ''SHOW'', ''DESC'', ''DESCRIBE'', ''EXPLAIN'']))"

datatype outcome = Done string | Failed conn_error

text \<open>\<open>_RetryingReadOnlyCursor._run\<close>: \<open>attempt n\<close> is what the n-th execution does; the result and the
  number of executions.\<close>

definition run_cursor :: "string \<Rightarrow> sql_argument \<Rightarrow> bool \<Rightarrow> (nat \<Rightarrow> outcome) \<Rightarrow> outcome \<times> nat" where
  "run_cursor method_name sql reconnect attempt =
     (case attempt 0 of
        Done v \<Rightarrow> (Done v, 1)
      | Failed e \<Rightarrow>
          if \<not> (method_name = ''execute'' \<and> is_retryable_read_sql sql) \<or> \<not> is_connection_error e \<or> \<not> reconnect
          then (Failed e, 1) else (attempt 1, 2))"

section \<open>The pool\<close>

record pool_config =
  min_connections :: nat
  max_connections :: nat
  borrow_timeout :: nat
  max_lifetime_sec :: nat
  idle_ping_after_sec :: nat
  rollback_on_return :: bool
  retry_read_operations :: bool

record wrapper =
  created_at :: nat
  last_used_at :: nat
  last_returned_at :: nat
  is_closed :: bool
  read_only :: bool

text \<open>What the raw connection answers when it is asked.\<close>

record raw_conn =
  has_ping :: bool
  ping_ok :: bool
  has_rollback :: bool
  rollback_ok :: bool
  autocommit_reply :: "bool option"

datatype close_pc = C_open | C_draining | C_closing nat | C_done

record pool =
  cfg :: pool_config
  wrappers :: "wrapper list"
  idle :: "nat list"
  active_count :: nat
  connecting_count :: nat
  waiters :: nat
  is_shutdown :: bool
  metrics :: "(string \<times> nat) list"
  clock :: nat
  in_check :: "nat list"
  borrowed :: "nat list"
  returning :: "nat list"
  close_at :: close_pc

definition PooledConnectionWrapper :: "nat \<Rightarrow> wrapper" where
  "PooledConnectionWrapper now =
     \<lparr>created_at = now, last_used_at = now, last_returned_at = now, is_closed = False, read_only = False\<rparr>"

definition metric_names :: "string list" where
  "metric_names = [''acquires'', ''acquire_timeouts'', ''reconnects'', ''pings'', ''ping_skips'', ''rollbacks'',
     ''rollback_skips'', ''read_only_rollbacks'', ''read_reconnects'', ''rollback_failures'', ''poisoned_discards'']"

definition record_metric :: "string \<Rightarrow> pool \<Rightarrow> pool" where
  "record_metric name s = s\<lparr>metrics := AList.update name (dict_get (metrics s) name 0 + 1) (metrics s)\<rparr>"

definition is_alive :: "nat \<Rightarrow> raw_conn \<Rightarrow> bool \<Rightarrow> pool \<Rightarrow> bool \<times> pool" where
  "is_alive r raw force_ping s =
     (let w = wrappers s ! r in
      if is_closed w then (False, s)
      else if \<not> force_ping \<and> clock s - last_returned_at w < idle_ping_after_sec (cfg s)
      then (True, record_metric ''ping_skips'' s)
      else if has_ping raw then (if ping_ok raw then (True, record_metric ''pings'' s) else (False, s))
      else (True, s))"

definition rollback_if_dirty :: "nat \<Rightarrow> raw_conn \<Rightarrow> pool \<Rightarrow> bool \<times> pool" where
  "rollback_if_dirty r raw s =
     (if \<not> rollback_on_return (cfg s) then (True, record_metric ''rollback_skips'' s)
      else if read_only (wrappers s ! r) \<and> autocommit_reply raw = Some True
      then (True, record_metric ''rollback_skips'' s)
      else if has_rollback raw \<and> rollback_ok raw then (True, record_metric ''rollbacks'' s)
      else (False, record_metric ''rollback_failures'' s))"

definition update_wrapper :: "nat \<Rightarrow> (wrapper \<Rightarrow> wrapper) \<Rightarrow> pool \<Rightarrow> pool" where
  "update_wrapper r f s = s\<lparr>wrappers := (wrappers s)[r := f (wrappers s ! r)]\<rparr>"

definition close_wrapper :: "nat \<Rightarrow> pool \<Rightarrow> pool" where
  "close_wrapper r s = update_wrapper r (\<lambda>w. w\<lparr>is_closed := True\<rparr>) s"

definition discard_wrapper :: "nat \<Rightarrow> pool \<Rightarrow> pool" where
  "discard_wrapper r s = (close_wrapper r s)\<lparr>active_count := active_count s - 1\<rparr>"

section \<open>Borrowing\<close>

definition borrow_begin :: "pool \<Rightarrow> pool result" where
  "borrow_begin s =
     (if is_shutdown s then Inl (RuntimeError ''Connection pool has been shut down.'')
      else Inr (record_metric ''acquires'' s))"

text \<open>\<open>get_nowait\<close> (or the timed \<open>get\<close>) returned the oldest idle wrapper.\<close>

definition take_idle :: "pool \<Rightarrow> pool" where
  "take_idle s = (case idle s of [] \<Rightarrow> s | r # rest \<Rightarrow> s\<lparr>idle := rest, in_check := in_check s @ [r]\<rparr>)"

text \<open>The lifetime and liveness check of a wrapper taken from the queue.\<close>

definition check_wrapper :: "nat \<Rightarrow> raw_conn \<Rightarrow> pool \<Rightarrow> pool" where
  "check_wrapper r raw s0 =
     (let s = s0\<lparr>in_check := remove1 r (in_check s0)\<rparr>;
          (ok, s1) = (if clock s - created_at (wrappers s ! r) > max_lifetime_sec (cfg s) then (False, s)
                      else is_alive r raw False s) in
      if ok then (update_wrapper r (\<lambda>w. w\<lparr>last_used_at := clock s, read_only := False\<rparr>) s1)\<lparr>borrowed := borrowed s @ [r]\<rparr>
      else discard_wrapper r (record_metric ''reconnects'' s1))"

definition can_reserve :: "pool \<Rightarrow> bool" where
  "can_reserve s \<longleftrightarrow> active_count s + connecting_count s < max_connections (cfg s)"

definition reserve :: "pool \<Rightarrow> pool" where
  "reserve s = s\<lparr>connecting_count := connecting_count s + 1\<rparr>"

definition connect_failed :: "pool \<Rightarrow> pool" where
  "connect_failed s = s\<lparr>connecting_count := connecting_count s - 1\<rparr>"

definition connect_done :: "pool \<Rightarrow> pool" where
  "connect_done s =
     s\<lparr>connecting_count := connecting_count s - 1, active_count := active_count s + 1,
       wrappers := wrappers s @ [PooledConnectionWrapper (clock s)],
       borrowed := borrowed s @ [length (wrappers s)]\<rparr>"

definition borrow_timed_out :: "pool \<Rightarrow> py_error \<times> pool" where
  "borrow_timed_out s =
     (TimeoutError (''Connection pool exhausted ('' @ show_nat (active_count s) @ ''/'' @
        show_nat (max_connections (cfg s)) @ '' active).''), record_metric ''acquire_timeouts'' s)"

definition wait_begin :: "pool \<Rightarrow> pool" where
  "wait_begin s = s\<lparr>waiters := waiters s + 1\<rparr>"

definition wait_end :: "pool \<Rightarrow> pool" where
  "wait_end s = s\<lparr>waiters := waiters s - 1\<rparr>"

section \<open>Returning and closing\<close>

text \<open>\<open>return_connection\<close> up to the point where the wrapper is queued.\<close>

definition return_check :: "nat \<Rightarrow> raw_conn \<Rightarrow> pool \<Rightarrow> pool" where
  "return_check r raw s0 =
     (let s = s0\<lparr>borrowed := remove1 r (borrowed s0)\<rparr> in
      if is_closed (wrappers s ! r) then s
      else if is_shutdown s then discard_wrapper r s
      else case rollback_if_dirty r raw s of
        (False, s1) \<Rightarrow> discard_wrapper r (record_metric ''poisoned_discards'' s1)
      | (True, s1) \<Rightarrow>
          (update_wrapper r (\<lambda>w. w\<lparr>last_returned_at := clock s\<rparr>) s1)\<lparr>returning := returning s @ [r]\<rparr>)"

definition return_put :: "nat \<Rightarrow> pool \<Rightarrow> pool" where
  "return_put r s0 =
     (let s = s0\<lparr>returning := remove1 r (returning s0)\<rparr> in
      if length (idle s) < max_connections (cfg s) then s\<lparr>idle := idle s @ [r]\<rparr> else discard_wrapper r s)"

text \<open>\<open>connection(read_only)\<close>: the hint is set on the borrowed wrapper; which object the caller gets.\<close>

definition mark_read_only :: "nat \<Rightarrow> bool \<Rightarrow> pool \<Rightarrow> pool" where
  "mark_read_only r flag s = update_wrapper r (\<lambda>w. w\<lparr>read_only := flag\<rparr>) s"

definition uses_retrying_proxy :: "bool \<Rightarrow> string \<Rightarrow> bool \<Rightarrow> bool \<Rightarrow> pool \<Rightarrow> bool" where
  "uses_retrying_proxy flag module_name has_cursor ping s \<longleftrightarrow>
     flag \<and> retry_read_operations (cfg s) \<and> starts_with ''pymysql'' module_name \<and> has_cursor \<and> ping"

definition close_begin :: "pool \<Rightarrow> pool" where
  "close_begin s = s\<lparr>is_shutdown := True, close_at := C_draining\<rparr>"

definition close_take :: "pool \<Rightarrow> pool" where
  "close_take s = (case idle s of [] \<Rightarrow> s\<lparr>close_at := C_done\<rparr> | r # rest \<Rightarrow> s\<lparr>idle := rest, close_at := C_closing r\<rparr>)"

definition close_one :: "nat \<Rightarrow> pool \<Rightarrow> pool" where
  "close_one r s = (discard_wrapper r s)\<lparr>close_at := C_draining\<rparr>"

definition pool_metrics :: "pool \<Rightarrow> (string \<times> nat) list" where
  "pool_metrics s =
     fold (\<lambda>(k, v) d. AList.update k v d)
       [(''active'', active_count s), (''idle'', length (idle s)), (''waiters'', waiters s),
        (''connecting'', connecting_count s), (''capacity'', max_connections (cfg s))] (metrics s)"

section \<open>Interleavings\<close>

datatype plabel = P_tick nat | Borrow_begin | Take_idle | Check nat raw_conn | Reserve | Connect_failed | Connect_done
  | Timed_out | Wait_begin | Wait_end | Mark nat bool | Return_check nat raw_conn | Return_put nat
  | Close_begin | Close_take | Close_one nat

fun pool_label :: "plabel \<Rightarrow> pool \<Rightarrow> pool option" where
  "pool_label (P_tick t) s = (if clock s \<le> t then Some (s\<lparr>clock := t\<rparr>) else None)"
| "pool_label Borrow_begin s = (case borrow_begin s of Inl e \<Rightarrow> Some s | Inr t \<Rightarrow> Some t)"
| "pool_label Take_idle s = Some (take_idle s)"
| "pool_label (Check r raw) s = (if r \<in> set (in_check s) then Some (check_wrapper r raw s) else None)"
| "pool_label Reserve s = (if can_reserve s then Some (reserve s) else None)"
| "pool_label Connect_failed s = (if 0 < connecting_count s then Some (connect_failed s) else None)"
| "pool_label Connect_done s = (if 0 < connecting_count s then Some (connect_done s) else None)"
| "pool_label Timed_out s = Some (snd (borrow_timed_out s))"
| "pool_label Wait_begin s = Some (wait_begin s)"
| "pool_label Wait_end s = Some (wait_end s)"
| "pool_label (Mark r flag) s = (if r \<in> set (borrowed s) then Some (mark_read_only r flag s) else None)"
| "pool_label (Return_check r raw) s = (if r \<in> set (borrowed s) then Some (return_check r raw s) else None)"
| "pool_label (Return_put r) s = (if r \<in> set (returning s) then Some (return_put r s) else None)"
| "pool_label Close_begin s = (if close_at s = C_open then Some (close_begin s) else None)"
| "pool_label Close_take s = (if close_at s = C_draining then Some (close_take s) else None)"
| "pool_label (Close_one r) s = (if close_at s = C_closing r then Some (close_one r s) else None)"

definition pool_step :: "pool \<Rightarrow> plabel \<Rightarrow> pool \<Rightarrow> bool" where
  "pool_step s l t \<longleftrightarrow> pool_label l s = Some t"

section \<open>Shared pools\<close>

datatype cfg_value = Num int | Str string | Flag bool

datatype cfg_entry = Scalar cfg_value | Sub "(string \<times> cfg_value) list"

type_synonym config = "(string \<times> cfg_entry) list"

definition normalized_pool_config :: "config \<Rightarrow> config" where
  "normalized_pool_config raw =
     (case map_of raw ''mysql'' of
        Some (Sub mysql) \<Rightarrow>
          map (\<lambda>(k, v). (k, Scalar v))
            (dict_update mysql (case map_of raw ''pool'' of Some (Sub p) \<Rightarrow> p | _ \<Rightarrow> []))
      | _ \<Rightarrow> raw)"

fun str_value :: "cfg_value \<Rightarrow> string" where
  "str_value (Num n) = show_int n"
| "str_value (Str t) = t"
| "str_value (Flag b) = (if b then ''True'' else ''False'')"

definition key_fields :: "string list" where
  "key_fields = [''host'', ''port'', ''user'', ''password'', ''database'', ''charset'', ''connect_timeout'',
     ''idle_ping_after_sec'', ''rollback_on_return'', ''min_connections'', ''max_connections'', ''borrow_timeout'',
     ''max_lifetime_sec'']"

text \<open>The key of a configuration. A field that is itself a dictionary has no textual form here.\<close>

definition pool_key :: "config \<Rightarrow> (string \<times> string) list" where
  "pool_key db_config =
     (let config = normalized_pool_config db_config in
      map (\<lambda>name. (name, case map_of config name of Some (Scalar v) \<Rightarrow> str_value v | _ \<Rightarrow> [])) key_fields)"

fun truthy :: "cfg_entry \<Rightarrow> bool" where
  "truthy (Scalar (Num n)) = (n \<noteq> 0)"
| "truthy (Scalar (Str t)) = (t \<noteq> [])"
| "truthy (Scalar (Flag b)) = b"
| "truthy (Sub d) = (d \<noteq> [])"

fun seconds :: "cfg_entry \<Rightarrow> int result" where
  "seconds (Scalar (Num n)) = Inr n"
| "seconds (Scalar (Str t)) = py_int_text t"
| "seconds (Scalar (Flag b)) = Inr (if b then 1 else 0)"
| "seconds (Sub d) = Inl (ValueError ''float() argument must be a string or a number'')"

definition MySQLConnectionPool ::
  "config \<Rightarrow> int \<Rightarrow> int \<Rightarrow> nat \<Rightarrow> nat \<Rightarrow> int \<Rightarrow> bool \<Rightarrow> nat \<Rightarrow> pool result" where
  "MySQLConnectionPool db_config min_conn max_conn timeout lifetime ping_after rollback now =
     rbind (case map_of db_config ''idle_ping_after_sec'' of None \<Rightarrow> Inr ping_after | Some e \<Rightarrow> seconds e)
       (\<lambda>after. Inr
         \<lparr>cfg = \<lparr>min_connections = nat (max 1 min_conn), max_connections = nat (max (max 1 min_conn) max_conn),
                 borrow_timeout = timeout, max_lifetime_sec = lifetime, idle_ping_after_sec = nat (max 0 after),
                 rollback_on_return = (case map_of db_config ''rollback_on_return'' of None \<Rightarrow> rollback | Some e \<Rightarrow> truthy e),
                 retry_read_operations = (case map_of db_config ''retry_read_operations'' of None \<Rightarrow> True | Some e \<Rightarrow> truthy e)\<rparr>,
          wrappers = [], idle = [], active_count = 0, connecting_count = 0, waiters = 0, is_shutdown = False,
          metrics = map (\<lambda>n. (n, 0)) metric_names, clock = now, in_check = [], borrowed = [], returning = [], close_at = C_open\<rparr>)"

text \<open>A pool made by the registry: every limit keeps its default.\<close>

definition default_pool :: "config \<Rightarrow> nat \<Rightarrow> pool result" where
  "default_pool normalized now = MySQLConnectionPool normalized 2 10 10 1800 60 True now"

text \<open>The registry: pool objects by number with their shutdown flag, the pools by key, the
  reference counts, and the most recent pool.\<close>

type_synonym pool_key_type = "(string \<times> string) list"

record registry =
  pools_made :: "pool list"
  pools :: "(pool_key_type \<times> nat) list"
  pool_refs :: "(pool_key_type \<times> nat) list"
  current_pool :: "nat option"

definition close_all :: "pool \<Rightarrow> pool" where
  "close_all s = fold (\<lambda>r t. (discard_wrapper r t)\<lparr>idle := remove1 r (idle t)\<rparr>) (idle s) (s\<lparr>is_shutdown := True\<rparr>)"

definition get_global_pool :: "config \<Rightarrow> nat \<Rightarrow> registry \<Rightarrow> (nat option \<times> registry) result" where
  "get_global_pool db_config now g =
     (if db_config = [] then Inr (current_pool g, g)
      else let normalized = normalized_pool_config db_config; key = pool_key normalized in
        rbind (case map_of (pools g) key of
                 Some i \<Rightarrow> if is_shutdown (pools_made g ! i) then Inr None else Inr (Some i)
               | None \<Rightarrow> Inr None)
          (\<lambda>found. case found of
             Some i \<Rightarrow> Inr (Some i, g\<lparr>pool_refs := AList.update key (dict_get (pool_refs g) key 0 + 1) (pool_refs g),
                                   current_pool := Some i\<rparr>)
           | None \<Rightarrow> rbind (default_pool normalized now) (\<lambda>p.
               let i = length (pools_made g) in
               Inr (Some i, \<lparr>pools_made = pools_made g @ [p], pools = AList.update key i (pools g),
                             pool_refs = AList.update key 1 (pool_refs g), current_pool = Some i\<rparr>))))"

definition release_global_pool :: "nat option \<Rightarrow> registry \<Rightarrow> registry" where
  "release_global_pool p g =
     (case p of None \<Rightarrow> g
      | Some i \<Rightarrow>
          (case List.find (\<lambda>(k, c). c = i) (pools g) of
             None \<Rightarrow> g
           | Some (key, _) \<Rightarrow>
               let refs = dict_get (pool_refs g) key 0 - 1 in
               if refs \<noteq> 0 then g\<lparr>pool_refs := AList.update key refs (pool_refs g)\<rparr>
               else let rest = AList.delete key (pools g) in
                 \<lparr>pools_made = (pools_made g)[i := close_all (pools_made g ! i)], pools = rest,
                  pool_refs = AList.delete key (pool_refs g),
                  current_pool = (if current_pool g = Some i
                                  then (case rest of [] \<Rightarrow> None | (_, c) # _ \<Rightarrow> Some c) else current_pool g)\<rparr>))"

definition close_global_pool :: "registry \<Rightarrow> registry" where
  "close_global_pool g =
     \<lparr>pools_made = fold (\<lambda>(_, i) ps. ps[i := close_all (ps ! i)]) (pools g) (pools_made g),
      pools = [], pool_refs = [], current_pool = None\<rparr>"

section \<open>Frame lemmas\<close>

lemma record_metric_frame [simp]:
  "cfg (record_metric n s) = cfg s" "wrappers (record_metric n s) = wrappers s" "idle (record_metric n s) = idle s"
  "active_count (record_metric n s) = active_count s" "connecting_count (record_metric n s) = connecting_count s"
  "is_shutdown (record_metric n s) = is_shutdown s" "in_check (record_metric n s) = in_check s"
  "borrowed (record_metric n s) = borrowed s" "returning (record_metric n s) = returning s"
  "close_at (record_metric n s) = close_at s" "clock (record_metric n s) = clock s"
  by (simp_all add: record_metric_def)

lemma update_wrapper_frame [simp]:
  "cfg (update_wrapper r f s) = cfg s" "wrappers (update_wrapper r f s) = (wrappers s)[r := f (wrappers s ! r)]"
  "idle (update_wrapper r f s) = idle s" "active_count (update_wrapper r f s) = active_count s"
  "connecting_count (update_wrapper r f s) = connecting_count s" "is_shutdown (update_wrapper r f s) = is_shutdown s"
  "in_check (update_wrapper r f s) = in_check s" "borrowed (update_wrapper r f s) = borrowed s"
  "returning (update_wrapper r f s) = returning s" "close_at (update_wrapper r f s) = close_at s"
  by (simp_all add: update_wrapper_def)

lemma discard_frame [simp]:
  "cfg (discard_wrapper r s) = cfg s" "wrappers (discard_wrapper r s) = (wrappers s)[r := (wrappers s ! r)\<lparr>is_closed := True\<rparr>]"
  "idle (discard_wrapper r s) = idle s" "active_count (discard_wrapper r s) = active_count s - 1"
  "connecting_count (discard_wrapper r s) = connecting_count s" "is_shutdown (discard_wrapper r s) = is_shutdown s"
  "in_check (discard_wrapper r s) = in_check s" "borrowed (discard_wrapper r s) = borrowed s"
  "returning (discard_wrapper r s) = returning s" "close_at (discard_wrapper r s) = close_at s"
  by (simp_all add: discard_wrapper_def close_wrapper_def)

section \<open>The invariant\<close>

fun closing_of :: "close_pc \<Rightarrow> nat list" where
  "closing_of (C_closing r) = [r]"
| "closing_of _ = []"

text \<open>Where the open connections are: queued, being checked, borrowed, being returned, being closed.\<close>

definition hand :: "pool \<Rightarrow> nat multiset" where
  "hand s = mset (idle s) + mset (in_check s) + mset (borrowed s) + mset (returning s) + mset (closing_of (close_at s))"

definition open_refs :: "pool \<Rightarrow> nat set" where
  "open_refs s = {r. r < length (wrappers s) \<and> \<not> is_closed (wrappers s ! r)}"

definition pool_inv :: "pool \<Rightarrow> bool" where
  "pool_inv s \<longleftrightarrow> hand s = mset_set (open_refs s) \<and> card (open_refs s) = active_count s \<and>
     active_count s + connecting_count s \<le> max_connections (cfg s)"

lemma finite_open_refs [simp]: "finite (open_refs s)"
  by (simp add: open_refs_def)

lemma hand_open: "pool_inv s \<Longrightarrow> r \<in># hand s \<longleftrightarrow> r \<in> open_refs s"
  by (simp add: pool_inv_def)

lemma pool_keep:
  assumes "pool_inv s" "hand t = hand s" "open_refs t = open_refs s" "active_count t = active_count s"
    and "connecting_count t = connecting_count s" "cfg t = cfg s"
  shows "pool_inv t"
  using assms by (simp add: pool_inv_def)

lemma pool_drop:
  assumes inv: "pool_inv s" and h: "hand s = hand t + {#r#}" and o: "open_refs t = open_refs s - {r}"
    and "active_count t = active_count s - 1" "connecting_count t = connecting_count s" "cfg t = cfg s"
  shows "pool_inv t"
proof -
  have r: "r \<in> open_refs s" using hand_open [OF inv, of r] h by simp
  then have "mset_set (open_refs s) = add_mset r (mset_set (open_refs t))"
    using mset_set.remove [of "open_refs s" r] by (simp add: o)
  with inv h have "hand t = mset_set (open_refs t)" by (simp add: pool_inv_def)
  moreover have "card (open_refs t) = active_count s - 1" using r inv by (simp add: o pool_inv_def)
  moreover have "0 < active_count s" using inv r by (metis pool_inv_def card_gt_0_iff empty_iff finite_open_refs)
  ultimately show ?thesis using inv assms(4-6) by (auto simp: pool_inv_def)
qed

lemma open_update:
  assumes "is_closed (f (wrappers s ! r)) = is_closed (wrappers s ! r)" "wrappers t = (wrappers s)[r := f (wrappers s ! r)]"
  shows "open_refs t = open_refs s"
  unfolding open_refs_def assms(2) using assms(1) by (auto simp: nth_update_if split: if_splits)

lemma open_close:
  "wrappers t = (wrappers s)[r := (wrappers s ! r)\<lparr>is_closed := True\<rparr>] \<Longrightarrow> open_refs t = open_refs s - {r}"
  unfolding open_refs_def by (auto simp: nth_update_if split: if_splits)

lemma open_same: "wrappers t = wrappers s \<Longrightarrow> open_refs t = open_refs s"
  by (simp add: open_refs_def)

lemma is_alive_frame:
  assumes "is_alive r raw f s = (ok, t)"
  shows "cfg t = cfg s \<and> wrappers t = wrappers s \<and> idle t = idle s \<and> active_count t = active_count s \<and>
    connecting_count t = connecting_count s \<and> in_check t = in_check s \<and> borrowed t = borrowed s \<and>
    returning t = returning s \<and> close_at t = close_at s"
  using assms by (auto simp: is_alive_def Let_def split: if_splits)

lemma rollback_frame:
  assumes "rollback_if_dirty r raw s = (ok, t)"
  shows "cfg t = cfg s \<and> wrappers t = wrappers s \<and> idle t = idle s \<and> active_count t = active_count s \<and>
    connecting_count t = connecting_count s \<and> in_check t = in_check s \<and> borrowed t = borrowed s \<and>
    returning t = returning s \<and> close_at t = close_at s"
  using assms by (auto simp: rollback_if_dirty_def split: if_splits)

lemma inv_check:
  assumes inv: "pool_inv s" and r: "r \<in> set (in_check s)"
  shows "pool_inv (check_wrapper r raw s)"
proof -
  let ?s = "s\<lparr>in_check := remove1 r (in_check s)\<rparr>"
  obtain ok s1 where v: "(if clock ?s - created_at (wrappers ?s ! r) > max_lifetime_sec (cfg ?s) then (False, ?s)
      else is_alive r raw False ?s) = (ok, s1)" by fastforce
  have f: "cfg s1 = cfg s \<and> wrappers s1 = wrappers s \<and> idle s1 = idle s \<and> active_count s1 = active_count s \<and>
    connecting_count s1 = connecting_count s \<and> in_check s1 = remove1 r (in_check s) \<and> borrowed s1 = borrowed s \<and>
    returning s1 = returning s \<and> close_at s1 = close_at s"
    using v is_alive_frame [of r raw False ?s ok s1] by (auto split: if_splits)
  have m: "mset (in_check s) = mset (remove1 r (in_check s)) + {#r#}" using r by simp
  show ?thesis
  proof (cases ok)
    case True
    have t: "check_wrapper r raw s = (update_wrapper r (\<lambda>w. w\<lparr>last_used_at := clock s, read_only := False\<rparr>) s1)\<lparr>borrowed := borrowed s @ [r]\<rparr>"
      using v True by (simp add: check_wrapper_def Let_def)
    show ?thesis
      by (rule pool_keep [OF inv]) (use f m in \<open>simp_all add: t hand_def open_update [of "\<lambda>w. w\<lparr>last_used_at := clock s, read_only := False\<rparr>" s r]\<close>)
  next
    case False
    have t: "check_wrapper r raw s = discard_wrapper r (record_metric ''reconnects'' s1)"
      using v False by (simp add: check_wrapper_def Let_def)
    show ?thesis
      by (rule pool_drop [OF inv, where r = r]) (use f m in \<open>simp_all add: t hand_def open_close [of _ s r]\<close>)
  qed
qed

lemma inv_return_check:
  assumes inv: "pool_inv s" and r: "r \<in> set (borrowed s)"
  shows "pool_inv (return_check r raw s)"
proof -
  let ?s = "s\<lparr>borrowed := remove1 r (borrowed s)\<rparr>"
  have m: "mset (borrowed s) = mset (remove1 r (borrowed s)) + {#r#}" using r by simp
  have "r \<in># hand s" using r by (simp add: hand_def)
  then have op: "\<not> is_closed (wrappers s ! r)" using hand_open [OF inv] by (simp add: open_refs_def)
  obtain ok s1 where v: "rollback_if_dirty r raw ?s = (ok, s1)" by fastforce
  note f = rollback_frame [OF v]
  show ?thesis
  proof (cases "is_shutdown s")
    case True
    then have t: "return_check r raw s = discard_wrapper r ?s" using op by (simp add: return_check_def Let_def)
    show ?thesis by (rule pool_drop [OF inv, where r = r]) (use m in \<open>simp_all add: t hand_def open_close [of _ s r]\<close>)
  next
    case False
    show ?thesis
    proof (cases ok)
      case True
      then have t: "return_check r raw s = (update_wrapper r (\<lambda>w. w\<lparr>last_returned_at := clock s\<rparr>) s1)\<lparr>returning := returning s @ [r]\<rparr>"
        using v op \<open>\<not> is_shutdown s\<close> by (simp add: return_check_def Let_def)
      show ?thesis
        by (rule pool_keep [OF inv]) (use f m in \<open>simp_all add: t hand_def open_update [of "\<lambda>w. w\<lparr>last_returned_at := clock s\<rparr>" s r]\<close>)
    next
      case False
      then have t: "return_check r raw s = discard_wrapper r (record_metric ''poisoned_discards'' s1)"
        using v op \<open>\<not> is_shutdown s\<close> by (simp add: return_check_def Let_def)
      show ?thesis by (rule pool_drop [OF inv, where r = r]) (use f m in \<open>simp_all add: t hand_def open_close [of _ s r]\<close>)
    qed
  qed
qed

lemma inv_return_put:
  assumes inv: "pool_inv s" and r: "r \<in> set (returning s)"
  shows "pool_inv (return_put r s)"
proof -
  let ?s = "s\<lparr>returning := remove1 r (returning s)\<rparr>"
  have m: "mset (returning s) = mset (remove1 r (returning s)) + {#r#}" using r by simp
  show ?thesis
  proof (cases "length (idle s) < max_connections (cfg s)")
    case True
    then have t: "return_put r s = ?s\<lparr>idle := idle s @ [r]\<rparr>" by (simp add: return_put_def)
    show ?thesis by (rule pool_keep [OF inv]) (use m in \<open>simp_all add: t hand_def open_refs_def\<close>)
  next
    case False
    then have t: "return_put r s = discard_wrapper r ?s" by (simp add: return_put_def)
    show ?thesis by (rule pool_drop [OF inv, where r = r]) (use m in \<open>simp_all add: t hand_def open_close [of _ s r]\<close>)
  qed
qed

lemma inv_connect_done:
  assumes inv: "pool_inv s" and c: "0 < connecting_count s"
  shows "pool_inv (connect_done s)"
proof -
  let ?n = "length (wrappers s)"
  have o: "open_refs (connect_done s) = insert ?n (open_refs s)"
    by (auto simp: open_refs_def connect_done_def nth_append PooledConnectionWrapper_def less_Suc_eq)
  have n: "?n \<notin> open_refs s" by (simp add: open_refs_def)
  have "hand (connect_done s) = add_mset ?n (hand s)" by (simp add: hand_def connect_done_def)
  with inv c n show ?thesis
    unfolding pool_inv_def o by (simp add: connect_done_def)
qed

lemma pool_step_inv:
  assumes inv: "pool_inv s" and step: "pool_step s l t"
  shows "pool_inv t"
proof (cases l)
  case (Close_one r)
  with step have "t = close_one r s" "close_at s = C_closing r" by (auto simp: pool_step_def split: if_splits)
  then show ?thesis
    by (intro pool_drop [OF inv, where r = r]) (simp_all add: close_one_def hand_def open_close [of _ s r])
next
  case Close_take
  with step have t: "t = close_take s" "close_at s = C_draining" by (auto simp: pool_step_def split: if_splits)
  then show ?thesis
    by (intro pool_keep [OF inv]) (simp_all add: close_take_def hand_def open_refs_def split: list.split)
next
  case Take_idle
  with step have "t = take_idle s" by (simp add: pool_step_def)
  then show ?thesis
    by (intro pool_keep [OF inv]) (simp_all add: take_idle_def hand_def open_refs_def split: list.split)
next
  case (Check r raw)
  with step inv show ?thesis by (auto simp: pool_step_def inv_check split: if_splits)
next
  case (Return_check r raw)
  with step inv show ?thesis by (auto simp: pool_step_def inv_return_check split: if_splits)
next
  case (Return_put r)
  with step inv show ?thesis by (auto simp: pool_step_def inv_return_put split: if_splits)
next
  case Connect_done
  with step inv show ?thesis by (auto simp: pool_step_def inv_connect_done split: if_splits)
next
  case Reserve
  with step inv show ?thesis
    by (auto simp: pool_step_def reserve_def can_reserve_def pool_inv_def hand_def open_refs_def split: if_splits)
next
  case Connect_failed
  with step inv show ?thesis
    by (auto simp: pool_step_def connect_failed_def pool_inv_def hand_def open_refs_def split: if_splits)
next
  case (Mark r flag)
  with step have "t = mark_read_only r flag s" by (auto simp: pool_step_def split: if_splits)
  then show ?thesis
    by (intro pool_keep [OF inv]) (simp_all add: mark_read_only_def hand_def open_update [of "\<lambda>w. w\<lparr>read_only := flag\<rparr>" s r])
next
  case Borrow_begin
  with step have "t = s \<or> t = record_metric ''acquires'' s"
    by (auto simp: pool_step_def borrow_begin_def split: if_splits)
  then show ?thesis using inv by (auto intro!: pool_keep [OF inv] simp: hand_def open_refs_def)
next
  case (P_tick n)
  with step have "t = s\<lparr>clock := n\<rparr>" by (auto simp: pool_step_def split: if_splits)
  then show ?thesis by (intro pool_keep [OF inv]) (simp_all add: hand_def open_refs_def)
next
  case Close_begin
  with step have "t = close_begin s" "close_at s = C_open" by (auto simp: pool_step_def split: if_splits)
  then show ?thesis by (intro pool_keep [OF inv]) (simp_all add: close_begin_def hand_def open_refs_def)
next
  case Timed_out
  with step have "t = record_metric ''acquire_timeouts'' s" by (simp add: pool_step_def borrow_timed_out_def)
  then show ?thesis by (intro pool_keep [OF inv]) (simp_all add: hand_def open_refs_def)
next
  case Wait_begin
  with step have "t = wait_begin s" by (simp add: pool_step_def)
  then show ?thesis by (intro pool_keep [OF inv]) (simp_all add: wait_begin_def hand_def open_refs_def)
next
  case Wait_end
  with step have "t = wait_end s" by (simp add: pool_step_def)
  then show ?thesis by (intro pool_keep [OF inv]) (simp_all add: wait_end_def hand_def open_refs_def)
qed

definition pool_start :: "pool \<Rightarrow> bool" where
  "pool_start s \<longleftrightarrow> (\<exists>config a b timeout lifetime after rollback now.
     MySQLConnectionPool config a b timeout lifetime after rollback now = Inr s)"

interpretation pool_system: invariant_system pool_start pool_step pool_inv
proof
  show "pool_start s \<Longrightarrow> pool_inv s" for s
    by (auto simp: pool_start_def MySQLConnectionPool_def pool_inv_def hand_def open_refs_def)
qed (rule pool_step_inv)

section \<open>Correctness\<close>

fun run_pool :: "plabel list \<Rightarrow> pool \<Rightarrow> pool option" where
  "run_pool [] s = Some s"
| "run_pool (l # ls) s = (case pool_label l s of None \<Rightarrow> None | Some t \<Rightarrow> run_pool ls t)"

lemma run_pool_reaches: "run_pool ls s = Some t \<Longrightarrow> reaches pool_step s ls t"
  by (induction ls arbitrary: s) (auto intro: reaches_refl reaches_Cons simp: pool_step_def split: option.splits)

lemma card_open_refs: "card (open_refs s) = length (filter (\<lambda>w. \<not> is_closed w) (wrappers s))"
  by (simp add: open_refs_def length_filter_conv_card)


text \<open>A small pool for the witnesses: one connection at most.\<close>

definition sample_pool :: pool where
  "sample_pool = (case MySQLConnectionPool [] 1 1 10 1800 60 True 0 of Inr p \<Rightarrow> p)"

definition sample_raw :: raw_conn where
  "sample_raw = \<lparr>has_ping = True, ping_ok = True, has_rollback = True, rollback_ok = True, autocommit_reply = None\<rparr>"

lemma sample_pool_start: "pool_start sample_pool"
  unfolding pool_start_def sample_pool_def
  by (intro exI [of _ "[]"] exI [of _ 1] exI [of _ 10] exI [of _ 1800] exI [of _ 60] exI [of _ True] exI [of _ 0])
     (simp add: MySQLConnectionPool_def)


text \<open>\<open>close_all\<close> can leave a connection open: \<open>return_connection\<close> checks the shutdown flag before
  it queues the wrapper, so a wrapper queued after \<open>close_all\<close> found the queue empty stays open in
  a pool that no longer lends it and is never closed.\<close>

lemma close_all_leaves_open_connection:
  "\<exists>ls s. reaches pool_step sample_pool ls s \<and> close_at s = C_done \<and> idle s = [0] \<and>
     in_check s = [] \<and> borrowed s = [] \<and> returning s = [] \<and> \<not> is_closed (wrappers s ! 0)"
proof -
  let ?ls = "[Borrow_begin, Reserve, Connect_done, Return_check 0 sample_raw, Close_begin, Close_take, Return_put 0]"
  have "case run_pool ?ls sample_pool of None \<Rightarrow> False | Some s \<Rightarrow> close_at s = C_done \<and> idle s = [0] \<and>
     in_check s = [] \<and> borrowed s = [] \<and> returning s = [] \<and> \<not> is_closed (wrappers s ! 0)"
    by code_simp
  then obtain s where "run_pool ?ls sample_pool = Some s" "close_at s = C_done \<and> idle s = [0] \<and>
     in_check s = [] \<and> borrowed s = [] \<and> returning s = [] \<and> \<not> is_closed (wrappers s ! 0)"
    by (cases "run_pool ?ls sample_pool") auto
  with run_pool_reaches show ?thesis by blast
qed

text \<open>The retrying cursor executes a statement at most twice, and a second time only through
  \<open>execute\<close>, for a statement whose first word is SELECT, SHOW, DESC, DESCRIBE or EXPLAIN, after a
  connection error and a successful reconnect; in every other case the first outcome is final.\<close>

lemma retry_only_reads:
  "run_cursor method sql reconnect attempt =
     (if (\<exists>e t w ws. attempt 0 = Failed e \<and> is_connection_error e \<and> reconnect \<and> method = ''execute'' \<and>
            sql = Sql t \<and> py_words t = w # ws \<and>
            map to_upper w \<in> {''SELECT'', ''SHOW'', ''DESC'', ''DESCRIBE'', ''EXPLAIN''})
      then (attempt 1, 2) else (attempt 0, 1))"
proof -
  have read: "is_retryable_read_sql sql \<longleftrightarrow> (\<exists>t w ws. sql = Sql t \<and> py_words t = w # ws \<and>
      map to_upper w \<in> {''SELECT'', ''SHOW'', ''DESC'', ''DESCRIBE'', ''EXPLAIN''})"
    unfolding is_retryable_read_sql_def by (auto split: sql_argument.split list.split)
  show ?thesis
  proof (cases "attempt 0")
    case (Done v)
    then show ?thesis by (simp add: run_cursor_def)
  next
    case (Failed e)
    then show ?thesis unfolding run_cursor_def by (simp add: read)
  qed
qed

section \<open>Shared pools\<close>

definition registry_inv :: "registry \<Rightarrow> bool" where
  "registry_inv g \<longleftrightarrow> distinct (map fst (pools g)) \<and> distinct (map snd (pools g)) \<and>
     (\<forall>(k, i) \<in> set (pools g). i < length (pools_made g) \<and> 0 < dict_get (pool_refs g) k 0)"

text \<open>The registry does not pass the limits of a configuration to the pool it makes: the limits
  are part of the key under which the pool is shared, but every pool made by
  \<open>get_global_pool\<close> has the default of at most ten connections.\<close>

lemma configured_limit_ignored:
  assumes "db_config \<noteq> []" and "map_of (pools g) (pool_key (normalized_pool_config db_config)) = None"
    and "get_global_pool db_config now g = Inr (Some i, g')"
  shows "max_connections (cfg (pools_made g' ! i)) = 10 \<and> min_connections (cfg (pools_made g' ! i)) = 2"
  using assms by (auto simp: get_global_pool_def default_pool_def MySQLConnectionPool_def Let_def nth_append)

theorem configured_limit_ignored_witness:
  "let config = [(''host'', Scalar (Str ''db'')), (''max_connections'', Scalar (Num 50))];
       g = \<lparr>pools_made = [], pools = [], pool_refs = [], current_pool = None\<rparr> in
   \<exists>i g'. get_global_pool config 0 g = Inr (Some i, g') \<and> max_connections (cfg (pools_made g' ! i)) = 10"
proof -
  let ?config = "[(''host'', Scalar (Str ''db'')), (''max_connections'', Scalar (Num 50))]"
  let ?g = "\<lparr>pools_made = [], pools = [], pool_refs = [], current_pool = None\<rparr>"
  obtain i g' where r: "get_global_pool ?config 0 ?g = Inr (Some i, g')"
    by (simp add: get_global_pool_def default_pool_def MySQLConnectionPool_def normalized_pool_config_def Let_def)
  have none: "map_of (pools ?g) (pool_key (normalized_pool_config ?config)) = None" by simp
  have "?config \<noteq> []" by simp
  from configured_limit_ignored [OF this none r] r show ?thesis unfolding Let_def by blast
qed

lemma find_pool:
  assumes "distinct (map snd d)" "map_of d k = Some i"
  shows "\<exists>c. List.find (\<lambda>(k, c). c = i) d = Some (k, i)"
  using assms
proof (induction d)
  case (Cons p d)
  obtain k' i' where p: "p = (k', i')" by (cases p)
  have "map_of d k = Some i \<Longrightarrow> i \<in> snd ` set d" by (force dest: map_of_SomeD)
  with Cons p show ?case by (cases "k' = k") auto
qed simp

text \<open>A shared pool stays open while somebody still refers to it: of two callers that got the
  pool of a configuration, the release of one leaves the pool registered and not shut down, with
  one reference less.\<close>

lemma release_keeps_shared_pool:
  assumes "registry_inv g" and "map_of (pools g) k = Some i" and "dict_get (pool_refs g) k 0 = Suc (Suc n)"
  shows "let g' = release_global_pool (Some i) g in
     pools g' = pools g \<and> pools_made g' = pools_made g \<and> dict_get (pool_refs g') k 0 = Suc n"
  using find_pool [OF _ assms(2)] assms(1,3)
  by (auto simp: release_global_pool_def registry_inv_def dict_get_def Let_def)

theorem release_keeps_shared_pool_witness:
  "let p = sample_pool; g = \<lparr>pools_made = [p], pools = [([], 0)], pool_refs = [([], 2)], current_pool = Some 0\<rparr>;
       g' = release_global_pool (Some 0) g in
   pools g' = pools g \<and> dict_get (pool_refs g') [] 0 = 1"
proof -
  let ?g = "\<lparr>pools_made = [sample_pool], pools = [([], 0)], pool_refs = [([], 2)], current_pool = Some 0\<rparr>"
  have "registry_inv ?g" by (simp add: registry_inv_def dict_get_def)
  moreover have "dict_get (pool_refs ?g) [] 0 = Suc (Suc 0)" by (simp add: dict_get_def)
  ultimately show ?thesis using release_keeps_shared_pool [of ?g "[]" 0 0] by (simp add: Let_def)
qed

end
