(* ===== verification/CodeRegion.thy ===== *)
theory CodeRegion
  imports Prelude
begin

text \<open>
  The code regions of \<open>app/code_detail/code_region.py\<close>: \<open>FunctionRange\<close>, \<open>CodeRegion\<close>,
  \<open>sanitize_function_ranges\<close>, \<open>find_function_containing_line\<close> (with the binary search of the
  \<open>bisect\<close> module) and \<open>build_code_regions\<close>. Labels are lists of code points, because merged
  labels end in a character outside the range of \<open>char\<close>.

  Shown: the regions are consecutive and cover every line of the file exactly once, every
  pending line lies in an expanded region together with the function that contains it, and the
  two-pointer sweep finds the same function as the binary search.
\<close>

type_synonym utext = "nat list"

definition is_space_code :: "nat \<Rightarrow> bool" where
  "is_space_code c \<longleftrightarrow> c \<in> set [9, 10, 11, 12, 13, 28, 29, 30, 31, 32, 133, 160, 5760, 8192, 8193, 8194, 8195,
     8196, 8197, 8198, 8199, 8200, 8201, 8202, 8232, 8233, 8239, 8287, 12288]"

definition strip_code :: "utext \<Rightarrow> utext" where
  "strip_code t = rev (dropWhile is_space_code (rev (dropWhile is_space_code t)))"

record function_range =
  start_line :: int
  end_line :: int
  fn_name :: "utext option"

definition FunctionRange :: "int \<Rightarrow> int \<Rightarrow> utext option \<Rightarrow> function_range" where
  "FunctionRange s e n = \<lparr>start_line = s, end_line = e, fn_name = map_option strip_code n\<rparr>"

definition is_valid :: "function_range \<Rightarrow> int option \<Rightarrow> bool" where
  "is_valid fn total_lines =
     (if start_line fn \<le> 0 \<or> end_line fn \<le> 0 then False
      else if start_line fn > end_line fn then False
      else case total_lines of None \<Rightarrow> True | Some t \<Rightarrow> \<not> start_line fn > t)"

definition contains :: "function_range \<Rightarrow> int \<Rightarrow> bool" where
  "contains fn line \<longleftrightarrow> start_line fn \<le> line \<and> line \<le> end_line fn"

record code_region =
  region_id :: string
  r_start :: int
  r_end :: int
  default_state :: string
  kind :: string
  label :: "utext option"

definition line_count :: "code_region \<Rightarrow> int" where
  "line_count r = r_end r - r_start r + 1"

definition CodeRegion :: "int \<Rightarrow> int \<Rightarrow> string \<Rightarrow> string \<Rightarrow> utext option \<Rightarrow> code_region" where
  "CodeRegion s e state k l =
     \<lparr>region_id = ''region-'' @ show_int s @ ''-'' @ show_int e, r_start = s, r_end = e,
      default_state = state, kind = k, label = l\<rparr>"

section \<open>Function ranges\<close>

text \<open>What a caller may pass: a range object, a dictionary, a sequence of two or more, anything else.\<close>

datatype range_item = Fn function_range | Dict "int option" "int option" "utext option"
  | Seq int int "utext option" | Other

definition as_range :: "range_item \<Rightarrow> function_range option" where
  "as_range item =
     (case item of
        Fn f \<Rightarrow> Some f
      | Dict s e n \<Rightarrow> Some (FunctionRange (case s of None \<Rightarrow> 0 | Some v \<Rightarrow> v) (case e of None \<Rightarrow> 0 | Some v \<Rightarrow> v) n)
      | Seq s e n \<Rightarrow> Some (FunctionRange s e n)
      | Other \<Rightarrow> None)"

definition clip_range :: "int option \<Rightarrow> function_range \<Rightarrow> function_range option" where
  "clip_range total_lines fn =
     (if is_valid fn total_lines then
        let clipped_end = (case total_lines of None \<Rightarrow> end_line fn
              | Some t \<Rightarrow> if t = 0 then end_line fn else min (end_line fn) t) in
        if clipped_end \<ge> start_line fn then Some (FunctionRange (start_line fn) clipped_end (fn_name fn)) else None
      else None)"

definition sanitize_function_ranges :: "range_item list \<Rightarrow> int option \<Rightarrow> function_range list" where
  "sanitize_function_ranges items total_lines =
     sort_key (\<lambda>f. (start_line f, end_line f))
       (List.map_filter (clip_range total_lines) (List.map_filter as_range items))"

function bisect_right :: "int list \<Rightarrow> int \<Rightarrow> nat \<Rightarrow> nat \<Rightarrow> nat" where
  "bisect_right a x lo hi =
     (if lo < hi then
        let mid = (lo + hi) div 2 in
        if x < a ! mid then bisect_right a x lo mid else bisect_right a x (mid + 1) hi
      else lo)"
  by pat_completeness auto

termination bisect_right
  by (relation "measure (\<lambda>(a, x, lo, hi). hi - lo)") auto

declare bisect_right.simps [simp del]

definition find_function_containing_line :: "int \<Rightarrow> function_range list \<Rightarrow> function_range option" where
  "find_function_containing_line line fns =
     (if fns = [] then None
      else let start_lines = map start_line fns; idx = bisect_right start_lines line 0 (length start_lines) in
        if idx = 0 then None
        else if contains (fns ! (idx - 1)) line then Some (fns ! (idx - 1)) else None)"

section \<open>Regions\<close>

text \<open>An expanded range: start, end and label; its kind is always \<open>analysis\<close>.\<close>

type_synonym expanded = "int \<times> int \<times> utext option"

function advance :: "function_range list \<Rightarrow> int \<Rightarrow> nat \<Rightarrow> nat" where
  "advance fns line i =
     (if i + 1 < length fns \<and> start_line (fns ! (i + 1)) \<le> line then advance fns line (i + 1) else i)"
  by pat_completeness auto

termination advance
  by (relation "measure (\<lambda>(fns, line, i). length fns - i)") auto

declare advance.simps [simp del]

definition matched_function :: "function_range list \<Rightarrow> int \<Rightarrow> nat \<Rightarrow> function_range option" where
  "matched_function fns line i =
     (if length fns > 0 \<and> contains (fns ! i) line then Some (fns ! i) else None)"

definition expand_line :: "int \<Rightarrow> int \<Rightarrow> function_range option \<Rightarrow> int \<Rightarrow> expanded" where
  "expand_line total_lines ctx matched line =
     (case matched of
        Some f \<Rightarrow> (start_line f, end_line f, if fn_name f = Some [] then None else fn_name f)
      | None \<Rightarrow> (max 1 (line - ctx), min total_lines (line + ctx), None))"

fun sweep :: "function_range list \<Rightarrow> int \<Rightarrow> int \<Rightarrow> nat \<Rightarrow> int list \<Rightarrow> expanded list" where
  "sweep fns total_lines ctx i [] = []"
| "sweep fns total_lines ctx i (line # rest) =
     (let j = advance fns line i in
      expand_line total_lines ctx (matched_function fns line j) line # sweep fns total_lines ctx j rest)"

definition ETC :: nat where "ETC = 31561"

definition label_true :: "utext option \<Rightarrow> bool" where
  "label_true l \<longleftrightarrow> l \<noteq> None \<and> l \<noteq> Some []"

definition merge_labels :: "utext option \<Rightarrow> utext option \<Rightarrow> utext option" where
  "merge_labels prev cur =
     (if label_true prev \<and> label_true cur \<and> prev \<noteq> cur then
        let p = the prev; c = the cur;
            new = (if last p = ETC then p else p @ [44, 32] @ c) in
        Some (if length new > 40 then strip_code (takeWhile (\<lambda>x. x \<noteq> 44) p) @ [32, ETC] else new)
      else if label_true prev then prev else cur)"

definition merge_step :: "int \<Rightarrow> expanded \<Rightarrow> expanded list \<Rightarrow> expanded list" where
  "merge_step max_gap cur merged =
     (if merged = [] then [cur]
      else case (last merged, cur) of ((ps, pe, pl), (cs, ce, cl)) \<Rightarrow>
        if cs - pe - 1 \<le> max_gap then butlast merged @ [(ps, max pe ce, merge_labels pl cl)]
        else merged @ [cur])"

definition merge_expanded :: "int \<Rightarrow> expanded list \<Rightarrow> expanded list" where
  "merge_expanded max_gap raw = fold (merge_step max_gap) raw []"

definition collapsed :: "int \<Rightarrow> int \<Rightarrow> code_region" where
  "collapsed s e = CodeRegion s e ''collapsed'' ''collapsed'' None"

fun fill :: "int \<Rightarrow> int \<Rightarrow> expanded list \<Rightarrow> code_region list" where
  "fill total_lines cursor [] = (if cursor \<le> total_lines then [collapsed cursor total_lines] else [])"
| "fill total_lines cursor ((s, e, l) # rest) =
     (if s > cursor then [collapsed cursor (s - 1)] else []) @
     [CodeRegion s e ''expanded'' ''analysis'' l] @ fill total_lines (e + 1) rest"

definition valid_pending :: "int \<Rightarrow> int list \<Rightarrow> int list" where
  "valid_pending total_lines pending = sort (remdups (filter (\<lambda>l. 1 \<le> l \<and> l \<le> total_lines) pending))"

definition raw_expanded :: "int \<Rightarrow> int list \<Rightarrow> range_item list \<Rightarrow> int \<Rightarrow> expanded list" where
  "raw_expanded total_lines pending items ctx =
     sort_key (\<lambda>(s, e, l). (s, e))
       (sweep (sanitize_function_ranges items (Some total_lines)) total_lines ctx 0 (valid_pending total_lines pending))"

definition build_code_regions :: "int \<Rightarrow> int list \<Rightarrow> range_item list \<Rightarrow> int \<Rightarrow> int \<Rightarrow> code_region list" where
  "build_code_regions total_lines pending items ctx max_gap =
     (if total_lines \<le> 0 then []
      else if valid_pending total_lines pending = [] then [collapsed 1 total_lines]
      else fill total_lines 1 (merge_expanded max_gap (raw_expanded total_lines pending items ctx)))"

section \<open>The function of a line\<close>

lemma bisect_right_cases:
  "\<not> lo < hi \<Longrightarrow> bisect_right a x lo hi = lo"
  "lo < hi \<Longrightarrow> x < a ! ((lo + hi) div 2) \<Longrightarrow> bisect_right a x lo hi = bisect_right a x lo ((lo + hi) div 2)"
  "lo < hi \<Longrightarrow> \<not> x < a ! ((lo + hi) div 2) \<Longrightarrow> bisect_right a x lo hi = bisect_right a x ((lo + hi) div 2 + 1) hi"
  by (subst bisect_right.simps, simp add: Let_def)+

lemma bisect_right_bounds: "lo \<le> hi \<Longrightarrow> bisect_right a x lo hi \<le> hi"
proof (induction a x lo hi rule: bisect_right.induct)
  case (1 a x lo hi)
  consider "\<not> lo < hi" | "lo < hi" "x < a ! ((lo + hi) div 2)" | "lo < hi" "\<not> x < a ! ((lo + hi) div 2)" by blast
  then show ?case
  proof cases
    case 2
    then have "bisect_right a x lo ((lo + hi) div 2) \<le> (lo + hi) div 2" using "1.IH"(1) [OF 2(1) refl 2(2)] by simp
    also have "\<dots> \<le> hi" using 2 by simp
    finally show ?thesis using 2 by (simp add: bisect_right_cases)
  next
    case 3
    then show ?thesis using "1.IH"(2) [OF 3(1) refl 3(2)] by (simp add: bisect_right_cases)
  qed (use 1 in \<open>simp add: bisect_right_cases\<close>)
qed

text \<open>On a sorted list the result splits it into the elements up to \<open>x\<close> and those above.\<close>

lemma bisect_right_splits:
  assumes "sorted a" "hi \<le> length a" "lo \<le> hi"
    and "\<forall>i < lo. a ! i \<le> x" "\<forall>i. hi \<le> i \<and> i < length a \<longrightarrow> x < a ! i"
  shows "(\<forall>i < bisect_right a x lo hi. a ! i \<le> x) \<and>
     (\<forall>i. bisect_right a x lo hi \<le> i \<and> i < length a \<longrightarrow> x < a ! i)"
  using assms
proof (induction a x lo hi rule: bisect_right.induct)
  case (1 a x lo hi)
  show ?case
  proof (cases "lo < hi")
    case False
    with "1.prems"(3) have "lo = hi" by simp
    with "1.prems"(4,5) show ?thesis by (simp add: bisect_right_cases)
  next
    case True
    define mid where "mid = (lo + hi) div 2"
    have m: "lo \<le> mid" "mid < hi" using True by (auto simp: mid_def)
    show ?thesis
    proof (cases "x < a ! mid")
      case high: True
      have "bisect_right a x lo hi = bisect_right a x lo mid"
        using True high by (simp add: bisect_right_cases mid_def)
      moreover have above: "\<forall>i. mid \<le> i \<and> i < length a \<longrightarrow> x < a ! i"
        using high sorted_nth_mono [OF "1.prems"(1), of mid] by (meson less_le_trans)
      moreover have "mid \<le> length a" using m "1.prems"(2) by simp
      ultimately show ?thesis using "1.IH"(1) [OF True mid_def high "1.prems"(1) _ m(1) "1.prems"(4) above] by simp
    next
      case low: False
      have "bisect_right a x lo hi = bisect_right a x (mid + 1) hi"
        using True low by (simp add: bisect_right_cases mid_def)
      moreover have below: "\<forall>i < mid + 1. a ! i \<le> x"
      proof (intro allI impI)
        fix i
        assume "i < mid + 1"
        then have "a ! i \<le> a ! mid" using sorted_nth_mono [OF "1.prems"(1), of i mid] "1.prems"(2) m by simp
        with low show "a ! i \<le> x" by simp
      qed
      moreover have "mid + 1 \<le> hi" using m by simp
      ultimately show ?thesis using "1.IH"(2) [OF True mid_def low "1.prems"(1,2) _ below "1.prems"(5)] by simp
    qed
  qed
qed

lemma advance_spec:
  assumes "sorted (map start_line fns)" "i < length fns"
    and "i = 0 \<or> start_line (fns ! i) \<le> line"
  shows "i \<le> advance fns line i \<and> advance fns line i < length fns \<and>
     (advance fns line i = 0 \<or> start_line (fns ! advance fns line i) \<le> line) \<and>
     (\<forall>k. advance fns line i < k \<and> k < length fns \<longrightarrow> line < start_line (fns ! k))"
  using assms
proof (induction fns line i rule: advance.induct)
  case (1 fns line i)
  show ?case
  proof (cases "i + 1 < length fns \<and> start_line (fns ! (i + 1)) \<le> line")
    case True
    then have "advance fns line i = advance fns line (i + 1)" by (subst advance.simps) simp
    with "1.IH" [OF True] "1.prems" True show ?thesis by auto
  next
    case False
    then have a: "advance fns line i = i" by (subst advance.simps) auto
    have "line < start_line (fns ! k)" if "i < k" "k < length fns" for k
    proof -
      from that False have "line < start_line (fns ! (i + 1))" by auto
      also have "\<dots> \<le> start_line (fns ! k)"
        using that sorted_nth_mono [OF "1.prems"(1), of "i + 1" k] by simp
      finally show ?thesis .
    qed
    with a "1.prems" show ?thesis by auto
  qed
qed

text \<open>The sweep keeps its position valid for the next, larger line.\<close>

definition position_ok :: "function_range list \<Rightarrow> int \<Rightarrow> nat \<Rightarrow> bool" where
  "position_ok fns line i \<longleftrightarrow> fns = [] \<or> (i < length fns \<and> (i = 0 \<or> start_line (fns ! i) \<le> line))"

lemma matched_is_found:
  assumes s: "sorted (map start_line fns)" and p: "position_ok fns line i"
  shows "matched_function fns line (advance fns line i) = find_function_containing_line line fns"
proof (cases "fns = []")
  case True
  then show ?thesis by (simp add: matched_function_def find_function_containing_line_def)
next
  case False
  define j where "j = advance fns line i"
  have j: "j < length fns" "j = 0 \<or> start_line (fns ! j) \<le> line" "\<forall>k. j < k \<and> k < length fns \<longrightarrow> line < start_line (fns ! k)"
    using advance_spec [OF s, of i line] p False by (auto simp: position_ok_def j_def)
  define idx where "idx = bisect_right (map start_line fns) line 0 (length fns)"
  have b: "\<forall>k < idx. map start_line fns ! k \<le> line" "\<forall>k. idx \<le> k \<and> k < length fns \<longrightarrow> line < map start_line fns ! k"
    using bisect_right_splits [OF s, of "length fns" 0 line] by (auto simp: idx_def)
  have len: "idx \<le> length fns" unfolding idx_def by (rule bisect_right_bounds) simp
  show ?thesis
  proof (cases "start_line (fns ! j) \<le> line")
    case True
    have "\<not> idx \<le> j" using True j(1) b(2) by fastforce
    moreover have "\<not> j + 1 < idx" using j(3) b(1) len by fastforce
    ultimately have "idx = j + 1" by simp
    with False show ?thesis
      by (simp add: matched_function_def find_function_containing_line_def j_def [symmetric] idx_def [symmetric] Let_def)
  next
    case above: False
    then have "j = 0" using j(2) by simp
    then have "idx = 0" using b(1) above False by fastforce
    with above False \<open>j = 0\<close> show ?thesis
      by (simp add: matched_function_def find_function_containing_line_def j_def [symmetric] idx_def [symmetric] Let_def contains_def)
  qed
qed

lemma sweep_eq:
  assumes "sorted (map start_line fns)" "sorted ls" "\<forall>l \<in> set ls. position_ok fns l i"
  shows "sweep fns total_lines ctx i ls =
     map (\<lambda>l. expand_line total_lines ctx (find_function_containing_line l fns) l) ls"
  using assms
proof (induction ls arbitrary: i)
  case (Cons l ls)
  have "position_ok fns m (advance fns l i)" if "m \<in> set ls" for m
  proof (cases "fns = []")
    case False
    have "l \<le> m" using Cons.prems(2) that by simp
    then show ?thesis
      using advance_spec [OF Cons.prems(1), of i l] Cons.prems(3) False by (auto simp: position_ok_def)
  qed (simp add: position_ok_def)
  with Cons matched_is_found [OF Cons.prems(1), of l i] show ?case by (simp add: Let_def)
qed simp

section \<open>Merging and filling\<close>

definition ex_ok :: "int \<Rightarrow> expanded \<Rightarrow> bool" where
  "ex_ok total_lines x \<longleftrightarrow> 1 \<le> fst x \<and> fst x \<le> fst (snd x) \<and> fst (snd x) \<le> total_lines"

definition separated :: "expanded list \<Rightarrow> bool" where
  "separated xs \<longleftrightarrow> sorted_wrt (\<lambda>a b. fst (snd a) < fst b) xs"

definition within :: "expanded \<Rightarrow> expanded \<Rightarrow> bool" where
  "within a b \<longleftrightarrow> fst b \<le> fst a \<and> fst (snd a) \<le> fst (snd b)"

lemma merge_step_ok:
  assumes gap: "- 1 \<le> max_gap" and ok: "list_all (ex_ok n) ms" "separated ms" "ex_ok n cur"
    and before: "\<forall>m \<in> set ms. fst m \<le> fst cur"
  shows "list_all (ex_ok n) (merge_step max_gap cur ms) \<and> separated (merge_step max_gap cur ms) \<and>
     (\<forall>m \<in> set (merge_step max_gap cur ms). fst m \<le> fst cur) \<and>
     (\<forall>x. (\<exists>m \<in> set ms. within x m) \<or> x = cur \<longrightarrow> (\<exists>m \<in> set (merge_step max_gap cur ms). within x m))"
proof (cases ms rule: rev_cases)
  case Nil
  with ok show ?thesis by (simp add: merge_step_def separated_def within_def)
next
  case (snoc ys y)
  obtain ps pe pl where y: "y = (ps, pe, pl)" by (cases y)
  obtain cs ce cl where c: "cur = (cs, ce, cl)" by (cases cur)
  show ?thesis
  proof (cases "cs - pe - 1 \<le> max_gap")
    case True
    then have e: "merge_step max_gap cur ms = ys @ [(ps, max pe ce, merge_labels pl cl)]"
      by (simp add: merge_step_def snoc y c)
    show ?thesis
      unfolding e using ok before
      by (auto simp: snoc y c ex_ok_def separated_def within_def sorted_wrt_append)
  next
    case False
    then have e: "merge_step max_gap cur ms = ms @ [cur]" by (simp add: merge_step_def snoc y c)
    have "pe < cs" using False gap by simp
    moreover have "m \<in> set ys \<Longrightarrow> fst (snd m) < cs" for m
      using ok \<open>pe < cs\<close> by (force simp: snoc y separated_def sorted_wrt_append ex_ok_def)
    ultimately have "separated (ms @ [cur])"
      using ok by (auto simp: snoc y c separated_def sorted_wrt_append)
    with ok before show ?thesis unfolding e by (auto simp: within_def c)
  qed
qed

lemma merge_fold_ok:
  assumes "- 1 \<le> max_gap" "list_all (ex_ok n) raw" "sorted (map fst raw)"
    and "list_all (ex_ok n) ms" "separated ms" "\<forall>m \<in> set ms. \<forall>x \<in> set raw. fst m \<le> fst x"
  shows "list_all (ex_ok n) (fold (merge_step max_gap) raw ms) \<and> separated (fold (merge_step max_gap) raw ms) \<and>
     (\<forall>x. (\<exists>m \<in> set ms. within x m) \<or> x \<in> set raw \<longrightarrow> (\<exists>m \<in> set (fold (merge_step max_gap) raw ms). within x m))"
  using assms
proof (induction raw arbitrary: ms)
  case (Cons c raw)
  let ?ms = "merge_step max_gap c ms"
  have step: "list_all (ex_ok n) ?ms" "separated ?ms" "\<forall>m \<in> set ?ms. fst m \<le> fst c"
    "\<forall>x. (\<exists>m \<in> set ms. within x m) \<or> x = c \<longrightarrow> (\<exists>m \<in> set ?ms. within x m)"
    using merge_step_ok [OF Cons.prems(1), of n ms c] Cons.prems by auto
  have "\<forall>m \<in> set ?ms. \<forall>x \<in> set raw. fst m \<le> fst x"
    using step(3) Cons.prems(3) by fastforce
  moreover have rest: "list_all (ex_ok n) raw" "sorted (map fst raw)" using Cons.prems(2,3) by auto
  ultimately have ih: "list_all (ex_ok n) (fold (merge_step max_gap) raw ?ms)" "separated (fold (merge_step max_gap) raw ?ms)"
    "\<And>x. (\<exists>m \<in> set ?ms. within x m) \<or> x \<in> set raw \<Longrightarrow> \<exists>m \<in> set (fold (merge_step max_gap) raw ?ms). within x m"
    using Cons.IH [OF Cons.prems(1) rest step(1,2)] by blast+
  have "\<exists>m \<in> set (fold (merge_step max_gap) raw ?ms). within x m"
    if "(\<exists>m \<in> set ms. within x m) \<or> x \<in> set (c # raw)" for x
    by (rule ih(3)) (use that step(4) in \<open>unfold set_simps, blast\<close>)
  with ih(1,2) show ?case by simp
qed simp

definition region_lines :: "code_region \<Rightarrow> int list" where
  "region_lines r = [r_start r..r_end r]"

lemma region_lines_fields:
  "region_lines \<lparr>region_id = i, r_start = s, r_end = e, default_state = d, kind = k, label = l\<rparr> = [s..e]"
  by (simp add: region_lines_def)

lemma upto_join: "a \<le> b + 1 \<Longrightarrow> b \<le> c \<Longrightarrow> [a..b] @ [b + 1..c] = [a..c]"
  by (cases "a = b + 1") (simp_all add: upto_split2 [of a b c])

lemma fill_lines:
  assumes "list_all (ex_ok n) ms" "separated ms" "\<forall>m \<in> set ms. cursor \<le> fst m" "cursor \<le> n + 1"
  shows "concat (map region_lines (fill n cursor ms)) = [cursor..n]"
  using assms
proof (induction ms arbitrary: cursor)
  case Nil
  then show ?case by (simp add: collapsed_def CodeRegion_def region_lines_def)
next
  case (Cons m ms)
  obtain s e l where m: "m = (s, e, l)" by (cases m)
  have b: "cursor \<le> s" "s \<le> e" "e \<le> n" "\<forall>x \<in> set ms. e + 1 \<le> fst x"
    using Cons.prems by (auto simp: m ex_ok_def separated_def)
  have "concat (map region_lines (fill n (e + 1) ms)) = [e + 1..n]"
    using Cons.prems b by (intro Cons.IH) (auto simp: separated_def)
  moreover have "[cursor..s - 1] @ [s..e] @ [e + 1..n] = [cursor..n]"
    using upto_join [of s e n] upto_join [of cursor "s - 1" n] b by simp
  ultimately show ?case
    using b by (auto simp: m collapsed_def CodeRegion_def region_lines_fields)
qed

lemma fill_expanded:
  "(s, e, l) \<in> set ms \<Longrightarrow> CodeRegion s e ''expanded'' ''analysis'' l \<in> set (fill n cursor ms)"
  by (induction ms arbitrary: cursor) auto

section \<open>What is expanded\<close>

lemma sanitized_ok:
  assumes "f \<in> set (sanitize_function_ranges items (Some n))"
  shows "1 \<le> start_line f \<and> start_line f \<le> end_line f \<and> (0 < n \<longrightarrow> end_line f \<le> n)"
  using assms
  by (auto simp: sanitize_function_ranges_def map_filter_def clip_range_def is_valid_def FunctionRange_def Let_def
      split: if_splits option.splits)

lemma sanitized_sorted: "sorted (map start_line (sanitize_function_ranges items n))"
proof -
  let ?fs = "sanitize_function_ranges items n"
  have "sorted (map (\<lambda>f. (start_line f, end_line f)) ?fs)"
    by (simp add: sanitize_function_ranges_def)
  then have "sorted (map fst (map (\<lambda>f. (start_line f, end_line f)) ?fs))"
    by (intro sorted_map_mono) (auto simp: mono_on_def less_eq_prod_def less_le)
  then show ?thesis by (simp add: comp_def)
qed

lemma found_member: "find_function_containing_line l fns = Some f \<Longrightarrow> f \<in> set fns \<and> contains f l"
  using bisect_right_bounds [of 0 "length fns" "map start_line fns" l]
  by (auto simp: find_function_containing_line_def Let_def split: if_splits)

lemma valid_pending_iff: "l \<in> set (valid_pending n pending) \<longleftrightarrow> l \<in> set pending \<and> 1 \<le> l \<and> l \<le> n"
  by (auto simp: valid_pending_def)

lemma raw_expanded_set:
  "set (raw_expanded n pending items ctx) =
     (\<lambda>l. expand_line n ctx (find_function_containing_line l (sanitize_function_ranges items (Some n))) l) `
       set (valid_pending n pending)"
proof -
  let ?fns = "sanitize_function_ranges items (Some n)"
  have "\<forall>l \<in> set (valid_pending n pending). position_ok ?fns l 0" by (auto simp: position_ok_def)
  moreover have "sorted (valid_pending n pending)" by (simp add: valid_pending_def)
  ultimately show ?thesis
    using sweep_eq [OF sanitized_sorted, of "valid_pending n pending" items "Some n" 0 n ctx] by (simp add: raw_expanded_def)
qed

lemma raw_expanded_ok:
  assumes "0 \<le> ctx" "0 < n"
  shows "list_all (ex_ok n) (raw_expanded n pending items ctx)"
  unfolding list_all_iff raw_expanded_set
proof (intro ballI, elim imageE)
  fix x l
  assume x: "x = expand_line n ctx (find_function_containing_line l (sanitize_function_ranges items (Some n))) l"
    and l: "l \<in> set (valid_pending n pending)"
  show "ex_ok n x"
  proof (cases "find_function_containing_line l (sanitize_function_ranges items (Some n))")
    case None
    with x l assms show ?thesis by (auto simp: expand_line_def ex_ok_def valid_pending_iff)
  next
    case (Some f)
    with found_member sanitized_ok assms have "1 \<le> start_line f" "start_line f \<le> end_line f" "end_line f \<le> n" by blast+
    with x Some show ?thesis by (simp add: expand_line_def ex_ok_def)
  qed
qed

lemma raw_expanded_sorted: "sorted (map fst (raw_expanded n pending items ctx))"
proof -
  let ?xs = "raw_expanded n pending items ctx"
  have "sorted (map (\<lambda>(s, e, l). (s, e)) ?xs)" by (simp add: raw_expanded_def)
  then have "sorted (map fst (map (\<lambda>(s, e, l). (s, e)) ?xs))"
    by (intro sorted_map_mono) (auto simp: mono_on_def less_le)
  then show ?thesis by (simp add: comp_def case_prod_unfold)
qed

lemma merged_ok:
  assumes "0 < n" "0 \<le> ctx" "- 1 \<le> gap"
  shows "list_all (ex_ok n) (merge_expanded gap (raw_expanded n pending items ctx)) \<and>
     separated (merge_expanded gap (raw_expanded n pending items ctx)) \<and>
     (\<forall>x \<in> set (raw_expanded n pending items ctx). \<exists>m \<in> set (merge_expanded gap (raw_expanded n pending items ctx)). within x m)"
proof -
  have "list_all (ex_ok n) []" "separated []" by (simp_all add: separated_def)
  with merge_fold_ok [OF assms(3) raw_expanded_ok [OF assms(2,1)] raw_expanded_sorted, of "[]" pending items]
  show ?thesis unfolding merge_expanded_def by (metis empty_iff list.set(1))
qed

section \<open>Correctness\<close>

text \<open>C34: The regions of a file, in order, list every line from 1 to the last exactly once: they are
  consecutive, do not overlap and leave no gap, for every set of pending lines and every list of
  function ranges, overlapping or invalid ones included.\<close>

theorem regions_partition_file:
  assumes "0 < total_lines" and "0 \<le> ctx" and "0 \<le> max_gap"
  shows "concat (map (\<lambda>r. [r_start r..r_end r]) (build_code_regions total_lines pending items ctx max_gap)) = [1..total_lines]"
proof (cases "valid_pending total_lines pending = []")
  case True
  with assms(1) show ?thesis by (simp add: build_code_regions_def collapsed_def CodeRegion_def)
next
  case False
  let ?ms = "merge_expanded max_gap (raw_expanded total_lines pending items ctx)"
  have "list_all (ex_ok total_lines) ?ms" "separated ?ms" using merged_ok assms by auto
  then have "concat (map region_lines (fill total_lines 1 ?ms)) = [1..total_lines]"
    using assms(1) by (intro fill_lines) (auto simp: list_all_iff ex_ok_def)
  then show ?thesis using False assms(1) by (simp add: build_code_regions_def region_lines_def [abs_def])
qed

theorem regions_partition_file_witness:
  "concat (map (\<lambda>r. [r_start r..r_end r]) (build_code_regions 100 [5, 60] [Seq 3 9 None, Seq 8 2 None] 2 1)) = [1..100]"
  by (rule regions_partition_file) simp_all

text \<open>Every pending line of the file is shown: some expanded region contains it, and with it the
  whole function that contains the line, or the context around it when no function does.\<close>

lemma pending_line_expanded:
  assumes "0 < total_lines" and "0 \<le> ctx" and "0 \<le> max_gap" and "line \<in> set pending" and "1 \<le> line" and "line \<le> total_lines"
  shows "\<exists>r \<in> set (build_code_regions total_lines pending items ctx max_gap).
     default_state r = ''expanded'' \<and> r_start r \<le> line \<and> line \<le> r_end r \<and>
     (case find_function_containing_line line (sanitize_function_ranges items (Some total_lines)) of
        Some f \<Rightarrow> r_start r \<le> start_line f \<and> end_line f \<le> r_end r
      | None \<Rightarrow> r_start r \<le> max 1 (line - ctx) \<and> min total_lines (line + ctx) \<le> r_end r)"
proof -
  let ?raw = "raw_expanded total_lines pending items ctx"
  let ?found = "find_function_containing_line line (sanitize_function_ranges items (Some total_lines))"
  let ?x = "expand_line total_lines ctx ?found line"
  have l: "line \<in> set (valid_pending total_lines pending)" using assms(4-6) by (simp add: valid_pending_iff)
  then have "?x \<in> set ?raw" by (simp add: raw_expanded_set)
  then obtain s e lb where m: "(s, e, lb) \<in> set (merge_expanded max_gap ?raw)" "within ?x (s, e, lb)"
    using merged_ok [OF assms(1,2), of max_gap pending items] assms(3) by (metis prod_cases3 le_minus_one_simps(1) order_trans)
  have "CodeRegion s e ''expanded'' ''analysis'' lb \<in> set (build_code_regions total_lines pending items ctx max_gap)"
    using fill_expanded [OF m(1)] l assms(1) by (auto simp: build_code_regions_def)
  moreover have "s \<le> line \<and> line \<le> e \<and>
     (case ?found of Some f \<Rightarrow> s \<le> start_line f \<and> end_line f \<le> e
      | None \<Rightarrow> s \<le> max 1 (line - ctx) \<and> min total_lines (line + ctx) \<le> e)"
    using m(2) assms(2,5,6) found_member [of line "sanitize_function_ranges items (Some total_lines)"]
    by (auto simp: within_def expand_line_def contains_def split: option.splits)
  ultimately show ?thesis by (intro bexI [of _ "CodeRegion s e ''expanded'' ''analysis'' lb"]) (simp_all add: CodeRegion_def split: option.splits)
qed

theorem pending_line_expanded_witness:
  "\<exists>r \<in> set (build_code_regions 100 [5] [Seq 3 9 None] 2 1). default_state r = ''expanded'' \<and> r_start r \<le> 3 \<and> 9 \<le> r_end r"
proof -
  have "find_function_containing_line 5 (sanitize_function_ranges [Seq 3 9 None] (Some 100)) = Some (FunctionRange 3 9 None)"
    by code_simp
  with pending_line_expanded [of 100 2 1 5 "[5]" "[Seq 3 9 None]"] show ?thesis by (auto simp: FunctionRange_def)
qed

text \<open>The two-pointer sweep of \<open>build_code_regions\<close> finds for each pending line the function that
  \<open>find_function_containing_line\<close> finds by binary search.\<close>

lemma sweep_agrees_with_bisect:
  assumes "sorted ls"
  shows "sweep (sanitize_function_ranges items (Some n)) n ctx 0 ls =
     map (\<lambda>l. expand_line n ctx (find_function_containing_line l (sanitize_function_ranges items (Some n))) l) ls"
  by (rule sweep_eq) (auto simp: sanitized_sorted assms position_ok_def)

theorem sweep_agrees_with_bisect_witness:
  "sweep (sanitize_function_ranges [Seq 3 9 None] (Some 50)) 50 2 0 [4, 20] =
     map (\<lambda>l. expand_line 50 2 (find_function_containing_line l (sanitize_function_ranges [Seq 3 9 None] (Some 50))) l) [4, 20]"
  by (rule sweep_agrees_with_bisect) simp

end
