(* ===== verification/UpgradeLifecycle.thy ===== *)
theory UpgradeLifecycle
  imports Prelude
begin

text \<open>
  The upgrade lifecycle of \<open>app/upgrade/lifecycle.py\<close>: the freeze marker that stops writes, the
  external stop, start and open commands, and \<open>abort\<close>, the rollback. The state holds the flags of
  \<open>UpgradeLifecycle\<close>, whether the marker file exists, and the commands run so far; it survives
  exceptions, as the object does. Parameters, gathered in \<open>world\<close>: how a command line is split
  (\<open>shlex\<close>), the exit code of the n-th process started, the environment of the process, the
  recorded serving state and the answer of the release endpoints. The text a command printed and
  its duration are only evidence and are left out; configured dictionaries that are handed on as
  JSON are their JSON text.

  Shown: a rollback that fails keeps writes frozen, a rollback that succeeds has stopped what the
  upgrade started before it started anything, nothing is started or stopped while the stable
  process still serves, and the validation API is left running on that path.
\<close>

datatype command_value = Text_command string | Argv_command "string option list"

type_synonym environment = "(string \<times> string) list"

record run_record =
  run_name :: string
  run_argv :: "string list"
  run_env :: environment
  exit_code :: int

type_synonym release = "(string \<times> string) list"

record serving_state =
  ss_status :: string
  ss_role :: string
  ss_session_id :: string
  ss_pid_file :: string

record world =
  shlex_split :: "string \<Rightarrow> string list"
  exit_of :: "nat \<Rightarrow> string list \<Rightarrow> environment \<Rightarrow> int"
  os_environ :: environment
  serving_state_file :: "serving_state option"
  fetch_release :: "string \<Rightarrow> release option result"

record upgrade_config =
  commands :: "(string \<times> command_value) list"
  candidate_runtime_mysql :: string
  config_mysql :: string
  current_serving_state_path :: string
  release_endpoint :: string
  previous_release_endpoint :: string

record lifecycle =
  mode :: string
  active :: bool
  api_started :: bool
  serving_api_started :: bool
  current_serving_managed :: bool
  current_api_stopped :: bool
  current_api_stop_attempted :: bool
  traffic_opened :: bool
  previous_release :: release
  published_session_id :: string
  previous_runtime_mysql :: string
  marker :: "string option"
  runs :: "run_record list"

definition UpgradeLifecycle :: "string \<Rightarrow> release \<Rightarrow> string \<Rightarrow> string \<Rightarrow> string option \<Rightarrow> lifecycle" where
  "UpgradeLifecycle m previous session mysql existing_marker =
     \<lparr>mode = m, active = False, api_started = False, serving_api_started = False,
      current_serving_managed = False, current_api_stopped = False, current_api_stop_attempted = False,
      traffic_opened = False, previous_release = previous, published_session_id = session,
      previous_runtime_mysql = mysql, marker = existing_marker, runs = []\<rparr>"

definition writes_are_frozen :: "lifecycle \<Rightarrow> bool" where
  "writes_are_frozen s \<longleftrightarrow> marker s \<noteq> None"

section \<open>Commands\<close>

definition control_keys :: "string list" where
  "control_keys = [''COVERAGE_VALIDATION_SESSION_MANIFEST'', ''COVERAGE_VALIDATION_SESSION_ID'',
     ''COVERAGE_VALIDATION_CANDIDATE_SHA'', ''COVERAGE_VALIDATION_BASELINE_SHA'',
     ''COVERAGE_VALIDATION_TEARDOWN_EVIDENCE'', ''COVERAGE_SERVING_SESSION_MANIFEST'',
     ''COVERAGE_SERVING_SESSION_ID'', ''COVERAGE_SERVING_CANDIDATE_SHA'', ''COVERAGE_SERVING_BASELINE_SHA'',
     ''COVERAGE_SERVING_TEARDOWN_EVIDENCE'', ''COVERAGE_SERVING_RELEASE_SESSION_ID'',
     ''COVERAGE_SERVING_CANDIDATE_ARTIFACT_SHA256'', ''COVERAGE_SERVING_SERVED_ROOT_SHA256'']"

abbreviation CANDIDATE_MYSQL :: string where "CANDIDATE_MYSQL \<equiv> ''COVERAGE_CANDIDATE_MYSQL_JSON''"

definition command_configured :: "upgrade_config \<Rightarrow> string \<Rightarrow> bool" where
  "command_configured cfg name =
     (case map_of (commands cfg) name of
        None \<Rightarrow> False | Some (Text_command t) \<Rightarrow> t \<noteq> [] | Some (Argv_command parts) \<Rightarrow> parts \<noteq> [])"

definition command_argv :: "world \<Rightarrow> upgrade_config \<Rightarrow> string \<Rightarrow> string list result" where
  "command_argv w cfg name =
     (if \<not> command_configured cfg name
      then Inl (RuntimeError (''upgrade lifecycle command '' @ [SQUOTE] @ name @ [SQUOTE] @ '' is not configured''))
      else let parts = (case the (map_of (commands cfg) name) of
                 Text_command t \<Rightarrow> map Some (shlex_split w t) | Argv_command ps \<Rightarrow> ps) in
        if parts = [] \<or> None \<in> set parts
        then Inl (RuntimeError (''upgrade lifecycle command '' @ [SQUOTE] @ name @ [SQUOTE] @ '' is invalid''))
        else Inr (map the parts))"

definition command_env :: "world \<Rightarrow> upgrade_config \<Rightarrow> string \<Rightarrow> bool \<Rightarrow> environment \<Rightarrow> bool \<Rightarrow> environment" where
  "command_env w cfg name clear_control_session extra_env use_candidate_runtime =
     (let e1 = (if clear_control_session then filter (\<lambda>(k, v). k \<notin> set control_keys) (os_environ w) else os_environ w);
          e2 = filter (\<lambda>(k, v). k \<noteq> CANDIDATE_MYSQL) e1;
          e3 = (if use_candidate_runtime \<and> name \<in> {''start_validation_api'', ''start_serving_api''} \<and>
                   candidate_runtime_mysql cfg \<noteq> []
                then AList.update CANDIDATE_MYSQL (candidate_runtime_mysql cfg) e2 else e2)
      in dict_update e3 extra_env)"

definition run_command_with ::
  "world \<Rightarrow> upgrade_config \<Rightarrow> string \<Rightarrow> bool \<Rightarrow> environment \<Rightarrow> bool \<Rightarrow> (lifecycle, run_record) action" where
  "run_command_with w cfg name clear extra candidate s =
     (case command_argv w cfg name of
        Inl e \<Rightarrow> (Inl e, s)
      | Inr argv \<Rightarrow>
          let env = command_env w cfg name clear extra candidate;
              r = \<lparr>run_name = name, run_argv = argv, run_env = env, exit_code = exit_of w (length (runs s)) argv env\<rparr>
          in (Inr r, s\<lparr>runs := runs s @ [r]\<rparr>))"

definition run_command :: "world \<Rightarrow> upgrade_config \<Rightarrow> string \<Rightarrow> (lifecycle, run_record) action" where
  "run_command w cfg name = run_command_with w cfg name False [] True"

definition passed :: "run_record \<Rightarrow> bool" where
  "passed r \<longleftrightarrow> exit_code r = 0"

text \<open>Run a command and raise when it did not pass.\<close>

definition require :: "string \<Rightarrow> run_record \<Rightarrow> (lifecycle, run_record) action" where
  "require message r = (if passed r then act_return r else act_raise (RuntimeError message))"

definition run_required :: "world \<Rightarrow> upgrade_config \<Rightarrow> string \<Rightarrow> string \<Rightarrow> (lifecycle, run_record) action" where
  "run_required w cfg name message = act_bind (run_command w cfg name) (require message)"

definition evidence_class :: "lifecycle \<Rightarrow> string" where
  "evidence_class s = (if mode s = ''staging'' then ''staging_cutover'' else ''production_cutover'')"

section \<open>The forward path\<close>

fun drain :: "world \<Rightarrow> upgrade_config \<Rightarrow> nat option \<Rightarrow> nat list \<Rightarrow> (lifecycle, run_record) action" where
  "drain w cfg last_count [] =
     act_raise (RuntimeError (''background jobs did not drain: '' @
       (case last_count of None \<Rightarrow> ''None'' | Some n \<Rightarrow> show_nat n) @ '' still active''))"
| "drain w cfg last_count (n # counts) =
     (if n = 0 then run_required w cfg ''drain_jobs'' ''drain_jobs failed'' else drain w cfg (Some n) counts)"

definition stop_validation_api :: "world \<Rightarrow> upgrade_config \<Rightarrow> (lifecycle, run_record) action" where
  "stop_validation_api w cfg =
     act_bind (run_required w cfg ''stop_validation_api'' ''stop_validation_api failed'') (\<lambda>r.
     act_bind (act_modify (\<lambda>s. s\<lparr>api_started := False\<rparr>)) (\<lambda>_. act_return r))"

definition stop_api :: "world \<Rightarrow> upgrade_config \<Rightarrow> (lifecycle, run_record) action" where
  "stop_api w cfg =
     (let name = (if command_configured cfg ''stop_validation_api'' then ''stop_validation_api'' else ''stop_api'') in
      act_bind (run_required w cfg name (name @ '' failed'')) (\<lambda>r.
      act_bind (act_modify (\<lambda>s. s\<lparr>api_started := False\<rparr>)) (\<lambda>_. act_return r)))"

definition has_active_current_serving_state :: "world \<Rightarrow> upgrade_config \<Rightarrow> bool" where
  "has_active_current_serving_state w cfg \<longleftrightarrow> current_serving_state_path cfg \<noteq> [] \<and>
     (case serving_state_file w of None \<Rightarrow> False
      | Some st \<Rightarrow> ss_status st = ''ACTIVE'' \<and> ss_role st = ''production_serving'' \<and> ss_session_id st \<noteq> [] \<and> ss_pid_file st \<noteq> [])"

definition stop_current_api :: "world \<Rightarrow> upgrade_config \<Rightarrow> (lifecycle, run_record) action" where
  "stop_current_api w cfg =
     act_bind (act_modify (\<lambda>s. s\<lparr>current_serving_managed := has_active_current_serving_state w cfg,
                                current_api_stop_attempted := True\<rparr>)) (\<lambda>_.
     act_bind (run_command_with w cfg ''stop_current_api'' True [] True) (\<lambda>r.
     act_bind (require ''stop_current_api failed'' r) (\<lambda>r.
     act_bind (act_modify (\<lambda>s. s\<lparr>current_api_stopped := True\<rparr>)) (\<lambda>_. act_return r))))"

definition start_validation_api :: "world \<Rightarrow> upgrade_config \<Rightarrow> (lifecycle, run_record) action" where
  "start_validation_api w cfg =
     act_bind (act_modify (\<lambda>s. s\<lparr>api_started := True\<rparr>)) (\<lambda>_.
     run_required w cfg ''start_validation_api'' ''start_validation_api failed'')"

definition start_api :: "world \<Rightarrow> upgrade_config \<Rightarrow> (lifecycle, run_record) action" where
  "start_api w cfg =
     (let name = (if command_configured cfg ''start_validation_api'' then ''start_validation_api'' else ''start_api'') in
      act_bind (act_modify (\<lambda>s. s\<lparr>api_started := True\<rparr>)) (\<lambda>_. run_required w cfg name (name @ '' failed'')))"

definition start_serving_api :: "world \<Rightarrow> upgrade_config \<Rightarrow> (lifecycle, run_record) action" where
  "start_serving_api w cfg =
     act_bind (act_modify (\<lambda>s. s\<lparr>serving_api_started := True\<rparr>)) (\<lambda>_.
     run_required w cfg ''start_serving_api'' ''start_serving_api failed'')"

definition stop_serving_api :: "world \<Rightarrow> upgrade_config \<Rightarrow> (lifecycle, run_record) action" where
  "stop_serving_api w cfg =
     act_bind (run_command_with w cfg ''stop_serving_api'' True [] True) (\<lambda>r.
     act_bind (require ''stop_serving_api failed'' r) (\<lambda>r.
     act_bind (act_modify (\<lambda>s. s\<lparr>serving_api_started := False\<rparr>)) (\<lambda>_. act_return r)))"

definition open_traffic :: "world \<Rightarrow> upgrade_config \<Rightarrow> (lifecycle, run_record) action" where
  "open_traffic w cfg =
     act_bind (run_required w cfg ''open_traffic'' ''open_traffic failed'') (\<lambda>r.
     act_bind (act_modify (\<lambda>s. s\<lparr>traffic_opened := True\<rparr>)) (\<lambda>_. act_return r))"

definition finalize_traffic_open :: "(lifecycle, unit) action" where
  "finalize_traffic_open s =
     (if \<not> traffic_opened s then (Inl (RuntimeError ''traffic has not been opened''), s)
      else (Inr (), s\<lparr>active := False, marker := None\<rparr>))"

section \<open>Rollback\<close>

record abort_result =
  evidence :: string
  abort_runs :: "run_record list"
  previous_release_verified :: bool
  current_process_preserved :: bool
  restore_endpoint :: string
  restore_endpoint_key :: string

definition abort_refreeze :: "world \<Rightarrow> upgrade_config \<Rightarrow> (lifecycle, run_record list) action" where
  "abort_refreeze w cfg s =
     (if \<not> traffic_opened s then (Inr [], s)
      else act_bind (run_required w cfg ''freeze_traffic'' ''traffic re-freeze failed during rollback'') (\<lambda>r.
           act_bind (act_modify (\<lambda>s. s\<lparr>traffic_opened := False\<rparr>)) (\<lambda>_. act_return [r])) s)"

definition clear_marker :: "lifecycle \<Rightarrow> lifecycle" where
  "clear_marker s = s\<lparr>marker := None, active := False\<rparr>"

definition abort_reopen :: "world \<Rightarrow> upgrade_config \<Rightarrow> (lifecycle, run_record list) action" where
  "abort_reopen w cfg s =
     (if active s \<or> marker s \<noteq> None then
        if \<not> command_configured cfg ''open_traffic''
        then (Inl (RuntimeError (''upgrade lifecycle command '' @ [SQUOTE] @ ''open_traffic'' @ [SQUOTE] @ '' is not configured'')), s)
        else act_bind (run_command_with w cfg ''open_traffic'' True [] False) (\<lambda>r.
             act_bind (require ''traffic reopen failed while preserving current API'' r) (\<lambda>r.
             act_bind (act_modify (\<lambda>s. s\<lparr>traffic_opened := False\<rparr>)) (\<lambda>_. act_return [r]))) s
      else (Inr [], s))"

text \<open>The path that keeps the stable process.\<close>

definition abort_preserve :: "world \<Rightarrow> upgrade_config \<Rightarrow> run_record list \<Rightarrow> (lifecycle, abort_result) action" where
  "abort_preserve w cfg results s =
     (if current_api_stop_attempted s
      then (Inl (RuntimeError ''current API stop outcome is unknown; refusing automatic rollback''), s)
      else act_bind (abort_reopen w cfg) (\<lambda>rs.
           act_bind (act_modify clear_marker) (\<lambda>_.
           act_return \<lparr>evidence = evidence_class s, abort_runs = results @ rs, previous_release_verified = False,
                       current_process_preserved = True, restore_endpoint = [], restore_endpoint_key = []\<rparr>)) s)"

definition abort_stop_serving :: "world \<Rightarrow> upgrade_config \<Rightarrow> (lifecycle, run_record list) action" where
  "abort_stop_serving w cfg s =
     (if \<not> serving_api_started s then (Inr [], s)
      else act_bind (run_required w cfg ''stop_serving_api'' ''final serving API stop failed during rollback'') (\<lambda>r.
           act_bind (act_modify (\<lambda>s. s\<lparr>serving_api_started := False\<rparr>)) (\<lambda>_. act_return [r])) s)"

definition abort_stop_validation :: "world \<Rightarrow> upgrade_config \<Rightarrow> (lifecycle, run_record list) action" where
  "abort_stop_validation w cfg s =
     (if \<not> api_started s then (Inr [], s)
      else act_bind (run_required w cfg ''stop_validation_api'' ''validation API stop failed during rollback'') (\<lambda>r.
           act_bind (act_modify (\<lambda>s. s\<lparr>api_started := False\<rparr>)) (\<lambda>_. act_return [r])) s)"

definition restore_env :: "upgrade_config \<Rightarrow> lifecycle \<Rightarrow> environment" where
  "restore_env cfg s =
     (let sha = dict_get (previous_release s) ''commit_sha'' [];
          mysql = (if previous_runtime_mysql s \<noteq> [] then previous_runtime_mysql s else config_mysql cfg) in
      (if sha \<noteq> [] then [(''COVERAGE_SERVING_CANDIDATE_SHA'', sha), (''COVERAGE_SERVING_BASELINE_SHA'', sha)] else []) @
      (if published_session_id s \<noteq> [] then [(''COVERAGE_SERVING_RELEASE_SESSION_ID'', published_session_id s)] else []) @
      (if mysql \<noteq> [] then [(CANDIDATE_MYSQL, mysql)] else []))"

definition not_configured :: "string \<Rightarrow> py_error" where
  "not_configured name = RuntimeError (''upgrade lifecycle command '' @ [SQUOTE] @ name @ [SQUOTE] @ '' is not configured'')"

definition abort_restore :: "world \<Rightarrow> upgrade_config \<Rightarrow> bool \<Rightarrow> (lifecycle, run_record) action" where
  "abort_restore w cfg managed s =
     act_bind
       (if managed then
          if \<not> command_configured cfg ''start_serving_api'' then act_raise (not_configured ''start_serving_api'')
          else run_command_with w cfg ''start_serving_api'' True (restore_env cfg s) False
        else
          if \<not> command_configured cfg ''start_previous_api'' then act_raise (not_configured ''start_previous_api'')
          else run_command_with w cfg ''start_previous_api'' True [] True)
       (require ''previous API start failed during rollback'') s"

definition identity_keys :: "string list" where
  "identity_keys = [''version'', ''commit_sha'', ''build_id'', ''asset_hash'', ''schema_version'',
     ''asset_manifest_version'', ''asset_count'', ''asset_manifest_hash'', ''asset_manifest'']"

definition abort_verify :: "world \<Rightarrow> string \<Rightarrow> string \<Rightarrow> (lifecycle, unit) action" where
  "abort_verify w endpoint_key endpoint s =
     (if endpoint = [] then (Inr (), s)
      else if previous_release s = []
      then (Inl (RuntimeError ''previous release identity is required for rollback endpoint verification''), s)
      else case fetch_release w endpoint of
        Inl e \<Rightarrow> (Inl e, s)
      | Inr None \<Rightarrow> (Inl (RuntimeError (endpoint_key @ '' returned no release identity'')), s)
      | Inr (Some actual) \<Rightarrow>
          (case List.find (\<lambda>k. map_of actual k \<noteq> map_of (previous_release s) k) identity_keys of
             Some k \<Rightarrow> (Inl (RuntimeError (endpoint_key @ '' mismatch: '' @ k)), s)
           | None \<Rightarrow> (Inr (), s)))"

definition abort :: "world \<Rightarrow> upgrade_config \<Rightarrow> (lifecycle, abort_result) action" where
  "abort w cfg =
     act_bind (abort_refreeze w cfg) (\<lambda>rs0 s.
       if \<not> current_api_stopped s \<and> \<not> serving_api_started s then abort_preserve w cfg rs0 s
       else let managed = serving_api_started s \<or> current_serving_managed s;
                key = (if managed then ''release_endpoint'' else ''previous_release_endpoint'');
                endpoint = (if managed then release_endpoint cfg else previous_release_endpoint cfg) in
         act_bind (abort_stop_serving w cfg) (\<lambda>rs1.
         act_bind (abort_stop_validation w cfg) (\<lambda>rs2.
         act_bind (abort_restore w cfg managed) (\<lambda>r.
         act_bind (abort_verify w key endpoint) (\<lambda>_.
         act_bind (act_modify clear_marker) (\<lambda>_.
         act_return \<lparr>evidence = evidence_class s, abort_runs = rs0 @ rs1 @ rs2 @ [r],
                     previous_release_verified = (endpoint \<noteq> []), current_process_preserved = False,
                     restore_endpoint = endpoint, restore_endpoint_key = key\<rparr>))))) s)"

definition freeze :: "world \<Rightarrow> upgrade_config \<Rightarrow> string \<Rightarrow> (lifecycle, run_record) action" where
  "freeze w cfg revision =
     act_bind (act_modify (\<lambda>s. s\<lparr>marker := Some revision, active := True\<rparr>)) (\<lambda>_.
     act_bind (run_command w cfg ''freeze_traffic'') (\<lambda>r.
       if passed r then act_return r
       else act_bind (abort w cfg) (\<lambda>_. act_raise (RuntimeError ''freeze_traffic failed''))))"

section \<open>Stages\<close>

lemma run_command_with_ok:
  "run_command_with w cfg name clear extra candidate s = (Inr r, t) \<Longrightarrow>
     run_name r = name \<and> run_env r = command_env w cfg name clear extra candidate \<and> t = s\<lparr>runs := runs s @ [r]\<rparr>"
  by (auto simp: run_command_with_def Let_def split: sum.splits)

lemma run_command_with_err: "run_command_with w cfg name clear extra candidate s = (Inl e, t) \<Longrightarrow> t = s"
  by (auto simp: run_command_with_def Let_def split: sum.splits)

lemma require_ok: "require m r s = (Inr r', t) \<Longrightarrow> r' = r \<and> t = s \<and> passed r"
  by (auto simp: require_def split: if_splits)

lemma require_err: "require m r s = (Inl e, t) \<Longrightarrow> t = s"
  by (auto simp: require_def split: if_splits)

lemma run_required_ok:
  "run_required w cfg name m s = (Inr r, t) \<Longrightarrow> run_name r = name \<and> passed r \<and> t = s\<lparr>runs := runs s @ [r]\<rparr>"
  by (auto simp: run_required_def run_command_def act_bind_Inr dest!: run_command_with_ok require_ok)

lemma run_required_err: "run_required w cfg name m s = (Inl e, t) \<Longrightarrow> marker t = marker s"
  by (auto simp: run_required_def run_command_def act_bind_Inl
      dest!: run_command_with_ok run_command_with_err require_err)

lemma refreeze_ok:
  "abort_refreeze w cfg s = (Inr rs, t) \<Longrightarrow>
     t = s\<lparr>traffic_opened := False, runs := runs s @ rs\<rparr> \<and> list_all passed rs \<and>
     map run_name rs = (if traffic_opened s then [''freeze_traffic''] else [])"
  by (auto simp: abort_refreeze_def act_bind_Inr dest!: run_required_ok split: if_splits)

lemma stop_serving_ok:
  "abort_stop_serving w cfg s = (Inr rs, t) \<Longrightarrow>
     t = s\<lparr>serving_api_started := False, runs := runs s @ rs\<rparr> \<and> list_all passed rs \<and>
     map run_name rs = (if serving_api_started s then [''stop_serving_api''] else [])"
  by (auto simp: abort_stop_serving_def act_bind_Inr dest!: run_required_ok split: if_splits)

lemma stop_validation_ok:
  "abort_stop_validation w cfg s = (Inr rs, t) \<Longrightarrow>
     t = s\<lparr>api_started := False, runs := runs s @ rs\<rparr> \<and> list_all passed rs \<and>
     map run_name rs = (if api_started s then [''stop_validation_api''] else [])"
  by (auto simp: abort_stop_validation_def act_bind_Inr dest!: run_required_ok split: if_splits)

lemma stage_err:
  "abort_refreeze w cfg s = (Inl e, t) \<Longrightarrow> marker t = marker s"
  "abort_stop_serving w cfg s = (Inl e, t) \<Longrightarrow> marker t = marker s"
  "abort_stop_validation w cfg s = (Inl e, t) \<Longrightarrow> marker t = marker s"
  by (auto simp: abort_refreeze_def abort_stop_serving_def abort_stop_validation_def act_bind_Inl
      dest!: run_required_err split: if_splits)

lemma reopen_ok:
  "abort_reopen w cfg s = (Inr rs, t) \<Longrightarrow> runs t = runs s @ rs \<and> list_all passed rs \<and>
     map run_name rs = (if active s \<or> marker s \<noteq> None then [''open_traffic''] else []) \<and>
     (t = s \<or> t = s\<lparr>runs := runs s @ rs, traffic_opened := False\<rparr>)"
  by (auto simp: abort_reopen_def act_bind_Inr dest!: run_command_with_ok require_ok split: if_splits)

lemma reopen_err: "abort_reopen w cfg s = (Inl e, t) \<Longrightarrow> marker t = marker s"
  by (auto simp: abort_reopen_def act_bind_Inl dest!: run_command_with_ok run_command_with_err require_err split: if_splits)

lemma restore_ok:
  "abort_restore w cfg managed s = (Inr r, t) \<Longrightarrow> passed r \<and> t = s\<lparr>runs := runs s @ [r]\<rparr> \<and>
     run_name r = (if managed then ''start_serving_api'' else ''start_previous_api'') \<and>
     (managed \<longrightarrow> run_env r = command_env w cfg ''start_serving_api'' True (restore_env cfg s) False)"
  by (auto simp: abort_restore_def act_bind_Inr dest!: run_command_with_ok require_ok split: if_splits)

lemma restore_err: "abort_restore w cfg managed s = (Inl e, t) \<Longrightarrow> marker t = marker s"
  by (auto simp: abort_restore_def act_bind_Inl dest!: run_command_with_ok run_command_with_err require_err split: if_splits)

lemma verify_same: "abort_verify w key endpoint s = (out, t) \<Longrightarrow> t = s"
  by (auto simp: abort_verify_def split: if_splits sum.splits option.splits)

lemma preserve_ok:
  assumes "abort_preserve w cfg rs0 s = (Inr r, t)"
  obtains rs where "\<not> current_api_stop_attempted s" "abort_runs r = rs0 @ rs" "current_process_preserved r"
    "list_all passed rs" "map run_name rs = (if active s \<or> marker s \<noteq> None then [''open_traffic''] else [])"
    "runs t = runs s @ rs" "marker t = None" "\<not> active t" "api_started t = api_started s"
    "traffic_opened s \<longrightarrow> active s \<or> marker s \<noteq> None \<Longrightarrow> \<not> traffic_opened t"
proof -
  from assms obtain rs u where u: "\<not> current_api_stop_attempted s" "abort_reopen w cfg s = (Inr rs, u)"
    "abort_runs r = rs0 @ rs" "current_process_preserved r" "t = clear_marker u"
    by (auto simp: abort_preserve_def act_bind_Inr split: if_splits)
  show thesis
    by (rule that [OF u(1,3,4)]) (use reopen_ok [OF u(2)] u(5) in \<open>auto simp: clear_marker_def split: if_splits\<close>)
qed

lemma map_of_filter_key: "map_of (filter (\<lambda>x. P x \<and> (case x of (k, v) \<Rightarrow> k \<noteq> y)) d) y = None"
  by (induction d) auto

section \<open>Correctness\<close>

definition managed_restore :: "lifecycle \<Rightarrow> bool" where
  "managed_restore s \<longleftrightarrow> serving_api_started s \<or> current_serving_managed s"

lemma abort_ok_cases:
  assumes "abort w cfg s = (Inr r, t)"
  obtains (preserved) rs0 s1 where "\<not> current_api_stopped s" "\<not> serving_api_started s"
      "abort_refreeze w cfg s = (Inr rs0, s1)" "abort_preserve w cfg rs0 s1 = (Inr r, t)"
  | (restored) rs0 s1 rs1 s2 rs2 s3 q s4 where "current_api_stopped s \<or> serving_api_started s"
      "abort_refreeze w cfg s = (Inr rs0, s1)" "abort_stop_serving w cfg s1 = (Inr rs1, s2)"
      "abort_stop_validation w cfg s2 = (Inr rs2, s3)" "abort_restore w cfg (managed_restore s) s3 = (Inr q, s4)"
      "abort_runs r = rs0 @ rs1 @ rs2 @ [q]" "\<not> current_process_preserved r" "t = clear_marker s4"
proof -
  from assms obtain rs0 s1 where r0: "abort_refreeze w cfg s = (Inr rs0, s1)"
    and rest: "(if \<not> current_api_stopped s1 \<and> \<not> serving_api_started s1 then abort_preserve w cfg rs0 s1
       else let managed = serving_api_started s1 \<or> current_serving_managed s1;
                key = (if managed then ''release_endpoint'' else ''previous_release_endpoint'');
                endpoint = (if managed then release_endpoint cfg else previous_release_endpoint cfg) in
         act_bind (abort_stop_serving w cfg) (\<lambda>rs1.
         act_bind (abort_stop_validation w cfg) (\<lambda>rs2.
         act_bind (abort_restore w cfg managed) (\<lambda>r.
         act_bind (abort_verify w key endpoint) (\<lambda>_.
         act_bind (act_modify clear_marker) (\<lambda>_.
         act_return \<lparr>evidence = evidence_class s1, abort_runs = rs0 @ rs1 @ rs2 @ [r],
                     previous_release_verified = (endpoint \<noteq> []), current_process_preserved = False,
                     restore_endpoint = endpoint, restore_endpoint_key = key\<rparr>))))) s1) = (Inr r, t)"
    unfolding abort_def act_bind_Inr [of "abort_refreeze w cfg"] by blast
  have s1: "current_api_stopped s1 = current_api_stopped s" "serving_api_started s1 = serving_api_started s"
    "current_serving_managed s1 = current_serving_managed s"
    using refreeze_ok [OF r0] by auto
  show thesis
  proof (cases "\<not> current_api_stopped s \<and> \<not> serving_api_started s")
    case True
    with rest s1 r0 that(1) show thesis by auto
  next
    case False
    with rest s1 obtain rs1 s2 rs2 s3 q s4 s5 key endpoint where
      "abort_stop_serving w cfg s1 = (Inr rs1, s2)" "abort_stop_validation w cfg s2 = (Inr rs2, s3)"
      "abort_restore w cfg (managed_restore s) s3 = (Inr q, s4)" "abort_verify w key endpoint s4 = (Inr (), s5)"
      "t = clear_marker s5" "abort_runs r = rs0 @ rs1 @ rs2 @ [q]" "\<not> current_process_preserved r"
      by (auto simp: act_bind_Inr Let_def managed_restore_def)
    with verify_same [of w key endpoint s4] r0 False that(2) show thesis by blast
  qed
qed

text \<open>C39: A rollback that fails, at whatever point and for whatever reason, leaves the freeze marker
  as it was: writes stay frozen until somebody repairs the release.\<close>

theorem failed_abort_keeps_writes_frozen:
  assumes "abort w cfg s = (Inl e, t)"
  shows "marker t = marker s \<and> writes_are_frozen t = writes_are_frozen s"
proof -
  have "marker t = marker s"
    using assms unfolding abort_def
  proof (cases rule: act_bind_cases)
    case (raised e')
    then show ?thesis using stage_err(1) by blast
  next
    case (passed rs0 s1)
    have m1: "marker s1 = marker s" using refreeze_ok [OF passed(1)] by simp
    show ?thesis
    proof (cases "\<not> current_api_stopped s1 \<and> \<not> serving_api_started s1")
      case True
      with passed(2) have "abort_preserve w cfg rs0 s1 = (Inl e, t)" by simp
      then have "marker t = marker s1"
        by (auto simp: abort_preserve_def act_bind_Inl act_bind_Inr dest!: reopen_err split: if_splits)
      with m1 show ?thesis by simp
    next
      case False
      with passed(2) have "marker t = marker s1"
        by (auto simp: Let_def act_bind_Inl dest!: stage_err stop_serving_ok stop_validation_ok restore_ok restore_err verify_same)
      with m1 show ?thesis by simp
    qed
  qed
  then show ?thesis by (simp add: writes_are_frozen_def)
qed

text \<open>A rollback that succeeds has run exactly these commands, all of them with success and in
  this order: freeze traffic again if it was opened; then, if neither the stable process was
  stopped nor the new one started, only reopen traffic; otherwise stop the new serving process
  and the validation process if they were started, and only then start the previous release.
  The marker is gone and the upgrade no longer active.\<close>

lemma abort_commands_exact:
  assumes "abort w cfg s = (Inr r, t)"
  shows "map run_name (abort_runs r) =
     (if traffic_opened s then [''freeze_traffic''] else []) @
     (if \<not> current_api_stopped s \<and> \<not> serving_api_started s
      then (if active s \<or> marker s \<noteq> None then [''open_traffic''] else [])
      else (if serving_api_started s then [''stop_serving_api''] else []) @
           (if api_started s then [''stop_validation_api''] else []) @
           [if managed_restore s then ''start_serving_api'' else ''start_previous_api''])
     \<and> list_all passed (abort_runs r) \<and> runs t = runs s @ abort_runs r \<and> marker t = None \<and> \<not> active t"
  using assms
proof (cases rule: abort_ok_cases)
  case (preserved rs0 s1)
  obtain rs where rs: "\<not> current_api_stop_attempted s1" "abort_runs r = rs0 @ rs" "current_process_preserved r"
    "list_all passed rs" "map run_name rs = (if active s1 \<or> marker s1 \<noteq> None then [''open_traffic''] else [])"
    "runs t = runs s1 @ rs" "marker t = None" "\<not> active t" "api_started t = api_started s1"
    by (rule preserve_ok [OF preserved(4)]) blast
  with refreeze_ok [OF preserved(3)] preserved(1,2) show ?thesis by auto
next
  case (restored rs0 s1 rs1 s2 rs2 s3 q s4)
  from refreeze_ok [OF restored(2)] stop_serving_ok [OF restored(3)] stop_validation_ok [OF restored(4)]
    restore_ok [OF restored(5)] restored(1,6,8)
  show ?thesis by (auto simp: clear_marker_def)
qed

text \<open>A process that the rollback starts for the previous release never inherits the database of
  the candidate: its environment names the previous database or none at all.\<close>

lemma rollback_uses_previous_database:
  assumes "abort w cfg s = (Inr r, t)" and "q \<in> set (abort_runs r)" and "run_name q = ''start_serving_api''"
  shows "map_of (run_env q) CANDIDATE_MYSQL =
     (let mysql = (if previous_runtime_mysql s \<noteq> [] then previous_runtime_mysql s else config_mysql cfg)
      in if mysql = [] then None else Some mysql)"
  using assms(1)
proof (cases rule: abort_ok_cases)
  case (preserved rs0 s1)
  obtain rs where "abort_runs r = rs0 @ rs" "map run_name rs = (if active s1 \<or> marker s1 \<noteq> None then [''open_traffic''] else [])"
    by (rule preserve_ok [OF preserved(4)]) blast
  with refreeze_ok [OF preserved(3)] have "set (map run_name (abort_runs r)) \<subseteq> {''freeze_traffic'', ''open_traffic''}"
    by (auto split: if_splits)
  moreover have "run_name q \<in> set (map run_name (abort_runs r))" using assms(2) by simp
  ultimately show ?thesis using assms(3) by auto
next
  case (restored rs0 s1 rs1 s2 rs2 s3 p s4)
  have "run_name x \<noteq> ''start_serving_api''" if "x \<in> set (rs0 @ rs1 @ rs2)" for x
  proof -
    have "run_name x \<in> set (map run_name rs0) \<union> set (map run_name rs1) \<union> set (map run_name rs2)" using that by auto
    then show ?thesis using refreeze_ok [OF restored(2)] stop_serving_ok [OF restored(3)] stop_validation_ok [OF restored(4)]
      by (auto split: if_splits)
  qed
  with assms(2,3) restored(6) have "q = p" by auto
  with assms(3) restore_ok [OF restored(5)]
  have env: "run_env q = command_env w cfg ''start_serving_api'' True (restore_env cfg s3) False"
    by (auto split: if_splits)
  have "previous_runtime_mysql s3 = previous_runtime_mysql s"
    using refreeze_ok [OF restored(2)] stop_serving_ok [OF restored(3)] stop_validation_ok [OF restored(4)] by auto
  then show ?thesis
    using env by (auto simp: command_env_def restore_env_def dict_update_def Let_def map_of_filter_key)
qed

text \<open>The rollback that preserves the stable process does not stop the validation process the
  upgrade may have started: it succeeds with \<open>api_started\<close> still set and without running the stop
  command, although \<open>start_validation_api\<close> relies on \<open>abort\<close> attempting it.\<close>

lemma preserved_abort_leaves_validation_api:
  assumes "abort w cfg s = (Inr r, t)" and "api_started s" and "\<not> current_api_stopped s" and "\<not> serving_api_started s"
  shows "api_started t \<and> ''stop_validation_api'' \<notin> set (map run_name (abort_runs r)) \<and> runs t = runs s @ abort_runs r"
  using assms(1)
proof (cases rule: abort_ok_cases)
  case (preserved rs0 s1)
  obtain rs where "abort_runs r = rs0 @ rs" "map run_name rs = (if active s1 \<or> marker s1 \<noteq> None then [''open_traffic''] else [])"
    "runs t = runs s1 @ rs" "api_started t = api_started s1"
    by (rule preserve_ok [OF preserved(4)]) blast
  with refreeze_ok [OF preserved(3)] assms(2) show ?thesis by auto
qed (use assms in simp)

text \<open>A configuration in which every command is configured, and a world in which they all pass.\<close>

definition sample_config :: upgrade_config where
  "sample_config =
     \<lparr>commands = map (\<lambda>n. (n, Argv_command [Some n])) [''freeze_traffic'', ''open_traffic'', ''stop_current_api'',
        ''start_validation_api'', ''stop_validation_api'', ''start_serving_api'', ''stop_serving_api'', ''start_previous_api''],
      candidate_runtime_mysql = ''new'', config_mysql = ''old'', current_serving_state_path = [], release_endpoint = [],
      previous_release_endpoint = []\<rparr>"

definition sample_world :: world where
  "sample_world = \<lparr>shlex_split = py_words, exit_of = (\<lambda>n argv env. 0), os_environ = [(CANDIDATE_MYSQL, ''new'')],
     serving_state_file = None, fetch_release = (\<lambda>e. Inr None)\<rparr>"

definition sample_lifecycle :: lifecycle where
  "sample_lifecycle = (UpgradeLifecycle ''staging'' [] [] [] (Some ''rev''))
     \<lparr>active := True, api_started := True, current_api_stopped := True, serving_api_started := True, traffic_opened := True\<rparr>"

theorem failed_abort_keeps_writes_frozen_witness:
  "\<exists>e t. abort (sample_world\<lparr>exit_of := (\<lambda>n argv env. 1)\<rparr>) sample_config sample_lifecycle = (Inl e, t) \<and> writes_are_frozen t"
proof -
  let ?r = "abort (sample_world\<lparr>exit_of := (\<lambda>n argv env. 1)\<rparr>) sample_config sample_lifecycle"
  have "\<not> is_ok (fst ?r)" by code_simp
  then obtain e t where r: "?r = (Inl e, t)" by (cases ?r; cases "fst ?r") auto
  have "writes_are_frozen sample_lifecycle" by code_simp
  with failed_abort_keeps_writes_frozen [OF r] r show ?thesis by blast
qed

lemma sample_abort: "\<exists>r t. abort sample_world sample_config sample_lifecycle = (Inr r, t)"
proof -
  have "is_ok (fst (abort sample_world sample_config sample_lifecycle))" by code_simp
  then show ?thesis by (cases "abort sample_world sample_config sample_lifecycle") (auto simp: is_ok_iff)
qed

theorem abort_commands_exact_witness:
  "\<exists>r t. abort sample_world sample_config sample_lifecycle = (Inr r, t) \<and>
     map run_name (abort_runs r) = [''freeze_traffic'', ''stop_serving_api'', ''stop_validation_api'', ''start_serving_api''] \<and>
     marker t = None"
proof -
  obtain r t where r: "abort sample_world sample_config sample_lifecycle = (Inr r, t)" using sample_abort by blast
  with abort_commands_exact [OF r] show ?thesis
    by (simp add: sample_lifecycle_def UpgradeLifecycle_def managed_restore_def)
qed

theorem rollback_uses_previous_database_witness:
  "\<exists>r t q. abort sample_world sample_config sample_lifecycle = (Inr r, t) \<and> q \<in> set (abort_runs r) \<and>
     run_name q = ''start_serving_api'' \<and> map_of (run_env q) CANDIDATE_MYSQL = Some ''old''"
proof -
  obtain r t where r: "abort sample_world sample_config sample_lifecycle = (Inr r, t)" using sample_abort by blast
  have "case abort sample_world sample_config sample_lifecycle of (Inr r, t) \<Rightarrow>
      list_ex (\<lambda>q. run_name q = ''start_serving_api'') (abort_runs r) | _ \<Rightarrow> False" by code_simp
  with r obtain q where q: "q \<in> set (abort_runs r)" "run_name q = ''start_serving_api''" by (auto simp: list_ex_iff)
  from rollback_uses_previous_database [OF r q] r q show ?thesis
    by (auto simp: sample_lifecycle_def UpgradeLifecycle_def sample_config_def)
qed

theorem preserved_abort_leaves_validation_api_witness:
  "\<exists>r t. abort sample_world sample_config (sample_lifecycle\<lparr>current_api_stopped := False, serving_api_started := False\<rparr>) = (Inr r, t) \<and>
     api_started t"
proof -
  let ?s = "sample_lifecycle\<lparr>current_api_stopped := False, serving_api_started := False\<rparr>"
  have "is_ok (fst (abort sample_world sample_config ?s))" by code_simp
  then obtain r t where r: "abort sample_world sample_config ?s = (Inr r, t)"
    by (cases "abort sample_world sample_config ?s") (auto simp: is_ok_iff)
  with preserved_abort_leaves_validation_api [OF r] show ?thesis by (simp add: sample_lifecycle_def)
qed

end
