(* ===== verification/Spec2Isabelle.thy ===== *)
theory Spec2Isabelle
  imports RelationDecision ImportPublish FileState ReviewCaches Incremental JobExecutor ConnectionPool CodeRegion UpgradeLifecycle
begin

text \<open>
  A model of the coverage review tool \<open>fos_coverage_tool\<close> (the Python code under \<open>src/app\<close>).

  \<^bold>\<open>The program.\<close> The tool imports LCOV tracefiles of C and C++ projects, shows which lines are not
  covered, and lets reviewers attach analysis decisions to lines. When a new scan of a project is
  imported, the decisions of its predecessor are inherited line by line: the Git diff of the two
  commits gives the line mapping, a line-wise C++ lexer and a light parser give the function, the
  control and preprocessor context and the called functions of a line, and a decision is inherited
  only when all of these agree. Reviewers save, confirm, reject and restore decisions. An import works in
  phases with checkpoints and locks and publishes its scan at the end. Background work runs in bounded queues, database connections come from a pool, and an upgrade script switches the service
  between two releases.

  \<^bold>\<open>Theories and sources.\<close>

    \<^item> \<open>Prelude\<close>: Python strings, integers as text, slices, dictionaries, exceptions as values, stateful
      actions that may raise, and \<open>invariant_system\<close>, the locale of a transition system with an
      invariant, which the state machines below interpret.
    \<^item> \<open>CppLexer\<close> (\<open>inheritance/normalizer.py\<close>): both lexers and the spliced logical lines. Tokens come in
      source order, comments and blanks do not count.
    \<^item> \<open>CppParser\<close> (\<open>inheritance/cpp_parser.py\<close>): function ranges, control and preprocessor context,
      definitions and calls of a file. Ranges are well formed; a balanced group of directives leaves the
      context as it was.
    \<^item> \<open>DiffSyntax\<close>, \<open>LineMap\<close> (\<open>inheritance/line_map.py\<close>): hunk headers and the mapping of physical lines.
      The locale \<open>line_mapping_contract\<close> states what a mapping promises (every line accounted for, same
      tokens, no crossing) and is interpreted on \<open>map_text\<close>; \<open>map_git_text\<close> keeps it when Git's diff is
      a diff of the two texts.
    \<^item> \<open>SymbolIndex\<close>, \<open>Dependencies\<close> (\<open>inheritance/dependencies.py\<close>, \<open>compare_line\<close> of
      \<open>inheritance/engine.py\<close>): the eager and the lazy symbol index with its byte budget, evictions and
      resolution cache, the dependency check and the decision for a line, which inherits exactly under its
      seven conditions.
    \<^item> \<open>SourceCache\<close> (caches of \<open>inheritance/engine.py\<close>): the indexes of the commits being compared, the
      pinned pairs, the ancestry answers; byte accounting and budget in every reachable state.
    \<^item> \<open>GitSnapshot\<close> (\<open>inheritance/git_snapshot.py\<close>): the pipe reader with its idle time-out, the batch
      protocol, the Git commands and the lexical candidate index. Yielded files are complete blobs however
      the pipe cuts them.
    \<^item> \<open>RelationDecision\<close> (\<open>inheritance/engine.py\<close>, \<open>inheritance/predecessor.py\<close>): the snapshot of a file, the
      decision for a reviewed line and the range of its block; it composes the five theories before it.
    \<^item> \<open>ReadSet\<close> (\<open>inheritance/read_set.py\<close>): the order-independent fingerprint of what a run has read, as a
      refinement of the multiset of observations.
    \<^item> \<open>Transactions\<close> (\<open>db/transaction.py\<close>, \<open>db/retry.py\<close>), \<open>Rejections\<close> (\<open>inheritance/rejections.py\<close>,
      \<open>db/repositories/project_state_repository.py\<close>): transactions are all or nothing, deadlocks are
      retried a bounded number of times; undo restores what a rejection changed.
    \<^item> \<open>AnalysisDomain\<close> (\<open>db/repositories/analysis_domain_repository.py\<close>, \<open>services/analysis_domain_service.py\<close>),
      \<open>AnalysisSave\<close> (\<open>services/analysis_service.py\<close>, \<open>services/inheritance_review_service.py\<close>): records of
      content, blocks of lines and the relations of lines to them. Every sequence of saves, confirmations,
      rejections and undoings keeps the audit of the service passing; a save changes exactly the lines it
      names; two saves from the same revision do not both succeed; the bulk write of relations does what
      writing them one by one does.
    \<^item> \<open>FileState\<close> (\<open>db/repositories/file_state_repository.py\<close>, \<open>services/file_state_service.py\<close>): the counts of
      every file, their rebuild and the gate that marks a project ready. This is the service that saving, confirming,
      rejecting and undoing are given: after any sequence of them the counts of a ready project are those of
      the facts, and the gate refuses no rebuild.
    \<^item> \<open>InjectFiles\<close>, \<open>CoverageBatches\<close> (\<open>inject/service.py\<close>, \<open>scan_import/coordinator.py\<close>): the records of
      a tracefile as rows of files and lines, in batches within the limits on files, lines and bytes.
    \<^item> \<open>ScanFacts\<close> (\<open>db/repositories/project_repository.py\<close>, \<open>db/repositories/line_index_repository.py\<close>): projects,
      scans, reports, files and lines; a sealed scan does not change.
    \<^item> \<open>JobTable\<close>, \<open>ImportLocks\<close>, \<open>Checkpoints\<close> (\<open>db/repositories/job_repository.py\<close>, \<open>scan_import/locks.py\<close>,
      \<open>scan_import/checkpoints.py\<close>): jobs, the locks of repositories with their fencing tokens, and phases that
      only go forward.
    \<^item> \<open>Publication\<close>, \<open>ScanImport\<close>, \<open>ImportPublish\<close> (\<open>scan_import/publication.py\<close>, \<open>scan_import/coordinator.py\<close>,
      \<open>scan_import/recovery.py\<close>): the coverage phase, which an interruption anywhere leaves exact, the
      publication of the scan, its failure and the reclaim of an import by another worker.
    \<^item> \<open>ReviewCaches\<close> (\<open>code_detail/cache_budget.py\<close>, \<open>code_detail/overlay_cache.py\<close>), \<open>CodeRegion\<close>
      (\<open>code_detail/code_region.py\<close>): the byte budget, the overlay cache, and the regions of a file, which
      partition its lines.
    \<^item> \<open>PathIndex\<close>, \<open>Lcov\<close>, \<open>GitDiff\<close>, \<open>Incremental\<close> (\<open>code_detail/path_index.py\<close>, \<open>lcov.py\<close>,
      \<open>incremental/git_diff.py\<close>, \<open>incremental/blame.py\<close>, \<open>incremental/orchestrator.py\<close>): reading
      tracefiles, diffs and blame output, and the incremental report built from them.
    \<^item> \<open>JobExecutor\<close> (\<open>jobs/bounded_executor.py\<close>), \<open>ConnectionPool\<close> (\<open>db/connection_pool.py\<close>): the
      thread-based components as step relations whose steps are the stretches between lock operations;
      invariants hold for every interleaving.
    \<^item> \<open>UpgradeLifecycle\<close> (\<open>upgrade/lifecycle.py\<close>): the upgrade of the running service and its abort paths.

  \<^bold>\<open>How code is modelled.\<close> A class is a record with one definition per method; an exception is a value of
  \<open>py_error\<close>; a dictionary is an association list in insertion order. Python loops are recursive
  functions with termination proofs; no fuel is used. Git, SHA-256, JSON, clocks, file contents and the
  database driver are parameters: functions or event lists given to the definitions that use them. Where
  a property needs a law of such a parameter (a diff is a diff of the two texts, \<open>git cat-file\<close> answers as
  documented, a rollback restores the committed state), the law is a named hypothesis and a witness
  shows an instance of it. Characters are the code points up to U+00FF.

  \<^bold>\<open>Defects shown.\<close> Some theorems state behaviour that contradicts the documentation: an edit of a
  one-line function or a callee in an unreadable file goes unnoticed, an eviction or a comment before a
  parameter list hides a definition, two runs of one block make the inheritance run fail, an import whose
  locks have been taken goes on, every second review rebuilds all file states of its scan, and a rejected line that is restored may come back with the content
  written for another line.

  \<^bold>\<open>Not modelled.\<close> The paging of \<open>InheritanceEngine.run\<close> and its writes, the registration of an import and
  its staged files, the migration of old analyses, the pages of file states, the other repositories
  and services and the HTTP interface above them, file and spreadsheet output,
  configuration and metrics, release packaging, the frozen copy of the previous release, the command
  line scripts and the browser code: queries, formatting and operating-system calls around the logic
  above.
\<close>

end
